(* ===== verification/Lumice_Prelude.thy ===== *)
theory Lumice_Prelude
  imports Main "HOL-Library.Word" "HOL-Library.List_Lexorder"
begin

text \<open>
  Shared material of the development: the machine integer types of the C++ code, the C operators
  that differ from their HOL namesakes, the collections of simplification rules the component
  theories fill, and generic facts on lists, options and words.

  A value of an unsigned C++ type is modelled either as a word of that width (ids, bit masks) or,
  where the code computes on it as an \<open>int\<close> and stores the result back (face numbers), as a
  \<open>nat\<close> with the narrowing conversion written out (\<open>to_u8\<close>, \<open>to_u16\<close>).
\<close>

unbundle bit_operations_syntax

section \<open>Machine integers\<close>

type_synonym u8 = "8 word"
type_synonym u16 = "16 word"
type_synonym u32 = "32 word"
type_synonym u64 = "64 word"

definition to_u8 :: "int \<Rightarrow> nat" where
  "to_u8 n = nat (n mod 256)"

definition to_u16 :: "int \<Rightarrow> nat" where
  "to_u16 n = nat (n mod 65536)"

text \<open>The C remainder: the sign follows the dividend.\<close>

definition crem :: "int \<Rightarrow> int \<Rightarrow> int" where
  "crem a b = sgn a * (\<bar>a\<bar> mod \<bar>b\<bar>)"

named_theorems lumice_simps \<open>unfolding rules of the model's small definitions\<close>

declare to_u8_def [lumice_simps] to_u16_def [lumice_simps]

lemma to_u8_small [simp]: "n < 256 \<Longrightarrow> to_u8 (int n) = n"
  by (simp add: to_u8_def)

lemma to_u16_small [simp]: "n < 65536 \<Longrightarrow> to_u16 (int n) = n"
  by (simp add: to_u16_def)

lemma to_u8_less [simp]: "to_u8 n < 256"
  by (simp add: to_u8_def)

lemma to_u8_idem [simp]: "to_u8 (int (to_u8 n)) = to_u8 n"
  by (simp add: to_u8_def)

lemma crem_nonneg [simp]: "0 \<le> a \<Longrightarrow> 0 < b \<Longrightarrow> crem a b = a mod b"
  by (cases "a = 0") (auto simp: crem_def sgn_if)

section \<open>Lexicographic comparison of lists\<close>

text \<open>
  C++ compares vectors lexicographically; \<open>HOL-Library.List_Lexorder\<close> makes that the order of
  the list type.
\<close>

lemma lex_append_less_iff [simp]:
  fixes bs xs ys :: "'a::linorder list"
  shows "bs @ xs < bs @ ys \<longleftrightarrow> xs < ys"
  by (induction bs) auto

lemma lex_append_le_iff [simp]:
  fixes bs xs ys :: "'a::linorder list"
  shows "bs @ xs \<le> bs @ ys \<longleftrightarrow> xs \<le> ys"
  by (induction bs) auto

lemma lex_map_less_iff:
  fixes f :: "'a::linorder \<Rightarrow> 'b::linorder"
  assumes "list_all2 (\<lambda>x y. (f x < f y \<longleftrightarrow> x < y) \<and> (f x = f y \<longleftrightarrow> x = y)) xs ys"
  shows "map f xs < map f ys \<longleftrightarrow> xs < ys"
  using assms by (induction rule: list_all2_induct) auto

text \<open>The element-by-element comparison loop over two buffers of one length.\<close>

fun lex_less_buf :: "nat list \<Rightarrow> nat list \<Rightarrow> bool" where
  "lex_less_buf (x # xs) (y # ys) = (if x \<noteq> y then x < y else lex_less_buf xs ys)"
| "lex_less_buf _ _ = False"

lemma lex_less_buf_iff: "length xs = length ys \<Longrightarrow> lex_less_buf xs ys \<longleftrightarrow> xs < ys"
  by (induction xs ys rule: list_induct2) auto

section \<open>Lists and options\<close>

lemma list_all_map_conv: "list_all P (map f xs) \<longleftrightarrow> list_all (\<lambda>x. P (f x)) xs"
  by (simp add: list_all_iff)

lemma list_all2_map_both:
  "list_all2 P (map f xs) (map g xs) \<longleftrightarrow> list_all (\<lambda>x. P (f x) (g x)) xs"
  by (induction xs) auto

lemma list_all_mono_fun: "list_all P xs \<Longrightarrow> (\<And>x. P x \<Longrightarrow> Q x) \<Longrightarrow> list_all Q xs"
  by (auto simp: list_all_iff)

lemma map_cong_all: "list_all P xs \<Longrightarrow> (\<And>x. P x \<Longrightarrow> f x = g x) \<Longrightarrow> map f xs = map g xs"
  by (auto simp: list_all_iff)

lemma map_id_all: "list_all P xs \<Longrightarrow> (\<And>x. P x \<Longrightarrow> f x = x) \<Longrightarrow> map f xs = xs"
  by (auto simp: list_all_iff intro: map_idI)

lemma sorted_remdups_adj_strict: "sorted (xs :: 'a::linorder list) \<Longrightarrow> sorted_wrt (<) (remdups_adj xs)"
  by (induction xs rule: remdups_adj.induct) force+

end
