(* ===== verification/Axis_Distribution.thy ===== *)
theory Axis_Distribution
  imports Complex_Main Lumice_Prelude
begin

text \<open>
  The orientation distribution of a crystal (\<open>src/core/distribution.hpp\<close>,
  \<open>src/core/random.cpp\<close>) and the predicates on it that decide which symmetries an orientation
  ensemble admits (\<open>src/core/crystal.cpp\<close>, \<open>src/core/shared/lat_path_selection.hpp\<close>).

  Floating point numbers are a type parameter \<open>'f\<close> with their primitive operations in a record:
  the model fixes which operations the code applies in which order, and nothing about their rounding.
\<close>

section \<open>Floating point operations as a parameter\<close>

record 'f float_ops =
  fl_of_int :: "int \<Rightarrow> 'f"
  fl_eps :: 'f
  fl_add :: "'f \<Rightarrow> 'f \<Rightarrow> 'f"
  fl_sub :: "'f \<Rightarrow> 'f \<Rightarrow> 'f"
  fl_mul :: "'f \<Rightarrow> 'f \<Rightarrow> 'f"
  fl_div :: "'f \<Rightarrow> 'f \<Rightarrow> 'f"
  fl_abs :: "'f \<Rightarrow> 'f"
  fl_lt :: "'f \<Rightarrow> 'f \<Rightarrow> bool"
  fl_eq :: "'f \<Rightarrow> 'f \<Rightarrow> bool"
  fl_fmod :: "'f \<Rightarrow> 'f \<Rightarrow> 'f"
  fl_round :: "'f \<Rightarrow> int"
  fl_cos :: "'f \<Rightarrow> 'f"
  fl_sin :: "'f \<Rightarrow> 'f"
  fl_deg_to_rad :: 'f

definition FloatEqual :: "('f, 'z) float_ops_scheme \<Rightarrow> 'f \<Rightarrow> 'f \<Rightarrow> bool" where
  "FloatEqual fl a b = fl_lt fl (fl_abs fl (fl_sub fl a b)) (fl_eps fl)"

text \<open>A concrete set of operations, over the rationals, at which hypotheses can be evaluated.\<close>

definition rat_ops :: "rat float_ops" where
  "rat_ops = \<lparr> fl_of_int = of_int, fl_eps = 1 / 100000, fl_add = (+), fl_sub = (-), fl_mul = (*),
     fl_div = (/), fl_abs = abs, fl_lt = (<), fl_eq = (=),
     fl_fmod = (\<lambda>a b. a - b * (if 0 \<le> a / b then of_int (floor (a / b)) else of_int (ceiling (a / b)))),
     fl_round = round, fl_cos = (\<lambda>_. 1), fl_sin = (\<lambda>_. 0), fl_deg_to_rad = 1 \<rparr>"

section \<open>Distributions\<close>

datatype DistributionType =
  kNoRandom | kUniform | kGaussian | kZigzag | kLaplacian | kGaussianLegacy

record 'f Distribution =
  dist_type :: DistributionType
  dist_center :: 'f
  dist_spread :: 'f

record 'f AxisDistribution =
  azimuth_dist :: "'f Distribution"
  latitude_dist :: "'f Distribution"
  roll_dist :: "'f Distribution"

definition DistributionValueEqual :: "('f, 'z) float_ops_scheme \<Rightarrow> 'f Distribution \<Rightarrow> 'f Distribution \<Rightarrow> bool"
where
  "DistributionValueEqual fl a b \<longleftrightarrow>
     dist_type a = dist_type b \<and> fl_eq fl (dist_center a) (dist_center b) \<and> fl_eq fl (dist_spread a) (dist_spread b)"

definition IsFullTurnUniform :: "('f, 'z) float_ops_scheme \<Rightarrow> DistributionType \<Rightarrow> 'f \<Rightarrow> bool" where
  "IsFullTurnUniform fl ty full_range_deg \<longleftrightarrow>
     ty = kUniform \<and> FloatEqual fl full_range_deg (fl_of_int fl 360)"

definition IsRollRotationallySymmetric :: "('f, 'z) float_ops_scheme \<Rightarrow> 'f AxisDistribution \<Rightarrow> bool" where
  "IsRollRotationallySymmetric fl d =
     IsFullTurnUniform fl (dist_type (roll_dist d)) (dist_spread (roll_dist d))"

definition IsAzRotationallySymmetric :: "('f, 'z) float_ops_scheme \<Rightarrow> 'f AxisDistribution \<Rightarrow> bool" where
  "IsAzRotationallySymmetric fl d =
     IsFullTurnUniform fl (dist_type (azimuth_dist d)) (dist_spread (azimuth_dist d))"

definition IsFullSphereUniform :: "('f, 'z) float_ops_scheme \<Rightarrow> 'f AxisDistribution \<Rightarrow> bool" where
  "IsFullSphereUniform fl d \<longleftrightarrow>
     dist_type (azimuth_dist d) = kUniform \<and>
     FloatEqual fl (dist_center (azimuth_dist d)) (fl_of_int fl 0) \<and>
     FloatEqual fl (dist_spread (azimuth_dist d)) (fl_of_int fl 360) \<and>
     dist_type (latitude_dist d) = kUniform \<and>
     FloatEqual fl (dist_center (latitude_dist d)) (fl_of_int fl 90) \<and>
     FloatEqual fl (dist_spread (latitude_dist d)) (fl_of_int fl 360) \<and>
     IsRollRotationallySymmetric fl d"

definition IsAxisDeterministic :: "'f AxisDistribution \<Rightarrow> bool" where
  "IsAxisDeterministic d \<longleftrightarrow>
     dist_type (azimuth_dist d) = kNoRandom \<and> dist_type (latitude_dist d) = kNoRandom \<and>
     dist_type (roll_dist d) = kNoRandom"

lemma deterministic_not_full_sphere: "IsAxisDeterministic d \<Longrightarrow> \<not> IsFullSphereUniform fl d"
  by (simp add: IsAxisDeterministic_def IsFullSphereUniform_def)

section \<open>The latitude sampling path\<close>

datatype LatPathKind = kFullSphere | kNoRandomPath | kGaussLegacy | kLutInverseCdf

definition SelectLatPath :: "('f, 'z) float_ops_scheme \<Rightarrow> 'f AxisDistribution \<Rightarrow> LatPathKind" where
  "SelectLatPath fl axis_dist =
     (if IsFullSphereUniform fl axis_dist then kFullSphere
      else let lat_type = dist_type (latitude_dist axis_dist) in
        if lat_type = kNoRandom then kNoRandomPath
        else if lat_type = kGaussianLegacy then kGaussLegacy
        else kLutInverseCdf)"

section \<open>The ensemble's symmetry conditions\<close>

definition IsRollAnchorAtMultipleOf30 :: "('f, 'z) float_ops_scheme \<Rightarrow> 'f \<Rightarrow> bool" where
  "IsRollAnchorAtMultipleOf30 fl roll_anchor_deg =
     (let remainder = fl_fmod fl (fl_add fl (fl_fmod fl roll_anchor_deg (fl_of_int fl 30)) (fl_of_int fl 30))
                        (fl_of_int fl 30)
      in FloatEqual fl remainder (fl_of_int fl 0) \<or> FloatEqual fl remainder (fl_of_int fl 30))"

definition ComputeSigmaA :: "('f, 'z) float_ops_scheme \<Rightarrow> 'f \<Rightarrow> int" where
  "ComputeSigmaA fl roll_mean_deg =
     (if fl_lt fl (fl_of_int fl 1000000) (fl_abs fl roll_mean_deg) then 0
      else let n = crem (crem (fl_round fl (fl_div fl roll_mean_deg (fl_of_int fl 30))) 6 + 6) 6
           in crem (6 - n) 6)"

definition IsDApplicableParams :: "('f, 'z) float_ops_scheme \<Rightarrow> DistributionType \<Rightarrow> 'f \<Rightarrow> 'f \<Rightarrow> bool" where
  "IsDApplicableParams fl azimuth_type azimuth_full_range_deg roll_anchor_deg \<longleftrightarrow>
     IsFullTurnUniform fl azimuth_type azimuth_full_range_deg \<and> IsRollAnchorAtMultipleOf30 fl roll_anchor_deg"

definition IsDApplicable :: "('f, 'z) float_ops_scheme \<Rightarrow> 'f AxisDistribution \<Rightarrow> bool" where
  "IsDApplicable fl d =
     IsDApplicableParams fl (dist_type (azimuth_dist d)) (dist_spread (azimuth_dist d)) (dist_center (roll_dist d))"

record DSymmetryParams =
  ds_d_applicable :: bool
  ds_sigma_a :: int

definition DeriveDSymmetryParams :: "('f, 'z) float_ops_scheme \<Rightarrow> 'f AxisDistribution \<Rightarrow> DSymmetryParams" where
  "DeriveDSymmetryParams fl d =
     (let d_applicable = IsDApplicable fl d in
      \<lparr> ds_d_applicable = d_applicable,
        ds_sigma_a = (if d_applicable then ComputeSigmaA fl (dist_center (roll_dist d)) else 0) \<rparr>)"

definition IsPApplicable :: "('f, 'z) float_ops_scheme \<Rightarrow> 'f AxisDistribution \<Rightarrow> bool" where
  "IsPApplicable fl d = IsFullTurnUniform fl (dist_type (roll_dist d)) (dist_spread (roll_dist d))"

definition IsBApplicableParams ::
  "('f, 'z) float_ops_scheme \<Rightarrow> DistributionType \<Rightarrow> 'f \<Rightarrow> DistributionType \<Rightarrow> 'f \<Rightarrow> 'f \<Rightarrow> bool" where
  "IsBApplicableParams fl azimuth_type azimuth_full_range_deg latitude_type latitude_center_deg
       latitude_full_range_deg =
     (if \<not> IsFullTurnUniform fl azimuth_type azimuth_full_range_deg then False
      else if IsFullTurnUniform fl latitude_type latitude_full_range_deg then True
      else case latitude_type of
             kZigzag \<Rightarrow> False
           | _ \<Rightarrow> FloatEqual fl latitude_center_deg (fl_of_int fl 0))"

definition IsBApplicable :: "('f, 'z) float_ops_scheme \<Rightarrow> 'f AxisDistribution \<Rightarrow> bool" where
  "IsBApplicable fl d =
     IsBApplicableParams fl (dist_type (azimuth_dist d)) (dist_spread (azimuth_dist d))
       (dist_type (latitude_dist d)) (dist_center (latitude_dist d)) (dist_spread (latitude_dist d))"

definition latitude_centered_at_pole :: "('f, 'z) float_ops_scheme \<Rightarrow> 'f \<Rightarrow> bool" where
  "latitude_centered_at_pole fl c \<longleftrightarrow>
     FloatEqual fl c (fl_of_int fl 90) \<or> FloatEqual fl c (fl_of_int fl (- 90))"

definition GluingRetainsHalfTurn :: "('f, 'z) float_ops_scheme \<Rightarrow> 'f AxisDistribution \<Rightarrow> bool" where
  "GluingRetainsHalfTurn fl d =
     (if \<not> IsFullTurnUniform fl (dist_type (azimuth_dist d)) (dist_spread (azimuth_dist d)) then False
      else if SelectLatPath fl d \<noteq> kLutInverseCdf \<and> SelectLatPath fl d \<noteq> kGaussLegacy then False
      else let lat = latitude_dist d in
        if dist_type lat = kZigzag \<or> dist_type lat = kNoRandom then False
        else latitude_centered_at_pole fl (dist_center lat) \<and>
             \<not> FloatEqual fl (dist_spread lat) (fl_of_int fl 0))"

lemma crem_6_range: "0 \<le> crem (6 - crem (crem r 6 + 6) 6) 6 \<and> crem (6 - crem (crem r 6 + 6) 6) 6 < 6"
proof -
  have "- 6 < crem r 6"
    by (auto simp: crem_def sgn_if)
  then have "0 \<le> crem r 6 + 6" by simp
  then have "0 \<le> crem (crem r 6 + 6) 6 \<and> crem (crem r 6 + 6) 6 < 6" by simp
  then show ?thesis by simp
qed

text \<open>The mirror index the ensemble hands to the reductions is always one of the six mirrors.\<close>

lemma ComputeSigmaA_range: "0 \<le> ComputeSigmaA fl m \<and> ComputeSigmaA fl m < 6"
  using crem_6_range by (simp add: ComputeSigmaA_def Let_def)

lemma DeriveDSymmetryParams_range:
  "0 \<le> ds_sigma_a (DeriveDSymmetryParams fl d) \<and> ds_sigma_a (DeriveDSymmetryParams fl d) < 6"
  by (simp add: DeriveDSymmetryParams_def Let_def ComputeSigmaA_range)

end
