(* ===== verification/Face_Labels.thy ===== *)
theory Face_Labels
  imports Lumice_Prelude
begin

text \<open>
  The face numbers of the hexagonal crystal family (\<open>src/core/crystal.cpp\<close>,
  \<open>src/core/crystal_kind.hpp\<close>) and the three relabellings the raypath symmetries are made of:
  rotating the prism index (P), reflecting it (D) and exchanging the two basal faces and the two
  cones (B).  The relabellings are given here as functions of one legal face; that the code's byte and
  vector loops compute them is shown in the theories that model those loops.
\<close>

section \<open>Legal face numbers\<close>

datatype CrystalKind = kPrism | kPyramid

definition IsLegalFace :: "CrystalKind \<Rightarrow> int \<Rightarrow> bool" where
  "IsLegalFace kind face =
     (let is_basal = (face = 1 \<or> face = 2);
          is_prism_lateral = (3 \<le> face \<and> face \<le> 8);
          is_upper_pyramid = (13 \<le> face \<and> face \<le> 18);
          is_lower_pyramid = (23 \<le> face \<and> face \<le> 28)
      in case kind of
           kPrism \<Rightarrow> is_basal \<or> is_prism_lateral
         | kPyramid \<Rightarrow> is_basal \<or> is_prism_lateral \<or> is_upper_pyramid \<or> is_lower_pyramid)"

abbreviation legal :: "nat \<Rightarrow> bool" where
  "legal x \<equiv> IsLegalFace kPyramid (int x)"

abbreviation legal_path :: "nat list \<Rightarrow> bool" where
  "legal_path \<equiv> list_all legal"

definition legal_faces :: "nat list" where
  "legal_faces = [1,2,3,4,5,6,7,8,13,14,15,16,17,18,23,24,25,26,27,28]"

lemma legal_iff: "legal x \<longleftrightarrow>
    x = 1 \<or> x = 2 \<or> (3 \<le> x \<and> x \<le> 8) \<or> (13 \<le> x \<and> x \<le> 18) \<or> (23 \<le> x \<and> x \<le> 28)"
  by (auto simp: IsLegalFace_def Let_def)

lemma legal_set: "legal x \<longleftrightarrow> x \<in> set legal_faces"
  by (simp only: legal_iff legal_faces_def list.set insert_iff empty_iff) arith

lemma legal_all_faces: "(\<forall>x. legal x \<longrightarrow> P x) \<longleftrightarrow> list_all P legal_faces"
  by (simp only: legal_set list_all_iff Ball_def)

lemma legal_elim:
  assumes "legal x" and "list_all P legal_faces"
  shows "P x"
  using assms by (simp add: legal_set list_all_iff)

lemma legal_le: "legal x \<Longrightarrow> x \<le> 28"
  by (auto simp: legal_iff)

lemma kPrism_legal: "IsLegalFace kPrism f \<Longrightarrow> IsLegalFace kPyramid f"
  by (auto simp: IsLegalFace_def Let_def)

section \<open>The three relabellings of one face\<close>

definition rot_face :: "nat \<Rightarrow> nat \<Rightarrow> nat" where
  "rot_face k x = (if x < 3 then x else 10 * (x div 10) + ((x mod 10 + 3 + k) mod 6 + 3))"

definition mir_face :: "nat \<Rightarrow> nat \<Rightarrow> nat" where
  "mir_face a x = (if x < 3 then x else 10 * (x div 10) + ((a + 15 - x mod 10) mod 6 + 3))"

definition flip_face :: "nat \<Rightarrow> nat" where
  "flip_face x = (if x \<le> 2 then 3 - x
                  else if 13 \<le> x \<and> x \<le> 18 then x + 10
                  else if 23 \<le> x \<and> x \<le> 28 then x - 10
                  else x)"

lemma lt6_cases: "k < 6 \<Longrightarrow> list_all P [0,1,2,3,4,5] \<Longrightarrow> P (k::nat)"
proof -
  assume "k < 6" and P: "list_all P [0,1,2,3,4,5]"
  then have "k \<in> {0,1,2,3,4,5}" by auto
  with P show "P k" by auto
qed

text \<open>Each law below is a check of the twenty legal faces, and of the six indices where one occurs.\<close>

lemma rot_face_mod [simp]: "rot_face (k mod 6) x = rot_face k x"
  by (simp add: rot_face_def mod_add_right_eq)

lemma mod6_eqI: "(m::nat) mod 6 = n mod 6 \<Longrightarrow> rot_face m = rot_face n"
  by (metis ext rot_face_mod)

lemma rot_face_0 [simp]: "legal x \<Longrightarrow> rot_face 0 x = x"
  by (erule legal_elim) code_simp

lemma rot_face_6 [simp]: "legal x \<Longrightarrow> rot_face 6 x = x"
  by (erule legal_elim) code_simp

lemma legal_rot_face [simp]:
  assumes "legal x" shows "legal (rot_face k x)"
proof -
  have "list_all (\<lambda>x. list_all (\<lambda>k. legal (rot_face k x)) [0,1,2,3,4,5]) legal_faces"
    by code_simp
  from legal_elim [OF assms this] have "legal (rot_face (k mod 6) x)"
    by (rule lt6_cases [rotated]) simp
  then show ?thesis by simp
qed

lemma rot_rot_face [simp]:
  assumes "legal x" shows "rot_face j (rot_face k x) = rot_face (j + k) x"
proof -
  have "list_all (\<lambda>x. list_all (\<lambda>k. list_all
      (\<lambda>j. rot_face j (rot_face k x) = rot_face (j + k) x) [0,1,2,3,4,5]) [0,1,2,3,4,5]) legal_faces"
    by code_simp
  from legal_elim [OF assms this]
  have "list_all (\<lambda>j. rot_face j (rot_face (k mod 6) x) = rot_face (j + k mod 6) x) [0,1,2,3,4,5]"
    by (rule lt6_cases [rotated]) simp
  then have "rot_face (j mod 6) (rot_face (k mod 6) x) = rot_face (j mod 6 + k mod 6) x"
    by (rule lt6_cases [rotated]) simp
  then show ?thesis by (metis mod_add_eq rot_face_mod)
qed

lemma legal_mir_face [simp]:
  assumes "legal x" and "a < 6" shows "legal (mir_face a x)"
proof -
  have "list_all (\<lambda>x. list_all (\<lambda>a. legal (mir_face a x)) [0,1,2,3,4,5]) legal_faces"
    by code_simp
  from legal_elim [OF assms(1) this] show ?thesis by (rule lt6_cases [OF assms(2)])
qed

lemma mir_mir_face [simp]:
  assumes "legal x" and "a < 6" shows "mir_face a (mir_face a x) = x"
proof -
  have "list_all (\<lambda>x. list_all (\<lambda>a. mir_face a (mir_face a x) = x) [0,1,2,3,4,5]) legal_faces"
    by code_simp
  from legal_elim [OF assms(1) this] show ?thesis by (rule lt6_cases [OF assms(2)])
qed

lemma mir_rot_face:
  assumes "legal x" and "a < 6" and "k < 6"
  shows "mir_face a (rot_face k x) = rot_face (6 - k) (mir_face a x)"
proof -
  have "list_all (\<lambda>x. list_all (\<lambda>a. list_all
      (\<lambda>k. mir_face a (rot_face k x) = rot_face (6 - k) (mir_face a x)) [0,1,2,3,4,5]) [0,1,2,3,4,5]) legal_faces"
    by code_simp
  from legal_elim [OF assms(1) this]
  have "list_all (\<lambda>k. mir_face a (rot_face k x) = rot_face (6 - k) (mir_face a x)) [0,1,2,3,4,5]"
    by (rule lt6_cases [OF assms(2)])
  then show ?thesis by (rule lt6_cases [OF assms(3)])
qed

lemma legal_flip_face [simp]: "legal x \<Longrightarrow> legal (flip_face x)"
  by (erule legal_elim) code_simp

lemma flip_flip_face [simp]: "legal x \<Longrightarrow> flip_face (flip_face x) = x"
  by (erule legal_elim) code_simp

lemma flip_rot_face:
  assumes "legal x" shows "flip_face (rot_face k x) = rot_face k (flip_face x)"
proof -
  have "list_all (\<lambda>x. list_all (\<lambda>k. flip_face (rot_face k x) = rot_face k (flip_face x)) [0,1,2,3,4,5])
      legal_faces"
    by code_simp
  from legal_elim [OF assms this]
  have "flip_face (rot_face (k mod 6) x) = rot_face (k mod 6) (flip_face x)"
    by (rule lt6_cases [rotated]) simp
  then show ?thesis by simp
qed

lemma flip_mir_face:
  assumes "legal x" and "a < 6" shows "flip_face (mir_face a x) = mir_face a (flip_face x)"
proof -
  have "list_all (\<lambda>x. list_all (\<lambda>a. flip_face (mir_face a x) = mir_face a (flip_face x)) [0,1,2,3,4,5])
      legal_faces"
    by code_simp
  from legal_elim [OF assms(1) this] show ?thesis by (rule lt6_cases [OF assms(2)])
qed

section \<open>Rings: what rotations and mirrors keep\<close>

text \<open>
  A ring is one basal face or the six faces that share a tens digit.  Rotations and mirrors stay in
  the ring, and inside one ring the exchange B is monotone: this is what lets the reduction compare
  P and D images first and apply B last.
\<close>

definition same_ring :: "nat \<Rightarrow> nat \<Rightarrow> bool" where
  "same_ring x y = (if x < 3 \<or> y < 3 then x = y else x div 10 = y div 10)"

lemma same_ring_refl [simp]: "same_ring x x"
  by (simp add: same_ring_def)

lemma same_ring_sym: "same_ring x y \<Longrightarrow> same_ring y x"
  by (auto simp: same_ring_def split: if_splits)

lemma same_ring_trans: "same_ring x y \<Longrightarrow> same_ring y z \<Longrightarrow> same_ring x z"
  by (auto simp: same_ring_def split: if_splits)

lemma same_ring_rot [simp]: "legal x \<Longrightarrow> same_ring x (rot_face k x)"
proof -
  assume "legal x"
  moreover have "list_all (\<lambda>x. list_all (\<lambda>k. same_ring x (rot_face k x)) [0,1,2,3,4,5]) legal_faces"
    by code_simp
  ultimately have "list_all (\<lambda>k. same_ring x (rot_face k x)) [0,1,2,3,4,5]" by (rule legal_elim)
  then have "same_ring x (rot_face (k mod 6) x)" by (rule lt6_cases [rotated]) simp
  then show ?thesis by simp
qed

lemma same_ring_mir [simp]: "legal x \<Longrightarrow> a < 6 \<Longrightarrow> same_ring x (mir_face a x)"
proof -
  assume "legal x" and a: "a < 6"
  moreover have "list_all (\<lambda>x. list_all (\<lambda>a. same_ring x (mir_face a x)) [0,1,2,3,4,5]) legal_faces"
    by code_simp
  ultimately have "list_all (\<lambda>a. same_ring x (mir_face a x)) [0,1,2,3,4,5]" by - (rule legal_elim)
  then show ?thesis by (rule lt6_cases [OF a])
qed

lemma flip_face_mono_in_ring:
  assumes "legal x" and "legal y" and "same_ring x y"
  shows "(flip_face x < flip_face y \<longleftrightarrow> x < y) \<and> (flip_face x = flip_face y \<longleftrightarrow> x = y)"
proof -
  have "list_all (\<lambda>x. list_all (\<lambda>y. same_ring x y \<longrightarrow>
      (flip_face x < flip_face y \<longleftrightarrow> x < y) \<and> (flip_face x = flip_face y \<longleftrightarrow> x = y)) legal_faces) legal_faces"
    by code_simp
  from legal_elim [OF assms(1) this] have "list_all (\<lambda>y. same_ring x y \<longrightarrow>
      (flip_face x < flip_face y \<longleftrightarrow> x < y) \<and> (flip_face x = flip_face y \<longleftrightarrow> x = y)) legal_faces" .
  from legal_elim [OF assms(2) this] assms(3) show ?thesis by simp
qed

end
