(* ===== verification/Symmetry_Gating.thy ===== *)
theory Symmetry_Gating
  imports Axis_Distribution Face_Labels
begin

text \<open>
  Which part of the hexagonal symmetry a reduction may use (\<open>src/core/crystal.hpp\<close>,
  \<open>src/core/crystal.cpp\<close>): the shape's symmetry, the set of P rotations an orientation ensemble
  retains, and \<open>DeriveSymmetryGating\<close>, which intersects them.  The lemmas show that every retained set
  the code derives is a subgroup of the six rotations, inside the shape's own rotations.
\<close>

section \<open>Request bits and geometric symmetry\<close>

definition kSymNone :: u8 where "kSymNone = 0"
definition kSymP :: u8 where "kSymP = 1"
definition kSymB :: u8 where "kSymB = 2"
definition kSymD :: u8 where "kSymD = 4"

definition kHexagonalFnPeriod :: int where "kHexagonalFnPeriod = 6"

record GeometricSymmetry =
  gs_p_step :: int
  gs_d_valid_sigma_mask :: u8
  gs_b_applicable :: bool

definition kFullHexagonalSymmetry :: GeometricSymmetry where
  "kFullHexagonalSymmetry = \<lparr> gs_p_step = 1, gs_d_valid_sigma_mask = 0x3F, gs_b_applicable = True \<rparr>"

definition AllowsMirror :: "GeometricSymmetry \<Rightarrow> int \<Rightarrow> bool" where
  "AllowsMirror g sigma_a \<longleftrightarrow>
     0 \<le> sigma_a \<and> sigma_a < kHexagonalFnPeriod \<and>
     drop_bit (nat sigma_a) (gs_d_valid_sigma_mask g) AND 1 \<noteq> 0"

definition DMirrorActive :: "bool \<Rightarrow> int \<Rightarrow> GeometricSymmetry \<Rightarrow> bool" where
  "DMirrorActive d_applicable sigma_a g \<longleftrightarrow> d_applicable \<and> AllowsMirror g sigma_a"

definition MirrorFaceIndex :: "int \<Rightarrow> int \<Rightarrow> int \<Rightarrow> int" where
  "MirrorFaceIndex i sigma_a period = crem (crem (sigma_a - i) period + period) period"

lemma DMirrorActive_range: "DMirrorActive d a g \<Longrightarrow> 0 \<le> a \<and> a < 6"
  by (simp add: DMirrorActive_def AllowsMirror_def kHexagonalFnPeriod_def)

section \<open>Sets of retained rotations\<close>

record PRotationSet =
  prs_bits :: u8

definition PRotationSet_Full :: PRotationSet where
  "PRotationSet_Full = \<lparr> prs_bits = 0x3F \<rparr>"

definition PRotationSet_Identity :: PRotationSet where
  "PRotationSet_Identity = \<lparr> prs_bits = 0x01 \<rparr>"

text \<open>The loop of \<open>FromStep\<close>; it starts at \<open>k = step\<close>, so a step that is not positive never enters it.\<close>

function from_step_loop :: "int \<Rightarrow> int \<Rightarrow> u8 \<Rightarrow> u8" where
  "from_step_loop step k b =
     (if 0 < k \<and> k < 6 \<and> 0 < step then from_step_loop step (k + step) (b OR push_bit (nat k) 1) else b)"
  by pat_completeness auto
termination
  by (relation "measure (\<lambda>(step, k, b). nat (6 - k))") auto

declare from_step_loop.simps [simp del]

definition FromStep :: "int \<Rightarrow> PRotationSet" where
  "FromStep step = \<lparr> prs_bits = from_step_loop step step 0x01 \<rparr>"

definition Keep :: "PRotationSet \<Rightarrow> int \<Rightarrow> PRotationSet" where
  "Keep s k = s\<lparr> prs_bits := prs_bits s OR push_bit (nat k) 1 \<rparr>"

definition Keeps :: "PRotationSet \<Rightarrow> int \<Rightarrow> bool" where
  "Keeps s k \<longleftrightarrow> drop_bit (nat k) (prs_bits s) AND 1 \<noteq> 0"

definition GeneratorStep :: "PRotationSet \<Rightarrow> int" where
  "GeneratorStep s =
     (let step = fold (\<lambda>k step. if Keeps s k then gcd step k else step) [1, 2, 3, 4, 5] 0
      in if step = 0 then 6 else step)"

definition NonTrivial :: "PRotationSet \<Rightarrow> bool" where
  "NonTrivial s \<longleftrightarrow> s \<noteq> PRotationSet_Identity"

definition RollRetainedRotations :: "('f, 'z) float_ops_scheme \<Rightarrow> 'f Distribution \<Rightarrow> PRotationSet" where
  "RollRetainedRotations fl roll =
     fold (\<lambda>k s. if IsFullTurnUniform fl (dist_type roll) (dist_spread roll) then Keep s k else s)
       [0, 1, 2, 3, 4, 5] \<lparr> prs_bits = 0x01 \<rparr>"

definition JoinRetainedSubgroups :: "PRotationSet \<Rightarrow> PRotationSet \<Rightarrow> PRotationSet" where
  "JoinRetainedSubgroups a b = FromStep (gcd (GeneratorStep a) (GeneratorStep b))"

definition RetainedOnShape :: "PRotationSet \<Rightarrow> int \<Rightarrow> PRotationSet" where
  "RetainedOnShape m shape_p_step = FromStep (lcm (GeneratorStep m) shape_p_step)"

datatype SymmetrySemantics = kLabel | kPhysical

record SymmetryGating =
  sg_geom :: GeometricSymmetry
  sg_p_retained :: PRotationSet
  sg_b_applicable :: bool

definition DeriveSymmetryGating ::
  "('f, 'z) float_ops_scheme \<Rightarrow> SymmetrySemantics \<Rightarrow> GeometricSymmetry \<Rightarrow> 'f AxisDistribution \<Rightarrow> SymmetryGating"
where
  "DeriveSymmetryGating fl semantics shape_geom axis_dist =
     (if semantics = kLabel then
        \<lparr> sg_geom = kFullHexagonalSymmetry, sg_p_retained = PRotationSet_Full, sg_b_applicable = True \<rparr>
      else
        let m = JoinRetainedSubgroups (RollRetainedRotations fl (roll_dist axis_dist))
              (if GluingRetainsHalfTurn fl axis_dist then FromStep 3 else PRotationSet_Identity)
        in \<lparr> sg_geom = shape_geom, sg_p_retained = RetainedOnShape m (gs_p_step shape_geom),
             sg_b_applicable = IsBApplicable fl axis_dist \<rparr>)"

section \<open>Retained sets are subgroups\<close>

definition subgroup_steps :: "int list" where
  "subgroup_steps = [1, 2, 3, 6]"

text \<open>The strides the reductions may rely on: the set is generated by a divisor of six.\<close>

definition is_subgroup :: "PRotationSet \<Rightarrow> bool" where
  "is_subgroup s \<longleftrightarrow> s \<in> FromStep ` set subgroup_steps"

lemma FromStep_eval:
  "FromStep 1 = \<lparr> prs_bits = 0x3F \<rparr>" "FromStep 2 = \<lparr> prs_bits = 0x15 \<rparr>"
  "FromStep 3 = \<lparr> prs_bits = 0x09 \<rparr>" "FromStep 6 = \<lparr> prs_bits = 0x01 \<rparr>"
  by (simp_all add: FromStep_def from_step_loop.simps)

lemma GeneratorStep_bits:
  "GeneratorStep \<lparr> prs_bits = 0x3F \<rparr> = 1" "GeneratorStep \<lparr> prs_bits = 0x15 \<rparr> = 2"
  "GeneratorStep \<lparr> prs_bits = 0x09 \<rparr> = 3" "GeneratorStep \<lparr> prs_bits = 0x01 \<rparr> = 6"
  by code_simp+

lemma GeneratorStep_FromStep [simp]: "s \<in> set subgroup_steps \<Longrightarrow> GeneratorStep (FromStep s) = s"
  by (auto simp: subgroup_steps_def FromStep_eval GeneratorStep_bits)

lemma Full_FromStep: "PRotationSet_Full = FromStep 1"
  by (simp add: PRotationSet_Full_def FromStep_eval)

lemma Identity_FromStep: "PRotationSet_Identity = FromStep 6"
  by (simp add: PRotationSet_Identity_def FromStep_eval)

lemma is_subgroup_FromStep [simp]: "s \<in> set subgroup_steps \<Longrightarrow> is_subgroup (FromStep s)"
  by (simp add: is_subgroup_def)

lemma is_subgroup_Full [simp]: "is_subgroup PRotationSet_Full"
  by (simp add: Full_FromStep subgroup_steps_def)

lemma is_subgroup_Identity [simp]: "is_subgroup PRotationSet_Identity"
  by (simp add: Identity_FromStep subgroup_steps_def)

lemma is_subgroup_step: "is_subgroup s \<Longrightarrow> GeneratorStep s \<in> set subgroup_steps"
  by (auto simp: is_subgroup_def)

lemma NonTrivial_step: "is_subgroup s \<Longrightarrow> NonTrivial s \<longleftrightarrow> GeneratorStep s \<in> {1, 2, 3}"
  by (auto simp: is_subgroup_def subgroup_steps_def NonTrivial_def PRotationSet_Identity_def FromStep_eval
      GeneratorStep_bits)

lemma Keeps_bits:
  "list_all (\<lambda>k. Keeps \<lparr> prs_bits = 0x3F \<rparr> k \<longleftrightarrow> 1 dvd k) [0, 1, 2, 3, 4, 5]"
  "list_all (\<lambda>k. Keeps \<lparr> prs_bits = 0x15 \<rparr> k \<longleftrightarrow> 2 dvd k) [0, 1, 2, 3, 4, 5]"
  "list_all (\<lambda>k. Keeps \<lparr> prs_bits = 0x09 \<rparr> k \<longleftrightarrow> 3 dvd k) [0, 1, 2, 3, 4, 5]"
  "list_all (\<lambda>k. Keeps \<lparr> prs_bits = 0x01 \<rparr> k \<longleftrightarrow> 6 dvd k) [0, 1, 2, 3, 4, 5]"
  by code_simp+

lemma Keeps_subgroup:
  assumes "is_subgroup s"
  shows "list_all (\<lambda>k. Keeps s k \<longleftrightarrow> GeneratorStep s dvd k) [0, 1, 2, 3, 4, 5]"
proof -
  from assms obtain n where n: "n \<in> set subgroup_steps" and s: "s = FromStep n"
    by (auto simp: is_subgroup_def)
  from n consider "n = 1" | "n = 2" | "n = 3" | "n = 6"
    unfolding subgroup_steps_def list.set by blast
  then show ?thesis
    unfolding s by cases (simp_all only: FromStep_eval GeneratorStep_bits Keeps_bits)
qed

lemma gcd_subgroup_steps: "a \<in> set subgroup_steps \<Longrightarrow> b \<in> set subgroup_steps \<Longrightarrow> gcd a b \<in> set subgroup_steps"
  by (auto simp: subgroup_steps_def)

lemma lcm_subgroup_steps: "a \<in> set subgroup_steps \<Longrightarrow> b \<in> set subgroup_steps \<Longrightarrow> lcm a b \<in> set subgroup_steps"
proof -
  have "list_all (\<lambda>a. list_all (\<lambda>b. lcm a b \<in> set subgroup_steps) subgroup_steps) subgroup_steps"
    by code_simp
  then show "a \<in> set subgroup_steps \<Longrightarrow> b \<in> set subgroup_steps \<Longrightarrow> lcm a b \<in> set subgroup_steps"
    by (simp only: list_all_iff)
qed

lemma is_subgroup_RollRetained: "is_subgroup (RollRetainedRotations fl roll)"
proof (cases "IsFullTurnUniform fl (dist_type roll) (dist_spread roll)")
  case True
  then have "RollRetainedRotations fl roll = FromStep 1"
    by (simp add: RollRetainedRotations_def Keep_def FromStep_eval)
  then show ?thesis by (simp add: subgroup_steps_def)
next
  case False
  then have "RollRetainedRotations fl roll = FromStep 6"
    by (simp add: RollRetainedRotations_def FromStep_eval)
  then show ?thesis by (simp add: subgroup_steps_def)
qed

lemma is_subgroup_Join: "is_subgroup a \<Longrightarrow> is_subgroup b \<Longrightarrow> is_subgroup (JoinRetainedSubgroups a b)"
  by (simp add: JoinRetainedSubgroups_def gcd_subgroup_steps is_subgroup_step)

lemma is_subgroup_OnShape:
  "is_subgroup a \<Longrightarrow> p \<in> set subgroup_steps \<Longrightarrow> is_subgroup (RetainedOnShape a p)"
  by (simp add: RetainedOnShape_def lcm_subgroup_steps is_subgroup_step)

lemma GeneratorStep_OnShape:
  "is_subgroup a \<Longrightarrow> p \<in> set subgroup_steps \<Longrightarrow> GeneratorStep (RetainedOnShape a p) = lcm (GeneratorStep a) p"
  by (simp add: RetainedOnShape_def lcm_subgroup_steps is_subgroup_step)

lemma is_subgroup_measure:
  "is_subgroup (JoinRetainedSubgroups (RollRetainedRotations fl roll)
     (if h then FromStep 3 else PRotationSet_Identity))"
  by (rule is_subgroup_Join) (auto simp: is_subgroup_RollRetained subgroup_steps_def)

lemma is_subgroup_gating [simp]:
  assumes "gs_p_step g \<in> set subgroup_steps"
  shows "is_subgroup (sg_p_retained (DeriveSymmetryGating fl sem g ax))"
  using assms by (simp add: DeriveSymmetryGating_def Let_def is_subgroup_OnShape is_subgroup_measure)

lemma gating_label [simp]:
  "sg_geom (DeriveSymmetryGating fl kLabel g ax) = kFullHexagonalSymmetry"
  "sg_p_retained (DeriveSymmetryGating fl kLabel g ax) = PRotationSet_Full"
  "sg_b_applicable (DeriveSymmetryGating fl kLabel g ax)"
  by (simp_all add: DeriveSymmetryGating_def)

lemma GeneratorStep_Full [simp]: "GeneratorStep PRotationSet_Full = 1"
  by (simp add: Full_FromStep subgroup_steps_def)

lemma GeneratorStep_Identity [simp]: "GeneratorStep PRotationSet_Identity = 6"
  by (simp add: Identity_FromStep subgroup_steps_def)

lemma NonTrivial_Full [simp]: "NonTrivial PRotationSet_Full"
  by (simp add: NonTrivial_def PRotationSet_Full_def PRotationSet_Identity_def)

lemma NonTrivial_Identity [simp]: "\<not> NonTrivial PRotationSet_Identity"
  by (simp add: NonTrivial_def)

end
