(* ===== verification/Ray_Path.thy ===== *)
theory Ray_Path
  imports Complex_Main Lumice_Prelude
begin

text \<open>
  The raypath of one ray (\<open>src/core/raypath.hpp\<close>, \<open>src/core/raypath.cpp\<close>): the recorder with its
  fifteen inline bytes and the index of an overflow slot, the exit sequence, the hash of a path, and
  the segment record with the predicates that classify it.  A \<open>uint8_t\<close> is a \<open>nat\<close> below 256.

  Assertions are absent, as they are in a release build; what the code does after a failed one is
  modelled as written, and their conditions appear as hypotheses of the lemmas that need them.
\<close>

section \<open>The recorder\<close>

definition kMaxHits :: nat where "kMaxHits = 64"
definition kInlineCap :: nat where "kInlineCap = 15"
definition kNoOverflow :: nat where "kNoOverflow = 0xFFFF"
definition kInvalidId :: nat where "kInvalidId = 0xFFFF"
definition kMaxCrystalNum :: nat where "kMaxCrystalNum = 16"

lemmas raypath_consts = kMaxHits_def kInlineCap_def kNoOverflow_def

record RaypathRecorder =
  rec_size :: nat
  rec_data :: "nat list"
  overflow_idx :: nat

definition empty_recorder :: RaypathRecorder where
  "empty_recorder = \<lparr> rec_size = 0, rec_data = replicate kInlineCap 0, overflow_idx = kNoOverflow \<rparr>"

definition recorder_push :: "RaypathRecorder \<Rightarrow> nat \<Rightarrow> RaypathRecorder" where
  "recorder_push r fn =
     (if rec_size r < kInlineCap
      then r\<lparr> rec_data := (rec_data r)[rec_size r := fn mod 256], rec_size := rec_size r + 1 \<rparr>
      else r)"

definition recorder_at :: "RaypathRecorder \<Rightarrow> nat \<Rightarrow> nat" where
  "recorder_at r idx =
     (if idx \<ge> rec_size r \<or> idx \<ge> kInlineCap \<or> rec_data r ! idx = 0xFF then kInvalidId else rec_data r ! idx)"

definition Clear :: "RaypathRecorder \<Rightarrow> RaypathRecorder" where
  "Clear r = r\<lparr> rec_size := 0, overflow_idx := kNoOverflow, rec_data := replicate kInlineCap 0 \<rparr>"

definition HasOverflow :: "RaypathRecorder \<Rightarrow> bool" where
  "HasOverflow r \<longleftrightarrow> overflow_idx r \<noteq> kNoOverflow"

definition inline_bytes :: "RaypathRecorder \<Rightarrow> nat list" where
  "inline_bytes r = take (min (rec_size r) kInlineCap) (rec_data r)"

definition recorder_eq :: "RaypathRecorder \<Rightarrow> RaypathRecorder \<Rightarrow> bool" where
  "recorder_eq a b =
     (if rec_size a \<noteq> rec_size b then False
      else take (min (rec_size a) kInlineCap) (rec_data a) = take (min (rec_size a) kInlineCap) (rec_data b))"

record ExitFaceSeq =
  exit_size :: nat
  exit_data :: "nat list"

definition kMagic :: u64 where "kMagic = 65599"

definition RaypathHash :: "nat list \<Rightarrow> u64" where
  "RaypathHash rp = foldl (\<lambda>hash c. hash * kMagic + of_nat c) 0 rp"

definition RaypathHash_recorder :: "RaypathRecorder \<Rightarrow> u64" where
  "RaypathHash_recorder r = foldl (\<lambda>hash c. hash * kMagic + of_nat c) 0 (inline_bytes r)"

text \<open>An inline recorder holds the bytes pushed into it, until the fifteen places are full.\<close>

definition inline_ok :: "RaypathRecorder \<Rightarrow> bool" where
  "inline_ok r \<longleftrightarrow> length (rec_data r) = kInlineCap \<and> rec_size r \<le> kInlineCap \<and> \<not> HasOverflow r"

lemma empty_recorder_ok [simp]: "inline_ok empty_recorder" "inline_bytes empty_recorder = []"
  by (simp_all add: inline_ok_def empty_recorder_def HasOverflow_def inline_bytes_def)

lemma push_ok [simp]: "inline_ok r \<Longrightarrow> inline_ok (recorder_push r f)"
  by (simp add: inline_ok_def recorder_push_def HasOverflow_def)

lemma inline_bytes_length: "inline_ok r \<Longrightarrow> length (inline_bytes r) = rec_size r"
  by (simp add: inline_ok_def inline_bytes_def)

lemma push_bytes:
  "inline_ok r \<Longrightarrow> inline_bytes (recorder_push r f)
     = (if rec_size r < kInlineCap then inline_bytes r @ [f mod 256] else inline_bytes r)"
  by (simp add: inline_ok_def recorder_push_def inline_bytes_def take_Suc_conv_app_nth)

lemma foldl_push:
  "inline_ok r \<Longrightarrow> inline_ok (foldl recorder_push r fs) \<and>
     inline_bytes (foldl recorder_push r fs) = take kInlineCap (inline_bytes r @ map (\<lambda>f. f mod 256) fs)"
proof (induction fs arbitrary: r)
  case Nil
  then show ?case using inline_bytes_length [of r] by (simp add: inline_ok_def)
next
  case (Cons f fs)
  have len: "length (inline_bytes r) = rec_size r" "rec_size r \<le> kInlineCap"
    using Cons.prems inline_bytes_length by (auto simp: inline_ok_def)
  have "take kInlineCap (inline_bytes (recorder_push r f) @ map (\<lambda>f. f mod 256) fs)
      = take kInlineCap (inline_bytes r @ map (\<lambda>f. f mod 256) (f # fs))"
    using len by (cases "rec_size r < kInlineCap") (simp_all add: push_bytes [OF Cons.prems])
  with Cons.IH [OF push_ok [OF Cons.prems, of f]] show ?case by simp
qed

lemma recorder_eq_iff:
  assumes "inline_ok a" and "inline_ok b"
  shows "recorder_eq a b \<longleftrightarrow> inline_bytes a = inline_bytes b"
proof
  assume "recorder_eq a b"
  then show "inline_bytes a = inline_bytes b" by (auto simp: recorder_eq_def inline_bytes_def split: if_splits)
next
  assume eq: "inline_bytes a = inline_bytes b"
  then have "rec_size a = rec_size b" using assms inline_bytes_length by metis
  with eq show "recorder_eq a b" by (simp add: recorder_eq_def inline_bytes_def)
qed

lemma hash_recorder: "RaypathHash_recorder r = RaypathHash (inline_bytes r)"
  by (simp add: RaypathHash_recorder_def RaypathHash_def)

section \<open>The ray segment\<close>

text \<open>The float type and the rotation stay abstract; \<open>lt0\<close>, \<open>ge0\<close>, \<open>is_m1\<close> and \<open>finite\<close> are the tests the
  predicates make on floats.\<close>

record ('f, 'q) RaySeg =
  seg_d :: "'f list"
  seg_p :: "'f list"
  seg_w :: 'f
  from_face :: nat
  to_face :: nat
  prev_ray_idx :: nat
  root_ray_idx :: nat
  crystal_idx :: nat
  crystal_config_id :: nat
  crystal_rot :: 'q
  is_continue :: bool

record 'f seg_float =
  f_lt0 :: "'f \<Rightarrow> bool"
  f_ge0 :: "'f \<Rightarrow> bool"
  f_is_m1 :: "'f \<Rightarrow> bool"
  f_finite :: "'f \<Rightarrow> bool"

definition IsTir :: "'f seg_float \<Rightarrow> ('f, 'q) RaySeg \<Rightarrow> bool" where
  "IsTir fl r \<longleftrightarrow> f_lt0 fl (seg_w r)"

definition IsNormal :: "'f seg_float \<Rightarrow> ('f, 'q) RaySeg \<Rightarrow> bool" where
  "IsNormal fl r \<longleftrightarrow> to_face r \<noteq> kInvalidId \<and> f_ge0 fl (seg_w r)"

definition IsContinue :: "('f, 'q) RaySeg \<Rightarrow> bool" where
  "IsContinue r \<longleftrightarrow> is_continue r"

definition IsOutgoing :: "'f seg_float \<Rightarrow> ('f, 'q) RaySeg \<Rightarrow> bool" where
  "IsOutgoing fl r \<longleftrightarrow> to_face r = kInvalidId \<and> f_ge0 fl (seg_w r) \<and> \<not> is_continue r"

definition IsValidW :: "'f seg_float \<Rightarrow> 'f \<Rightarrow> bool" where
  "IsValidW fl w \<longleftrightarrow> f_ge0 fl w \<or> f_is_m1 fl w"

definition IsValidContinueFace :: "bool \<Rightarrow> nat \<Rightarrow> bool" where
  "IsValidContinueFace c face \<longleftrightarrow> \<not> c \<or> face = kInvalidId"

definition IsValidCrystalIdx :: "nat \<Rightarrow> bool" where
  "IsValidCrystalIdx idx \<longleftrightarrow> idx = kInvalidId \<or> idx < kMaxCrystalNum"

definition IsValidVec3Finite :: "'f seg_float \<Rightarrow> 'f list \<Rightarrow> bool" where
  "IsValidVec3Finite fl v \<longleftrightarrow> f_finite fl (v ! 0) \<and> f_finite fl (v ! 1) \<and> f_finite fl (v ! 2)"

definition IsValidComplete :: "'f seg_float \<Rightarrow> ('f, 'q) RaySeg \<Rightarrow> bool" where
  "IsValidComplete fl r \<longleftrightarrow>
     IsValidW fl (seg_w r) \<and> IsValidContinueFace (is_continue r) (to_face r) \<and>
     IsValidCrystalIdx (crystal_idx r) \<and> IsValidVec3Finite fl (seg_d r) \<and> IsValidVec3Finite fl (seg_p r)"

text \<open>
  Comparison with zero on floats: \<open>w < 0\<close> and \<open>w >= 0\<close> exclude each other, and a weight that is the
  sentinel compares below zero.  (Both fail on a NaN, which \<open>IsValidComplete\<close> rules out.)
\<close>

definition zero_tests :: "'f seg_float \<Rightarrow> bool" where
  "zero_tests fl \<longleftrightarrow> (\<forall>w. \<not> (f_lt0 fl w \<and> f_ge0 fl w) \<and> (f_is_m1 fl w \<longrightarrow> f_lt0 fl w))"

definition rat_seg :: "rat seg_float" where
  "rat_seg = \<lparr> f_lt0 = (\<lambda>w. w < 0), f_ge0 = (\<lambda>w. 0 \<le> w), f_is_m1 = (\<lambda>w. w = - 1), f_finite = (\<lambda>_. True) \<rparr>"

lemma rat_seg_tests [simp]: "zero_tests rat_seg"
  by (simp add: zero_tests_def rat_seg_def)

text \<open>A valid segment is of exactly one kind; a continuing one is only set on a non-negative weight.\<close>

definition segment_kinds :: "'f seg_float \<Rightarrow> ('f, 'q) RaySeg \<Rightarrow> bool list" where
  "segment_kinds fl r = [IsTir fl r, IsNormal fl r, IsOutgoing fl r, IsContinue r]"

lemma segment_one_kind:
  assumes "zero_tests fl" and "IsValidComplete fl r" and "IsContinue r \<Longrightarrow> f_ge0 fl (seg_w r)"
  shows "count_list (segment_kinds fl r) True = 1"
proof -
  from assms(1) have excl: "\<not> (f_lt0 fl (seg_w r) \<and> f_ge0 fl (seg_w r))"
    and m1: "f_is_m1 fl (seg_w r) \<Longrightarrow> f_lt0 fl (seg_w r)"
    by (auto simp: zero_tests_def)
  from assms(2) have w: "f_ge0 fl (seg_w r) \<or> f_lt0 fl (seg_w r)"
    and c: "is_continue r \<longrightarrow> to_face r = kInvalidId"
    using m1 by (auto simp: IsValidComplete_def IsValidW_def IsValidContinueFace_def)
  show ?thesis
  proof (cases "f_lt0 fl (seg_w r)")
    case True
    then show ?thesis using excl assms(3)
      by (auto simp: segment_kinds_def IsTir_def IsNormal_def IsOutgoing_def IsContinue_def)
  next
    case False
    then show ?thesis using w c
      by (auto simp: segment_kinds_def IsTir_def IsNormal_def IsOutgoing_def IsContinue_def)
  qed
qed

end
