(* ===== verification/Filter_Config.thy ===== *)
theory Filter_Config
  imports Axis_Distribution Symmetry_Gating Ray_Path
begin

text \<open>
  The configuration of a raypath filter (\<open>src/config/filter_config.hpp\<close>,
  \<open>src/config/filter_config.cpp\<close>, the comparisons of \<open>src/config/config_compare.hpp\<close>): the simple
  predicates, their disjunctions of conjunctions, the encoding of the symmetry bits as a string, the
  face numbers a filter names, and the checks on the bounds of an entry/exit predicate.
\<close>

section \<open>Data\<close>

record EntryExitFilterParam =
  ee_entry :: "nat option"
  ee_exit :: "nat option"
  ee_min_len :: nat
  ee_max_len :: "nat option"

datatype 'f SimpleFilterParam =
    NoneFilterParam
  | RaypathFilterParam "nat list"
  | EntryExitFilterParam EntryExitFilterParam
  | DirectionFilterParam 'f 'f 'f
  | CrystalFilterParam nat

datatype 'f FilterParam =
    SimpleParam "'f SimpleFilterParam"
  | ComplexParam "(nat \<times> 'f SimpleFilterParam) list list"

datatype FilterAction = kFilterIn | kFilterOut

record 'f FilterConfig =
  fc_id :: nat
  fc_symmetry :: u8
  fc_action :: FilterAction
  fc_param :: "'f FilterParam"

fun simple_param_eq :: "('f, 'z) float_ops_scheme \<Rightarrow> 'f SimpleFilterParam \<Rightarrow> 'f SimpleFilterParam \<Rightarrow> bool" where
  "simple_param_eq fl NoneFilterParam NoneFilterParam = True"
| "simple_param_eq fl (RaypathFilterParam a) (RaypathFilterParam b) = (a = b)"
| "simple_param_eq fl (EntryExitFilterParam a) (EntryExitFilterParam b) = (a = b)"
| "simple_param_eq fl (DirectionFilterParam lon lat radii) (DirectionFilterParam lon' lat' radii') =
     (fl_eq fl lon lon' \<and> fl_eq fl lat lat' \<and> fl_eq fl radii radii')"
| "simple_param_eq fl (CrystalFilterParam a) (CrystalFilterParam b) = (a = b)"
| "simple_param_eq fl _ _ = False"

section \<open>The symmetry string\<close>

definition FilterSymmetryToString :: "u8 \<Rightarrow> string" where
  "FilterSymmetryToString symmetry =
     (if symmetry AND kSymP \<noteq> 0 then ''P'' else '''') @
     (if symmetry AND kSymB \<noteq> 0 then ''B'' else '''') @
     (if symmetry AND kSymD \<noteq> 0 then ''D'' else '''')"

definition FilterSymmetryFromString :: "string \<Rightarrow> u8" where
  "FilterSymmetryFromString s =
     foldl (\<lambda>symmetry c.
        let symmetry = (if c = CHR ''P'' then symmetry OR kSymP else symmetry);
            symmetry = (if c = CHR ''B'' then symmetry OR kSymB else symmetry);
            symmetry = (if c = CHR ''D'' then symmetry OR kSymD else symmetry)
        in symmetry) kSymNone s"

section \<open>Face numbers\<close>

definition CollectFaceNumbers :: "'f SimpleFilterParam \<Rightarrow> nat list \<Rightarrow> nat list" where
  "CollectFaceNumbers p out =
     (case p of
        RaypathFilterParam rp \<Rightarrow> out @ rp
      | EntryExitFilterParam ee \<Rightarrow>
          let out = (case ee_entry ee of None \<Rightarrow> out | Some f \<Rightarrow> out @ [f])
          in (case ee_exit ee of None \<Rightarrow> out | Some f \<Rightarrow> out @ [f])
      | _ \<Rightarrow> out)"

definition FilterFaceNumbers :: "'f FilterConfig \<Rightarrow> nat list" where
  "FilterFaceNumbers f =
     (let out = (case fc_param f of
          SimpleParam p \<Rightarrow> CollectFaceNumbers p []
        | ComplexParam fs \<Rightarrow> fold (\<lambda>clause out. fold (\<lambda>term out. CollectFaceNumbers (snd term) out) clause out) fs [])
      in remdups_adj (sort out))"

section \<open>Reading an entry/exit predicate\<close>

text \<open>
  The arguments are the values of the keys that are present and not null; reading them off the JSON
  value is the JSON library's part.
\<close>

datatype filter_error = MinLenBelowOne nat | MaxLenBelowMin nat nat | MaxLenExceedsHits nat

definition entry_exit_from_fields ::
  "nat option \<Rightarrow> nat option \<Rightarrow> nat option \<Rightarrow> nat option \<Rightarrow> filter_error + 'f SimpleFilterParam" where
  "entry_exit_from_fields entry exit min_len max_len =
     (let ee = \<lparr> ee_entry = entry, ee_exit = exit,
                 ee_min_len = (case min_len of None \<Rightarrow> 1 | Some n \<Rightarrow> n), ee_max_len = max_len \<rparr>
      in if ee_min_len ee < 1 then Inl (MinLenBelowOne (ee_min_len ee))
         else case ee_max_len ee of
           None \<Rightarrow> Inr (EntryExitFilterParam ee)
         | Some m \<Rightarrow>
             if m < ee_min_len ee then Inl (MaxLenBelowMin m (ee_min_len ee))
             else if m > kMaxHits then Inl (MaxLenExceedsHits m)
             else Inr (EntryExitFilterParam ee))"

section \<open>Lemmas\<close>

text \<open>What the text keeps of a symmetry byte are its three request bits.\<close>

lemma and_bit_cases: "s AND 2 ^ n = (if bit s n then 2 ^ n else (0 :: u8))"
  by (rule bit_eqI) (auto simp: bit_and_iff bit_exp_iff)

lemma and_7: "s AND 7 = (s AND 1) OR ((s AND 2) OR (s AND 4) :: u8)"
proof -
  have "7 = (1 OR (2 OR 4) :: u8)" by simp
  then show ?thesis by (simp only: bit.conj_disj_distrib)
qed

lemma symmetry_string: "FilterSymmetryFromString (FilterSymmetryToString s) = s AND 7"
proof -
  have "s AND 1 = (if bit s 0 then 1 else 0)" "s AND 2 = (if bit s 1 then 2 else 0)"
    "s AND 4 = (if bit s 2 then 4 else 0)"
    using and_bit_cases [of s 0] and_bit_cases [of s 1] and_bit_cases [of s 2] by simp_all
  then show ?thesis
    unfolding and_7
    by (simp add: FilterSymmetryToString_def FilterSymmetryFromString_def kSymNone_def kSymP_def kSymB_def kSymD_def)
qed

text \<open>The faces of one predicate, and of a filter, as sets.\<close>

fun predicate_faces :: "'f SimpleFilterParam \<Rightarrow> nat set" where
  "predicate_faces (RaypathFilterParam rp) = set rp"
| "predicate_faces (EntryExitFilterParam ee) = set_option (ee_entry ee) \<union> set_option (ee_exit ee)"
| "predicate_faces _ = {}"

fun param_faces :: "'f FilterParam \<Rightarrow> nat set" where
  "param_faces (SimpleParam p) = predicate_faces p"
| "param_faces (ComplexParam fs) = (\<Union>clause\<in>set fs. \<Union>term\<in>set clause. predicate_faces (snd term))"

lemma CollectFaceNumbers_set: "set (CollectFaceNumbers p out) = set out \<union> predicate_faces p"
  by (cases p) (auto simp: CollectFaceNumbers_def Let_def split: option.splits)

lemma fold_collect_set:
  "set (fold (\<lambda>term out. CollectFaceNumbers (snd term) out) clause out)
     = set out \<union> (\<Union>term\<in>set clause. predicate_faces (snd term))"
  by (induction clause arbitrary: out) (auto simp: CollectFaceNumbers_set)

lemma fold_clauses_set:
  "set (fold (\<lambda>clause out. fold (\<lambda>term out. CollectFaceNumbers (snd term) out) clause out) fs out)
     = set out \<union> (\<Union>clause\<in>set fs. \<Union>term\<in>set clause. predicate_faces (snd term))"
  by (induction fs arbitrary: out) (auto simp: fold_collect_set)

lemma FilterFaceNumbers_set: "set (FilterFaceNumbers f) = param_faces (fc_param f)"
  by (simp add: FilterFaceNumbers_def Let_def CollectFaceNumbers_set fold_clauses_set split: FilterParam.split)

lemma FilterFaceNumbers_strict: "sorted_wrt (<) (FilterFaceNumbers f)"
  unfolding FilterFaceNumbers_def Let_def by (rule sorted_remdups_adj_strict) simp

lemma simple_param_eq_sound:
  assumes "\<And>x y. fl_eq fl x y \<Longrightarrow> x = y" and "simple_param_eq fl p q"
  shows "p = q"
  using assms by (cases "(fl, p, q)" rule: simple_param_eq.cases) auto

end
