(* ===== verification/Color_Tables.thy ===== *)
theory Color_Tables
  imports Filter_Config
begin

text \<open>
  How color predicates get their component bits (\<open>src/config/component_table.hpp/.cpp\<close>,
  \<open>src/config/color_gate_table.hpp/.cpp\<close>, \<open>src/config/color_class_table.hpp/.cpp\<close>): the three tables
  built from a scene and a color configuration, and the grouping of a placement by symmetry.

  The 64 bits of the mask are handed out in order of first use; what comes later gets \<open>kNoBit\<close>.  A thrown
  \<open>std::invalid_argument\<close> is the left side of a sum.  Log output is not modelled.
\<close>

section \<open>Scene and color configuration\<close>

record 'f ScatteringSetting =
  ss_filter :: "'f FilterConfig"
  ss_crystal_id :: nat

type_synonym 'f Scene = "'f ScatteringSetting list list"

record 'f RaypathColorRef =
  cr_layer :: nat
  cr_crystal :: nat
  cr_predicate :: "'f SimpleFilterParam"
  cr_symmetry :: u8

record 'f ColorClassConfig =
  cc_color :: "'f list"
  cc_combine :: string
  cc_visible :: bool
  cc_solo :: bool
  cc_match :: "'f RaypathColorRef list"

definition kNoBit :: nat where "kNoBit = 0xFF"
definition kMaxBits :: nat where "kMaxBits = 64"

section \<open>The component table\<close>

record ComponentTableEntry =
  ce_layer :: nat
  ce_crystal_id :: nat
  ce_summand_idx :: nat
  ce_bit :: nat

definition CountSummands :: "'f FilterParam \<Rightarrow> nat" where
  "CountSummands param = (case param of SimpleParam _ \<Rightarrow> 1 | ComplexParam fs \<Rightarrow> length fs)"

text \<open>The state of the three nested loops is the entries and the next free bit.\<close>

definition component_entry :: "nat \<Rightarrow> nat \<Rightarrow> nat \<Rightarrow> ComponentTableEntry list \<times> nat \<Rightarrow> ComponentTableEntry list \<times> nat" where
  "component_entry mi ci sk st =
     (let (entries, next_bit) = st;
          (bit, next_bit) = (if next_bit < kMaxBits then (next_bit, next_bit + 1) else (kNoBit, next_bit))
      in (entries @ [\<lparr> ce_layer = mi mod 65536, ce_crystal_id = ci mod 65536, ce_summand_idx = sk mod 65536,
                       ce_bit = bit \<rparr>], next_bit))"

definition component_setting :: "nat \<Rightarrow> nat \<times> 'f ScatteringSetting \<Rightarrow> ComponentTableEntry list \<times> nat \<Rightarrow>
    ComponentTableEntry list \<times> nat" where
  "component_setting mi cs st =
     (let summand_count = CountSummands (fc_param (ss_filter (snd cs)))
      in fold (component_entry mi (fst cs)) [0..<summand_count] st)"

definition BuildComponentTable :: "'f Scene \<Rightarrow> ComponentTableEntry list" where
  "BuildComponentTable scene =
     fst (fold (\<lambda>(mi, layer). fold (component_setting mi) (enumerate 0 layer)) (enumerate 0 scene) ([], 0))"

definition ComponentBitsFor :: "ComponentTableEntry list \<Rightarrow> nat \<Rightarrow> nat \<Rightarrow> nat list" where
  "ComponentBitsFor entries layer crystal_id =
     foldl (\<lambda>bits e.
        if ce_layer e \<noteq> layer \<or> ce_crystal_id e \<noteq> crystal_id then bits
        else
          let bits = (if ce_summand_idx e \<ge> length bits
                then bits @ replicate (ce_summand_idx e + 1 - length bits) kNoBit else bits)
          in bits[ce_summand_idx e := ce_bit e]) [] entries"

section \<open>The color gate table\<close>

record 'f ColorGateEntry =
  cg_layer :: nat
  cg_crystal_id :: nat
  cg_bit :: nat
  cg_predicate :: "'f SimpleFilterParam"
  cg_symmetry :: u8

record 'f ColorGateTable =
  gt_entries :: "'f ColorGateEntry list"
  gt_component_overflow_count :: nat

datatype color_error =
    LayerOutOfRange nat nat
  | NoSuchSetting nat nat
  | AmbiguousSetting nat nat nat
  | UnknownCombine string
  | NoGateEntry nat nat

definition VerifyRefPlacementIsUnambiguous :: "'f RaypathColorRef \<Rightarrow> 'f Scene \<Rightarrow> color_error + unit" where
  "VerifyRefPlacementIsUnambiguous ref scene =
     (if cr_layer ref \<ge> length scene then Inl (LayerOutOfRange (cr_layer ref) (cr_crystal ref))
      else
        let layer = scene ! cr_layer ref;
            match_count = foldl (\<lambda>n setting. if ss_crystal_id setting = cr_crystal ref then n + 1 else n) 0 layer
        in if match_count = (0::nat) then Inl (NoSuchSetting (cr_layer ref) (cr_crystal ref))
           else if match_count \<ge> 2 then Inl (AmbiguousSetting (cr_layer ref) (cr_crystal ref) match_count)
           else Inr ())"

definition gate_key_eq :: "('f, 'z) float_ops_scheme \<Rightarrow> 'f ColorGateEntry \<Rightarrow> 'f RaypathColorRef \<Rightarrow> bool" where
  "gate_key_eq fl existing ref \<longleftrightarrow>
     cg_layer existing = cr_layer ref \<and> cg_crystal_id existing = cr_crystal ref \<and>
     simple_param_eq fl (cg_predicate existing) (cr_predicate ref) \<and> cg_symmetry existing = cr_symmetry ref"

text \<open>The body of the two loops: the state is the entries, the next bit and the overflow count.\<close>

type_synonym 'f gate_state = "'f ColorGateEntry list \<times> nat \<times> nat"

definition gate_ref :: "('f, 'z) float_ops_scheme \<Rightarrow> 'f RaypathColorRef \<Rightarrow> 'f gate_state \<Rightarrow> 'f gate_state" where
  "gate_ref fl ref st =
     (let (entries, next_bit, overflow_count) = st in
      if list_ex (\<lambda>existing. gate_key_eq fl existing ref) entries then st
      else
        let (bit, next_bit, overflow_count) =
              (if next_bit < kMaxBits then (next_bit, next_bit + 1, overflow_count)
               else (kNoBit, next_bit, overflow_count + 1))
        in (entries @ [\<lparr> cg_layer = cr_layer ref, cg_crystal_id = cr_crystal ref, cg_bit = bit,
                         cg_predicate = cr_predicate ref, cg_symmetry = cr_symmetry ref \<rparr>],
            next_bit, overflow_count))"

fun gate_refs ::
  "('f, 'z) float_ops_scheme \<Rightarrow> 'f Scene \<Rightarrow> 'f RaypathColorRef list \<Rightarrow> 'f gate_state \<Rightarrow> color_error + 'f gate_state"
where
  "gate_refs fl scene [] st = Inr st"
| "gate_refs fl scene (ref # refs) st =
     (case VerifyRefPlacementIsUnambiguous ref scene of
        Inl e \<Rightarrow> Inl e
      | Inr _ \<Rightarrow> gate_refs fl scene refs (gate_ref fl ref st))"

fun gate_classes ::
  "('f, 'z) float_ops_scheme \<Rightarrow> 'f Scene \<Rightarrow> 'f ColorClassConfig list \<Rightarrow> 'f gate_state \<Rightarrow> color_error + 'f gate_state"
where
  "gate_classes fl scene [] st = Inr st"
| "gate_classes fl scene (cc # ccs) st =
     (case gate_refs fl scene (cc_match cc) st of Inl e \<Rightarrow> Inl e | Inr st \<Rightarrow> gate_classes fl scene ccs st)"

definition BuildColorGateTable ::
  "('f, 'z) float_ops_scheme \<Rightarrow> 'f ColorClassConfig list \<Rightarrow> 'f Scene \<Rightarrow> color_error + 'f ColorGateTable" where
  "BuildColorGateTable fl classes scene =
     (case gate_classes fl scene classes ([], 0, 0) of
        Inl e \<Rightarrow> Inl e
      | Inr (entries, next_bit, overflow_count) \<Rightarrow>
          Inr \<lparr> gt_entries = entries, gt_component_overflow_count = overflow_count \<rparr>)"

record 'f ColorGatePlacement =
  gp_predicates :: "'f SimpleFilterParam list"
  gp_bits :: "nat list"
  gp_symmetries :: "u8 list"

definition ColorGatePlacementFor :: "'f ColorGateTable \<Rightarrow> nat \<Rightarrow> nat \<Rightarrow> 'f ColorGatePlacement" where
  "ColorGatePlacementFor table layer crystal_id =
     foldl (\<lambda>out e.
        if cg_layer e \<noteq> layer \<or> cg_crystal_id e \<noteq> crystal_id then out
        else out\<lparr> gp_predicates := gp_predicates out @ [cg_predicate e], gp_bits := gp_bits out @ [cg_bit e],
                  gp_symmetries := gp_symmetries out @ [cg_symmetry e] \<rparr>)
       \<lparr> gp_predicates = [], gp_bits = [], gp_symmetries = [] \<rparr> (gt_entries table)"

text \<open>The index of the first group with the symmetry, or the number of groups.\<close>

fun group_index :: "u8 \<Rightarrow> u8 list \<Rightarrow> nat" where
  "group_index s [] = 0"
| "group_index s (g # gs) = (if g = s then 0 else 1 + group_index s gs)"

fun group_loop :: "u8 list \<Rightarrow> u8 list \<Rightarrow> nat list \<Rightarrow> u8 list \<times> nat list" where
  "group_loop [] group_symmetry group_of = (group_symmetry, group_of)"
| "group_loop (s # syms) group_symmetry group_of =
     (let gi = group_index s group_symmetry;
          group_symmetry = (if gi = length group_symmetry then group_symmetry @ [s] else group_symmetry)
      in group_loop syms group_symmetry (group_of @ [gi]))"

definition GroupPlacementBySymmetry :: "'f ColorGatePlacement \<Rightarrow> u8 list \<times> nat list" where
  "GroupPlacementBySymmetry placement =
     group_loop (take (length (gp_predicates placement)) (gp_symmetries placement)) [] []"

section \<open>The color class table\<close>

datatype ColorClassCombine = kAny | kAll

record 'f ColorClass =
  cl_color :: "'f list"
  cl_combine :: ColorClassCombine
  cl_visible :: bool
  cl_solo :: bool
  cl_member_bits :: u64
  cl_z_order :: int

record 'f ColorClassTable =
  ct_classes :: "'f ColorClass list"
  ct_referenced_mask :: u64

fun resolve_in :: "('f, 'z) float_ops_scheme \<Rightarrow> 'f RaypathColorRef \<Rightarrow> 'f ColorGateEntry list \<Rightarrow> color_error + nat" where
  "resolve_in fl ref [] = Inl (NoGateEntry (cr_layer ref) (cr_crystal ref))"
| "resolve_in fl ref (e # es) = (if gate_key_eq fl e ref then Inr (cg_bit e) else resolve_in fl ref es)"

definition ResolveRefToBit :: "('f, 'z) float_ops_scheme \<Rightarrow> 'f RaypathColorRef \<Rightarrow> 'f ColorGateTable \<Rightarrow> color_error + nat" where
  "ResolveRefToBit fl ref table = resolve_in fl ref (gt_entries table)"

fun member_bits_of ::
  "('f, 'z) float_ops_scheme \<Rightarrow> 'f ColorGateTable \<Rightarrow> 'f RaypathColorRef list \<Rightarrow> u64 \<Rightarrow> color_error + u64" where
  "member_bits_of fl table [] bits = Inr bits"
| "member_bits_of fl table (ref # refs) bits =
     (case ResolveRefToBit fl ref table of
        Inl e \<Rightarrow> Inl e
      | Inr ref_bit \<Rightarrow>
          if ref_bit = kNoBit then member_bits_of fl table refs bits
          else member_bits_of fl table refs (bits OR push_bit ref_bit 1))"

definition combine_of :: "string \<Rightarrow> color_error + ColorClassCombine" where
  "combine_of s = (if s = ''any'' then Inr kAny else if s = ''all'' then Inr kAll else Inl (UnknownCombine s))"

fun class_loop ::
  "('f, 'z) float_ops_scheme \<Rightarrow> 'f ColorGateTable \<Rightarrow> 'f ColorClassConfig list \<Rightarrow> 'f ColorClassTable \<Rightarrow>
     color_error + 'f ColorClassTable"
where
  "class_loop fl gate [] out = Inr out"
| "class_loop fl gate (cc # ccs) out =
     (case combine_of (cc_combine cc) of
        Inl e \<Rightarrow> Inl e
      | Inr comb \<Rightarrow>
          case member_bits_of fl gate (cc_match cc) 0 of
            Inl e \<Rightarrow> Inl e
          | Inr bits \<Rightarrow>
              class_loop fl gate ccs
                \<lparr> ct_classes = ct_classes out @
                    [\<lparr> cl_color = [cc_color cc ! 0, cc_color cc ! 1, cc_color cc ! 2], cl_combine = comb,
                       cl_visible = cc_visible cc, cl_solo = cc_solo cc, cl_member_bits = bits,
                       cl_z_order = int (length (ct_classes out)) \<rparr>],
                  ct_referenced_mask = ct_referenced_mask out OR bits \<rparr>)"

definition BuildColorClassTable ::
  "('f, 'z) float_ops_scheme \<Rightarrow> 'f ColorClassConfig list \<Rightarrow> 'f ColorGateTable \<Rightarrow> color_error + 'f ColorClassTable" where
  "BuildColorClassTable fl classes gate =
     class_loop fl gate classes \<lparr> ct_classes = [], ct_referenced_mask = 0 \<rparr>"

fun rebuild_loop :: "'f ColorClass list \<Rightarrow> 'f ColorClass list \<Rightarrow> bool" where
  "rebuild_loop (a # as) (b # bs) =
     (if cl_combine a \<noteq> cl_combine b \<or> cl_member_bits a \<noteq> cl_member_bits b then True else rebuild_loop as bs)"
| "rebuild_loop _ _ = False"

definition NeedsRebuild :: "'f ColorClassTable \<Rightarrow> 'f ColorClassTable \<Rightarrow> bool" where
  "NeedsRebuild old_table new_table =
     (if length (ct_classes old_table) \<noteq> length (ct_classes new_table) then True
      else rebuild_loop (ct_classes old_table) (ct_classes new_table))"

section \<open>The bit budget\<close>

definition granted :: "nat \<Rightarrow> nat" where
  "granted k = (if k < kMaxBits then k else kNoBit)"

text \<open>
  What the consumers of a table rely on: position \<open>k\<close> has bit \<open>k\<close> while the budget lasts.  Then a bit
  below 64 identifies its position, and everything past the budget is marked.
\<close>

locale bit_budget =
  fixes built :: "'s \<Rightarrow> bool" and bits :: "'s \<Rightarrow> nat list"
  assumes bits_granted: "built s \<Longrightarrow> bits s = map granted [0..<length (bits s)]"
begin

lemma bit_at: "built s \<Longrightarrow> k < length (bits s) \<Longrightarrow> bits s ! k = granted k"
  using bits_granted [of s] by (metis add_0 diff_zero length_upt nth_map nth_upt)

lemma bit_identifies:
  "built s \<Longrightarrow> i < length (bits s) \<Longrightarrow> j < length (bits s) \<Longrightarrow> bits s ! i = bits s ! j \<Longrightarrow>
     bits s ! i < kMaxBits \<Longrightarrow> i = j"
  by (auto simp: bit_at granted_def kNoBit_def kMaxBits_def split: if_splits)

lemma bit_range: "built s \<Longrightarrow> b \<in> set (bits s) \<Longrightarrow> b < kMaxBits \<or> b = kNoBit"
  by (auto simp: in_set_conv_nth bit_at granted_def)

lemma no_bit_iff: "built s \<Longrightarrow> kNoBit \<in> set (bits s) \<longleftrightarrow> kMaxBits < length (bits s)"
proof
  assume s: "built s" and "kMaxBits < length (bits s)"
  then show "kNoBit \<in> set (bits s)" using bit_at [OF s, of kMaxBits] by (simp add: granted_def in_set_conv_nth) blast
qed (auto simp: in_set_conv_nth bit_at granted_def kNoBit_def kMaxBits_def split: if_splits)

end

text \<open>The component table, entry by entry.\<close>

definition scene_summands :: "'f Scene \<Rightarrow> (nat \<times> nat \<times> nat) list" where
  "scene_summands scene = concat (map (\<lambda>(mi, layer). concat (map (\<lambda>(ci, setting).
     map (\<lambda>sk. (mi, ci, sk)) [0..<CountSummands (fc_param (ss_filter setting))]) (enumerate 0 layer)))
     (enumerate 0 scene))"

definition component_ok :: "ComponentTableEntry list \<times> nat \<Rightarrow> bool" where
  "component_ok st \<longleftrightarrow> map ce_bit (fst st) = map granted [0..<length (fst st)] \<and> snd st = min kMaxBits (length (fst st))"

definition entry_key :: "ComponentTableEntry \<Rightarrow> nat \<times> nat \<times> nat" where
  "entry_key e = (ce_layer e, ce_crystal_id e, ce_summand_idx e)"

definition key16 :: "nat \<times> nat \<times> nat \<Rightarrow> nat \<times> nat \<times> nat" where
  "key16 k = (case k of (mi, ci, sk) \<Rightarrow> (mi mod 65536, ci mod 65536, sk mod 65536))"

lemma component_entry_ok:
  "component_ok st \<Longrightarrow> component_ok (component_entry mi ci sk st) \<and>
     map entry_key (fst (component_entry mi ci sk st)) = map entry_key (fst st) @ [key16 (mi, ci, sk)]"
  by (auto simp: component_ok_def component_entry_def Let_def split_def granted_def entry_key_def key16_def)

lemma component_summands_ok:
  "component_ok st \<Longrightarrow> component_ok (fold (component_entry mi ci) sks st) \<and>
     map entry_key (fst (fold (component_entry mi ci) sks st))
       = map entry_key (fst st) @ map (\<lambda>sk. key16 (mi, ci, sk)) sks"
  by (induction sks arbitrary: st) (simp_all add: component_entry_ok)

lemma component_settings_ok:
  "component_ok st \<Longrightarrow> component_ok (fold (component_setting mi) css st) \<and>
     map entry_key (fst (fold (component_setting mi) css st)) = map entry_key (fst st) @
       map key16 (concat (map (\<lambda>(ci, setting).
         map (\<lambda>sk. (mi, ci, sk)) [0..<CountSummands (fc_param (ss_filter setting))]) css))"
proof (induction css arbitrary: st)
  case (Cons cs css)
  have "component_ok (component_setting mi cs st) \<and>
     map entry_key (fst (component_setting mi cs st)) = map entry_key (fst st) @
       map (\<lambda>sk. key16 (mi, fst cs, sk)) [0..<CountSummands (fc_param (ss_filter (snd cs)))]"
    unfolding component_setting_def Let_def by (rule component_summands_ok [OF Cons.prems])
  with Cons.IH [of "component_setting mi cs st"] show ?case by (simp add: split_def comp_def)
qed simp

lemma component_layers_ok:
  "component_ok st \<Longrightarrow>
     component_ok (fold (\<lambda>(mi, layer). fold (component_setting mi) (enumerate 0 layer)) ls st) \<and>
     map entry_key (fst (fold (\<lambda>(mi, layer). fold (component_setting mi) (enumerate 0 layer)) ls st))
       = map entry_key (fst st) @ map key16 (concat (map (\<lambda>(mi, layer). concat (map (\<lambda>(ci, setting).
           map (\<lambda>sk. (mi, ci, sk)) [0..<CountSummands (fc_param (ss_filter setting))]) (enumerate 0 layer))) ls))"
proof (induction ls arbitrary: st)
  case (Cons l ls)
  with component_settings_ok [OF Cons.prems, of "fst l" "enumerate 0 (snd l)"] show ?case
    by (simp add: split_def)
qed simp

lemma component_start: "component_ok ([], 0)"
  by (simp add: component_ok_def)

lemma BuildComponentTable_keys:
  "map entry_key (BuildComponentTable scene) = map key16 (scene_summands scene)"
  using component_layers_ok [OF component_start, of "enumerate 0 scene"]
  by (simp add: BuildComponentTable_def scene_summands_def)

lemma BuildComponentTable_bits:
  "map ce_bit (BuildComponentTable scene) = map granted [0..<length (BuildComponentTable scene)]"
  using component_layers_ok [OF component_start, of "enumerate 0 scene"]
  by (simp add: BuildComponentTable_def component_ok_def)

interpretation components: bit_budget "\<lambda>scene. True" "\<lambda>scene. map ce_bit (BuildComponentTable scene)"
  by unfold_locales (simp add: BuildComponentTable_bits)

text \<open>Looking the bits of one setting up.\<close>

lemma ComponentBitsFor_snoc:
  "ComponentBitsFor (es @ [e]) layer crystal_id =
     (if ce_layer e \<noteq> layer \<or> ce_crystal_id e \<noteq> crystal_id then ComponentBitsFor es layer crystal_id
      else (let bits = ComponentBitsFor es layer crystal_id;
              bits = (if ce_summand_idx e \<ge> length bits
                then bits @ replicate (ce_summand_idx e + 1 - length bits) kNoBit else bits)
          in bits[ce_summand_idx e := ce_bit e]))"
  unfolding ComponentBitsFor_def foldl_append foldl.simps Let_def by (rule refl)

lemma ComponentBitsFor_lookup:
  assumes "distinct (map entry_key es)" and "e \<in> set es"
  shows "ce_summand_idx e < length (ComponentBitsFor es (ce_layer e) (ce_crystal_id e)) \<and>
     ComponentBitsFor es (ce_layer e) (ce_crystal_id e) ! ce_summand_idx e = ce_bit e"
  using assms
proof (induction es rule: rev_induct)
  case (snoc x es)
  show ?case
  proof (cases "e = x")
    case True
    then show ?thesis by (auto simp: ComponentBitsFor_snoc Let_def)
  next
    case False
    with snoc have IH: "ce_summand_idx e < length (ComponentBitsFor es (ce_layer e) (ce_crystal_id e))"
      "ComponentBitsFor es (ce_layer e) (ce_crystal_id e) ! ce_summand_idx e = ce_bit e" and mem: "e \<in> set es"
      by auto
    from snoc.prems(1) have "entry_key x \<notin> entry_key ` set es" by simp
    with mem have "entry_key e \<noteq> entry_key x" by (metis imageI)
    then show ?thesis
      using IH by (auto simp: ComponentBitsFor_snoc Let_def entry_key_def nth_append)
  qed
qed simp

definition small_scene :: "'f Scene \<Rightarrow> bool" where
  "small_scene scene \<longleftrightarrow> length scene \<le> 65536 \<and> list_all (\<lambda>layer. length layer \<le> 65536 \<and>
     list_all (\<lambda>setting. CountSummands (fc_param (ss_filter setting)) \<le> 65536) layer) scene"

lemma scene_summands_mem:
  "(mi, ci, sk) \<in> set (scene_summands scene) \<longleftrightarrow>
     mi < length scene \<and> ci < length (scene ! mi) \<and> sk < CountSummands (fc_param (ss_filter (scene ! mi ! ci)))"
proof
  assume "(mi, ci, sk) \<in> set (scene_summands scene)"
  then show "mi < length scene \<and> ci < length (scene ! mi) \<and> sk < CountSummands (fc_param (ss_filter (scene ! mi ! ci)))"
    by (auto simp: scene_summands_def in_set_enumerate_eq split_def)
next
  assume k: "mi < length scene \<and> ci < length (scene ! mi) \<and> sk < CountSummands (fc_param (ss_filter (scene ! mi ! ci)))"
  then have m: "(mi, scene ! mi) \<in> set (enumerate 0 scene)" "(ci, scene ! mi ! ci) \<in> set (enumerate 0 (scene ! mi))"
    by (simp_all add: in_set_enumerate_eq)
  show "(mi, ci, sk) \<in> set (scene_summands scene)"
    unfolding scene_summands_def set_concat set_map image_image UN_iff
    using k by (intro bexI [OF _ m(1)]) (auto intro!: bexI [OF _ m(2)])
qed

lemma distinct_concat_keyed:
  assumes "distinct (map f xs)" and "\<And>x. x \<in> set xs \<Longrightarrow> distinct (g x)"
    and "\<And>x y. x \<in> set xs \<Longrightarrow> y \<in> set (g x) \<Longrightarrow> h y = f x"
  shows "distinct (concat (map g xs))"
  using assms
proof (induction xs)
  case (Cons x xs)
  have "z \<notin> set (g y)" if "z \<in> set (g x)" "y \<in> set xs" for y z
  proof
    assume "z \<in> set (g y)"
    with that Cons.prems(3) [of x z] Cons.prems(3) [of y z] have "f x = f y" by simp
    with that(2) Cons.prems(1) show False by auto
  qed
  then have "set (g x) \<inter> set (concat (map g xs)) = {}" by auto
  moreover have "distinct (concat (map g xs))" using Cons by simp
  ultimately show ?case using Cons.prems(2) [of x] by simp
qed simp

lemma distinct_scene_summands: "distinct (scene_summands scene)"
  unfolding scene_summands_def
proof (rule distinct_concat_keyed [where f = fst and h = fst])
  show "distinct (map fst (enumerate 0 scene))" by simp
next
  fix ml assume "ml \<in> set (enumerate 0 scene)"
  show "distinct (case ml of (mi, layer) \<Rightarrow> concat (map (\<lambda>(ci, setting).
      map (\<lambda>sk. (mi, ci, sk)) [0..<CountSummands (fc_param (ss_filter setting))]) (enumerate 0 layer)))"
    by (cases ml, simp, rule distinct_concat_keyed [where f = fst and h = "\<lambda>k. fst (snd k)"])
      (auto simp: distinct_map inj_on_def)
qed auto

lemma key16_inj: "small_scene scene \<Longrightarrow> k \<in> set (scene_summands scene) \<Longrightarrow> key16 k = k"
proof -
  assume small: "small_scene scene" and k: "k \<in> set (scene_summands scene)"
  obtain mi ci sk where k3: "k = (mi, ci, sk)" by (cases k)
  with k have b: "mi < length scene" "ci < length (scene ! mi)" "sk < CountSummands (fc_param (ss_filter (scene ! mi ! ci)))"
    by (simp_all add: scene_summands_mem)
  with small have "length scene \<le> 65536" "length (scene ! mi) \<le> 65536"
    "CountSummands (fc_param (ss_filter (scene ! mi ! ci))) \<le> 65536"
    by (simp_all add: small_scene_def list_all_length)
  with b show ?thesis by (simp add: k3 key16_def)
qed

lemma BuildComponentTable_distinct:
  assumes "small_scene scene"
  shows "map entry_key (BuildComponentTable scene) = scene_summands scene"
    and "distinct (map entry_key (BuildComponentTable scene))"
proof -
  show "map entry_key (BuildComponentTable scene) = scene_summands scene"
    unfolding BuildComponentTable_keys using key16_inj [OF assms] by (rule map_idI)
  then show "distinct (map entry_key (BuildComponentTable scene))" by (simp add: distinct_scene_summands)
qed

text \<open>Every summand of the scene finds its own bit, and no two summands share one below the budget.\<close>

lemma component_bit_of_summand:
  assumes "small_scene scene" and "k < length (scene_summands scene)" and "scene_summands scene ! k = (mi, ci, sk)"
  shows "sk < length (ComponentBitsFor (BuildComponentTable scene) mi ci) \<and>
    ComponentBitsFor (BuildComponentTable scene) mi ci ! sk = granted k"
proof -
  let ?t = "BuildComponentTable scene"
  have len: "length ?t = length (scene_summands scene)"
    using arg_cong [OF BuildComponentTable_distinct(1) [OF assms(1)], of length] by simp
  have "entry_key (?t ! k) = (mi, ci, sk)"
    using BuildComponentTable_distinct(1) [OF assms(1)] assms(2,3) len by (metis nth_map)
  moreover have "ce_bit (?t ! k) = granted k"
    using components.bit_at [of k scene] assms(2) len by simp
  moreover have "?t ! k \<in> set ?t" using assms(2) len by simp
  ultimately show ?thesis
    using ComponentBitsFor_lookup [OF BuildComponentTable_distinct(2) [OF assms(1)], of "?t ! k"]
    by (auto simp: entry_key_def)
qed

section \<open>The gate table\<close>

definition gate_ok :: "('f, 'z) float_ops_scheme \<Rightarrow> 'f gate_state \<Rightarrow> bool" where
  "gate_ok fl st \<longleftrightarrow> (case st of (entries, next_bit, overflow_count) \<Rightarrow>
     map cg_bit entries = map granted [0..<length entries] \<and> next_bit = min kMaxBits (length entries) \<and>
     overflow_count = length entries - kMaxBits)"

definition ref_of :: "'f ColorGateEntry \<Rightarrow> 'f RaypathColorRef" where
  "ref_of e = \<lparr> cr_layer = cg_layer e, cr_crystal = cg_crystal_id e, cr_predicate = cg_predicate e,
     cr_symmetry = cg_symmetry e \<rparr>"

text \<open>No two entries have equal keys.\<close>

definition gate_unique :: "('f, 'z) float_ops_scheme \<Rightarrow> 'f gate_state \<Rightarrow> bool" where
  "gate_unique fl st \<longleftrightarrow> sorted_wrt (\<lambda>e f. \<not> gate_key_eq fl e (ref_of f)) (fst st)"

definition in_gate :: "('f, 'z) float_ops_scheme \<Rightarrow> 'f RaypathColorRef \<Rightarrow> 'f gate_state \<Rightarrow> bool" where
  "in_gate fl ref st \<longleftrightarrow> list_ex (\<lambda>e. gate_key_eq fl e ref) (fst st)"

text \<open>A predicate compares equal to itself, unless it holds a NaN.\<close>

definition self_equal :: "('f, 'z) float_ops_scheme \<Rightarrow> 'f RaypathColorRef \<Rightarrow> bool" where
  "self_equal fl ref \<longleftrightarrow> simple_param_eq fl (cr_predicate ref) (cr_predicate ref)"

lemma gate_ref_ok: "gate_ok fl st \<Longrightarrow> gate_ok fl (gate_ref fl ref st)"
  by (auto simp: gate_ok_def gate_ref_def Let_def granted_def split: prod.splits)

lemma gate_key_eq_ref: "gate_key_eq fl e (ref_of \<lparr> cg_layer = cr_layer r, cg_crystal_id = cr_crystal r, cg_bit = b,
    cg_predicate = cr_predicate r, cg_symmetry = cr_symmetry r \<rparr>) = gate_key_eq fl e r"
  by (simp add: gate_key_eq_def ref_of_def)

lemma gate_ref_unique: "gate_unique fl st \<Longrightarrow> gate_unique fl (gate_ref fl ref st)"
  by (auto simp: gate_unique_def gate_ref_def Let_def sorted_wrt_append gate_key_eq_ref list_ex_iff split: prod.splits)

lemma gate_ref_in: "self_equal fl ref \<Longrightarrow> in_gate fl ref (gate_ref fl ref st)"
  by (auto simp: in_gate_def gate_ref_def Let_def gate_key_eq_def self_equal_def split: prod.splits)

lemma gate_ref_keeps: "in_gate fl r st \<Longrightarrow> in_gate fl r (gate_ref fl ref st)"
  by (auto simp: in_gate_def gate_ref_def Let_def split: prod.splits)

text \<open>The loops carry any property every step keeps.\<close>

lemma gate_refs_inv:
  assumes "gate_refs fl scene refs st = Inr st'" and "P st"
    and "\<And>ref st. P st \<Longrightarrow> ref \<in> set refs \<Longrightarrow> P (gate_ref fl ref st)"
  shows "P st'"
  using assms by (induction refs arbitrary: st) (auto split: sum.splits)

lemma gate_classes_inv:
  assumes "gate_classes fl scene ccs st = Inr st'" and "P st"
    and "\<And>cc ref st. P st \<Longrightarrow> cc \<in> set ccs \<Longrightarrow> ref \<in> set (cc_match cc) \<Longrightarrow> P (gate_ref fl ref st)"
  shows "P st'"
  using assms
proof (induction ccs arbitrary: st)
  case (Cons cc ccs)
  from Cons.prems(1) obtain st1 where st1: "gate_refs fl scene (cc_match cc) st = Inr st1"
    and rest: "gate_classes fl scene ccs st1 = Inr st'"
    by (auto split: sum.splits)
  have "P st1"
  proof (rule gate_refs_inv [OF st1])
    show "P st" by (rule Cons.prems(2))
    show "P (gate_ref fl ref s)" if "P s" "ref \<in> set (cc_match cc)" for ref s
      using that by (intro Cons.prems(3)) simp_all
  qed
  then show ?case
  proof (rule Cons.IH [OF rest])
    show "P (gate_ref fl ref s)" if "P s" "c \<in> set ccs" "ref \<in> set (cc_match c)" for c ref s
      using that by (intro Cons.prems(3) [of _ c]) simp_all
  qed
qed simp

lemma gate_refs_in:
  "gate_refs fl scene refs st = Inr st' \<Longrightarrow> ref \<in> set refs \<Longrightarrow> self_equal fl ref \<Longrightarrow> in_gate fl ref st'"
proof (induction refs arbitrary: st)
  case (Cons r refs)
  from Cons.prems(1) have rest: "gate_refs fl scene refs (gate_ref fl r st) = Inr st'" by (auto split: sum.splits)
  show ?case
  proof (cases "ref = r")
    case True
    then show ?thesis
      using gate_refs_inv [OF rest, of "in_gate fl ref"] gate_ref_in [OF Cons.prems(3), of st] gate_ref_keeps by blast
  qed (use Cons.IH [OF rest] Cons.prems in auto)
qed simp

lemma gate_classes_in:
  "gate_classes fl scene ccs st = Inr st' \<Longrightarrow> cc \<in> set ccs \<Longrightarrow> ref \<in> set (cc_match cc) \<Longrightarrow> self_equal fl ref \<Longrightarrow>
     in_gate fl ref st'"
proof (induction ccs arbitrary: st)
  case (Cons c ccs)
  from Cons.prems(1) obtain st1 where st1: "gate_refs fl scene (cc_match c) st = Inr st1"
    and rest: "gate_classes fl scene ccs st1 = Inr st'"
    by (auto split: sum.splits)
  show ?case
  proof (cases "cc = c")
    case True
    then have "in_gate fl ref st1" using gate_refs_in [OF st1] Cons.prems by simp
    with gate_classes_inv [OF rest, of "in_gate fl ref"] gate_ref_keeps show ?thesis by blast
  qed (use Cons.IH [OF rest] Cons.prems in auto)
qed simp

definition gate_built :: "('f, 'z) float_ops_scheme \<times> 'f ColorClassConfig list \<times> 'f Scene \<times> 'f ColorGateTable \<Rightarrow> bool" where
  "gate_built s = (case s of (fl, classes, scene, table) \<Rightarrow> BuildColorGateTable fl classes scene = Inr table)"

definition gate_bits :: "('f, 'z) float_ops_scheme \<times> 'f ColorClassConfig list \<times> 'f Scene \<times> 'f ColorGateTable \<Rightarrow> nat list" where
  "gate_bits s = (case s of (fl, classes, scene, table) \<Rightarrow> map cg_bit (gt_entries table))"

lemma gate_built_state:
  assumes "BuildColorGateTable fl classes scene = Inr table"
  obtains next_bit where
    "gate_classes fl scene classes ([], 0, 0) = Inr (gt_entries table, next_bit, gt_component_overflow_count table)"
  using assms that by (auto simp: BuildColorGateTable_def split: sum.splits)

lemma gate_built_ok:
  assumes "BuildColorGateTable fl classes scene = Inr table"
  shows "map cg_bit (gt_entries table) = map granted [0..<length (gt_entries table)]"
    and "gt_component_overflow_count table = length (gt_entries table) - kMaxBits"
    and "sorted_wrt (\<lambda>e f. \<not> gate_key_eq fl e (ref_of f)) (gt_entries table)"
proof -
  from gate_built_state [OF assms] obtain n where
    st: "gate_classes fl scene classes ([], 0, 0) = Inr (gt_entries table, n, gt_component_overflow_count table)" .
  have "gate_ok fl (gt_entries table, n, gt_component_overflow_count table)"
    by (rule gate_classes_inv [OF st]) (simp_all add: gate_ok_def [of _ "([], 0, 0)"] gate_ref_ok)
  then show "map cg_bit (gt_entries table) = map granted [0..<length (gt_entries table)]"
    "gt_component_overflow_count table = length (gt_entries table) - kMaxBits"
    by (auto simp: gate_ok_def)
  have "gate_unique fl (gt_entries table, n, gt_component_overflow_count table)"
    by (rule gate_classes_inv [OF st]) (simp_all add: gate_unique_def [of _ "([], 0, 0)"] gate_ref_unique)
  then show "sorted_wrt (\<lambda>e f. \<not> gate_key_eq fl e (ref_of f)) (gt_entries table)"
    by (simp add: gate_unique_def)
qed

interpretation gate: bit_budget gate_built gate_bits
  by unfold_locales (auto simp: gate_built_def gate_bits_def gate_built_ok(1))

section \<open>Resolving references\<close>

lemma resolve_in_some:
  "list_ex (\<lambda>e. gate_key_eq fl e ref) es \<Longrightarrow>
    \<exists>e\<in>set es. gate_key_eq fl e ref \<and> resolve_in fl ref es = Inr (cg_bit e)"
  by (induction es) auto

text \<open>A table built from a configuration resolves every reference of that configuration.\<close>

lemma gate_resolves:
  assumes "BuildColorGateTable fl classes scene = Inr table" and "cc \<in> set classes" and "ref \<in> set (cc_match cc)"
    and "self_equal fl ref"
  shows "\<exists>e\<in>set (gt_entries table). gate_key_eq fl e ref \<and> ResolveRefToBit fl ref table = Inr (cg_bit e) \<and>
      (cg_bit e < kMaxBits \<or> cg_bit e = kNoBit)"
proof -
  from gate_built_state [OF assms(1)] obtain n where
    st: "gate_classes fl scene classes ([], 0, 0) = Inr (gt_entries table, n, gt_component_overflow_count table)" .
  from gate_classes_in [OF st assms(2,3,4)] obtain e where e: "e \<in> set (gt_entries table)" "gate_key_eq fl e ref"
    "ResolveRefToBit fl ref table = Inr (cg_bit e)"
    using resolve_in_some [of fl ref "gt_entries table"] by (auto simp: in_gate_def ResolveRefToBit_def)
  have "gate_built (fl, classes, scene, table)" using assms(1) by (simp add: gate_built_def)
  from gate.bit_range [OF this, of "cg_bit e"] e show ?thesis by (auto simp: gate_bits_def)
qed

lemma member_bits_spec:
  assumes "\<And>ref. ref \<in> set refs \<Longrightarrow> \<exists>b. ResolveRefToBit fl ref table = Inr b \<and> (b < kMaxBits \<or> b = kNoBit)"
  shows "\<exists>bits. member_bits_of fl table refs acc = Inr bits \<and>
      (\<forall>b<64. bit bits b \<longleftrightarrow> bit acc b \<or> (\<exists>ref\<in>set refs. ResolveRefToBit fl ref table = Inr b))"
  using assms
proof (induction refs arbitrary: acc)
  case (Cons ref refs)
  obtain b where b: "ResolveRefToBit fl ref table = Inr b" "b < kMaxBits \<or> b = kNoBit" using Cons.prems by auto
  define acc' where "acc' = (if b = kNoBit then acc else acc OR push_bit b 1)"
  obtain bits where bits: "member_bits_of fl table refs acc' = Inr bits"
    "\<forall>k<64. bit bits k \<longleftrightarrow> bit acc' k \<or> (\<exists>ref\<in>set refs. ResolveRefToBit fl ref table = Inr k)"
    using Cons.IH [of acc'] Cons.prems by auto
  have "bit acc' k \<longleftrightarrow> bit acc k \<or> k = b" if "k < 64" for k
    using that b(2) by (auto simp: acc'_def bit_or_iff bit_exp_iff kNoBit_def kMaxBits_def)
  moreover have "member_bits_of fl table (ref # refs) acc = Inr bits"
    using bits(1) b(1) by (cases "b = kNoBit") (simp_all add: acc'_def)
  ultimately show ?case using bits(2) b(1) by auto
qed simp

definition combine_known :: "'f ColorClassConfig \<Rightarrow> bool" where
  "combine_known cc \<longleftrightarrow> cc_combine cc \<in> {''any'', ''all''}"

text \<open>What a built class is, against its configuration and the gate table.\<close>

definition class_matches ::
  "('f, 'z) float_ops_scheme \<Rightarrow> 'f ColorGateTable \<Rightarrow> 'f ColorClassConfig \<Rightarrow> 'f ColorClass \<Rightarrow> bool" where
  "class_matches fl table cc c \<longleftrightarrow>
     (cl_combine c = kAll \<longleftrightarrow> cc_combine cc = ''all'') \<and> cl_visible c = cc_visible cc \<and> cl_solo c = cc_solo cc \<and>
     (\<forall>b<64. bit (cl_member_bits c) b \<longleftrightarrow> (\<exists>ref\<in>set (cc_match cc). ResolveRefToBit fl ref table = Inr b))"

lemma class_loop_spec:
  assumes "\<And>cc ref. cc \<in> set ccs \<Longrightarrow> ref \<in> set (cc_match cc) \<Longrightarrow>
      \<exists>b. ResolveRefToBit fl ref table = Inr b \<and> (b < kMaxBits \<or> b = kNoBit)"
    and "\<And>cc. cc \<in> set ccs \<Longrightarrow> combine_known cc"
  shows "\<exists>new. class_loop fl table ccs out = Inr \<lparr> ct_classes = ct_classes out @ new,
        ct_referenced_mask = foldl (\<lambda>m c. m OR cl_member_bits c) (ct_referenced_mask out) new \<rparr> \<and>
      list_all2 (class_matches fl table) ccs new \<and>
      map cl_z_order new = map int [length (ct_classes out)..<length (ct_classes out) + length ccs]"
  using assms
proof (induction ccs arbitrary: out)
  case (Cons cc ccs)
  obtain comb where comb: "combine_of (cc_combine cc) = Inr comb" "comb = kAll \<longleftrightarrow> cc_combine cc = ''all''"
    using Cons.prems(2) [of cc] by (auto simp: combine_known_def combine_of_def)
  obtain bits where bits: "member_bits_of fl table (cc_match cc) 0 = Inr bits"
    "\<forall>b<64. bit bits b \<longleftrightarrow> (\<exists>ref\<in>set (cc_match cc). ResolveRefToBit fl ref table = Inr b)"
    using member_bits_spec [of "cc_match cc" fl table 0] Cons.prems(1) [of cc] by auto
  define c where "c = \<lparr> cl_color = [cc_color cc ! 0, cc_color cc ! 1, cc_color cc ! 2], cl_combine = comb,
      cl_visible = cc_visible cc, cl_solo = cc_solo cc, cl_member_bits = bits,
      cl_z_order = int (length (ct_classes out)) \<rparr>"
  define out' where "out' = \<lparr> ct_classes = ct_classes out @ [c], ct_referenced_mask = ct_referenced_mask out OR bits \<rparr>"
  obtain new where new: "class_loop fl table ccs out' = Inr \<lparr> ct_classes = ct_classes out' @ new,
        ct_referenced_mask = foldl (\<lambda>m c. m OR cl_member_bits c) (ct_referenced_mask out') new \<rparr>"
      "list_all2 (class_matches fl table) ccs new"
      "map cl_z_order new = map int [length (ct_classes out')..<length (ct_classes out') + length ccs]"
    using Cons.IH [of out'] Cons.prems by auto
  have step: "class_loop fl table (cc # ccs) out = class_loop fl table ccs out'"
    using comb(1) bits(1) by (simp add: out'_def c_def)
  have "class_matches fl table cc c" using comb(2) bits(2) by (simp add: class_matches_def c_def)
  moreover have "map cl_z_order (c # new) = map int [length (ct_classes out)..<length (ct_classes out) + length (cc # ccs)]"
    using new(3) by (simp add: out'_def c_def upt_rec)
  ultimately show ?case
    using new(1,2) step by (intro exI [of _ "c # new"]) (simp add: out'_def c_def)
qed simp

text \<open>Building the classes after the gate can only fail on an unknown combine string.\<close>

lemma BuildColorClassTable_total:
  fixes fl :: "('f, 'z) float_ops_scheme"
  assumes "BuildColorGateTable fl classes scene = Inr gate"
    and "\<And>cc ref. cc \<in> set classes \<Longrightarrow> ref \<in> set (cc_match cc) \<Longrightarrow> self_equal fl ref"
    and "\<And>cc. cc \<in> set classes \<Longrightarrow> combine_known cc"
  shows "\<exists>table. BuildColorClassTable fl classes gate = Inr table \<and>
      list_all2 (class_matches fl gate) classes (ct_classes table) \<and>
      map cl_z_order (ct_classes table) = map int [0..<length classes] \<and>
      ct_referenced_mask table = foldl (\<lambda>m c. m OR cl_member_bits c) 0 (ct_classes table)"
proof -
  let ?start = "\<lparr> ct_classes = [], ct_referenced_mask = 0 \<rparr> :: 'f ColorClassTable"
  have res: "\<exists>b. ResolveRefToBit fl ref gate = Inr b \<and> (b < kMaxBits \<or> b = kNoBit)"
    if "cc \<in> set classes" "ref \<in> set (cc_match cc)" for cc ref
    using gate_resolves [OF assms(1) that assms(2) [OF that]] by blast
  have "\<exists>new. class_loop fl gate classes ?start = Inr \<lparr> ct_classes = ct_classes ?start @ new,
        ct_referenced_mask = foldl (\<lambda>m c. m OR cl_member_bits c) (ct_referenced_mask ?start) new \<rparr> \<and>
      list_all2 (class_matches fl gate) classes new \<and>
      map cl_z_order new = map int [length (ct_classes ?start)..<length (ct_classes ?start) + length classes]"
    by (rule class_loop_spec) (use res assms(3) in blast)+
  then show ?thesis by (auto simp: BuildColorClassTable_def)
qed

text \<open>\<open>NeedsRebuild\<close> compares the lane layout and nothing else.\<close>

lemma rebuild_loop_iff:
  "length as = length bs \<Longrightarrow> rebuild_loop as bs \<longleftrightarrow>
     map (\<lambda>c. (cl_combine c, cl_member_bits c)) as \<noteq> map (\<lambda>c. (cl_combine c, cl_member_bits c)) bs"
  by (induction as bs rule: list_induct2) auto

lemma NeedsRebuild_iff:
  "NeedsRebuild a b \<longleftrightarrow> map (\<lambda>c. (cl_combine c, cl_member_bits c)) (ct_classes a)
     \<noteq> map (\<lambda>c. (cl_combine c, cl_member_bits c)) (ct_classes b)"
  by (auto simp: NeedsRebuild_def rebuild_loop_iff dest: map_eq_imp_length_eq)

section \<open>Grouping by symmetry\<close>

lemma group_index_le: "group_index s gs \<le> length gs"
  by (induction gs) auto

lemma group_index_found: "group_index s gs < length gs \<longleftrightarrow> s \<in> set gs"
  by (induction gs) auto

lemma group_index_at: "s \<in> set gs \<Longrightarrow> gs ! group_index s gs = s"
  by (induction gs) auto

definition group_ok :: "u8 list \<Rightarrow> nat list \<Rightarrow> u8 list \<Rightarrow> bool" where
  "group_ok gs idx syms \<longleftrightarrow> distinct gs \<and> length idx = length syms \<and> set gs = set syms \<and>
     (\<forall>k<length syms. idx ! k < length gs \<and> gs ! (idx ! k) = syms ! k)"

lemma group_loop_ok:
  "group_ok gs idx seen \<Longrightarrow> group_loop syms gs idx = (gs', idx') \<Longrightarrow> group_ok gs' idx' (seen @ syms)"
proof (induction syms arbitrary: gs idx seen)
  case (Cons s syms)
  let ?gi = "group_index s gs"
  define gs1 where "gs1 = (if ?gi = length gs then gs @ [s] else gs)"
  have "group_ok gs1 (idx @ [?gi]) (seen @ [s])"
  proof (cases "?gi = length gs")
    case True
    then have "s \<notin> set gs" using group_index_found [of s gs] by simp
    with True Cons.prems(1) show ?thesis by (auto simp: group_ok_def gs1_def nth_append less_Suc_eq)
  next
    case False
    then have "s \<in> set gs" using group_index_found [of s gs] group_index_le [of s gs] by simp
    with False Cons.prems(1) group_index_at [of s gs] group_index_found [of s gs] show ?thesis
      by (auto simp: group_ok_def gs1_def nth_append less_Suc_eq)
  qed
  from Cons.IH [OF this] Cons.prems(2) show ?case by (simp add: gs1_def Let_def)
qed simp

lemma GroupPlacement_spec:
  assumes "length (gp_symmetries p) = length (gp_predicates p)" and "GroupPlacementBySymmetry p = (gs, idx)"
  shows "group_ok gs idx (gp_symmetries p)"
  using group_loop_ok [of "[]" "[]" "[]" "gp_symmetries p" gs idx] assms
  by (simp add: GroupPlacementBySymmetry_def group_ok_def [of "[]"])

lemma placement_foldl:
  "foldl (\<lambda>out e.
        if cg_layer e \<noteq> layer \<or> cg_crystal_id e \<noteq> c then out
        else out\<lparr> gp_predicates := gp_predicates out @ [cg_predicate e], gp_bits := gp_bits out @ [cg_bit e],
                  gp_symmetries := gp_symmetries out @ [cg_symmetry e] \<rparr>) out es =
     (let fs = filter (\<lambda>e. cg_layer e = layer \<and> cg_crystal_id e = c) es
       in out\<lparr> gp_predicates := gp_predicates out @ map cg_predicate fs, gp_bits := gp_bits out @ map cg_bit fs,
               gp_symmetries := gp_symmetries out @ map cg_symmetry fs \<rparr>)"
  by (induction es arbitrary: out) (auto simp: Let_def)

lemma ColorGatePlacementFor_eq:
  "ColorGatePlacementFor table layer c =
     (let es = filter (\<lambda>e. cg_layer e = layer \<and> cg_crystal_id e = c) (gt_entries table)
      in \<lparr> gp_predicates = map cg_predicate es, gp_bits = map cg_bit es, gp_symmetries = map cg_symmetry es \<rparr>)"
  unfolding ColorGatePlacementFor_def placement_foldl by (simp add: Let_def)

end
