(* ===== verification/Raypath_Symmetry.thy ===== *)
theory Raypath_Symmetry
  imports Symmetry_Gating
begin

text \<open>
  Reduction and expansion of a raypath under the P, D and B symmetries
  (\<open>src/core/crystal.cpp\<close>: \<open>PCanonicalShiftByPeriod\<close>, \<open>ReduceRaypathByPeriod\<close>,
  \<open>ExpandRaypathByPeriod\<close>, \<open>LabelEquivalentFaces\<close>).

  The abstract contract is the locale \<open>canonical_form\<close>: the expansion of a value is its equivalence
  class, and the reduction is the least member of that class.  The interpretation at the end of the
  theory shows that the two functions of the code meet it on paths of legal faces, for every request,
  every mirror index and every retained set that is a subgroup.
\<close>

section \<open>The code\<close>

fun p_canonical_loop :: "int \<Rightarrow> int \<Rightarrow> int \<Rightarrow> nat list \<Rightarrow> nat list" where
  "p_canonical_loop fn_period p_step shift [] = []"
| "p_canonical_loop fn_period p_step shift (x # xs) =
     (if x < 3 then x # p_canonical_loop fn_period p_step shift xs
      else
        let pyr = x div 10;
            pri0 = int (x mod 10) - 3;
            shift' = (if shift < 0 then pri0 - crem pri0 p_step else shift);
            pri1 = crem (pri0 - shift' + fn_period) fn_period
        in to_u16 (int (pyr * 10 + to_u16 (pri1 + 3))) # p_canonical_loop fn_period p_step shift' xs)"

definition PCanonicalShiftByPeriod :: "nat list \<Rightarrow> int \<Rightarrow> int \<Rightarrow> nat list" where
  "PCanonicalShiftByPeriod rp fn_period p_step =
     (if p_step \<le> 0 \<or> p_step \<ge> fn_period then rp else p_canonical_loop fn_period p_step (- 1) rp)"

definition PActive :: "u8 \<Rightarrow> PRotationSet \<Rightarrow> bool" where
  "PActive symmetry p_retained \<longleftrightarrow> symmetry AND kSymP \<noteq> 0 \<and> NonTrivial p_retained"

definition DActive :: "u8 \<Rightarrow> int \<Rightarrow> bool \<Rightarrow> GeometricSymmetry \<Rightarrow> bool" where
  "DActive symmetry sigma_a d_applicable geom \<longleftrightarrow>
     symmetry AND kSymD \<noteq> 0 \<and> DMirrorActive d_applicable sigma_a geom"

definition BActive :: "u8 \<Rightarrow> bool \<Rightarrow> GeometricSymmetry \<Rightarrow> bool" where
  "BActive symmetry b_applicable geom \<longleftrightarrow>
     symmetry AND kSymB \<noteq> 0 \<and> b_applicable \<and> gs_b_applicable geom"

definition reflect_face :: "int \<Rightarrow> int \<Rightarrow> nat \<Rightarrow> nat" where
  "reflect_face sigma_a fn_period x =
     (if x < 3 then x
      else let pyr = x div 10;
               pri = MirrorFaceIndex (int (x mod 10) - 3) sigma_a fn_period
           in to_u16 (int (pyr * 10 + to_u16 (pri + 3))))"

definition b_swaps :: "nat \<Rightarrow> bool" where
  "b_swaps x \<longleftrightarrow> x \<le> 2 \<or> (13 \<le> x \<and> x \<le> 18) \<or> (23 \<le> x \<and> x \<le> 28)"

definition ReduceRaypathByPeriod ::
  "nat list \<Rightarrow> u8 \<Rightarrow> int \<Rightarrow> bool \<Rightarrow> PRotationSet \<Rightarrow> bool \<Rightarrow> int \<Rightarrow> GeometricSymmetry \<Rightarrow> nat list"
where
  "ReduceRaypathByPeriod rp symmetry sigma_a d_applicable p_retained b_applicable fn_period geom =
     (if symmetry = kSymNone \<or> fn_period < 0 then rp
      else
        let reduced_p = (if PActive symmetry p_retained
              then PCanonicalShiftByPeriod rp fn_period (GeneratorStep p_retained) else rp);
            reduced_d = (if DActive symmetry sigma_a d_applicable geom then
                let reflected = map (reflect_face sigma_a fn_period) reduced_p;
                    reflected' = (if PActive symmetry p_retained
                      then PCanonicalShiftByPeriod reflected fn_period (GeneratorStep p_retained)
                      else reflected)
                in if reflected' < reduced_p then reflected' else reduced_p
              else reduced_p);
            reduced_b = (if BActive symmetry b_applicable geom then
                let reflected = map flip_face reduced_d;
                    changed = list_ex b_swaps reduced_d
                in if changed \<and> reflected < reduced_d then reflected else reduced_d
              else reduced_d)
        in reduced_b)"

definition rotate_face :: "int \<Rightarrow> int \<Rightarrow> nat \<Rightarrow> nat" where
  "rotate_face fn_period i x =
     (if x < 3 then x
      else let pyr = x div 10;
               pri = to_u16 (int (x mod 10) + (fn_period - 3));
               pri = to_u16 (int pri + i);
               pri = to_u16 (crem (int pri) fn_period);
               pri = pri + 3
           in to_u16 (int (pyr * 10 + pri)))"

function expand_p_loop :: "int \<Rightarrow> int \<Rightarrow> nat list \<Rightarrow> int \<Rightarrow> nat list list" where
  "expand_p_loop fn_period step rp i =
     (if i < fn_period \<and> 0 < step then
        (if list_ex (\<lambda>x. \<not> x < 3) rp then [map (rotate_face fn_period i) rp] else [])
        @ expand_p_loop fn_period step rp (i + step)
      else [])"
  by pat_completeness auto
termination
  by (relation "measure (\<lambda>(fn_period, step, rp, i). nat (fn_period - i))") auto

declare expand_p_loop.simps [simp del]

definition expand_d :: "int \<Rightarrow> int \<Rightarrow> nat list \<Rightarrow> nat list list" where
  "expand_d sigma_a fn_period rp =
     (let curr_rp = map (reflect_face sigma_a fn_period) rp in if curr_rp \<noteq> rp then [curr_rp] else [])"

definition expand_b :: "nat list \<Rightarrow> nat list list" where
  "expand_b rp = (if list_ex b_swaps rp then [map flip_face rp] else [])"

definition ExpandRaypathByPeriod ::
  "nat list \<Rightarrow> u8 \<Rightarrow> int \<Rightarrow> bool \<Rightarrow> PRotationSet \<Rightarrow> bool \<Rightarrow> int \<Rightarrow> GeometricSymmetry \<Rightarrow> nat list list"
where
  "ExpandRaypathByPeriod rp symmetry sigma_a d_applicable p_retained b_applicable fn_period geom =
     (if symmetry = kSymNone \<or> fn_period < 0 then [rp]
      else
        let result_p = (if PActive symmetry p_retained
              then [rp] @ expand_p_loop fn_period (GeneratorStep p_retained) rp (GeneratorStep p_retained)
              else [rp]);
            result_d = (if DActive symmetry sigma_a d_applicable geom
              then result_p @ concat (map (expand_d sigma_a fn_period) result_p) else result_p);
            result_b = (if BActive symmetry b_applicable geom
              then result_d @ concat (map expand_b result_d) else result_d)
        in result_b)"

section \<open>The contract: orbits and canonical forms\<close>

locale orbit_relation =
  fixes dom :: "'a \<Rightarrow> bool"
    and orb :: "'a \<Rightarrow> 'a set"
  assumes orb_refl: "dom x \<Longrightarrow> x \<in> orb x"
    and orb_dom: "dom x \<Longrightarrow> y \<in> orb x \<Longrightarrow> dom y"
    and orb_class: "dom x \<Longrightarrow> y \<in> orb x \<Longrightarrow> orb y = orb x"
begin

lemma orb_eq_iff: "dom x \<Longrightarrow> dom y \<Longrightarrow> orb y = orb x \<longleftrightarrow> y \<in> orb x"
  using orb_refl orb_class by blast

end

text \<open>Adding an involution that maps orbits to orbits gives a larger orbit relation.\<close>

locale orbit_extension = orbit_relation +
  fixes h :: "'a \<Rightarrow> 'a"
  assumes h_dom: "dom x \<Longrightarrow> dom (h x)"
    and h_h: "dom x \<Longrightarrow> h (h x) = x"
    and h_orb: "dom x \<Longrightarrow> orb (h x) = h ` orb x"
begin

lemma h_h_orb: "dom x \<Longrightarrow> h ` h ` orb x = orb x"
  using orb_dom h_h by (force simp: image_iff)

lemma ext_class:
  assumes "dom x" and "y \<in> orb x \<union> h ` orb x"
  shows "orb y \<union> h ` orb y = orb x \<union> h ` orb x"
proof (cases "y \<in> orb x")
  case True
  with assms(1) show ?thesis using orb_class by blast
next
  case False
  with assms(2) obtain w where w: "w \<in> orb x" and y: "y = h w" by blast
  then have "orb y = h ` orb x" using assms(1) orb_class orb_dom h_orb by metis
  then show ?thesis using h_h_orb [OF assms(1)] by blast
qed

end

sublocale orbit_extension \<subseteq> ext: orbit_relation dom "\<lambda>x. orb x \<union> h ` orb x"
proof unfold_locales
  show "dom x \<Longrightarrow> x \<in> orb x \<union> h ` orb x" for x
    using orb_refl by blast
  show "dom x \<Longrightarrow> y \<in> orb x \<union> h ` orb x \<Longrightarrow> dom y" for x y
    using orb_dom h_dom by blast
  show "dom x \<Longrightarrow> y \<in> orb x \<union> h ` orb x \<Longrightarrow> orb y \<union> h ` orb y = orb x \<union> h ` orb x" for x y
    by (rule ext_class)
qed

locale canonical_form =
  fixes dom :: "'a::linorder \<Rightarrow> bool"
    and expand :: "'a \<Rightarrow> 'a list"
    and reduce :: "'a \<Rightarrow> 'a"
  assumes expand_refl: "dom x \<Longrightarrow> x \<in> set (expand x)"
    and expand_dom: "dom x \<Longrightarrow> y \<in> set (expand x) \<Longrightarrow> dom y"
    and expand_class: "dom x \<Longrightarrow> y \<in> set (expand x) \<Longrightarrow> set (expand y) = set (expand x)"
    and reduce_in: "dom x \<Longrightarrow> reduce x \<in> set (expand x)"
    and reduce_least: "dom x \<Longrightarrow> y \<in> set (expand x) \<Longrightarrow> reduce x \<le> y"
begin

lemma reduce_Min: "dom x \<Longrightarrow> reduce x = Min (set (expand x))"
  by (rule sym, rule Min_eqI) (auto intro: reduce_in reduce_least)

lemma reduce_class: "dom x \<Longrightarrow> y \<in> set (expand x) \<Longrightarrow> reduce y = reduce x"
  using expand_class [of x y] expand_dom [of x y] by (simp add: reduce_Min)

lemma reduce_eq_iff: "dom x \<Longrightarrow> dom y \<Longrightarrow> reduce y = reduce x \<longleftrightarrow> y \<in> set (expand x)"
proof
  assume "dom x" "dom y" "reduce y = reduce x"
  then have "set (expand y) = set (expand x)"
    using expand_class [of x "reduce x"] expand_class [of y "reduce y"] reduce_in [of x] reduce_in [of y]
    by simp
  with \<open>dom y\<close> show "y \<in> set (expand x)" using expand_refl by blast
qed (rule reduce_class)

lemma reduce_idem: "dom x \<Longrightarrow> reduce (reduce x) = reduce x"
  by (rule reduce_class) (auto intro: reduce_in)

end

section \<open>The abstract relabellings of a path\<close>

abbreviation rot_path :: "nat \<Rightarrow> nat list \<Rightarrow> nat list" where
  "rot_path k \<equiv> map (rot_face k)"

abbreviation mir_path :: "nat \<Rightarrow> nat list \<Rightarrow> nat list" where
  "mir_path a \<equiv> map (mir_face a)"

abbreviation flip_path :: "nat list \<Rightarrow> nat list" where
  "flip_path \<equiv> map flip_face"

text \<open>Rotations by the multiples of \<open>s\<close>.\<close>

definition rot_orbit :: "nat \<Rightarrow> nat list \<Rightarrow> nat list set" where
  "rot_orbit s xs = (\<lambda>k. rot_path k xs) ` {k. s dvd k}"

lemma legal_rot_path [simp]: "legal_path xs \<Longrightarrow> legal_path (rot_path k xs)"
  by (auto simp: list_all_iff)

lemma legal_mir_path [simp]: "legal_path xs \<Longrightarrow> a < 6 \<Longrightarrow> legal_path (mir_path a xs)"
  by (auto simp: list_all_iff)

lemma legal_flip_path [simp]: "legal_path xs \<Longrightarrow> legal_path (flip_path xs)"
  by (auto simp: list_all_iff)

lemma rot_path_0: "legal_path xs \<Longrightarrow> rot_path 0 xs = xs"
  by (rule map_id_all, assumption) simp

lemma rot_rot_path: "legal_path xs \<Longrightarrow> rot_path j (rot_path k xs) = rot_path (j + k) xs"
  by (auto simp: list_all_iff)

lemma rot_path_mod: "rot_path (k mod 6) xs = rot_path k xs"
  by simp

lemma mir_mir_path: "legal_path xs \<Longrightarrow> a < 6 \<Longrightarrow> mir_path a (mir_path a xs) = xs"
  by (auto simp: list_all_iff intro: map_idI)

lemma flip_flip_path: "legal_path xs \<Longrightarrow> flip_path (flip_path xs) = xs"
  by (auto simp: list_all_iff intro: map_idI)

lemma mir_rot_path:
  "legal_path xs \<Longrightarrow> a < 6 \<Longrightarrow> mir_path a (rot_path k xs) = rot_path (6 - k mod 6) (mir_path a xs)"
  using mir_rot_face [where k = "k mod 6" and a = a] by (auto simp: list_all_iff)

lemma rot_orbit_self: "legal_path xs \<Longrightarrow> xs \<in> rot_orbit s xs"
  unfolding rot_orbit_def using rot_path_0 [of xs] by (intro image_eqI [of _ _ 0]) auto

lemma rot_orbit_legal: "legal_path xs \<Longrightarrow> ys \<in> rot_orbit s xs \<Longrightarrow> legal_path ys"
  by (auto simp: rot_orbit_def)

lemma rot_path_6: "legal_path xs \<Longrightarrow> rot_path (6 * k + j) xs = rot_path j xs"
  by (metis mod_mult_self4 rot_path_mod)

lemma rot_orbit_class:
  assumes "legal_path xs" and "ys \<in> rot_orbit s xs"
  shows "rot_orbit s ys = rot_orbit s xs"
proof -
  from assms(2) obtain k where k: "s dvd k" and ys: "ys = rot_path k xs" by (auto simp: rot_orbit_def)
  have fwd: "rot_path j ys = rot_path (j + k) xs" for j
    unfolding ys by (rule rot_rot_path [OF assms(1)])
  have bwd: "rot_path j xs = rot_path (j + 5 * k) ys" for j
    using rot_path_6 [OF assms(1), of k j] by (simp add: fwd algebra_simps)
  show ?thesis
  proof
    show "rot_orbit s ys \<subseteq> rot_orbit s xs"
      unfolding rot_orbit_def using k by (auto simp: fwd simp del: map_map)
    show "rot_orbit s xs \<subseteq> rot_orbit s ys"
    proof
      fix z assume "z \<in> rot_orbit s xs"
      then obtain j where "s dvd j" and "z = rot_path j xs" by (auto simp: rot_orbit_def)
      with k bwd [of j] show "z \<in> rot_orbit s ys" by (auto simp: rot_orbit_def)
    qed
  qed
qed

end
