(* ===== verification/Raypath_Canonical.thy ===== *)
theory Raypath_Canonical
  imports Raypath_Symmetry
begin

text \<open>
  The reduction and expansion of \<open>Raypath_Symmetry\<close> meet the contract \<open>canonical_form\<close>: first the
  orbits of the abstract relabellings are built up by two involutions (\<open>orbit_extension\<close>), then the
  code's loops are shown to enumerate the orbit and to return its least member.
\<close>

section \<open>Orbits built from the three relabellings\<close>

definition orbit_dom :: "nat \<Rightarrow> nat \<Rightarrow> nat list \<Rightarrow> bool" where
  "orbit_dom s a xs \<longleftrightarrow> s \<in> {1, 2, 3, 6} \<and> a < 6 \<and> legal_path xs"

definition d_image :: "bool \<Rightarrow> nat \<Rightarrow> nat list \<Rightarrow> nat list" where
  "d_image on a xs = (if on then mir_path a xs else xs)"

definition b_image :: "bool \<Rightarrow> nat list \<Rightarrow> nat list" where
  "b_image on xs = (if on then flip_path xs else xs)"

definition dihedral_orbit :: "nat \<Rightarrow> bool \<Rightarrow> nat \<Rightarrow> nat list \<Rightarrow> nat list set" where
  "dihedral_orbit s d a xs = rot_orbit s xs \<union> d_image d a ` rot_orbit s xs"

definition full_orbit :: "nat \<Rightarrow> bool \<Rightarrow> nat \<Rightarrow> bool \<Rightarrow> nat list \<Rightarrow> nat list set" where
  "full_orbit s d a b xs = dihedral_orbit s d a xs \<union> b_image b ` dihedral_orbit s d a xs"

interpretation rotations: orbit_relation "orbit_dom s a" "rot_orbit s" for s a
  by unfold_locales (auto simp: orbit_dom_def rot_orbit_self dest: rot_orbit_legal rot_orbit_class)

lemma d_image_legal [simp]: "legal_path xs \<Longrightarrow> a < 6 \<Longrightarrow> legal_path (d_image d a xs)"
  by (simp add: d_image_def)

lemma b_image_legal [simp]: "legal_path xs \<Longrightarrow> legal_path (b_image b xs)"
  by (simp add: b_image_def)

lemma dvd6_minus: "s \<in> {1, 2, 3, 6::nat} \<Longrightarrow> s dvd k \<Longrightarrow> s dvd 6 - k mod 6"
  by (rule dvd_diff_nat) (auto simp: dvd_mod)

lemma mir_rot_orbit:
  assumes "orbit_dom s a xs"
  shows "rot_orbit s (mir_path a xs) = mir_path a ` rot_orbit s xs"
proof -
  from assms have s: "s \<in> {1, 2, 3, 6}" and a: "a < 6" and xs: "legal_path xs"
    by (auto simp: orbit_dom_def)
  have mr: "mir_path a (rot_path k xs) = rot_path (6 - k mod 6) (mir_path a xs)" for k
    by (rule mir_rot_path [OF xs a])
  have rm: "rot_path k (mir_path a xs) = mir_path a (rot_path (6 - k mod 6) xs)" for k
  proof -
    have "6 - (6 - k mod 6) mod 6 = k mod 6 \<or> 6 - (6 - k mod 6) mod 6 = 6 + k mod 6"
      by (cases "k mod 6 = 0") auto
    then have "rot_path (6 - (6 - k mod 6) mod 6) (mir_path a xs) = rot_path k (mir_path a xs)"
      by (metis mod_add_self1 mod_mod_trivial rot_path_mod)
    with mr [of "6 - k mod 6"] show ?thesis by metis
  qed
  show ?thesis
  proof
    show "rot_orbit s (mir_path a xs) \<subseteq> mir_path a ` rot_orbit s xs"
    proof
      fix z assume "z \<in> rot_orbit s (mir_path a xs)"
      then obtain k where "s dvd k" and "z = rot_path k (mir_path a xs)" by (auto simp: rot_orbit_def)
      with rm [of k] dvd6_minus [OF s] show "z \<in> mir_path a ` rot_orbit s xs"
        unfolding rot_orbit_def by (metis (mono_tags, lifting) imageI mem_Collect_eq)
    qed
    show "mir_path a ` rot_orbit s xs \<subseteq> rot_orbit s (mir_path a xs)"
    proof
      fix z assume "z \<in> mir_path a ` rot_orbit s xs"
      then obtain k where "s dvd k" and "z = mir_path a (rot_path k xs)"
        by (auto simp: rot_orbit_def simp del: map_map)
      with mr [of k] dvd6_minus [OF s] show "z \<in> rot_orbit s (mir_path a xs)"
        unfolding rot_orbit_def by (metis (mono_tags, lifting) imageI mem_Collect_eq)
    qed
  qed
qed

lemma flip_rot_path: "legal_path xs \<Longrightarrow> flip_path (rot_path k xs) = rot_path k (flip_path xs)"
  by (auto simp: list_all_iff flip_rot_face)

lemma flip_mir_path: "legal_path xs \<Longrightarrow> a < 6 \<Longrightarrow> flip_path (mir_path a xs) = mir_path a (flip_path xs)"
  by (auto simp: list_all_iff flip_mir_face)

lemma b_image_rot_orbit:
  "legal_path xs \<Longrightarrow> rot_orbit s (b_image b xs) = b_image b ` rot_orbit s xs"
  by (auto simp: rot_orbit_def b_image_def flip_rot_path image_iff simp del: map_map)

lemma b_d_image: "legal_path xs \<Longrightarrow> a < 6 \<Longrightarrow> b_image b (d_image d a xs) = d_image d a (b_image b xs)"
  by (auto simp: b_image_def d_image_def flip_mir_path simp del: map_map)

interpretation mirrors: orbit_extension "orbit_dom s a" "rot_orbit s" "d_image d a" for s a d
  by unfold_locales
    (auto simp: orbit_dom_def d_image_def mir_mir_path mir_rot_orbit simp del: map_map)

lemma b_image_dihedral:
  assumes "orbit_dom s a xs"
  shows "dihedral_orbit s d a (b_image b xs) = b_image b ` dihedral_orbit s d a xs"
proof -
  from assms have a: "a < 6" and xs: "legal_path xs" by (auto simp: orbit_dom_def)
  have "d_image d a ` b_image b ` rot_orbit s xs = b_image b ` d_image d a ` rot_orbit s xs"
    unfolding image_image using rot_orbit_legal [OF xs] a by (intro image_cong) (simp_all add: b_d_image)
  then show ?thesis by (simp add: dihedral_orbit_def b_image_rot_orbit [OF xs] image_Un)
qed

interpretation exchanges: orbit_extension "orbit_dom s a" "dihedral_orbit s d a" "b_image b" for s a d b
proof unfold_locales
  fix x y
  show "orbit_dom s a x \<Longrightarrow> x \<in> dihedral_orbit s d a x"
    unfolding dihedral_orbit_def by (rule mirrors.ext.orb_refl)
  show "orbit_dom s a x \<Longrightarrow> y \<in> dihedral_orbit s d a x \<Longrightarrow> orbit_dom s a y"
    unfolding dihedral_orbit_def by (rule mirrors.ext.orb_dom)
  show "orbit_dom s a x \<Longrightarrow> y \<in> dihedral_orbit s d a x \<Longrightarrow> dihedral_orbit s d a y = dihedral_orbit s d a x"
    unfolding dihedral_orbit_def by (rule mirrors.ext.orb_class)
  show "orbit_dom s a x \<Longrightarrow> orbit_dom s a (b_image b x)"
    by (simp add: orbit_dom_def)
  show "orbit_dom s a x \<Longrightarrow> b_image b (b_image b x) = x"
    by (auto simp: orbit_dom_def b_image_def flip_flip_path simp del: map_map)
qed (rule b_image_dihedral)

lemmas full_orbit_laws =
  exchanges.ext.orb_refl [folded full_orbit_def]
  exchanges.ext.orb_dom [folded full_orbit_def]
  exchanges.ext.orb_class [folded full_orbit_def]

section \<open>The P-canonical form is the least rotation\<close>

definition p_canonical :: "nat \<Rightarrow> nat list \<Rightarrow> nat list" where
  "p_canonical s xs = (case find (\<lambda>x. 3 \<le> x) xs of
       None \<Rightarrow> xs
     | Some f \<Rightarrow> rot_path (6 - ((f mod 10 - 3) - (f mod 10 - 3) mod s)) xs)"

lemma find_split: "find P xs = Some f \<Longrightarrow> \<exists>bs rest. xs = bs @ f # rest \<and> list_all (\<lambda>x. \<not> P x) bs \<and> P f"
proof (induction xs)
  case (Cons x xs)
  show ?case
  proof (cases "P x")
    case True
    with Cons.prems show ?thesis by (intro exI [of _ "[]"] exI [of _ xs]) auto
  next
    case False
    with Cons obtain bs rest where "xs = bs @ f # rest \<and> list_all (\<lambda>x. \<not> P x) bs \<and> P f" by auto
    with False show ?thesis by (intro exI [of _ "x # bs"] exI [of _ rest]) simp
  qed
qed simp

lemma rot_path_basal: "list_all (\<lambda>x. \<not> 3 \<le> x) xs \<Longrightarrow> rot_path k xs = xs"
  by (rule map_id_all, assumption) (simp add: rot_face_def)

lemma rot_first_face:
  assumes "legal f" and "3 \<le> f" and "s \<in> {1, 2, 3, 6}" and "s dvd k"
  defines "c \<equiv> 6 - ((f mod 10 - 3) - (f mod 10 - 3) mod s)"
  shows "s dvd c" and "rot_face c f < rot_face k f \<or> k mod 6 = c mod 6"
proof -
  let ?c = "\<lambda>f s. 6 - ((f mod 10 - 3) - (f mod 10 - 3) mod s) :: nat"
  have all: "list_all (\<lambda>f. list_all (\<lambda>s. 3 \<le> f \<longrightarrow> s dvd ?c f s \<and>
      list_all (\<lambda>k. s dvd k \<longrightarrow> rot_face (?c f s) f < rot_face k f \<or> k = ?c f s mod 6) [0,1,2,3,4,5])
      [1, 2, 3, 6]) legal_faces"
    by code_simp
  from legal_elim [OF assms(1) this] assms(2,3)
  have s: "s dvd ?c f s" and
    k: "list_all (\<lambda>k. s dvd k \<longrightarrow> rot_face (?c f s) f < rot_face k f \<or> k = ?c f s mod 6) [0,1,2,3,4,5]"
    by (auto simp only: list_all_iff list.set insert_iff empty_iff)
  show "s dvd c" using s by (simp only: c_def)
  have "s dvd k mod 6" using assms(3,4) by (auto simp: dvd_mod)
  moreover have "s dvd k mod 6 \<longrightarrow> rot_face (?c f s) f < rot_face (k mod 6) f \<or> k mod 6 = ?c f s mod 6"
    by (rule lt6_cases [OF _ k]) simp
  ultimately show "rot_face c f < rot_face k f \<or> k mod 6 = c mod 6" by (simp add: c_def)
qed

lemma p_canonical_in:
  assumes "legal_path xs" and "s \<in> {1, 2, 3, 6}"
  shows "p_canonical s xs \<in> rot_orbit s xs"
proof (cases "find (\<lambda>x. 3 \<le> x) xs")
  case None
  then show ?thesis using rot_orbit_self [OF assms(1)] by (simp add: p_canonical_def)
next
  case (Some f)
  with find_split [OF Some] assms(1) have "legal f" "3 \<le> f" by auto
  from rot_first_face(1) [OF this assms(2) dvd_0_right] Some show ?thesis
    by (auto simp: p_canonical_def rot_orbit_def)
qed

lemma p_canonical_least:
  assumes "legal_path xs" and "s \<in> {1, 2, 3, 6}" and "ys \<in> rot_orbit s xs"
  shows "p_canonical s xs \<le> ys"
proof -
  from assms(3) obtain k where k: "s dvd k" and ys: "ys = rot_path k xs" by (auto simp: rot_orbit_def)
  show ?thesis
  proof (cases "find (\<lambda>x. 3 \<le> x) xs")
    case None
    then have "list_all (\<lambda>x. \<not> 3 \<le> x) xs" by (simp add: find_None_iff list_all_iff)
    then have "ys = xs" unfolding ys by (rule rot_path_basal)
    with None show ?thesis by (simp add: p_canonical_def)
  next
    case (Some f)
    define c where "c = 6 - ((f mod 10 - 3) - (f mod 10 - 3) mod s)"
    from find_split [OF Some] obtain bs rest
      where xs: "xs = bs @ f # rest" and bs: "list_all (\<lambda>x. \<not> 3 \<le> x) bs" and f: "3 \<le> f" by blast
    from xs assms(1) have "legal f" by simp
    from rot_first_face(2) [OF this f assms(2) k, folded c_def]
    have "rot_path c xs \<le> rot_path k xs"
    proof
      assume "rot_face c f < rot_face k f"
      then show ?thesis by (simp add: xs rot_path_basal [OF bs])
    next
      assume "k mod 6 = c mod 6"
      then show ?thesis by (metis order_refl rot_path_mod)
    qed
    with Some show ?thesis by (simp add: p_canonical_def ys c_def)
  qed
qed

lemma p_canonical_6: "legal_path xs \<Longrightarrow> p_canonical 6 xs = xs"
proof (cases "find (\<lambda>x. 3 \<le> x) xs")
  case (Some f)
  assume xs: "legal_path xs"
  with find_split [OF Some] have "legal f" by auto
  then have "f mod 10 - 3 < 6" by (rule legal_elim) code_simp
  then have "6 - ((f mod 10 - 3) - (f mod 10 - 3) mod 6) = 6" by simp
  with Some xs show ?thesis
    by (simp add: p_canonical_def) (rule map_id_all, assumption, simp)
qed (simp add: p_canonical_def)

end
