(* ===== verification/Raypath_Reduce.thy ===== *)
theory Raypath_Reduce
  imports Raypath_Canonical
begin

text \<open>
  \<open>ReduceRaypathByPeriod\<close> and \<open>ExpandRaypathByPeriod\<close> meet the contract \<open>canonical_form\<close>: the
  loops of the code are first rewritten to the abstract relabellings, face by face; the expansion is
  then the orbit and the reduction its least member.
\<close>

section \<open>The loops compute the relabellings\<close>

lemma int_lt6_cases:
  assumes "0 \<le> a" "a < 6" "list_all P [0, 1, 2, 3, 4, 5]"
  shows "P (a::int)"
proof -
  from assms(1,2) have "a \<in> {0, 1, 2, 3, 4, 5}" by auto
  with assms(3) show ?thesis by auto
qed

lemma shift_face:
  assumes "legal x" and "\<not> x < 3" and "0 \<le> sh" and "sh < 6"
  shows "to_u16 (int (x div 10 * 10 + to_u16 (crem (int (x mod 10) - 3 - sh + 6) 6 + 3))) = rot_face (nat (6 - sh)) x"
proof -
  have "list_all (\<lambda>x. list_all (\<lambda>sh. \<not> x < 3 \<longrightarrow>
      to_u16 (int (x div 10 * 10 + to_u16 (crem (int (x mod 10) - 3 - sh + 6) 6 + 3))) = rot_face (nat (6 - sh)) x)
      [0, 1, 2, 3, 4, 5]) legal_faces"
    by code_simp
  from legal_elim [OF assms(1) this]
  have "\<not> x < 3 \<longrightarrow>
      to_u16 (int (x div 10 * 10 + to_u16 (crem (int (x mod 10) - 3 - sh + 6) 6 + 3))) = rot_face (nat (6 - sh)) x"
    by (rule int_lt6_cases [OF assms(3,4)])
  with assms(2) show ?thesis by blast
qed

lemma reflect_face_eq:
  assumes "legal x" and "0 \<le> a" and "a < 6"
  shows "reflect_face a 6 x = mir_face (nat a) x"
proof -
  have "list_all (\<lambda>x. list_all (\<lambda>a. reflect_face a 6 x = mir_face (nat a) x) [0, 1, 2, 3, 4, 5]) legal_faces"
    by code_simp
  from legal_elim [OF assms(1) this] show ?thesis by (rule int_lt6_cases [OF assms(2,3)])
qed

lemma rotate_face_eq:
  assumes "legal x" and "0 \<le> i" and "i < 6"
  shows "rotate_face 6 i x = rot_face (nat i) x"
proof -
  have "list_all (\<lambda>x. list_all (\<lambda>i. rotate_face 6 i x = rot_face (nat i) x) [0, 1, 2, 3, 4, 5]) legal_faces"
    by code_simp
  from legal_elim [OF assms(1) this] show ?thesis by (rule int_lt6_cases [OF assms(2,3)])
qed

lemma flip_face_no_swap: "\<not> b_swaps x \<Longrightarrow> flip_face x = x"
  by (auto simp: flip_face_def b_swaps_def)

lemma flip_path_no_swap: "\<not> list_ex b_swaps xs \<Longrightarrow> flip_path xs = xs"
  by (auto simp: list_ex_iff flip_face_no_swap intro!: map_idI)

lemma canonical_loop_shifted:
  "legal_path xs \<Longrightarrow> 0 \<le> sh \<Longrightarrow> sh < 6 \<Longrightarrow> p_canonical_loop 6 st sh xs = rot_path (nat (6 - sh)) xs"
proof (induction xs)
  case (Cons x xs)
  then show ?case
  proof (cases "x < 3")
    case False
    with Cons.prems have "to_u16 (int (x div 10 * 10 + to_u16 (crem (int (x mod 10) - 3 - sh + 6) 6 + 3)))
        = rot_face (nat (6 - sh)) x"
      by (intro shift_face) auto
    with Cons False show ?thesis by (simp add: Let_def)
  qed (simp add: rot_face_def)
qed simp

lemma first_shift:
  assumes "legal x" and "\<not> x < 3" and "st \<in> {1, 2, 3}"
  defines "p \<equiv> int (x mod 10) - 3"
  shows "0 \<le> p - crem p st" "p - crem p st < 6"
    and "nat (6 - (p - crem p st)) = 6 - ((x mod 10 - 3) - (x mod 10 - 3) mod nat st)"
proof -
  have "list_all (\<lambda>x. list_all (\<lambda>st. \<not> x < 3 \<longrightarrow> 0 \<le> int (x mod 10) - 3 - crem (int (x mod 10) - 3) st \<and>
      int (x mod 10) - 3 - crem (int (x mod 10) - 3) st < 6 \<and>
      nat (6 - (int (x mod 10) - 3 - crem (int (x mod 10) - 3) st))
        = 6 - ((x mod 10 - 3) - (x mod 10 - 3) mod nat st)) [1, 2, 3]) legal_faces"
    by code_simp
  from legal_elim [OF assms(1) this] assms(2,3)
  show "0 \<le> p - crem p st" "p - crem p st < 6"
    and "nat (6 - (p - crem p st)) = 6 - ((x mod 10 - 3) - (x mod 10 - 3) mod nat st)"
    unfolding p_def by (auto simp only: list_all_iff list.set insert_iff empty_iff)
qed

lemma canonical_loop_start:
  assumes "st \<in> {1, 2, 3}"
  shows "legal_path xs \<Longrightarrow> p_canonical_loop 6 st (- 1) xs = p_canonical (nat st) xs"
proof (induction xs)
  case (Cons x xs)
  then have x: "legal x" and xs: "legal_path xs" by auto
  show ?case
  proof (cases "x < 3")
    case True
    then have "p_canonical (nat st) (x # xs) = x # p_canonical (nat st) xs"
      by (simp add: p_canonical_def rot_face_def split: option.split)
    with True Cons show ?thesis by simp
  next
    case False
    define p where "p = int (x mod 10) - 3"
    note sh = first_shift [OF x False assms, folded p_def]
    have "p_canonical_loop 6 st (- 1) (x # xs)
        = to_u16 (int (x div 10 * 10 + to_u16 (crem (p - (p - crem p st) + 6) 6 + 3)))
          # p_canonical_loop 6 st (p - crem p st) xs"
      using False by (simp add: Let_def p_def)
    also have "\<dots> = rot_path (nat (6 - (p - crem p st))) (x # xs)"
      using shift_face [OF x False sh(1,2)] canonical_loop_shifted [OF xs sh(1,2)] by (simp add: p_def)
    finally show ?thesis using False by (simp only: sh(3)) (simp add: p_canonical_def)
  qed
qed (simp add: p_canonical_def)

lemma PCanonicalShift_eq:
  assumes "legal_path xs" and "st \<in> {1, 2, 3}"
  shows "PCanonicalShiftByPeriod xs 6 st = p_canonical (nat st) xs"
  using assms canonical_loop_start [OF assms(2,1)] by (auto simp: PCanonicalShiftByPeriod_def)

section \<open>The expansion enumerates the orbit\<close>

lemma rot_orbit_finite:
  assumes "s dvd 6"
  shows "rot_orbit s xs = (\<lambda>k. rot_path k xs) ` set (filter (\<lambda>k. s dvd k) [0, 1, 2, 3, 4, 5])"
proof
  show "rot_orbit s xs \<subseteq> (\<lambda>k. rot_path k xs) ` set (filter (\<lambda>k. s dvd k) [0, 1, 2, 3, 4, 5])"
  proof
    fix z assume "z \<in> rot_orbit s xs"
    then obtain k where k: "s dvd k" "z = rot_path (k mod 6) xs" by (auto simp: rot_orbit_def)
    with assms have "s dvd k mod 6" by (simp add: dvd_mod)
    moreover have "k mod 6 \<in> {0, 1, 2, 3, 4, 5}" using mod_less_divisor [of 6 k] by simp linarith
    ultimately show "z \<in> (\<lambda>k. rot_path k xs) ` set (filter (\<lambda>k. s dvd k) [0, 1, 2, 3, 4, 5])"
      using k(2) by (intro image_eqI [of _ _ "k mod 6"]) auto
  qed
qed (auto simp: rot_orbit_def)

lemma no_prism_rot: "\<not> list_ex (\<lambda>x. \<not> x < 3) xs \<Longrightarrow> rot_path k xs = xs"
  by (auto simp: list_ex_iff rot_face_def intro!: map_idI)

lemma rotate_path_eq: "legal_path xs \<Longrightarrow> 0 \<le> i \<Longrightarrow> i < 6 \<Longrightarrow> map (rotate_face 6 i) xs = rot_path (nat i) xs"
  by (erule map_cong_all) (rule rotate_face_eq)

lemma expand_p_set:
  assumes xs: "legal_path xs" and st: "st \<in> {1, 2, 3}"
  shows "insert xs (set (expand_p_loop 6 st xs st)) = rot_orbit (nat st) xs"
proof -
  have r0: "rot_path 0 xs = xs" by (rule rot_path_0 [OF xs])
  have fin: "rot_orbit (nat st) xs
      = (\<lambda>k. rot_path k xs) ` set (filter (\<lambda>k. nat st dvd k) [0, 1, 2, 3, 4, 5])"
    using st by (intro rot_orbit_finite) auto
  show ?thesis
  proof (cases "list_ex (\<lambda>x. \<not> x < 3) xs")
    case True
    have rot: "map (rotate_face 6 1) xs = rot_path 1 xs" "map (rotate_face 6 2) xs = rot_path 2 xs"
      "map (rotate_face 6 3) xs = rot_path 3 xs" "map (rotate_face 6 4) xs = rot_path 4 xs"
      "map (rotate_face 6 5) xs = rot_path 5 xs"
      using rotate_path_eq [OF xs, of 1] rotate_path_eq [OF xs, of 2] rotate_path_eq [OF xs, of 3]
        rotate_path_eq [OF xs, of 4] rotate_path_eq [OF xs, of 5] by simp_all
    from st consider "st = 1" | "st = 2" | "st = 3" by blast
    then show ?thesis
      unfolding fin by cases (simp_all add: expand_p_loop.simps True rot r0 insert_commute del: One_nat_def)
  next
    case False
    from st consider "st = 1" | "st = 2" | "st = 3" by blast
    then show ?thesis
      unfolding fin using False
      by cases (simp_all add: expand_p_loop.simps no_prism_rot [OF False] del: One_nat_def)
  qed
qed

lemma reflect_path_eq:
  "legal_path xs \<Longrightarrow> 0 \<le> a \<Longrightarrow> a < 6 \<Longrightarrow> map (reflect_face a 6) xs = mir_path (nat a) xs"
  by (erule map_cong_all) (rule reflect_face_eq)

lemma expand_d_set:
  assumes "legal_path xs" and "0 \<le> a" and "a < 6"
  shows "insert xs (set (expand_d a 6 xs)) = {xs, mir_path (nat a) xs}"
  unfolding expand_d_def Let_def reflect_path_eq [OF assms] by auto

lemma expand_b_set: "insert xs (set (expand_b xs)) = {xs, flip_path xs}"
  using flip_path_no_swap [of xs] by (auto simp: expand_b_def)

lemma image_pair_Un: "(\<Union>x\<in>A. insert x (f x)) = A \<union> (\<Union>x\<in>A. f x)"
  by blast

text \<open>The stride and the mirror index that take part, after request, ensemble and shape.\<close>

definition active_step :: "u8 \<Rightarrow> PRotationSet \<Rightarrow> nat" where
  "active_step symmetry p_retained = (if PActive symmetry p_retained then nat (GeneratorStep p_retained) else 6)"

definition active_mirror :: "u8 \<Rightarrow> int \<Rightarrow> bool \<Rightarrow> GeometricSymmetry \<Rightarrow> nat" where
  "active_mirror symmetry sigma_a d_applicable geom =
     (if DActive symmetry sigma_a d_applicable geom then nat sigma_a else 0)"

lemma PActive_step: "is_subgroup p \<Longrightarrow> PActive sy p \<Longrightarrow> GeneratorStep p \<in> {1, 2, 3}"
  by (simp add: PActive_def NonTrivial_step)

lemma DActive_range: "DActive sy a d g \<Longrightarrow> 0 \<le> a \<and> a < 6"
  unfolding DActive_def using DMirrorActive_range by blast

lemma active_step_in: "is_subgroup p \<Longrightarrow> active_step sy p \<in> {1, 2, 3, 6}"
  using PActive_step [of p sy] by (auto simp: active_step_def)

lemma active_mirror_less: "active_mirror sy a d g < 6"
  using DActive_range [of sy a d g] by (auto simp: active_mirror_def)

lemma orbit_dom_active:
  "is_subgroup p \<Longrightarrow> legal_path xs \<Longrightarrow> orbit_dom (active_step sy p) (active_mirror sy a d g) xs"
  using active_step_in [of p sy] active_mirror_less [of sy a d g] by (simp add: orbit_dom_def)

lemma none_inactive:
  "\<not> PActive kSymNone p" "\<not> DActive kSymNone a d g" "\<not> BActive kSymNone b g"
  by (simp_all add: PActive_def DActive_def BActive_def kSymNone_def)

definition active_orbit ::
  "u8 \<Rightarrow> int \<Rightarrow> bool \<Rightarrow> PRotationSet \<Rightarrow> bool \<Rightarrow> GeometricSymmetry \<Rightarrow> nat list \<Rightarrow> nat list set"
where
  "active_orbit sy a d p b g xs =
     full_orbit (active_step sy p) (DActive sy a d g) (active_mirror sy a d g) (BActive sy b g) xs"

lemma rot_orbit_6: "legal_path xs \<Longrightarrow> rot_orbit 6 xs = {xs}"
  by (simp add: rot_orbit_finite rot_path_0)

lemma full_orbit_trivial: "legal_path xs \<Longrightarrow> full_orbit 6 False a False xs = {xs}"
  by (simp add: full_orbit_def dihedral_orbit_def rot_orbit_6 d_image_def b_image_def)

lemma expand_set:
  assumes xs: "legal_path xs" and p: "is_subgroup p"
  shows "set (ExpandRaypathByPeriod xs sy a d p b 6 g) = active_orbit sy a d p b g xs"
proof (cases "sy = kSymNone")
  case True
  then show ?thesis
    by (simp add: ExpandRaypathByPeriod_def active_orbit_def active_step_def none_inactive
        full_orbit_trivial [OF xs])
next
  case False
  define s where "s = active_step sy p"
  define rp where "rp = (if PActive sy p
    then [xs] @ expand_p_loop 6 (GeneratorStep p) xs (GeneratorStep p) else [xs])"
  define rd where "rd = (if DActive sy a d g then rp @ concat (map (expand_d a 6) rp) else rp)"
  have rp: "set rp = rot_orbit s xs"
    using expand_p_set [OF xs PActive_step [OF p]] rot_orbit_6 [OF xs]
    by (auto simp: rp_def s_def active_step_def)
  have leg: "legal_path y" if "y \<in> set rp" for y
    using that rot_orbit_legal [OF xs] by (simp add: rp)
  have rd: "set rd = dihedral_orbit s (DActive sy a d g) (active_mirror sy a d g) xs"
  proof (cases "DActive sy a d g")
    case True
    then have "set rd = (\<Union>y\<in>set rp. insert y (set (expand_d a 6 y)))"
      by (simp add: rd_def image_pair_Un)
    also have "\<dots> = (\<Union>y\<in>set rp. {y, mir_path (nat a) y})"
      using DActive_range [OF True] expand_d_set leg by (intro SUP_cong refl) blast
    finally show ?thesis
      using True by (auto simp: dihedral_orbit_def d_image_def active_mirror_def rp)
  qed (simp add: rd_def rp dihedral_orbit_def d_image_def)
  have "set (if BActive sy b g then rd @ concat (map expand_b rd) else rd)
      = full_orbit s (DActive sy a d g) (active_mirror sy a d g) (BActive sy b g) xs"
  proof (cases "BActive sy b g")
    case True
    then have "set (if BActive sy b g then rd @ concat (map expand_b rd) else rd)
        = (\<Union>y\<in>set rd. insert y (set (expand_b y)))"
      by (simp add: image_pair_Un)
    also have "\<dots> = (\<Union>y\<in>set rd. {y, flip_path y})" by (simp only: expand_b_set)
    finally show ?thesis using True by (auto simp: full_orbit_def b_image_def rd)
  qed (simp add: rd full_orbit_def b_image_def)
  moreover have "ExpandRaypathByPeriod xs sy a d p b 6 g
      = (if BActive sy b g then rd @ concat (map expand_b rd) else rd)"
    unfolding ExpandRaypathByPeriod_def Let_def rd_def rp_def by (rule if_not_P) (simp add: False)
  ultimately show ?thesis by (simp only: active_orbit_def s_def)
qed

section \<open>The reduction is the least member\<close>

lemma mir_orbit_of_canonical:
  assumes "orbit_dom s a xs"
  shows "mir_path a ` rot_orbit s xs = rot_orbit s (mir_path a (p_canonical s xs))"
proof -
  from assms have s: "s \<in> {1, 2, 3, 6}" and xs: "legal_path xs" by (auto simp: orbit_dom_def)
  have in_orb: "p_canonical s xs \<in> rot_orbit s xs" by (rule p_canonical_in [OF xs s])
  then have "orbit_dom s a (p_canonical s xs)" by (rule rotations.orb_dom [OF assms])
  from mir_rot_orbit [OF this] show ?thesis using rot_orbit_class [OF xs in_orb] by simp
qed

lemma dihedral_least:
  assumes "orbit_dom s a xs"
  defines "r \<equiv> p_canonical s xs"
  defines "m \<equiv> p_canonical s (mir_path a r)"
  shows "min r m \<in> dihedral_orbit s True a xs"
    and "y \<in> dihedral_orbit s True a xs \<Longrightarrow> min r m \<le> y"
proof -
  from assms(1) have s: "s \<in> {1, 2, 3, 6}" and a: "a < 6" and xs: "legal_path xs"
    by (auto simp: orbit_dom_def)
  have r: "r \<in> rot_orbit s xs" unfolding r_def by (rule p_canonical_in [OF xs s])
  then have mr: "legal_path (mir_path a r)" using rot_orbit_legal [OF xs] a by simp
  have dih: "dihedral_orbit s True a xs = rot_orbit s xs \<union> rot_orbit s (mir_path a r)"
    using mir_orbit_of_canonical [OF assms(1)] by (simp add: dihedral_orbit_def d_image_def r_def)
  have m: "m \<in> rot_orbit s (mir_path a r)" unfolding m_def by (rule p_canonical_in [OF mr s])
  show "min r m \<in> dihedral_orbit s True a xs" using r m by (simp add: dih min_def)
  assume "y \<in> dihedral_orbit s True a xs"
  then show "min r m \<le> y"
    unfolding dih using p_canonical_least [OF xs s] p_canonical_least [OF mr s]
    by (auto simp: r_def m_def min_le_iff_disj)
qed

lemma dihedral_same_ring:
  assumes "orbit_dom s a xs" and "y \<in> dihedral_orbit s d a xs"
  shows "list_all2 same_ring xs y"
proof -
  from assms(1) have a: "a < 6" and xs: "legal_path xs" by (auto simp: orbit_dom_def)
  have rot: "list_all2 same_ring xs (rot_path k xs)" for k
    using xs by (auto simp: list_all_iff list_all2_map2 list_all2_same)
  moreover have "list_all2 same_ring (rot_path k xs) (mir_path a (rot_path k xs))" for k
    using legal_rot_path [OF xs, of k] a
    by (simp add: list_all_iff list_all2_map2 list_all2_same del: map_map legal_rot_path)
  ultimately have "list_all2 same_ring xs (mir_path a (rot_path k xs))" for k
    using list_all2_trans [of same_ring same_ring same_ring] same_ring_trans by blast
  with rot assms(2) show ?thesis
    by (auto simp: dihedral_orbit_def d_image_def rot_orbit_def simp del: map_map split: if_splits)
qed

lemma flip_path_mono:
  assumes "orbit_dom s a xs" and "r \<in> dihedral_orbit s d a xs" and "z \<in> dihedral_orbit s d a xs" and "r \<le> z"
  shows "flip_path r \<le> flip_path z"
proof -
  have r: "orbit_dom s a r" and z: "orbit_dom s a z"
    using assms exchanges.orb_dom by blast+
  have "z \<in> dihedral_orbit s d a r"
    using exchanges.orb_class [OF assms(1,2)] assms(3) by simp
  from dihedral_same_ring [OF r this] have "list_all2 same_ring z r"
    by (auto simp: list_all2_conv_all_nth same_ring_sym)
  moreover have "legal_path r" "legal_path z" using r z by (auto simp: orbit_dom_def)
  ultimately have "list_all2 (\<lambda>x y. (flip_face x < flip_face y \<longleftrightarrow> x < y) \<and> (flip_face x = flip_face y \<longleftrightarrow> x = y)) z r"
    by (auto simp: list_all2_conv_all_nth list_all_length flip_face_mono_in_ring)
  from lex_map_less_iff [OF this] assms(4) show ?thesis by (simp add: not_less [symmetric])
qed

lemma full_least:
  assumes "orbit_dom s a xs" and r: "r \<in> dihedral_orbit s d a xs"
    and least: "\<And>y. y \<in> dihedral_orbit s d a xs \<Longrightarrow> r \<le> y"
  shows "min r (flip_path r) \<in> full_orbit s d a True xs"
    and "y \<in> full_orbit s d a True xs \<Longrightarrow> min r (flip_path r) \<le> y"
proof -
  show "min r (flip_path r) \<in> full_orbit s d a True xs"
    using r by (auto simp: full_orbit_def b_image_def min_def)
  assume "y \<in> full_orbit s d a True xs"
  then show "min r (flip_path r) \<le> y"
    using least flip_path_mono [OF assms(1) r] by (auto simp: full_orbit_def b_image_def min_le_iff_disj)
qed

lemma if_less_min: "(if y < x then y else x) = min x (y::'a::linorder)"
  by (auto simp: min_def not_less)

lemma b_step_min: "(if list_ex b_swaps r \<and> flip_path r < r then flip_path r else r) = min r (flip_path r)"
  using flip_path_no_swap [of r] by (auto simp: min_def)

definition reduce_d :: "nat \<Rightarrow> bool \<Rightarrow> nat \<Rightarrow> nat list \<Rightarrow> nat list" where
  "reduce_d s d a xs = (let r = p_canonical s xs in if d then min r (p_canonical s (mir_path a r)) else r)"

definition reduce_full :: "nat \<Rightarrow> bool \<Rightarrow> nat \<Rightarrow> bool \<Rightarrow> nat list \<Rightarrow> nat list" where
  "reduce_full s d a b xs = (let r = reduce_d s d a xs in if b then min r (flip_path r) else r)"

lemma reduce_d_least:
  assumes "orbit_dom s a xs"
  shows "reduce_d s d a xs \<in> dihedral_orbit s d a xs"
    and "y \<in> dihedral_orbit s d a xs \<Longrightarrow> reduce_d s d a xs \<le> y"
proof -
  from assms have s: "s \<in> {1, 2, 3, 6}" and xs: "legal_path xs" by (auto simp: orbit_dom_def)
  show "reduce_d s d a xs \<in> dihedral_orbit s d a xs"
    using dihedral_least(1) [OF assms] p_canonical_in [OF xs s]
    by (cases d) (simp_all add: reduce_d_def Let_def dihedral_orbit_def)
  show "y \<in> dihedral_orbit s d a xs \<Longrightarrow> reduce_d s d a xs \<le> y"
    using dihedral_least(2) [OF assms] p_canonical_least [OF xs s]
    by (cases d) (auto simp: reduce_d_def Let_def dihedral_orbit_def d_image_def)
qed

lemma reduce_full_least:
  assumes "orbit_dom s a xs"
  shows "reduce_full s d a b xs \<in> full_orbit s d a b xs"
    and "y \<in> full_orbit s d a b xs \<Longrightarrow> reduce_full s d a b xs \<le> y"
proof -
  note rd = reduce_d_least(1) [OF assms, where d = d] reduce_d_least(2) [OF assms, where d = d]
  note fl = full_least [OF assms rd(1) rd(2)]
  show "reduce_full s d a b xs \<in> full_orbit s d a b xs"
    using fl(1) rd(1) by (cases b) (simp_all add: reduce_full_def Let_def full_orbit_def)
  show "y \<in> full_orbit s d a b xs \<Longrightarrow> reduce_full s d a b xs \<le> y"
    using fl(2) rd(2) by (cases b) (auto simp: reduce_full_def Let_def full_orbit_def b_image_def)
qed

lemma p_step_eq:
  assumes "is_subgroup p" and "legal_path ys"
  shows "(if PActive sy p then PCanonicalShiftByPeriod ys 6 (GeneratorStep p) else ys)
    = p_canonical (active_step sy p) ys"
  using assms PActive_step [OF assms(1), of sy]
  by (simp add: PCanonicalShift_eq active_step_def p_canonical_6)

lemma reduce_eq:
  assumes xs: "legal_path xs" and p: "is_subgroup p"
  shows "ReduceRaypathByPeriod xs sy a d p b 6 g =
    reduce_full (active_step sy p) (DActive sy a d g) (active_mirror sy a d g) (BActive sy b g) xs"
proof (cases "sy = kSymNone")
  case True
  then show ?thesis
    by (simp add: ReduceRaypathByPeriod_def reduce_full_def reduce_d_def active_step_def none_inactive
        p_canonical_6 [OF xs])
next
  case False
  define s where "s = active_step sy p"
  define r where "r = p_canonical s xs"
  have r: "(if PActive sy p then PCanonicalShiftByPeriod xs 6 (GeneratorStep p) else xs) = r"
    by (simp only: p_step_eq [OF p xs] r_def s_def)
  have leg: "legal_path r"
    unfolding r_def using rot_orbit_legal [OF xs] p_canonical_in [OF xs] active_step_in [OF p] s_def by blast
  have m: "(if PActive sy p then PCanonicalShiftByPeriod (map (reflect_face a 6) r) 6 (GeneratorStep p)
      else map (reflect_face a 6) r) = p_canonical s (mir_path (active_mirror sy a d g) r)"
    if D: "DActive sy a d g"
    using DActive_range [OF D] p_step_eq [OF p, of "mir_path (nat a) r" sy] leg D
    by (simp only: reflect_path_eq [OF leg] active_mirror_def s_def if_True) (simp add: nat_less_iff)
  have rd: "(if DActive sy a d g then
      let reflected = map (reflect_face a 6) r;
          reflected' = (if PActive sy p then PCanonicalShiftByPeriod reflected 6 (GeneratorStep p) else reflected)
      in if reflected' < r then reflected' else r else r) = reduce_d s (DActive sy a d g) (active_mirror sy a d g) xs"
    by (simp only: Let_def m if_less_min reduce_d_def r_def [symmetric] cong: if_cong)
  show ?thesis
    unfolding ReduceRaypathByPeriod_def using False
    by (simp only: Let_def r rd [unfolded Let_def] b_step_min reduce_full_def s_def [symmetric]) simp
qed

text \<open>The code meets the contract, for every request, mirror index, subgroup and shape.\<close>

definition raypath_dom :: "PRotationSet \<Rightarrow> nat list \<Rightarrow> bool" where
  "raypath_dom p xs \<longleftrightarrow> is_subgroup p \<and> legal_path xs"

interpretation raypath: canonical_form "raypath_dom p"
  "\<lambda>xs. ExpandRaypathByPeriod xs sy a d p b 6 g" "\<lambda>xs. ReduceRaypathByPeriod xs sy a d p b 6 g"
  for sy a d p b g
proof unfold_locales
  fix xs ys assume "raypath_dom p xs"
  then have xs: "legal_path xs" and p: "is_subgroup p" by (auto simp: raypath_dom_def)
  note dom = orbit_dom_active [OF p xs, of sy a d g]
  note set_eq = expand_set [OF _ p, of _ sy a d b g, unfolded active_orbit_def]
  show "xs \<in> set (ExpandRaypathByPeriod xs sy a d p b 6 g)"
    unfolding set_eq [OF xs] by (rule full_orbit_laws(1) [OF dom])
  show "ReduceRaypathByPeriod xs sy a d p b 6 g \<in> set (ExpandRaypathByPeriod xs sy a d p b 6 g)"
    unfolding set_eq [OF xs] reduce_eq [OF xs p] by (rule reduce_full_least(1) [OF dom])
  assume "ys \<in> set (ExpandRaypathByPeriod xs sy a d p b 6 g)"
  then have ys: "ys \<in> full_orbit (active_step sy p) (DActive sy a d g) (active_mirror sy a d g) (BActive sy b g) xs"
    unfolding set_eq [OF xs] .
  show "ReduceRaypathByPeriod xs sy a d p b 6 g \<le> ys"
    unfolding reduce_eq [OF xs p] by (rule reduce_full_least(2) [OF dom ys])
  have "legal_path ys" using full_orbit_laws(2) [OF dom ys] by (simp add: orbit_dom_def)
  then show "raypath_dom p ys" and
    "set (ExpandRaypathByPeriod ys sy a d p b 6 g) = set (ExpandRaypathByPeriod xs sy a d p b 6 g)"
    using full_orbit_laws(3) [OF dom ys] p by (simp_all add: raypath_dom_def set_eq xs)
qed

end
