(* ===== verification/Reduce_Buffer.thy ===== *)
theory Reduce_Buffer
  imports Raypath_Reduce
begin

text \<open>
  The byte form of the reduction, which the per-ray path runs on a copy of the recorded bytes
  (\<open>src/core/filter_spec.cpp\<close>: \<open>PCanonicalShiftInPlace\<close>, \<open>LexLessRecorder\<close>, \<open>detail::ReduceBuffer\<close>),
  and its equivalence with the vector form of \<open>crystal.cpp\<close>.  The two differ in the width of the stored
  face number: a byte here, sixteen bits there.  Below 250 no store wraps, so they agree.
\<close>

section \<open>The code\<close>

fun p_canonical_byte_loop :: "int \<Rightarrow> int \<Rightarrow> int \<Rightarrow> nat list \<Rightarrow> nat list" where
  "p_canonical_byte_loop fn_period p_step shift [] = []"
| "p_canonical_byte_loop fn_period p_step shift (x # xs) =
     (if x < 3 then x # p_canonical_byte_loop fn_period p_step shift xs
      else
        let pyr = x div 10;
            pri0 = int (x mod 10) - 3;
            shift' = (if shift < 0 then pri0 - crem pri0 p_step else shift);
            pri1 = crem (pri0 - shift' + fn_period) fn_period
        in to_u8 (int (pyr * 10) + pri1 + 3) # p_canonical_byte_loop fn_period p_step shift' xs)"

definition PCanonicalShiftInPlace :: "nat list \<Rightarrow> int \<Rightarrow> int \<Rightarrow> nat list" where
  "PCanonicalShiftInPlace data fn_period p_step =
     (if p_step \<le> 0 \<or> p_step \<ge> fn_period then data else p_canonical_byte_loop fn_period p_step (- 1) data)"

definition LexLessRecorder :: "nat list \<Rightarrow> nat list \<Rightarrow> bool" where
  "LexLessRecorder a b = lex_less_buf a b"

definition reflect_byte :: "int \<Rightarrow> int \<Rightarrow> nat \<Rightarrow> nat" where
  "reflect_byte sigma_a fn_period x =
     (if x < 3 then x
      else let pyr = x div 10;
               pri0 = int (x mod 10) - 3;
               new_pri0 = MirrorFaceIndex pri0 sigma_a fn_period
           in to_u8 (int (pyr * 10) + new_pri0 + 3))"

definition flip_byte :: "nat \<Rightarrow> nat" where
  "flip_byte x =
     (if x \<le> 2 then to_u8 (3 - int x)
      else if x \<ge> 13 \<and> x \<le> 18 then to_u8 (int x + 10)
      else if x \<ge> 23 \<and> x \<le> 28 then to_u8 (int x - 10)
      else x)"

definition byte_changes :: "nat \<Rightarrow> bool" where
  "byte_changes x \<longleftrightarrow> x \<le> 2 \<or> (x \<ge> 13 \<and> x \<le> 18) \<or> (x \<ge> 23 \<and> x \<le> 28)"

definition ReduceBuffer ::
  "nat list \<Rightarrow> u8 \<Rightarrow> int \<Rightarrow> bool \<Rightarrow> PRotationSet \<Rightarrow> bool \<Rightarrow> int \<Rightarrow> GeometricSymmetry \<Rightarrow> nat list"
where
  "ReduceBuffer data symmetry sigma_a d_applicable p_retained b_applicable fn_period geom =
     (if symmetry = kSymNone \<or> fn_period < 0 then data
      else
        let p_active = (symmetry AND kSymP \<noteq> 0 \<and> NonTrivial p_retained);
            p_stride = GeneratorStep p_retained;
            data = (if p_active then PCanonicalShiftInPlace data fn_period p_stride else data);
            data = (if symmetry AND kSymD \<noteq> 0 \<and> DMirrorActive d_applicable sigma_a geom then
                let scratch = map (reflect_byte sigma_a fn_period) data;
                    scratch = (if p_active then PCanonicalShiftInPlace scratch fn_period p_stride else scratch)
                in if LexLessRecorder scratch data then scratch else data
              else data);
            data = (if symmetry AND kSymB \<noteq> 0 \<and> b_applicable \<and> gs_b_applicable geom then
                let scratch = map flip_byte data;
                    changed = list_ex byte_changes data
                in if changed \<and> LexLessRecorder scratch data then scratch else data
              else data)
        in data)"

section \<open>Equivalence with the vector form\<close>

abbreviation small :: "nat \<Rightarrow> bool" where
  "small x \<equiv> x < 250"

lemma crem6_bounds: "- 3 \<le> a \<Longrightarrow> - 3 \<le> crem a 6 \<and> crem a 6 < 6"
  by (auto simp: crem_def sgn_if)

lemma store_eq:
  assumes "small x" and "- 3 \<le> p" and "p < 6"
  shows "to_u8 (int (x div 10 * 10) + p + 3) = to_u16 (int (x div 10 * 10 + to_u16 (p + 3)))"
    and "to_u16 (int (x div 10 * 10 + to_u16 (p + 3))) < 250"
proof -
  have "x div 10 \<le> 24" using assms(1) by simp
  moreover have "to_u16 (p + 3) = nat (p + 3)" using assms(2,3) by (simp add: to_u16_def)
  ultimately show "to_u8 (int (x div 10 * 10) + p + 3) = to_u16 (int (x div 10 * 10 + to_u16 (p + 3)))"
    and "to_u16 (int (x div 10 * 10 + to_u16 (p + 3))) < 250"
    using assms(2,3) by (simp_all add: to_u16_def to_u8_def)
qed

lemma face_index: "- 3 \<le> int (x mod 10) - 3 \<and> int (x mod 10) - 3 \<le> 6"
proof -
  have "x mod 10 < 10" by simp
  then show ?thesis by linarith
qed

lemma first_shift_le:
  assumes "0 < st" and "st < 6" and "p \<le> 6"
  shows "p - crem p st \<le> (6 :: int)"
proof (cases "0 \<le> p")
  case True
  with assms have "0 \<le> crem p st" by simp
  with assms(3) show ?thesis by linarith
next
  case False
  then have "crem p st = - (- p mod st)" using assms(1) by (simp add: crem_def)
  moreover have "- p mod st < st" using assms(1) by simp
  ultimately show ?thesis using False assms(2) by linarith
qed

lemma byte_loop_eq:
  assumes st: "0 < st" "st < 6"
  shows "list_all small xs \<Longrightarrow> sh \<le> 6 \<Longrightarrow>
    p_canonical_byte_loop 6 st sh xs = p_canonical_loop 6 st sh xs \<and>
    list_all small (p_canonical_loop 6 st sh xs)"
proof (induction xs arbitrary: sh)
  case (Cons x xs)
  show ?case
  proof (cases "x < 3")
    case True
    with Cons show ?thesis by simp
  next
    case False
    define pri0 where "pri0 = int (x mod 10) - 3"
    define sh' where "sh' = (if sh < 0 then pri0 - crem pri0 st else sh)"
    have sh': "sh' \<le> 6"
      using first_shift_le [OF st, of pri0] face_index [of x] Cons.prems(2) by (auto simp: sh'_def pri0_def)
    then have "- 3 \<le> pri0 - sh' + 6" using face_index [of x] by (simp add: pri0_def)
    from crem6_bounds [OF this]
    have "to_u8 (int (x div 10 * 10) + crem (pri0 - sh' + 6) 6 + 3)
        = to_u16 (int (x div 10 * 10 + to_u16 (crem (pri0 - sh' + 6) 6 + 3)))"
      and "to_u16 (int (x div 10 * 10 + to_u16 (crem (pri0 - sh' + 6) 6 + 3))) < 250"
      using Cons.prems store_eq [of x "crem (pri0 - sh' + 6) 6"] by auto
    with False Cons sh' show ?thesis
      by (simp only: p_canonical_byte_loop.simps p_canonical_loop.simps Let_def pri0_def [symmetric]
          sh'_def [symmetric]) simp
  qed
qed simp

lemma byte_loop_length [simp]: "length (p_canonical_byte_loop f st sh xs) = length xs"
  by (induction xs arbitrary: sh) (simp_all add: Let_def)

lemma vector_loop_length [simp]: "length (p_canonical_loop f st sh xs) = length xs"
  by (induction xs arbitrary: sh) (simp_all add: Let_def)

lemma shift_length [simp]: "length (PCanonicalShiftInPlace xs f st) = length xs"
  by (simp add: PCanonicalShiftInPlace_def)

lemma shift_eq:
  "list_all small xs \<Longrightarrow> PCanonicalShiftInPlace xs 6 st = PCanonicalShiftByPeriod xs 6 st \<and>
     list_all small (PCanonicalShiftByPeriod xs 6 st) \<and> length (PCanonicalShiftByPeriod xs 6 st) = length xs"
  by (simp add: PCanonicalShiftInPlace_def PCanonicalShiftByPeriod_def byte_loop_eq)

lemma reflect_eq:
  assumes "small x" shows "reflect_byte a 6 x = reflect_face a 6 x" and "small (reflect_face a 6 x)"
proof -
  let ?p = "MirrorFaceIndex (int (x mod 10) - 3) a 6"
  have "- 6 < crem (a - (int (x mod 10) - 3)) 6" by (auto simp: crem_def sgn_if)
  then have "0 \<le> crem (a - (int (x mod 10) - 3)) 6 + 6" by linarith
  then have "0 \<le> ?p \<and> ?p < 6" by (simp add: MirrorFaceIndex_def)
  with store_eq [OF assms, of ?p] assms
  show "reflect_byte a 6 x = reflect_face a 6 x" and "small (reflect_face a 6 x)"
    by (auto simp: reflect_byte_def reflect_face_def Let_def)
qed

lemma flip_eq: "x \<le> 3 \<or> small x \<Longrightarrow> flip_byte x = flip_face x"
  by (auto simp: flip_byte_def flip_face_def to_u8_def)

lemma byte_changes_eq: "byte_changes = b_swaps"
  by (simp add: fun_eq_iff byte_changes_def b_swaps_def)

lemma LexLess_eq: "length xs = length ys \<Longrightarrow> LexLessRecorder xs ys \<longleftrightarrow> xs < ys"
  by (simp add: LexLessRecorder_def lex_less_buf_iff)

lemma ReduceBuffer_eq:
  assumes "list_all small data"
  shows "ReduceBuffer data sy a d p b 6 g = ReduceRaypathByPeriod data sy a d p b 6 g"
proof (cases "sy = kSymNone")
  case True
  then show ?thesis by (simp add: ReduceBuffer_def ReduceRaypathByPeriod_def)
next
  case False
  define st where "st = GeneratorStep p"
  define on where "on = PActive sy p"
  define canon where "canon xs = (if on then PCanonicalShiftInPlace xs 6 st else xs)" for xs
  have canon: "canon xs = (if on then PCanonicalShiftByPeriod xs 6 st else xs)" "list_all small (canon xs)"
    "length (canon xs) = length xs" if "list_all small xs" for xs
    using shift_eq [OF that, of st] that by (auto simp: canon_def)
  define r where "r = canon data"
  have r: "list_all small r" using canon(2) [OF assms] by (simp add: r_def)
  have refl: "map (reflect_byte a 6) r = map (reflect_face a 6) r" "list_all small (map (reflect_byte a 6) r)"
    using r by (auto simp: list_all_iff reflect_eq)
  define m where "m = canon (map (reflect_byte a 6) r)"
  have m: "list_all small m" "length m = length r" using canon [OF refl(2)] by (simp_all add: m_def)
  define q where "q = (if DActive sy a d g then (if m < r then m else r) else r)"
  have q: "list_all small q" using r m by (simp add: q_def)
  have fl: "map flip_byte q = map flip_face q" using q by (auto simp: list_all_iff flip_eq)
  have cond: "(sy = kSymNone \<or> 6 < (0::int)) = False" using False by simp
  have q_byte: "(if DActive sy a d g then if LexLessRecorder m r then m else r else r) = q"
    by (simp add: q_def LexLess_eq [OF m(2)])
  have q_vec: "(if DActive sy a d g then if m < r then m else r else r) = q"
    by (simp add: q_def)
  have last: "LexLessRecorder (map flip_face q) q = (map flip_face q < q)" by (simp add: LexLess_eq)
  have "ReduceBuffer data sy a d p b 6 g
      = (if BActive sy b g then (if list_ex b_swaps q \<and> map flip_face q < q then map flip_face q else q) else q)"
    unfolding ReduceBuffer_def Let_def PActive_def [symmetric] DActive_def [symmetric] BActive_def [symmetric]
      st_def [symmetric] on_def [symmetric] canon_def [symmetric] r_def [symmetric] m_def [symmetric]
    by (simp only: cond if_False q_byte fl byte_changes_eq last)
  moreover have "ReduceRaypathByPeriod data sy a d p b 6 g
      = (if BActive sy b g then (if list_ex b_swaps q \<and> map flip_face q < q then map flip_face q else q) else q)"
    unfolding ReduceRaypathByPeriod_def Let_def st_def [symmetric] on_def [symmetric]
      canon(1) [OF assms, symmetric] r_def [symmetric] refl(1) [symmetric] canon(1) [OF refl(2), symmetric]
      m_def [symmetric]
    by (simp only: cond if_False q_vec)
  ultimately show ?thesis by simp
qed

end
