(* ===== verification/Ray_Buffer.thy ===== *)
theory Ray_Buffer
  imports Ray_Path
begin

text \<open>
  The structure-of-arrays buffer that carries the rays of one layer (\<open>src/config/sim_data.hpp\<close>,
  \<open>src/config/sim_data.cpp\<close>): parallel arrays of segments, recorders, component masks and (on demand)
  chain ids, and the arena that holds the bytes of paths longer than fifteen.

  The arena is the list of its slots of \<open>kMaxHits\<close> bytes, \<open>None\<close> for a null pointer.  The segment type
  is a parameter, \<open>ray0\<close> the value-initialised segment.  \<open>FatalAbort\<close> is the result \<open>None\<close>.

  The invariant \<open>buffer_ok b live\<close> speaks about the indices whose recorder the code may read: a reset or
  a swap leaves stale recorders behind, which point into slots that are handed out again.
\<close>

section \<open>The code\<close>

definition kInitialOverflowCap :: nat where "kInitialOverflowCap = 256"

record 'r RayBuffer =
  rb_capacity :: nat
  rb_size :: nat
  rb_rays :: "'r list"
  rb_recorders :: "RaypathRecorder list"
  rb_components :: "u64 list"
  rb_chain_ids :: "u32 list option"
  rb_overflow_arena :: "nat list list option"
  rb_overflow_cap :: nat
  rb_overflow_used :: nat

definition RayBuffer_new :: "'r \<Rightarrow> nat \<Rightarrow> 'r RayBuffer" where
  "RayBuffer_new ray0 capacity =
     \<lparr> rb_capacity = capacity, rb_size = 0, rb_rays = replicate capacity ray0,
       rb_recorders = replicate capacity empty_recorder, rb_components = replicate capacity 0,
       rb_chain_ids = None, rb_overflow_arena = None, rb_overflow_cap = 0, rb_overflow_used = 0 \<rparr>"

abbreviation arena :: "'r RayBuffer \<Rightarrow> nat list list" where
  "arena b \<equiv> (case rb_overflow_arena b of None \<Rightarrow> [] | Some a \<Rightarrow> a)"

definition RecorderAt :: "'r RayBuffer \<Rightarrow> nat \<Rightarrow> RaypathRecorder" where
  "RecorderAt b idx = rb_recorders b ! idx"

text \<open>The bytes the returned pointer points to; a reader takes \<open>size_\<close> of them.\<close>

definition RecorderDataPtr :: "'r RayBuffer \<Rightarrow> nat \<Rightarrow> nat list" where
  "RecorderDataPtr b idx =
     (let rec = rb_recorders b ! idx
      in if HasOverflow rec then arena b ! overflow_idx rec else rec_data rec)"

definition AllocOverflowSlot :: "'r RayBuffer \<Rightarrow> nat \<times> 'r RayBuffer" where
  "AllocOverflowSlot b =
     (let b = (if rb_overflow_used b \<ge> rb_overflow_cap b then
           let new_cap = (if rb_overflow_cap b = 0 then kInitialOverflowCap
                 else rb_overflow_cap b * 2 mod 65536);
               new_cap = (if new_cap \<le> rb_overflow_cap b then 0xFFFE else new_cap);
               new_arena = replicate new_cap (replicate kMaxHits 0);
               new_arena = (if rb_overflow_arena b \<noteq> None \<and> rb_overflow_used b > 0
                 then take (rb_overflow_used b) (arena b) @ drop (rb_overflow_used b) new_arena
                 else new_arena)
           in b\<lparr> rb_overflow_arena := Some new_arena, rb_overflow_cap := new_cap \<rparr>
         else b)
      in (rb_overflow_used b, b\<lparr> rb_overflow_used := (rb_overflow_used b + 1) mod 65536 \<rparr>))"

definition put_recorder :: "nat \<Rightarrow> RaypathRecorder \<Rightarrow> 'r RayBuffer \<Rightarrow> 'r RayBuffer" where
  "put_recorder idx r b = b\<lparr> rb_recorders := (rb_recorders b)[idx := r] \<rparr>"

definition put_slot :: "nat \<Rightarrow> nat list \<Rightarrow> 'r RayBuffer \<Rightarrow> 'r RayBuffer" where
  "put_slot slot bytes b = b\<lparr> rb_overflow_arena := map_option (\<lambda>a. a[slot := bytes]) (rb_overflow_arena b) \<rparr>"

definition RecorderAppend :: "nat \<Rightarrow> nat \<Rightarrow> 'r RayBuffer \<Rightarrow> 'r RayBuffer" where
  "RecorderAppend idx fn b =
     (let rec = rb_recorders b ! idx in
      if rec_size rec \<ge> kMaxHits then b
      else
        let byte = fn mod 256 in
        if rec_size rec < kInlineCap then
          put_recorder idx (rec\<lparr> rec_data := (rec_data rec)[rec_size rec := byte], rec_size := rec_size rec + 1 \<rparr>) b
        else
          let (rec, b) = (if \<not> HasOverflow rec then
                let (slot, b) = AllocOverflowSlot b;
                    b = put_slot slot (take kInlineCap (rec_data rec) @ drop kInlineCap (arena b ! slot)) b
                in (rec\<lparr> overflow_idx := slot \<rparr>, b)
              else (rec, b))
          in put_recorder idx (rec\<lparr> rec_size := rec_size rec + 1 \<rparr>)
               (put_slot (overflow_idx rec) ((arena b ! overflow_idx rec)[rec_size rec := byte]) b))"

definition RecorderClear :: "nat \<Rightarrow> 'r RayBuffer \<Rightarrow> 'r RayBuffer" where
  "RecorderClear idx b =
     put_recorder idx ((rb_recorders b ! idx)\<lparr> rec_size := 0, overflow_idx := kNoOverflow \<rparr>) b"

definition DupOverflowSlot :: "'r RayBuffer \<Rightarrow> nat \<Rightarrow> 'r RayBuffer \<Rightarrow> 'r RayBuffer option" where
  "DupOverflowSlot src dst_idx b =
     (let rec = rb_recorders b ! dst_idx in
      if \<not> HasOverflow rec then Some b
      else
        let src_slot = overflow_idx rec in
        if rb_overflow_arena src = None \<or> src_slot \<ge> rb_overflow_used src then None
        else
          let (new_slot, b) = AllocOverflowSlot b;
              b = put_slot new_slot (arena src ! src_slot) b
          in Some (put_recorder dst_idx (rec\<lparr> overflow_idx := new_slot \<rparr>) b))"

definition RecorderFanOut :: "'r RayBuffer \<Rightarrow> nat \<Rightarrow> nat \<Rightarrow> nat \<Rightarrow> 'r RayBuffer \<Rightarrow> 'r RayBuffer option" where
  "RecorderFanOut src src_idx dst0 dst1 b =
     (let b = put_recorder dst0 (rb_recorders src ! src_idx) b;
          b = put_recorder dst1 (rb_recorders src ! src_idx) b
      in if HasOverflow (rb_recorders b ! dst0)
         then Option.bind (DupOverflowSlot src dst0 b) (DupOverflowSlot src dst1)
         else Some b)"

definition ComponentAt :: "'r RayBuffer \<Rightarrow> nat \<Rightarrow> u64" where
  "ComponentAt b idx = rb_components b ! idx"

definition SetComponent :: "nat \<Rightarrow> u64 \<Rightarrow> 'r RayBuffer \<Rightarrow> 'r RayBuffer" where
  "SetComponent idx v b = b\<lparr> rb_components := (rb_components b)[idx := v] \<rparr>"

definition ComponentFanOut :: "'r RayBuffer \<Rightarrow> nat \<Rightarrow> nat \<Rightarrow> nat \<Rightarrow> 'r RayBuffer \<Rightarrow> 'r RayBuffer" where
  "ComponentFanOut src src_idx dst0 dst1 b =
     (let v = rb_components src ! src_idx
      in b\<lparr> rb_components := ((rb_components b)[dst0 := v])[dst1 := v] \<rparr>)"

definition HasChainIds :: "'r RayBuffer \<Rightarrow> bool" where
  "HasChainIds b \<longleftrightarrow> rb_chain_ids b \<noteq> None"

definition ChainIdAt :: "'r RayBuffer \<Rightarrow> nat \<Rightarrow> u32" where
  "ChainIdAt b idx = the (rb_chain_ids b) ! idx"

definition SetChainId :: "nat \<Rightarrow> u32 \<Rightarrow> 'r RayBuffer \<Rightarrow> 'r RayBuffer" where
  "SetChainId idx v b = b\<lparr> rb_chain_ids := map_option (\<lambda>c. c[idx := v]) (rb_chain_ids b) \<rparr>"

definition ChainIdFanOut :: "'r RayBuffer \<Rightarrow> nat \<Rightarrow> nat \<Rightarrow> nat \<Rightarrow> 'r RayBuffer \<Rightarrow> 'r RayBuffer" where
  "ChainIdFanOut src src_idx dst0 dst1 b =
     (case (rb_chain_ids b, rb_chain_ids src) of
        (Some c, Some sc) \<Rightarrow>
          let v = sc ! src_idx in b\<lparr> rb_chain_ids := Some ((c[dst0 := v])[dst1 := v]) \<rparr>
      | _ \<Rightarrow> b)"

definition swap_at :: "nat \<Rightarrow> nat \<Rightarrow> 'a list \<Rightarrow> 'a list" where
  "swap_at i j xs = (xs[i := xs ! j])[j := xs ! i]"

definition SwapRay :: "nat \<Rightarrow> nat \<Rightarrow> 'r RayBuffer \<Rightarrow> 'r RayBuffer" where
  "SwapRay i j b =
     (if i = j then b
      else b\<lparr> rb_rays := swap_at i j (rb_rays b), rb_components := swap_at i j (rb_components b),
              rb_chain_ids := map_option (swap_at i j) (rb_chain_ids b) \<rparr>)"

definition Reset :: "'r \<Rightarrow> nat \<Rightarrow> bool \<Rightarrow> 'r RayBuffer \<Rightarrow> 'r RayBuffer" where
  "Reset ray0 capacity chain_id_enabled b =
     (let grew = capacity > rb_capacity b;
          b = (if grew
            then b\<lparr> rb_rays := replicate capacity ray0, rb_recorders := replicate capacity empty_recorder,
                    rb_components := replicate capacity 0, rb_capacity := capacity \<rparr>
            else b);
          b = (if chain_id_enabled
            then (if grew \<or> rb_chain_ids b = None
                  then b\<lparr> rb_chain_ids := Some (replicate (rb_capacity b) 0) \<rparr> else b)
            else b\<lparr> rb_chain_ids := None \<rparr>)
      in b\<lparr> rb_size := 0, rb_overflow_used := 0 \<rparr>)"

definition Empty :: "'r RayBuffer \<Rightarrow> bool" where
  "Empty b \<longleftrightarrow> rb_size b = 0"

definition put_ray :: "nat \<Rightarrow> 'r \<Rightarrow> 'r RayBuffer \<Rightarrow> 'r RayBuffer" where
  "put_ray idx r b = b\<lparr> rb_rays := (rb_rays b)[idx := r] \<rparr>"

definition EmplaceBack_inline :: "'r \<Rightarrow> RaypathRecorder \<Rightarrow> 'r RayBuffer \<Rightarrow> 'r RayBuffer" where
  "EmplaceBack_inline r rec b =
     (if rb_size b + 1 < rb_capacity b
      then (put_recorder (rb_size b) rec (put_ray (rb_size b) r b))\<lparr> rb_size := rb_size b + 1 \<rparr>
      else b)"

definition EmplaceBack_arena :: "'r \<Rightarrow> RaypathRecorder \<Rightarrow> 'r RayBuffer \<Rightarrow> 'r RayBuffer \<Rightarrow> 'r RayBuffer option" where
  "EmplaceBack_arena r rec arena_src b =
     (if rb_size b + 1 < rb_capacity b
      then map_option (\<lambda>b'. b'\<lparr> rb_size := rb_size b' + 1 \<rparr>)
             (DupOverflowSlot arena_src (rb_size b) (put_recorder (rb_size b) rec (put_ray (rb_size b) r b)))
      else Some b)"

text \<open>The body of the batch loop, and the loop over \<open>start \<le> i < src_end\<close> while there is room.\<close>

definition emplace_one :: "'r RayBuffer \<Rightarrow> nat \<Rightarrow> 'r RayBuffer \<Rightarrow> 'r RayBuffer option" where
  "emplace_one buffer i b =
     (let n = rb_size b;
          b = put_recorder n (rb_recorders buffer ! i) (put_ray n (rb_rays buffer ! i) b);
          b = SetComponent n (rb_components buffer ! i) b;
          b = (if rb_chain_ids b \<noteq> None
               then SetChainId n (case rb_chain_ids buffer of Some c \<Rightarrow> c ! i | None \<Rightarrow> 0) b else b)
      in map_option (\<lambda>b'. b'\<lparr> rb_size := rb_size b' + 1 \<rparr>) (DupOverflowSlot buffer n b))"

fun emplace_loop :: "'r RayBuffer \<Rightarrow> nat list \<Rightarrow> 'r RayBuffer \<Rightarrow> 'r RayBuffer option" where
  "emplace_loop buffer [] b = Some b"
| "emplace_loop buffer (i # is) b =
     (if rb_size b < rb_capacity b
      then Option.bind (emplace_one buffer i b) (emplace_loop buffer is)
      else Some b)"

definition EmplaceBack_buffer :: "'r RayBuffer \<Rightarrow> nat \<Rightarrow> nat \<Rightarrow> 'r RayBuffer \<Rightarrow> 'r RayBuffer option" where
  "EmplaceBack_buffer buffer start len b =
     (let src_end = min ((start + len) mod 2 ^ 64) (rb_size buffer) in emplace_loop buffer [start..<src_end] b)"

definition RayBuffer_copy :: "'r RayBuffer \<Rightarrow> 'r RayBuffer" where
  "RayBuffer_copy other =
     \<lparr> rb_capacity = rb_capacity other, rb_size = rb_size other,
       rb_rays = take (rb_capacity other) (rb_rays other),
       rb_recorders = take (rb_capacity other) (rb_recorders other),
       rb_components = take (rb_capacity other) (rb_components other),
       rb_chain_ids = (if rb_chain_ids other \<noteq> None \<and> rb_capacity other > 0
         then map_option (take (rb_capacity other)) (rb_chain_ids other) else None),
       rb_overflow_arena = (if rb_overflow_cap other > 0
         then Some (if rb_overflow_used other > 0
           then take (rb_overflow_used other) (arena other)
                @ drop (rb_overflow_used other) (replicate (rb_overflow_cap other) (replicate kMaxHits 0))
           else replicate (rb_overflow_cap other) (replicate kMaxHits 0))
         else None),
       rb_overflow_cap = rb_overflow_cap other, rb_overflow_used = rb_overflow_used other \<rparr>"

text \<open>The move: what the destination gets, and the emptied source.\<close>

definition RayBuffer_move :: "'r RayBuffer \<Rightarrow> 'r RayBuffer \<times> 'r RayBuffer" where
  "RayBuffer_move other =
     (other,
      \<lparr> rb_capacity = 0, rb_size = 0, rb_rays = [], rb_recorders = [], rb_components = [],
        rb_chain_ids = None, rb_overflow_arena = None, rb_overflow_cap = 0, rb_overflow_used = 0 \<rparr>)"

section \<open>The invariant\<close>

definition arena_ok :: "'r RayBuffer \<Rightarrow> bool" where
  "arena_ok b \<longleftrightarrow>
     (rb_overflow_arena b = None \<longleftrightarrow> rb_overflow_cap b = 0) \<and> length (arena b) = rb_overflow_cap b \<and>
     rb_overflow_used b \<le> rb_overflow_cap b \<and> rb_overflow_cap b \<le> 0xFFFE \<and>
     list_all (\<lambda>slot. length slot = kMaxHits) (arena b)"

definition rec_ok :: "nat \<Rightarrow> RaypathRecorder \<Rightarrow> bool" where
  "rec_ok used r \<longleftrightarrow> length (rec_data r) = kInlineCap \<and> rec_size r \<le> kMaxHits \<and>
     (if HasOverflow r then kInlineCap < rec_size r \<and> overflow_idx r < used else rec_size r \<le> kInlineCap)"

definition unshared :: "RaypathRecorder \<Rightarrow> RaypathRecorder \<Rightarrow> bool" where
  "unshared r q \<longleftrightarrow> HasOverflow r \<and> HasOverflow q \<longrightarrow> overflow_idx r \<noteq> overflow_idx q"

definition buffer_ok :: "'r RayBuffer \<Rightarrow> nat set \<Rightarrow> bool" where
  "buffer_ok b live \<longleftrightarrow> length (rb_recorders b) = rb_capacity b \<and> arena_ok b \<and>
     (\<forall>i\<in>live. i < rb_capacity b \<and> rec_ok (rb_overflow_used b) (rb_recorders b ! i)) \<and>
     (\<forall>i\<in>live. \<forall>j\<in>live. i \<noteq> j \<longrightarrow> unshared (rb_recorders b ! i) (rb_recorders b ! j))"

text \<open>The abstraction: the path a recorder stands for.\<close>

definition path_of :: "'r RayBuffer \<Rightarrow> nat \<Rightarrow> nat list" where
  "path_of b i = take (rec_size (RecorderAt b i)) (RecorderDataPtr b i)"

lemma unshared_sym: "unshared r q \<Longrightarrow> unshared q r"
  by (auto simp: unshared_def)

lemma buffer_ok_elim:
  assumes "buffer_ok b live" and "i \<in> live"
  shows "i < rb_capacity b" "i < length (rb_recorders b)" "rec_ok (rb_overflow_used b) (rb_recorders b ! i)"
    "arena_ok b"
  using assms by (auto simp: buffer_ok_def)

lemma buffer_ok_mono: "buffer_ok b live \<Longrightarrow> live' \<subseteq> live \<Longrightarrow> buffer_ok b live'"
  by (auto simp: buffer_ok_def)

lemma put_simps [simp]:
  "rb_recorders (put_recorder i r b) = (rb_recorders b)[i := r]"
  "rb_overflow_arena (put_recorder i r b) = rb_overflow_arena b"
  "rb_overflow_used (put_recorder i r b) = rb_overflow_used b"
  "rb_overflow_cap (put_recorder i r b) = rb_overflow_cap b"
  "rb_capacity (put_recorder i r b) = rb_capacity b" "rb_size (put_recorder i r b) = rb_size b"
  "rb_recorders (put_slot s bs b) = rb_recorders b"
  "rb_overflow_used (put_slot s bs b) = rb_overflow_used b"
  "rb_overflow_cap (put_slot s bs b) = rb_overflow_cap b"
  "rb_capacity (put_slot s bs b) = rb_capacity b" "rb_size (put_slot s bs b) = rb_size b"
  by (simp_all add: put_recorder_def put_slot_def)

lemma arena_put_slot [simp]: "arena (put_slot s bs b) = (arena b)[s := bs]"
  by (simp add: put_slot_def split: option.split)

lemma arena_ok_put_recorder [simp]: "arena_ok (put_recorder i r b) = arena_ok b"
  by (simp add: arena_ok_def put_recorder_def)

lemma arena_ok_put_slot: "arena_ok b \<Longrightarrow> length bs = kMaxHits \<Longrightarrow> arena_ok (put_slot s bs b)"
  by (auto simp: arena_ok_def put_slot_def list_all_iff dest: set_update_subset_insert [THEN subsetD]
      split: option.split_asm)

lemma arena_slot_length: "arena_ok b \<Longrightarrow> s < rb_overflow_used b \<Longrightarrow> length (arena b ! s) = kMaxHits"
  by (simp add: arena_ok_def list_all_length)

text \<open>A fresh slot: the index is the old count, every older slot keeps its bytes.\<close>

lemma Alloc_spec:
  assumes "arena_ok b" and "rb_overflow_used b < 0xFFFE" and "AllocOverflowSlot b = (s, b')"
  shows "s = rb_overflow_used b" "arena_ok b'" "rb_overflow_used b' = s + 1" "s < length (arena b')"
    "\<And>k. k < s \<Longrightarrow> arena b' ! k = arena b ! k"
    "rb_recorders b' = rb_recorders b" "rb_capacity b' = rb_capacity b" "rb_size b' = rb_size b"
proof -
  let ?u = "rb_overflow_used b" and ?c = "rb_overflow_cap b"
  define nc0 where "nc0 = (if ?c = 0 then kInitialOverflowCap else ?c * 2 mod 65536)"
  define nc where "nc = (if nc0 \<le> ?c then 0xFFFE else nc0)"
  define fresh where "fresh = replicate nc (replicate kMaxHits (0::nat))"
  define na where "na = (if rb_overflow_arena b \<noteq> None \<and> ?u > 0 then take ?u (arena b) @ drop ?u fresh else fresh)"
  define b1 where "b1 = (if ?u \<ge> ?c then b\<lparr> rb_overflow_arena := Some na, rb_overflow_cap := nc \<rparr> else b)"
  have eq: "AllocOverflowSlot b = (rb_overflow_used b1, b1\<lparr> rb_overflow_used := (rb_overflow_used b1 + 1) mod 65536 \<rparr>)"
    unfolding AllocOverflowSlot_def Let_def b1_def na_def fresh_def nc_def nc0_def by (rule refl)
  have used1: "rb_overflow_used b1 = ?u" by (simp add: b1_def)
  have inv: "arena_ok b1 \<and> ?u < length (arena b1) \<and> (\<forall>k<?u. arena b1 ! k = arena b ! k)"
  proof (cases "?u \<ge> ?c")
    case True
    with assms(1) have u: "?u = ?c" by (simp add: arena_ok_def)
    have "?c * 2 mod 65536 = ?c mod 32768 * 2" using mult_mod_left [of ?c 32768 2] by simp
    moreover have "?c mod 32768 < 32768" by simp
    ultimately have "nc0 \<le> 0xFFFE" by (auto simp: nc0_def kInitialOverflowCap_def)
    then have nc: "?u < nc" "nc \<le> 0xFFFE" using assms(2) u by (auto simp: nc_def)
    have na: "length na = nc" "\<forall>k<?u. na ! k = arena b ! k"
      using assms(1) nc(1) by (auto simp: na_def fresh_def arena_ok_def nth_append)
    have "set na \<subseteq> set (arena b) \<union> {replicate kMaxHits 0}"
      by (auto simp: na_def fresh_def dest: in_set_takeD in_set_dropD)
    then have "list_all (\<lambda>slot. length slot = kMaxHits) na"
      using assms(1) by (auto simp: arena_ok_def list_all_iff)
    with na nc True show ?thesis by (simp add: b1_def arena_ok_def)
  qed (use assms in \<open>auto simp: b1_def arena_ok_def\<close>)
  show "s = rb_overflow_used b" "arena_ok b'" "rb_overflow_used b' = s + 1" "s < length (arena b')"
    "\<And>k. k < s \<Longrightarrow> arena b' ! k = arena b ! k"
    "rb_recorders b' = rb_recorders b" "rb_capacity b' = rb_capacity b" "rb_size b' = rb_size b"
    using inv assms(2,3) by (auto simp: eq used1 arena_ok_def b1_def split: if_splits)
qed

lemma rec_ok_mono: "rec_ok u r \<Longrightarrow> u \<le> u' \<Longrightarrow> rec_ok u' r"
  by (auto simp: rec_ok_def)

lemma fresh_unshared: "rec_ok u q \<Longrightarrow> overflow_idx r = u \<Longrightarrow> unshared r q"
  by (auto simp: rec_ok_def unshared_def split: if_splits)

text \<open>Replacing one recorder keeps the invariant, and the paths of the other live recorders.\<close>

lemma buffer_ok_step:
  assumes "buffer_ok b live" and "arena_ok b'" and "rb_overflow_used b \<le> rb_overflow_used b'"
    and "rb_capacity b' = rb_capacity b" and recs: "rb_recorders b' = (rb_recorders b)[i := r]"
    and i: "i < rb_capacity b" and r: "rec_ok (rb_overflow_used b') r"
    and un: "\<And>j. j \<in> live \<Longrightarrow> j \<noteq> i \<Longrightarrow> unshared r (rb_recorders b ! j)"
  shows "buffer_ok b' (insert i live)"
proof -
  from assms(1) have len: "length (rb_recorders b) = rb_capacity b"
    and live: "\<And>j. j \<in> live \<Longrightarrow> j < rb_capacity b \<and> rec_ok (rb_overflow_used b) (rb_recorders b ! j)"
    and pair: "\<And>j k. j \<in> live \<Longrightarrow> k \<in> live \<Longrightarrow> j \<noteq> k \<Longrightarrow> unshared (rb_recorders b ! j) (rb_recorders b ! k)"
    by (auto simp: buffer_ok_def)
  have at: "rb_recorders b' ! j = (if j = i then r else rb_recorders b ! j)" for j
    using i len recs by simp
  have "j < rb_capacity b' \<and> rec_ok (rb_overflow_used b') (rb_recorders b' ! j)" if "j \<in> insert i live" for j
    using that i r live assms(3,4) rec_ok_mono by (auto simp: at)
  moreover have "unshared (rb_recorders b' ! j) (rb_recorders b' ! k)"
    if "j \<in> insert i live" "k \<in> insert i live" "j \<noteq> k" for j k
    using that un pair unshared_sym by (auto simp: at)
  ultimately show ?thesis using assms(2,4) len recs by (simp add: buffer_ok_def)
qed

lemma path_frame:
  assumes "rb_recorders b' = (rb_recorders b)[i := r]" and "j \<noteq> i"
    and "HasOverflow (rb_recorders b ! j) \<Longrightarrow>
      arena b' ! overflow_idx (rb_recorders b ! j) = arena b ! overflow_idx (rb_recorders b ! j)"
  shows "path_of b' j = path_of b j"
  using assms by (simp add: path_of_def RecorderAt_def RecorderDataPtr_def Let_def)

lemma overflow_used: "rec_ok u r \<Longrightarrow> HasOverflow r \<Longrightarrow> overflow_idx r < u"
  by (simp add: rec_ok_def)

section \<open>Clearing, appending\<close>

lemma HasOverflow_upd [simp]:
  "HasOverflow (r\<lparr> rec_size := n \<rparr>) = HasOverflow r" "HasOverflow (r\<lparr> rec_data := d \<rparr>) = HasOverflow r"
  by (simp_all add: HasOverflow_def)

lemma RecorderClear_spec:
  assumes "buffer_ok b live" and "i < rb_capacity b" and "length (rec_data (rb_recorders b ! i)) = kInlineCap"
  shows "buffer_ok (RecorderClear i b) (insert i live)" and "path_of (RecorderClear i b) i = []"
    and "j \<noteq> i \<Longrightarrow> path_of (RecorderClear i b) j = path_of b j"
proof -
  let ?r = "(rb_recorders b ! i)\<lparr> rec_size := 0, overflow_idx := kNoOverflow \<rparr>"
  have no: "\<not> HasOverflow ?r" by (simp add: HasOverflow_def)
  show "buffer_ok (RecorderClear i b) (insert i live)"
    unfolding RecorderClear_def using assms no
    by (intro buffer_ok_step [OF assms(1), where r = ?r]) (auto simp: buffer_ok_def rec_ok_def unshared_def)
  have len: "i < length (rb_recorders b)" using assms(1,2) by (simp add: buffer_ok_def)
  then show "path_of (RecorderClear i b) i = []"
    by (simp add: path_of_def RecorderAt_def RecorderClear_def)
  show "j \<noteq> i \<Longrightarrow> path_of (RecorderClear i b) j = path_of b j"
    by (rule path_frame [where i = i and r = ?r]) (simp_all add: RecorderClear_def)
qed

lemma take_update_last: "n < length xs \<Longrightarrow> take (Suc n) (xs[n := x]) = take n xs @ [x]"
  by (simp add: take_Suc_conv_app_nth)

lemma take_update_15: "15 < length xs \<Longrightarrow> take 16 (xs[15 := x]) = take 15 xs @ [x]"
  using take_update_last [of 15 xs x] by simp

text \<open>The three cases of an append: room inline, the first spill, a slot that is already there.\<close>

lemma RecorderAppend_inline:
  assumes "buffer_ok b live" and "i \<in> live" and "rec_size (rb_recorders b ! i) < kInlineCap"
  shows "buffer_ok (RecorderAppend i fn b) live \<and> path_of (RecorderAppend i fn b) i = path_of b i @ [fn mod 256] \<and>
     (\<forall>j\<in>live. j \<noteq> i \<longrightarrow> path_of (RecorderAppend i fn b) j = path_of b j)"
proof -
  let ?q = "rb_recorders b ! i"
  let ?r = "?q\<lparr> rec_data := (rec_data ?q)[rec_size ?q := fn mod 256], rec_size := rec_size ?q + 1 \<rparr>"
  note q = buffer_ok_elim [OF assms(1,2)]
  have no: "\<not> HasOverflow ?q" using q(3) assms(3) by (auto simp: rec_ok_def split: if_splits)
  have eq: "RecorderAppend i fn b = put_recorder i ?r b"
    using assms(3) by (simp add: RecorderAppend_def Let_def raypath_consts)
  have "buffer_ok (put_recorder i ?r b) (insert i live)"
    using q no assms(3) by (intro buffer_ok_step [OF assms(1), where r = ?r])
      (auto simp: rec_ok_def unshared_def raypath_consts)
  then have "buffer_ok (RecorderAppend i fn b) live" by (simp only: eq insert_absorb [OF assms(2)])
  moreover have "path_of (RecorderAppend i fn b) i = path_of b i @ [fn mod 256]"
    using q no assms(3) by (simp add: eq path_of_def RecorderAt_def RecorderDataPtr_def Let_def take_update_last
        rec_ok_def)
  moreover have "path_of (RecorderAppend i fn b) j = path_of b j" if "j \<noteq> i" for j
    using that by (intro path_frame [where i = i and r = ?r]) (simp_all add: eq)
  ultimately show ?thesis by blast
qed

lemma RecorderAppend_spill:
  assumes "buffer_ok b live" and "i \<in> live" and "rec_size (rb_recorders b ! i) = kInlineCap"
    and "rb_overflow_used b < 0xFFFE"
  shows "buffer_ok (RecorderAppend i fn b) live \<and> path_of (RecorderAppend i fn b) i = path_of b i @ [fn mod 256] \<and>
     (\<forall>j\<in>live. j \<noteq> i \<longrightarrow> path_of (RecorderAppend i fn b) j = path_of b j)"
proof -
  let ?q = "rb_recorders b ! i"
  note q = buffer_ok_elim [OF assms(1,2)]
  have no: "\<not> HasOverflow ?q" using q(3) assms(3) by (auto simp: rec_ok_def split: if_splits)
  obtain s b1 where al: "AllocOverflowSlot b = (s, b1)" by (cases "AllocOverflowSlot b")
  note a = Alloc_spec [OF q(4) assms(4) al]
  define bytes where "bytes = (take kInlineCap (rec_data ?q) @ drop kInlineCap (arena b1 ! s))[kInlineCap := fn mod 256]"
  let ?r = "?q\<lparr> overflow_idx := s, rec_size := rec_size ?q + 1 \<rparr>"
  define b' where "b' = put_recorder i ?r (put_slot s bytes b1)"
  have eq: "RecorderAppend i fn b = b'"
    using assms(3) no a(4) al
    by (cases "rb_overflow_arena b1")
      (simp_all add: RecorderAppend_def Let_def raypath_consts b'_def bytes_def put_recorder_def put_slot_def)
  have slot: "length (arena b1 ! s) = kMaxHits" using a(1-3) by (intro arena_slot_length) simp_all
  then have bytes: "length bytes = kMaxHits" using q(3) by (simp add: bytes_def rec_ok_def raypath_consts)
  have ar: "arena b' ! s = bytes" "\<And>k. k < s \<Longrightarrow> arena b' ! k = arena b ! k"
    using a(4,5) by (simp_all add: b'_def)
  have recs: "rb_recorders b' = (rb_recorders b)[i := ?r]" by (simp add: b'_def a)
  have s: "s \<noteq> kNoOverflow" using a(1) assms(4) by (simp add: kNoOverflow_def)
  have "buffer_ok b' (insert i live)"
  proof (rule buffer_ok_step [OF assms(1) _ _ _ recs q(1)])
    show "arena_ok b'" using a(2) bytes by (simp add: b'_def arena_ok_put_slot)
    show "rec_ok (rb_overflow_used b') ?r"
      using q(3) a(1,3) assms(3,4) by (simp add: rec_ok_def b'_def HasOverflow_def raypath_consts)
    show "unshared ?r (rb_recorders b ! j)" if "j \<in> live" for j
      using buffer_ok_elim(3) [OF assms(1) that] a(1) by (intro fresh_unshared [where u = "rb_overflow_used b"]) simp_all
  qed (use a in \<open>simp_all add: b'_def\<close>)
  moreover have "path_of b' i = path_of b i @ [fn mod 256]"
    using q s no assms(3) ar(1) slot
    by (simp add: path_of_def RecorderAt_def RecorderDataPtr_def recs Let_def HasOverflow_def bytes_def
        rec_ok_def) (simp add: raypath_consts take_update_15)
  moreover have "path_of b' j = path_of b j" if "j \<in> live" "j \<noteq> i" for j
    using path_frame [OF recs \<open>j \<noteq> i\<close>] ar(2) overflow_used [OF buffer_ok_elim(3) [OF assms(1) that(1)]] a(1) by simp
  ultimately show ?thesis by (simp add: eq insert_absorb [OF assms(2)])
qed

lemma RecorderAppend_slot:
  assumes "buffer_ok b live" and "i \<in> live"
    and "kInlineCap < rec_size (rb_recorders b ! i)" and "rec_size (rb_recorders b ! i) < kMaxHits"
  shows "buffer_ok (RecorderAppend i fn b) live \<and> path_of (RecorderAppend i fn b) i = path_of b i @ [fn mod 256] \<and>
     (\<forall>j\<in>live. j \<noteq> i \<longrightarrow> path_of (RecorderAppend i fn b) j = path_of b j)"
proof -
  let ?q = "rb_recorders b ! i"
  note q = buffer_ok_elim [OF assms(1,2)]
  have ov: "HasOverflow ?q" using q(3) assms(3) by (auto simp: rec_ok_def split: if_splits)
  let ?s = "overflow_idx ?q"
  have s: "?s < rb_overflow_used b" by (rule overflow_used [OF q(3) ov])
  have slot: "length (arena b ! ?s) = kMaxHits" by (rule arena_slot_length [OF q(4) s])
  have len: "?s < length (arena b)" using s q(4) by (simp add: arena_ok_def)
  let ?r = "?q\<lparr> rec_size := rec_size ?q + 1 \<rparr>"
  define b' where "b' = put_recorder i ?r (put_slot ?s ((arena b ! ?s)[rec_size ?q := fn mod 256]) b)"
  have eq: "RecorderAppend i fn b = b'"
    using assms(3,4) ov by (simp add: RecorderAppend_def Let_def raypath_consts b'_def)
  have recs: "rb_recorders b' = (rb_recorders b)[i := ?r]" by (simp add: b'_def)
  have un: "unshared ?q (rb_recorders b ! j)" if "j \<in> live" "j \<noteq> i" for j
    using assms(1,2) that unfolding buffer_ok_def by metis
  have "buffer_ok b' (insert i live)"
  proof (rule buffer_ok_step [OF assms(1) _ _ _ recs q(1)])
    show "arena_ok b'" using q(4) slot by (simp add: b'_def arena_ok_put_slot)
    show "rec_ok (rb_overflow_used b') ?r" using q(3) assms(3,4) ov by (simp add: rec_ok_def b'_def)
    show "unshared ?r (rb_recorders b ! j)" if "j \<in> live" "j \<noteq> i" for j
      using un [OF that] by (simp add: unshared_def)
  qed (simp_all add: b'_def)
  moreover have "path_of b' i = path_of b i @ [fn mod 256]"
    using q ov assms(4) slot len
    by (simp add: path_of_def RecorderAt_def RecorderDataPtr_def recs Let_def b'_def take_update_last)
  moreover have "path_of b' j = path_of b j" if "j \<in> live" "j \<noteq> i" for j
    using un [OF that] ov by (intro path_frame [OF recs that(2)]) (simp add: b'_def unshared_def)
  ultimately show ?thesis by (simp add: eq insert_absorb [OF assms(2)])
qed

lemma RecorderAppend_full: "kMaxHits \<le> rec_size (rb_recorders b ! i) \<Longrightarrow> RecorderAppend i fn b = b"
  by (simp add: RecorderAppend_def Let_def)

text \<open>The four cases together, and the use of the arena: at most one slot per append.\<close>

lemma path_of_length: "buffer_ok b live \<Longrightarrow> i \<in> live \<Longrightarrow> length (path_of b i) = rec_size (rb_recorders b ! i)"
  using buffer_ok_elim [of b live i] arena_slot_length [of b "overflow_idx (rb_recorders b ! i)"]
  by (auto simp: path_of_def RecorderAt_def RecorderDataPtr_def Let_def rec_ok_def raypath_consts split: if_splits)

lemma RecorderAppend_spec:
  assumes "buffer_ok b live" and "i \<in> live" and "rb_overflow_used b < 0xFFFE"
  shows "buffer_ok (RecorderAppend i fn b) live"
    and "path_of (RecorderAppend i fn b) i = take kMaxHits (path_of b i @ [fn mod 256])"
    and "j \<in> live \<Longrightarrow> j \<noteq> i \<Longrightarrow> path_of (RecorderAppend i fn b) j = path_of b j"
proof -
  let ?n = "rec_size (rb_recorders b ! i)"
  have len: "length (path_of b i) = ?n" by (rule path_of_length [OF assms(1,2)])
  consider "?n < kInlineCap" | "?n = kInlineCap" | "kInlineCap < ?n" "?n < kMaxHits" | "kMaxHits \<le> ?n"
    by linarith
  then have "buffer_ok (RecorderAppend i fn b) live \<and>
      path_of (RecorderAppend i fn b) i = (if ?n < kMaxHits then path_of b i @ [fn mod 256] else path_of b i) \<and>
      (\<forall>j\<in>live. j \<noteq> i \<longrightarrow> path_of (RecorderAppend i fn b) j = path_of b j)"
  proof cases
    case 1
    with RecorderAppend_inline [OF assms(1,2) 1] show ?thesis by (simp add: raypath_consts)
  next
    case 2
    with RecorderAppend_spill [OF assms(1,2) 2 assms(3)] show ?thesis by (simp add: raypath_consts)
  next
    case 3
    with RecorderAppend_slot [OF assms(1,2) 3] show ?thesis by simp
  next
    case 4
    with assms(1) show ?thesis by (simp add: RecorderAppend_full)
  qed
  moreover have "?n \<le> kMaxHits" using buffer_ok_elim(3) [OF assms(1,2)] by (simp add: rec_ok_def)
  ultimately show "buffer_ok (RecorderAppend i fn b) live"
    "path_of (RecorderAppend i fn b) i = take kMaxHits (path_of b i @ [fn mod 256])"
    "j \<in> live \<Longrightarrow> j \<noteq> i \<Longrightarrow> path_of (RecorderAppend i fn b) j = path_of b j"
    using len by (auto simp: not_less)
qed

lemma RecorderAppend_used:
  assumes "arena_ok b" and "rb_overflow_used b < 0xFFFE"
  shows "rb_overflow_used (RecorderAppend i fn b) \<le> rb_overflow_used b + 1"
    and "rb_capacity (RecorderAppend i fn b) = rb_capacity b"
proof -
  obtain s b1 where al: "AllocOverflowSlot b = (s, b1)" by (cases "AllocOverflowSlot b")
  note a = Alloc_spec [OF assms al]
  show "rb_overflow_used (RecorderAppend i fn b) \<le> rb_overflow_used b + 1"
    "rb_capacity (RecorderAppend i fn b) = rb_capacity b"
    using a(1,3,7) by (simp_all add: RecorderAppend_def Let_def al)
qed

section \<open>The interface of a path store\<close>

text \<open>
  What the tracer relies on: a store in which the paths of the indices in use can be extended one by
  one, each on its own.  \<open>room\<close> counts the appends the store still takes without an assertion failing.
\<close>

locale path_store =
  fixes ok :: "'s \<Rightarrow> nat set \<Rightarrow> bool"
    and room :: "'s \<Rightarrow> nat"
    and path :: "'s \<Rightarrow> nat \<Rightarrow> nat list"
    and append :: "nat \<Rightarrow> nat \<Rightarrow> 's \<Rightarrow> 's"
  assumes append_ok: "ok s live \<Longrightarrow> i \<in> live \<Longrightarrow> 0 < room s \<Longrightarrow> ok (append i fn s) live"
    and append_path: "ok s live \<Longrightarrow> i \<in> live \<Longrightarrow> 0 < room s \<Longrightarrow>
      path (append i fn s) i = take kMaxHits (path s i @ [fn mod 256])"
    and append_other: "ok s live \<Longrightarrow> i \<in> live \<Longrightarrow> 0 < room s \<Longrightarrow> j \<in> live \<Longrightarrow> j \<noteq> i \<Longrightarrow>
      path (append i fn s) j = path s j"
    and append_room: "ok s live \<Longrightarrow> 0 < room s \<Longrightarrow> room s \<le> room (append i fn s) + 1"
    and path_bound: "ok s live \<Longrightarrow> i \<in> live \<Longrightarrow> length (path s i) \<le> kMaxHits"
begin

text \<open>A whole interleaved session: each index collects its own hits, in order, up to the bound.\<close>

lemma session:
  "ok s live \<Longrightarrow> fst ` set ops \<subseteq> live \<Longrightarrow> length ops \<le> room s \<Longrightarrow> i \<in> live \<Longrightarrow>
     ok (fold (\<lambda>(i, fn). append i fn) ops s) live \<and>
     path (fold (\<lambda>(i, fn). append i fn) ops s) i
       = take kMaxHits (path s i @ [fn mod 256. (k, fn) \<leftarrow> ops, k = i])"
proof (induction ops arbitrary: s)
  case Nil
  then show ?case using path_bound [of s live i] by simp
next
  case (Cons op ops)
  obtain k fn where op: "op = (k, fn)" by (cases op)
  let ?s = "append k fn s"
  have k: "k \<in> live" and room: "0 < room s" using Cons.prems op by auto
  have "length ops \<le> room ?s" using append_room [OF Cons.prems(1) room, of k fn] Cons.prems(3) by simp
  with Cons.IH [of ?s] Cons.prems append_ok [OF Cons.prems(1) k room]
  have IH: "ok (fold (\<lambda>(i, fn). append i fn) ops ?s) live"
    "path (fold (\<lambda>(i, fn). append i fn) ops ?s) i
       = take kMaxHits (path ?s i @ [fn mod 256. (k, fn) \<leftarrow> ops, k = i])"
    by auto
  have "path ?s i = (if k = i then take kMaxHits (path s i @ [fn mod 256]) else path s i)"
    using append_path [OF Cons.prems(1) k room] append_other [OF Cons.prems(1) k room Cons.prems(4)] by auto
  moreover have "length (path s i) \<le> kMaxHits" by (rule path_bound [OF Cons.prems(1,4)])
  ultimately show ?case using IH op by (auto simp: take_Cons' min_def diff_le_self)
qed

end

definition arena_room :: "'r RayBuffer \<Rightarrow> nat" where
  "arena_room b = 0xFFFE - rb_overflow_used b"

interpretation buffer_paths: path_store buffer_ok arena_room path_of RecorderAppend
proof
  fix b :: "'r RayBuffer" and live i fn j
  assume ok: "buffer_ok b live"
  then have ar: "arena_ok b" by (simp add: buffer_ok_def)
  have room: "0 < arena_room b \<Longrightarrow> rb_overflow_used b < 0xFFFE" by (simp add: arena_room_def)
  show "i \<in> live \<Longrightarrow> 0 < arena_room b \<Longrightarrow> buffer_ok (RecorderAppend i fn b) live"
    using RecorderAppend_spec(1) [OF ok] room by blast
  show "i \<in> live \<Longrightarrow> 0 < arena_room b \<Longrightarrow>
      path_of (RecorderAppend i fn b) i = take kMaxHits (path_of b i @ [fn mod 256])"
    using RecorderAppend_spec(2) [OF ok] room by blast
  show "i \<in> live \<Longrightarrow> 0 < arena_room b \<Longrightarrow> j \<in> live \<Longrightarrow> j \<noteq> i \<Longrightarrow>
      path_of (RecorderAppend i fn b) j = path_of b j"
    using RecorderAppend_spec(3) [OF ok] room by blast
  show "0 < arena_room b \<Longrightarrow> arena_room b \<le> arena_room (RecorderAppend i fn b) + 1"
    using RecorderAppend_used(1) [OF ar, of i fn] by (simp add: arena_room_def)
  show "i \<in> live \<Longrightarrow> length (path_of b i) \<le> kMaxHits"
    using path_of_length [OF ok] buffer_ok_elim(3) [OF ok] by (simp add: rec_ok_def)
qed

section \<open>Copying between buffers\<close>

definition same_store :: "'r RayBuffer \<Rightarrow> 'r RayBuffer \<Rightarrow> bool" where
  "same_store b b' \<longleftrightarrow> rb_recorders b' = rb_recorders b \<and> rb_overflow_arena b' = rb_overflow_arena b \<and>
     rb_overflow_cap b' = rb_overflow_cap b \<and> rb_overflow_used b' = rb_overflow_used b \<and>
     rb_capacity b' = rb_capacity b"

lemma same_store_ok: "same_store b b' \<Longrightarrow> buffer_ok b' live = buffer_ok b live"
  by (simp add: same_store_def buffer_ok_def arena_ok_def)

lemma same_store_path: "same_store b b' \<Longrightarrow> path_of b' i = path_of b i"
  by (simp add: same_store_def path_of_def RecorderAt_def RecorderDataPtr_def Let_def)

lemma buffer_ok_put_dead:
  assumes "buffer_ok b live" and "d \<notin> live" shows "buffer_ok (put_recorder d r b) live"
proof -
  have "(rb_recorders b)[d := r] ! i = rb_recorders b ! i" if "i \<in> live" for i
    using assms(2) that by (metis nth_list_update_neq)
  with assms(1) show ?thesis by (simp add: buffer_ok_def)
qed

lemma path_put_dead: "j \<noteq> d \<Longrightarrow> path_of (put_recorder d r b) j = path_of b j"
  by (simp add: path_of_def RecorderAt_def RecorderDataPtr_def Let_def)

text \<open>
  \<open>DupOverflowSlot\<close> on a recorder that was just copied from \<open>src\<close>: it does not abort, the copy becomes
  live and has the source's path, and no slot is shared.
\<close>

lemma DupOverflowSlot_spec:
  assumes src: "buffer_ok src slive" "k \<in> slive" and b: "buffer_ok b live" "d < rb_capacity b" "d \<notin> live"
    and r: "rb_recorders b ! d = rb_recorders src ! k" and room: "rb_overflow_used b < 0xFFFE"
  shows "\<exists>b'. DupOverflowSlot src d b = Some b' \<and> buffer_ok b' (insert d live) \<and>
      path_of b' d = path_of src k \<and> (\<forall>j\<in>live. path_of b' j = path_of b j) \<and>
      rb_overflow_used b' \<le> rb_overflow_used b + 1 \<and> rb_capacity b' = rb_capacity b \<and> rb_size b' = rb_size b \<and>
      (\<forall>j. j \<noteq> d \<longrightarrow> rb_recorders b' ! j = rb_recorders b ! j)"
proof -
  let ?q = "rb_recorders src ! k"
  note s = buffer_ok_elim [OF src]
  have len: "d < length (rb_recorders b)" and ar: "arena_ok b" using b by (auto simp: buffer_ok_def)
  show ?thesis
  proof (cases "HasOverflow ?q")
    case False
    have "rb_recorders b = (rb_recorders b)[d := ?q]" using r by (metis list_update_id)
    then have "buffer_ok b (insert d live)"
      using s(3) False b by (intro buffer_ok_step [OF b(1) ar, where r = ?q]) (auto simp: unshared_def rec_ok_def)
    moreover have "path_of b d = path_of src k"
      using False r by (simp add: path_of_def RecorderAt_def RecorderDataPtr_def Let_def)
    moreover have "DupOverflowSlot src d b = Some b" using False r by (simp add: DupOverflowSlot_def)
    ultimately show ?thesis by auto
  next
    case True
    let ?s = "overflow_idx ?q"
    have used: "?s < rb_overflow_used src" by (rule overflow_used [OF s(3) True])
    obtain n b1 where al: "AllocOverflowSlot b = (n, b1)" by (cases "AllocOverflowSlot b")
    note a = Alloc_spec [OF ar room al]
    let ?r = "?q\<lparr> overflow_idx := n \<rparr>"
    define b' where "b' = put_recorder d ?r (put_slot n (arena src ! ?s) b1)"
    have "rb_overflow_arena src \<noteq> None" using used s(4) by (auto simp: arena_ok_def)
    then have eq: "DupOverflowSlot src d b = Some b'"
      using True used r al by (simp add: DupOverflowSlot_def Let_def b'_def)
    have recs: "rb_recorders b' = (rb_recorders b)[d := ?r]" by (simp add: b'_def a)
    have ov: "HasOverflow ?r" using a(1) room by (simp add: HasOverflow_def kNoOverflow_def)
    have "buffer_ok b' (insert d live)"
    proof (rule buffer_ok_step [OF b(1) _ _ _ recs b(2)])
      show "arena_ok b'" using a(2) arena_slot_length [OF s(4) used] by (simp add: b'_def arena_ok_put_slot)
      show "rec_ok (rb_overflow_used b') ?r" using s(3) True ov a(3) by (simp add: rec_ok_def b'_def)
      show "unshared ?r (rb_recorders b ! j)" if "j \<in> live" for j
        using buffer_ok_elim(3) [OF b(1) that] a(1) by (intro fresh_unshared [where u = "rb_overflow_used b"]) simp_all
    qed (use a in \<open>simp_all add: b'_def\<close>)
    moreover have "path_of b' d = path_of src k"
      using True ov len a(4,6) by (simp add: path_of_def RecorderAt_def RecorderDataPtr_def recs b'_def Let_def)
    moreover have "path_of b' j = path_of b j" if "j \<in> live" for j
      using that b(3) overflow_used [OF buffer_ok_elim(3) [OF b(1) that]] a(1,4,5)
      by (intro path_frame [OF recs]) (auto simp: b'_def)
    moreover have "rb_overflow_used b' \<le> rb_overflow_used b + 1" "rb_capacity b' = rb_capacity b"
      "rb_size b' = rb_size b" "\<forall>j. j \<noteq> d \<longrightarrow> rb_recorders b' ! j = rb_recorders b ! j"
      using a by (simp_all add: b'_def)
    ultimately show ?thesis using eq by blast
  qed
qed

lemma FanOut_dups:
  "dst0 < length (rb_recorders b) \<Longrightarrow> dst1 < length (rb_recorders b) \<Longrightarrow> dst0 \<noteq> dst1 \<Longrightarrow> RecorderFanOut src k dst0 dst1 b =
     Option.bind (DupOverflowSlot src dst0 (put_recorder dst1 (rb_recorders src ! k)
       (put_recorder dst0 (rb_recorders src ! k) b))) (DupOverflowSlot src dst1)"
  by (auto simp: RecorderFanOut_def Let_def DupOverflowSlot_def)

lemma RecorderFanOut_spec:
  assumes src: "buffer_ok src slive" "k \<in> slive" and b: "buffer_ok b live"
    and d: "d0 < rb_capacity b" "d1 < rb_capacity b" "d0 \<noteq> d1" and room: "rb_overflow_used b + 1 < 0xFFFE"
  shows "\<exists>b'. RecorderFanOut src k d0 d1 b = Some b' \<and> buffer_ok b' (insert d1 (insert d0 live)) \<and>
      path_of b' d0 = path_of src k \<and> path_of b' d1 = path_of src k \<and>
      (\<forall>j\<in>live. j \<noteq> d0 \<and> j \<noteq> d1 \<longrightarrow> path_of b' j = path_of b j)"
proof -
  let ?q = "rb_recorders src ! k" and ?L = "live - {d0, d1}"
  define b1 where "b1 = put_recorder d1 ?q (put_recorder d0 ?q b)"
  have len: "length (rb_recorders b) = rb_capacity b" using b by (simp add: buffer_ok_def)
  have ok1: "buffer_ok b1 ?L"
    unfolding b1_def by (intro buffer_ok_put_dead buffer_ok_mono [OF b]) auto
  have b1: "d0 < rb_capacity b1" "d0 \<notin> ?L" "rb_recorders b1 ! d0 = ?q" "rb_recorders b1 ! d1 = ?q"
    "rb_overflow_used b1 < 0xFFFE"
    using d len room by (simp_all add: b1_def)
  obtain b2 where b2: "DupOverflowSlot src d0 b1 = Some b2" "buffer_ok b2 (insert d0 ?L)"
      "path_of b2 d0 = path_of src k" "\<forall>j\<in>?L. path_of b2 j = path_of b1 j"
      "rb_overflow_used b2 \<le> rb_overflow_used b1 + 1" "rb_capacity b2 = rb_capacity b1"
      "\<forall>j. j \<noteq> d0 \<longrightarrow> rb_recorders b2 ! j = rb_recorders b1 ! j"
    using DupOverflowSlot_spec [OF src ok1 b1(1-3,5)] by blast
  have "d1 < rb_capacity b2" "d1 \<notin> insert d0 ?L" "rb_recorders b2 ! d1 = ?q" "rb_overflow_used b2 < 0xFFFE"
    using b2(5-7) b1 d room by (auto simp: b1_def)
  from DupOverflowSlot_spec [OF src b2(2) this] obtain b3
    where b3: "DupOverflowSlot src d1 b2 = Some b3" "buffer_ok b3 (insert d1 (insert d0 ?L))"
      "path_of b3 d1 = path_of src k" "\<forall>j\<in>insert d0 ?L. path_of b3 j = path_of b2 j"
    by blast
  have "RecorderFanOut src k d0 d1 b = Some b3"
    using FanOut_dups [of d0 b d1] d len b2(1) b3(1) by (simp add: b1_def)
  moreover have "insert d1 (insert d0 ?L) = insert d1 (insert d0 live)" by blast
  moreover have "path_of b3 j = path_of b j" if "j \<in> live" "j \<noteq> d0" "j \<noteq> d1" for j
    using that b3(4) b2(4) by (simp add: b1_def path_put_dead)
  ultimately show ?thesis using b3(2,3,4) b2(3) by auto
qed

section \<open>Appending a batch, resetting, swapping\<close>

definition columns_ok :: "'r RayBuffer \<Rightarrow> bool" where
  "columns_ok b \<longleftrightarrow> length (rb_rays b) = rb_capacity b \<and> length (rb_components b) = rb_capacity b \<and>
     (case rb_chain_ids b of None \<Rightarrow> True | Some c \<Rightarrow> length c = rb_capacity b) \<and> rb_size b \<le> rb_capacity b"

definition chain_at :: "'r RayBuffer \<Rightarrow> nat \<Rightarrow> u32 option" where
  "chain_at b i = map_option (\<lambda>c. c ! i) (rb_chain_ids b)"

text \<open>What a ray of the buffer is to its readers, and the buffer as the list of its rays.\<close>

definition ray_view :: "'r RayBuffer \<Rightarrow> nat \<Rightarrow> 'r \<times> nat list \<times> u64 \<times> u32 option" where
  "ray_view b i = (rb_rays b ! i, path_of b i, rb_components b ! i, chain_at b i)"

definition view :: "'r RayBuffer \<Rightarrow> ('r \<times> nat list \<times> u64 \<times> u32 option) list" where
  "view b = map (ray_view b) [0..<rb_size b]"

text \<open>The entry a batch append adds: the chain id follows the destination's column, 0 from a source without one.\<close>

definition carried :: "bool \<Rightarrow> 'r \<times> nat list \<times> u64 \<times> u32 option \<Rightarrow> 'r \<times> nat list \<times> u64 \<times> u32 option" where
  "carried has_chain v = (case v of (r, p, c, ch) \<Rightarrow>
     (r, p, c, if has_chain then Some (case ch of None \<Rightarrow> 0 | Some x \<Rightarrow> x) else None))"

definition live_ok :: "'r RayBuffer \<Rightarrow> bool" where
  "live_ok b \<longleftrightarrow> columns_ok b \<and> buffer_ok b {..<rb_size b}"

definition same_columns :: "'r RayBuffer \<Rightarrow> 'r RayBuffer \<Rightarrow> bool" where
  "same_columns b b' \<longleftrightarrow> rb_rays b' = rb_rays b \<and> rb_components b' = rb_components b \<and>
     rb_chain_ids b' = rb_chain_ids b"

lemma Alloc_columns: "AllocOverflowSlot b = (s, b') \<Longrightarrow> same_columns b b'"
  by (auto simp: AllocOverflowSlot_def Let_def same_columns_def)

lemma Dup_columns: "DupOverflowSlot src d b = Some b' \<Longrightarrow> same_columns b b'"
  by (auto simp: DupOverflowSlot_def Let_def same_columns_def put_recorder_def put_slot_def
      dest!: Alloc_columns split: if_splits prod.splits)

lemma emplace_one_spec:
  assumes src: "buffer_ok src {..<rb_size src}" "i < rb_size src"
    and b: "live_ok b" "rb_size b < rb_capacity b" and room: "rb_overflow_used b < 0xFFFE"
  shows "\<exists>b'. emplace_one src i b = Some b' \<and> live_ok b' \<and>
      view b' = view b @ [carried (HasChainIds b) (ray_view src i)] \<and>
      rb_size b' = rb_size b + 1 \<and> rb_capacity b' = rb_capacity b \<and> HasChainIds b' = HasChainIds b \<and>
      rb_overflow_used b' \<le> rb_overflow_used b + 1"
proof -
  let ?n = "rb_size b"
  define b1 where "b1 = SetComponent ?n (rb_components src ! i)
      (put_recorder ?n (rb_recorders src ! i) (put_ray ?n (rb_rays src ! i) b))"
  define b2 where "b2 = (if rb_chain_ids b1 \<noteq> None
      then SetChainId ?n (case rb_chain_ids src of Some c \<Rightarrow> c ! i | None \<Rightarrow> 0) b1 else b1)"
  from b(1) have cols: "columns_ok b" and ok: "buffer_ok b {..<?n}" by (auto simp: live_ok_def)
  have st: "same_store (put_recorder ?n (rb_recorders src ! i) b) b2"
    by (simp add: same_store_def b2_def b1_def SetComponent_def SetChainId_def put_recorder_def put_ray_def)
  have cols2: "rb_rays b2 = (rb_rays b)[?n := rb_rays src ! i]"
    "rb_components b2 = (rb_components b)[?n := rb_components src ! i]"
    "rb_chain_ids b2 = map_option (\<lambda>c. c[?n := case rb_chain_ids src of Some c \<Rightarrow> c ! i | None \<Rightarrow> 0]) (rb_chain_ids b)"
    "rb_size b2 = ?n" "rb_capacity b2 = rb_capacity b"
    by (auto simp: b2_def b1_def SetComponent_def SetChainId_def put_recorder_def put_ray_def)
  have ok2: "buffer_ok b2 {..<?n}"
    unfolding same_store_ok [OF st] by (intro buffer_ok_put_dead [OF ok]) simp
  have pre: "?n < rb_capacity b2" "?n \<notin> {..<?n}" "rb_recorders b2 ! ?n = rb_recorders src ! i"
    "rb_overflow_used b2 < 0xFFFE"
    using b(2) ok room st cols2 by (simp_all add: same_store_def buffer_ok_def)
  obtain b3 where b3: "DupOverflowSlot src ?n b2 = Some b3" "buffer_ok b3 (insert ?n {..<?n})"
      "path_of b3 ?n = path_of src i" "\<forall>j\<in>{..<?n}. path_of b3 j = path_of b2 j"
      "rb_overflow_used b3 \<le> rb_overflow_used b2 + 1" "rb_capacity b3 = rb_capacity b2" "rb_size b3 = rb_size b2"
    using DupOverflowSlot_spec [OF src(1) _ ok2 pre(1-3) pre(4)] src(2) by auto
  define b' where "b' = b3\<lparr> rb_size := rb_size b3 + 1 \<rparr>"
  have eq: "emplace_one src i b = Some b'"
    by (simp only: emplace_one_def Let_def b1_def [symmetric] b2_def [symmetric] b3(1) option.map b'_def)
  have st': "same_store b3 b'" by (simp add: same_store_def b'_def)
  have c3: "same_columns b2 b3" by (rule Dup_columns [OF b3(1)])
  have cap: "rb_capacity b' = rb_capacity b" "rb_size b' = ?n + 1"
    using b3(6,7) cols2 by (simp_all add: b'_def)
  have cb': "rb_rays b' = rb_rays b3" "rb_components b' = rb_components b3" "rb_chain_ids b' = rb_chain_ids b3"
    by (simp_all add: b'_def)
  have "live_ok b'"
    using b3(2) cols c3 cols2 cap b(2) unfolding live_ok_def same_store_ok [OF st']
    by (auto simp: columns_ok_def same_columns_def b'_def lessThan_Suc split: option.splits)
  moreover have old: "ray_view b' j = ray_view b j" if "j < ?n" for j
    using that b3(4) c3 cols2 same_store_path [OF st] path_put_dead [of j ?n] cb'
    by (auto simp: ray_view_def same_store_path [OF st'] same_columns_def chain_at_def option.map_comp comp_def
        cong: option.map_cong)
  moreover have new: "ray_view b' ?n = carried (HasChainIds b) (ray_view src i)"
    using c3 cols2 b3(3) cols b(2) cb'
    by (auto simp: ray_view_def same_store_path [OF st'] same_columns_def chain_at_def carried_def
        columns_ok_def HasChainIds_def split: option.splits)
  ultimately have "view b' = view b @ [carried (HasChainIds b) (ray_view src i)]"
    by (simp add: view_def cap)
  moreover have "HasChainIds b' = HasChainIds b" "rb_overflow_used b' \<le> rb_overflow_used b + 1"
    using c3 cols2 b3(5) st by (auto simp: HasChainIds_def same_columns_def b'_def same_store_def)
  ultimately show ?thesis using eq cap \<open>live_ok b'\<close> by blast
qed

lemma emplace_loop_spec:
  assumes src: "buffer_ok src {..<rb_size src}"
  shows "set js \<subseteq> {..<rb_size src} \<Longrightarrow> live_ok b \<Longrightarrow> rb_overflow_used b + length js \<le> 0xFFFE \<Longrightarrow>
    \<exists>b'. emplace_loop src js b = Some b' \<and> live_ok b' \<and> rb_capacity b' = rb_capacity b \<and>
      view b' = take (rb_capacity b) (view b @ map (carried (HasChainIds b) \<circ> ray_view src) js)"
proof (induction js arbitrary: b)
  case Nil
  then show ?case by (simp add: view_def live_ok_def columns_ok_def)
next
  case (Cons i js b)
  have len: "length (view b) = rb_size b" by (simp add: view_def)
  show ?case
  proof (cases "rb_size b < rb_capacity b")
    case True
    have i: "i < rb_size src" "rb_overflow_used b < 0xFFFE" using Cons.prems by auto
    obtain b1 where b1: "emplace_one src i b = Some b1" "live_ok b1"
      "view b1 = view b @ [carried (HasChainIds b) (ray_view src i)]" "rb_size b1 = rb_size b + 1"
      "rb_capacity b1 = rb_capacity b" "HasChainIds b1 = HasChainIds b"
      "rb_overflow_used b1 \<le> rb_overflow_used b + 1"
      using emplace_one_spec [OF src i(1) Cons.prems(2) True i(2)] by blast
    have "set js \<subseteq> {..<rb_size src}" "rb_overflow_used b1 + length js \<le> 0xFFFE"
      using Cons.prems b1(7) by auto
    from Cons.IH [OF this(1) b1(2) this(2)] show ?thesis
      using True b1 by simp
  next
    case False
    then have "rb_size b = rb_capacity b" using Cons.prems(2) by (simp add: live_ok_def columns_ok_def)
    then show ?thesis using Cons.prems(2) len by simp
  qed
qed

lemma EmplaceBack_buffer_part:
  assumes "live_ok src" and "live_ok b" and "rb_overflow_used b + min len (rb_size src - start) \<le> 0xFFFE" and "start + len < 2 ^ 64"
  shows "\<exists>b'. EmplaceBack_buffer src start len b = Some b' \<and> live_ok b' \<and> rb_capacity b' = rb_capacity b \<and>
      view b' = take (rb_capacity b)
        (view b @ map (carried (HasChainIds b)) (take len (drop start (view src))))"
proof -
  let ?is = "[start..<min ((start + len) mod 2 ^ 64) (rb_size src)]"
  have "length ?is = min len (rb_size src - start)" using assms(4) by (simp add: min_def, arith)
  then have "set ?is \<subseteq> {..<rb_size src}" "rb_overflow_used b + length ?is \<le> 0xFFFE" using assms(3) by auto
  from emplace_loop_spec [OF _ this(1) assms(2) this(2)] assms(1)
  have "\<exists>b'. emplace_loop src ?is b = Some b' \<and> live_ok b' \<and> rb_capacity b' = rb_capacity b \<and>
      view b' = take (rb_capacity b) (view b @ map (carried (HasChainIds b) \<circ> ray_view src) ?is)"
    by (simp add: live_ok_def)
  moreover have "map (ray_view src) ?is = take len (drop start (view src))"
    using assms(4) by (simp add: view_def drop_map take_map min_def)
  then have "map (carried (HasChainIds b) \<circ> ray_view src) ?is
      = map (carried (HasChainIds b)) (take len (drop start (view src)))"
    by (metis map_map)
  ultimately show ?thesis by (simp add: EmplaceBack_buffer_def Let_def)
qed

lemma EmplaceBack_buffer_spec:
  assumes "live_ok src" and "live_ok b" and "rb_overflow_used b + rb_size src \<le> 0xFFFE" and "start + len < 2 ^ 64"
  shows "\<exists>b'. EmplaceBack_buffer src start len b = Some b' \<and> live_ok b' \<and> rb_capacity b' = rb_capacity b \<and>
      view b' = take (rb_capacity b)
        (view b @ map (carried (HasChainIds b)) (take len (drop start (view src))))"
  using assms by (intro EmplaceBack_buffer_part) simp_all

lemma Reset_spec:
  assumes "live_ok b"
  shows "live_ok (Reset ray0 n c b)" "view (Reset ray0 n c b) = []" "n \<le> rb_capacity (Reset ray0 n c b)"
    "HasChainIds (Reset ray0 n c b) = c" "rb_overflow_used (Reset ray0 n c b) = 0"
  using assms
  by (auto simp: Reset_def Let_def live_ok_def columns_ok_def buffer_ok_def arena_ok_def view_def HasChainIds_def
      split: option.splits)

lemma swap_at_length [simp]: "length (swap_at i j xs) = length xs"
  by (simp add: swap_at_def)

lemma swap_at_nth: "i < length xs \<Longrightarrow> j < length xs \<Longrightarrow>
    swap_at i j xs ! k = (if k = i then xs ! j else if k = j then xs ! i else xs ! k)"
  by (auto simp: swap_at_def nth_list_update)

text \<open>A swap exchanges the ray, its component mask and its chain id together.\<close>

lemma SwapRay_spec:
  assumes "live_ok b" and "i < rb_size b" and "j < rb_size b"
  shows "live_ok (SwapRay i j b)"
    and "(rb_rays (SwapRay i j b) ! k, rb_components (SwapRay i j b) ! k, chain_at (SwapRay i j b) k) =
      (let k' = (if k = i then j else if k = j then i else k) in (rb_rays b ! k', rb_components b ! k', chain_at b k'))"
  using assms
  by (auto simp: SwapRay_def Let_def live_ok_def columns_ok_def buffer_ok_def arena_ok_def chain_at_def swap_at_nth
      split: option.splits)

text \<open>The copy constructor: full columns, and the populated prefix of the arena.\<close>

lemma copy_arena:
  assumes "arena_ok b"
  shows "arena_ok (RayBuffer_copy b)" "s < rb_overflow_used b \<Longrightarrow> arena (RayBuffer_copy b) ! s = arena b ! s"
proof -
  let ?z = "replicate (rb_overflow_cap b) (replicate kMaxHits (0::nat))"
  define na where "na = (if rb_overflow_used b > 0 then take (rb_overflow_used b) (arena b) @ drop (rb_overflow_used b) ?z
      else ?z)"
  have eq: "rb_overflow_arena (RayBuffer_copy b) = (if rb_overflow_cap b > 0 then Some na else None)"
    by (simp add: RayBuffer_copy_def na_def)
  have na: "length na = rb_overflow_cap b" using assms by (simp add: na_def arena_ok_def)
  have "set na \<subseteq> set (arena b) \<union> {replicate kMaxHits 0}"
    by (auto simp: na_def dest: in_set_takeD in_set_dropD)
  then have "list_all (\<lambda>slot. length slot = kMaxHits) na"
    using assms by (auto simp: arena_ok_def list_all_iff)
  with na assms show "arena_ok (RayBuffer_copy b)"
    unfolding arena_ok_def eq by (auto simp: RayBuffer_copy_def)
  show "s < rb_overflow_used b \<Longrightarrow> arena (RayBuffer_copy b) ! s = arena b ! s"
    using assms unfolding eq by (auto simp: na_def arena_ok_def nth_append)
qed

lemma RayBuffer_copy_spec:
  assumes "live_ok b"
  shows "live_ok (RayBuffer_copy b)" and "view (RayBuffer_copy b) = view b"
proof -
  from assms have cols: "columns_ok b" and ok: "buffer_ok b {..<rb_size b}" by (auto simp: live_ok_def)
  then have ar: "arena_ok b" and recs: "rb_recorders (RayBuffer_copy b) = rb_recorders b"
    and same: "rb_size (RayBuffer_copy b) = rb_size b" "rb_capacity (RayBuffer_copy b) = rb_capacity b"
      "rb_overflow_used (RayBuffer_copy b) = rb_overflow_used b"
    and cc: "rb_rays (RayBuffer_copy b) = rb_rays b" "rb_components (RayBuffer_copy b) = rb_components b"
      "0 < rb_capacity b \<Longrightarrow> rb_chain_ids (RayBuffer_copy b) = rb_chain_ids b"
      "rb_capacity b = 0 \<Longrightarrow> rb_chain_ids (RayBuffer_copy b) = None"
    by (auto simp: RayBuffer_copy_def buffer_ok_def columns_ok_def split: option.splits)
  show "live_ok (RayBuffer_copy b)"
    using cols ok copy_arena(1) [OF ar] recs same cc
    by (cases "rb_capacity b = 0"; cases "rb_chain_ids b") (simp_all add: live_ok_def columns_ok_def buffer_ok_def)
  have "path_of (RayBuffer_copy b) i = path_of b i" if "i < rb_size b" for i
    using copy_arena(2) [OF ar] overflow_used [OF buffer_ok_elim(3) [OF ok]] that
    by (simp add: path_of_def RecorderAt_def RecorderDataPtr_def Let_def recs)
  then show "view (RayBuffer_copy b) = view b"
    using cc cols by (cases "rb_capacity b = 0") (simp_all add: view_def ray_view_def same chain_at_def columns_ok_def)
qed

end
