(* ===== verification/Filter_Spec.thy ===== *)
theory Filter_Spec
  imports Filter_Config Reduce_Buffer Ray_Buffer
begin

text \<open>
  The simulation-side filter (\<open>src/core/filter_spec.hpp\<close>, \<open>src/core/filter_spec.cpp\<close>): the class hierarchy
  as a datatype with its virtual functions by case, the orbit test, and \<open>FilterSpec::Create\<close>.

  A crystal enters through the two values the filter reads off it, the face-number period and the
  shape symmetry.  The arena pointer is the arena of the ray buffer the recorder lives in.
\<close>

section \<open>The code\<close>

definition hit_bytes :: "nat list list option \<Rightarrow> RaypathRecorder \<Rightarrow> nat list" where
  "hit_bytes overflow_arena rec = (if HasOverflow rec then the overflow_arena ! overflow_idx rec else rec_data rec)"

record RaypathOrbit =
  ro_canonical :: RaypathRecorder
  ro_symmetry :: u8
  ro_sigma_a :: int
  ro_d_applicable :: bool
  ro_p_retained :: PRotationSet
  ro_b_applicable :: bool
  ro_fn_period :: int
  ro_geom_symmetry :: GeometricSymmetry

definition RaypathOrbit_default :: RaypathOrbit where
  "RaypathOrbit_default =
     \<lparr> ro_canonical = empty_recorder, ro_symmetry = kSymNone, ro_sigma_a = 0, ro_d_applicable = False,
       ro_p_retained = \<lparr> prs_bits = 0x01 \<rparr>, ro_b_applicable = False, ro_fn_period = - 1,
       ro_geom_symmetry = \<lparr> gs_p_step = kHexagonalFnPeriod, gs_d_valid_sigma_mask = 0, gs_b_applicable = False \<rparr> \<rparr>"

definition Contains :: "RaypathOrbit \<Rightarrow> RaypathRecorder \<Rightarrow> nat list list option \<Rightarrow> bool" where
  "Contains orbit rp_input overflow_arena =
     (if rec_size rp_input \<noteq> rec_size (ro_canonical orbit) then False
      else
        let src = hit_bytes overflow_arena rp_input;
            size = rec_size rp_input
        in if ro_fn_period orbit < 0 \<or> ro_symmetry orbit = kSymNone
           then take size src = take size (rec_data (ro_canonical orbit))
           else
             let scratch = take size src;
                 scratch = ReduceBuffer scratch (ro_symmetry orbit) (ro_sigma_a orbit) (ro_d_applicable orbit)
                   (ro_p_retained orbit) (ro_b_applicable orbit) (ro_fn_period orbit) (ro_geom_symmetry orbit)
             in scratch = take size (rec_data (ro_canonical orbit)))"

definition BuildOrbit ::
  "int \<Rightarrow> nat list \<Rightarrow> u8 \<Rightarrow> int \<Rightarrow> bool \<Rightarrow> PRotationSet \<Rightarrow> bool \<Rightarrow> GeometricSymmetry \<Rightarrow> RaypathOrbit" where
  "BuildOrbit fn_period rp symmetry sigma_a d_applicable p_retained b_applicable geom =
     (let canonical_vec = ReduceRaypathByPeriod rp symmetry sigma_a d_applicable p_retained b_applicable fn_period geom
      in \<lparr> ro_canonical = foldl recorder_push empty_recorder canonical_vec, ro_symmetry = symmetry,
           ro_sigma_a = sigma_a, ro_d_applicable = d_applicable, ro_p_retained = p_retained,
           ro_b_applicable = b_applicable, ro_fn_period = fn_period, ro_geom_symmetry = geom \<rparr>)"

record EntryExitSpec =
  es_min_len :: nat
  es_max_len :: "nat option"
  es_has_entry :: bool
  es_has_exit :: bool
  es_has_orbit :: bool
  es_orbit :: RaypathOrbit

datatype 'f SimpleSpec =
    NoneSpec
  | RaypathSpec RaypathOrbit
  | EntryExitSpec EntryExitSpec
  | DirectionSpec "'f list" 'f
  | CrystalSpec nat

datatype 'f SpecBody =
    OneSpec "'f SimpleSpec"
  | ComplexSpec "'f SimpleSpec list list"

record 'f FilterSpec =
  fs_body :: "'f SpecBody"
  fs_action :: FilterAction

definition BuildOrbitFromEnds ::
  "int \<Rightarrow> nat option \<Rightarrow> nat option \<Rightarrow> u8 \<Rightarrow> int \<Rightarrow> bool \<Rightarrow> PRotationSet \<Rightarrow> bool \<Rightarrow> GeometricSymmetry \<Rightarrow> RaypathOrbit"
where
  "BuildOrbitFromEnds fn_period entry exit symmetry sigma_a d_applicable p_retained b_applicable geom =
     (let rp = (case (entry, exit) of
          (Some e, Some x) \<Rightarrow> [e, x]
        | (Some e, None) \<Rightarrow> [e]
        | (None, Some x) \<Rightarrow> [x]
        | (None, None) \<Rightarrow> [])
      in if rp = [] then RaypathOrbit_default
         else BuildOrbit fn_period rp symmetry sigma_a d_applicable p_retained b_applicable geom)"

definition EntryExit_Match :: "EntryExitSpec \<Rightarrow> RaypathRecorder \<Rightarrow> nat list list option \<Rightarrow> bool" where
  "EntryExit_Match s rec overflow_arena =
     (let size = rec_size rec in
      if size = 0 then False
      else if size < es_min_len s then False
      else if (case es_max_len s of None \<Rightarrow> False | Some m \<Rightarrow> size > m) then False
      else if \<not> es_has_orbit s then True
      else
        let data = hit_bytes overflow_arena rec;
            ee = (if es_has_entry s \<and> es_has_exit s
                  then recorder_push (recorder_push empty_recorder (data ! 0)) (data ! (size - 1))
                  else if es_has_entry s then recorder_push empty_recorder (data ! 0)
                  else recorder_push empty_recorder (data ! (size - 1)))
        in Contains (es_orbit s) ee None)"

definition Dot3 :: "('f, 'z) float_ops_scheme \<Rightarrow> 'f list \<Rightarrow> 'f list \<Rightarrow> 'f" where
  "Dot3 fl vec1 vec2 =
     fl_add fl (fl_add fl (fl_mul fl (vec1 ! 0) (vec2 ! 0)) (fl_mul fl (vec1 ! 1) (vec2 ! 1)))
       (fl_mul fl (vec1 ! 2) (vec2 ! 2))"

fun SimpleSpec_Match ::
  "('f, 'z) float_ops_scheme \<Rightarrow> 'f SimpleSpec \<Rightarrow> ('f, 'q) RaySeg \<Rightarrow> RaypathRecorder \<Rightarrow> nat list list option \<Rightarrow> bool"
where
  "SimpleSpec_Match fl NoneSpec ray rec overflow_arena = True"
| "SimpleSpec_Match fl (RaypathSpec orbit) ray rec overflow_arena = Contains orbit rec overflow_arena"
| "SimpleSpec_Match fl (EntryExitSpec s) ray rec overflow_arena = EntryExit_Match s rec overflow_arena"
| "SimpleSpec_Match fl (DirectionSpec d radii_c) ray rec overflow_arena = fl_lt fl radii_c (Dot3 fl d (seg_d ray))"
| "SimpleSpec_Match fl (CrystalSpec crystal_id) ray rec overflow_arena = (crystal_config_id ray = crystal_id)"

text \<open>The two nested loops of \<open>ComplexSpec::Match\<close>, each with its early exit.\<close>

fun and_clause ::
  "('f, 'z) float_ops_scheme \<Rightarrow> 'f SimpleSpec list \<Rightarrow> ('f, 'q) RaySeg \<Rightarrow> RaypathRecorder \<Rightarrow> nat list list option \<Rightarrow> bool"
where
  "and_clause fl [] ray rec overflow_arena = True"
| "and_clause fl (f # fs) ray rec overflow_arena =
     (if \<not> SimpleSpec_Match fl f ray rec overflow_arena then False else and_clause fl fs ray rec overflow_arena)"

fun or_clauses ::
  "('f, 'z) float_ops_scheme \<Rightarrow> 'f SimpleSpec list list \<Rightarrow> ('f, 'q) RaySeg \<Rightarrow> RaypathRecorder \<Rightarrow> nat list list option \<Rightarrow> bool"
where
  "or_clauses fl [] ray rec overflow_arena = False"
| "or_clauses fl (c # cs) ray rec overflow_arena =
     (if and_clause fl c ray rec overflow_arena then True else or_clauses fl cs ray rec overflow_arena)"

fun summand_loop ::
  "('f, 'z) float_ops_scheme \<Rightarrow> 'f SimpleSpec list list \<Rightarrow> nat \<Rightarrow> ('f, 'q) RaySeg \<Rightarrow> RaypathRecorder \<Rightarrow>
     nat list list option \<Rightarrow> u64 \<Rightarrow> u64"
where
  "summand_loop fl [] k ray rec overflow_arena msk = msk"
| "summand_loop fl (c # cs) k ray rec overflow_arena msk =
     (if k < 64
      then summand_loop fl cs (k + 1) ray rec overflow_arena
             (if and_clause fl c ray rec overflow_arena then msk OR push_bit k 1 else msk)
      else msk)"

definition Match ::
  "('f, 'z) float_ops_scheme \<Rightarrow> 'f FilterSpec \<Rightarrow> ('f, 'q) RaySeg \<Rightarrow> RaypathRecorder \<Rightarrow> nat list list option \<Rightarrow> bool"
where
  "Match fl spec ray rec overflow_arena =
     (case fs_body spec of
        OneSpec s \<Rightarrow> SimpleSpec_Match fl s ray rec overflow_arena
      | ComplexSpec filters \<Rightarrow> or_clauses fl filters ray rec overflow_arena)"

definition Check ::
  "('f, 'z) float_ops_scheme \<Rightarrow> 'f FilterSpec \<Rightarrow> ('f, 'q) RaySeg \<Rightarrow> RaypathRecorder \<Rightarrow> nat list list option \<Rightarrow> bool"
where
  "Check fl spec ray rec overflow_arena =
     (let m = Match fl spec ray rec overflow_arena in if fs_action spec = kFilterIn then m else \<not> m)"

text \<open>The mask, and the boolean the code hands out through \<open>out_matched\<close>.\<close>

definition MatchSummandMask ::
  "('f, 'z) float_ops_scheme \<Rightarrow> 'f FilterSpec \<Rightarrow> ('f, 'q) RaySeg \<Rightarrow> RaypathRecorder \<Rightarrow> nat list list option \<Rightarrow> u64 \<times> bool"
where
  "MatchSummandMask fl spec ray rec overflow_arena =
     (case fs_body spec of
        OneSpec s \<Rightarrow> let m = SimpleSpec_Match fl s ray rec overflow_arena in (if m then 1 else 0, m)
      | ComplexSpec filters \<Rightarrow> let msk = summand_loop fl filters 0 ray rec overflow_arena 0 in (msk, msk \<noteq> 0))"

definition CheckSummandMask ::
  "('f, 'z) float_ops_scheme \<Rightarrow> 'f FilterSpec \<Rightarrow> ('f, 'q) RaySeg \<Rightarrow> RaypathRecorder \<Rightarrow> nat list list option \<Rightarrow> bool \<times> u64"
where
  "CheckSummandMask fl spec ray rec overflow_arena =
     (let (msk, matched) = MatchSummandMask fl spec ray rec overflow_arena
      in (if fs_action spec = kFilterIn then matched else \<not> matched, msk))"

record SpecArgs =
  sa_fn_period :: int
  sa_symmetry :: u8
  sa_sigma_a :: int
  sa_d_applicable :: bool
  sa_p_retained :: PRotationSet
  sa_b_applicable :: bool
  sa_geom :: GeometricSymmetry

definition DirectionSpec_new :: "('f, 'z) float_ops_scheme \<Rightarrow> 'f \<Rightarrow> 'f \<Rightarrow> 'f \<Rightarrow> 'f SimpleSpec" where
  "DirectionSpec_new fl lon_deg lat_deg radii_deg =
     (let rad = (\<lambda>deg. fl_mul fl deg (fl_deg_to_rad fl))
      in DirectionSpec
           [fl_mul fl (fl_cos fl (rad lat_deg)) (fl_cos fl (rad lon_deg)),
            fl_mul fl (fl_cos fl (rad lat_deg)) (fl_sin fl (rad lon_deg)),
            fl_sin fl (rad lat_deg)]
           (fl_cos fl (rad radii_deg)))"

fun SimpleSpecCreator :: "('f, 'z) float_ops_scheme \<Rightarrow> SpecArgs \<Rightarrow> 'f SimpleFilterParam \<Rightarrow> 'f SimpleSpec" where
  "SimpleSpecCreator fl c NoneFilterParam = NoneSpec"
| "SimpleSpecCreator fl c (RaypathFilterParam rp) =
     RaypathSpec (BuildOrbit (sa_fn_period c) rp (sa_symmetry c) (sa_sigma_a c) (sa_d_applicable c)
       (sa_p_retained c) (sa_b_applicable c) (sa_geom c))"
| "SimpleSpecCreator fl c (EntryExitFilterParam ee) =
     EntryExitSpec
       \<lparr> es_min_len = ee_min_len ee, es_max_len = ee_max_len ee, es_has_entry = ee_entry ee \<noteq> None,
         es_has_exit = ee_exit ee \<noteq> None, es_has_orbit = ee_entry ee \<noteq> None \<or> ee_exit ee \<noteq> None,
         es_orbit = BuildOrbitFromEnds (sa_fn_period c) (ee_entry ee) (ee_exit ee) (sa_symmetry c) (sa_sigma_a c)
           (sa_d_applicable c) (sa_p_retained c) (sa_b_applicable c) (sa_geom c) \<rparr>"
| "SimpleSpecCreator fl c (DirectionFilterParam lon lat radii) = DirectionSpec_new fl lon lat radii"
| "SimpleSpecCreator fl c (CrystalFilterParam crystal_id) = CrystalSpec crystal_id"

definition ComplexSpec_new ::
  "('f, 'z) float_ops_scheme \<Rightarrow> SpecArgs \<Rightarrow> (nat \<times> 'f SimpleFilterParam) list list \<Rightarrow> 'f SpecBody" where
  "ComplexSpec_new fl c all_param =
     ComplexSpec (map (map (\<lambda>and_entry. SimpleSpecCreator fl c (snd and_entry))) all_param)"

definition TopSpecCreator :: "('f, 'z) float_ops_scheme \<Rightarrow> SpecArgs \<Rightarrow> 'f FilterParam \<Rightarrow> 'f SpecBody" where
  "TopSpecCreator fl c p =
     (case p of
        SimpleParam s \<Rightarrow> OneSpec (SimpleSpecCreator fl c s)
      | ComplexParam fs \<Rightarrow> ComplexSpec_new fl c fs)"

definition Create ::
  "('f, 'z) float_ops_scheme \<Rightarrow> 'f FilterConfig \<Rightarrow> int \<Rightarrow> GeometricSymmetry \<Rightarrow> 'f AxisDistribution \<Rightarrow> 'f FilterSpec"
where
  "Create fl config fn_period crystal_geom axis_dist =
     (let d_params = DeriveDSymmetryParams fl axis_dist;
          d_applicable = ds_d_applicable d_params;
          sigma_a = ds_sigma_a d_params;
          gating = DeriveSymmetryGating fl kLabel crystal_geom axis_dist
      in \<lparr> fs_body = TopSpecCreator fl
             \<lparr> sa_fn_period = fn_period, sa_symmetry = fc_symmetry config, sa_sigma_a = sigma_a,
               sa_d_applicable = d_applicable, sa_p_retained = sg_p_retained gating,
               sa_b_applicable = sg_b_applicable gating, sa_geom = sg_geom gating \<rparr> (fc_param config),
           fs_action = fc_action config \<rparr>)"

section \<open>The orbit test\<close>

text \<open>The hits a recorder stands for, given its arena.\<close>

definition hits_of :: "nat list list option \<Rightarrow> RaypathRecorder \<Rightarrow> nat list" where
  "hits_of overflow_arena rec = take (rec_size rec) (hit_bytes overflow_arena rec)"

definition readable :: "nat list list option \<Rightarrow> RaypathRecorder \<Rightarrow> bool" where
  "readable overflow_arena rec \<longleftrightarrow> rec_size rec \<le> length (hit_bytes overflow_arena rec)"

lemma hits_length: "readable ar rec \<Longrightarrow> length (hits_of ar rec) = rec_size rec"
  by (simp add: hits_of_def readable_def)

text \<open>The recorder of a ray buffer is read through the buffer's arena.\<close>

lemma hits_of_buffer: "i < length (rb_recorders b) \<Longrightarrow>
    rb_overflow_arena b \<noteq> None \<or> \<not> HasOverflow (rb_recorders b ! i) \<Longrightarrow>
    hits_of (rb_overflow_arena b) (rb_recorders b ! i) = path_of b i"
  by (auto simp: hits_of_def hit_bytes_def path_of_def RecorderAt_def RecorderDataPtr_def Let_def)

lemma legal_small: "legal x \<Longrightarrow> x < 250"
  by (auto dest: legal_le)

lemma legal_path_small: "legal_path xs \<Longrightarrow> list_all (\<lambda>x. x < 250) xs"
  by (auto simp: list_all_iff legal_small)

lemma canonical_bytes:
  "inline_ok (ro_canonical (BuildOrbit per rp sy a d p b g))"
  "inline_bytes (ro_canonical (BuildOrbit per rp sy a d p b g))
     = take kInlineCap (map (\<lambda>f. f mod 256) (ReduceRaypathByPeriod rp sy a d p b per g))"
  using foldl_push [OF empty_recorder_ok(1), of "ReduceRaypathByPeriod rp sy a d p b per g"]
  by (simp_all add: BuildOrbit_def Let_def)

lemma expand_length: "raypath_dom p xs \<Longrightarrow> ys \<in> set (ExpandRaypathByPeriod xs sy a d p b 6 g) \<Longrightarrow> length ys = length xs"
proof -
  assume "raypath_dom p xs" and ys: "ys \<in> set (ExpandRaypathByPeriod xs sy a d p b 6 g)"
  then have "legal_path xs" "is_subgroup p" by (auto simp: raypath_dom_def)
  from ys [unfolded expand_set [OF this]] show ?thesis
    by (auto simp: active_orbit_def full_orbit_def dihedral_orbit_def rot_orbit_def b_image_def d_image_def
        split: if_splits)
qed

lemma reduce_legal:
  assumes "raypath_dom p xs"
  shows "legal_path (ReduceRaypathByPeriod xs sy a d p b 6 g)"
    and "length (ReduceRaypathByPeriod xs sy a d p b 6 g) = length xs"
    and "map (\<lambda>f. f mod 256) (ReduceRaypathByPeriod xs sy a d p b 6 g) = ReduceRaypathByPeriod xs sy a d p b 6 g"
proof -
  let ?v = "ReduceRaypathByPeriod xs sy a d p b 6 g"
  have v: "?v \<in> set (ExpandRaypathByPeriod xs sy a d p b 6 g)" by (rule raypath.reduce_in [OF assms(1)])
  have "raypath_dom p ?v" by (rule raypath.expand_dom [OF assms(1) v])
  then show legal: "legal_path ?v" by (simp add: raypath_dom_def)
  show "length ?v = length xs" by (rule expand_length [OF assms(1) v])
  show "map (\<lambda>f. f mod 256) ?v = ?v"
    using legal by (rule map_id_all) (auto dest: legal_le)
qed

text \<open>
  The test of the per-ray path, written out: the canonical bytes are the first fifteen of the reduced
  configured path.
\<close>

lemma Contains_eq:
  assumes "raypath_dom p rp" and "raypath_dom p (hits_of ar rec)" and "readable ar rec"
  shows "Contains (BuildOrbit 6 rp sy a d p b g) rec ar \<longleftrightarrow>
    ReduceRaypathByPeriod (hits_of ar rec) sy a d p b 6 g
      = take kInlineCap (ReduceRaypathByPeriod rp sy a d p b 6 g)"
proof -
  let ?o = "BuildOrbit 6 rp sy a d p b g"
  let ?v = "ReduceRaypathByPeriod rp sy a d p b 6 g"
  let ?h = "hits_of ar rec"
  let ?w = "ReduceRaypathByPeriod ?h sy a d p b 6 g"
  note can = canonical_bytes [of 6 rp sy a d p b g, unfolded reduce_legal(3) [OF assms(1)]]
  have n: "rec_size (ro_canonical ?o) = length (take kInlineCap ?v)"
    using inline_bytes_length [OF can(1)] can(2) by simp
  have data: "take (rec_size (ro_canonical ?o)) (rec_data (ro_canonical ?o)) = take kInlineCap ?v"
    using can by (simp add: inline_bytes_def inline_ok_def min_absorb1)
  have len: "length ?w = rec_size rec" using reduce_legal(2) [OF assms(2)] hits_length [OF assms(3)] by simp
  have red: "ReduceBuffer ?h sy a d p b 6 g = ?w"
    using assms(2) by (intro ReduceBuffer_eq legal_path_small) (simp add: raypath_dom_def)
  have fields: "ro_symmetry ?o = sy" "ro_sigma_a ?o = a" "ro_d_applicable ?o = d" "ro_p_retained ?o = p"
    "ro_b_applicable ?o = b" "ro_fn_period ?o = 6" "ro_geom_symmetry ?o = g"
    by (simp_all add: BuildOrbit_def Let_def)
  have none: "sy = kSymNone \<Longrightarrow> ?w = ?h" by (simp add: ReduceRaypathByPeriod_def)
  show ?thesis
  proof (cases "rec_size rec = rec_size (ro_canonical ?o)")
    case True
    then have eq: "take (rec_size rec) (rec_data (ro_canonical ?o)) = take kInlineCap ?v" using data by simp
    show ?thesis
      unfolding Contains_def Let_def fields eq hits_of_def [symmetric] red
      using True none by auto
  next
    case False
    with len n have "?w \<noteq> take kInlineCap ?v" by metis
    with False show ?thesis by (simp add: Contains_def)
  qed
qed

lemma Contains_iff:
  assumes "raypath_dom p rp" and "raypath_dom p (hits_of ar rec)" and "readable ar rec" and "length rp \<le> kInlineCap"
  shows "Contains (BuildOrbit 6 rp sy a d p b g) rec ar \<longleftrightarrow>
    hits_of ar rec \<in> set (ExpandRaypathByPeriod rp sy a d p b 6 g)"
  using Contains_eq [OF assms(1-3), of sy a d b g] raypath.reduce_eq_iff [OF assms(1,2), of sy a d b g]
    reduce_legal(2) [OF assms(1), of sy a d b g] assms(4)
  by simp

text \<open>A configured path that does not fit the recorder matches no path of its own length.\<close>

lemma Contains_long:
  assumes "raypath_dom p rp" and "raypath_dom p (hits_of ar rec)" and "readable ar rec" and "kInlineCap < length rp"
    and "Contains (BuildOrbit 6 rp sy a d p b g) rec ar"
  shows "length (hits_of ar rec) = kInlineCap"
  using Contains_eq [OF assms(1-3), of sy a d b g] assms(4,5) reduce_legal(2) [OF assms(1), of sy a d b g]
    reduce_legal(2) [OF assms(2), of sy a d b g]
  by (metis length_take less_imp_le min_absorb2)

section \<open>What a filter means\<close>

text \<open>
  The abstract filter: a path matches a configured path when it lies in its label class, the orbit
  under the requested symmetries of the full hexagonal group (the mirror being the ensemble's).
\<close>

definition label_class :: "('f, 'z) float_ops_scheme \<Rightarrow> u8 \<Rightarrow> 'f AxisDistribution \<Rightarrow> nat list \<Rightarrow> nat list set" where
  "label_class fl sy ax xs =
     set (ExpandRaypathByPeriod xs sy (ds_sigma_a (DeriveDSymmetryParams fl ax))
       (ds_d_applicable (DeriveDSymmetryParams fl ax)) PRotationSet_Full True 6 kFullHexagonalSymmetry)"

definition path_ends :: "bool \<Rightarrow> bool \<Rightarrow> nat list \<Rightarrow> nat list" where
  "path_ends entry exit h = (if entry then [hd h] else []) @ (if exit then [last h] else [])"

definition option_list :: "'a option \<Rightarrow> 'a list" where
  "option_list x = (case x of None \<Rightarrow> [] | Some a \<Rightarrow> [a])"

fun predicate_holds ::
  "('f, 'z) float_ops_scheme \<Rightarrow> u8 \<Rightarrow> 'f AxisDistribution \<Rightarrow> 'f SimpleFilterParam \<Rightarrow> ('f, 'q) RaySeg \<Rightarrow> nat list \<Rightarrow> bool"
where
  "predicate_holds fl sy ax NoneFilterParam ray h \<longleftrightarrow> True"
| "predicate_holds fl sy ax (RaypathFilterParam rp) ray h \<longleftrightarrow> h \<in> label_class fl sy ax rp"
| "predicate_holds fl sy ax (EntryExitFilterParam ee) ray h \<longleftrightarrow>
     h \<noteq> [] \<and> ee_min_len ee \<le> length h \<and> (\<forall>m\<in>set_option (ee_max_len ee). length h \<le> m) \<and>
     (option_list (ee_entry ee) @ option_list (ee_exit ee) \<noteq> [] \<longrightarrow>
        path_ends (ee_entry ee \<noteq> None) (ee_exit ee \<noteq> None) h
          \<in> label_class fl sy ax (option_list (ee_entry ee) @ option_list (ee_exit ee)))"
| "predicate_holds fl sy ax (DirectionFilterParam lon lat radii) ray h \<longleftrightarrow>
     SimpleSpec_Match fl (DirectionSpec_new fl lon lat radii) ray empty_recorder None"
| "predicate_holds fl sy ax (CrystalFilterParam i) ray h \<longleftrightarrow> crystal_config_id ray = i"

fun filter_holds ::
  "('f, 'z) float_ops_scheme \<Rightarrow> u8 \<Rightarrow> 'f AxisDistribution \<Rightarrow> 'f FilterParam \<Rightarrow> ('f, 'q) RaySeg \<Rightarrow> nat list \<Rightarrow> bool"
where
  "filter_holds fl sy ax (SimpleParam p) ray h = predicate_holds fl sy ax p ray h"
| "filter_holds fl sy ax (ComplexParam fs) ray h =
     (\<exists>clause\<in>set fs. \<forall>term\<in>set clause. predicate_holds fl sy ax (snd term) ray h)"

text \<open>The predicates the tests are exact for: legal faces, and a path that fits a recorder.\<close>

fun wf_predicate :: "'f SimpleFilterParam \<Rightarrow> bool" where
  "wf_predicate (RaypathFilterParam rp) \<longleftrightarrow> legal_path rp \<and> length rp \<le> kInlineCap"
| "wf_predicate (EntryExitFilterParam ee) \<longleftrightarrow> legal_path (option_list (ee_entry ee) @ option_list (ee_exit ee))"
| "wf_predicate _ \<longleftrightarrow> True"

fun wf_param :: "'f FilterParam \<Rightarrow> bool" where
  "wf_param (SimpleParam p) = wf_predicate p"
| "wf_param (ComplexParam fs) = list_all (list_all (\<lambda>term. wf_predicate (snd term))) fs"

definition label_args :: "('f, 'z) float_ops_scheme \<Rightarrow> u8 \<Rightarrow> 'f AxisDistribution \<Rightarrow> SpecArgs" where
  "label_args fl sy ax =
     \<lparr> sa_fn_period = 6, sa_symmetry = sy, sa_sigma_a = ds_sigma_a (DeriveDSymmetryParams fl ax),
       sa_d_applicable = ds_d_applicable (DeriveDSymmetryParams fl ax), sa_p_retained = PRotationSet_Full,
       sa_b_applicable = True, sa_geom = kFullHexagonalSymmetry \<rparr>"

lemma Create_body: "fs_body (Create fl cfg 6 geom ax) = TopSpecCreator fl (label_args fl (fc_symmetry cfg) ax) (fc_param cfg)"
  by (simp add: Create_def Let_def label_args_def)

lemma Create_action: "fs_action (Create fl cfg per geom ax) = fc_action cfg"
  by (simp add: Create_def Let_def)

lemma raypath_dom_full [simp]: "raypath_dom PRotationSet_Full xs = legal_path xs"
  by (simp add: raypath_dom_def)

lemma ends_recorder:
  assumes "ee = foldl recorder_push empty_recorder fs" and "length fs \<le> kInlineCap" and "legal_path fs"
  shows "readable None ee" "hits_of None ee = fs"
proof -
  have ok: "inline_ok ee" and bytes: "inline_bytes ee = take kInlineCap (map (\<lambda>f. f mod 256) fs)"
    using foldl_push [OF empty_recorder_ok(1), of fs] assms(1) by simp_all
  have "map (\<lambda>f. f mod 256) fs = fs" using assms(3) by (rule map_id_all) (auto dest: legal_le)
  with bytes assms(2) have "inline_bytes ee = fs" by simp
  with ok show "readable None ee" "hits_of None ee = fs"
    by (simp_all add: readable_def hits_of_def hit_bytes_def inline_ok_def inline_bytes_def min_absorb1)
qed

lemma EntryExit_eq:
  assumes "wf_predicate (EntryExitFilterParam ee)" and "legal_path (hits_of ar rec)" and "readable ar rec"
  shows "SimpleSpec_Match fl (SimpleSpecCreator fl (label_args fl sy ax) (EntryExitFilterParam ee)) ray rec ar
    \<longleftrightarrow> predicate_holds fl sy ax (EntryExitFilterParam ee) ray (hits_of ar rec)"
proof -
  let ?h = "hits_of ar rec" and ?e = "ee_entry ee \<noteq> None" and ?x = "ee_exit ee \<noteq> None"
  let ?rp = "option_list (ee_entry ee) @ option_list (ee_exit ee)"
  let ?ends = "path_ends ?e ?x ?h"
  let ?D = "DeriveDSymmetryParams fl ax"
  let ?orb = "BuildOrbit 6 ?rp sy (ds_sigma_a ?D) (ds_d_applicable ?D) PRotationSet_Full True kFullHexagonalSymmetry"
  have len: "length ?h = rec_size rec" by (rule hits_length [OF assms(3)])
  have "Contains ?orb (foldl recorder_push empty_recorder ?ends) None \<longleftrightarrow> ?ends \<in> label_class fl sy ax ?rp"
    if "?h \<noteq> []"
  proof -
    have "legal (hd ?h)" "legal (last ?h)" using that assms(2) by (auto simp: list_all_iff)
    then have ends: "legal_path ?ends" "length ?ends \<le> kInlineCap"
      by (auto simp: path_ends_def kInlineCap_def)
    have "length ?rp \<le> kInlineCap" by (auto simp: option_list_def kInlineCap_def split: option.splits)
    with Contains_iff [of PRotationSet_Full ?rp None "foldl recorder_push empty_recorder ?ends" sy "ds_sigma_a ?D"]
      ends_recorder [OF refl ends(2,1)] assms(1) ends(1)
    show ?thesis by (simp add: label_class_def)
  qed
  moreover have "hit_bytes ar rec ! 0 = hd ?h \<and> hit_bytes ar rec ! (rec_size rec - 1) = last ?h" if "?h \<noteq> []"
  proof -
    have "rec_size rec > 0" using that len by (metis length_greater_0_conv)
    with that len show ?thesis by (simp add: hd_conv_nth last_conv_nth) (simp add: hits_of_def)
  qed
  moreover have "BuildOrbitFromEnds 6 (ee_entry ee) (ee_exit ee) sy (ds_sigma_a ?D) (ds_d_applicable ?D)
      PRotationSet_Full True kFullHexagonalSymmetry = (if ?rp = [] then RaypathOrbit_default else ?orb)"
    by (auto simp: BuildOrbitFromEnds_def option_list_def split: option.splits)
  moreover have "?rp = [] \<longleftrightarrow> \<not> ?e \<and> \<not> ?x" by (auto simp: option_list_def split: option.splits)
  moreover have "?h \<noteq> [] \<longleftrightarrow> rec_size rec \<noteq> 0" using len by (metis length_0_conv)
  ultimately show ?thesis
    using len
    by (cases "?h = []"; cases ?e; cases ?x)
      (auto simp: EntryExit_Match_def Let_def label_args_def path_ends_def split: option.splits)
qed

lemma predicate_refines:
  assumes "wf_predicate p" and "legal_path (hits_of ar rec)" and "readable ar rec"
  shows "SimpleSpec_Match fl (SimpleSpecCreator fl (label_args fl sy ax) p) ray rec ar
    \<longleftrightarrow> predicate_holds fl sy ax p ray (hits_of ar rec)"
proof (cases p)
  case (RaypathFilterParam rp)
  with Contains_iff [of PRotationSet_Full rp ar rec] assms show ?thesis
    by (simp add: label_class_def label_args_def)
next
  case (EntryExitFilterParam ee)
  with EntryExit_eq assms show ?thesis by blast
qed (simp_all add: DirectionSpec_new_def Let_def)

lemma and_clause_iff: "and_clause fl c ray rec ar \<longleftrightarrow> (\<forall>f\<in>set c. SimpleSpec_Match fl f ray rec ar)"
  by (induction c) simp_all

lemma or_clauses_iff: "or_clauses fl cs ray rec ar \<longleftrightarrow> (\<exists>c\<in>set cs. and_clause fl c ray rec ar)"
  by (induction cs) simp_all

lemma Match_refines:
  assumes "wf_param (fc_param cfg)" and "legal_path (hits_of ar rec)" and "readable ar rec"
  shows "Match fl (Create fl cfg 6 geom ax) ray rec ar
    \<longleftrightarrow> filter_holds fl (fc_symmetry cfg) ax (fc_param cfg) ray (hits_of ar rec)"
proof (cases "fc_param cfg")
  case (SimpleParam p)
  then show ?thesis
    using predicate_refines [OF _ assms(2,3)] assms(1) by (simp add: Match_def Create_body TopSpecCreator_def)
next
  case (ComplexParam fs)
  then have "\<And>c t. c \<in> set fs \<Longrightarrow> t \<in> set c \<Longrightarrow> wf_predicate (snd t)" using assms(1) by (simp add: list_all_iff)
  then have "\<And>c t. c \<in> set fs \<Longrightarrow> t \<in> set c \<Longrightarrow>
      SimpleSpec_Match fl (SimpleSpecCreator fl (label_args fl (fc_symmetry cfg) ax) (snd t)) ray rec ar
      \<longleftrightarrow> predicate_holds fl (fc_symmetry cfg) ax (snd t) ray (hits_of ar rec)"
    using predicate_refines [OF _ assms(2,3)] by blast
  then show ?thesis
    using ComplexParam
    by (simp add: Match_def Create_body TopSpecCreator_def ComplexSpec_new_def or_clauses_iff and_clause_iff
        cong: bex_cong ball_cong)
qed

section \<open>The summand mask\<close>

lemma bit_summand_loop:
  "bit (summand_loop fl cs k ray rec ar msk) n \<longleftrightarrow>
     bit msk n \<or> (k \<le> n \<and> n < 64 \<and> n - k < length cs \<and> and_clause fl (cs ! (n - k)) ray rec ar)"
proof (induction cs arbitrary: k msk)
  case (Cons c cs)
  show ?case
  proof (cases "k < 64")
    case True
    have "bit (if and_clause fl c ray rec ar then msk OR push_bit k 1 else msk) n \<longleftrightarrow>
        bit msk n \<or> (n = k \<and> and_clause fl c ray rec ar)"
      using True by (auto simp: bit_or_iff bit_exp_iff)
    note IH = Cons.IH [of "k + 1" "if and_clause fl c ray rec ar then msk OR push_bit k 1 else msk", unfolded this]
    consider "n < k" | "n = k" | m where "n = Suc (k + m)"
      using less_imp_Suc_add [of k n] by (cases n k rule: linorder_cases) auto
    then show ?thesis using True IH by cases simp_all
  next
    case False
    then have "\<not> (k \<le> n \<and> n < 64)" by simp
    with False show ?thesis by auto
  qed
qed simp

text \<open>Bit \<open>k\<close> says whether summand \<open>k\<close> matched; up to 64 summands the boolean is that of \<open>Match\<close>.\<close>

lemma summand_bit:
  "fs_body spec = ComplexSpec cs \<Longrightarrow> bit (fst (MatchSummandMask fl spec ray rec ar)) k \<longleftrightarrow>
     k < 64 \<and> k < length cs \<and> and_clause fl (cs ! k) ray rec ar"
  by (auto simp: MatchSummandMask_def Let_def bit_summand_loop)

lemma word_nonzero_iff: "(w :: u64) \<noteq> 0 \<longleftrightarrow> (\<exists>n<64. bit w n)"
  by (auto simp: bit_eq_iff)

lemma summand_matched:
  assumes "fs_body spec = ComplexSpec cs"
  shows "snd (MatchSummandMask fl spec ray rec ar) \<longleftrightarrow> (\<exists>c\<in>set (take 64 cs). and_clause fl c ray rec ar)"
proof -
  have "snd (MatchSummandMask fl spec ray rec ar) \<longleftrightarrow> fst (MatchSummandMask fl spec ray rec ar) \<noteq> 0"
    using assms by (simp add: MatchSummandMask_def Let_def)
  also have "\<dots> \<longleftrightarrow> (\<exists>k. k < 64 \<and> k < length cs \<and> and_clause fl (cs ! k) ray rec ar)"
    by (auto simp: word_nonzero_iff summand_bit [OF assms])
  also have "\<dots> \<longleftrightarrow> (\<exists>c\<in>set (take 64 cs). and_clause fl c ray rec ar)"
    unfolding Bex_def in_set_conv_nth length_take min_less_iff_conj by (metis nth_take)
  finally show ?thesis .
qed

fun summand_count :: "'f SpecBody \<Rightarrow> nat" where
  "summand_count (OneSpec s) = 1"
| "summand_count (ComplexSpec cs) = length cs"

lemma CheckSummandMask_Check:
  "summand_count (fs_body spec) \<le> 64 \<Longrightarrow>
     fst (CheckSummandMask fl spec ray rec ar) = Check fl spec ray rec ar"
proof (cases "fs_body spec")
  case (ComplexSpec cs)
  assume "summand_count (fs_body spec) \<le> 64"
  with ComplexSpec summand_matched [OF ComplexSpec, of fl ray rec ar] show ?thesis
    by (simp add: CheckSummandMask_def Check_def Match_def Let_def or_clauses_iff split_def)
qed (simp add: CheckSummandMask_def Check_def Match_def MatchSummandMask_def Let_def)

end
