(* ===== verification/Color_Spec.thy ===== *)
theory Color_Spec
  imports Color_Tables Filter_Spec
begin

text \<open>
  The color pass of the emit gate: the color predicates of one placement as synthetic filters, one per
  symmetry value (\<open>src/core/filter_spec.cpp\<close>: \<open>BuildColorSpecGroups\<close>), and the loop that turns their
  summand masks into component bits (\<open>src/core/simulator.cpp\<close>, inside \<open>CollectData\<close>).
\<close>

section \<open>The code\<close>

record 'f ColorSpecGroup =
  csg_spec :: "'f FilterSpec"
  csg_bits :: "nat list"

definition group_push ::
  "'f ColorGatePlacement \<Rightarrow> nat list \<Rightarrow> nat \<Rightarrow> (nat \<times> 'f SimpleFilterParam) list list list \<times> nat list list \<Rightarrow>
     (nat \<times> 'f SimpleFilterParam) list list list \<times> nat list list"
where
  "group_push placement group_of k st =
     (let (cfps, bits) = st; gi = group_of ! k
      in (cfps[gi := cfps ! gi @ [[(kInvalidId, gp_predicates placement ! k)]]],
          bits[gi := bits ! gi @ [gp_bits placement ! k]]))"

definition BuildColorSpecGroups ::
  "('f, 'z) float_ops_scheme \<Rightarrow> 'f ColorGatePlacement \<Rightarrow> int \<Rightarrow> GeometricSymmetry \<Rightarrow> 'f AxisDistribution \<Rightarrow>
     'f ColorSpecGroup list"
where
  "BuildColorSpecGroups fl placement fn_period crystal_geom axis_dist =
     (if gp_predicates placement = [] then []
      else
        let n = length (gp_predicates placement);
            (group_symmetry, group_of) = GroupPlacementBySymmetry placement;
            group_count = length group_symmetry;
            (cfps, bits) = fold (group_push placement group_of) [0..<n]
              (replicate group_count [], replicate group_count [])
        in map (\<lambda>gi. \<lparr> csg_spec = Create fl
               \<lparr> fc_id = kInvalidId, fc_symmetry = group_symmetry ! gi, fc_action = kFilterIn,
                 fc_param = ComplexParam (cfps ! gi) \<rparr> fn_period crystal_geom axis_dist,
               csg_bits = bits ! gi \<rparr>) [0..<group_count])"

definition summand_bits :: "u64 \<Rightarrow> nat list \<Rightarrow> u64 \<Rightarrow> u64" where
  "summand_bits summand_mask cb produced =
     fold (\<lambda>k produced.
        if summand_mask AND push_bit k 1 \<noteq> 0 then
          let bit = cb ! k in if bit < kMaxBits then produced OR push_bit bit 1 else produced
        else produced) [0..<min (length cb) 64] produced"

definition produced_components ::
  "('f, 'z) float_ops_scheme \<Rightarrow> 'f ColorSpecGroup list \<Rightarrow> ('f, 'q) RaySeg \<Rightarrow> RaypathRecorder \<Rightarrow> nat list list option \<Rightarrow> u64"
where
  "produced_components fl color_groups ray rec overflow_arena =
     fold (\<lambda>g produced.
        let summand_mask = snd (CheckSummandMask fl (csg_spec g) ray rec overflow_arena)
        in if summand_mask = 0 then produced else summand_bits summand_mask (csg_bits g) produced)
       color_groups 0"

section \<open>What the groups hold\<close>

text \<open>Group \<open>g\<close> holds the placement's predicates of its symmetry, in placement order.\<close>

definition members :: "nat list \<Rightarrow> nat \<Rightarrow> nat \<Rightarrow> nat list" where
  "members group_of n g = filter (\<lambda>k. group_of ! k = g) [0..<n]"

lemma group_push_fold:
  assumes "\<And>k. k \<in> set ks \<Longrightarrow> group_of ! k < length cfps" and "length bits = length cfps" and "g < length cfps"
  shows "fst (fold (group_push p group_of) ks (cfps, bits)) ! g
      = cfps ! g @ map (\<lambda>k. [(kInvalidId, gp_predicates p ! k)]) (filter (\<lambda>k. group_of ! k = g) ks) \<and>
    snd (fold (group_push p group_of) ks (cfps, bits)) ! g
      = bits ! g @ map (\<lambda>k. gp_bits p ! k) (filter (\<lambda>k. group_of ! k = g) ks)"
  using assms
proof (induction ks arbitrary: cfps bits)
  case (Cons k ks)
  let ?gi = "group_of ! k"
  let ?c = "cfps[?gi := cfps ! ?gi @ [[(kInvalidId, gp_predicates p ! k)]]]"
  let ?b = "bits[?gi := bits ! ?gi @ [gp_bits p ! k]]"
  have "fold (group_push p group_of) (k # ks) (cfps, bits) = fold (group_push p group_of) ks (?c, ?b)"
    by (simp add: group_push_def Let_def)
  moreover have "\<And>j. j \<in> set ks \<Longrightarrow> group_of ! j < length ?c" using Cons.prems(1) by simp
  ultimately show ?case
    using Cons.IH [of ?c ?b] Cons.prems by (auto simp: nth_list_update)
qed simp

definition placement_ok :: "'f ColorGatePlacement \<Rightarrow> bool" where
  "placement_ok p \<longleftrightarrow> length (gp_bits p) = length (gp_predicates p) \<and>
     length (gp_symmetries p) = length (gp_predicates p) \<and>
     (\<forall>k<length (gp_bits p). gp_bits p ! k < kMaxBits \<longrightarrow> k < 64)"

lemma BuildColorSpecGroups_eq:
  assumes "placement_ok p" and "GroupPlacementBySymmetry p = (gs, gof)"
  shows "BuildColorSpecGroups fl p per geom ax = map (\<lambda>g.
      \<lparr> csg_spec = Create fl \<lparr> fc_id = kInvalidId, fc_symmetry = gs ! g, fc_action = kFilterIn,
          fc_param = ComplexParam (map (\<lambda>k. [(kInvalidId, gp_predicates p ! k)]) (members gof (length (gp_predicates p)) g)) \<rparr>
          per geom ax,
        csg_bits = map (\<lambda>k. gp_bits p ! k) (members gof (length (gp_predicates p)) g) \<rparr>) [0..<length gs]"
proof -
  let ?n = "length (gp_predicates p)"
  have ok: "group_ok gs gof (gp_symmetries p)"
    using assms by (intro GroupPlacement_spec) (simp_all add: placement_ok_def)
  then have lt: "\<And>k. k \<in> set [0..<?n] \<Longrightarrow> gof ! k < length (replicate (length gs) [])"
    using assms(1) by (simp add: group_ok_def placement_ok_def)
  show ?thesis
  proof (cases "gp_predicates p = []")
    case True
    then have "gs = []" using ok assms(1) by (simp add: group_ok_def placement_ok_def)
    with True show ?thesis by (simp add: BuildColorSpecGroups_def)
  next
    case False
    then show ?thesis
      using group_push_fold [of "[0..<?n]" gof "replicate (length gs) []" "replicate (length gs) []" _ p] lt assms(2)
      by (auto simp: BuildColorSpecGroups_def Let_def members_def split_def)
  qed
qed

lemma and_push_bit: "(w :: u64) AND push_bit k 1 \<noteq> 0 \<longleftrightarrow> bit w k"
  by (simp add: and_exp_eq_0_iff_not_bit)

lemma summand_bits_iff:
  assumes "b < 64"
  shows "bit (summand_bits m cb acc) b \<longleftrightarrow> bit acc b \<or> (\<exists>k<min (length cb) 64. bit m k \<and> cb ! k = b)"
proof -
  define step where "step k produced = (if m AND push_bit k 1 \<noteq> 0 then
      let bit = cb ! k in if bit < kMaxBits then produced OR push_bit bit 1 else produced else produced)"
    for k and produced :: u64
  have one: "bit (step k acc) b \<longleftrightarrow> bit acc b \<or> (bit m k \<and> cb ! k = b)" for k acc
    using assms by (auto simp: step_def and_push_bit [unfolded push_bit_of_1] Let_def bit_or_iff bit_exp_iff kMaxBits_def)
  have "bit (fold step ks acc) b \<longleftrightarrow> bit acc b \<or> (\<exists>k\<in>set ks. bit m k \<and> cb ! k = b)" for ks
    by (induction ks arbitrary: acc) (auto simp: one)
  from this [of "[0..<min (length cb) 64]"] show ?thesis
    unfolding summand_bits_def step_def by auto
qed

lemma summand_bits_0: "summand_bits 0 cb acc = acc"
proof -
  have "fold (\<lambda>k produced. if (0::u64) AND push_bit k 1 \<noteq> 0 then
      let bit = cb ! k in if bit < kMaxBits then produced OR push_bit bit 1 else produced else produced) ks acc = acc" for ks
    by (induction ks) auto
  then show ?thesis by (simp add: summand_bits_def)
qed

lemma produced_iff:
  assumes "b < 64"
  shows "bit (produced_components fl gs ray rec ar) b \<longleftrightarrow>
    (\<exists>g\<in>set gs. \<exists>k<min (length (csg_bits g)) 64.
       bit (fst (MatchSummandMask fl (csg_spec g) ray rec ar)) k \<and> csg_bits g ! k = b)"
proof -
  have step: "(let m = snd (CheckSummandMask fl (csg_spec g) ray rec ar)
      in if m = 0 then acc else summand_bits m (csg_bits g) acc)
    = summand_bits (fst (MatchSummandMask fl (csg_spec g) ray rec ar)) (csg_bits g) acc" for g acc
    by (auto simp: CheckSummandMask_def Let_def split_def summand_bits_0)
  have "bit (fold (\<lambda>g. summand_bits (fst (MatchSummandMask fl (csg_spec g) ray rec ar)) (csg_bits g)) gs acc) b \<longleftrightarrow>
      bit acc b \<or> (\<exists>g\<in>set gs. \<exists>k<min (length (csg_bits g)) 64.
       bit (fst (MatchSummandMask fl (csg_spec g) ray rec ar)) k \<and> csg_bits g ! k = b)" for acc
    by (induction gs arbitrary: acc) (auto simp: summand_bits_iff [OF assms])
  then show ?thesis unfolding produced_components_def step by simp
qed

section \<open>The color pass tags exactly the matching predicates\<close>

text \<open>A member's place in its group is not after its place in the placement.\<close>

lemma members_nth:
  "j < length (members gof n g) \<Longrightarrow> j \<le> members gof n g ! j \<and> members gof n g ! j < n \<and> gof ! (members gof n g ! j) = g"
proof -
  assume j: "j < length (members gof n g)"
  then have "members gof n g ! j \<in> set (members gof n g)" by simp
  then have "members gof n g ! j < n \<and> gof ! (members gof n g ! j) = g" by (simp add: members_def)
  moreover have "sorted_wrt (<) (members gof n g)" by (simp add: members_def sorted_wrt_filter)
  then have "j \<le> members gof n g ! j"
    using j by (rule sorted_wrt_less_idx)
  ultimately show ?thesis by simp
qed

lemma members_mem: "k < n \<Longrightarrow> \<exists>j<length (members gof n (gof ! k)). members gof n (gof ! k) ! j = k"
proof -
  assume "k < n"
  then have "k \<in> set (members gof n (gof ! k))" by (simp add: members_def)
  then show ?thesis by (simp add: in_set_conv_nth)
qed

lemma bex_upt: "(\<exists>g\<in>set (map f [0..<n]). P g) \<longleftrightarrow> (\<exists>i<n. P (f i))"
  by auto

lemma ex_summand:
  "(\<exists>k<min (length (map f m)) 64. (k < 64 \<and> k < length m \<and> H k) \<and> map f m ! k = b) \<longleftrightarrow>
     (\<exists>j<length m. j < 64 \<and> f (m ! j) = b \<and> H j)"
proof -
  have "k < min (length (map f m)) 64 \<and> (k < 64 \<and> k < length m \<and> H k) \<and> map f m ! k = b \<longleftrightarrow>
      k < length m \<and> k < 64 \<and> f (m ! k) = b \<and> H k" for k
    by auto
  then show ?thesis by simp
qed

lemma produced_components_spec:
  assumes p: "placement_ok p" and wf: "list_all wf_predicate (gp_predicates p)"
    and hits: "legal_path (hits_of ar rec)" "readable ar rec" and b: "b < 64"
  shows "bit (produced_components fl (BuildColorSpecGroups fl p 6 geom ax) ray rec ar) b \<longleftrightarrow>
    (\<exists>k<length (gp_predicates p). gp_bits p ! k = b \<and>
       predicate_holds fl (gp_symmetries p ! k) ax (gp_predicates p ! k) ray (hits_of ar rec))"
proof -
  let ?n = "length (gp_predicates p)"
  obtain gs gof where g: "GroupPlacementBySymmetry p = (gs, gof)" by (cases "GroupPlacementBySymmetry p")
  have gok: "group_ok gs gof (gp_symmetries p)"
    using p g by (intro GroupPlacement_spec) (simp_all add: placement_ok_def)
  let ?m = "members gof ?n"
  let ?body = "\<lambda>gi. ComplexSpec (map (\<lambda>k. [SimpleSpecCreator fl (label_args fl (gs ! gi) ax) (gp_predicates p ! k)]) (?m gi))"
  let ?spec = "\<lambda>gi. Create fl \<lparr> fc_id = kInvalidId, fc_symmetry = gs ! gi, fc_action = kFilterIn,
          fc_param = ComplexParam (map (\<lambda>k. [(kInvalidId, gp_predicates p ! k)]) (?m gi)) \<rparr> 6 geom ax"
  have body: "fs_body (?spec gi) = ?body gi" for gi
    by (simp add: Create_body TopSpecCreator_def ComplexSpec_new_def)
  have summand: "bit (fst (MatchSummandMask fl (?spec gi) ray rec ar)) j \<longleftrightarrow> j < 64 \<and> j < length (?m gi) \<and>
      predicate_holds fl (gs ! gi) ax (gp_predicates p ! (?m gi ! j)) ray (hits_of ar rec)" for gi j
  proof (cases "j < length (?m gi)")
    case True
    with members_nth [OF True] wf have "wf_predicate (gp_predicates p ! (?m gi ! j))" by (simp add: list_all_length)
    with True show ?thesis
      using predicate_refines [OF _ hits, where fl = fl and ray = ray] by (simp add: summand_bit [OF body] and_clause_iff)
  qed (simp add: summand_bit [OF body])
  have "bit (produced_components fl (BuildColorSpecGroups fl p 6 geom ax) ray rec ar) b \<longleftrightarrow>
      (\<exists>gi<length gs. \<exists>j<length (?m gi). j < 64 \<and> gp_bits p ! (?m gi ! j) = b \<and>
         predicate_holds fl (gs ! gi) ax (gp_predicates p ! (?m gi ! j)) ray (hits_of ar rec))"
    unfolding produced_iff [OF b] BuildColorSpecGroups_eq [OF p g] bex_upt
    by (simp only: ColorSpecGroup.simps summand ex_summand)
  also have "\<dots> \<longleftrightarrow> (\<exists>k<?n. gp_bits p ! k = b \<and>
       predicate_holds fl (gp_symmetries p ! k) ax (gp_predicates p ! k) ray (hits_of ar rec))"
  proof
    assume "\<exists>gi<length gs. \<exists>j<length (?m gi). j < 64 \<and> gp_bits p ! (?m gi ! j) = b \<and>
         predicate_holds fl (gs ! gi) ax (gp_predicates p ! (?m gi ! j)) ray (hits_of ar rec)"
    then obtain gi j where gi: "gi < length gs" and j: "j < length (?m gi)" and at: "gp_bits p ! (?m gi ! j) = b"
      "predicate_holds fl (gs ! gi) ax (gp_predicates p ! (?m gi ! j)) ray (hits_of ar rec)" by blast
    from members_nth [OF j] gok p have "gs ! gi = gp_symmetries p ! (?m gi ! j)" "?m gi ! j < ?n"
      by (auto simp: group_ok_def placement_ok_def)
    with at show "\<exists>k<?n. gp_bits p ! k = b \<and>
       predicate_holds fl (gp_symmetries p ! k) ax (gp_predicates p ! k) ray (hits_of ar rec)" by metis
  next
    assume "\<exists>k<?n. gp_bits p ! k = b \<and>
       predicate_holds fl (gp_symmetries p ! k) ax (gp_predicates p ! k) ray (hits_of ar rec)"
    then obtain k where k: "k < ?n" "gp_bits p ! k = b"
      "predicate_holds fl (gp_symmetries p ! k) ax (gp_predicates p ! k) ray (hits_of ar rec)" by blast
    let ?gi = "gof ! k"
    have gi: "?gi < length gs" "gs ! ?gi = gp_symmetries p ! k" using gok k(1) p by (auto simp: group_ok_def placement_ok_def)
    obtain j where j: "j < length (?m ?gi)" "?m ?gi ! j = k" using members_mem [OF k(1)] by blast
    have "k < 64" using p k(1,2) b by (auto simp: placement_ok_def kMaxBits_def)
    then have "j < 64" using members_nth [OF j(1)] j(2) by simp
    with gi j k show "\<exists>gi<length gs. \<exists>j<length (?m gi). j < 64 \<and> gp_bits p ! (?m gi ! j) = b \<and>
         predicate_holds fl (gs ! gi) ax (gp_predicates p ! (?m gi ! j)) ray (hits_of ar rec)" by metis
  qed
  finally show ?thesis .
qed

section \<open>Placements of a built gate table\<close>

lemma filtered_bits:
  "map f es = map granted [0..<length es] \<Longrightarrow> k < length (filter P es) \<Longrightarrow> f (filter P es ! k) < kMaxBits \<Longrightarrow> k < 64"
proof (induction es arbitrary: k rule: rev_induct)
  case (snoc e es)
  from snoc.prems(1) have es: "map f es = map granted [0..<length es]" and e: "f e = granted (length es)" by auto
  have len: "length (filter P es) \<le> length es" by simp
  show ?case
  proof (cases "k < length (filter P es)")
    case True
    with snoc.prems(3) snoc.IH [OF es] show ?thesis by (simp add: nth_append)
  next
    case False
    with snoc.prems(2) have "P e" "k = length (filter P es)" by (auto split: if_splits)
    with snoc.prems(3) e have "length es < 64" by (auto simp: granted_def kNoBit_def kMaxBits_def split: if_splits)
    with len \<open>k = length (filter P es)\<close> show ?thesis by linarith
  qed
qed simp

lemma gate_placement_ok:
  "BuildColorGateTable fl classes scene = Inr table \<Longrightarrow> placement_ok (ColorGatePlacementFor table layer c)"
  using filtered_bits [OF gate_built_ok(1)]
  by (auto simp: placement_ok_def ColorGatePlacementFor_eq Let_def)

text \<open>From the color configuration to the mask: bit \<open>b\<close> is set for exactly the matching gate entry.\<close>

lemma gate_components:
  assumes "BuildColorGateTable fl classes scene = Inr table"
    and "list_all (\<lambda>e. wf_predicate (cg_predicate e)) (gt_entries table)"
    and "legal_path (hits_of ar rec)" and "readable ar rec" and "b < 64"
  shows "bit (produced_components fl (BuildColorSpecGroups fl (ColorGatePlacementFor table layer c) 6 geom ax) ray rec ar) b
    \<longleftrightarrow> (\<exists>e\<in>set (gt_entries table). cg_layer e = layer \<and> cg_crystal_id e = c \<and> cg_bit e = b \<and>
          predicate_holds fl (cg_symmetry e) ax (cg_predicate e) ray (hits_of ar rec))"
proof -
  let ?es = "filter (\<lambda>e. cg_layer e = layer \<and> cg_crystal_id e = c) (gt_entries table)"
  let ?p = "ColorGatePlacementFor table layer c"
  have p: "gp_predicates ?p = map cg_predicate ?es" "gp_bits ?p = map cg_bit ?es" "gp_symmetries ?p = map cg_symmetry ?es"
    by (simp_all add: ColorGatePlacementFor_eq Let_def)
  have wf: "list_all wf_predicate (gp_predicates ?p)"
    using assms(2) by (simp add: p list_all_iff)
  have "(\<exists>k<length ?es. cg_bit (?es ! k) = b \<and>
      predicate_holds fl (cg_symmetry (?es ! k)) ax (cg_predicate (?es ! k)) ray (hits_of ar rec)) \<longleftrightarrow>
    (\<exists>e\<in>set ?es. cg_bit e = b \<and> predicate_holds fl (cg_symmetry e) ax (cg_predicate e) ray (hits_of ar rec))"
    unfolding Bex_def in_set_conv_nth by blast
  with produced_components_spec [OF gate_placement_ok [OF assms(1)] wf assms(3-5), of fl geom ax ray]
  show ?thesis unfolding p by (auto simp: nth_map)
qed

end
