(* ===== verification/Device_Filter.thy ===== *)
theory Device_Filter
  imports Filter_Spec
begin

text \<open>
  The filter as the device kernels run it: the flat descriptor (\<open>src/core/device_filter_desc.hpp\<close>,
  \<open>src/core/device_filter_desc.cpp\<close>) and the matcher that reads it (\<open>src/core/shared/filter_shared.h\<close>).

  The theory shows that descriptor and matcher implement the same abstract filter \<open>filter_holds\<close> as the
  host classes of \<open>Filter_Spec\<close>.  The face path is a list of polygon indices, the buffers are lists, and
  the fixed scratch arrays are the list of the bytes in use.  The narrowing stores of the descriptor are
  written out; array indices are \<open>nat\<close>.
\<close>

section \<open>The descriptor\<close>

definition kDeviceFilterTypeNone :: nat where "kDeviceFilterTypeNone = 0"
definition kDeviceFilterTypeRaypath :: nat where "kDeviceFilterTypeRaypath = 1"
definition kDeviceFilterTypeEntryExit :: nat where "kDeviceFilterTypeEntryExit = 2"
definition kDeviceFilterTypeDirection :: nat where "kDeviceFilterTypeDirection = 3"
definition kDeviceFilterTypeCrystal :: nat where "kDeviceFilterTypeCrystal = 4"
definition kDeviceFilterTypeComplex :: nat where "kDeviceFilterTypeComplex = 5"
definition kDeviceFilterMaxOrClauses :: nat where "kDeviceFilterMaxOrClauses = 8"

lemmas device_types = kDeviceFilterTypeNone_def kDeviceFilterTypeRaypath_def kDeviceFilterTypeEntryExit_def
  kDeviceFilterTypeDirection_def kDeviceFilterTypeCrystal_def kDeviceFilterTypeComplex_def

record 'f DeviceFilterDesc =
  df_type :: nat
  df_action :: nat
  df_symmetry :: u8
  df_d_applicable :: bool
  df_sigma_a :: int
  df_fn_period :: int
  df_canonical_bytes :: "nat list"
  df_canonical_len :: nat
  df_has_entry :: bool
  df_has_exit :: bool
  df_min_len :: nat
  df_max_len :: nat
  df_dir :: "'f list"
  df_radii_c :: 'f
  df_crystal_id :: nat
  df_sub_desc_start :: nat
  df_and_terms_start :: nat
  df_or_clause_count :: nat
  df_shape_p_step :: int
  df_shape_d_mirror_mask :: u8
  df_shape_b_applicable :: bool
  df_p_applicable :: bool
  df_b_applicable :: bool

definition zero_desc :: "('f, 'z) float_ops_scheme \<Rightarrow> 'f DeviceFilterDesc" where
  "zero_desc fl =
     \<lparr> df_type = 0, df_action = 0, df_symmetry = 0, df_d_applicable = False, df_sigma_a = 0, df_fn_period = 0,
       df_canonical_bytes = replicate 64 0, df_canonical_len = 0, df_has_entry = False, df_has_exit = False,
       df_min_len = 0, df_max_len = 0, df_dir = replicate 3 (fl_of_int fl 0), df_radii_c = fl_of_int fl 0,
       df_crystal_id = 0, df_sub_desc_start = 0, df_and_terms_start = 0, df_or_clause_count = 0,
       df_shape_p_step = 0, df_shape_d_mirror_mask = 0, df_shape_b_applicable = False, df_p_applicable = False,
       df_b_applicable = False \<rparr>"

definition FillCanonicalBytes :: "int \<Rightarrow> nat list \<Rightarrow> 'f DeviceFilterDesc \<Rightarrow> 'f DeviceFilterDesc" where
  "FillCanonicalBytes fn_period rp out =
     (let geom = \<lparr> gs_p_step = df_shape_p_step out, gs_d_valid_sigma_mask = df_shape_d_mirror_mask out,
                   gs_b_applicable = df_shape_b_applicable out \<rparr>;
          canonical = ReduceRaypathByPeriod rp (df_symmetry out) (df_sigma_a out) (df_d_applicable out)
            (if df_p_applicable out then PRotationSet_Full else PRotationSet_Identity)
            (df_b_applicable out) fn_period geom;
          len = min (length canonical) kMaxHits
      in out\<lparr> df_canonical_len := len,
              df_canonical_bytes := map (\<lambda>c. c mod 256) (take len canonical) @ drop len (df_canonical_bytes out) \<rparr>)"

definition FillEntryExit :: "int \<Rightarrow> EntryExitFilterParam \<Rightarrow> 'f DeviceFilterDesc \<Rightarrow> 'f DeviceFilterDesc" where
  "FillEntryExit fn_period p out =
     (let out = out\<lparr> df_type := kDeviceFilterTypeEntryExit, df_has_entry := ee_entry p \<noteq> None,
                     df_has_exit := ee_exit p \<noteq> None, df_min_len := ee_min_len p mod 2 ^ 32,
                     df_max_len := (case ee_max_len p of None \<Rightarrow> 0 | Some m \<Rightarrow> m mod 2 ^ 32) \<rparr>;
          rp = (case ee_entry p of None \<Rightarrow> [] | Some e \<Rightarrow> [e]) @ (case ee_exit p of None \<Rightarrow> [] | Some x \<Rightarrow> [x])
      in if rp \<noteq> [] then FillCanonicalBytes fn_period rp out else out)"

definition FillDirection ::
  "('f, 'z) float_ops_scheme \<Rightarrow> 'f \<Rightarrow> 'f \<Rightarrow> 'f \<Rightarrow> 'f DeviceFilterDesc \<Rightarrow> 'f DeviceFilterDesc" where
  "FillDirection fl lon lat radii out =
     (let lon_rad = fl_mul fl lon (fl_deg_to_rad fl); lat_rad = fl_mul fl lat (fl_deg_to_rad fl)
      in out\<lparr> df_type := kDeviceFilterTypeDirection,
              df_dir := [fl_mul fl (fl_cos fl lat_rad) (fl_cos fl lon_rad),
                         fl_mul fl (fl_cos fl lat_rad) (fl_sin fl lon_rad), fl_sin fl lat_rad],
              df_radii_c := fl_cos fl (fl_mul fl radii (fl_deg_to_rad fl)) \<rparr>)"

fun SimpleVisitor ::
  "('f, 'z) float_ops_scheme \<Rightarrow> int \<Rightarrow> 'f SimpleFilterParam \<Rightarrow> 'f DeviceFilterDesc \<Rightarrow> 'f DeviceFilterDesc" where
  "SimpleVisitor fl fn_period NoneFilterParam out = out\<lparr> df_type := kDeviceFilterTypeNone \<rparr>"
| "SimpleVisitor fl fn_period (RaypathFilterParam rp) out =
     FillCanonicalBytes fn_period rp (out\<lparr> df_type := kDeviceFilterTypeRaypath \<rparr>)"
| "SimpleVisitor fl fn_period (EntryExitFilterParam p) out = FillEntryExit fn_period p out"
| "SimpleVisitor fl fn_period (DirectionFilterParam lon lat radii) out = FillDirection fl lon lat radii out"
| "SimpleVisitor fl fn_period (CrystalFilterParam i) out =
     out\<lparr> df_type := kDeviceFilterTypeCrystal, df_crystal_id := i \<rparr>"

definition FillComplexDescTop :: "(nat \<times> 'f SimpleFilterParam) list list \<Rightarrow> 'f DeviceFilterDesc \<Rightarrow> 'f DeviceFilterDesc" where
  "FillComplexDescTop fs out =
     out\<lparr> df_type := kDeviceFilterTypeComplex, df_or_clause_count := length fs mod 65536 \<rparr>"

definition TopVisitor ::
  "('f, 'z) float_ops_scheme \<Rightarrow> int \<Rightarrow> 'f FilterParam \<Rightarrow> 'f DeviceFilterDesc \<Rightarrow> 'f DeviceFilterDesc" where
  "TopVisitor fl fn_period p out =
     (case p of SimpleParam s \<Rightarrow> SimpleVisitor fl fn_period s out | ComplexParam fs \<Rightarrow> FillComplexDescTop fs out)"

definition BuildDeviceFilterDesc ::
  "('f, 'z) float_ops_scheme \<Rightarrow> 'f FilterConfig \<Rightarrow> int \<Rightarrow> GeometricSymmetry \<Rightarrow> 'f AxisDistribution \<Rightarrow> 'f DeviceFilterDesc"
where
  "BuildDeviceFilterDesc fl config fn_period crystal_geom axis_dist =
     (let d_applicable = IsDApplicable fl axis_dist;
          gating = DeriveSymmetryGating fl kLabel crystal_geom axis_dist;
          desc = (zero_desc fl)
            \<lparr> df_action := (if fc_action config = kFilterIn then 0 else 1),
              df_symmetry := fc_symmetry config,
              df_d_applicable := d_applicable,
              df_sigma_a := (if d_applicable then ComputeSigmaA fl (dist_center (roll_dist axis_dist)) else 0),
              df_fn_period := fn_period,
              df_p_applicable := NonTrivial (sg_p_retained gating),
              df_b_applicable := sg_b_applicable gating,
              df_shape_p_step := gs_p_step (sg_geom gating),
              df_shape_d_mirror_mask := gs_d_valid_sigma_mask (sg_geom gating),
              df_shape_b_applicable := gs_b_applicable (sg_geom gating) \<rparr>
      in TopVisitor fl fn_period (fc_param config) desc)"

definition sub_desc ::
  "('f, 'z) float_ops_scheme \<Rightarrow> int \<Rightarrow> 'f DeviceFilterDesc \<Rightarrow> 'f SimpleFilterParam \<Rightarrow> 'f DeviceFilterDesc" where
  "sub_desc fl fn_period parent p =
     SimpleVisitor fl fn_period p ((zero_desc fl)
       \<lparr> df_symmetry := df_symmetry parent, df_d_applicable := df_d_applicable parent, df_sigma_a := df_sigma_a parent,
         df_fn_period := df_fn_period parent, df_p_applicable := df_p_applicable parent,
         df_b_applicable := df_b_applicable parent, df_shape_p_step := df_shape_p_step parent,
         df_shape_d_mirror_mask := df_shape_d_mirror_mask parent,
         df_shape_b_applicable := df_shape_b_applicable parent, df_action := 0 \<rparr>)"

text \<open>The two buffers the function appends to.\<close>

definition BuildComplexSubDescs ::
  "('f, 'z) float_ops_scheme \<Rightarrow> (nat \<times> 'f SimpleFilterParam) list list \<Rightarrow> int \<Rightarrow> 'f DeviceFilterDesc \<Rightarrow>
     'f DeviceFilterDesc list \<times> nat list \<Rightarrow> 'f DeviceFilterDesc list \<times> nat list"
where
  "BuildComplexSubDescs fl fs fn_period parent bufs =
     fold (\<lambda>or_clause (out_sub_descs, out_and_term_counts).
        (fold (\<lambda>and_entry out. out @ [sub_desc fl fn_period parent (snd and_entry)]) or_clause out_sub_descs,
         out_and_term_counts @ [length or_clause mod 256])) fs bufs"

section \<open>The matcher\<close>

text \<open>The shift of the device; its period is the constant 6.\<close>

fun p_shift_dev_loop :: "int \<Rightarrow> int \<Rightarrow> nat list \<Rightarrow> nat list" where
  "p_shift_dev_loop p_step shift [] = []"
| "p_shift_dev_loop p_step shift (x # xs) =
     (if x < 3 then x # p_shift_dev_loop p_step shift xs
      else
        let pyr = x div 10;
            pri0 = int (x mod 10) - 3;
            shift' = (if shift < 0 then pri0 - crem pri0 p_step else shift);
            pri1 = crem (pri0 - shift' + 6) 6
        in to_u8 (int (pyr * 10) + (pri1 + 3)) # p_shift_dev_loop p_step shift' xs)"

definition PCanonicalShiftInPlace_dev :: "nat list \<Rightarrow> int \<Rightarrow> nat list" where
  "PCanonicalShiftInPlace_dev data p_step =
     (if p_step \<le> 0 \<or> p_step \<ge> 6 then data else p_shift_dev_loop p_step (- 1) data)"

definition reflect_dev :: "int \<Rightarrow> nat \<Rightarrow> nat" where
  "reflect_dev sigma_a x =
     (if x < 3 then x
      else let pyr = x div 10;
               pri0 = int (x mod 10) - 3;
               new_pri0 = crem (crem (sigma_a - pri0) 6 + 6) 6
           in to_u8 (int (pyr * 10) + (new_pri0 + 3)))"

definition flip_dev :: "nat \<Rightarrow> nat" where
  "flip_dev x =
     (if x \<le> 2 then to_u8 (3 - int x)
      else if x \<ge> 13 \<and> x \<le> 18 then to_u8 (int x + 10)
      else if x \<ge> 23 \<and> x \<le> 28 then to_u8 (int x - 10)
      else x)"

definition changes_dev :: "nat \<Rightarrow> bool" where
  "changes_dev x \<longleftrightarrow> x \<le> 2 \<or> (x \<ge> 13 \<and> x \<le> 18) \<or> (x \<ge> 23 \<and> x \<le> 28)"

definition ReduceBuffer_dev :: "nat list \<Rightarrow> 'f DeviceFilterDesc \<Rightarrow> nat list" where
  "ReduceBuffer_dev data f =
     (if df_symmetry f = 0 then data
      else
        let p_active = (df_symmetry f AND 1 \<noteq> 0 \<and> df_p_applicable f);
            data = (if p_active then PCanonicalShiftInPlace_dev data (df_shape_p_step f) else data);
            d_active = (df_symmetry f AND 4 \<noteq> 0 \<and> df_d_applicable f \<and> df_sigma_a f \<ge> 0 \<and> df_sigma_a f < 6 \<and>
                        drop_bit (nat (df_sigma_a f)) (df_shape_d_mirror_mask f) AND 1 \<noteq> 0);
            data = (if d_active then
                let scratch = map (reflect_dev (df_sigma_a f)) data;
                    scratch = (if p_active then PCanonicalShiftInPlace_dev scratch (df_shape_p_step f) else scratch)
                in if lex_less_buf scratch data then scratch else data
              else data);
            data = (if df_symmetry f AND 2 \<noteq> 0 \<and> df_b_applicable f \<and> df_shape_b_applicable f then
                let scratch = map flip_dev data;
                    changed = list_ex changes_dev data
                in if changed \<and> lex_less_buf scratch data then scratch else data
              else data)
        in data)"

definition ApplyGetFn_dev :: "nat list \<Rightarrow> nat list \<Rightarrow> nat \<Rightarrow> nat list" where
  "ApplyGetFn_dev path poly_fn poly_off = map (\<lambda>p. poly_fn ! (poly_off + p)) path"

definition DeviceFilterMatchRaypath :: "'f DeviceFilterDesc \<Rightarrow> nat list \<Rightarrow> nat list \<Rightarrow> nat \<Rightarrow> bool" where
  "DeviceFilterMatchRaypath f path poly_fn poly_off =
     (if length path \<noteq> df_canonical_len f then False
      else
        let buf = ApplyGetFn_dev path poly_fn poly_off
        in if df_fn_period f < 0 \<or> df_symmetry f = 0
           then buf = take (length path) (df_canonical_bytes f)
           else ReduceBuffer_dev buf f = take (length path) (df_canonical_bytes f))"

definition DeviceFilterMatchEntryExit :: "'f DeviceFilterDesc \<Rightarrow> nat list \<Rightarrow> nat list \<Rightarrow> nat \<Rightarrow> bool" where
  "DeviceFilterMatchEntryExit f path poly_fn poly_off =
     (let path_len = length path in
      if path_len = 0 then False
      else if path_len < df_min_len f then False
      else if df_max_len f \<noteq> 0 \<and> path_len > df_max_len f then False
      else if \<not> df_has_entry f \<and> \<not> df_has_exit f then True
      else
        let ee = (if df_has_entry f then [poly_fn ! (poly_off + path ! 0)] else []) @
                 (if df_has_exit f then [poly_fn ! (poly_off + path ! (path_len - 1))] else [])
        in if df_fn_period f < 0 \<or> df_symmetry f = 0
           then ee = take (length ee) (df_canonical_bytes f)
           else
             let buf = ReduceBuffer_dev ee f
             in if length ee \<noteq> df_canonical_len f then False
                else buf = take (length ee) (df_canonical_bytes f))"

definition DeviceFilterMatchDirection :: "('f, 'z) float_ops_scheme \<Rightarrow> 'f DeviceFilterDesc \<Rightarrow> 'f list \<Rightarrow> bool" where
  "DeviceFilterMatchDirection fl f ray_dir =
     (let d = fl_add fl (fl_add fl (fl_mul fl (df_dir f ! 0) (ray_dir ! 0)) (fl_mul fl (df_dir f ! 1) (ray_dir ! 1)))
            (fl_mul fl (df_dir f ! 2) (ray_dir ! 2))
      in fl_lt fl (df_radii_c f) d)"

text \<open>A ray as the kernel sees it: its polygon path, its slice of the face table, direction and crystal.\<close>

record 'f DeviceRay =
  dr_path :: "nat list"
  dr_poly_fn :: "nat list"
  dr_poly_off :: nat
  dr_dir :: "'f list"
  dr_crystal_config_id :: nat

definition DeviceFilterMatchSimple :: "('f, 'z) float_ops_scheme \<Rightarrow> 'f DeviceFilterDesc \<Rightarrow> 'f DeviceRay \<Rightarrow> bool" where
  "DeviceFilterMatchSimple fl f r =
     (if df_type f = kDeviceFilterTypeNone then True
      else if df_type f = kDeviceFilterTypeRaypath then DeviceFilterMatchRaypath f (dr_path r) (dr_poly_fn r) (dr_poly_off r)
      else if df_type f = kDeviceFilterTypeEntryExit
        then DeviceFilterMatchEntryExit f (dr_path r) (dr_poly_fn r) (dr_poly_off r)
      else if df_type f = kDeviceFilterTypeDirection then DeviceFilterMatchDirection fl f (dr_dir r)
      else if df_type f = kDeviceFilterTypeCrystal then dr_crystal_config_id r = df_crystal_id f
      else False)"

text \<open>
  One clause: the flag, and \<open>sub_idx\<close> after it.  The last argument counts the terms that are left, which
  is what the code adds to \<open>sub_idx\<close> when a term fails.
\<close>

fun and_clause_dev ::
  "('f, 'z) float_ops_scheme \<Rightarrow> 'f DeviceFilterDesc list \<Rightarrow> 'f DeviceRay \<Rightarrow> nat \<Rightarrow> nat \<Rightarrow> bool \<times> nat" where
  "and_clause_dev fl subs r sub_idx 0 = (True, sub_idx)"
| "and_clause_dev fl subs r sub_idx (Suc left) =
     (if \<not> DeviceFilterMatchSimple fl (subs ! sub_idx) r then (False, sub_idx + Suc left)
      else and_clause_dev fl subs r (sub_idx + 1) left)"

fun or_clauses_dev ::
  "('f, 'z) float_ops_scheme \<Rightarrow> 'f DeviceFilterDesc list \<Rightarrow> nat list \<Rightarrow> 'f DeviceRay \<Rightarrow> nat \<Rightarrow> nat list \<Rightarrow> bool" where
  "or_clauses_dev fl subs counts r sub_idx [] = False"
| "or_clauses_dev fl subs counts r sub_idx (i # js) =
     (let (and_ok, sub_idx) = and_clause_dev fl subs r sub_idx (counts ! i)
      in if and_ok then True else or_clauses_dev fl subs counts r sub_idx js)"

definition DeviceFilterMatchComplex ::
  "('f, 'z) float_ops_scheme \<Rightarrow> 'f DeviceFilterDesc \<Rightarrow> 'f DeviceFilterDesc list \<Rightarrow> nat list \<Rightarrow> 'f DeviceRay \<Rightarrow> bool" where
  "DeviceFilterMatchComplex fl f subs counts r =
     (if df_or_clause_count f = 0 then False
      else or_clauses_dev fl subs counts r (df_sub_desc_start f)
             (map (\<lambda>i. df_and_terms_start f + i) [0..<df_or_clause_count f]))"

definition DeviceFilterMatch ::
  "('f, 'z) float_ops_scheme \<Rightarrow> 'f DeviceFilterDesc \<Rightarrow> 'f DeviceFilterDesc list \<Rightarrow> nat list \<Rightarrow> 'f DeviceRay \<Rightarrow> bool" where
  "DeviceFilterMatch fl f subs counts r =
     (if df_type f = kDeviceFilterTypeComplex then DeviceFilterMatchComplex fl f subs counts r
      else DeviceFilterMatchSimple fl f r)"

definition DeviceFilterCheck ::
  "('f, 'z) float_ops_scheme \<Rightarrow> 'f DeviceFilterDesc \<Rightarrow> 'f DeviceFilterDesc list \<Rightarrow> nat list \<Rightarrow> 'f DeviceRay \<Rightarrow> bool" where
  "DeviceFilterCheck fl f subs counts r =
     (let m = DeviceFilterMatch fl f subs counts r in if df_action f = 0 then m else \<not> m)"

fun summand_mask_dev ::
  "('f, 'z) float_ops_scheme \<Rightarrow> 'f DeviceFilterDesc list \<Rightarrow> nat list \<Rightarrow> nat \<Rightarrow> 'f DeviceRay \<Rightarrow> nat \<Rightarrow> nat list \<Rightarrow> u32 \<Rightarrow> u32"
where
  "summand_mask_dev fl subs counts start r sub_idx [] msk = msk"
| "summand_mask_dev fl subs counts start r sub_idx (i # js) msk =
     (let (and_ok, sub_idx) = and_clause_dev fl subs r sub_idx (counts ! (start + i))
      in summand_mask_dev fl subs counts start r sub_idx js (if and_ok then msk OR push_bit i 1 else msk))"

text \<open>The mask, and \<open>out_matched\<close>.\<close>

definition DeviceFilterSummandMask ::
  "('f, 'z) float_ops_scheme \<Rightarrow> 'f DeviceFilterDesc \<Rightarrow> 'f DeviceFilterDesc list \<Rightarrow> nat list \<Rightarrow> 'f DeviceRay \<Rightarrow> u32 \<times> bool"
where
  "DeviceFilterSummandMask fl f subs counts r =
     (if df_type f = kDeviceFilterTypeComplex then
        let msk = summand_mask_dev fl subs counts (df_and_terms_start f) r (df_sub_desc_start f)
              [0..<min (df_or_clause_count f) kDeviceFilterMaxOrClauses] 0
        in (msk, msk \<noteq> 0)
      else if df_type f = kDeviceFilterTypeNone then (0, True)
      else let m = DeviceFilterMatchSimple fl f r in (if m then 1 else 0, m))"

section \<open>The device reduction is the host reduction\<close>

definition label_desc :: "('f, 'z) float_ops_scheme \<Rightarrow> u8 \<Rightarrow> 'f AxisDistribution \<Rightarrow> 'f DeviceFilterDesc \<Rightarrow> bool" where
  "label_desc fl sy ax f \<longleftrightarrow> df_symmetry f = sy \<and> df_d_applicable f = ds_d_applicable (DeriveDSymmetryParams fl ax) \<and>
     df_sigma_a f = ds_sigma_a (DeriveDSymmetryParams fl ax) \<and> df_fn_period f = 6 \<and> df_p_applicable f \<and>
     df_b_applicable f \<and> df_shape_p_step f = 1 \<and> df_shape_d_mirror_mask f = 0x3F \<and> df_shape_b_applicable f"

lemma p_shift_dev_loop_eq: "p_shift_dev_loop st sh xs = p_canonical_byte_loop 6 st sh xs"
  by (induction xs arbitrary: sh) (simp_all add: Let_def add.assoc)

lemma shift_dev_eq: "PCanonicalShiftInPlace_dev xs st = PCanonicalShiftInPlace xs 6 st"
  by (simp add: PCanonicalShiftInPlace_dev_def PCanonicalShiftInPlace_def p_shift_dev_loop_eq)

lemma reflect_dev_eq: "reflect_dev a = reflect_byte a 6"
  by (simp add: fun_eq_iff reflect_dev_def reflect_byte_def MirrorFaceIndex_def Let_def add.assoc)

lemma flip_dev_eq: "flip_dev = flip_byte" and changes_dev_eq: "changes_dev = byte_changes"
  by (simp_all add: fun_eq_iff flip_dev_def flip_byte_def changes_dev_def byte_changes_def)

lemma ReduceBuffer_dev_eq:
  assumes "label_desc fl sy ax f"
  shows "ReduceBuffer_dev data f = ReduceBuffer data sy (ds_sigma_a (DeriveDSymmetryParams fl ax))
    (ds_d_applicable (DeriveDSymmetryParams fl ax)) PRotationSet_Full True 6 kFullHexagonalSymmetry"
proof -
  have cond: "(sy = kSymNone \<or> 6 < (0::int)) \<longleftrightarrow> sy = 0" by (simp add: kSymNone_def)
  note f = assms [unfolded label_desc_def]
  show ?thesis
    unfolding ReduceBuffer_dev_def ReduceBuffer_def cond
    using f
    by (simp only: Let_def shift_dev_eq reflect_dev_eq flip_dev_eq changes_dev_eq LexLessRecorder_def
        GeneratorStep_Full NonTrivial_Full kSymP_def kSymB_def kSymD_def DMirrorActive_def AllowsMirror_def
        kHexagonalFnPeriod_def simp_thms kFullHexagonalSymmetry_def GeometricSymmetry.simps conj_assoc)
qed

section \<open>Simple descriptors implement the predicates\<close>

text \<open>What the device needs of a predicate: legal faces, a path of at most 64, bounds of 32 bits, no zero maximum.\<close>

fun wf_device :: "'f SimpleFilterParam \<Rightarrow> bool" where
  "wf_device (RaypathFilterParam rp) \<longleftrightarrow> legal_path rp \<and> length rp \<le> kMaxHits"
| "wf_device (EntryExitFilterParam ee) \<longleftrightarrow> legal_path (option_list (ee_entry ee) @ option_list (ee_exit ee)) \<and>
     ee_min_len ee < 2 ^ 32 \<and> (\<forall>m\<in>set_option (ee_max_len ee). 0 < m \<and> m < 2 ^ 32)"
| "wf_device _ \<longleftrightarrow> True"

definition device_hits :: "'f DeviceRay \<Rightarrow> nat list" where
  "device_hits r = ApplyGetFn_dev (dr_path r) (dr_poly_fn r) (dr_poly_off r)"

text \<open>The kernel's ray and the host's are the same ray.\<close>

definition same_ray :: "'f DeviceRay \<Rightarrow> ('f, 'q) RaySeg \<Rightarrow> bool" where
  "same_ray r ray \<longleftrightarrow> dr_dir r = seg_d ray \<and> dr_crystal_config_id r = crystal_config_id ray"

lemma FillCanonicalBytes_label:
  assumes "label_desc fl sy ax out" and "legal_path rp" and "length rp \<le> kMaxHits"
    and "length (df_canonical_bytes out) = 64"
  defines "v \<equiv> ReduceRaypathByPeriod rp sy (ds_sigma_a (DeriveDSymmetryParams fl ax))
    (ds_d_applicable (DeriveDSymmetryParams fl ax)) PRotationSet_Full True 6 kFullHexagonalSymmetry"
  shows "df_canonical_len (FillCanonicalBytes 6 rp out) = length rp"
    and "take (length rp) (df_canonical_bytes (FillCanonicalBytes 6 rp out)) = v"
proof -
  have "\<lparr> gs_p_step = df_shape_p_step out, gs_d_valid_sigma_mask = df_shape_d_mirror_mask out,
      gs_b_applicable = df_shape_b_applicable out \<rparr> = kFullHexagonalSymmetry"
    using assms(1) by (simp add: label_desc_def kFullHexagonalSymmetry_def)
  then have eq: "FillCanonicalBytes 6 rp out = (let len = min (length v) kMaxHits in
      out\<lparr> df_canonical_len := len,
           df_canonical_bytes := map (\<lambda>c. c mod 256) (take len v) @ drop len (df_canonical_bytes out) \<rparr>)"
    using assms(1) by (simp add: FillCanonicalBytes_def label_desc_def v_def Let_def)
  have v: "length v = length rp" "map (\<lambda>c. c mod 256) v = v"
    unfolding v_def using reduce_legal(2,3) [of PRotationSet_Full rp] assms(2) by simp_all
  show "df_canonical_len (FillCanonicalBytes 6 rp out) = length rp"
    and "take (length rp) (df_canonical_bytes (FillCanonicalBytes 6 rp out)) = v"
    using v assms(3) by (simp_all add: eq min_absorb1 Let_def)
qed

lemma FillCanonicalBytes_fields [simp]:
  "label_desc fl sy ax (FillCanonicalBytes per rp out) = label_desc fl sy ax out"
  "df_type (FillCanonicalBytes per rp out) = df_type out"
  "df_has_entry (FillCanonicalBytes per rp out) = df_has_entry out"
  "df_has_exit (FillCanonicalBytes per rp out) = df_has_exit out"
  "df_min_len (FillCanonicalBytes per rp out) = df_min_len out"
  "df_max_len (FillCanonicalBytes per rp out) = df_max_len out"
  by (simp_all add: FillCanonicalBytes_def Let_def label_desc_def)

lemma label_desc_type [simp]: "label_desc fl sy ax (out\<lparr> df_type := t \<rparr>) = label_desc fl sy ax out"
  by (simp add: label_desc_def)

text \<open>The comparison of reduced bytes decides membership in the label class.\<close>

lemma device_class:
  assumes "label_desc fl sy ax f" and "legal_path rp" and "legal_path h" and "length h = length rp"
  shows "(if sy = 0 then h else ReduceBuffer_dev h f) = ReduceRaypathByPeriod rp sy (ds_sigma_a (DeriveDSymmetryParams fl ax))
    (ds_d_applicable (DeriveDSymmetryParams fl ax)) PRotationSet_Full True 6 kFullHexagonalSymmetry
    \<longleftrightarrow> h \<in> label_class fl sy ax rp"
proof -
  let ?D = "DeriveDSymmetryParams fl ax"
  let ?R = "\<lambda>xs. ReduceRaypathByPeriod xs sy (ds_sigma_a ?D) (ds_d_applicable ?D) PRotationSet_Full True 6 kFullHexagonalSymmetry"
  have "ReduceBuffer_dev h f = ?R h"
    unfolding ReduceBuffer_dev_eq [OF assms(1)] by (rule ReduceBuffer_eq [OF legal_path_small [OF assms(3)]])
  moreover have "sy = 0 \<Longrightarrow> ?R h = h" by (simp add: ReduceRaypathByPeriod_def kSymNone_def)
  moreover have "?R h = ?R rp \<longleftrightarrow> h \<in> label_class fl sy ax rp"
    unfolding label_class_def by (rule raypath.reduce_eq_iff) (use assms in simp_all)
  ultimately show ?thesis by auto
qed

lemma label_class_length: "legal_path rp \<Longrightarrow> h \<in> label_class fl sy ax rp \<Longrightarrow> length h = length rp"
  unfolding label_class_def using expand_length [of PRotationSet_Full rp h] by simp

lemma device_raypath:
  assumes "label_desc fl sy ax out" and "wf_device (RaypathFilterParam rp)" and "legal_path (device_hits r)"
    and "length (df_canonical_bytes out) = 64"
  shows "DeviceFilterMatchRaypath (FillCanonicalBytes 6 rp out) (dr_path r) (dr_poly_fn r) (dr_poly_off r)
    \<longleftrightarrow> device_hits r \<in> label_class fl sy ax rp"
proof -
  let ?f = "FillCanonicalBytes 6 rp out"
  have rp: "legal_path rp" "length rp \<le> kMaxHits" using assms(2) by simp_all
  note can = FillCanonicalBytes_label [OF assms(1) rp assms(4)]
  have f: "label_desc fl sy ax ?f" using assms(1) by simp
  then have per: "\<not> df_fn_period ?f < 0" "df_symmetry ?f = sy" by (simp_all add: label_desc_def)
  have len: "length (device_hits r) = length (dr_path r)" by (simp add: device_hits_def ApplyGetFn_dev_def)
  show ?thesis
  proof (cases "length (dr_path r) = length rp")
    case True
    then show ?thesis
      using device_class [OF f rp(1) assms(3)] len can per
      by (simp add: DeviceFilterMatchRaypath_def device_hits_def [symmetric] Let_def split: if_splits)
  next
    case False
    then show ?thesis
      using label_class_length [OF rp(1), of "device_hits r"] can(1) len by (auto simp: DeviceFilterMatchRaypath_def)
  qed
qed

lemma device_entry_exit:
  assumes "label_desc fl sy ax out" and "wf_device (EntryExitFilterParam ee)" and "legal_path (device_hits r)"
    and "length (df_canonical_bytes out) = 64"
  shows "DeviceFilterMatchEntryExit (FillEntryExit 6 ee out) (dr_path r) (dr_poly_fn r) (dr_poly_off r)
    \<longleftrightarrow> predicate_holds fl sy ax (EntryExitFilterParam ee) ray (device_hits r)"
proof -
  let ?h = "device_hits r" and ?e = "ee_entry ee \<noteq> None" and ?x = "ee_exit ee \<noteq> None"
  let ?rp = "option_list (ee_entry ee) @ option_list (ee_exit ee)"
  let ?ends = "path_ends ?e ?x ?h"
  define out1 where "out1 = out\<lparr> df_type := kDeviceFilterTypeEntryExit, df_has_entry := ?e, df_has_exit := ?x,
      df_min_len := ee_min_len ee mod 2 ^ 32, df_max_len := (case ee_max_len ee of None \<Rightarrow> 0 | Some m \<Rightarrow> m mod 2 ^ 32) \<rparr>"
  let ?f = "FillEntryExit 6 ee out"
  have f: "?f = (if ?rp \<noteq> [] then FillCanonicalBytes 6 ?rp out1 else out1)"
    by (simp add: FillEntryExit_def Let_def out1_def option_list_def split: option.split)
  have lab: "label_desc fl sy ax out1" "length (df_canonical_bytes out1) = 64"
    using assms(1,4) by (simp_all add: out1_def label_desc_def)
  have rp: "legal_path ?rp" "length ?rp \<le> kMaxHits"
    using assms(2) by (auto simp: option_list_def kMaxHits_def split: option.splits)
  note can = FillCanonicalBytes_label [OF lab(1) rp lab(2)]
  have labf: "label_desc fl sy ax ?f" using lab(1) by (simp add: f)
  then have per: "\<not> df_fn_period ?f < 0" "df_symmetry ?f = sy" by (simp_all add: label_desc_def)
  have fields: "df_has_entry ?f = ?e" "df_has_exit ?f = ?x" "df_min_len ?f = ee_min_len ee"
    "df_max_len ?f = (case ee_max_len ee of None \<Rightarrow> 0 | Some m \<Rightarrow> m)"
    using assms(2) by (auto simp: f out1_def split: option.splits)
  have len: "length ?h = length (dr_path r)" by (simp add: device_hits_def ApplyGetFn_dev_def)
  have empty: "?rp = [] \<longleftrightarrow> \<not> ?e \<and> \<not> ?x" by (auto simp: option_list_def split: option.splits)
  have bounds: "(df_max_len ?f \<noteq> 0 \<and> length (dr_path r) > df_max_len ?f) \<longleftrightarrow>
      \<not> (\<forall>m\<in>set_option (ee_max_len ee). length ?h \<le> m)"
    using assms(2) len by (auto simp: fields split: option.splits)
  show ?thesis
  proof (cases "?h = [] \<or> ?rp = []")
    case True
    show ?thesis
    proof (cases "?h = []")
      case True
      then have "length (dr_path r) = 0" using len by simp
      then have "\<not> DeviceFilterMatchEntryExit ?f (dr_path r) (dr_poly_fn r) (dr_poly_off r)"
        unfolding DeviceFilterMatchEntryExit_def Let_def by (rule if_P [THEN eq_False [THEN iffD1]])
      with True show ?thesis by simp
    next
      case False
      with True have rp: "?rp = []" by simp
      then have "\<not> ?e \<and> \<not> ?x" using empty by blast
      moreover have "length (dr_path r) \<noteq> 0" using False len by (metis length_0_conv)
      ultimately have "DeviceFilterMatchEntryExit ?f (dr_path r) (dr_poly_fn r) (dr_poly_off r) \<longleftrightarrow>
          \<not> length (dr_path r) < ee_min_len ee \<and> (\<forall>m\<in>set_option (ee_max_len ee). length ?h \<le> m)"
        unfolding DeviceFilterMatchEntryExit_def Let_def bounds fields(1-3) by simp
      then show ?thesis using False rp len by (simp add: not_less)
    qed
  next
    case False
    then have h: "?h \<noteq> []" and ne: "?rp \<noteq> []" by auto
    then have pos: "0 < length (dr_path r)" using len by auto
    have at: "dr_poly_fn r ! (dr_poly_off r + dr_path r ! k) = ?h ! k" if "k < length (dr_path r)" for k
      using that by (simp add: device_hits_def ApplyGetFn_dev_def)
    have ends: "(if ?e then [dr_poly_fn r ! (dr_poly_off r + dr_path r ! 0)] else []) @
        (if ?x then [dr_poly_fn r ! (dr_poly_off r + dr_path r ! (length (dr_path r) - 1))] else []) = ?ends"
      using at [of 0] at [of "length (dr_path r) - 1"] pos h len
      by (simp add: path_ends_def hd_conv_nth last_conv_nth)
    have lens: "length ?ends = length ?rp" by (auto simp: path_ends_def option_list_def split: option.splits)
    have "legal (hd ?h)" "legal (last ?h)" using h assms(3) by (auto simp: list_all_iff)
    then have "legal_path ?ends" by (simp add: path_ends_def)
    from device_class [OF labf rp(1) this lens]
    have "(if sy = 0 then ?ends else ReduceBuffer_dev ?ends ?f) = take (length ?ends) (df_canonical_bytes ?f)
        \<longleftrightarrow> ?ends \<in> label_class fl sy ax ?rp"
      using can(2) ne lens by (simp add: f)
    moreover have "length ?ends = df_canonical_len ?f" using can(1) ne lens by (simp add: f)
    ultimately have core: "(if df_fn_period ?f < 0 \<or> df_symmetry ?f = 0 then ?ends = take (length ?ends) (df_canonical_bytes ?f)
        else if length ?ends \<noteq> df_canonical_len ?f then False
        else ReduceBuffer_dev ?ends ?f = take (length ?ends) (df_canonical_bytes ?f)) \<longleftrightarrow> ?ends \<in> label_class fl sy ax ?rp"
      using per by (cases "sy = 0") simp_all
    have "(\<not> ?e \<and> \<not> ?x) = False" using ne empty by blast
    then have "DeviceFilterMatchEntryExit ?f (dr_path r) (dr_poly_fn r) (dr_poly_off r) \<longleftrightarrow>
        \<not> length (dr_path r) < ee_min_len ee \<and> (\<forall>m\<in>set_option (ee_max_len ee). length ?h \<le> m) \<and>
        ?ends \<in> label_class fl sy ax ?rp"
      unfolding DeviceFilterMatchEntryExit_def Let_def bounds fields(1-3) ends core using pos by auto
    then show ?thesis using h ne len by (simp add: not_less)
  qed
qed

lemma device_predicate:
  assumes "label_desc fl sy ax out" and "wf_device p" and "legal_path (device_hits r)"
    and "length (df_canonical_bytes out) = 64" and "same_ray r ray"
  shows "DeviceFilterMatchSimple fl (SimpleVisitor fl 6 p out) r \<longleftrightarrow> predicate_holds fl sy ax p ray (device_hits r)"
proof (cases p)
  case (RaypathFilterParam rp)
  have "label_desc fl sy ax (out\<lparr> df_type := kDeviceFilterTypeRaypath \<rparr>)" using assms(1) by simp
  from device_raypath [OF this, of rp r] assms(2-4) RaypathFilterParam show ?thesis
    by (simp add: DeviceFilterMatchSimple_def device_types)
next
  case (EntryExitFilterParam ee)
  have "df_type (FillEntryExit 6 ee out) = kDeviceFilterTypeEntryExit" by (simp add: FillEntryExit_def Let_def)
  with device_entry_exit [OF assms(1) _ assms(3,4), of ee ray] assms(2) EntryExitFilterParam show ?thesis
    by (simp add: DeviceFilterMatchSimple_def device_types)
qed (use assms(5) in \<open>simp_all add: DeviceFilterMatchSimple_def device_types FillDirection_def DeviceFilterMatchDirection_def
    DirectionSpec_new_def Dot3_def Let_def same_ray_def\<close>)

section \<open>Complex descriptors and their buffers\<close>

lemma fold_sub_desc:
  "fold (\<lambda>and_entry out. out @ [sub_desc fl per parent (snd and_entry)]) clause out
     = out @ map (\<lambda>t. sub_desc fl per parent (snd t)) clause"
  by (induction clause arbitrary: out) simp_all

lemma BuildComplexSubDescs_eq:
  "BuildComplexSubDescs fl fs per parent (subs, counts)
     = (subs @ map (\<lambda>t. sub_desc fl per parent (snd t)) (concat fs), counts @ map (\<lambda>c. length c mod 256) fs)"
proof -
  have "fold (\<lambda>or_clause (out_sub_descs, out_and_term_counts).
        (fold (\<lambda>and_entry out. out @ [sub_desc fl per parent (snd and_entry)]) or_clause out_sub_descs,
         out_and_term_counts @ [length or_clause mod 256])) fs (subs, counts)
     = (subs @ map (\<lambda>t. sub_desc fl per parent (snd t)) (concat fs), counts @ map (\<lambda>c. length c mod 256) fs)"
    by (induction fs arbitrary: subs counts) (simp_all add: fold_sub_desc)
  then show ?thesis by (simp add: BuildComplexSubDescs_def)
qed

lemma and_clause_dev_eq:
  "and_clause_dev fl (pre @ ts @ post) r (length pre) (length ts)
     = (list_all (\<lambda>t. DeviceFilterMatchSimple fl t r) ts, length pre + length ts)"
proof (induction ts arbitrary: pre)
  case (Cons t ts)
  from Cons.IH [of "pre @ [t]"] show ?case by simp
qed simp

text \<open>The running \<open>sub_idx\<close> is the start of the next clause, whether the clause before matched or not.\<close>

lemma or_clauses_dev_eq:
  "or_clauses_dev fl (pre @ concat cs @ post) (cpre @ map length cs @ cpost) r (length pre)
      (map (\<lambda>i. length cpre + i) [0..<length cs])
     \<longleftrightarrow> (\<exists>c\<in>set cs. list_all (\<lambda>t. DeviceFilterMatchSimple fl t r) c)"
proof (induction cs arbitrary: pre cpre)
  case (Cons c cs)
  have idx: "map (\<lambda>i. length cpre + i) [0..<length (c # cs)]
      = length cpre # map (\<lambda>i. length (cpre @ [length c]) + i) [0..<length cs]"
    by (simp add: upt_conv_Cons map_Suc_upt [symmetric] del: upt_Suc)
  have "and_clause_dev fl (pre @ c @ concat cs @ post) r (length pre) (length c)
      = (list_all (\<lambda>t. DeviceFilterMatchSimple fl t r) c, length pre + length c)"
    using and_clause_dev_eq [of fl pre c "concat cs @ post" r] by simp
  moreover have "(\<lambda>a. Suc (length cpre + a)) = (+) (Suc (length cpre))" by (simp add: fun_eq_iff)
  ultimately show ?case
    using Cons.IH [of "pre @ c" "cpre @ [length c]"] unfolding idx by (simp add: nth_append)
qed simp

definition base_desc ::
  "('f, 'z) float_ops_scheme \<Rightarrow> u8 \<Rightarrow> FilterAction \<Rightarrow> 'f AxisDistribution \<Rightarrow> 'f DeviceFilterDesc" where
  "base_desc fl sy act ax = (zero_desc fl)
     \<lparr> df_action := (if act = kFilterIn then 0 else 1), df_symmetry := sy,
       df_d_applicable := ds_d_applicable (DeriveDSymmetryParams fl ax),
       df_sigma_a := ds_sigma_a (DeriveDSymmetryParams fl ax), df_fn_period := 6, df_p_applicable := True,
       df_b_applicable := True, df_shape_p_step := 1, df_shape_d_mirror_mask := 0x3F, df_shape_b_applicable := True \<rparr>"

lemma BuildDeviceFilterDesc_eq:
  "BuildDeviceFilterDesc fl cfg 6 geom ax = TopVisitor fl 6 (fc_param cfg) (base_desc fl (fc_symmetry cfg) (fc_action cfg) ax)"
  by (simp add: BuildDeviceFilterDesc_def base_desc_def Let_def DeriveDSymmetryParams_def kFullHexagonalSymmetry_def)

lemma base_desc_label [simp]:
  "label_desc fl sy ax (base_desc fl sy act ax)" "length (df_canonical_bytes (base_desc fl sy act ax)) = 64"
  "df_action (base_desc fl sy act ax) = 0 \<longleftrightarrow> act = kFilterIn"
  by (simp_all add: base_desc_def label_desc_def zero_desc_def)

lemma SimpleVisitor_type: "df_type (SimpleVisitor fl per p out) \<noteq> kDeviceFilterTypeComplex"
  by (cases p) (simp_all add: device_types FillEntryExit_def FillDirection_def Let_def)

lemma SimpleVisitor_action: "df_action (SimpleVisitor fl per p out) = df_action out"
  by (cases p) (simp_all add: FillEntryExit_def FillDirection_def FillCanonicalBytes_def Let_def)

lemma sub_desc_matches:
  assumes "label_desc fl sy ax parent" and "wf_device p" and "legal_path (device_hits r)" and "same_ray r ray"
  shows "DeviceFilterMatchSimple fl (sub_desc fl 6 parent p) r \<longleftrightarrow> predicate_holds fl sy ax p ray (device_hits r)"
  unfolding sub_desc_def using assms
  by (intro device_predicate) (auto simp: label_desc_def zero_desc_def)

fun wf_device_param :: "'f FilterParam \<Rightarrow> bool" where
  "wf_device_param (SimpleParam p) = wf_device p"
| "wf_device_param (ComplexParam fs) \<longleftrightarrow> length fs \<le> 65535 \<and>
     list_all (\<lambda>c. length c \<le> 255 \<and> list_all (\<lambda>t. wf_device (snd t)) c) fs"

text \<open>
  Placing a filter in the shared buffers: the start indices are recorded first, then the sub-descriptors
  are appended, as \<open>device_filter_desc.hpp\<close> asks of the caller.
\<close>

definition place_desc ::
  "('f, 'z) float_ops_scheme \<Rightarrow> 'f FilterConfig \<Rightarrow> int \<Rightarrow> GeometricSymmetry \<Rightarrow> 'f AxisDistribution \<Rightarrow>
     'f DeviceFilterDesc list \<times> nat list \<Rightarrow> 'f DeviceFilterDesc \<times> 'f DeviceFilterDesc list \<times> nat list"
where
  "place_desc fl cfg fn_period geom ax bufs =
     (let desc = (BuildDeviceFilterDesc fl cfg fn_period geom ax)
            \<lparr> df_sub_desc_start := length (fst bufs), df_and_terms_start := length (snd bufs) \<rparr>
      in (desc, case fc_param cfg of
                  SimpleParam _ \<Rightarrow> bufs
                | ComplexParam fs \<Rightarrow> BuildComplexSubDescs fl fs fn_period desc bufs))"

lemma starts_fields:
  fixes g :: "'f DeviceFilterDesc"
  shows
    "df_type (g\<lparr> df_sub_desc_start := a, df_and_terms_start := b \<rparr>) = df_type g"
    "df_symmetry (g\<lparr> df_sub_desc_start := a, df_and_terms_start := b \<rparr>) = df_symmetry g"
    "df_d_applicable (g\<lparr> df_sub_desc_start := a, df_and_terms_start := b \<rparr>) = df_d_applicable g"
    "df_sigma_a (g\<lparr> df_sub_desc_start := a, df_and_terms_start := b \<rparr>) = df_sigma_a g"
    "df_fn_period (g\<lparr> df_sub_desc_start := a, df_and_terms_start := b \<rparr>) = df_fn_period g"
    "df_canonical_bytes (g\<lparr> df_sub_desc_start := a, df_and_terms_start := b \<rparr>) = df_canonical_bytes g"
    "df_canonical_len (g\<lparr> df_sub_desc_start := a, df_and_terms_start := b \<rparr>) = df_canonical_len g"
    "df_has_entry (g\<lparr> df_sub_desc_start := a, df_and_terms_start := b \<rparr>) = df_has_entry g"
    "df_has_exit (g\<lparr> df_sub_desc_start := a, df_and_terms_start := b \<rparr>) = df_has_exit g"
    "df_min_len (g\<lparr> df_sub_desc_start := a, df_and_terms_start := b \<rparr>) = df_min_len g"
    "df_max_len (g\<lparr> df_sub_desc_start := a, df_and_terms_start := b \<rparr>) = df_max_len g"
    "df_dir (g\<lparr> df_sub_desc_start := a, df_and_terms_start := b \<rparr>) = df_dir g"
    "df_radii_c (g\<lparr> df_sub_desc_start := a, df_and_terms_start := b \<rparr>) = df_radii_c g"
    "df_crystal_id (g\<lparr> df_sub_desc_start := a, df_and_terms_start := b \<rparr>) = df_crystal_id g"
    "df_shape_p_step (g\<lparr> df_sub_desc_start := a, df_and_terms_start := b \<rparr>) = df_shape_p_step g"
    "df_shape_d_mirror_mask (g\<lparr> df_sub_desc_start := a, df_and_terms_start := b \<rparr>) = df_shape_d_mirror_mask g"
    "df_shape_b_applicable (g\<lparr> df_sub_desc_start := a, df_and_terms_start := b \<rparr>) = df_shape_b_applicable g"
    "df_p_applicable (g\<lparr> df_sub_desc_start := a, df_and_terms_start := b \<rparr>) = df_p_applicable g"
    "df_b_applicable (g\<lparr> df_sub_desc_start := a, df_and_terms_start := b \<rparr>) = df_b_applicable g"
  by simp_all

lemma ReduceBuffer_starts: "ReduceBuffer_dev data (g\<lparr> df_sub_desc_start := a, df_and_terms_start := b \<rparr>) = ReduceBuffer_dev data g"
  unfolding ReduceBuffer_dev_def starts_fields by (rule refl)

lemma MatchSimple_starts:
  "DeviceFilterMatchSimple fl (g\<lparr> df_sub_desc_start := a, df_and_terms_start := b \<rparr>) r = DeviceFilterMatchSimple fl g r"
  unfolding DeviceFilterMatchSimple_def DeviceFilterMatchRaypath_def DeviceFilterMatchEntryExit_def
    DeviceFilterMatchDirection_def ReduceBuffer_starts starts_fields by (rule refl)

lemma device_match_complex:
  assumes fs: "fc_param cfg = ComplexParam fs" "wf_device_param (ComplexParam fs)"
    and r: "legal_path (device_hits r)" "same_ray r ray"
    and place: "place_desc fl cfg 6 geom ax (subs0, counts0) = (f, subs, counts)"
  shows "DeviceFilterMatch fl f (subs @ subs1) (counts @ counts1) r
    \<longleftrightarrow> filter_holds fl (fc_symmetry cfg) ax (fc_param cfg) ray (device_hits r)"
proof -
  let ?sy = "fc_symmetry cfg"
  have f: "f = (base_desc fl ?sy (fc_action cfg) ax)\<lparr> df_type := kDeviceFilterTypeComplex,
      df_or_clause_count := length fs, df_sub_desc_start := length subs0, df_and_terms_start := length counts0 \<rparr>"
    and bufs: "BuildComplexSubDescs fl fs 6 f (subs0, counts0) = (subs, counts)"
    using place fs by (auto simp: place_desc_def Let_def BuildDeviceFilterDesc_eq TopVisitor_def FillComplexDescTop_def)
  have lab: "label_desc fl ?sy ax f" by (simp add: f label_desc_def base_desc_def)
  let ?S = "map (\<lambda>t. sub_desc fl 6 f (snd t))"
  have "length c mod 256 = length c" if "c \<in> set fs" for c
  proof -
    have "length c \<le> 255" using that fs(2) by (simp add: list_all_iff)
    then show ?thesis by simp
  qed
  then have subs: "subs = subs0 @ concat (map ?S fs)" and counts: "counts = counts0 @ map length (map ?S fs)"
    using bufs fs(2) by (auto simp: BuildComplexSubDescs_eq map_concat list_all_iff)
  have clause: "list_all (\<lambda>d. DeviceFilterMatchSimple fl d r) (?S c)
      \<longleftrightarrow> (\<forall>t\<in>set c. predicate_holds fl ?sy ax (snd t) ray (device_hits r))" if "c \<in> set fs" for c
    using that fs(2) sub_desc_matches [OF lab _ r] by (auto simp: list_all_iff)
  have "DeviceFilterMatch fl f (subs @ subs1) (counts @ counts1) r
      \<longleftrightarrow> fs \<noteq> [] \<and> (\<exists>c\<in>set fs. list_all (\<lambda>d. DeviceFilterMatchSimple fl d r) (?S c))"
    using or_clauses_dev_eq [of fl subs0 "map ?S fs" subs1 counts0 counts1 r]
    by (simp add: DeviceFilterMatch_def DeviceFilterMatchComplex_def f subs counts)
  also have "\<dots> \<longleftrightarrow> filter_holds fl ?sy ax (fc_param cfg) ray (device_hits r)"
    using clause fs(1) by auto
  finally show ?thesis .
qed

lemma device_refines:
  assumes wf: "wf_device_param (fc_param cfg)" and r: "legal_path (device_hits r)" "same_ray r ray"
    and place: "place_desc fl cfg 6 geom ax (subs0, counts0) = (f, subs, counts)"
  shows "DeviceFilterCheck fl f (subs @ subs1) (counts @ counts1) r
    \<longleftrightarrow> (fc_action cfg = kFilterIn) = filter_holds fl (fc_symmetry cfg) ax (fc_param cfg) ray (device_hits r)"
proof (cases "fc_param cfg")
  case (SimpleParam p)
  then have f: "f = (SimpleVisitor fl 6 p (base_desc fl (fc_symmetry cfg) (fc_action cfg) ax))
      \<lparr> df_sub_desc_start := length subs0, df_and_terms_start := length counts0 \<rparr>"
    using place by (auto simp: place_desc_def Let_def BuildDeviceFilterDesc_eq TopVisitor_def)
  note ends = MatchSimple_starts
  have "DeviceFilterMatchSimple fl f r \<longleftrightarrow> predicate_holds fl (fc_symmetry cfg) ax p ray (device_hits r)"
    unfolding f ends using wf r SimpleParam by (intro device_predicate) simp_all
  moreover have "df_action f = 0 \<longleftrightarrow> fc_action cfg = kFilterIn" by (simp add: f SimpleVisitor_action)
  moreover have "df_type f \<noteq> kDeviceFilterTypeComplex" by (simp add: f SimpleVisitor_type)
  ultimately show ?thesis
    using SimpleParam by (auto simp: DeviceFilterCheck_def DeviceFilterMatch_def)
next
  case (ComplexParam fs)
  then have "df_action f = 0 \<longleftrightarrow> fc_action cfg = kFilterIn"
    using place by (auto simp: place_desc_def Let_def BuildDeviceFilterDesc_eq TopVisitor_def FillComplexDescTop_def)
  with device_match_complex [OF ComplexParam _ r place] wf ComplexParam show ?thesis
    by (auto simp: DeviceFilterCheck_def Let_def)
qed

end
