(* ===== verification/Text_Utils.thy ===== *)
theory Text_Utils
  imports Lumice_Prelude
begin

text \<open>
  Characters and strings as the text code uses them: the character classes of the C locale, decimal
  printing and reading, and splitting at a separator with its inverse.
\<close>

definition isdigit :: "char \<Rightarrow> bool" where
  "isdigit c \<longleftrightarrow> 48 \<le> (of_char c :: nat) \<and> (of_char c :: nat) \<le> 57"

definition isspace :: "char \<Rightarrow> bool" where
  "isspace c \<longleftrightarrow> (of_char c :: nat) = 32 \<or> 9 \<le> (of_char c :: nat) \<and> (of_char c :: nat) \<le> 13"

definition digit_val :: "char \<Rightarrow> nat" where
  "digit_val c = of_char c - 48"

definition digits_val :: "string \<Rightarrow> nat" where
  "digits_val cs = foldl (\<lambda>v c. v * 10 + digit_val c) 0 cs"

abbreviation all_digits :: "string \<Rightarrow> bool" where
  "all_digits t \<equiv> t \<noteq> [] \<and> list_all isdigit t"

text \<open>Decimal digits, as \<open>std::to_string\<close> prints a non-negative number.\<close>

fun to_string :: "nat \<Rightarrow> string" where
  "to_string n = (if n < 10 then [char_of (n + 48)] else to_string (n div 10) @ [char_of (n mod 10 + 48)])"

declare to_string.simps [simp del]

definition int_to_string :: "int \<Rightarrow> string" where
  "int_to_string n = (if n < 0 then CHR ''-'' # to_string (nat (- n)) else to_string (nat n))"

fun split_on :: "char \<Rightarrow> string \<Rightarrow> string list" where
  "split_on sep [] = [[]]"
| "split_on sep (c # cs) = (if c = sep then [] # split_on sep cs
     else (c # hd (split_on sep cs)) # tl (split_on sep cs))"

fun join_with :: "string \<Rightarrow> string list \<Rightarrow> string" where
  "join_with sep [] = []"
| "join_with sep [t] = t"
| "join_with sep (t # ts) = t @ sep @ join_with sep ts"

section \<open>Digits\<close>

lemma isdigit_char_of [simp]: "n < 10 \<Longrightarrow> isdigit (char_of (n + 48 :: nat))"
  by (simp add: isdigit_def)

lemma digit_val_char_of [simp]: "n < 10 \<Longrightarrow> digit_val (char_of (n + 48 :: nat)) = n"
  by (simp add: digit_val_def)

lemma digit_val_less: "isdigit c \<Longrightarrow> digit_val c < 10"
  unfolding isdigit_def digit_val_def by linarith

lemma digits_val_snoc [simp]: "digits_val (cs @ [c]) = digits_val cs * 10 + digit_val c"
  by (simp add: digits_val_def)

lemma digits_val_Nil [simp]: "digits_val [] = 0"
  by (simp add: digits_val_def)

lemma to_string_digits [simp]: "list_all isdigit (to_string n)"
  by (induction n rule: to_string.induct) (subst to_string.simps, auto)

lemma to_string_nonempty [simp]: "to_string n \<noteq> []"
  by (subst to_string.simps) auto

lemma digits_val_to_string [simp]: "digits_val (to_string n) = n"
proof (induction n rule: to_string.induct)
  case (1 n)
  show ?case
  proof (cases "n < 10")
    case True
    then show ?thesis by (subst to_string.simps) (simp add: digits_val_def)
  next
    case False
    then show ?thesis using 1 by (subst to_string.simps) simp
  qed
qed

lemma to_string_inj: "to_string m = to_string n \<longleftrightarrow> m = n"
  by (metis digits_val_to_string)

lemma length_to_string: "n < 10 ^ k \<Longrightarrow> 0 < k \<Longrightarrow> length (to_string n) \<le> k"
proof (induction n arbitrary: k rule: to_string.induct)
  case (1 n)
  show ?case
  proof (cases "n < 10")
    case False
    with "1.prems" have "k \<noteq> 1" by auto
    with "1.prems"(2) obtain j where k: "k = Suc j" "0 < j"
      by (cases k) auto
    with "1.prems" have "n div 10 < 10 ^ j" by (simp add: less_mult_imp_div_less mult.commute)
    then show ?thesis using 1 False k by (subst to_string.simps) simp
  qed (use "1.prems" in \<open>subst to_string.simps, simp\<close>)
qed

lemma not_digit [simp]:
  "\<not> isdigit CHR ''-''" "\<not> isdigit CHR '',''" "\<not> isdigit CHR '';''" "\<not> isdigit CHR ''&''" "\<not> isdigit CHR '' ''"
  by (simp_all add: isdigit_def)

lemma digit_not_space: "isdigit c \<Longrightarrow> \<not> isspace c"
  by (auto simp: isdigit_def isspace_def)

lemma digits_not_in: "list_all isdigit t \<Longrightarrow> \<not> isdigit c \<Longrightarrow> c \<notin> set t"
  by (auto simp: list_all_iff)

section \<open>Splitting and joining\<close>

lemma split_on_nonempty [simp]: "split_on sep cs \<noteq> []"
  by (cases cs) auto

lemma split_on_no_sep [simp]: "sep \<notin> set cs \<Longrightarrow> split_on sep cs = [cs]"
  by (induction cs) auto

lemma split_on_append: "sep \<notin> set a \<Longrightarrow> split_on sep (a @ sep # b) = a # split_on sep b"
  by (induction a) auto

lemma split_on_no_sep_in: "t \<in> set (split_on sep cs) \<Longrightarrow> sep \<notin> set t"
proof (induction cs arbitrary: t)
  case (Cons c cs)
  have "set (split_on sep cs) = insert (hd (split_on sep cs)) (set (tl (split_on sep cs)))"
    by (cases "split_on sep cs") simp_all
  with Cons.IH have tail: "sep \<notin> set u" if "u = hd (split_on sep cs) \<or> u \<in> set (tl (split_on sep cs))" for u
    using that by blast
  show ?case
  proof (cases "c = sep")
    case True
    then show ?thesis using Cons.prems Cons.IH by auto
  next
    case False
    with Cons.prems have "t = c # hd (split_on sep cs) \<or> t \<in> set (tl (split_on sep cs))" by simp
    then show ?thesis using False tail [of t] tail [OF disjI1 [OF refl]] by (elim disjE) simp_all
  qed
qed simp

lemma join_with_Cons: "join_with sep (t # ts) = (if ts = [] then t else t @ sep @ join_with sep ts)"
  by (cases ts) auto

lemma split_on_join: "(\<And>t. t \<in> set ts \<Longrightarrow> sep \<notin> set t) \<Longrightarrow> ts \<noteq> [] \<Longrightarrow> split_on sep (join_with [sep] ts) = ts"
proof (induction ts)
  case (Cons t ts)
  have "split_on sep (join_with [sep] ts) = ts" if "ts \<noteq> []" using Cons that by simp
  then show ?case using Cons.prems(1) [of t] by (simp add: join_with_Cons split_on_append)
qed simp

lemma join_with_Cons_char: "ts \<noteq> [] \<Longrightarrow> join_with sep ((c # hd ts) # tl ts) = c # join_with sep ts"
  by (cases ts) (simp_all add: join_with_Cons)

lemma join_split_on: "join_with [sep] (split_on sep cs) = cs"
proof (induction cs)
  case (Cons c cs)
  then show ?case using join_with_Cons_char [of "split_on sep cs" "[sep]" c] by (simp add: join_with_Cons)
qed simp

lemma split_on_eq_Nil_tok: "split_on sep cs = [[]] \<longleftrightarrow> cs = []"
  by (cases cs) auto

end
