(* ===== verification/Raypath_Text.thy ===== *)
theory Raypath_Text
  imports Text_Utils Face_Labels
begin

text \<open>
  Validation of raypath and face-number text (\<open>src/config/raypath_validation.hpp\<close>,
  \<open>src/config/raypath_validation.cpp\<close>): the syntax of a dash-separated path, the legality of its faces for a
  crystal kind, single face numbers and comma-separated lists of them.

  A position in a text is the suffix that starts there; the current token of the scan is the list of its
  characters.  The last part characterises each validator by the tokens of the text and shows that the
  printed form of every legal path is accepted.
\<close>

section \<open>The code\<close>

datatype RaypathValidation = kValid | kIncomplete | kInvalid

record RaypathValidationResult =
  rv_state :: RaypathValidation
  rv_message :: string

abbreviation result_of :: "RaypathValidation \<Rightarrow> string \<Rightarrow> RaypathValidationResult" where
  "result_of s m \<equiv> \<lparr> rv_state = s, rv_message = m \<rparr>"

definition IsSeparator :: "char \<Rightarrow> bool" where
  "IsSeparator c \<longleftrightarrow> c = CHR ''-''"

fun AllSeparators :: "string \<Rightarrow> bool" where
  "AllSeparators [] = True"
| "AllSeparators (c # str) = (if \<not> IsSeparator c then False else AllSeparators str)"

fun TokenAllDigits :: "string \<Rightarrow> bool" where
  "TokenAllDigits [] = True"
| "TokenAllDigits (c # str) = (if \<not> isdigit c then False else TokenAllDigits str)"

text \<open>\<open>token\<close> is \<open>None\<close> outside a token; the two flags are found_bad_token and found_interior_empty.\<close>

fun ScanTokens :: "string \<Rightarrow> bool \<Rightarrow> string option \<Rightarrow> bool \<times> bool \<Rightarrow> bool \<times> bool" where
  "ScanTokens [] prev_was_sep token (bad, gap) =
     (case token of None \<Rightarrow> (bad, gap) | Some t \<Rightarrow> (if \<not> TokenAllDigits t then True else bad, gap))"
| "ScanTokens (c # str) prev_was_sep token (bad, gap) =
     (if IsSeparator c
      then (case token of
              Some t \<Rightarrow> ScanTokens str True None (if \<not> TokenAllDigits t then True else bad, gap)
            | None \<Rightarrow> ScanTokens str True None (bad, if prev_was_sep then True else gap))
      else (case token of
              None \<Rightarrow> ScanTokens str False (Some [c]) (bad, gap)
            | Some t \<Rightarrow> ScanTokens str False (Some (t @ [c])) (bad, gap)))"

definition ValidateRaypathText :: "string \<Rightarrow> RaypathValidation" where
  "ValidateRaypathText str =
     (if str = [] then kValid
      else
        let has_leading_sep = IsSeparator (hd str); has_trailing_sep = IsSeparator (last str)
        in if (has_leading_sep \<or> has_trailing_sep) \<and> AllSeparators str then kIncomplete
           else
             let (found_bad_token, found_interior_empty) = ScanTokens str False None (False, False)
             in if found_bad_token \<or> found_interior_empty then kInvalid
                else if has_leading_sep \<or> has_trailing_sep then kIncomplete
                else kValid)"

definition IsLegalFaceGlobal :: "int \<Rightarrow> bool" where
  "IsLegalFaceGlobal face = IsLegalFace kPyramid face"

definition CrystalKindLabel :: "CrystalKind \<Rightarrow> string" where
  "CrystalKindLabel kind = (case kind of kPrism \<Rightarrow> ''Prism'' | kPyramid \<Rightarrow> ''Pyramid'')"

definition kMaxFaceDigits :: nat where "kMaxFaceDigits = 3"

definition kCommaConnectorMessage :: string where
  "kCommaConnectorMessage =
     (let q = [CHR 0x27]
      in q @ '','' @ q @ '' is not a path connector: use '' @ q @ ''-'' @ q @ '' to join faces on the same path (3-5), use '' @
         q @ '';'' @ q @ '' to separate different paths (3-5;1-2)'')"

text \<open>The digit loop of the token reader, then the reader: the face and the text behind it.\<close>

fun read_digits :: "string \<Rightarrow> int \<Rightarrow> nat \<Rightarrow> bool \<Rightarrow> int \<times> nat \<times> bool \<times> string" where
  "read_digits [] v digit_count overflow = (v, digit_count, overflow, [])"
| "read_digits (c # str) v digit_count overflow =
     (if isdigit c
      then if digit_count < kMaxFaceDigits then read_digits str (v * 10 + int (digit_val c)) (digit_count + 1) overflow
           else read_digits str v (digit_count + 1) True
      else (v, digit_count, overflow, c # str))"

fun skip_separators :: "string \<Rightarrow> string" where
  "skip_separators [] = []"
| "skip_separators (c # str) = (if IsSeparator c then skip_separators str else c # str)"

definition kIntMax :: int where "kIntMax = 2147483647"

definition ExtractNextFace :: "string \<Rightarrow> (int \<times> string) option" where
  "ExtractNextFace str =
     (let str = skip_separators str
      in if str = [] then None
         else
           let (v, digit_count, overflow, rest) = read_digits str 0 0 False
           in if digit_count = 0 then None else Some (if overflow then kIntMax else v, rest))"

definition face_message_global :: "int \<Rightarrow> string" where
  "face_message_global face = ''Face '' @ to_string (nat face) @ '' is outside the legal range of any crystal''"

definition face_message_kind :: "int \<Rightarrow> CrystalKind \<Rightarrow> string" where
  "face_message_kind face kind =
     ''Face '' @ to_string (nat face) @ '' is not legal on this crystal type ('' @ CrystalKindLabel kind @ '')''"

lemma read_digits_length: "read_digits str v n ov = (v', n', ov', rest) \<Longrightarrow> length rest + n' = length str + n"
  by (induction str arbitrary: v n ov) (auto split: if_splits)

lemma skip_separators_length: "length (skip_separators str) \<le> length str"
  by (induction str) auto

lemma ExtractNextFace_length: "ExtractNextFace str = Some (face, rest) \<Longrightarrow> length rest < length str"
  using skip_separators_length [of str]
  by (auto simp: ExtractNextFace_def Let_def split: if_splits prod.splits dest!: read_digits_length)

function check_faces :: "CrystalKind \<Rightarrow> string \<Rightarrow> RaypathValidationResult" where
  "check_faces kind str =
     (case ExtractNextFace str of
        None \<Rightarrow> result_of kValid ''''
      | Some (face, rest) \<Rightarrow>
          if \<not> IsLegalFaceGlobal face then result_of kInvalid (face_message_global face)
          else if \<not> IsLegalFace kind face then result_of kInvalid (face_message_kind face kind)
          else check_faces kind rest)"
  by pat_completeness auto
termination
  by (relation "measure (\<lambda>(kind, str). length str)") (auto dest: ExtractNextFace_length)

declare check_faces.simps [simp del]

definition ValidateRaypathText_kind :: "string \<Rightarrow> CrystalKind \<Rightarrow> RaypathValidationResult" where
  "ValidateRaypathText_kind str kind =
     (let syntax_state = ValidateRaypathText str
      in if syntax_state \<noteq> kValid
         then result_of syntax_state
           (if syntax_state = kInvalid then if CHR '','' \<in> set str then kCommaConnectorMessage else ''Invalid raypath''
            else '''')
         else check_faces kind str)"

definition ValidateFaceNumberText :: "string \<Rightarrow> CrystalKind \<Rightarrow> RaypathValidationResult" where
  "ValidateFaceNumberText str kind =
     (if str = [] then result_of kIncomplete ''''
      else if list_ex (\<lambda>c. \<not> isdigit c) str then result_of kInvalid ''must be a single non-negative integer''
      else if kMaxFaceDigits < length str then result_of kInvalid ''face number out of range''
      else
        let face = foldl (\<lambda>face c. face * 10 + int (digit_val c)) 0 str
        in if \<not> IsLegalFaceGlobal face then result_of kInvalid (face_message_global face)
           else if \<not> IsLegalFace kind face then result_of kInvalid (face_message_kind face kind)
           else result_of kValid '''')"

text \<open>The loop over a list: \<open>rest\<close> is the text from \<open>pos\<close> on.\<close>

function check_list :: "CrystalKind \<Rightarrow> string \<Rightarrow> RaypathValidationResult" where
  "check_list kind rest =
     (if rest = [] then result_of kValid ''''
      else
        let token = takeWhile (\<lambda>c. c \<noteq> CHR '','') rest
        in if token = [] then result_of kInvalid ''Empty face number in list''
           else
             let r = ValidateFaceNumberText token kind
             in if rv_state r \<noteq> kValid then r else check_list kind (drop (length token + 1) rest))"
  by pat_completeness auto
termination
  by (relation "measure (\<lambda>(kind, rest). length rest)") auto

declare check_list.simps [simp del]

definition ValidateFaceNumberListText :: "string \<Rightarrow> CrystalKind \<Rightarrow> RaypathValidationResult" where
  "ValidateFaceNumberListText str kind =
     (if str = [] then result_of kValid ''''
      else if last str = CHR '','' then result_of kIncomplete ''''
      else check_list kind str)"

section \<open>The syntax in terms of tokens\<close>

lemma TokenAllDigits_iff: "TokenAllDigits t = list_all isdigit t"
  by (induction t) auto

lemma AllSeparators_iff: "AllSeparators t \<longleftrightarrow> set t \<subseteq> {CHR ''-''}"
  by (induction t) (auto simp: IsSeparator_def)

abbreviation bad_token :: "string \<Rightarrow> bool" where
  "bad_token t \<equiv> t \<noteq> [] \<and> \<not> list_all isdigit t"

text \<open>The scan sees the tokens of the text behind it; the open token is a prefix of the first of them.  Only a
  token that is neither the first nor the last of the str can be an interior gap.\<close>

definition tokens_from :: "string option \<Rightarrow> string \<Rightarrow> string list" where
  "tokens_from token str =
     ((case token of None \<Rightarrow> [] | Some t \<Rightarrow> t) @ hd (split_on (CHR ''-'') str)) # tl (split_on (CHR ''-'') str)"

lemma tokens_from_None: "tokens_from None str = split_on (CHR ''-'') str"
  by (simp add: tokens_from_def)

lemma ScanTokens_spec:
  assumes "\<And>t. token = Some t \<Longrightarrow> t \<noteq> [] \<and> \<not> prev"
  shows "ScanTokens str prev token (bad, gap) =
    (bad \<or> list_ex bad_token (tokens_from token str),
     gap \<or> [] \<in> set (butlast (if prev then tokens_from token str else tl (tokens_from token str))))"
  using assms
proof (induction str arbitrary: prev token bad gap)
  case Nil
  then show ?case by (auto simp: tokens_from_def TokenAllDigits_iff split: option.splits)
next
  case (Cons c str)
  obtain u us where split: "split_on (CHR ''-'') str = u # us" by (meson neq_Nil_conv split_on_nonempty)
  show ?case
  proof (cases "IsSeparator c")
    case True
    then show ?thesis
      using Cons.IH [of None True] Cons.prems
      by (auto simp: tokens_from_def TokenAllDigits_iff IsSeparator_def split split: option.splits)
  next
    case False
    then show ?thesis
      using Cons.IH [of "Some [c]" False] Cons.IH [of "Some (the token @ [c])" False] Cons.prems
      by (cases token) (simp_all add: tokens_from_def IsSeparator_def split)
  qed
qed

lemma split_on_hd: "s \<noteq> [] \<Longrightarrow> hd (split_on sep s) = [] \<longleftrightarrow> hd s = sep"
  by (cases s) auto

lemma split_on_last: "s \<noteq> [] \<Longrightarrow> last (split_on sep s) = [] \<longleftrightarrow> last s = sep"
proof (induction s)
  case (Cons c s)
  obtain u us where split: "split_on sep s = u # us" by (meson neq_Nil_conv split_on_nonempty)
  then have "s = [] \<longleftrightarrow> u = [] \<and> us = []" using split_on_eq_Nil_tok [of sep s] by auto
  with Cons split show ?case by (cases "s = []"; cases us) auto
qed simp

theorem ValidateRaypathText_invalid_iff:
  assumes "str \<noteq> []" and "\<not> AllSeparators str"
  shows "ValidateRaypathText str = kInvalid \<longleftrightarrow>
    list_ex bad_token (split_on (CHR ''-'') str) \<or> [] \<in> set (butlast (tl (split_on (CHR ''-'') str)))"
proof -
  have "ScanTokens str False None (False, False) =
      (list_ex bad_token (split_on (CHR ''-'') str), [] \<in> set (butlast (tl (split_on (CHR ''-'') str))))"
    using ScanTokens_spec [of None False str False False] by (simp add: tokens_from_None)
  then show ?thesis using assms by (simp add: ValidateRaypathText_def Let_def)
qed

lemma ends_and_middle: "ts \<noteq> [] \<Longrightarrow> x \<in> set ts \<Longrightarrow> x = hd ts \<or> x = last ts \<or> x \<in> set (butlast (tl ts))"
  by (cases ts; cases "tl ts" rule: rev_cases) auto

theorem ValidateRaypathText_valid_iff:
  "ValidateRaypathText str = kValid \<longleftrightarrow> str = [] \<or> list_all all_digits (split_on (CHR ''-'') str)"
proof (cases "str = []")
  case False
  define ts where "ts = split_on (CHR ''-'') str"
  have scan: "ScanTokens str False None (False, False) = (list_ex bad_token ts, [] \<in> set (butlast (tl ts)))"
    using ScanTokens_spec [of None False str False False] by (simp add: tokens_from_None ts_def)
  have ends: "IsSeparator (hd str) \<longleftrightarrow> hd ts = []" "IsSeparator (last str) \<longleftrightarrow> last ts = []"
    using split_on_hd [OF False] split_on_last [OF False] by (auto simp: IsSeparator_def ts_def)
  have ne: "ts \<noteq> []" by (simp add: ts_def)
  have "list_all all_digits ts \<longleftrightarrow> \<not> list_ex bad_token ts \<and> [] \<notin> set ts"
    by (auto simp: list_all_iff list_ex_iff)
  moreover have "[] \<in> set ts \<longleftrightarrow> hd ts = [] \<or> last ts = [] \<or> [] \<in> set (butlast (tl ts))"
    using ends_and_middle [OF ne, of "[]"] ne by (metis hd_in_set last_in_set in_set_butlastD list.set_sel(2))
  ultimately show ?thesis
    using False unfolding ValidateRaypathText_def Let_def scan ends ts_def [symmetric] by auto
qed (simp add: ValidateRaypathText_def)

section \<open>Legality of the faces\<close>

definition legal_token :: "CrystalKind \<Rightarrow> string \<Rightarrow> bool" where
  "legal_token kind t \<longleftrightarrow> all_digits t \<and> length t \<le> kMaxFaceDigits \<and> IsLegalFace kind (int (digits_val t))"

lemma IsLegalFace_global: "IsLegalFace kind face \<Longrightarrow> IsLegalFaceGlobal face"
  by (cases kind) (simp_all add: IsLegalFaceGlobal_def kPrism_legal)

lemma int_digits: "foldl (\<lambda>v c. v * 10 + int (digit_val c)) (int n) t = int (foldl (\<lambda>v c. v * 10 + digit_val c) n t)"
proof (induction t arbitrary: n)
  case (Cons c t)
  have "int n * 10 + int (digit_val c) = int (n * 10 + digit_val c)" by simp
  then show ?case using Cons by (simp only: foldl_Cons)
qed simp

lemma int_digits_val: "foldl (\<lambda>v c. v * 10 + int (digit_val c)) 0 t = int (digits_val t)"
  using int_digits [of 0 t] by (simp add: digits_val_def)

theorem ValidateFaceNumberText_valid_iff:
  "rv_state (ValidateFaceNumberText t kind) = kValid \<longleftrightarrow> legal_token kind t"
proof -
  have "list_ex (\<lambda>c. \<not> isdigit c) t \<longleftrightarrow> \<not> list_all isdigit t" by (auto simp: list_all_iff list_ex_iff)
  then show ?thesis
    using IsLegalFace_global [of kind "int (digits_val t)"]
    by (auto simp: ValidateFaceNumberText_def legal_token_def int_digits_val Let_def)
qed

lemma read_digits_spec:
  "list_all isdigit t \<Longrightarrow> rest = [] \<or> \<not> isdigit (hd rest) \<Longrightarrow>
   read_digits (t @ rest) v n ov =
     (foldl (\<lambda>v c. v * 10 + int (digit_val c)) v (take (kMaxFaceDigits - n) t), n + length t,
      ov \<or> t \<noteq> [] \<and> kMaxFaceDigits < n + length t, rest)"
proof (induction t arbitrary: v n ov)
  case Nil
  then show ?case by (cases rest) auto
next
  case (Cons c t)
  have "take (kMaxFaceDigits - n) (c # t) = c # take (kMaxFaceDigits - Suc n) t" if "n < kMaxFaceDigits"
    using that by (metis Suc_diff_Suc take_Suc_Cons)
  then show ?case using Cons by (cases "n < kMaxFaceDigits") auto
qed

definition token_face :: "string \<Rightarrow> int" where
  "token_face t = (if length t \<le> kMaxFaceDigits then int (digits_val t) else kIntMax)"

lemma skip_separators_token: "all_digits t \<Longrightarrow> skip_separators (t @ rest) = t @ rest"
  by (cases t) (auto simp: IsSeparator_def)

lemma ExtractNextFace_token:
  assumes "all_digits t" and "rest = [] \<or> \<not> isdigit (hd rest)"
  shows "ExtractNextFace (t @ rest) = Some (token_face t, rest)"
    and "ExtractNextFace (CHR ''-'' # t @ rest) = Some (token_face t, rest)"
  using assms skip_separators_token [OF assms(1), of rest] read_digits_spec [of t rest 0 0 False]
  by (simp_all add: ExtractNextFace_def Let_def token_face_def int_digits_val IsSeparator_def)

lemma kIntMax_illegal: "\<not> IsLegalFace kind kIntMax"
  by (cases kind) (simp_all add: IsLegalFace_def kIntMax_def Let_def)

lemma token_face_legal: "all_digits t \<Longrightarrow> IsLegalFace kind (token_face t) \<longleftrightarrow> legal_token kind t"
  by (simp add: token_face_def legal_token_def kIntMax_illegal)

lemma check_faces_Nil: "check_faces kind [] = result_of kValid []"
  by (subst check_faces.simps) (simp add: ExtractNextFace_def Let_def)

lemma check_faces_tokens:
  "list_all all_digits ts \<Longrightarrow> ts \<noteq> [] \<Longrightarrow>
    (rv_state (check_faces kind (join_with ''-'' ts)) = kValid \<longleftrightarrow> list_all (legal_token kind) ts) \<and>
    (rv_state (check_faces kind (CHR ''-'' # join_with ''-'' ts)) = kValid \<longleftrightarrow> list_all (legal_token kind) ts)"
proof (induction ts)
  case (Cons t ts)
  define rest where "rest = (if ts = [] then [] else CHR ''-'' # join_with ''-'' ts)"
  have str: "join_with ''-'' (t # ts) = t @ rest" by (simp add: join_with_Cons rest_def)
  have rest: "rest = [] \<or> \<not> isdigit (hd rest)" by (simp add: rest_def)
  have tail: "rv_state (check_faces kind rest) = kValid \<longleftrightarrow> list_all (legal_token kind) ts"
    using Cons by (cases "ts = []") (simp_all add: rest_def check_faces_Nil)
  have t: "all_digits t" using Cons.prems(1) by simp
  show ?case
    unfolding str using tail token_face_legal [OF t, of kind] IsLegalFace_global [of kind "token_face t"]
    by (subst (1 2) check_faces.simps) (simp add: ExtractNextFace_token [OF t rest])
qed simp

theorem ValidateRaypathText_kind_valid_iff:
  "rv_state (ValidateRaypathText_kind str kind) = kValid \<longleftrightarrow>
    str = [] \<or> list_all (legal_token kind) (split_on (CHR ''-'') str)"
proof (cases "ValidateRaypathText str = kValid")
  case True
  have eq: "str = join_with ''-'' (split_on (CHR ''-'') str)" by (simp add: join_split_on)
  show ?thesis
  proof (cases "str = []")
    case False
    then have "list_all all_digits (split_on (CHR ''-'') str)" using True ValidateRaypathText_valid_iff [of str] by blast
    from check_faces_tokens [OF this split_on_nonempty, of kind] show ?thesis
      using False True eq by (simp add: ValidateRaypathText_kind_def Let_def)
  qed (simp add: ValidateRaypathText_kind_def ValidateRaypathText_def check_faces_Nil)
next
  case False
  then have "\<not> list_all all_digits (split_on (CHR ''-'') str)" "str \<noteq> []"
    by (auto simp only: ValidateRaypathText_valid_iff)
  then show ?thesis
    using False by (auto simp: ValidateRaypathText_kind_def Let_def list_all_iff legal_token_def)
qed

lemma check_list_tokens:
  "ts \<noteq> [] \<Longrightarrow> (\<And>t. t \<in> set ts \<Longrightarrow> CHR '','' \<notin> set t) \<Longrightarrow> last ts \<noteq> [] \<Longrightarrow>
    rv_state (check_list kind (join_with '','' ts)) = kValid \<longleftrightarrow> list_all (legal_token kind) ts"
proof (induction ts)
  case (Cons t ts)
  define rest where "rest = (if ts = [] then [] else CHR '','' # join_with '','' ts)"
  have str: "join_with '','' (t # ts) = t @ rest" by (simp add: join_with_Cons rest_def)
  have token: "takeWhile (\<lambda>c. c \<noteq> CHR '','') (t @ rest) = t"
    using Cons.prems(2) [of t] by (subst takeWhile_append2) (auto simp: rest_def)
  have tail: "rv_state (check_list kind (drop (length t + 1) (t @ rest))) = kValid \<longleftrightarrow> list_all (legal_token kind) ts"
    using Cons by (cases "ts = []") (simp_all add: rest_def check_list.simps [of kind "[]"])
  have "t @ rest \<noteq> []" using Cons.prems(3) by (auto simp: rest_def)
  then show ?case
    unfolding str using tail ValidateFaceNumberText_valid_iff [of t kind]
    by (subst check_list.simps) (auto simp: token Let_def legal_token_def)
qed simp

theorem ValidateFaceNumberListText_valid_iff:
  "rv_state (ValidateFaceNumberListText str kind) = kValid \<longleftrightarrow>
    str = [] \<or> list_all (legal_token kind) (split_on (CHR '','') str)"
proof (cases "str = [] \<or> last str = CHR '',''")
  case True
  have "[] \<in> set (split_on (CHR '','') str)" if "str \<noteq> []" "last str = CHR '',''"
    using split_on_last [OF that(1), of "CHR '',''"] last_in_set [OF split_on_nonempty, of "CHR '',''" str] that(2) by simp
  then show ?thesis
    using True
    by (auto simp: ValidateFaceNumberListText_def list_all_iff legal_token_def intro!: bexI [of _ "[]"])
next
  case False
  then have "rv_state (check_list kind (join_with '','' (split_on (CHR '','') str))) = kValid
      \<longleftrightarrow> list_all (legal_token kind) (split_on (CHR '','') str)"
    by (intro check_list_tokens) (auto dest: split_on_no_sep_in simp: split_on_last)
  then show ?thesis using False by (simp add: ValidateFaceNumberListText_def join_split_on)
qed

text \<open>The printed form of legal faces is accepted.\<close>

lemma legal_token_to_string: "IsLegalFace kind (int f) \<Longrightarrow> legal_token kind (to_string f)"
proof -
  assume legal: "IsLegalFace kind (int f)"
  then have "f < 10 ^ 2" by (cases kind) (auto simp: IsLegalFace_def Let_def)
  from length_to_string [OF this] show ?thesis using legal by (simp add: legal_token_def kMaxFaceDigits_def)
qed

lemma legal_token_no_sep: "legal_token kind t \<Longrightarrow> CHR ''-'' \<notin> set t \<and> CHR '','' \<notin> set t"
  using digits_not_in [of t "CHR ''-''"] digits_not_in [of t "CHR '',''"] by (simp add: legal_token_def)

theorem printed_path_valid:
  assumes "list_all (\<lambda>f. IsLegalFace kind (int f)) fs"
  shows "rv_state (ValidateRaypathText_kind (join_with ''-'' (map to_string fs)) kind) = kValid"
proof (cases "fs = []")
  case False
  have legal: "list_all (legal_token kind) (map to_string fs)"
    using assms by (auto simp: list_all_iff intro: legal_token_to_string)
  then have "split_on (CHR ''-'') (join_with ''-'' (map to_string fs)) = map to_string fs"
    using False by (intro split_on_join) (auto simp: list_all_iff dest: legal_token_no_sep)
  then show ?thesis using legal by (simp add: ValidateRaypathText_kind_valid_iff)
qed (simp add: ValidateRaypathText_kind_valid_iff)

end
