(* ===== verification/Summand_Text.thy ===== *)
theory Summand_Text
  imports Raypath_Text
begin

text \<open>
  The text form of a filter row (\<open>src/gui/raypath_segments.hpp\<close>, with the row types and
  \<open>FormatEntryExitFactorText\<close> of \<open>src/gui/gui_state.hpp\<close>): splitting, validating, parsing and printing an
  AND of raypath and entry/exit factors, and the migration of old rows.

  The callbacks of \<open>WalkSummandEeFlush\<close> capture their caller's locals by reference; here they take and
  return that state.  The validator reaches the core through \<open>LUMICE_ValidateRaypathText\<close>, whose C string
  ends at the first NUL and whose message buffer holds 255 characters.
\<close>

section \<open>The code\<close>

record RaypathParams =
  rp_raypath_text :: string

record EntryExitParams =
  ep_entry_text :: string
  ep_exit_text :: string
  ep_length_mode :: int
  ep_min_len :: int
  ep_max_len :: int

definition EntryExitParams_new :: EntryExitParams where
  "EntryExitParams_new = \<lparr> ep_entry_text = [], ep_exit_text = [], ep_length_mode = 0, ep_min_len = 1, ep_max_len = 1 \<rparr>"

datatype Factor = RaypathFactor RaypathParams | EntryExitFactor EntryExitParams

record SummandText =
  st_text :: string
  st_factors :: "Factor list"

type_synonym SumOfProducts = "SummandText list"

definition FormatEntryExitFactorText :: "EntryExitParams \<Rightarrow> string" where
  "FormatEntryExitFactorText ep =
     (let out = ''entry:'' @ ep_entry_text ep;
          out = (if ep_exit_text ep \<noteq> [] then out @ '' & exit:'' @ ep_exit_text ep else out)
      in if ep_length_mode ep = 1 then out @ '' & len:'' @ int_to_string (ep_min_len ep)
         else if ep_length_mode ep = 2 then out @ '' & len:<='' @ int_to_string (ep_max_len ep)
         else if ep_length_mode ep = 3
         then out @ '' & len:'' @ int_to_string (ep_min_len ep) @ ''-'' @ int_to_string (ep_max_len ep)
         else out)"

definition TrimRaypathSegment :: "string \<Rightarrow> string" where
  "TrimRaypathSegment s = rev (dropWhile isspace (rev (dropWhile isspace s)))"

fun split_segments :: "string \<Rightarrow> string \<Rightarrow> string list" where
  "split_segments cur [] = [TrimRaypathSegment cur]"
| "split_segments cur (c # str) =
     (if c = CHR '';'' then TrimRaypathSegment cur # split_segments [] str else split_segments (cur @ [c]) str)"

definition SplitRaypathSegments :: "string \<Rightarrow> string list" where
  "SplitRaypathSegments str = (if str = [] then [] else split_segments [] str)"

definition GuiValidateFaceNumberText :: "string \<Rightarrow> CrystalKind \<Rightarrow> RaypathValidationResult" where
  "GuiValidateFaceNumberText str kind =
     (if str = [] then result_of kIncomplete ''''
      else if 3 < length str then result_of kInvalid ''face number out of range''
      else if list_ex (\<lambda>c. \<not> isdigit c) str then result_of kInvalid ''must be a single non-negative integer''
      else
        let face = int (digits_val str)
        in if \<not> IsLegalFace kPyramid face
           then result_of kInvalid (''Face '' @ to_string (nat face) @ '' is outside the legal range of any crystal'')
           else if \<not> IsLegalFace kind face
           then result_of kInvalid
             (''Face '' @ to_string (nat face) @ '' is not legal on this crystal type ('' @
              (if kind = kPrism then ''Prism'' else ''Pyramid'') @ '')'')
           else result_of kValid '''')"

function gui_check_list :: "CrystalKind \<Rightarrow> string \<Rightarrow> RaypathValidationResult" where
  "gui_check_list kind rest =
     (if rest = [] then result_of kValid ''''
      else
        let token = takeWhile (\<lambda>c. c \<noteq> CHR '','') rest
        in if token = [] then result_of kInvalid ''Empty face number in list''
           else
             let sr = GuiValidateFaceNumberText token kind
             in if rv_state sr \<noteq> kValid then sr else gui_check_list kind (drop (length token + 1) rest))"
  by pat_completeness auto
termination
  by (relation "measure (\<lambda>(kind, rest). length rest)") auto

declare gui_check_list.simps [simp del]

definition GuiValidateFaceNumberListText :: "string \<Rightarrow> CrystalKind \<Rightarrow> RaypathValidationResult" where
  "GuiValidateFaceNumberListText str kind =
     (if str = [] then result_of kValid ''''
      else if last str = CHR '','' then result_of kIncomplete ''''
      else gui_check_list kind str)"

definition c_str :: "string \<Rightarrow> string" where
  "c_str s = takeWhile (\<lambda>c. c \<noteq> CHR 0x00) s"

definition LUMICE_ValidateRaypathText :: "string \<Rightarrow> CrystalKind \<Rightarrow> RaypathValidationResult" where
  "LUMICE_ValidateRaypathText str kind =
     (let r = ValidateRaypathText_kind (c_str str) kind in result_of (rv_state r) (take 255 (rv_message r)))"

text \<open>The separator check: \<open>None\<close> when an empty piece is found, else whether the last piece is empty.\<close>

fun scan_pieces :: "char \<Rightarrow> string \<Rightarrow> bool \<Rightarrow> bool option" where
  "scan_pieces sep [] sep_pending = Some sep_pending"
| "scan_pieces sep (c # str) sep_pending =
     (if c = sep then if sep_pending then None else scan_pieces sep str True
      else if \<not> isspace c then scan_pieces sep str False
      else scan_pieces sep str sep_pending)"

fun check_segments :: "CrystalKind \<Rightarrow> nat \<Rightarrow> string list \<Rightarrow> RaypathValidationResult" where
  "check_segments kind idx [] = result_of kValid ''''"
| "check_segments kind idx (seg # segs) =
     (let idx = idx + 1
      in if seg = [] then result_of kInvalid (''Empty raypath segment '' @ to_string idx)
         else
           let r = LUMICE_ValidateRaypathText seg kind
           in if rv_state r \<noteq> kValid
              then result_of (rv_state r) (''Segment '' @ to_string idx @ '': '' @ rv_message r)
              else check_segments kind idx segs)"

definition ValidateRaypathTextMultiSegment :: "string \<Rightarrow> CrystalKind \<Rightarrow> RaypathValidationResult" where
  "ValidateRaypathTextMultiSegment str kind =
     (if str = [] then result_of kValid ''''
      else if CHR '';'' \<notin> set str then LUMICE_ValidateRaypathText str kind
      else case scan_pieces (CHR '';'') str True of
             None \<Rightarrow> result_of kInvalid ''Empty raypath segment''
           | Some sep_pending \<Rightarrow>
               if sep_pending then result_of kInvalid ''Empty raypath segment''
               else check_segments kind 0 (SplitRaypathSegments str))"

text \<open>Parsing one segment: \<open>seg_flush\<close> ends a token; the state is ints, tok, has_invalid_token.\<close>

definition seg_flush :: "nat list \<times> string \<times> bool \<Rightarrow> nat list \<times> string \<times> bool" where
  "seg_flush s = (case s of (ints, tok, invalid) \<Rightarrow>
     if tok = [] then s
     else if list_ex (\<lambda>c. \<not> isdigit c) tok then (ints, [], True)
     else if int (digits_val tok) \<le> kIntMax then (ints @ [digits_val tok], [], invalid)
     else (ints, [], True))"

fun seg_loop :: "string \<Rightarrow> nat list \<times> string \<times> bool \<Rightarrow> nat list \<times> string \<times> bool" where
  "seg_loop [] s = seg_flush s"
| "seg_loop (c # seg) (ints, tok, invalid) =
     (if c = CHR ''-'' then seg_loop seg (seg_flush (ints, tok, invalid)) else seg_loop seg (ints, tok @ [c], invalid))"

definition ParseRaypathSegment :: "string \<Rightarrow> nat list" where
  "ParseRaypathSegment seg =
     (let (ints, tok, has_invalid_token) = seg_loop seg ([], [], False)
      in if has_invalid_token then [] else ints)"

definition ParseRaypathTextMultiSegment :: "string \<Rightarrow> nat list list" where
  "ParseRaypathTextMultiSegment str =
     (if str = [] then []
      else fold (\<lambda>seg out. if seg = [] then out
             else let ints = ParseRaypathSegment seg in if ints \<noteq> [] then out @ [ints] else out)
        (SplitRaypathSegments str) [])"

fun split_tokens :: "string \<Rightarrow> bool \<Rightarrow> string \<Rightarrow> string list" where
  "split_tokens cur any [] = (if any \<or> cur \<noteq> [] then [TrimRaypathSegment cur] else [])"
| "split_tokens cur any (c # str) =
     (if c = CHR ''&'' then TrimRaypathSegment cur # split_tokens [] True str else split_tokens (cur @ [c]) any str)"

definition SplitSummandTokens :: "string \<Rightarrow> string list" where
  "SplitSummandTokens str = split_tokens [] False str"

fun StartsWith :: "string \<Rightarrow> string \<Rightarrow> bool" where
  "StartsWith s [] = True"
| "StartsWith s (p # prefix) = (case s of [] \<Rightarrow> False | c # s' \<Rightarrow> if c \<noteq> p then False else StartsWith s' prefix)"

definition to_int :: "string \<Rightarrow> int option" where
  "to_int t = (if int (digits_val t) \<le> kIntMax then Some (int (digits_val t)) else None)"

text \<open>The bounds of a length specification as (mode, min_len, max_len), \<open>None\<close> when it is refused.\<close>

definition ParseLengthSpec :: "string \<Rightarrow> (int \<times> int \<times> int) option" where
  "ParseLengthSpec spec =
     (let s = TrimRaypathSegment spec
      in if s = [] then None
         else if 2 \<le> length s \<and> s ! 0 = CHR ''<'' \<and> s ! 1 = CHR ''=''
         then let n = TrimRaypathSegment (drop 2 s)
           in if \<not> all_digits n then None
              else case to_int n of None \<Rightarrow> None | Some v \<Rightarrow> if v < 1 then None else Some (2, 1, v)
         else if CHR ''-'' \<in> set s
         then let lhs = TrimRaypathSegment (takeWhile (\<lambda>c. c \<noteq> CHR ''-'') s);
                  rhs = TrimRaypathSegment (drop 1 (dropWhile (\<lambda>c. c \<noteq> CHR ''-'') s))
           in if \<not> all_digits lhs \<or> \<not> all_digits rhs then None
              else case (to_int lhs, to_int rhs) of
                  (Some a, Some b) \<Rightarrow> if a < 1 \<or> b < 1 \<or> b < a then None else Some (3, a, b)
                | _ \<Rightarrow> None
         else if \<not> all_digits s then None
         else case to_int s of None \<Rightarrow> None | Some v \<Rightarrow> if v < 1 then None else Some (1, v, v))"

record EeState =
  ee_builder :: EntryExitParams
  entry_set :: bool
  exit_set :: bool
  len_set :: bool
  ee_started :: bool

definition reset_ee :: EeState where
  "reset_ee = \<lparr> ee_builder = EntryExitParams_new, entry_set = False, exit_set = False, len_set = False, ee_started = False \<rparr>"

text \<open>On failure the builder and the flags are as before, so the error is the result.\<close>

definition MergeEeToken :: "string \<Rightarrow> EeState \<Rightarrow> string + EeState" where
  "MergeEeToken tok e =
     (if StartsWith tok ''entry:''
      then if entry_set e then Inl ''duplicate entry: token in summand''
           else Inr (e\<lparr> ee_builder := (ee_builder e)\<lparr> ep_entry_text := TrimRaypathSegment (drop 6 tok) \<rparr>, entry_set := True \<rparr>)
      else if StartsWith tok ''exit:''
      then if exit_set e then Inl ''duplicate exit: token in summand''
           else Inr (e\<lparr> ee_builder := (ee_builder e)\<lparr> ep_exit_text := TrimRaypathSegment (drop 5 tok) \<rparr>, exit_set := True \<rparr>)
      else if StartsWith tok ''len:''
      then if len_set e then Inl ''duplicate len: token in summand''
           else case ParseLengthSpec (drop 4 tok) of
             None \<Rightarrow> Inl (''invalid length spec '' @ [CHR 0x27] @ drop 4 tok @ [CHR 0x27])
           | Some (mode, min_len, max_len) \<Rightarrow>
               Inr (e\<lparr> ee_builder := (ee_builder e)\<lparr> ep_length_mode := mode, ep_min_len := min_len, ep_max_len := max_len \<rparr>,
                 len_set := True \<rparr>)
      else Inl (''unknown factor prefix '' @ [CHR 0x27] @ tok @ [CHR 0x27]))"

definition IsEeToken :: "string \<Rightarrow> bool" where
  "IsEeToken tok \<longleftrightarrow> StartsWith tok ''entry:'' \<or> StartsWith tok ''exit:'' \<or> StartsWith tok ''len:''"

datatype WalkAction = kContinue | kAbort

record 's callbacks =
  on_empty_token :: "'s \<Rightarrow> WalkAction \<times> 's"
  on_ee_merge_fail :: "string \<Rightarrow> string \<Rightarrow> 's \<Rightarrow> WalkAction \<times> 's"
  on_flush :: "EntryExitParams \<Rightarrow> bool \<Rightarrow> bool \<Rightarrow> 's \<Rightarrow> WalkAction \<times> 's"
  on_raypath_token :: "string \<Rightarrow> 's \<Rightarrow> WalkAction \<times> 's"

fun walk_tokens :: "'s callbacks \<Rightarrow> string list \<Rightarrow> EeState \<Rightarrow> 's \<Rightarrow> bool \<times> 's" where
  "walk_tokens cb [] e s =
     (if ee_started e
      then case on_flush cb (ee_builder e) (entry_set e) (exit_set e) s of (a, s) \<Rightarrow> (a \<noteq> kAbort, s)
      else (True, s))"
| "walk_tokens cb (tok # tokens) e s =
     (if tok = []
      then case on_empty_token cb s of (a, s) \<Rightarrow> if a = kAbort then (False, s) else walk_tokens cb tokens e s
      else if IsEeToken tok
      then case MergeEeToken tok e of
             Inr e \<Rightarrow> walk_tokens cb tokens (e\<lparr> ee_started := True \<rparr>) s
           | Inl err \<Rightarrow> (case on_ee_merge_fail cb tok err s of (a, s) \<Rightarrow>
               if a = kAbort then (False, s) else walk_tokens cb tokens e s)
      else
        case (if ee_started e
              then case on_flush cb (ee_builder e) (entry_set e) (exit_set e) s of (a, s) \<Rightarrow> (a, reset_ee, s)
              else (kContinue, e, s)) of
          (a, e, s) \<Rightarrow>
            if a = kAbort then (False, s)
            else case on_raypath_token cb tok s of (a, s) \<Rightarrow> if a = kAbort then (False, s) else walk_tokens cb tokens e s)"

definition WalkSummandEeFlush :: "string list \<Rightarrow> 's callbacks \<Rightarrow> 's \<Rightarrow> bool \<times> 's" where
  "WalkSummandEeFlush tokens cb s = walk_tokens cb tokens reset_ee s"

text \<open>The validator's result starts out unset and is written before every return of \<open>False\<close>.\<close>

definition validate_callbacks :: "CrystalKind \<Rightarrow> RaypathValidationResult callbacks" where
  "validate_callbacks kind =
     \<lparr> on_empty_token = \<lambda>result. (kAbort, result_of kInvalid ''Empty AND factor''),
       on_ee_merge_fail = \<lambda>tok err result. (kAbort, result_of kInvalid err),
       on_flush = \<lambda>ee entry_set exit_set result.
         (let sr = GuiValidateFaceNumberListText (ep_entry_text ee) kind
          in if entry_set \<and> rv_state sr \<noteq> kValid then (kAbort, sr)
             else
               let sr = GuiValidateFaceNumberListText (ep_exit_text ee) kind
               in if exit_set \<and> rv_state sr \<noteq> kValid then (kAbort, sr) else (kContinue, result)),
       on_raypath_token = \<lambda>tok result.
         (let seg_result = ValidateRaypathTextMultiSegment tok kind
          in if rv_state seg_result \<noteq> kValid then (kAbort, seg_result) else (kContinue, result)) \<rparr>"

definition ValidateSummandText :: "string \<Rightarrow> CrystalKind \<Rightarrow> RaypathValidationResult" where
  "ValidateSummandText str kind =
     (let trimmed = TrimRaypathSegment str
      in if trimmed = [] then result_of kValid ''''
         else case scan_pieces (CHR ''&'') trimmed True of
             None \<Rightarrow> result_of kInvalid ''Empty AND factor''
           | Some sep_pending \<Rightarrow>
               if sep_pending then result_of kInvalid ''Empty AND factor''
               else
                 let (ok, result) = WalkSummandEeFlush (SplitSummandTokens trimmed) (validate_callbacks kind)
                       (result_of kValid '''')
                 in if \<not> ok then result else result\<lparr> rv_state := kValid \<rparr>)"

definition parse_callbacks :: "Factor list callbacks" where
  "parse_callbacks =
     \<lparr> on_empty_token = \<lambda>out. (kContinue, out),
       on_ee_merge_fail = \<lambda>tok err out. (kContinue, out),
       on_flush = \<lambda>ee entry_set exit_set out. (kContinue, out @ [EntryExitFactor ee]),
       on_raypath_token = \<lambda>tok out. (kContinue, out @ [RaypathFactor \<lparr> rp_raypath_text = tok \<rparr>]) \<rparr>"

definition ParseSummandText :: "string \<Rightarrow> Factor list" where
  "ParseSummandText str =
     (let trimmed = TrimRaypathSegment str
      in if trimmed = [] then []
         else snd (WalkSummandEeFlush (SplitSummandTokens trimmed) parse_callbacks []))"

definition FormatFactor :: "Factor \<Rightarrow> string" where
  "FormatFactor f = (case f of RaypathFactor v \<Rightarrow> rp_raypath_text v | EntryExitFactor v \<Rightarrow> FormatEntryExitFactorText v)"

text \<open>The printing loops with their \<open>first\<close> flag.\<close>

definition join_loop :: "string \<Rightarrow> ('a \<Rightarrow> string) \<Rightarrow> 'a list \<Rightarrow> string" where
  "join_loop sep f xs = snd (fold (\<lambda>x (first, out). (False, (if \<not> first then out @ sep else out) @ f x)) xs (True, []))"

definition FormatSummandText :: "Factor list \<Rightarrow> string" where
  "FormatSummandText factors = join_loop '' & '' FormatFactor factors"

definition FormatSummandExpansionPreview :: "Factor list \<Rightarrow> string" where
  "FormatSummandExpansionPreview factors =
     join_loop '' & ''
       (\<lambda>f. case f of
          RaypathFactor rp \<Rightarrow>
            (let segs = SplitRaypathSegments (rp_raypath_text rp)
             in if length segs \<le> 1 then rp_raypath_text rp
                else ''('' @ join_loop '' OR '' (\<lambda>s. s) segs @ '')'')
        | EntryExitFactor _ \<Rightarrow> FormatFactor f) factors"

definition FormatSopExpansionPreview :: "SumOfProducts \<Rightarrow> string" where
  "FormatSopExpansionPreview sop =
     fold (\<lambda>s out. out @ [CHR 0x0A] @ ''  '' @
         (if st_factors s = [] then if st_text s = [] then ''*'' else st_text s
          else FormatSummandExpansionPreview (st_factors s)))
       sop (''OR of '' @ to_string (length sop) @ '' row(s):'')"

definition migrate_token :: "string \<Rightarrow> string" where
  "migrate_token tok = (if IsEeToken tok then tok else map (\<lambda>c. if c = CHR '','' then CHR ''-'' else c) tok)"

definition MigrateLegacyRaypathCommaConnector :: "string \<Rightarrow> string" where
  "MigrateLegacyRaypathCommaConnector row_text =
     (let tokens = SplitSummandTokens row_text;
          changed = list_ex (\<lambda>tok. \<not> IsEeToken tok \<and> CHR '','' \<in> set tok) tokens
      in if \<not> changed then row_text else join_loop '' & '' (\<lambda>tok. tok) (map migrate_token tokens))"

definition FromLegacyRaypath :: "RaypathParams \<Rightarrow> SumOfProducts" where
  "FromLegacyRaypath rp =
     (if rp_raypath_text rp = [] then []
      else map (\<lambda>seg. \<lparr> st_text = seg, st_factors = [RaypathFactor \<lparr> rp_raypath_text = seg \<rparr>] \<rparr>)
        (SplitRaypathSegments (rp_raypath_text rp)))"

definition FromLegacyEntryExit :: "EntryExitParams \<Rightarrow> SumOfProducts" where
  "FromLegacyEntryExit ep =
     (if ep_entry_text ep = [] \<and> ep_exit_text ep = [] \<and> ep_length_mode ep = 0 then []
      else [\<lparr> st_text = FormatEntryExitFactorText ep, st_factors = [EntryExitFactor ep] \<rparr>])"

section \<open>Trimming and splitting\<close>

abbreviation trimmed :: "string \<Rightarrow> bool" where
  "trimmed t \<equiv> TrimRaypathSegment t = t"

lemma Trim_Nil [simp]: "TrimRaypathSegment [] = []"
  by (simp add: TrimRaypathSegment_def)

abbreviation ends_tight :: "string \<Rightarrow> bool" where
  "ends_tight t \<equiv> t = [] \<or> \<not> isspace (hd t) \<and> \<not> isspace (last t)"

lemma dropWhile_id: "u = [] \<or> \<not> isspace (hd u) \<Longrightarrow> dropWhile isspace u = u"
  by (cases u) auto

lemma Trim_tight: "ends_tight t \<Longrightarrow> trimmed t"
  using dropWhile_id [of t] dropWhile_id [of "rev t"] by (auto simp: TrimRaypathSegment_def hd_rev)

lemma Trim_decomp:
  obtains a b where "t = a @ TrimRaypathSegment t @ b" and "list_all isspace a" and "list_all isspace b"
    and "ends_tight (TrimRaypathSegment t)"
proof -
  define u where "u = dropWhile isspace t"
  define v where "v = rev (dropWhile isspace (rev u))"
  define b where "b = rev (takeWhile isspace (rev u))"
  have v: "TrimRaypathSegment t = v" by (simp add: TrimRaypathSegment_def v_def u_def)
  have "rev u = rev b @ rev v" by (simp add: v_def b_def)
  then have u: "u = v @ b" by (metis rev_append rev_is_rev_conv)
  have t: "t = takeWhile isspace t @ v @ b" unfolding u [symmetric] u_def by simp
  have "list_all isspace b" by (auto simp: b_def list_all_iff dest: set_takeWhileD)
  moreover have "list_all isspace (takeWhile isspace t)" by (auto simp: list_all_iff dest: set_takeWhileD)
  moreover have "ends_tight v"
  proof (cases "v = []")
    case False
    have "\<not> isspace (hd (rev v))" using hd_dropWhile [of isspace "rev u"] False by (simp add: v_def)
    moreover have "\<not> isspace (hd u)" using hd_dropWhile [of isspace t] False u unfolding u_def by (metis append_is_Nil_conv)
    ultimately show ?thesis using False u by (simp add: hd_rev)
  qed simp
  ultimately show ?thesis using that t v by metis
qed

lemma trimmed_Trim [simp]: "trimmed (TrimRaypathSegment t)"
  by (rule Trim_decomp [of t]) (rule Trim_tight)

lemma trimmed_iff: "trimmed t \<longleftrightarrow> ends_tight t"
  using Trim_tight [of t] Trim_decomp [of t] by metis

lemma set_Trim: "set (TrimRaypathSegment t) \<subseteq> set t"
proof -
  obtain a b where "t = a @ TrimRaypathSegment t @ b" by (rule Trim_decomp)
  then have "set t = set a \<union> set (TrimRaypathSegment t) \<union> set b" by (metis set_append Un_assoc)
  then show ?thesis by blast
qed

lemma Trim_eq_Nil: "TrimRaypathSegment t = [] \<longleftrightarrow> list_all isspace t"
proof -
  obtain a b where t: "t = a @ TrimRaypathSegment t @ b" and sp: "list_all isspace a" "list_all isspace b"
    and tight: "ends_tight (TrimRaypathSegment t)" by (rule Trim_decomp)
  have "list_all isspace t" if "TrimRaypathSegment t = []" using t sp that by (metis append_Nil list_all_append)
  moreover have "TrimRaypathSegment t = []" if "list_all isspace t"
  proof (rule ccontr)
    assume ne: "TrimRaypathSegment t \<noteq> []"
    then have "hd (TrimRaypathSegment t) \<in> set t" using set_Trim [of t] hd_in_set by blast
    then show False using that tight ne by (auto simp: list_all_iff)
  qed
  ultimately show ?thesis by blast
qed

lemma dropWhile_spaces: "list_all isspace sp \<Longrightarrow> dropWhile isspace (sp @ t) = dropWhile isspace t"
  by (induction sp) auto

lemma Trim_spaces_left [simp]: "list_all isspace sp \<Longrightarrow> TrimRaypathSegment (sp @ t) = TrimRaypathSegment t"
  by (simp add: TrimRaypathSegment_def dropWhile_spaces)

lemma Trim_spaces_right [simp]:
  assumes "list_all isspace sp"
  shows "TrimRaypathSegment (t @ sp) = TrimRaypathSegment t"
proof (cases "list_all isspace t")
  case True
  then have "TrimRaypathSegment t = []" "TrimRaypathSegment (t @ sp) = []"
    using assms by (simp_all add: Trim_eq_Nil)
  then show ?thesis by simp
next
  case False
  then have "dropWhile isspace (t @ sp) = dropWhile isspace t @ sp"
    by (auto simp: list_all_iff dropWhile_append1)
  moreover have "list_all isspace (rev sp)" using assms by (simp add: list_all_iff)
  ultimately show ?thesis by (simp add: TrimRaypathSegment_def dropWhile_spaces)
qed

lemma trimmed_no_space: "list_all (\<lambda>c. \<not> isspace c) t \<Longrightarrow> trimmed t"
  by (cases "t = []") (simp_all add: trimmed_iff list_all_iff)

lemma split_segments_eq: "CHR '';'' \<notin> set cur \<Longrightarrow>
    split_segments cur str = map TrimRaypathSegment (split_on (CHR '';'') (cur @ str))"
proof (induction str arbitrary: cur)
  case (Cons c str)
  show ?case
  proof (cases "c = CHR '';''")
    case True
    then show ?thesis using Cons.IH [of "[]"] split_on_append [OF Cons.prems] by simp
  next
    case False
    then show ?thesis using Cons.IH [of "cur @ [c]"] Cons.prems by simp
  qed
qed simp

lemma SplitRaypathSegments_eq:
  "str \<noteq> [] \<Longrightarrow> SplitRaypathSegments str = map TrimRaypathSegment (split_on (CHR '';'') str)"
  using split_segments_eq [of "[]" str] by (simp add: SplitRaypathSegments_def)

lemma split_tokens_eq: "CHR ''&'' \<notin> set cur \<Longrightarrow> any \<or> cur @ str \<noteq> [] \<Longrightarrow>
    split_tokens cur any str = map TrimRaypathSegment (split_on (CHR ''&'') (cur @ str))"
proof (induction str arbitrary: cur any)
  case (Cons c str)
  show ?case
  proof (cases "c = CHR ''&''")
    case True
    then show ?thesis using Cons.IH [of "[]" True] split_on_append [OF Cons.prems(1)] by simp
  next
    case False
    then show ?thesis using Cons.IH [of "cur @ [c]" any] Cons.prems by simp
  qed
qed auto

lemma SplitSummandTokens_eq:
  "str \<noteq> [] \<Longrightarrow> SplitSummandTokens str = map TrimRaypathSegment (split_on (CHR ''&'') str)"
  using split_tokens_eq [of "[]" False str] by (simp add: SplitSummandTokens_def)

lemma split_pieces_spec:
  "scan_pieces sep str p = Some False \<longleftrightarrow>
    (p \<longrightarrow> \<not> list_all isspace (hd (split_on sep str))) \<and>
    list_all (\<lambda>t. \<not> list_all isspace t) (tl (split_on sep str))"
proof (induction str arbitrary: p)
  case (Cons c str)
  obtain u us where "split_on sep str = u # us" by (meson neq_Nil_conv split_on_nonempty)
  then show ?case using Cons.IH by auto
qed simp

lemma scan_pieces_ok:
  "scan_pieces sep str True = Some False \<longleftrightarrow> list_all (\<lambda>t. TrimRaypathSegment t \<noteq> []) (split_on sep str)"
  unfolding split_pieces_spec Trim_eq_Nil by (cases "split_on sep str") auto

section \<open>The two validators agree\<close>

lemma GuiValidateFaceNumberText_state:
  "rv_state (GuiValidateFaceNumberText str kind) = rv_state (ValidateFaceNumberText str kind)"
  by (auto simp: GuiValidateFaceNumberText_def ValidateFaceNumberText_def Let_def int_digits_val kMaxFaceDigits_def
      IsLegalFaceGlobal_def)

lemma gui_check_list_state: "rv_state (gui_check_list kind str) = rv_state (check_list kind str)"
proof (induction kind str rule: gui_check_list.induct)
  case (1 kind rest)
  then show ?case
    using GuiValidateFaceNumberText_state [of _ kind]
    by (subst gui_check_list.simps, subst check_list.simps) (simp add: Let_def)
qed

theorem GuiValidateFaceNumberListText_state:
  "rv_state (GuiValidateFaceNumberListText str kind) = rv_state (ValidateFaceNumberListText str kind)"
  by (simp add: GuiValidateFaceNumberListText_def ValidateFaceNumberListText_def gui_check_list_state)

section \<open>What the validator accepts, the parser keeps\<close>

abbreviation no_nul :: "string \<Rightarrow> bool" where
  "no_nul str \<equiv> CHR 0x00 \<notin> set str"

lemma c_str_no_nul: "no_nul str \<Longrightarrow> c_str str = str"
  by (auto simp: c_str_def takeWhile_eq_all_conv)

definition legal_segment :: "CrystalKind \<Rightarrow> string \<Rightarrow> bool" where
  "legal_segment kind seg \<longleftrightarrow> list_all (legal_token kind) (split_on (CHR ''-'') seg)"

lemma legal_segment_nonempty: "legal_segment kind seg \<Longrightarrow> seg \<noteq> []"
  by (auto simp: legal_segment_def legal_token_def)

lemma LUMICE_valid_iff:
  "no_nul str \<Longrightarrow> rv_state (LUMICE_ValidateRaypathText str kind) = kValid \<longleftrightarrow> str = [] \<or> legal_segment kind str"
  by (simp add: LUMICE_ValidateRaypathText_def Let_def c_str_no_nul ValidateRaypathText_kind_valid_iff legal_segment_def)

lemma legal_segment_chars: "legal_segment kind seg \<Longrightarrow> c \<in> set seg \<Longrightarrow> isdigit c \<or> c = CHR ''-''"
proof -
  have mem: "c \<in> set (join_with ''-'' ts) \<Longrightarrow> list_all (legal_token kind) ts \<Longrightarrow> isdigit c \<or> c = CHR ''-''" for ts
    by (induction ts) (auto simp: join_with_Cons legal_token_def list_all_iff split: if_splits)
  show "legal_segment kind seg \<Longrightarrow> c \<in> set seg \<Longrightarrow> isdigit c \<or> c = CHR ''-''"
    using mem [of "split_on (CHR ''-'') seg"] by (simp add: join_split_on legal_segment_def)
qed

lemma legal_segment_trimmed: "legal_segment kind seg \<Longrightarrow> trimmed seg"
proof (rule trimmed_no_space)
  assume "legal_segment kind seg"
  moreover have "\<not> isspace (CHR ''-'')" by (simp add: isspace_def)
  ultimately show "list_all (\<lambda>c. \<not> isspace c) seg"
    using legal_segment_chars digit_not_space unfolding list_all_iff by blast
qed

lemma check_segments_valid_iff:
  "(\<And>seg. seg \<in> set segs \<Longrightarrow> no_nul seg) \<Longrightarrow>
    rv_state (check_segments kind idx segs) = kValid \<longleftrightarrow> list_all (legal_segment kind) segs"
proof (induction segs arbitrary: idx)
  case (Cons seg segs)
  then show ?case
    using LUMICE_valid_iff [of seg kind] legal_segment_nonempty [of kind seg] by (auto simp: Let_def)
qed simp

theorem ValidateRaypathTextMultiSegment_valid_iff:
  assumes "no_nul str"
  shows "rv_state (ValidateRaypathTextMultiSegment str kind) = kValid \<longleftrightarrow>
    str = [] \<or>
    (if CHR '';'' \<in> set str then list_all (legal_segment kind) (map TrimRaypathSegment (split_on (CHR '';'') str))
     else legal_segment kind str)"
proof (cases "CHR '';'' \<in> set str")
  case True
  let ?segs = "map TrimRaypathSegment (split_on (CHR '';'') str)"
  have ne: "str \<noteq> []" using True by auto
  have part: "set t \<subseteq> set str" if "t \<in> set (split_on (CHR '';'') str)" for t
  proof -
    have "t \<in> set ts \<Longrightarrow> set t \<subseteq> set (join_with sep ts)" for sep ts
      by (induction ts) (auto simp: join_with_Cons)
    from this [OF that, of "'';''"] show ?thesis by (simp add: join_split_on)
  qed
  have nul: "no_nul seg" if "seg \<in> set ?segs" for seg
    using that part set_Trim assms by (auto simp: subset_iff)
  have "rv_state (check_segments kind 0 (SplitRaypathSegments str)) = kValid \<longleftrightarrow> list_all (legal_segment kind) ?segs"
    unfolding SplitRaypathSegments_eq [OF ne] by (rule check_segments_valid_iff) (rule nul)
  moreover have "list_all (legal_segment kind) ?segs \<Longrightarrow> scan_pieces (CHR '';'') str True = Some False"
    unfolding scan_pieces_ok by (auto simp: list_all_iff dest: legal_segment_nonempty)
  ultimately show ?thesis
    using True ne by (auto simp: ValidateRaypathTextMultiSegment_def split: option.splits)
next
  case False
  then show ?thesis using assms by (auto simp: ValidateRaypathTextMultiSegment_def LUMICE_valid_iff)
qed

definition good_token :: "string \<Rightarrow> bool" where
  "good_token t \<longleftrightarrow> all_digits t \<and> int (digits_val t) \<le> kIntMax"

lemma seg_flush_eq: "seg_flush (ints, tok, invalid) =
    (if good_token tok then ints @ [digits_val tok] else ints, [], invalid \<or> tok \<noteq> [] \<and> \<not> good_token tok)"
  by (auto simp: seg_flush_def good_token_def list_all_iff list_ex_iff)

lemma seg_loop_spec:
  "CHR ''-'' \<notin> set tok \<Longrightarrow>
   seg_loop str (ints, tok, invalid) =
     (ints @ map digits_val (filter good_token (split_on (CHR ''-'') (tok @ str))), [],
      invalid \<or> list_ex (\<lambda>t. t \<noteq> [] \<and> \<not> good_token t) (split_on (CHR ''-'') (tok @ str)))"
proof (induction str arbitrary: ints tok invalid)
  case (Cons c str)
  show ?case
  proof (cases "c = CHR ''-''")
    case True
    then show ?thesis
      using Cons.IH [of "[]"] split_on_append [OF Cons.prems, of str] by (simp add: seg_flush_eq)
  next
    case False
    then show ?thesis using Cons.IH [of "tok @ [c]"] Cons.prems by simp
  qed
qed (simp add: seg_flush_eq)

lemma ParseRaypathSegment_eq:
  "ParseRaypathSegment seg =
    (if list_ex (\<lambda>t. t \<noteq> [] \<and> \<not> good_token t) (split_on (CHR ''-'') seg) then []
     else map digits_val (filter good_token (split_on (CHR ''-'') seg)))"
  using seg_loop_spec [of "[]" seg] by (simp add: ParseRaypathSegment_def)

lemma legal_token_good: "legal_token kind t \<Longrightarrow> good_token t"
proof -
  have "IsLegalFace kind f \<Longrightarrow> f \<le> 28" for f by (cases kind) (auto simp: IsLegalFace_def Let_def)
  then show "legal_token kind t \<Longrightarrow> good_token t"
    by (fastforce simp: legal_token_def good_token_def kIntMax_def)
qed

definition segment_faces :: "string \<Rightarrow> nat list" where
  "segment_faces seg = map digits_val (split_on (CHR ''-'') seg)"

lemma ParseRaypathSegment_legal:
  assumes "legal_segment kind seg"
  shows "ParseRaypathSegment seg = segment_faces seg"
    and "list_all (\<lambda>f. IsLegalFace kind (int f)) (segment_faces seg)"
    and "segment_faces seg \<noteq> []"
proof -
  have good: "\<forall>t\<in>set (split_on (CHR ''-'') seg). good_token t"
    using assms legal_token_good unfolding legal_segment_def list_all_iff by blast
  then have "filter good_token (split_on (CHR ''-'') seg) = split_on (CHR ''-'') seg"
    by (simp add: filter_id_conv)
  moreover have "\<not> list_ex (\<lambda>t. t \<noteq> [] \<and> \<not> good_token t) (split_on (CHR ''-'') seg)"
    using good by (auto simp: list_ex_iff)
  ultimately show "ParseRaypathSegment seg = segment_faces seg"
    by (simp add: ParseRaypathSegment_eq segment_faces_def)
  show "list_all (\<lambda>f. IsLegalFace kind (int f)) (segment_faces seg)"
    using assms by (auto simp: legal_segment_def segment_faces_def legal_token_def list_all_iff)
  show "segment_faces seg \<noteq> []" by (simp add: segment_faces_def)
qed

lemma parse_fold:
  "list_all (legal_segment kind) segs \<Longrightarrow>
    fold (\<lambda>seg out. if seg = [] then out
             else let ints = ParseRaypathSegment seg in if ints \<noteq> [] then out @ [ints] else out) segs out
      = out @ map segment_faces segs"
proof (induction segs arbitrary: out)
  case (Cons seg segs)
  then show ?case
    using ParseRaypathSegment_legal [of kind seg] legal_segment_nonempty [of kind seg] by (simp add: Let_def)
qed simp

theorem validated_path_is_kept:
  assumes "no_nul str" and "str \<noteq> []" and "rv_state (ValidateRaypathTextMultiSegment str kind) = kValid"
  shows "ParseRaypathTextMultiSegment str = map segment_faces (map TrimRaypathSegment (split_on (CHR '';'') str))
    \<and> list_all (list_all (\<lambda>f. IsLegalFace kind (int f))) (ParseRaypathTextMultiSegment str)"
proof -
  let ?segs = "map TrimRaypathSegment (split_on (CHR '';'') str)"
  have legal: "list_all (legal_segment kind) ?segs"
  proof (cases "CHR '';'' \<in> set str")
    case True
    then show ?thesis using ValidateRaypathTextMultiSegment_valid_iff [OF assms(1)] assms by simp
  next
    case False
    then have "legal_segment kind str" using ValidateRaypathTextMultiSegment_valid_iff [OF assms(1)] assms by simp
    then show ?thesis using False legal_segment_trimmed by simp
  qed
  have "ParseRaypathTextMultiSegment str = map segment_faces ?segs"
    using parse_fold [OF legal, of "[]"] assms(2) by (simp add: ParseRaypathTextMultiSegment_def SplitRaypathSegments_eq)
  moreover have "list_all (list_all (\<lambda>f. IsLegalFace kind (int f))) (map segment_faces ?segs)"
    using legal ParseRaypathSegment_legal(2) unfolding list_all_iff by fastforce
  ultimately show ?thesis by simp
qed

text \<open>The printed form of a path of legal faces is one segment that spells it.\<close>

lemma printed_segment:
  assumes "fs \<noteq> []" and "list_all (\<lambda>f. IsLegalFace kind (int f)) fs"
  shows "rv_state (ValidateRaypathTextMultiSegment (join_with ''-'' (map to_string fs)) kind) = kValid \<and>
    ParseRaypathTextMultiSegment (join_with ''-'' (map to_string fs)) = [fs]"
proof -
  let ?t = "join_with ''-'' (map to_string fs)"
  have legal: "list_all (legal_token kind) (map to_string fs)"
    using assms(2) by (auto simp: list_all_iff intro: legal_token_to_string)
  then have split: "split_on (CHR ''-'') ?t = map to_string fs"
    using assms(1) by (intro split_on_join) (auto simp: list_all_iff dest: legal_token_no_sep)
  have seg: "legal_segment kind ?t" unfolding legal_segment_def split by (rule legal)
  have chars: "isdigit c \<or> c = CHR ''-''" if "c \<in> set ?t" for c by (rule legal_segment_chars [OF seg that])
  have no: "CHR '';'' \<notin> set ?t" "no_nul ?t"
    using chars [of "CHR '';''"] chars [of "CHR 0x00"] by (auto simp: isdigit_def)
  have ne: "?t \<noteq> []" by (rule legal_segment_nonempty [OF seg])
  have valid: "rv_state (ValidateRaypathTextMultiSegment ?t kind) = kValid"
    using no seg by (simp add: ValidateRaypathTextMultiSegment_valid_iff)
  have "split_on (CHR '';'') ?t = [?t]" using no(1) by (rule split_on_no_sep)
  moreover have "segment_faces ?t = fs" by (simp add: segment_faces_def split comp_def map_idI)
  moreover have "TrimRaypathSegment ?t = ?t" using legal_segment_trimmed [OF seg] by simp
  ultimately show ?thesis using validated_path_is_kept [OF no(2) ne valid] valid by simp
qed

end
