(* ===== verification/Summand_Rows.thy ===== *)
theory Summand_Rows
  imports Summand_Text
begin

text \<open>
  Correctness of the row text: printing a row and parsing it gives the row back, every factor of a row the
  validator accepts is legal, and migrating an old row is idempotent.
\<close>

section \<open>Joining tokens\<close>

lemma join_loop_started:
  "fold (\<lambda>x (first, out). (False, (if \<not> first then out @ sep else out) @ f x)) xs (False, out)
    = (False, out @ concat (map (\<lambda>x. sep @ f x) xs))"
  by (induction xs arbitrary: out) simp_all

lemma join_with_concat_seps: "join_with sep (t # ts) = t @ concat (map (\<lambda>x. sep @ x) ts)"
  by (induction ts arbitrary: t) (simp_all add: join_with_Cons)

lemma join_loop_eq: "join_loop sep f xs = join_with sep (map f xs)"
  by (cases xs) (simp_all add: join_loop_def join_loop_started join_with_concat_seps comp_def)

lemma join_with_append:
  "ts \<noteq> [] \<Longrightarrow> us \<noteq> [] \<Longrightarrow> join_with sep (ts @ us) = join_with sep ts @ sep @ join_with sep us"
  by (induction ts) (auto simp: join_with_Cons)

lemma join_with_nested: "[] \<notin> set tss \<Longrightarrow> join_with sep (map (join_with sep) tss) = join_with sep (concat tss)"
proof (induction tss)
  case (Cons ts tss)
  then have "ts \<noteq> []" "tss \<noteq> [] \<Longrightarrow> concat tss \<noteq> []" by (auto, cases tss, auto)
  then show ?case using Cons by (cases "tss = []") (simp_all add: join_with_Cons join_with_append)
qed simp

lemma join_with_hd: "ts \<noteq> [] \<Longrightarrow> hd ts \<noteq> [] \<Longrightarrow> hd (join_with sep ts) = hd (hd ts)"
  by (cases ts) (simp_all add: join_with_Cons)

lemma join_with_last: "ts \<noteq> [] \<Longrightarrow> last ts \<noteq> [] \<Longrightarrow> join_with sep ts \<noteq> [] \<and> last (join_with sep ts) = last (last ts)"
  by (induction ts) (auto simp: join_with_Cons)

lemma join_with_eq_Nil: "sep \<noteq> [] \<Longrightarrow> join_with sep ts = [] \<longleftrightarrow> concat ts = [] \<and> length ts \<le> 1"
  by (cases ts) (auto simp: join_with_Cons)

lemma spaces: "list_all isspace '' ''" "isspace CHR '' ''"
  by (simp_all add: isspace_def)

lemma split_and_join:
  assumes "list_all isspace pre" and "CHR ''&'' \<notin> set pre" and "ts \<noteq> []" and "\<And>t. t \<in> set ts \<Longrightarrow> CHR ''&'' \<notin> set t"
  shows "map TrimRaypathSegment (split_on (CHR ''&'') (pre @ join_with '' & '' ts)) = map TrimRaypathSegment ts"
  using assms
proof (induction ts arbitrary: pre)
  case (Cons t ts)
  show ?case
  proof (cases "ts = []")
    case False
    have str: "pre @ join_with '' & '' (t # ts) = (pre @ t @ '' '') @ CHR ''&'' # ('' '' @ join_with '' & '' ts)"
      using False by (simp add: join_with_Cons)
    have "CHR ''&'' \<notin> set (pre @ t @ '' '')" using Cons.prems by simp
    from split_on_append [OF this]
    have "split_on (CHR ''&'') (pre @ join_with '' & '' (t # ts))
        = (pre @ t @ '' '') # split_on (CHR ''&'') ('' '' @ join_with '' & '' ts)" unfolding str .
    moreover have "map TrimRaypathSegment (split_on (CHR ''&'') ('' '' @ join_with '' & '' ts)) = map TrimRaypathSegment ts"
      by (rule Cons.IH) (use Cons.prems False spaces in auto)
    moreover have "TrimRaypathSegment (pre @ t @ '' '') = TrimRaypathSegment t"
      using Cons.prems(1) Trim_spaces_right [OF spaces(1), of "pre @ t"] by simp
    ultimately show ?thesis by simp
  next
    case True
    then show ?thesis using Cons.prems by simp
  qed
qed simp

lemma SplitSummandTokens_join:
  assumes "\<And>t. t \<in> set ts \<Longrightarrow> trimmed t \<and> CHR ''&'' \<notin> set t" and "concat ts \<noteq> []"
  shows "SplitSummandTokens (join_with '' & '' ts) = ts"
proof -
  have "join_with '' & '' ts \<noteq> []" using assms(2) by (simp add: join_with_eq_Nil)
  then have "SplitSummandTokens (join_with '' & '' ts) = map TrimRaypathSegment ts"
    using split_and_join [of "[]" ts] assms by (cases "ts = []") (simp_all add: SplitSummandTokens_eq)
  also have "\<dots> = ts" using assms(1) by (simp add: map_idI)
  finally show ?thesis .
qed

section \<open>Printing and parsing a row\<close>

definition length_tokens :: "EntryExitParams \<Rightarrow> string list" where
  "length_tokens ep =
     (if ep_length_mode ep = 1 then [''len:'' @ int_to_string (ep_min_len ep)]
      else if ep_length_mode ep = 2 then [''len:<='' @ int_to_string (ep_max_len ep)]
      else if ep_length_mode ep = 3 then [''len:'' @ int_to_string (ep_min_len ep) @ ''-'' @ int_to_string (ep_max_len ep)]
      else [])"

definition factor_tokens :: "Factor \<Rightarrow> string list" where
  "factor_tokens f = (case f of
     RaypathFactor rp \<Rightarrow> [rp_raypath_text rp]
   | EntryExitFactor ep \<Rightarrow> [''entry:'' @ ep_entry_text ep] @ (if ep_exit_text ep \<noteq> [] then [''exit:'' @ ep_exit_text ep] else []) @
       length_tokens ep)"

lemma FormatFactor_tokens: "FormatFactor f = join_with '' & '' (factor_tokens f)"
  by (cases f) (auto simp: FormatFactor_def factor_tokens_def FormatEntryExitFactorText_def length_tokens_def Let_def)

lemma factor_tokens_nonempty: "factor_tokens f \<noteq> []"
  by (cases f) (simp_all add: factor_tokens_def)

lemma FormatSummandText_tokens: "FormatSummandText fs = join_with '' & '' (concat (map factor_tokens fs))"
proof -
  have "[] \<notin> set (map factor_tokens fs)" using factor_tokens_nonempty by (auto simp: image_iff) metis
  then have "join_with '' & '' (map (join_with '' & '') (map factor_tokens fs)) = join_with '' & '' (concat (map factor_tokens fs))"
    by (rule join_with_nested)
  moreover have "map FormatFactor fs = map (join_with '' & '') (map factor_tokens fs)"
    by (simp add: FormatFactor_tokens)
  ultimately show ?thesis by (simp only: FormatSummandText_def join_loop_eq)
qed

text \<open>The length bounds the parser can give, and the factors that have a text of their own.\<close>

definition canonical_length :: "EntryExitParams \<Rightarrow> bool" where
  "canonical_length ep \<longleftrightarrow>
     (let lo = ep_min_len ep; hi = ep_max_len ep
      in ep_length_mode ep = 0 \<and> lo = 1 \<and> hi = 1 \<or> ep_length_mode ep = 1 \<and> lo = hi \<and> 1 \<le> lo \<and> lo \<le> kIntMax \<or>
         ep_length_mode ep = 2 \<and> lo = 1 \<and> 1 \<le> hi \<and> hi \<le> kIntMax \<or>
         ep_length_mode ep = 3 \<and> 1 \<le> lo \<and> lo \<le> hi \<and> hi \<le> kIntMax)"

definition printable :: "Factor \<Rightarrow> bool" where
  "printable f = (case f of
     RaypathFactor rp \<Rightarrow> (let t = rp_raypath_text rp in t \<noteq> [] \<and> trimmed t \<and> CHR ''&'' \<notin> set t \<and> \<not> IsEeToken t)
   | EntryExitFactor ep \<Rightarrow> trimmed (ep_entry_text ep) \<and> CHR ''&'' \<notin> set (ep_entry_text ep) \<and>
       trimmed (ep_exit_text ep) \<and> CHR ''&'' \<notin> set (ep_exit_text ep) \<and> canonical_length ep)"

fun is_entry_exit :: "Factor \<Rightarrow> bool" where
  "is_entry_exit (EntryExitFactor _) = True"
| "is_entry_exit (RaypathFactor _) = False"

text \<open>A row is printable when its factors are and no two entry/exit factors are adjacent (their tokens would merge).\<close>

definition printable_row :: "Factor list \<Rightarrow> bool" where
  "printable_row fs \<longleftrightarrow> list_all printable fs \<and> successively (\<lambda>f g. \<not> (is_entry_exit f \<and> is_entry_exit g)) fs"

lemma int_to_string_pos: "0 \<le> n \<Longrightarrow> int_to_string n = to_string (nat n)"
  by (simp add: int_to_string_def)

lemma trimmed_digits: "list_all isdigit t \<Longrightarrow> trimmed t"
  by (rule trimmed_no_space) (auto simp: list_all_iff dest: digit_not_space)

lemma digits_chars: "list_all isdigit t \<Longrightarrow> CHR ''&'' \<notin> set t \<and> CHR ''-'' \<notin> set t \<and> CHR ''<'' \<notin> set t"
  using digits_not_in [of t "CHR ''&''"] digits_not_in [of t "CHR ''-''"] digits_not_in [of t "CHR ''<''"]
  by (simp add: isdigit_def [of "CHR ''<''"])

lemma to_int_to_string: "n \<le> kIntMax \<Longrightarrow> 0 \<le> n \<Longrightarrow> to_int (to_string (nat n)) = Some n"
  by (simp add: to_int_def)

lemma ParseLengthSpec_strict:
  "1 \<le> n \<Longrightarrow> n \<le> kIntMax \<Longrightarrow> ParseLengthSpec (to_string (nat n)) = Some (1, n, n)"
proof -
  assume n: "1 \<le> n" "n \<le> kIntMax"
  let ?s = "to_string (nat n)"
  have "?s ! 0 \<in> set ?s" by simp
  then have "?s ! 0 \<noteq> CHR ''<''" using digits_chars [of ?s] by fastforce
  then show ?thesis
    using n digits_chars [of ?s] by (simp add: ParseLengthSpec_def Let_def trimmed_digits to_int_to_string)
qed

lemma ParseLengthSpec_at_most:
  "1 \<le> n \<Longrightarrow> n \<le> kIntMax \<Longrightarrow> ParseLengthSpec (''<='' @ to_string (nat n)) = Some (2, 1, n)"
proof -
  assume n: "1 \<le> n" "n \<le> kIntMax"
  have "isdigit (last (to_string (nat n)))"
    using to_string_digits [of "nat n"] unfolding list_all_iff by (rule bspec) simp
  then have "trimmed (''<='' @ to_string (nat n))"
    by (simp add: trimmed_iff isspace_def [of "CHR ''<''"] digit_not_space)
  then show ?thesis
    using n by (simp add: ParseLengthSpec_def Let_def trimmed_digits to_int_to_string)
qed

lemma ParseLengthSpec_range:
  "1 \<le> m \<Longrightarrow> m \<le> n \<Longrightarrow> n \<le> kIntMax \<Longrightarrow>
    ParseLengthSpec (to_string (nat m) @ ''-'' @ to_string (nat n)) = Some (3, m, n)"
proof -
  assume mn: "1 \<le> m" "m \<le> n" "n \<le> kIntMax"
  let ?a = "to_string (nat m)" and ?b = "to_string (nat n)"
  have "isdigit (hd ?a)" "isdigit (last ?b)"
    using to_string_digits [of "nat m"] to_string_digits [of "nat n"] by (auto simp: list_all_iff)
  then have s: "trimmed (?a @ ''-'' @ ?b)" by (simp add: trimmed_iff digit_not_space)
  have "(?a @ ''-'' @ ?b) ! 0 \<in> set ?a" by (simp add: nth_append)
  then have "(?a @ ''-'' @ ?b) ! 0 \<noteq> CHR ''<''" using digits_chars [of ?a] by fastforce
  moreover have "takeWhile (\<lambda>c. c \<noteq> CHR ''-'') (?a @ ''-'' @ ?b) = ?a"
    using digits_chars [of ?a] by (subst takeWhile_append2) auto
  moreover have "dropWhile (\<lambda>c. c \<noteq> CHR ''-'') (?a @ ''-'' @ ?b) = CHR ''-'' # ?b"
    using digits_chars [of ?a] by (subst dropWhile_append2) auto
  ultimately show ?thesis
    using mn s by (simp add: ParseLengthSpec_def Let_def trimmed_digits to_int_to_string)
qed

definition merged :: "EntryExitParams \<Rightarrow> EeState" where
  "merged ep = \<lparr> ee_builder = ep, entry_set = True, exit_set = ep_exit_text ep \<noteq> [], len_set = ep_length_mode ep \<noteq> 0,
     ee_started = True \<rparr>"

lemma canonical_cases:
  assumes "canonical_length ep"
  obtains "ep_length_mode ep = 0" "ep_min_len ep = 1" "ep_max_len ep = 1" "length_tokens ep = []"
    | n where "ep_length_mode ep = 1" "ep_min_len ep = n" "ep_max_len ep = n" "length_tokens ep = [''len:'' @ to_string (nat n)]"
        "ParseLengthSpec (to_string (nat n)) = Some (1, n, n)"
    | n where "ep_length_mode ep = 2" "ep_min_len ep = 1" "ep_max_len ep = n" "length_tokens ep = [''len:<='' @ to_string (nat n)]"
        "ParseLengthSpec (''<='' @ to_string (nat n)) = Some (2, 1, n)"
    | m n where "ep_length_mode ep = 3" "ep_min_len ep = m" "ep_max_len ep = n"
        "length_tokens ep = [''len:'' @ to_string (nat m) @ ''-'' @ to_string (nat n)]"
        "ParseLengthSpec (to_string (nat m) @ ''-'' @ to_string (nat n)) = Some (3, m, n)"
proof -
  let ?m = "ep_min_len ep" and ?n = "ep_max_len ep"
  consider (0) "ep_length_mode ep = 0" "?m = 1" "?n = 1" | (1) "ep_length_mode ep = 1" "?m = ?n" "1 \<le> ?n" "?n \<le> kIntMax"
    | (2) "ep_length_mode ep = 2" "?m = 1" "1 \<le> ?n" "?n \<le> kIntMax"
    | (3) "ep_length_mode ep = 3" "1 \<le> ?m" "?m \<le> ?n" "?n \<le> kIntMax"
    using assms by (auto simp: canonical_length_def Let_def)
  then show thesis
  proof cases
    case 0
    then show ?thesis by (intro that(1)) (simp_all add: length_tokens_def)
  next
    case 1
    then show ?thesis using ParseLengthSpec_strict [of ?n] by (intro that(2)) (simp_all add: length_tokens_def int_to_string_pos)
  next
    case 2
    then show ?thesis using ParseLengthSpec_at_most [of ?n] by (intro that(3)) (simp_all add: length_tokens_def int_to_string_pos)
  next
    case 3
    then show ?thesis using ParseLengthSpec_range [of ?m ?n] by (intro that(4)) (simp_all add: length_tokens_def int_to_string_pos)
  qed
qed

lemma walk_length_tokens:
  assumes "canonical_length ep" and "\<not> len_set e"
  shows "walk_tokens cb (length_tokens ep @ rest) e s =
    (if ep_length_mode ep = 0 then walk_tokens cb rest e s
     else walk_tokens cb rest (e\<lparr> ee_builder := (ee_builder e)\<lparr> ep_length_mode := ep_length_mode ep, ep_min_len := ep_min_len ep,
         ep_max_len := ep_max_len ep \<rparr>, len_set := True, ee_started := True \<rparr>) s)"
  using assms(1) by (rule canonical_cases) (use assms(2) in \<open>simp_all add: IsEeToken_def MergeEeToken_def\<close>)

lemma walk_entry_exit:
  assumes "printable (EntryExitFactor ep)"
  shows "walk_tokens cb (factor_tokens (EntryExitFactor ep) @ rest) reset_ee s = walk_tokens cb rest (merged ep) s"
proof -
  have ep: "trimmed (ep_entry_text ep)" "trimmed (ep_exit_text ep)" "canonical_length ep"
    using assms by (simp_all add: printable_def)
  have zero: "ep_min_len ep = 1 \<and> ep_max_len ep = 1" if "ep_length_mode ep = 0"
    using ep(3) that by (simp add: canonical_length_def Let_def)
  show ?thesis
    using ep(1,2) zero
    by (auto simp: factor_tokens_def IsEeToken_def MergeEeToken_def reset_ee_def walk_length_tokens [OF ep(3)] merged_def
        EntryExitParams_new_def) (cases ep, simp)+
qed

lemma walk_raypath:
  assumes "printable (RaypathFactor rp)"
  shows "walk_tokens parse_callbacks (factor_tokens (RaypathFactor rp) @ rest) e out =
    walk_tokens parse_callbacks rest (if ee_started e then reset_ee else e)
      (out @ (if ee_started e then [EntryExitFactor (ee_builder e)] else []) @ [RaypathFactor rp])"
  using assms by (cases rp) (simp add: printable_def factor_tokens_def Let_def parse_callbacks_def)

lemma walk_row:
  assumes "printable_row fs"
  shows "walk_tokens parse_callbacks (concat (map factor_tokens fs)) reset_ee out = (True, out @ fs)"
  using assms
proof (induction fs arbitrary: out rule: induct_list012)
  case 1
  then show ?case by (simp add: reset_ee_def)
next
  case (2 f)
  then show ?case
    using walk_entry_exit [of _ parse_callbacks "[]"] walk_raypath [of _ "[]" reset_ee]
    by (cases f) (simp_all add: printable_row_def reset_ee_def merged_def parse_callbacks_def)
next
  case (3 f g fs)
  have printable: "printable f" "printable g" and rows: "printable_row fs" "printable_row (g # fs)"
    and apart: "\<not> (is_entry_exit f \<and> is_entry_exit g)"
    using "3.prems" by (auto simp: printable_row_def successively_Cons)
  show ?case
  proof (cases f)
    case (RaypathFactor rp)
    then show ?thesis
      using walk_raypath [of rp "concat (map factor_tokens (g # fs))" reset_ee out] printable "3.IH"(2) rows
      by (simp add: reset_ee_def [THEN arg_cong, of ee_started])
  next
    case (EntryExitFactor ep)
    then obtain rp where g: "g = RaypathFactor rp" using apart by (cases g) auto
    show ?thesis
      using walk_entry_exit [of ep parse_callbacks "concat (map factor_tokens (g # fs))" out]
        walk_raypath [of rp "concat (map factor_tokens fs)" "merged ep" out] printable "3.IH"(1) rows EntryExitFactor g
      by (simp add: merged_def)
  qed
qed

lemma factor_tokens_printable:
  assumes "printable f" and t: "t \<in> set (factor_tokens f)"
  shows "t \<noteq> [] \<and> trimmed t \<and> CHR ''&'' \<notin> set t"
proof (cases f)
  case (RaypathFactor rp)
  then show ?thesis using assms by (simp add: printable_def factor_tokens_def Let_def)
next
  case (EntryExitFactor ep)
  have tight: "trimmed (p @ u)" if "trimmed u" "p \<noteq> []" "\<not> isspace (hd p)" "\<not> isspace (last p)" for p u
    using that by (cases "u = []") (simp_all add: trimmed_iff)
  have colon: "\<not> isspace CHR ''e''" "\<not> isspace CHR ''l''" "\<not> isspace CHR '':''" "\<not> isspace CHR ''=''" "\<not> isspace CHR ''-''"
    by (simp_all add: isspace_def)
  have len: "t \<noteq> [] \<and> trimmed t \<and> CHR ''&'' \<notin> set t" if "t \<in> set (length_tokens ep)" "canonical_length ep"
  proof -
    have digits: "CHR ''&'' \<notin> set (to_string n)" for n using digits_chars [of "to_string n"] by simp
    have range: "trimmed ((''len:'' @ to_string m @ ''-'') @ to_string n)" for m n
      by (rule tight) (simp_all add: colon trimmed_digits)
    show ?thesis
      using that(2) by (rule canonical_cases)
        (use that(1) tight [of _ "''len:''"] tight [of _ "''len:<=''"] range in
          \<open>simp_all add: digits colon trimmed_digits\<close>)
  qed
  have "trimmed (ep_entry_text ep)" "CHR ''&'' \<notin> set (ep_entry_text ep)" "trimmed (ep_exit_text ep)"
    "CHR ''&'' \<notin> set (ep_exit_text ep)" "canonical_length ep"
    using assms(1) EntryExitFactor by (simp_all add: printable_def)
  then show ?thesis
    using t EntryExitFactor len tight [of "ep_entry_text ep" "''entry:''"] tight [of "ep_exit_text ep" "''exit:''"]
    by (auto simp: factor_tokens_def colon split: if_splits)
qed

theorem row_roundtrip:
  assumes "printable_row fs"
  shows "ParseSummandText (FormatSummandText fs) = fs"
proof (cases "fs = []")
  case True
  then show ?thesis by (simp add: ParseSummandText_def FormatSummandText_def join_loop_eq)
next
  case False
  define ts where "ts = concat (map factor_tokens fs)"
  have tok: "t \<noteq> [] \<and> trimmed t \<and> CHR ''&'' \<notin> set t" if "t \<in> set ts" for t
    using that assms factor_tokens_printable by (auto simp: ts_def printable_row_def list_all_iff)
  have ne: "ts \<noteq> []" using False factor_tokens_nonempty by (cases fs) (simp_all add: ts_def)
  then have "concat ts \<noteq> []" using tok by (cases ts) auto
  then have split: "SplitSummandTokens (join_with '' & '' ts) = ts" using tok by (intro SplitSummandTokens_join) auto
  have "trimmed (join_with '' & '' ts)" "join_with '' & '' ts \<noteq> []"
    using tok [OF hd_in_set [OF ne]] tok [OF last_in_set [OF ne]] join_with_hd [OF ne] join_with_last [OF ne]
    by (auto simp: trimmed_iff)
  then show ?thesis
    using split walk_row [OF assms, of "[]"]
    by (simp add: ParseSummandText_def FormatSummandText_tokens WalkSummandEeFlush_def ts_def [symmetric] Let_def)
qed

section \<open>Validated rows\<close>

definition factor_valid :: "CrystalKind \<Rightarrow> Factor \<Rightarrow> bool" where
  "factor_valid kind f = (case f of
     RaypathFactor rp \<Rightarrow> rv_state (ValidateRaypathTextMultiSegment (rp_raypath_text rp) kind) = kValid
   | EntryExitFactor ep \<Rightarrow> rv_state (GuiValidateFaceNumberListText (ep_entry_text ep) kind) = kValid \<and>
       rv_state (GuiValidateFaceNumberListText (ep_exit_text ep) kind) = kValid)"

definition unset_empty :: "EeState \<Rightarrow> bool" where
  "unset_empty e \<longleftrightarrow> (\<not> entry_set e \<longrightarrow> ep_entry_text (ee_builder e) = []) \<and> (\<not> exit_set e \<longrightarrow> ep_exit_text (ee_builder e) = [])"

lemma unset_empty_reset: "unset_empty reset_ee"
  by (simp add: unset_empty_def reset_ee_def EntryExitParams_new_def)

lemma unset_empty_merge: "unset_empty e \<Longrightarrow> MergeEeToken tok e = Inr e' \<Longrightarrow> unset_empty (e'\<lparr> ee_started := True \<rparr>)"
  by (auto simp: MergeEeToken_def unset_empty_def split: if_splits option.splits prod.splits)

lemma GuiList_Nil: "rv_state (GuiValidateFaceNumberListText [] kind) = kValid"
  by (simp add: GuiValidateFaceNumberListText_def)

lemma flush_valid:
  assumes "unset_empty e" and "on_flush (validate_callbacks kind) (ee_builder e) (entry_set e) (exit_set e) r = (a, r')"
    and "a \<noteq> kAbort"
  shows "factor_valid kind (EntryExitFactor (ee_builder e))"
  using assms GuiList_Nil [of kind]
  by (auto simp: validate_callbacks_def unset_empty_def factor_valid_def Let_def split: if_splits)

lemma walk_valid:
  assumes "fst (walk_tokens (validate_callbacks kind) tokens e r)" and "unset_empty e"
    and "list_all (factor_valid kind) out"
  shows "list_all (factor_valid kind) (snd (walk_tokens parse_callbacks tokens e out))"
  using assms
proof (induction tokens arbitrary: e r out)
  case Nil
  then show ?case using flush_valid [of e kind r] by (auto simp: parse_callbacks_def split: prod.splits if_splits)
next
  case (Cons tok tokens)
  show ?case
  proof (cases "tok = []")
    case True
    then show ?thesis using Cons.prems(1) by (simp add: validate_callbacks_def)
  next
    case ne: False
    show ?thesis
    proof (cases "IsEeToken tok")
      case True
      then obtain e' where "MergeEeToken tok e = Inr e'"
        using ne Cons.prems(1) by (cases "MergeEeToken tok e") (simp_all add: validate_callbacks_def)
      then show ?thesis
        using Cons.IH Cons.prems True ne unset_empty_merge [OF Cons.prems(2)] by simp
    next
      case False
      have path: "factor_valid kind (RaypathFactor \<lparr> rp_raypath_text = tok \<rparr>)"
        using Cons.prems(1) ne False
        by (auto simp: factor_valid_def validate_callbacks_def Let_def split: prod.splits if_splits)
      show ?thesis
      proof (cases "ee_started e")
        case True
        obtain a r' where fl: "on_flush (validate_callbacks kind) (ee_builder e) (entry_set e) (exit_set e) r = (a, r')" by force
        then have "a \<noteq> kAbort" using Cons.prems(1) ne False True by auto
        then have "fst (walk_tokens (validate_callbacks kind) tokens reset_ee r')"
          using Cons.prems(1) ne False True fl by (auto simp: validate_callbacks_def [of kind] Let_def split: prod.splits if_splits)
        then show ?thesis
          using Cons.IH [of reset_ee r'] flush_valid [OF Cons.prems(2) fl \<open>a \<noteq> kAbort\<close>] path unset_empty_reset Cons.prems(3)
            ne False True by (simp add: parse_callbacks_def)
      next
        case no: False
        then have "fst (walk_tokens (validate_callbacks kind) tokens e r)"
          using Cons.prems(1) ne False by (auto simp: validate_callbacks_def [of kind] Let_def split: if_splits)
        then show ?thesis
          using Cons.IH [of e r] path Cons.prems(2,3) ne False no by (simp add: parse_callbacks_def)
      qed
    qed
  qed
qed

lemma validate_aborts:
  "on_flush (validate_callbacks kind) ee b1 b2 s = (kAbort, r) \<Longrightarrow> rv_state r \<noteq> kValid"
  "on_raypath_token (validate_callbacks kind) tok s = (kAbort, r) \<Longrightarrow> rv_state r \<noteq> kValid"
  "on_empty_token (validate_callbacks kind) s = (kAbort, r) \<Longrightarrow> rv_state r \<noteq> kValid"
  "on_ee_merge_fail (validate_callbacks kind) tok err s = (kAbort, r) \<Longrightarrow> rv_state r \<noteq> kValid"
  by (auto simp: validate_callbacks_def Let_def split: if_splits)

lemma walk_abort:
  "walk_tokens (validate_callbacks kind) tokens e s = (False, r) \<Longrightarrow> rv_state r \<noteq> kValid"
proof (induction tokens arbitrary: e s)
  case Nil
  then show ?case by (auto split: if_splits prod.splits dest: validate_aborts)
next
  case (Cons tok tokens)
  then show ?case
    by (auto split: if_splits prod.splits sum.splits dest: validate_aborts)
qed

theorem validated_row_factors:
  assumes valid: "rv_state (ValidateSummandText str kind) = kValid"
  shows "list_all (factor_valid kind) (ParseSummandText str)"
proof (cases "TrimRaypathSegment str = []")
  case False
  obtain ok r where walk: "walk_tokens (validate_callbacks kind) (SplitSummandTokens (TrimRaypathSegment str)) reset_ee
      (result_of kValid '''') = (ok, r)" by force
  have ok
  proof (rule ccontr)
    assume "\<not> ok"
    with walk_abort walk have "rv_state r \<noteq> kValid" by (cases ok) auto
    then show False
      using valid False walk \<open>\<not> ok\<close>
      by (auto simp: ValidateSummandText_def WalkSummandEeFlush_def Let_def split: option.splits if_splits)
  qed
  with walk have "fst (walk_tokens (validate_callbacks kind) (SplitSummandTokens (TrimRaypathSegment str)) reset_ee
      (result_of kValid ''''))" by simp
  from walk_valid [OF this unset_empty_reset, of "[]"] show ?thesis
    using False by (simp add: ParseSummandText_def WalkSummandEeFlush_def Let_def)
qed (simp add: ParseSummandText_def)

section \<open>Migration of old rows\<close>

lemma StartsWith_map:
  assumes "\<And>c. c \<in> set p \<Longrightarrow> c \<noteq> CHR '','' \<and> c \<noteq> CHR ''-''"
  shows "StartsWith (map (\<lambda>c. if c = CHR '','' then CHR ''-'' else c) t) p = StartsWith t p"
  using assms by (induction t p rule: StartsWith.induct) (auto split: list.splits)

abbreviation dashed :: "string \<Rightarrow> string" where
  "dashed t \<equiv> map (\<lambda>c. if c = CHR '','' then CHR ''-'' else c) t"

lemma IsEeToken_dashed: "IsEeToken (dashed t) = IsEeToken t"
proof -
  have "StartsWith (dashed t) ''entry:'' = StartsWith t ''entry:''" by (rule StartsWith_map) auto
  moreover have "StartsWith (dashed t) ''exit:'' = StartsWith t ''exit:''" by (rule StartsWith_map) auto
  moreover have "StartsWith (dashed t) ''len:'' = StartsWith t ''len:''" by (rule StartsWith_map) auto
  ultimately show ?thesis by (simp only: IsEeToken_def)
qed

lemma IsEeToken_migrate [simp]: "IsEeToken (migrate_token t) = IsEeToken t"
  using IsEeToken_dashed [of t] by (simp add: migrate_token_def)

lemma migrate_token_chars:
  "\<not> IsEeToken t \<Longrightarrow> CHR '','' \<notin> set (migrate_token t)" "CHR ''&'' \<notin> set t \<Longrightarrow> CHR ''&'' \<notin> set (migrate_token t)"
  by (auto simp: migrate_token_def)

lemma trimmed_map: "(\<And>c. isspace (g c) = isspace c) \<Longrightarrow> trimmed t \<Longrightarrow> trimmed (map g t)"
  by (cases "t = []") (simp_all add: trimmed_iff hd_map last_map)

lemma trimmed_migrate: "trimmed t \<Longrightarrow> trimmed (migrate_token t)"
proof -
  have "isspace (if c = CHR '','' then CHR ''-'' else c) = isspace c" for c
    by (cases "c = CHR '',''") (simp_all add: isspace_def)
  from trimmed_map [OF this] show "trimmed t \<Longrightarrow> trimmed (migrate_token t)" by (simp add: migrate_token_def)
qed

lemma SplitSummandTokens_tokens:
  "t \<in> set (SplitSummandTokens str) \<Longrightarrow> trimmed t \<and> CHR ''&'' \<notin> set t"
proof (cases "str = []")
  case False
  assume "t \<in> set (SplitSummandTokens str)"
  then obtain u where "u \<in> set (split_on (CHR ''&'') str)" "t = TrimRaypathSegment u"
    using False by (auto simp: SplitSummandTokens_eq)
  then show ?thesis using split_on_no_sep_in set_Trim by fastforce
qed (simp add: SplitSummandTokens_def)

definition has_comma_path :: "string \<Rightarrow> bool" where
  "has_comma_path row \<longleftrightarrow> list_ex (\<lambda>tok. \<not> IsEeToken tok \<and> CHR '','' \<in> set tok) (SplitSummandTokens row)"

lemma Migrate_noop: "\<not> has_comma_path row \<Longrightarrow> MigrateLegacyRaypathCommaConnector row = row"
  by (simp add: MigrateLegacyRaypathCommaConnector_def has_comma_path_def)

lemma Migrate_tokens:
  assumes "has_comma_path row"
  shows "SplitSummandTokens (MigrateLegacyRaypathCommaConnector row) = map migrate_token (SplitSummandTokens row)"
proof -
  let ?ts = "SplitSummandTokens row"
  obtain t where t: "t \<in> set ?ts" "CHR '','' \<in> set t" "\<not> IsEeToken t"
    using assms by (auto simp: has_comma_path_def list_ex_iff)
  have "migrate_token t \<noteq> []" using t(2) by (auto simp: migrate_token_def)
  then have "concat (map migrate_token ?ts) \<noteq> []" using t(1) by auto
  moreover have "trimmed u \<and> CHR ''&'' \<notin> set u" if "u \<in> set (map migrate_token ?ts)" for u
    using that SplitSummandTokens_tokens trimmed_migrate migrate_token_chars(2) by auto
  ultimately have "SplitSummandTokens (join_with '' & '' (map migrate_token ?ts)) = map migrate_token ?ts"
    by (intro SplitSummandTokens_join) blast+
  then show ?thesis
    using assms by (simp add: MigrateLegacyRaypathCommaConnector_def has_comma_path_def join_loop_eq)
qed

theorem Migrate_clean: "\<not> has_comma_path (MigrateLegacyRaypathCommaConnector row)"
proof (cases "has_comma_path row")
  case True
  then show ?thesis
    using migrate_token_chars(1) unfolding has_comma_path_def [of "MigrateLegacyRaypathCommaConnector row"] Migrate_tokens [OF True]
    by (auto simp: list_ex_iff)
qed (simp add: Migrate_noop)

end
