(* ===== verification/Filter_Expansion.thy ===== *)
theory Filter_Expansion
  imports Summand_Rows "HOL-Library.Sublist"
begin

text \<open>
  From rows to clauses (\<open>src/gui/file_io.cpp\<close>): the alternatives of a factor, the faces it names, and the
  expansion of an OR of AND-rows to disjunctive normal form under the limits of the C interface.

  The members of the GUI filter configuration other than its rows are not read here, so the rows are the
  argument.  A loop that breaks on overflow returns \<open>None\<close>.
\<close>

section \<open>The code\<close>

definition kEEWildcardSentinel :: int where "kEEWildcardSentinel = - 1"
definition LUMICE_MAX_CONFIG_CLAUSES :: nat where "LUMICE_MAX_CONFIG_CLAUSES = 4096"
definition LUMICE_MAX_CONFIG_TERMS :: nat where "LUMICE_MAX_CONFIG_TERMS = 64"
definition LUMICE_MAX_ID :: int where "LUMICE_MAX_ID = 65535"

text \<open>The digit loop with its early return.\<close>

fun digits_or_zero :: "int \<Rightarrow> string \<Rightarrow> int" where
  "digits_or_zero v [] = v"
| "digits_or_zero v (c # str) = (if \<not> isdigit c then 0 else digits_or_zero (v * 10 + int (digit_val c)) str)"

definition ParseFaceNumberOrZero :: "string \<Rightarrow> int" where
  "ParseFaceNumberOrZero str =
     (if str = [] then 0
      else
        let v = GuiValidateFaceNumberText str kPyramid
        in if rv_state v = kInvalid \<and> \<not> sublist ''not legal on this crystal type'' (rv_message v) then 0
           else digits_or_zero 0 str)"

function face_number_loop :: "string \<Rightarrow> int list" where
  "face_number_loop rest =
     (if rest = [] then []
      else
        let token = takeWhile (\<lambda>c. c \<noteq> CHR '','') rest
        in (if token \<noteq> [] then [ParseFaceNumberOrZero token] else []) @ face_number_loop (drop (length token + 1) rest))"
  by pat_completeness auto
termination
  by (relation "measure length") auto

declare face_number_loop.simps [simp del]

definition ParseFaceNumberList :: "string \<Rightarrow> int list" where
  "ParseFaceNumberList str =
     (if str = [] then [kEEWildcardSentinel]
      else let out = face_number_loop str in if out = [] then [kEEWildcardSentinel] else out)"

record EELenBounds =
  el_min_len :: int
  el_max_len :: int

definition DecodeLengthMode :: "int \<Rightarrow> int \<Rightarrow> int \<Rightarrow> EELenBounds" where
  "DecodeLengthMode mode min_len max_len =
     (if mode = 1 then \<lparr> el_min_len = max min_len 1, el_max_len = max min_len 1 \<rparr>
      else if mode = 2 then \<lparr> el_min_len = 1, el_max_len = max max_len 1 \<rparr>
      else if mode = 3 then \<lparr> el_min_len = max min_len 1, el_max_len = max max_len (max min_len 1) \<rparr>
      else \<lparr> el_min_len = 1, el_max_len = - 1 \<rparr>)"

definition ClampIdValue :: "int \<Rightarrow> int" where
  "ClampIdValue v = (if v < 0 then 0 else if LUMICE_MAX_ID < v then LUMICE_MAX_ID else v)"

record SimpleTermDesc =
  td_is_raypath :: bool
  td_raypath :: "nat list"
  td_entry :: int
  td_exit :: int
  td_min_len :: int
  td_max_len :: int

definition SimpleTermDesc_new :: SimpleTermDesc where
  "SimpleTermDesc_new = \<lparr> td_is_raypath = True, td_raypath = [], td_entry = kEEWildcardSentinel,
     td_exit = kEEWildcardSentinel, td_min_len = 1, td_max_len = - 1 \<rparr>"

record ExpandedFilter =
  ef_clauses :: "SimpleTermDesc list list"
  ef_overflow :: bool

definition FactorAlternatives :: "Factor \<Rightarrow> SimpleTermDesc list" where
  "FactorAlternatives factor = (case factor of
     RaypathFactor p \<Rightarrow>
       (let segs = ParseRaypathTextMultiSegment (rp_raypath_text p)
        in if segs = [] then [SimpleTermDesc_new]
           else map (\<lambda>seg. SimpleTermDesc_new\<lparr> td_is_raypath := True, td_raypath := seg \<rparr>) segs)
   | EntryExitFactor p \<Rightarrow>
       (let entries = ParseFaceNumberList (ep_entry_text p);
            exits = ParseFaceNumberList (ep_exit_text p);
            bounds = DecodeLengthMode (ep_length_mode p) (ep_min_len p) (ep_max_len p)
        in concat (map (\<lambda>e. map (\<lambda>x. SimpleTermDesc_new\<lparr> td_is_raypath := False, td_entry := e, td_exit := x,
              td_min_len := el_min_len bounds, td_max_len := el_max_len bounds \<rparr>) exits) entries)))"

definition CountFactorAlternatives :: "Factor \<Rightarrow> nat" where
  "CountFactorAlternatives factor = length (FactorAlternatives factor)"

definition FactorFaceNumbers :: "Factor \<Rightarrow> int list" where
  "FactorFaceNumbers factor =
     (let faces = fold (\<lambda>alt faces. if td_is_raypath alt then faces @ map int (td_raypath alt)
              else fold (\<lambda>f faces. if f \<noteq> kEEWildcardSentinel then faces @ [f] else faces) [td_entry alt, td_exit alt] faces)
            (FactorAlternatives factor) []
      in remdups_adj (sort faces))"

text \<open>The product loop of one row; \<open>n\<close> is the number of clauses before it.\<close>

fun expand_factors :: "nat \<Rightarrow> SimpleTermDesc list list \<Rightarrow> Factor list \<Rightarrow> SimpleTermDesc list list option" where
  "expand_factors n acc [] = Some acc"
| "expand_factors n acc (factor # factors) =
     (let alts = FactorAlternatives factor;
          alt_n = (if alts = [] then 1 else length alts)
      in if LUMICE_MAX_CONFIG_CLAUSES < n + length acc * alt_n then None
         else expand_factors n (concat (map (\<lambda>clause. map (\<lambda>alt. clause @ [alt]) alts) acc)) factors)"

fun expand_rows :: "SimpleTermDesc list list \<Rightarrow> SumOfProducts \<Rightarrow> SimpleTermDesc list list option" where
  "expand_rows clauses [] = Some clauses"
| "expand_rows clauses (summand # rows) =
     (if st_factors summand = [] then expand_rows clauses rows
      else if LUMICE_MAX_CONFIG_TERMS < length (st_factors summand) then None
      else case expand_factors (length clauses) [[]] (st_factors summand) of
             None \<Rightarrow> None
           | Some acc \<Rightarrow> expand_rows (clauses @ acc) rows)"

definition ExpandSopToClauses :: "SumOfProducts \<Rightarrow> ExpandedFilter" where
  "ExpandSopToClauses param = (case expand_rows [] param of
     None \<Rightarrow> \<lparr> ef_clauses = [[SimpleTermDesc_new]], ef_overflow = True \<rparr>
   | Some clauses \<Rightarrow> \<lparr> ef_clauses = clauses, ef_overflow = False \<rparr>)"

definition SummarizeSopExpansion :: "SumOfProducts \<Rightarrow> nat \<times> bool" where
  "SummarizeSopExpansion param = (let ef = ExpandSopToClauses param in (length (ef_clauses ef), ef_overflow ef))"

definition IsDegenerateSingleTerm :: "ExpandedFilter \<Rightarrow> bool" where
  "IsDegenerateSingleTerm ef \<longleftrightarrow> length (ef_clauses ef) = 1 \<and> length (ef_clauses ef ! 0) = 1"

section \<open>The expansion\<close>

lemma ParseFaceNumberList_nonempty: "ParseFaceNumberList str \<noteq> []"
  by (simp add: ParseFaceNumberList_def Let_def)

lemma FactorAlternatives_nonempty: "FactorAlternatives f \<noteq> []"
proof (cases f)
  case (EntryExitFactor p)
  obtain e es where "ParseFaceNumberList (ep_entry_text p) = e # es"
    using ParseFaceNumberList_nonempty [of "ep_entry_text p"] by (cases "ParseFaceNumberList (ep_entry_text p)") simp_all
  then show ?thesis
    using EntryExitFactor ParseFaceNumberList_nonempty [of "ep_exit_text p"] by (simp add: FactorAlternatives_def Let_def)
qed (simp add: FactorAlternatives_def Let_def)

abbreviation row_product :: "Factor list \<Rightarrow> SimpleTermDesc list list" where
  "row_product fs \<equiv> product_lists (map FactorAlternatives fs)"

definition row_size :: "Factor list \<Rightarrow> nat" where
  "row_size fs = prod_list (map CountFactorAlternatives fs)"

lemma length_row_product: "length (row_product fs) = row_size fs"
  by (induction fs) (simp_all add: row_size_def CountFactorAlternatives_def length_concat comp_def sum_list_triv)

lemma row_size_pos: "0 < row_size fs"
  using FactorAlternatives_nonempty by (induction fs) (simp_all add: row_size_def CountFactorAlternatives_def)

lemma append_snoc_fun: "(@) (a @ [x]) = (\<lambda>ys. a @ x # ys)"
  by auto

lemma expand_factors_eq:
  "n + length acc \<le> LUMICE_MAX_CONFIG_CLAUSES \<Longrightarrow>
   expand_factors n acc fs =
     (if n + length acc * row_size fs \<le> LUMICE_MAX_CONFIG_CLAUSES
      then Some (concat (map (\<lambda>c. map ((@) c) (row_product fs)) acc)) else None)"
proof (induction fs arbitrary: acc)
  case Nil
  then show ?case by (simp add: row_size_def)
next
  case (Cons f fs)
  let ?next = "concat (map (\<lambda>clause. map (\<lambda>alt. clause @ [alt]) (FactorAlternatives f)) acc)"
  have len: "length ?next = length acc * CountFactorAlternatives f"
    by (simp add: length_concat comp_def sum_list_triv CountFactorAlternatives_def)
  have prod: "length acc * row_size (f # fs) = length acc * CountFactorAlternatives f * row_size fs"
    by (simp add: row_size_def)
  have step: "expand_factors n acc (f # fs) =
      (if LUMICE_MAX_CONFIG_CLAUSES < n + length acc * CountFactorAlternatives f then None else expand_factors n ?next fs)"
    using FactorAlternatives_nonempty [of f] by (simp add: CountFactorAlternatives_def Let_def)
  have lists: "concat (map (\<lambda>c. map ((@) c) (row_product fs)) ?next) = concat (map (\<lambda>c. map ((@) c) (row_product (f # fs))) acc)"
    by (induction acc) (simp_all add: map_concat comp_def append_snoc_fun)
  show ?case
  proof (cases "LUMICE_MAX_CONFIG_CLAUSES < n + length acc * CountFactorAlternatives f")
    case True
    have "length acc * CountFactorAlternatives f \<le> length acc * row_size (f # fs)"
      unfolding prod using row_size_pos [of fs] by simp
    then have "\<not> n + length acc * row_size (f # fs) \<le> LUMICE_MAX_CONFIG_CLAUSES" using True by linarith
    then show ?thesis using True unfolding step by simp
  next
    case False
    then show ?thesis
      unfolding step using Cons.IH [of ?next] lists by (simp add: len prod)
  qed
qed

definition expansion_size :: "SumOfProducts \<Rightarrow> nat" where
  "expansion_size param = sum_list (map (\<lambda>s. if st_factors s = [] then 0 else row_size (st_factors s)) param)"

definition expansion :: "SumOfProducts \<Rightarrow> SimpleTermDesc list list" where
  "expansion param = concat (map (\<lambda>s. if st_factors s = [] then [] else row_product (st_factors s)) param)"

definition terms_fit :: "SumOfProducts \<Rightarrow> bool" where
  "terms_fit param \<longleftrightarrow> list_all (\<lambda>s. length (st_factors s) \<le> LUMICE_MAX_CONFIG_TERMS) param"

lemma expand_rows_eq:
  "length clauses \<le> LUMICE_MAX_CONFIG_CLAUSES \<Longrightarrow>
   expand_rows clauses param =
     (if terms_fit param \<and> length clauses + expansion_size param \<le> LUMICE_MAX_CONFIG_CLAUSES
      then Some (clauses @ expansion param) else None)"
proof (induction param arbitrary: clauses)
  case Nil
  then show ?case by (simp add: terms_fit_def expansion_size_def expansion_def)
next
  case (Cons s param)
  show ?case
  proof (cases "st_factors s = [] \<or> LUMICE_MAX_CONFIG_TERMS < length (st_factors s)")
    case True
    then show ?thesis
      using Cons by (auto simp: terms_fit_def expansion_size_def expansion_def)
  next
    case False
    have row: "expand_factors (length clauses) [[]] (st_factors s) =
      (if length clauses + row_size (st_factors s) \<le> LUMICE_MAX_CONFIG_CLAUSES then Some (row_product (st_factors s)) else None)"
    proof (cases "length clauses = LUMICE_MAX_CONFIG_CLAUSES")
      case full: True
      obtain f fs where "st_factors s = f # fs" using False by (cases "st_factors s") auto
      then show ?thesis
        using full FactorAlternatives_nonempty [of f] row_size_pos [of "st_factors s"] by (simp add: Let_def)
    next
      case False
      then show ?thesis
        using Cons.prems expand_factors_eq [of "length clauses" "[[]]" "st_factors s"] by (simp add: map_idI)
    qed
    show ?thesis
    proof (cases "length clauses + row_size (st_factors s) \<le> LUMICE_MAX_CONFIG_CLAUSES")
      case True
      then show ?thesis
        using False row Cons.IH [of "clauses @ row_product (st_factors s)"]
        by (simp add: terms_fit_def expansion_size_def expansion_def length_row_product add.assoc)
    next
      case no: False
      then show ?thesis using False row by (simp add: expansion_size_def)
    qed
  qed
qed

theorem ExpandSopToClauses_spec:
  "ef_overflow (ExpandSopToClauses param) \<longleftrightarrow> \<not> (terms_fit param \<and> expansion_size param \<le> LUMICE_MAX_CONFIG_CLAUSES)"
  "\<not> ef_overflow (ExpandSopToClauses param) \<Longrightarrow> ef_clauses (ExpandSopToClauses param) = expansion param"
  using expand_rows_eq [of "[]" param] by (auto simp: ExpandSopToClauses_def)

lemma product_lists_sat:
  "(\<exists>c\<in>set (product_lists xss). list_all v c) \<longleftrightarrow> list_all (\<lambda>xs. list_ex v xs) xss"
  by (induction xss) (auto simp: list_ex_iff)

text \<open>What a set of clauses says, and what the rows say, under any meaning of the terms.\<close>

definition clauses_hold :: "(SimpleTermDesc \<Rightarrow> bool) \<Rightarrow> SimpleTermDesc list list \<Rightarrow> bool" where
  "clauses_hold v clauses \<longleftrightarrow> list_ex (list_all v) clauses"

definition rows_hold :: "(SimpleTermDesc \<Rightarrow> bool) \<Rightarrow> SumOfProducts \<Rightarrow> bool" where
  "rows_hold v param \<longleftrightarrow>
     list_ex (\<lambda>s. st_factors s \<noteq> [] \<and> list_all (\<lambda>f. list_ex v (FactorAlternatives f)) (st_factors s)) param"

lemma expansion_holds: "clauses_hold v (expansion param) \<longleftrightarrow> rows_hold v param"
proof -
  have row: "list_ex (list_all v) (row_product fs) \<longleftrightarrow> list_all (\<lambda>f. list_ex v (FactorAlternatives f)) fs" for fs
    using product_lists_sat [of "map FactorAlternatives fs" v] by (simp add: list_ex_iff list_all_map_conv)
  show ?thesis
    unfolding clauses_hold_def rows_hold_def expansion_def
    by (induction param) (simp_all add: row)
qed

section \<open>The faces of a validated row\<close>

lemma GuiList_valid_iff:
  "rv_state (GuiValidateFaceNumberListText str kind) = kValid \<longleftrightarrow> str = [] \<or> list_all (legal_token kind) (split_on (CHR '','') str)"
  by (simp add: GuiValidateFaceNumberListText_state ValidateFaceNumberListText_valid_iff)

lemma digits_or_zero_digits:
  "list_all isdigit t \<Longrightarrow> digits_or_zero v t = foldl (\<lambda>v c. v * 10 + int (digit_val c)) v t"
  by (induction t arbitrary: v) simp_all

lemma ParseFaceNumberOrZero_legal: "legal_token kind t \<Longrightarrow> ParseFaceNumberOrZero t = int (digits_val t)"
proof -
  assume t: "legal_token kind t"
  then have "legal_token kPyramid t" by (cases kind) (auto simp: legal_token_def kPrism_legal)
  then have "rv_state (GuiValidateFaceNumberText t kPyramid) = kValid"
    by (simp add: GuiValidateFaceNumberText_state ValidateFaceNumberText_valid_iff)
  then show ?thesis
    using t by (simp add: ParseFaceNumberOrZero_def Let_def digits_or_zero_digits legal_token_def int_digits_val)
qed

lemma face_number_loop_tokens:
  "ts \<noteq> [] \<Longrightarrow> (\<And>t. t \<in> set ts \<Longrightarrow> legal_token kind t) \<Longrightarrow>
    face_number_loop (join_with '','' ts) = map (\<lambda>t. int (digits_val t)) ts"
proof (induction ts)
  case (Cons t ts)
  define rest where "rest = (if ts = [] then [] else CHR '','' # join_with '','' ts)"
  have str: "join_with '','' (t # ts) = t @ rest" by (simp add: join_with_Cons rest_def)
  have t: "legal_token kind t" "t \<noteq> []" using Cons.prems(2) [of t] by (simp_all add: legal_token_def)
  have token: "takeWhile (\<lambda>c. c \<noteq> CHR '','') (t @ rest) = t"
    using legal_token_no_sep [OF t(1)] by (subst takeWhile_append2) (auto simp: rest_def)
  have tail: "face_number_loop (drop (length t + 1) (t @ rest)) = map (\<lambda>t. int (digits_val t)) ts"
    using Cons by (cases "ts = []") (simp_all add: rest_def face_number_loop.simps [of "[]"])
  show ?case
    unfolding str using t tail
    by (subst face_number_loop.simps) (simp add: token Let_def ParseFaceNumberOrZero_legal [OF t(1)])
qed simp

lemma ParseFaceNumberList_valid:
  assumes "rv_state (GuiValidateFaceNumberListText str kind) = kValid" and "x \<in> set (ParseFaceNumberList str)"
  shows "x = kEEWildcardSentinel \<or> IsLegalFace kind x"
proof (cases "str = []")
  case False
  let ?ts = "split_on (CHR '','') str"
  have legal: "\<And>t. t \<in> set ?ts \<Longrightarrow> legal_token kind t" using assms(1) False by (simp add: GuiList_valid_iff list_all_iff)
  have "face_number_loop str = map (\<lambda>t. int (digits_val t)) ?ts"
    using face_number_loop_tokens [OF split_on_nonempty, of "CHR '',''" str kind] legal by (simp add: join_split_on)
  then show ?thesis using assms(2) False legal by (auto simp: ParseFaceNumberList_def legal_token_def)
qed (use assms in \<open>simp add: ParseFaceNumberList_def\<close>)

definition alternative_faces :: "SimpleTermDesc \<Rightarrow> int list" where
  "alternative_faces alt = (if td_is_raypath alt then map int (td_raypath alt)
     else [f \<leftarrow> [td_entry alt, td_exit alt]. f \<noteq> kEEWildcardSentinel])"

lemma FactorFaceNumbers_eq:
  "FactorFaceNumbers f = remdups_adj (sort (concat (map alternative_faces (FactorAlternatives f))))"
proof -
  have "fold (\<lambda>alt faces. if td_is_raypath alt then faces @ map int (td_raypath alt)
              else fold (\<lambda>f faces. if f \<noteq> kEEWildcardSentinel then faces @ [f] else faces) [td_entry alt, td_exit alt] faces)
            alts faces = faces @ concat (map alternative_faces alts)" for alts faces
    by (induction alts arbitrary: faces) (simp_all add: alternative_faces_def)
  then show ?thesis by (simp add: FactorFaceNumbers_def)
qed

lemma FactorFaceNumbers_set: "set (FactorFaceNumbers f) = (\<Union>alt \<in> set (FactorAlternatives f). set (alternative_faces alt))"
  by (simp add: FactorFaceNumbers_eq)

lemma FactorFaceNumbers_strict: "sorted_wrt (<) (FactorFaceNumbers f)"
  unfolding FactorFaceNumbers_eq by (rule sorted_remdups_adj_strict) simp

theorem valid_factor_faces:
  assumes "factor_valid kind f" and "\<And>rp. f = RaypathFactor rp \<Longrightarrow> no_nul (rp_raypath_text rp)"
  shows "list_all (IsLegalFace kind) (FactorFaceNumbers f)"
proof (cases f)
  case (RaypathFactor rp)
  let ?str = "rp_raypath_text rp"
  have valid: "rv_state (ValidateRaypathTextMultiSegment ?str kind) = kValid" "no_nul ?str"
    using assms RaypathFactor by (simp_all add: factor_valid_def)
  have "list_all (list_all (\<lambda>f. IsLegalFace kind (int f))) (ParseRaypathTextMultiSegment ?str)"
  proof (cases "?str = []")
    case False
    then show ?thesis using validated_path_is_kept [OF valid(2) _ valid(1)] by blast
  qed (simp add: ParseRaypathTextMultiSegment_def)
  then show ?thesis
    using RaypathFactor
    by (auto simp: list_all_iff FactorFaceNumbers_set FactorAlternatives_def alternative_faces_def SimpleTermDesc_new_def Let_def
        split: if_splits)
next
  case (EntryExitFactor ep)
  then have valid: "rv_state (GuiValidateFaceNumberListText (ep_entry_text ep) kind) = kValid"
    "rv_state (GuiValidateFaceNumberListText (ep_exit_text ep) kind) = kValid"
    using assms by (simp_all add: factor_valid_def)
  show ?thesis
    using EntryExitFactor ParseFaceNumberList_valid [OF valid(1)] ParseFaceNumberList_valid [OF valid(2)]
    by (auto simp: list_all_iff FactorFaceNumbers_set FactorAlternatives_def alternative_faces_def Let_def split: if_splits)
qed

text \<open>The texts of parsed path factors are tokens of the row.\<close>

lemma walk_texts:
  "list_all (\<lambda>f. \<forall>rp. f = RaypathFactor rp \<longrightarrow> rp_raypath_text rp \<in> A) out \<Longrightarrow> set tokens \<subseteq> A \<Longrightarrow>
    list_all (\<lambda>f. \<forall>rp. f = RaypathFactor rp \<longrightarrow> rp_raypath_text rp \<in> A) (snd (walk_tokens parse_callbacks tokens e out))"
proof (induction tokens arbitrary: e out)
  case Nil
  then show ?case by (simp add: parse_callbacks_def)
next
  case (Cons tok tokens)
  then show ?case by (auto simp: parse_callbacks_def split: sum.splits)
qed

lemma split_on_subset: "t \<in> set (split_on sep str) \<Longrightarrow> set t \<subseteq> set str"
proof -
  have "t \<in> set ts \<Longrightarrow> set t \<subseteq> set (join_with s ts)" for s ts
    by (induction ts) (auto simp: join_with_Cons)
  from this [of "split_on sep str" "[sep]"] show "t \<in> set (split_on sep str) \<Longrightarrow> set t \<subseteq> set str"
    by (simp add: join_split_on)
qed

lemma SplitSummandTokens_subset: "t \<in> set (SplitSummandTokens str) \<Longrightarrow> set t \<subseteq> set str"
proof (cases "str = []")
  case False
  assume "t \<in> set (SplitSummandTokens str)"
  then obtain u where u: "u \<in> set (split_on (CHR ''&'') str)" "t = TrimRaypathSegment u"
    using False by (auto simp: SplitSummandTokens_eq)
  show ?thesis using split_on_subset [OF u(1)] set_Trim [of u] u(2) by (simp add: subset_trans)
qed (simp add: SplitSummandTokens_def)

lemma ParseSummandText_no_nul:
  assumes "no_nul str" and "RaypathFactor rp \<in> set (ParseSummandText str)"
  shows "no_nul (rp_raypath_text rp)"
proof (cases "TrimRaypathSegment str = []")
  case False
  let ?ts = "SplitSummandTokens (TrimRaypathSegment str)"
  have "rp_raypath_text rp \<in> set ?ts"
    using walk_texts [of "set ?ts" "[]" ?ts reset_ee] assms(2) False
    by (auto simp: ParseSummandText_def WalkSummandEeFlush_def Let_def list_all_iff)
  then show ?thesis using SplitSummandTokens_subset set_Trim assms(1) by blast
qed (use assms(2) in \<open>simp add: ParseSummandText_def\<close>)

theorem validated_row_faces:
  assumes "no_nul str" and "rv_state (ValidateSummandText str kind) = kValid"
  shows "list_all (\<lambda>f. list_all (IsLegalFace kind) (FactorFaceNumbers f)) (ParseSummandText str)"
  using validated_row_factors [OF assms(2)] valid_factor_faces ParseSummandText_no_nul [OF assms(1)]
  unfolding list_all_iff by blast

text \<open>The length bounds handed on are never empty.\<close>

lemma DecodeLengthMode_ok:
  "let b = DecodeLengthMode mode lo hi in 1 \<le> el_min_len b \<and> (el_max_len b = - 1 \<or> el_min_len b \<le> el_max_len b)"
  by (simp add: DecodeLengthMode_def Let_def)

end
