(* ===== verification/Chain_Id_Table.thy ===== *)
theory Chain_Id_Table
  imports Text_Utils
begin

text \<open>
  Interning of raypath chains across scattering layers (\<open>src/core/chain_id_table.hpp\<close>,
  \<open>src/core/chain_id_table.cpp\<close>): the bounded table of one worker and the merger that joins the tables of
  several workers.

  An id is a \<open>nat\<close>; the cast to \<open>uint32_t\<close> is written out.  The hash index is a map from keys to ids: the
  hash function only chooses buckets.  \<open>EntryAt\<close> is \<open>None\<close> where \<open>std::vector::at\<close> throws, and the walk to the
  root is a partial function, since nothing in the type forbids a cycle.

  The abstract table is the list of its chains: the locale \<open>interner\<close> says what one \<open>Intern\<close> does to it,
  the interpretation shows that the code's table does that, and the merger's correctness rests on its facts.
\<close>

section \<open>The code\<close>

record ChainIdTableEntry =
  ent_id :: nat
  parent_id :: nat
  ent_crystal_id :: nat
  segment :: "nat list"

type_synonym chain_key = "nat \<times> nat \<times> nat list"

record ChainIdInterningTable =
  cit_entries :: "ChainIdTableEntry list"
  cit_index :: "chain_key \<Rightarrow> nat option"
  cit_flush_cursor :: nat
  cit_capacity :: nat
  cit_overflow_since_flush :: nat
  cit_rebuild_count :: nat

definition kRootChainId :: nat where "kRootChainId = 0"
definition kOverflowChainId :: nat where "kOverflowChainId = 0xFFFFFFFE"
definition kUnresolved :: nat where "kUnresolved = 0xFFFFFFFF"
definition kDefaultCapacity :: nat where "kDefaultCapacity = 16384"
definition kUnboundedCapacity :: nat where "kUnboundedCapacity = 2 ^ 64 - 1"

lemmas chain_consts = kRootChainId_def kOverflowChainId_def kUnresolved_def

definition placeholder :: ChainIdTableEntry where
  "placeholder = \<lparr> ent_id = 0, parent_id = 0, ent_crystal_id = 0xFFFF, segment = [] \<rparr>"

definition ChainIdInterningTable_new :: "nat \<Rightarrow> ChainIdInterningTable" where
  "ChainIdInterningTable_new capacity =
     \<lparr> cit_entries = [placeholder], cit_index = (\<lambda>_. None), cit_flush_cursor = 1, cit_capacity = capacity,
       cit_overflow_since_flush = 0, cit_rebuild_count = 0 \<rparr>"

definition Size :: "ChainIdInterningTable \<Rightarrow> nat" where
  "Size t = length (cit_entries t) - 1"

definition Intern :: "nat \<Rightarrow> nat \<Rightarrow> nat list \<Rightarrow> ChainIdInterningTable \<Rightarrow> nat \<times> ChainIdInterningTable" where
  "Intern parent crystal_id seg t =
     (if parent = kOverflowChainId then (kOverflowChainId, t)
      else
        let key = (parent, crystal_id, seg)
        in case cit_index t key of
             Some known \<Rightarrow> (known, t)
           | None \<Rightarrow>
               if Size t \<ge> cit_capacity t
               then (kOverflowChainId, t\<lparr> cit_overflow_since_flush := cit_overflow_since_flush t + 1 \<rparr>)
               else
                 let fresh = length (cit_entries t) mod 2 ^ 32;
                     e = \<lparr> ent_id = fresh, parent_id = parent, ent_crystal_id = crystal_id, segment = seg \<rparr>
                 in (fresh, t\<lparr> cit_entries := cit_entries t @ [e], cit_index := (cit_index t)(key \<mapsto> fresh) \<rparr>))"

definition EntryAt :: "nat \<Rightarrow> ChainIdInterningTable \<Rightarrow> ChainIdTableEntry option" where
  "EntryAt i t = (if i < length (cit_entries t) then Some (cit_entries t ! i) else None)"

definition ConsumeOverflowCount :: "ChainIdInterningTable \<Rightarrow> nat \<times> ChainIdInterningTable" where
  "ConsumeOverflowCount t = (cit_overflow_since_flush t, t\<lparr> cit_overflow_since_flush := 0 \<rparr>)"

definition FlushDelta :: "ChainIdInterningTable \<Rightarrow> ChainIdTableEntry list \<times> ChainIdInterningTable" where
  "FlushDelta t = (drop (cit_flush_cursor t) (cit_entries t), t\<lparr> cit_flush_cursor := length (cit_entries t) \<rparr>)"

definition Clear_table :: "ChainIdInterningTable \<Rightarrow> ChainIdInterningTable" where
  "Clear_table t = t\<lparr> cit_entries := [placeholder], cit_index := (\<lambda>_. None), cit_flush_cursor := 1,
     cit_overflow_since_flush := 0 \<rparr>"

definition ReuseOrRebuild :: "nat \<Rightarrow> ChainIdInterningTable \<Rightarrow> ChainIdInterningTable" where
  "ReuseOrRebuild capacity t =
     (if capacity = cit_capacity t then Clear_table t
      else
        let rebuilds = cit_rebuild_count t + 1
        in (ChainIdInterningTable_new capacity)\<lparr> cit_rebuild_count := rebuilds \<rparr>)"

partial_function (option) walk :: "ChainIdInterningTable \<Rightarrow> nat \<Rightarrow> nat list option" where
  "walk t cur =
     (if cur = kRootChainId then Some []
      else case EntryAt cur t of
             None \<Rightarrow> None
           | Some e \<Rightarrow> Option.bind (walk t (parent_id e)) (\<lambda>path. Some (cur # path)))"

definition PathToRoot :: "nat \<Rightarrow> ChainIdInterningTable \<Rightarrow> nat list option" where
  "PathToRoot i t = (if i = kOverflowChainId then Some [] else walk t i)"

definition Segments :: "nat \<Rightarrow> ChainIdInterningTable \<Rightarrow> ChainIdTableEntry list option" where
  "Segments i t = map_option (\<lambda>path. map (\<lambda>j. cit_entries t ! j) (rev path)) (PathToRoot i t)"

fun format_faces :: "nat list \<Rightarrow> string" where
  "format_faces [] = ''''"
| "format_faces [f] = to_string f"
| "format_faces (f # fs) = to_string f @ ''-'' @ format_faces fs"

definition format_entry :: "string \<Rightarrow> ChainIdTableEntry \<Rightarrow> string" where
  "format_entry out e =
     (if out \<noteq> '''' then out @ ''-'' else out) @ ''crystal'' @ to_string (ent_crystal_id e) @ ''('' @
     format_faces (segment e) @ '')''"

definition Format :: "nat \<Rightarrow> ChainIdInterningTable \<Rightarrow> string option" where
  "Format i t = map_option (\<lambda>path. foldl (\<lambda>out j. format_entry out (cit_entries t ! j)) '''' (rev path)) (PathToRoot i t)"

section \<open>The merger\<close>

record ProducerState =
  ps_remap :: "nat \<Rightarrow> nat option"
  ps_max_local_id :: nat

record ChainIdMerger =
  cm_table :: ChainIdInterningTable
  cm_producers :: "nat \<Rightarrow> ProducerState option"

record AbsorbReport =
  orphaned :: nat
  non_monotonic :: nat

definition ChainIdMerger_new :: ChainIdMerger where
  "ChainIdMerger_new = \<lparr> cm_table = ChainIdInterningTable_new kUnboundedCapacity, cm_producers = (\<lambda>_. None) \<rparr>"

text \<open>The body of the loop over the delta, on the producer's state, the table and the report.\<close>

definition absorb_entry ::
  "ChainIdTableEntry \<Rightarrow> ProducerState \<times> ChainIdInterningTable \<times> AbsorbReport \<Rightarrow>
     ProducerState \<times> ChainIdInterningTable \<times> AbsorbReport"
where
  "absorb_entry e st =
     (let (state, table, report) = st;
          merged_parent = (if parent_id e \<noteq> kRootChainId then ps_remap state (parent_id e) else Some kRootChainId)
      in case merged_parent of
           None \<Rightarrow> (state, table, report\<lparr> orphaned := orphaned report + 1 \<rparr>)
         | Some parent \<Rightarrow>
             let (state, report) =
                   (if ent_id e \<le> ps_max_local_id state
                    then (state, report\<lparr> non_monotonic := non_monotonic report + 1 \<rparr>)
                    else (state\<lparr> ps_max_local_id := ent_id e \<rparr>, report));
                 (merged, table) = Intern parent (ent_crystal_id e) (segment e) table
             in (state\<lparr> ps_remap := (ps_remap state)(ent_id e \<mapsto> merged) \<rparr>, table, report))"

definition Absorb :: "nat \<Rightarrow> ChainIdTableEntry list \<Rightarrow> ChainIdMerger \<Rightarrow> AbsorbReport \<times> ChainIdMerger" where
  "Absorb producer_key delta m =
     (let state = (case cm_producers m producer_key of
            Some s \<Rightarrow> s | None \<Rightarrow> \<lparr> ps_remap = (\<lambda>_. None), ps_max_local_id = kRootChainId \<rparr>);
          (state, table, report) = fold absorb_entry delta (state, cm_table m, \<lparr> orphaned = 0, non_monotonic = 0 \<rparr>)
      in (report, m\<lparr> cm_table := table, cm_producers := (cm_producers m)(producer_key \<mapsto> state) \<rparr>))"

definition Resolve :: "nat \<Rightarrow> nat \<Rightarrow> ChainIdMerger \<Rightarrow> nat" where
  "Resolve producer_key local_id m =
     (if local_id = kRootChainId \<or> local_id = kOverflowChainId then local_id
      else case cm_producers m producer_key of
             None \<Rightarrow> kUnresolved
           | Some s \<Rightarrow> (case ps_remap s local_id of None \<Rightarrow> kUnresolved | Some merged \<Rightarrow> merged))"

definition Clear_merger :: "ChainIdMerger \<Rightarrow> ChainIdMerger" where
  "Clear_merger m = \<lparr> cm_table = Clear_table (cm_table m), cm_producers = (\<lambda>_. None) \<rparr>"

section \<open>The contract of an interner\<close>

locale interner =
  fixes ok :: "'s \<Rightarrow> bool"
    and size :: "'s \<Rightarrow> nat"
    and room :: "'s \<Rightarrow> bool"
    and chain :: "'s \<Rightarrow> nat \<Rightarrow> 'c list"
    and intern :: "nat \<Rightarrow> 'c \<Rightarrow> 's \<Rightarrow> nat \<times> 's"
  assumes chain_root: "ok s \<Longrightarrow> chain s 0 = []"
    and chain_inj: "ok s \<Longrightarrow> i \<le> size s \<Longrightarrow> j \<le> size s \<Longrightarrow> chain s i = chain s j \<Longrightarrow> i = j"
    and intern_ok: "ok s \<Longrightarrow> p \<le> size s \<Longrightarrow> room s \<Longrightarrow> intern p c s = (i, s') \<Longrightarrow> ok s'"
    and intern_id: "ok s \<Longrightarrow> p \<le> size s \<Longrightarrow> room s \<Longrightarrow> intern p c s = (i, s') \<Longrightarrow> 0 < i \<and> i \<le> size s'"
    and intern_chain: "ok s \<Longrightarrow> p \<le> size s \<Longrightarrow> room s \<Longrightarrow> intern p c s = (i, s') \<Longrightarrow> chain s' i = chain s p @ [c]"
    and intern_keeps: "ok s \<Longrightarrow> p \<le> size s \<Longrightarrow> room s \<Longrightarrow> intern p c s = (i, s') \<Longrightarrow>
      size s \<le> size s' \<and> (\<forall>j \<le> size s. chain s' j = chain s j)"
    and intern_grows: "ok s \<Longrightarrow> p \<le> size s \<Longrightarrow> room s \<Longrightarrow> intern p c s = (i, s') \<Longrightarrow> size s' \<le> size s + 1"
begin

text \<open>The id an intern returns is the id of the extended chain, if the chain is there already.\<close>

lemma intern_known:
  assumes "ok s" and "p \<le> size s" and "room s" and "intern p c s = (i, s')"
    and "k \<le> size s" and "chain s k = chain s p @ [c]"
  shows "i = k"
proof (rule chain_inj)
  show "ok s'" by (rule intern_ok [OF assms(1-4)])
  show "i \<le> size s'" using intern_id [OF assms(1-4)] by simp
  show "k \<le> size s'" using intern_keeps [OF assms(1-4)] assms(5) by simp
  show "chain s' i = chain s' k"
    using intern_chain [OF assms(1-4)] intern_keeps [OF assms(1-4)] assms(5,6) by simp
qed

end


section \<open>The table is a trie\<close>

definition key_of :: "ChainIdTableEntry \<Rightarrow> chain_key" where
  "key_of e = (parent_id e, ent_crystal_id e, segment e)"

definition index_ok :: "ChainIdInterningTable \<Rightarrow> bool" where
  "index_ok t \<longleftrightarrow>
     (\<forall>k i. cit_index t k = Some i \<longleftrightarrow> 0 < i \<and> i < length (cit_entries t) \<and> key_of (cit_entries t ! i) = k)"

definition table_ok :: "ChainIdInterningTable \<Rightarrow> bool" where
  "table_ok t \<longleftrightarrow>
     cit_entries t \<noteq> [] \<and> length (cit_entries t) \<le> kOverflowChainId \<and> Size t \<le> cit_capacity t \<and>
     1 \<le> cit_flush_cursor t \<and> cit_flush_cursor t \<le> length (cit_entries t) \<and>
     (\<forall>i\<in>{1..<length (cit_entries t)}. ent_id (cit_entries t ! i) = i \<and> parent_id (cit_entries t ! i) < i) \<and>
     index_ok t"

definition link_of :: "ChainIdTableEntry \<Rightarrow> nat \<times> nat list" where
  "link_of e = (ent_crystal_id e, segment e)"

definition chain_of :: "ChainIdInterningTable \<Rightarrow> nat \<Rightarrow> (nat \<times> nat list) list" where
  "chain_of t i = (case Segments i t of None \<Rightarrow> [] | Some es \<Rightarrow> map link_of es)"

definition has_room :: "ChainIdInterningTable \<Rightarrow> bool" where
  "has_room t \<longleftrightarrow> Size t < cit_capacity t \<and> length (cit_entries t) < kOverflowChainId"

lemma table_okD:
  assumes "table_ok t"
  shows "cit_entries t \<noteq> []" "length (cit_entries t) = Suc (Size t)" "Size t < kOverflowChainId"
    "Size t \<le> cit_capacity t" "1 \<le> cit_flush_cursor t" "cit_flush_cursor t \<le> Suc (Size t)"
  using assms by (auto simp: table_ok_def Size_def)

lemma index_ok_iff:
  "index_ok t \<Longrightarrow>
    cit_index t k = Some i \<longleftrightarrow> 0 < i \<and> i < length (cit_entries t) \<and> key_of (cit_entries t ! i) = k"
  unfolding index_ok_def by blast

lemma index_okI:
  assumes "\<And>k i. cit_index t k = Some i \<longleftrightarrow> 0 < i \<and> i < length (cit_entries t) \<and> key_of (cit_entries t ! i) = k"
  shows "index_ok t"
  unfolding index_ok_def using assms by blast

lemma table_ok_index_iff:
  assumes "table_ok t"
  shows "cit_index t k = Some i \<longleftrightarrow> 0 < i \<and> i \<le> Size t \<and> key_of (cit_entries t ! i) = k"
  using assms index_ok_iff [of t k i] table_okD(2) [OF assms] by (simp add: table_ok_def less_Suc_eq_le)

lemma table_ok_entry:
  assumes "table_ok t" and "0 < i" and "i \<le> Size t"
  shows "ent_id (cit_entries t ! i) = i" "parent_id (cit_entries t ! i) < i"
    "cit_index t (key_of (cit_entries t ! i)) = Some i"
  using assms table_okD(2) [OF assms(1)] table_ok_index_iff [OF assms(1)] by (simp_all add: table_ok_def)

lemma new_ok: "table_ok (ChainIdInterningTable_new c)"
  by (simp add: table_ok_def index_ok_def ChainIdInterningTable_new_def Size_def chain_consts) force

lemma Clear_ok: "table_ok (Clear_table t)"
  by (simp add: table_ok_def index_ok_def Clear_table_def Size_def chain_consts) force

lemma walk_root: "walk t 0 = Some []"
  by (subst walk.simps) (simp add: chain_consts)

lemma walk_entry:
  assumes "table_ok t" and "0 < i" and "i \<le> Size t"
  shows "walk t i = map_option (Cons i) (walk t (parent_id (cit_entries t ! i)))"
  using assms table_okD(2) [OF assms(1)]
  by (subst walk.simps) (simp add: chain_consts EntryAt_def map_conv_bind_option comp_def)

text \<open>From an id of the table the walk reaches the root, through ids of the table that go down.\<close>

lemma walk_total:
  assumes ok: "table_ok t"
  shows "i \<le> Size t \<Longrightarrow> \<exists>path. walk t i = Some path \<and> set path \<subseteq> {1..i} \<and> sorted_wrt (>) path"
proof (induction i rule: less_induct)
  case (less i)
  show ?case
  proof (cases "i = 0")
    case False
    let ?p = "parent_id (cit_entries t ! i)"
    have p: "?p < i" using table_ok_entry [OF ok] False less.prems by simp
    then obtain path where path: "walk t ?p = Some path" "set path \<subseteq> {1..?p}" "sorted_wrt (>) path"
      using less.IH [of ?p] less.prems by force
    then show ?thesis
      using walk_entry [OF ok] False less.prems p by fastforce
  qed (simp add: walk_root)
qed

lemma Segments_total:
  assumes "table_ok t" and "i \<le> Size t"
  shows "\<exists>path. walk t i = Some path \<and> Segments i t = Some (map (\<lambda>j. cit_entries t ! j) (rev path))"
  using walk_total [OF assms] table_okD(3) [OF assms(1)] assms(2) by (auto simp: Segments_def PathToRoot_def)

lemma chain_of_root: "chain_of t 0 = []"
  by (simp add: chain_of_def Segments_def PathToRoot_def walk_root)

lemma chain_of_entry:
  assumes "table_ok t" and "0 < i" and "i \<le> Size t"
  shows "chain_of t i = chain_of t (parent_id (cit_entries t ! i)) @ [link_of (cit_entries t ! i)]"
proof -
  let ?p = "parent_id (cit_entries t ! i)"
  have "?p \<le> Size t" using table_ok_entry(2) [OF assms] assms(3) by simp
  from Segments_total [OF assms(1) this] obtain path where path: "walk t ?p = Some path"
    and seg: "Segments ?p t = Some (map (\<lambda>j. cit_entries t ! j) (rev path))" by blast
  have "walk t i = Some (i # path)" using walk_entry [OF assms] path by simp
  with Segments_total [OF assms(1,3)]
  have "Segments i t = Some (map (\<lambda>j. cit_entries t ! j) (rev (i # path)))" by auto
  with seg show ?thesis by (simp add: chain_of_def)
qed

lemma chain_of_nil: "table_ok t \<Longrightarrow> i \<le> Size t \<Longrightarrow> chain_of t i = [] \<longleftrightarrow> i = 0"
  by (cases "i = 0") (metis chain_of_root, metis chain_of_entry gr0I append_is_Nil_conv list.distinct(1))

lemma chain_of_inj:
  assumes ok: "table_ok t"
  shows "i \<le> Size t \<Longrightarrow> j \<le> Size t \<Longrightarrow> chain_of t i = chain_of t j \<Longrightarrow> i = j"
proof (induction i arbitrary: j rule: less_induct)
  case (less i)
  show ?case
  proof (cases "i = 0 \<or> j = 0")
    case True
    then show ?thesis
      using less.prems chain_of_nil [OF ok] chain_of_root [of t] by metis
  next
    case False
    then have ij: "0 < i" "0 < j" by simp_all
    let ?e = "cit_entries t ! i" and ?f = "cit_entries t ! j"
    have same: "chain_of t (parent_id ?e) = chain_of t (parent_id ?f)" "link_of ?e = link_of ?f"
      using less.prems(3) unfolding chain_of_entry [OF ok ij(1) less.prems(1)] chain_of_entry [OF ok ij(2) less.prems(2)]
      by simp_all
    note e = table_ok_entry [OF ok ij(1) less.prems(1)] and f = table_ok_entry [OF ok ij(2) less.prems(2)]
    have "parent_id ?e = parent_id ?f"
      by (rule less.IH) (use e f same(1) less.prems(1,2) in linarith)+
    then have "key_of ?e = key_of ?f" using same(2) by (simp add: key_of_def link_of_def)
    then show ?thesis using e(3) f(3) by (metis option.inject)
  qed
qed

section \<open>Interning\<close>

text \<open>The two ways an intern of a valid parent can go while there is room: a known key, or the next dense id.\<close>

lemma valid_not_overflow: "table_ok t \<Longrightarrow> p \<le> Size t \<Longrightarrow> p \<noteq> kOverflowChainId"
  using table_okD(3) by fastforce

lemma Intern_known:
  assumes "table_ok t" and "p \<le> Size t" and "cit_index t (p, c, sg) = Some i"
  shows "Intern p c sg t = (i, t)"
  using valid_not_overflow [OF assms(1,2)] assms(3) by (simp add: Intern_def)

lemma Intern_fresh:
  assumes "table_ok t" and "p \<le> Size t" and "cit_index t (p, c, sg) = None" and "has_room t"
  shows "Intern p c sg t = (Suc (Size t), t\<lparr> cit_entries := cit_entries t @
      [\<lparr> ent_id = Suc (Size t), parent_id = p, ent_crystal_id = c, segment = sg \<rparr>],
      cit_index := (cit_index t)((p, c, sg) \<mapsto> Suc (Size t)) \<rparr>)"
proof -
  have "Suc (Size t) mod 2 ^ 32 = Suc (Size t)" "\<not> cit_capacity t \<le> Size t"
    using assms(4) table_okD(2) [OF assms(1)] by (simp_all add: has_room_def chain_consts)
  then show ?thesis
    using valid_not_overflow [OF assms(1,2)] assms(3) table_okD(2) [OF assms(1)]
    by (simp only: Intern_def Let_def option.case if_False)
qed

lemma fresh_ok:
  fixes t p c sg
  defines "t' \<equiv> t\<lparr> cit_entries := cit_entries t @
      [\<lparr> ent_id = Suc (Size t), parent_id = p, ent_crystal_id = c, segment = sg \<rparr>],
      cit_index := (cit_index t)((p, c, sg) \<mapsto> Suc (Size t)) \<rparr>"
  assumes ok: "table_ok t" and p: "p \<le> Size t" and new: "cit_index t (p, c, sg) = None" and room: "has_room t"
  shows "table_ok t'" and "Size t' = Suc (Size t)"
proof -
  note len = table_okD(2) [OF ok]
  show size': "Size t' = Suc (Size t)" by (simp add: t'_def Size_def) (use ok in \<open>simp add: table_ok_def\<close>)
  have "index_ok t'"
  proof (rule index_okI)
    fix k i
    let ?n = "Suc (Size t)" and ?key = "(p, c, sg)"
    have idx: "cit_index t' k = (if k = ?key then Some ?n else cit_index t k)" by (simp add: t'_def)
    have len': "length (cit_entries t') = Suc ?n" using len by (simp add: t'_def)
    have at_n: "key_of (cit_entries t' ! ?n) = ?key" using len by (simp add: t'_def nth_append key_of_def)
    have below: "i < ?n \<Longrightarrow> cit_entries t' ! i = cit_entries t ! i" using len by (simp add: t'_def nth_append)
    note old = table_ok_index_iff [OF ok]
    show "cit_index t' k = Some i \<longleftrightarrow> 0 < i \<and> i < length (cit_entries t') \<and> key_of (cit_entries t' ! i) = k"
    proof (cases "i < ?n")
      case True
      then have "cit_index t' k = Some i \<longleftrightarrow> cit_index t k = Some i" using new by (simp add: idx)
      also have "\<dots> \<longleftrightarrow> 0 < i \<and> i < ?n \<and> key_of (cit_entries t' ! i) = k"
        unfolding old below [OF True] by (simp only: less_Suc_eq_le)
      finally show ?thesis using True by (simp only: len' less_SucI simp_thms)
    next
      case False
      then have "cit_index t k \<noteq> Some i" by (simp add: old)
      with False at_n show ?thesis by (auto simp: idx len' less_Suc_eq)
    qed
  qed
  then show "table_ok t'"
    using ok p room len size' unfolding table_ok_def has_room_def by (auto simp: t'_def nth_append)
qed

lemma chain_of_extend:
  assumes ok: "table_ok t" and ok': "table_ok t'" and ext: "cit_entries t' = cit_entries t @ es"
  shows "i \<le> Size t \<Longrightarrow> chain_of t' i = chain_of t i"
proof (induction i rule: less_induct)
  case (less i)
  show ?case
  proof (cases "i = 0")
    case False
    have i: "0 < i" "i \<le> Size t'" using False less.prems ext by (simp_all add: Size_def)
    have same: "cit_entries t' ! i = cit_entries t ! i"
      using less.prems table_okD(2) [OF ok] ext by (simp add: nth_append)
    have "parent_id (cit_entries t ! i) < i" by (rule table_ok_entry(2) [OF ok i(1) less.prems])
    then show ?thesis
      unfolding chain_of_entry [OF ok' i] chain_of_entry [OF ok i(1) less.prems] same
      using less.IH less.prems by simp
  qed (simp add: chain_of_root)
qed

text \<open>The table is an interner of chains.\<close>

abbreviation intern_link :: "nat \<Rightarrow> nat \<times> nat list \<Rightarrow> ChainIdInterningTable \<Rightarrow> nat \<times> ChainIdInterningTable" where
  "intern_link p c t \<equiv> Intern p (fst c) (snd c) t"

lemma Intern_spec:
  assumes ok: "table_ok t" and p: "p \<le> Size t" and room: "has_room t" and i: "Intern p c sg t = (i, t')"
  shows "table_ok t' \<and> 0 < i \<and> i \<le> Size t' \<and> chain_of t' i = chain_of t p @ [(c, sg)] \<and>
    Size t \<le> Size t' \<and> Size t' \<le> Suc (Size t) \<and> (\<forall>j \<le> Size t. chain_of t' j = chain_of t j) \<and>
    cit_capacity t' = cit_capacity t"
proof (cases "cit_index t (p, c, sg)")
  case (Some k)
  note k = Some [unfolded table_ok_index_iff [OF ok]]
  have "chain_of t k = chain_of t p @ [(c, sg)]"
    using chain_of_entry [OF ok, of k] k by (auto simp: key_of_def link_of_def)
  then show ?thesis using i Intern_known [OF ok p Some] ok k by auto
next
  case None
  define t2 where "t2 = t\<lparr> cit_entries := cit_entries t @
      [\<lparr> ent_id = Suc (Size t), parent_id = p, ent_crystal_id = c, segment = sg \<rparr>],
      cit_index := (cit_index t)((p, c, sg) \<mapsto> Suc (Size t)) \<rparr>"
  have t2: "i = Suc (Size t)" "t' = t2"
    using i unfolding Intern_fresh [OF ok p None room] t2_def [symmetric] by simp_all
  have ok2: "table_ok t2" and size2: "Size t2 = Suc (Size t)"
    unfolding t2_def by (rule fresh_ok [OF ok p None room])+
  have ext: "cit_entries t2 = cit_entries t @
      [\<lparr> ent_id = Suc (Size t), parent_id = p, ent_crystal_id = c, segment = sg \<rparr>]"
    by (simp add: t2_def)
  note keeps = chain_of_extend [OF ok ok2 ext]
  have e: "cit_entries t2 ! i = \<lparr> ent_id = Suc (Size t), parent_id = p, ent_crystal_id = c, segment = sg \<rparr>"
    using ext table_okD(2) [OF ok] t2(1) by (simp add: nth_append)
  have "0 < i" "i \<le> Size t2" using t2(1) size2 by simp_all
  from chain_of_entry [OF ok2 this] have "chain_of t2 i = chain_of t p @ [(c, sg)]"
    unfolding e using keeps [OF p] by (simp add: link_of_def)
  then show ?thesis using ok2 size2 keeps t2 by (simp add: t2_def)
qed

interpretation chains: interner table_ok Size has_room chain_of intern_link
  by unfold_locales (auto simp: chain_of_root intro: chain_of_inj dest: Intern_spec)

section \<open>The bound\<close>

text \<open>Without room a key the table does not hold is answered with the sentinel and counted, and nothing else
  changes; under the sentinel every child is the sentinel, uncounted.\<close>

lemma Intern_full:
  assumes "p \<noteq> kOverflowChainId" and "cit_index t (p, c, sg) = None" and "cit_capacity t \<le> Size t"
  shows "Intern p c sg t = (kOverflowChainId, t\<lparr> cit_overflow_since_flush := cit_overflow_since_flush t + 1 \<rparr>)"
  using assms by (simp add: Intern_def)

lemma Intern_sticky: "Intern kOverflowChainId c sg t = (kOverflowChainId, t)"
  by (simp add: Intern_def)

lemma count_ok: "table_ok (t\<lparr> cit_overflow_since_flush := n \<rparr>) = table_ok t"
  by (simp add: table_ok_def index_ok_def Size_def)

text \<open>Every operation keeps the invariant, whether or not there is room.\<close>

lemma Intern_ok:
  assumes ok: "table_ok t" and p: "p \<le> Size t \<or> p = kOverflowChainId" and cap: "cit_capacity t < kOverflowChainId - 1"
    and i: "Intern p c sg t = (i, t')"
  shows "table_ok t' \<and> (i \<noteq> 0) \<and> (i \<le> Size t' \<or> i = kOverflowChainId) \<and> cit_capacity t' = cit_capacity t"
proof (cases "p = kOverflowChainId")
  case True
  then show ?thesis using i ok by (simp add: Intern_sticky) (simp add: chain_consts)
next
  case False
  with p have p: "p \<le> Size t" by simp
  show ?thesis
  proof (cases "has_room t \<or> cit_index t (p, c, sg) \<noteq> None")
    case True
    then show ?thesis
    proof
      assume "has_room t"
      from Intern_spec [OF ok p this i] show ?thesis by simp
    next
      assume "cit_index t (p, c, sg) \<noteq> None"
      then obtain k where k: "cit_index t (p, c, sg) = Some k" by blast
      then show ?thesis using Intern_known [OF ok p k] i ok table_ok_index_iff [OF ok] by auto
    qed
  next
    case full: False
    then have "cit_capacity t \<le> Size t" "cit_index t (p, c, sg) = None"
      using cap table_okD(2,3) [OF ok] by (auto simp: has_room_def chain_consts)
    from Intern_full [OF False this(2,1)] i have "i = kOverflowChainId"
      "t' = t\<lparr> cit_overflow_since_flush := cit_overflow_since_flush t + 1 \<rparr>" by simp_all
    then show ?thesis using ok count_ok by (simp add: chain_consts)
  qed
qed

lemma Flush_ok: "table_ok t \<Longrightarrow> table_ok (snd (FlushDelta t))"
  by (auto simp: table_ok_def FlushDelta_def index_ok_def Size_def Suc_le_eq)

lemma Consume_ok: "table_ok t \<Longrightarrow> table_ok (snd (ConsumeOverflowCount t))"
  by (simp add: ConsumeOverflowCount_def count_ok)

lemma Reuse_ok: "table_ok (ReuseOrRebuild c t)"
proof (cases "c = cit_capacity t")
  case False
  have "table_ok (u\<lparr> cit_rebuild_count := n \<rparr>) = table_ok u" for u n
    by (simp add: table_ok_def index_ok_def Size_def)
  with False show ?thesis by (simp add: ReuseOrRebuild_def Let_def new_ok)
qed (simp add: ReuseOrRebuild_def Clear_ok)

section \<open>Deltas\<close>

text \<open>A worker's session: interns and flushes in any order; the deltas it delivers, one after the other.\<close>

datatype table_op = Interns nat nat "nat list" | Flush

fun run_op :: "table_op \<Rightarrow> ChainIdTableEntry list \<times> ChainIdInterningTable \<Rightarrow> ChainIdTableEntry list \<times> ChainIdInterningTable"
where
  "run_op (Interns p c sg) (out, t) = (out, snd (Intern p c sg t))"
| "run_op Flush (out, t) = (out @ fst (FlushDelta t), snd (FlushDelta t))"

lemma Intern_extends:
  "\<exists>es. cit_entries (snd (Intern p c sg t)) = cit_entries t @ es \<and>
     cit_flush_cursor (snd (Intern p c sg t)) = cit_flush_cursor t"
  by (auto simp: Intern_def Let_def split: option.splits)

lemma run_op_delivers:
  assumes "out = drop 1 (take (cit_flush_cursor t) (cit_entries t))" and "1 \<le> cit_flush_cursor t"
    and "cit_flush_cursor t \<le> length (cit_entries t)" and "run_op x (out, t) = (out', t')"
  shows "out' = drop 1 (take (cit_flush_cursor t') (cit_entries t')) \<and> 1 \<le> cit_flush_cursor t' \<and>
    cit_flush_cursor t' \<le> length (cit_entries t')"
proof (cases x)
  case (Interns p c sg)
  then show ?thesis using assms Intern_extends [of p c sg t] by auto
next
  case Flush
  have "drop 1 (take n xs) @ drop n xs = drop 1 xs" if "1 \<le> n" "n \<le> length xs" for n and xs :: "'a list"
    using that by (metis append_take_drop_id drop_append diff_is_0_eq drop0 length_take min.absorb2)
  with Flush assms show ?thesis by (auto simp: FlushDelta_def)
qed

lemma run_ops_deliver:
  assumes "out = drop 1 (take (cit_flush_cursor t) (cit_entries t))" and "1 \<le> cit_flush_cursor t"
    and "cit_flush_cursor t \<le> length (cit_entries t)" and "fold run_op ops (out, t) = (out', t')"
  shows "out' = drop 1 (take (cit_flush_cursor t') (cit_entries t')) \<and> 1 \<le> cit_flush_cursor t' \<and>
    cit_flush_cursor t' \<le> length (cit_entries t')"
  using assms
proof (induction ops arbitrary: out t)
  case (Cons x ops)
  obtain out1 t1 where r: "run_op x (out, t) = (out1, t1)" by fastforce
  from run_op_delivers [OF Cons.prems(1-3) r] have "out1 = drop 1 (take (cit_flush_cursor t1) (cit_entries t1))"
    "1 \<le> cit_flush_cursor t1" "cit_flush_cursor t1 \<le> length (cit_entries t1)" by simp_all
  from Cons.IH [OF this] Cons.prems(4) r show ?case by simp
qed simp

section \<open>The merged table\<close>

text \<open>What the merger holds of a producer: the first \<open>n\<close> entries of the table \<open>l\<close>, remapped chain by chain.\<close>

definition remap_ok :: "ChainIdInterningTable \<Rightarrow> ChainIdInterningTable \<Rightarrow> nat \<Rightarrow> ProducerState \<Rightarrow> bool" where
  "remap_ok merged l n s \<longleftrightarrow> ps_max_local_id s = n \<and> n \<le> Size l \<and>
     (\<forall>i. i \<notin> {1..n} \<longrightarrow> ps_remap s i = None) \<and>
     (\<forall>i\<in>{1..n}. \<exists>j. ps_remap s i = Some j \<and> 0 < j \<and> j \<le> Size merged \<and> chain_of merged j = chain_of l i)"

lemma remap_ok_keep:
  assumes "remap_ok t l n s" and "Size t \<le> Size t'" and "\<forall>j \<le> Size t. chain_of t' j = chain_of t j"
  shows "remap_ok t' l n s"
  using assms unfolding remap_ok_def by (metis (no_types, lifting) le_trans)

lemma absorb_entry_spec:
  assumes l: "table_ok l" "n < Size l" and t: "table_ok t" "has_room t" and s: "remap_ok t l n s"
    and e: "e = cit_entries l ! Suc n" and r: "absorb_entry e (s, t, rep) = (s', t', rep')"
  shows "table_ok t' \<and> remap_ok t' l (Suc n) s' \<and> rep' = rep \<and> Size t \<le> Size t' \<and> Size t' \<le> Suc (Size t) \<and>
    (\<forall>j \<le> Size t. chain_of t' j = chain_of t j) \<and> cit_capacity t' = cit_capacity t"
proof -
  note ent = table_ok_entry [OF l(1), of "Suc n", folded e]
  have e_id: "ent_id e = Suc n" and parent: "parent_id e \<le> n" using ent l(2) by simp_all
  define mp where "mp = (if parent_id e \<noteq> kRootChainId then ps_remap s (parent_id e) else Some kRootChainId)"
  have "\<exists>p. mp = Some p \<and> p \<le> Size t \<and> chain_of t p = chain_of l (parent_id e)"
  proof (cases "parent_id e = 0")
    case False
    then have "parent_id e \<in> {1..n}" using parent by simp
    with s False show ?thesis unfolding remap_ok_def mp_def kRootChainId_def by (metis (no_types, lifting))
  qed (simp add: mp_def kRootChainId_def chain_of_root)
  then obtain p where p: "mp = Some p" "p \<le> Size t" "chain_of t p = chain_of l (parent_id e)" by blast
  obtain j t1 where j: "Intern p (ent_crystal_id e) (segment e) t = (j, t1)" by fastforce
  note spec = Intern_spec [OF t(1) p(2) t(2) j]
  have "\<not> ent_id e \<le> ps_max_local_id s" using s e_id by (simp add: remap_ok_def)
  with r p(1) j have res: "t' = t1" "rep' = rep"
      "s' = s\<lparr> ps_max_local_id := Suc n, ps_remap := (ps_remap s)(Suc n \<mapsto> j) \<rparr>"
    by (simp_all add: absorb_entry_def Let_def mp_def [symmetric] e_id)
  have "chain_of l (Suc n) = chain_of l (parent_id e) @ [link_of e]"
    unfolding e by (rule chain_of_entry [OF l(1)]) (use l(2) in simp_all)
  then have at_n: "chain_of t1 j = chain_of l (Suc n)" using spec p(3) by (simp add: link_of_def)
  have "remap_ok t1 l n s" by (rule remap_ok_keep [OF s]) (use spec in blast)+
  then have "remap_ok t1 l (Suc n) s'"
    using spec at_n l(2) unfolding remap_ok_def res by (auto simp: le_Suc_eq)
  with spec res show ?thesis by simp
qed

lemma absorb_run:
  assumes l: "table_ok l" "n + m \<le> Size l" and t: "table_ok t" and s: "remap_ok t l n s"
    and room: "Size t + m < kOverflowChainId - 1" "kOverflowChainId \<le> cit_capacity t"
    and r: "fold absorb_entry (map (\<lambda>i. cit_entries l ! i) [Suc n..<Suc (n + m)]) (s, t, rep) = (s', t', rep')"
  shows "table_ok t' \<and> remap_ok t' l (n + m) s' \<and> rep' = rep \<and> Size t \<le> Size t' \<and> Size t' \<le> Size t + m \<and>
    (\<forall>j \<le> Size t. chain_of t' j = chain_of t j) \<and> cit_capacity t' = cit_capacity t"
  using l(2) t s room r
proof (induction m arbitrary: n s t)
  case (Suc m)
  obtain s1 t1 rep1 where one: "absorb_entry (cit_entries l ! Suc n) (s, t, rep) = (s1, t1, rep1)"
    by (cases "absorb_entry (cit_entries l ! Suc n) (s, t, rep)") blast
  have "has_room t"
    using Suc.prems(4,5) table_okD(2) [OF Suc.prems(2)] by (simp add: has_room_def chain_consts)
  with Suc.prems(1) have spec: "table_ok t1 \<and> remap_ok t1 l (Suc n) s1 \<and> rep1 = rep \<and> Size t \<le> Size t1 \<and>
      Size t1 \<le> Suc (Size t) \<and> (\<forall>j \<le> Size t. chain_of t1 j = chain_of t j) \<and> cit_capacity t1 = cit_capacity t"
    by (intro absorb_entry_spec [OF l(1) _ Suc.prems(2) _ Suc.prems(3) refl one]) simp_all
  have "[Suc n..<Suc (n + Suc m)] = Suc n # [Suc (Suc n)..<Suc (Suc n + m)]" by (simp add: upt_rec)
  then have "fold absorb_entry (map (\<lambda>i. cit_entries l ! i) [Suc (Suc n)..<Suc (Suc n + m)]) (s1, t1, rep) = (s', t', rep')"
    using Suc.prems(6) one spec by simp
  from Suc.IH [OF _ _ _ _ _ this] Suc.prems spec
  have "table_ok t' \<and> remap_ok t' l (Suc n + m) s' \<and> rep' = rep \<and> Size t1 \<le> Size t' \<and> Size t' \<le> Size t1 + m \<and>
    (\<forall>j \<le> Size t1. chain_of t' j = chain_of t1 j) \<and> cit_capacity t' = cit_capacity t1" by simp
  with spec show ?case by auto
qed simp

text \<open>The merger, over the tables \<open>L\<close> of its producers: of producer \<open>k\<close> it has absorbed the first \<open>N k\<close> entries.\<close>

definition merger_ok :: "(nat \<Rightarrow> ChainIdInterningTable) \<Rightarrow> (nat \<Rightarrow> nat) \<Rightarrow> ChainIdMerger \<Rightarrow> bool" where
  "merger_ok L N m \<longleftrightarrow> table_ok (cm_table m) \<and> kOverflowChainId \<le> cit_capacity (cm_table m) \<and>
     (\<forall>k. table_ok (L k)) \<and>
     (\<forall>k. case cm_producers m k of None \<Rightarrow> N k = 0 | Some s \<Rightarrow> remap_ok (cm_table m) (L k) (N k) s)"

lemma merger_new_ok: "(\<And>k. table_ok (L k)) \<Longrightarrow> merger_ok L (\<lambda>_. 0) ChainIdMerger_new"
  by (simp add: merger_ok_def ChainIdMerger_new_def new_ok)
    (simp add: ChainIdInterningTable_new_def kUnboundedCapacity_def chain_consts)

definition delta_of :: "ChainIdInterningTable \<Rightarrow> nat \<Rightarrow> nat \<Rightarrow> ChainIdTableEntry list" where
  "delta_of l n n' = map (\<lambda>i. cit_entries l ! i) [Suc n..<Suc n']"

lemma Absorb_spec:
  assumes m: "merger_ok L N m" and n: "N k \<le> n" "n \<le> Size (L k)"
    and room: "Size (cm_table m) + n < kOverflowChainId - 1"
    and r: "Absorb k (delta_of (L k) (N k) n) m = (rep, m')"
  shows "merger_ok L (N(k := n)) m' \<and> rep = \<lparr> orphaned = 0, non_monotonic = 0 \<rparr> \<and>
    Size (cm_table m') \<le> Size (cm_table m) + (n - N k) \<and>
    (\<forall>j \<le> Size (cm_table m). chain_of (cm_table m') j = chain_of (cm_table m) j)"
proof -
  define s where "s = (case cm_producers m k of Some s \<Rightarrow> s
    | None \<Rightarrow> \<lparr> ps_remap = (\<lambda>_. None), ps_max_local_id = kRootChainId \<rparr>)"
  have ok: "table_ok (cm_table m)" "table_ok (L k)" "kOverflowChainId \<le> cit_capacity (cm_table m)"
    using m by (simp_all add: merger_ok_def)
  have prod: "case cm_producers m q of None \<Rightarrow> N q = 0 | Some s \<Rightarrow> remap_ok (cm_table m) (L q) (N q) s" for q
    using m by (simp add: merger_ok_def)
  have s: "remap_ok (cm_table m) (L k) (N k) s"
    using prod [of k] by (simp add: s_def remap_ok_def kRootChainId_def split: option.splits)
  obtain s' t' rep' where f: "fold absorb_entry (delta_of (L k) (N k) n)
      (s, cm_table m, \<lparr> orphaned = 0, non_monotonic = 0 \<rparr>) = (s', t', rep')"
    by (metis prod.exhaust)
  have "N k + (n - N k) = n" using n(1) by simp
  with absorb_run [OF ok(2) _ ok(1) s _ ok(3), of "n - N k" "\<lparr> orphaned = 0, non_monotonic = 0 \<rparr>" s' t' rep'] n room f
  have run: "table_ok t' \<and> remap_ok t' (L k) n s' \<and> rep' = \<lparr> orphaned = 0, non_monotonic = 0 \<rparr> \<and>
      Size (cm_table m) \<le> Size t' \<and> Size t' \<le> Size (cm_table m) + (n - N k) \<and>
      (\<forall>j \<le> Size (cm_table m). chain_of t' j = chain_of (cm_table m) j) \<and> cit_capacity t' = cit_capacity (cm_table m)"
    by (simp add: delta_of_def)
  have m': "rep = rep'" "m' = m\<lparr> cm_table := t', cm_producers := (cm_producers m)(k \<mapsto> s') \<rparr>"
    using r f by (simp_all add: Absorb_def s_def [symmetric])
  have "case cm_producers m' q of None \<Rightarrow> (N(k := n)) q = 0
      | Some s \<Rightarrow> remap_ok t' (L q) ((N(k := n)) q) s" for q
    using prod [of q] run remap_ok_keep [of "cm_table m" "L q" "N q" _ t']
    by (cases "q = k") (auto simp: m' split: option.splits)
  moreover have cm: "cm_table m' = t'" by (simp add: m')
  moreover have "\<forall>k. table_ok (L k)" using m by (simp add: merger_ok_def)
  ultimately show ?thesis using run ok(3) m'(1) unfolding merger_ok_def cm by simp
qed

lemma Resolve_spec:
  assumes m: "merger_ok L N m" and i: "i \<le> N k"
  shows "Resolve k i m \<le> Size (cm_table m) \<and> chain_of (cm_table m) (Resolve k i m) = chain_of (L k) i"
proof (cases "i = 0")
  case False
  then have "N k \<noteq> 0" using i by simp
  moreover have "case cm_producers m k of None \<Rightarrow> N k = 0 | Some s \<Rightarrow> remap_ok (cm_table m) (L k) (N k) s"
    using m by (simp add: merger_ok_def)
  ultimately obtain s where s: "cm_producers m k = Some s" "remap_ok (cm_table m) (L k) (N k) s"
    by (cases "cm_producers m k") auto
  from False i have "i \<in> {1..N k}" by simp
  with s(2) obtain j where j: "ps_remap s i = Some j" "j \<le> Size (cm_table m)"
      "chain_of (cm_table m) j = chain_of (L k) i"
    unfolding remap_ok_def by blast
  have "i \<le> Size (L k)" "table_ok (L k)" using s(2) i m by (simp_all add: remap_ok_def merger_ok_def)
  then have "i \<noteq> kOverflowChainId" using valid_not_overflow by blast
  with False s j show ?thesis by (simp add: Resolve_def kRootChainId_def)
qed (simp add: Resolve_def kRootChainId_def chain_of_root)

end
