(* ===== verification/Chain_Sessions.thy ===== *)
theory Chain_Sessions
  imports Chain_Id_Table
begin

text \<open>
  The states of the interning tables and of the merger over whole sessions (\<open>src/core/chain_id_table.cpp\<close>): every
  operation in any order, with the ids a client can hold, and any interleaving of the deltas of several workers.
\<close>

section \<open>The tables a worker can have\<close>

inductive reachable_table :: "ChainIdInterningTable \<Rightarrow> bool" where
  new: "c < kOverflowChainId - 1 \<Longrightarrow> reachable_table (ChainIdInterningTable_new c)"
| intern: "reachable_table t \<Longrightarrow> p \<le> Size t \<or> p = kOverflowChainId \<Longrightarrow> Intern p c sg t = (i, t') \<Longrightarrow> reachable_table t'"
| flush: "reachable_table t \<Longrightarrow> FlushDelta t = (delta, t') \<Longrightarrow> reachable_table t'"
| count: "reachable_table t \<Longrightarrow> ConsumeOverflowCount t = (n, t') \<Longrightarrow> reachable_table t'"
| clear: "reachable_table t \<Longrightarrow> reachable_table (Clear_table t)"
| reuse: "reachable_table t \<Longrightarrow> c < kOverflowChainId - 1 \<Longrightarrow> reachable_table (ReuseOrRebuild c t)"

lemma reachable_table_ok: "reachable_table t \<Longrightarrow> table_ok t \<and> cit_capacity t < kOverflowChainId - 1"
proof (induction rule: reachable_table.induct)
  case (new c)
  then show ?case using new_ok [of c] by (simp add: ChainIdInterningTable_new_def)
next
  case (intern t p c sg i t')
  then show ?case using Intern_ok [of t p c sg i t'] by simp
next
  case (flush t delta t')
  then show ?case using Flush_ok [of t] by (auto simp: FlushDelta_def)
next
  case (count t n t')
  then show ?case using Consume_ok [of t] by (auto simp: ConsumeOverflowCount_def)
next
  case (clear t)
  then show ?case using Clear_ok [of t] by (simp add: Clear_table_def)
next
  case (reuse t c)
  then show ?case using Reuse_ok [of c t]
    by (simp add: ReuseOrRebuild_def Let_def Clear_table_def ChainIdInterningTable_new_def)
qed

text \<open>Every id leads to the root, and different ids stand for different chains.\<close>

definition names_chains_once :: "ChainIdInterningTable \<Rightarrow> bool" where
  "names_chains_once t \<longleftrightarrow>
     (\<forall>i\<in>{0..Size t}. Segments i t \<noteq> None \<and> (\<forall>j\<in>{0..Size t}. chain_of t i = chain_of t j \<longleftrightarrow> i = j))"

lemma reachable_chains:
  assumes "reachable_table t"
  shows "Size t \<le> cit_capacity t \<and> names_chains_once t"
proof -
  have ok: "table_ok t" using reachable_table_ok [OF assms] by simp
  show ?thesis
    unfolding names_chains_once_def
  proof (intro conjI ballI)
    show "Size t \<le> cit_capacity t" by (rule table_okD(4) [OF ok])
    show "Segments i t \<noteq> None" if "i \<in> {0..Size t}" for i using Segments_total [OF ok, of i] that by auto
    show "chain_of t i = chain_of t j \<longleftrightarrow> i = j" if "i \<in> {0..Size t}" "j \<in> {0..Size t}" for i j
      using chain_of_inj [OF ok, of i j] that by auto
  qed
qed

text \<open>What one intern answers, with room and without.\<close>

lemma reachable_intern:
  assumes t: "reachable_table t" and p: "p \<le> Size t" and i: "Intern p c sg t = (i, t')"
  shows "i \<le> Size t' \<and> chain_of t' i = chain_of t p @ [(c, sg)] \<and> Size t' \<le> Suc (Size t) \<and>
      (\<forall>j\<in>{0..Size t}. chain_of t' j = chain_of t j) \<or>
    i = kOverflowChainId \<and> Size t = cit_capacity t \<and> cit_entries t' = cit_entries t \<and>
      cit_overflow_since_flush t' = cit_overflow_since_flush t + 1 \<and>
      (\<forall>j\<in>{0..Size t}. chain_of t j \<noteq> chain_of t p @ [(c, sg)])"
proof -
  have ok: "table_ok t" and cap: "cit_capacity t < kOverflowChainId - 1" using reachable_table_ok [OF t] by simp_all
  show ?thesis
  proof (cases "cit_index t (p, c, sg)")
    case (Some k)
    then have k: "0 < k" "k \<le> Size t" "key_of (cit_entries t ! k) = (p, c, sg)"
      unfolding table_ok_index_iff [OF ok] by simp_all
    then have "chain_of t k = chain_of t p @ [(c, sg)]"
      using chain_of_entry [OF ok, of k] by (auto simp: key_of_def link_of_def)
    then show ?thesis using Intern_known [OF ok p Some] i k(2) by simp
  next
    case None
    show ?thesis
    proof (cases "has_room t")
      case True
      from Intern_spec [OF ok p True i] show ?thesis by simp
    next
      case False
      then have full: "Size t = cit_capacity t"
        using table_okD(2,3,4) [OF ok] cap by (auto simp: has_room_def chain_consts)
      have no: "chain_of t j \<noteq> chain_of t p @ [(c, sg)]" if "j \<in> {0..Size t}" for j
      proof
        assume j: "chain_of t j = chain_of t p @ [(c, sg)]"
        then have "j \<noteq> 0" using chain_of_root [of t] by (intro notI) simp
        with that have j0: "0 < j" "j \<le> Size t" by simp_all
        note e = table_ok_entry [OF ok j0]
        from j have "chain_of t (parent_id (cit_entries t ! j)) = chain_of t p" "link_of (cit_entries t ! j) = (c, sg)"
          unfolding chain_of_entry [OF ok j0] by simp_all
        moreover from this(1) have "parent_id (cit_entries t ! j) = p"
          using chain_of_inj [OF ok _ p] e(2) j0 by simp
        ultimately have "key_of (cit_entries t ! j) = (p, c, sg)" by (simp add: key_of_def link_of_def)
        with e(3) None show False by simp
      qed
      from Intern_full [OF valid_not_overflow [OF ok p] None] full i
      have "i = kOverflowChainId" "t' = t\<lparr> cit_overflow_since_flush := cit_overflow_since_flush t + 1 \<rparr>" by simp_all
      with full no show ?thesis by simp
    qed
  qed
qed

section \<open>What a worker delivers\<close>

lemma Flush_delta_of:
  assumes "table_ok t"
  shows "fst (FlushDelta t) = delta_of t (cit_flush_cursor t - 1) (Size t)"
proof -
  have n: "Suc (cit_flush_cursor t - 1) = cit_flush_cursor t" "Suc (Size t) = length (cit_entries t)"
    using table_okD [OF assms] by simp_all
  have "drop m xs = map (\<lambda>i. xs ! i) [m..<length xs]" for m and xs :: "'a list"
    by (rule nth_equalityI) simp_all
  then show ?thesis by (simp only: FlushDelta_def delta_of_def n fst_conv)
qed

lemma session_delivers:
  assumes "fold run_op ops ([], ChainIdInterningTable_new c) = (out, t)"
  shows "out @ fst (FlushDelta t) = tl (cit_entries t)"
proof -
  have "[] = drop 1 (take (cit_flush_cursor (ChainIdInterningTable_new c)) (cit_entries (ChainIdInterningTable_new c)))"
    "1 \<le> cit_flush_cursor (ChainIdInterningTable_new c)"
    "cit_flush_cursor (ChainIdInterningTable_new c) \<le> length (cit_entries (ChainIdInterningTable_new c))"
    by (simp_all add: ChainIdInterningTable_new_def)
  from run_ops_deliver [OF this assms] have "run_op Flush (out, t) = (out @ fst (FlushDelta t), snd (FlushDelta t))"
    and d: "out = drop 1 (take (cit_flush_cursor t) (cit_entries t))" "1 \<le> cit_flush_cursor t"
      "cit_flush_cursor t \<le> length (cit_entries t)" by simp_all
  from run_op_delivers [OF d this(1)] show ?thesis by (simp add: FlushDelta_def drop_Suc)
qed

section \<open>Merging the tables of several workers\<close>

text \<open>\<open>L k\<close> is the table of worker \<open>k\<close>, \<open>N k\<close> how much of it has been absorbed.\<close>

inductive merging :: "(nat \<Rightarrow> ChainIdInterningTable) \<Rightarrow> (nat \<Rightarrow> nat) \<Rightarrow> ChainIdMerger \<Rightarrow> bool" for L where
  start: "merging L (\<lambda>_. 0) ChainIdMerger_new"
| absorb: "merging L N m \<Longrightarrow> N k \<le> n \<Longrightarrow> n \<le> Size (L k) \<Longrightarrow> Size (cm_table m) + n < kOverflowChainId - 1 \<Longrightarrow>
    Absorb k (delta_of (L k) (N k) n) m = (report, m') \<Longrightarrow> merging L (N(k := n)) m'"

lemma merging_ok: "merging L N m \<Longrightarrow> (\<And>k. table_ok (L k)) \<Longrightarrow> merger_ok L N m"
proof (induction rule: merging.induct)
  case (absorb N m k n report m')
  from Absorb_spec [OF absorb.IH [OF absorb.prems] absorb.hyps(2-5)] show ?case by blast
qed (simp add: merger_new_ok)

lemma merging_Resolve_iff:
  assumes m: "merging L N m" and L: "\<And>k. table_ok (L k)" and i: "i \<le> N k" and j: "j \<le> N q"
  shows "Resolve k i m = Resolve q j m \<longleftrightarrow> chain_of (L k) i = chain_of (L q) j"
proof -
  have ok: "merger_ok L N m" by (rule merging_ok [OF m L])
  then have t: "table_ok (cm_table m)" by (simp add: merger_ok_def)
  show ?thesis
    using Resolve_spec [OF ok i] Resolve_spec [OF ok j] chain_of_inj [OF t, of "Resolve k i m" "Resolve q j m"] by auto
qed

end
