(* ===== verification/Space_Saving.thy ===== *)
theory Space_Saving
  imports Lumice_Prelude
begin

text \<open>
  The contract of a bounded record of weighted counters in the manner of Space-Saving, and its guarantee.
  At most \<open>k\<close> rows are kept; a key without a row takes over the row of least weight, starting from that
  weight and recording it as its error.  The client is any sequence of additions of non-negative weights.
\<close>

abbreviation weight :: "(nat \<rightharpoonup> 'e \<times> 'e) \<Rightarrow> nat \<Rightarrow> 'e" where
  "weight m i \<equiv> fst (the (m i))"

abbreviation error_of :: "(nat \<rightharpoonup> 'e \<times> 'e) \<Rightarrow> nat \<Rightarrow> 'e" where
  "error_of m i \<equiv> snd (the (m i))"

definition true_weight :: "(nat \<times> 'e::linordered_idom) list \<Rightarrow> nat \<Rightarrow> 'e" where
  "true_weight adds i = sum_list (map snd (filter (\<lambda>a. fst a = i) adds))"

definition total_weight :: "(nat \<times> 'e::linordered_idom) list \<Rightarrow> 'e" where
  "total_weight adds = sum_list (map snd adds)"

lemma true_weight_snoc [simp]:
  "true_weight (adds @ [(i, y)]) j = (if i = j then true_weight adds j + y else true_weight adds j)"
  by (simp add: true_weight_def)

lemma total_weight_snoc [simp]: "total_weight (adds @ [(i, y)]) = total_weight adds + y"
  by (simp add: total_weight_def)

lemma weights_Nil [simp]: "true_weight [] i = 0" "total_weight [] = 0"
  by (simp_all add: true_weight_def total_weight_def)

text \<open>What the rows say about the true weights.\<close>

definition faithful :: "nat \<Rightarrow> (nat \<rightharpoonup> 'e::linordered_idom \<times> 'e) \<Rightarrow> (nat \<times> 'e) list \<Rightarrow> bool" where
  "faithful k m adds \<longleftrightarrow>
     list_all (\<lambda>a. 0 \<le> snd a) adds \<and> finite (dom m) \<and> card (dom m) \<le> k \<and> sum (weight m) (dom m) = total_weight adds \<and>
     (\<forall>i\<in>dom m. weight m i - error_of m i \<le> true_weight adds i \<and> true_weight adds i \<le> weight m i \<and> 0 \<le> error_of m i \<and>
        0 \<le> weight m i) \<and>
     (\<forall>i. i \<notin> dom m \<longrightarrow> true_weight adds i = 0 \<or> card (dom m) = k \<and> (\<forall>j\<in>dom m. true_weight adds i \<le> weight m j)) \<and>
     (\<forall>i\<in>dom m. error_of m i = 0 \<or> card (dom m) = k \<and> (\<forall>j\<in>dom m. error_of m i \<le> weight m j))"

lemma faithfulD:
  assumes "faithful k m adds"
  shows "finite (dom m)" "card (dom m) \<le> k" "sum (weight m) (dom m) = total_weight adds"
    and "i \<in> dom m \<Longrightarrow> weight m i - error_of m i \<le> true_weight adds i"
    and "i \<in> dom m \<Longrightarrow> true_weight adds i \<le> weight m i"
    and "i \<in> dom m \<Longrightarrow> 0 \<le> error_of m i" and "i \<in> dom m \<Longrightarrow> 0 \<le> weight m i"
    and "i \<notin> dom m \<Longrightarrow> true_weight adds i \<noteq> 0 \<Longrightarrow> card (dom m) = k \<and> (\<forall>j\<in>dom m. true_weight adds i \<le> weight m j)"
    and "i \<in> dom m \<Longrightarrow> error_of m i \<noteq> 0 \<Longrightarrow> card (dom m) = k \<and> (\<forall>j\<in>dom m. error_of m i \<le> weight m j)"
    and "0 \<le> true_weight adds l" and "0 \<le> total_weight adds" and "list_all (\<lambda>a. 0 \<le> snd a) adds"
proof -
  have nonneg: "list_all (\<lambda>a. 0 \<le> snd a) adds" using assms unfolding faithful_def by blast
  then show "0 \<le> true_weight adds l" "0 \<le> total_weight adds" "list_all (\<lambda>a. 0 \<le> snd a) adds"
    by (auto simp: true_weight_def total_weight_def list_all_iff intro!: sum_list_nonneg)
qed (use assms in \<open>unfold faithful_def, blast+\<close>)

lemma sum_lower:
  fixes w :: "nat \<Rightarrow> 'e::linordered_idom"
  shows "finite A \<Longrightarrow> (\<And>j. j \<in> A \<Longrightarrow> c \<le> w j) \<Longrightarrow> of_nat (card A) * c \<le> sum w A"
  using sum_mono [of A "\<lambda>_. c" w] by simp

lemma faithful_error:
  fixes m :: "nat \<rightharpoonup> 'e::linordered_idom \<times> 'e"
  assumes f: "faithful k m adds" and i: "i \<in> dom m"
  shows "of_nat k * error_of m i \<le> total_weight adds"
proof (cases "error_of m i = 0")
  case False
  with faithfulD(9) [OF f i] have "card (dom m) = k" "\<forall>j\<in>dom m. error_of m i \<le> weight m j" by blast+
  then show ?thesis
    using sum_lower [OF faithfulD(1) [OF f], of "error_of m i" "weight m"] faithfulD(3) [OF f] by simp
qed (simp add: faithfulD(11) [OF f])

lemma faithful_heavy:
  fixes m :: "nat \<rightharpoonup> 'e::linordered_idom \<times> 'e"
  assumes f: "faithful k m adds" and heavy: "total_weight adds < of_nat k * true_weight adds i"
  shows "i \<in> dom m"
proof (rule ccontr)
  assume i: "i \<notin> dom m"
  have "true_weight adds i \<noteq> 0" using heavy faithfulD(11) [OF f] by auto
  with faithfulD(8) [OF f i] have "card (dom m) = k" "\<forall>j\<in>dom m. true_weight adds i \<le> weight m j" by blast+
  then have "of_nat k * true_weight adds i \<le> total_weight adds"
    using sum_lower [OF faithfulD(1) [OF f], of "true_weight adds i" "weight m"] faithfulD(3) [OF f] by simp
  with heavy show False by simp
qed

text \<open>The guarantee a client relies on: each row brackets the true weight of its key, no row is over by more than the k-th
  part of the whole, and every key above that part has a row.\<close>

definition guaranteed :: "nat \<Rightarrow> (nat \<rightharpoonup> 'e::linordered_idom \<times> 'e) \<Rightarrow> (nat \<times> 'e) list \<Rightarrow> bool" where
  "guaranteed k m adds \<longleftrightarrow> card (dom m) \<le> k \<and>
     (\<forall>i\<in>dom m. weight m i - error_of m i \<le> true_weight adds i \<and> true_weight adds i \<le> weight m i \<and>
        of_nat k * error_of m i \<le> total_weight adds) \<and>
     (\<forall>i. total_weight adds < of_nat k * true_weight adds i \<longrightarrow> i \<in> dom m)"

lemma faithful_guaranteed: "faithful k m adds \<Longrightarrow> guaranteed k m adds"
  unfolding guaranteed_def by (intro conjI ballI allI impI) (simp_all add: faithfulD faithful_error faithful_heavy)

section \<open>One addition\<close>

lemma faithful_found:
  assumes f: "faithful k m adds" and row: "m i = Some (e, b)" and y: "0 \<le> y"
  shows "faithful k (m(i \<mapsto> (e + y, b))) (adds @ [(i, y)])"
proof -
  let ?m = "m(i \<mapsto> (e + y, b))"
  have i: "i \<in> dom m" and dom: "dom ?m = dom m" using row by auto
  note d = faithfulD [OF f]
  have up: "weight m j \<le> weight ?m j" if "j \<in> dom m" for j using row y by simp
  have "sum (weight ?m) (dom m) = (e + y) + sum (weight m) (dom m - {i})"
    using sum.remove [OF d(1) i, of "weight ?m"] by simp
  also have "\<dots> = sum (weight m) (dom m) + y"
    using sum.remove [OF d(1) i, of "weight m"] row by simp
  finally have sum: "sum (weight ?m) (dom m) = total_weight (adds @ [(i, y)])" using d(3) by simp
  have rows: "\<forall>j\<in>dom m. weight ?m j - error_of ?m j \<le> true_weight (adds @ [(i, y)]) j \<and>
      true_weight (adds @ [(i, y)]) j \<le> weight ?m j \<and> 0 \<le> error_of ?m j \<and> 0 \<le> weight ?m j"
  proof
    fix j assume j: "j \<in> dom m"
    show "weight ?m j - error_of ?m j \<le> true_weight (adds @ [(i, y)]) j \<and>
      true_weight (adds @ [(i, y)]) j \<le> weight ?m j \<and> 0 \<le> error_of ?m j \<and> 0 \<le> weight ?m j"
    proof (cases "j = i")
      case True
      then show ?thesis using d(4-7) [OF i] row y by simp
    next
      case False
      then show ?thesis using d(4-7) [OF j] by simp
    qed
  qed
  have out: "\<forall>j. j \<notin> dom m \<longrightarrow> true_weight (adds @ [(i, y)]) j = 0 \<or>
      card (dom m) = k \<and> (\<forall>l\<in>dom m. true_weight (adds @ [(i, y)]) j \<le> weight ?m l)"
  proof (intro allI impI)
    fix j assume j: "j \<notin> dom m"
    with i have snoc: "true_weight (adds @ [(i, y)]) j = true_weight adds j" by auto
    show "true_weight (adds @ [(i, y)]) j = 0 \<or>
      card (dom m) = k \<and> (\<forall>l\<in>dom m. true_weight (adds @ [(i, y)]) j \<le> weight ?m l)"
      unfolding snoc using d(8) [OF j] up order_trans by blast
  qed
  have err: "\<forall>j\<in>dom m. error_of ?m j = 0 \<or> card (dom m) = k \<and> (\<forall>l\<in>dom m. error_of ?m j \<le> weight ?m l)"
  proof
    fix j assume j: "j \<in> dom m"
    have same: "error_of ?m j = error_of m j" using row by simp
    show "error_of ?m j = 0 \<or> card (dom m) = k \<and> (\<forall>l\<in>dom m. error_of ?m j \<le> weight ?m l)"
    proof (cases "error_of m j = 0")
      case False
      then have "card (dom m) = k" and low: "\<forall>l\<in>dom m. error_of m j \<le> weight m l" using d(9) [OF j] by blast+
      then show ?thesis unfolding same by (intro disjI2 conjI ballI order_trans [OF bspec [OF low] up])
    qed (simp only: same simp_thms)
  qed
  have "list_all (\<lambda>a. 0 \<le> snd a) (adds @ [(i, y)])" using d(12) y by simp
  then show ?thesis unfolding faithful_def dom using d(1,2) sum rows out err by blast
qed

lemma faithful_fresh:
  assumes f: "faithful k m adds" and row: "m i = None" and room: "card (dom m) < k" and y: "0 \<le> y"
  shows "faithful k (m(i \<mapsto> (y, 0))) (adds @ [(i, y)])"
proof -
  let ?m = "m(i \<mapsto> (y, 0))"
  have i: "i \<notin> dom m" and dom: "dom ?m = insert i (dom m)" using row by auto
  note d = faithfulD [OF f]
  have zero: "true_weight adds j = 0" if "j \<notin> dom m" for j using d(8) [OF that] room by auto
  have err0: "error_of m j = 0" if "j \<in> dom m" for j using d(9) [OF that] room by auto
  have same: "weight ?m j = weight m j" "error_of ?m j = error_of m j" if "j \<in> dom m" for j using that i by auto
  have "sum (weight ?m) (insert i (dom m)) = y + sum (weight m) (dom m)"
    using d(1) i sum.cong [of "dom m" "dom m" "weight ?m" "weight m"] same by simp
  then have sum: "sum (weight ?m) (insert i (dom m)) = total_weight (adds @ [(i, y)])" using d(3) by simp
  have rows: "\<forall>j\<in>insert i (dom m). weight ?m j - error_of ?m j \<le> true_weight (adds @ [(i, y)]) j \<and>
      true_weight (adds @ [(i, y)]) j \<le> weight ?m j \<and> 0 \<le> error_of ?m j \<and> 0 \<le> weight ?m j"
    using d(4-7) same zero [OF i] y i by auto
  have "card (insert i (dom m)) \<le> k" using d(1) i room by simp
  then show ?thesis
    unfolding faithful_def dom using d(1,12) y sum rows zero err0 same by auto
qed

lemma faithful_evict:
  assumes f: "faithful k m adds" and row: "m i = None" and full: "card (dom m) = k" and y: "0 \<le> y"
    and v: "m v = Some (e, b)" and least: "\<And>j. j \<in> dom m \<Longrightarrow> e \<le> weight m j"
  shows "faithful k ((m(v := None))(i \<mapsto> (e + y, e))) (adds @ [(i, y)])"
proof -
  let ?m = "(m(v := None))(i \<mapsto> (e + y, e))"
  have i: "i \<notin> dom m" "i \<noteq> v" and vd: "v \<in> dom m" and dom: "dom ?m = insert i (dom m - {v})" using row v by auto
  note d = faithfulD [OF f]
  have e0: "0 \<le> e" using d(7) [OF vd] v by simp
  have same: "weight ?m j = weight m j" "error_of ?m j = error_of m j" if "j \<in> dom m - {v}" for j using that i by auto
  have low: "e \<le> weight ?m j" if "j \<in> insert i (dom m - {v})" for j using that least same y by (cases "j = i") auto
  have "sum (weight ?m) (insert i (dom m - {v})) = (e + y) + sum (weight m) (dom m - {v})"
    using d(1) i sum.cong [of "dom m - {v}" "dom m - {v}" "weight ?m" "weight m"] same by simp
  also have "\<dots> = sum (weight m) (dom m) + y" using sum.remove [OF d(1) vd, of "weight m"] v by simp
  finally have sum: "sum (weight ?m) (insert i (dom m - {v})) = total_weight (adds @ [(i, y)])" using d(3) by simp
  have card: "card (insert i (dom m - {v})) = k"
    using d(1) i vd full card_Suc_Diff1 [OF d(1) vd] by simp
  have out: "true_weight adds j \<le> e" if "j \<notin> dom m \<or> j = v" for j
  proof (cases "j = v")
    case True
    then show ?thesis using d(5) [OF vd] v by simp
  next
    case False
    then have "j \<notin> dom m" using that by simp
    note low = d(8) [OF this]
    show ?thesis
    proof (cases "true_weight adds j = 0")
      case False
      then have "true_weight adds j \<le> weight m v" using low vd by blast
      then show ?thesis using v by simp
    qed (simp add: e0)
  qed
  have err: "error_of ?m j \<le> e" if "j \<in> insert i (dom m - {v})" for j
  proof (cases "j = i")
    case False
    then have j: "j \<in> dom m - {v}" using that by simp
    then have jm: "j \<in> dom m" by simp
    show ?thesis
    proof (cases "error_of m j = 0")
      case zero: True
      show ?thesis unfolding same(2) [OF j] zero by (rule e0)
    next
      case False
      then have "\<forall>l\<in>dom m. error_of m j \<le> weight m l" using d(9) [OF jm] by blast
      then have "error_of m j \<le> weight m v" using vd by blast
      then show ?thesis unfolding same(2) [OF j] using v by simp
    qed
  qed simp
  have nonneg: "0 \<le> true_weight adds i" by (rule d(10))
  have rows: "\<forall>j\<in>insert i (dom m - {v}). weight ?m j - error_of ?m j \<le> true_weight (adds @ [(i, y)]) j \<and>
      true_weight (adds @ [(i, y)]) j \<le> weight ?m j \<and> 0 \<le> error_of ?m j \<and> 0 \<le> weight ?m j"
    using d(4-7) same out [of i] i nonneg y e0 by auto
  have "\<forall>j. j \<notin> insert i (dom m - {v}) \<longrightarrow> true_weight (adds @ [(i, y)]) j = 0 \<or>
      card (insert i (dom m - {v})) = k \<and> (\<forall>l\<in>insert i (dom m - {v}). true_weight (adds @ [(i, y)]) j \<le> weight ?m l)"
  proof (intro allI impI disjI2 conjI ballI)
    fix j l assume j: "j \<notin> insert i (dom m - {v})" and l: "l \<in> insert i (dom m - {v})"
    from j have "true_weight (adds @ [(i, y)]) j = true_weight adds j" and "j \<notin> dom m \<or> j = v" by auto
    then show "true_weight (adds @ [(i, y)]) j \<le> weight ?m l" using order_trans [OF out low [OF l]] by simp
  qed (rule card)
  moreover have "\<forall>j\<in>insert i (dom m - {v}). error_of ?m j = 0 \<or>
      card (insert i (dom m - {v})) = k \<and> (\<forall>l\<in>insert i (dom m - {v}). error_of ?m j \<le> weight ?m l)"
    by (intro ballI disjI2 conjI card order_trans [OF err low])
  ultimately show ?thesis unfolding faithful_def dom using d(1,12) y sum card rows by auto
qed

section \<open>The contract\<close>

text \<open>\<open>step i y s s'\<close>: weight \<open>y\<close> is added to key \<open>i\<close>.\<close>

locale space_saving =
  fixes k :: nat
    and ok :: "'s \<Rightarrow> bool"
    and rows :: "'s \<Rightarrow> nat \<rightharpoonup> 'e::linordered_idom \<times> 'e"
    and step :: "nat \<Rightarrow> 'e \<Rightarrow> 's \<Rightarrow> 's \<Rightarrow> bool"
  assumes step_ok: "ok s \<Longrightarrow> step i y s s' \<Longrightarrow> 0 \<le> y \<Longrightarrow> ok s'"
    and step_found: "ok s \<Longrightarrow> step i y s s' \<Longrightarrow> rows s i = Some (e, b) \<Longrightarrow> rows s' = (rows s)(i \<mapsto> (e + y, b))"
    and step_fresh: "ok s \<Longrightarrow> step i y s s' \<Longrightarrow> rows s i = None \<Longrightarrow> card (dom (rows s)) < k \<Longrightarrow>
      rows s' = (rows s)(i \<mapsto> (y, 0))"
    and step_evict: "ok s \<Longrightarrow> step i y s s' \<Longrightarrow> rows s i = None \<Longrightarrow> card (dom (rows s)) = k \<Longrightarrow>
      \<exists>v e b. rows s v = Some (e, b) \<and> (\<forall>j\<in>dom (rows s). e \<le> weight (rows s) j) \<and>
        rows s' = ((rows s)(v := None))(i \<mapsto> (e + y, e))"
begin

lemma step_faithful:
  assumes ok: "ok s" and step: "step i y s s'" and f: "faithful k (rows s) adds" and y: "0 \<le> y"
  shows "faithful k (rows s') (adds @ [(i, y)])"
proof (cases "rows s i")
  case (Some r)
  obtain e b where r: "rows s i = Some (e, b)" using Some by (cases r) simp
  show ?thesis unfolding step_found [OF ok step r] by (rule faithful_found [where b = b, OF f r y])
next
  case None
  show ?thesis
  proof (cases "card (dom (rows s)) < k")
    case True
    show ?thesis unfolding step_fresh [OF ok step None True] by (rule faithful_fresh [OF f None True y])
  next
    case False
    then have full: "card (dom (rows s)) = k" using faithfulD(2) [OF f] by simp
    from step_evict [OF ok step None full] obtain v e b where v: "rows s v = Some (e, b)"
      and least: "\<forall>j\<in>dom (rows s). e \<le> weight (rows s) j"
      and rows: "rows s' = ((rows s)(v := None))(i \<mapsto> (e + y, e))" by blast
    show ?thesis
      unfolding rows by (rule faithful_evict [OF f None full y v]) (rule bspec [OF least])
  qed
qed

end

lemma faithful_empty: "faithful k (\<lambda>_. None) []"
  by (simp add: faithful_def)

end
