(* ===== verification/Raypath_Histogram.thy ===== *)
theory Raypath_Histogram
  imports Space_Saving Chain_Id_Table "HOL-Library.AList"
begin

text \<open>
  The raypath analysis consumer (\<open>src/server/raypath_histogram_consumer.hpp\<close>,
  \<open>src/server/raypath_histogram_consumer.cpp\<close>): the bounded record of chains with its lazily updated
  min-heap, the consumption of batches and the snapshot.

  Energies are elements of an ordered ring: the sums are exact where the code rounds doubles.  The two floating
  point tests of the region of interest and the luminance are parameters.  The unordered map of rows is an association
  list, the priority queue a list whose top is its least element, and the loop that refreshes stale heap items
  is a partial function, so that its termination is a theorem.
\<close>

section \<open>The code\<close>

record 'e Entry =
  en_energy :: 'e
  en_count :: nat
  en_ring_energy :: "'e list"
  en_error_bound :: 'e

definition Entry_new :: "'e::linordered_idom Entry" where
  "Entry_new = \<lparr> en_energy = 0, en_count = 0, en_ring_energy = [], en_error_bound = 0 \<rparr>"

datatype RaypathRoiMode = kFullSky | kInFrame | kCone

type_synonym 'e HeapItem = "'e \<times> nat"

text \<open>The order of the queue: its top is the item no other is less than.\<close>

definition heap_less :: "'e::linordered_idom HeapItem \<Rightarrow> 'e HeapItem \<Rightarrow> bool" where
  "heap_less a b = (if fst a \<noteq> fst b then fst a < fst b else snd a < snd b)"

fun heap_top :: "'e::linordered_idom HeapItem list \<Rightarrow> 'e HeapItem option" where
  "heap_top [] = None"
| "heap_top (x # xs) = (case heap_top xs of None \<Rightarrow> Some x | Some m \<Rightarrow> Some (if heap_less m x then m else x))"

record 'e RaypathHistogramConsumer =
  rh_capacity :: nat
  rh_roi_mode :: RaypathRoiMode
  rh_ring_count :: nat
  rh_merger :: ChainIdMerger
  rh_live :: "(nat \<times> 'e Entry) list"
  rh_min_heap :: "'e HeapItem list"
  rh_other :: "'e Entry"
  rh_truncated_chain_count :: nat
  rh_logged_unresolved :: bool
  rh_logged_delta_contract :: bool

text \<open>The constructor, for the members the counting uses; the projection and the cone's direction serve the two
  tests of the region of interest only.\<close>

definition roi_ring_count :: "RaypathRoiMode \<Rightarrow> int \<Rightarrow> int" where
  "roi_ring_count mode cone_ring_count = (if mode = kCone \<and> cone_ring_count < 1 then 1 else cone_ring_count)"

definition RaypathHistogramConsumer_new :: "RaypathRoiMode \<Rightarrow> int \<Rightarrow> nat \<Rightarrow> 'e::linordered_idom RaypathHistogramConsumer" where
  "RaypathHistogramConsumer_new mode cone_ring_count capacity =
     \<lparr> rh_capacity = max capacity 1, rh_roi_mode = mode,
       rh_ring_count = nat (roi_ring_count mode cone_ring_count),
       rh_merger = ChainIdMerger_new, rh_live = [], rh_min_heap = [], rh_other = Entry_new,
       rh_truncated_chain_count = 0, rh_logged_unresolved = False, rh_logged_delta_contract = False \<rparr>"

definition AddToEntry :: "nat \<Rightarrow> 'e::linordered_idom \<Rightarrow> bool \<Rightarrow> nat \<Rightarrow> 'e Entry \<Rightarrow> 'e Entry" where
  "AddToEntry ring_count y cone ring e =
     (let e = e\<lparr> en_energy := en_energy e + y, en_count := en_count e + 1 \<rparr>
      in if cone
         then let rings = (if en_ring_energy e = [] then replicate ring_count 0 else en_ring_energy e)
              in e\<lparr> en_ring_energy := rings[ring := rings ! ring + y] \<rparr>
         else e)"

text \<open>\<open>None\<close> also where the code would read an empty queue or a row that is not there.\<close>

partial_function (option) PopMinRow ::
  "(nat \<times> 'e::linordered_idom Entry) list \<Rightarrow> 'e HeapItem list \<Rightarrow> (nat \<times> 'e HeapItem list) option"
where
  "PopMinRow live heap =
     (case heap_top heap of
        None \<Rightarrow> None
      | Some tip \<Rightarrow>
          let heap = remove1 tip heap
          in case map_of live (snd tip) of
               None \<Rightarrow> None
             | Some row \<Rightarrow>
                 if en_energy row \<noteq> fst tip then PopMinRow live ((en_energy row, snd tip) # heap)
                 else Some (snd tip, heap))"

definition RowFor :: "nat \<Rightarrow> 'e::linordered_idom RaypathHistogramConsumer \<Rightarrow> 'e RaypathHistogramConsumer option" where
  "RowFor merged_id s =
     (case map_of (rh_live s) merged_id of
        Some _ \<Rightarrow> Some s
      | None \<Rightarrow>
          if length (rh_live s) < rh_capacity s
          then Some (s\<lparr> rh_live := rh_live s @ [(merged_id, Entry_new)], rh_min_heap := (0, merged_id) # rh_min_heap s \<rparr>)
          else case PopMinRow (rh_live s) (rh_min_heap s) of
                 None \<Rightarrow> None
               | Some (victim, heap) \<Rightarrow>
                   let taken = the (map_of (rh_live s) victim);
                       live = AList.delete victim (rh_live s);
                       taken = taken\<lparr> en_error_bound := en_energy taken \<rparr>
                   in Some (s\<lparr> rh_live := live @ [(merged_id, taken)], rh_min_heap := (en_energy taken, merged_id) # heap \<rparr>))"

text \<open>A counted ray: into its row, or into the other bucket.\<close>

definition count_ray ::
  "nat \<Rightarrow> 'e::linordered_idom \<Rightarrow> bool \<Rightarrow> nat \<Rightarrow> 'e RaypathHistogramConsumer \<Rightarrow> 'e RaypathHistogramConsumer option"
where
  "count_ray merged_id y cone ring s =
     (if merged_id = kOverflowChainId
      then Some (s\<lparr> rh_other := AddToEntry (rh_ring_count s) y cone ring (rh_other s) \<rparr>)
      else map_option (\<lambda>s. s\<lparr> rh_live :=
               AList.update merged_id (AddToEntry (rh_ring_count s) y cone ring (the (map_of (rh_live s) merged_id))) (rh_live s) \<rparr>)
             (RowFor merged_id s))"

record 'f OutgoingRays =
  sb_producer_effective_seed :: nat
  sb_chain_id_table_delta :: "ChainIdTableEntry list"
  sb_chain_id_overflow_count :: nat
  sb_outgoing_chain_id :: "nat list"
  sb_outgoing_d :: "'f list"
  sb_outgoing_w :: "'f list"
  sb_outgoing_wl :: "'f list"
  sb_curr_wl :: 'f

record ('f, 'e) roi_functions =
  InFrame :: "'f \<Rightarrow> 'f \<Rightarrow> 'f \<Rightarrow> bool"
  ConeMembership :: "'f \<Rightarrow> 'f \<Rightarrow> 'f \<Rightarrow> nat option"
  SpectrumToYSingle :: "'f \<Rightarrow> 'f \<Rightarrow> 'e"

text \<open>Whether ray \<open>i\<close> is counted, and its ring.\<close>

definition roi_ring :: "('f, 'e) roi_functions \<Rightarrow> RaypathRoiMode \<Rightarrow> 'f OutgoingRays \<Rightarrow> nat \<Rightarrow> nat option" where
  "roi_ring fn mode data i =
     (let x = sb_outgoing_d data ! (i * 3 + 0); y = sb_outgoing_d data ! (i * 3 + 1); z = sb_outgoing_d data ! (i * 3 + 2)
      in case mode of
           kFullSky \<Rightarrow> Some 0
         | kInFrame \<Rightarrow> if InFrame fn x y z then Some 0 else None
         | kCone \<Rightarrow> ConeMembership fn x y z)"

definition consume_ray ::
  "('f, 'e::linordered_idom) roi_functions \<Rightarrow> 'f OutgoingRays \<Rightarrow> nat \<Rightarrow> 'e RaypathHistogramConsumer \<Rightarrow> 'e RaypathHistogramConsumer option"
where
  "consume_ray fn data i s =
     (case roi_ring fn (rh_roi_mode s) data i of
        None \<Rightarrow> Some s
      | Some ring \<Rightarrow>
          let merged_id = Resolve (sb_producer_effective_seed data) (sb_outgoing_chain_id data ! i) (rh_merger s)
          in if merged_id = kUnresolved then Some (s\<lparr> rh_logged_unresolved := True \<rparr>)
             else
               let wl = (if sb_outgoing_wl data \<noteq> [] then sb_outgoing_wl data ! i else sb_curr_wl data);
                   y = SpectrumToYSingle fn wl (sb_outgoing_w data ! i)
               in count_ray merged_id y (rh_roi_mode s = kCone) ring s)"

fun consume_rays ::
  "('f, 'e::linordered_idom) roi_functions \<Rightarrow> 'f OutgoingRays \<Rightarrow> nat list \<Rightarrow> 'e RaypathHistogramConsumer \<Rightarrow> 'e RaypathHistogramConsumer option"
where
  "consume_rays fn data [] s = Some s"
| "consume_rays fn data (i # is) s = Option.bind (consume_ray fn data i s) (consume_rays fn data is)"

definition Consume ::
  "('f, 'e::linordered_idom) roi_functions \<Rightarrow> 'f OutgoingRays \<Rightarrow> 'e RaypathHistogramConsumer \<Rightarrow> 'e RaypathHistogramConsumer option"
where
  "Consume fn data s =
     (if sb_outgoing_chain_id data = [] \<and> sb_chain_id_table_delta data = [] then Some s
      else
        let (report, merger) = Absorb (sb_producer_effective_seed data) (sb_chain_id_table_delta data) (rh_merger s);
            s = s\<lparr> rh_merger := merger \<rparr>;
            s = (if 0 < orphaned report \<or> 0 < non_monotonic report then s\<lparr> rh_logged_delta_contract := True \<rparr> else s);
            s = s\<lparr> rh_truncated_chain_count := rh_truncated_chain_count s + sb_chain_id_overflow_count data \<rparr>;
            n = length (sb_outgoing_w data)
        in if length (sb_outgoing_chain_id data) \<noteq> n then Some (s\<lparr> rh_logged_delta_contract := True \<rparr>)
           else consume_rays fn data [0..<n] s)"

definition Reset_histogram :: "'e::linordered_idom RaypathHistogramConsumer \<Rightarrow> 'e RaypathHistogramConsumer" where
  "Reset_histogram s = s\<lparr> rh_live := [], rh_min_heap := [], rh_other := Entry_new, rh_truncated_chain_count := 0,
     rh_merger := Clear_merger (rh_merger s), rh_logged_unresolved := False, rh_logged_delta_contract := False \<rparr>"

section \<open>The rows and their heap\<close>

lemma Entry_new_sel [simp]: "en_energy Entry_new = 0" "en_error_bound Entry_new = 0" "en_count Entry_new = 0"
  by (simp_all add: Entry_new_def)

abbreviation live_row :: "'e RaypathHistogramConsumer \<Rightarrow> nat \<Rightarrow> 'e Entry option" where
  "live_row s \<equiv> map_of (rh_live s)"

text \<open>Every row is in the heap exactly once, at an energy it had.\<close>

definition heap_ok :: "(nat \<times> 'e::linordered_idom Entry) list \<Rightarrow> 'e HeapItem list \<Rightarrow> bool" where
  "heap_ok live heap \<longleftrightarrow> distinct (map snd heap) \<and>
     (\<forall>item\<in>set heap. \<exists>row. map_of live (snd item) = Some row \<and> fst item \<le> en_energy row)"

definition covers :: "(nat \<times> 'e::linordered_idom Entry) list \<Rightarrow> 'e HeapItem list \<Rightarrow> bool" where
  "covers live heap \<longleftrightarrow> snd ` set heap = dom (map_of live)"

lemma heap_top_mem: "heap_top heap = Some tip \<Longrightarrow> tip \<in> set heap"
  by (induction heap arbitrary: tip) (auto split: option.splits if_splits)

lemma heap_top_none: "heap_top heap = None \<longleftrightarrow> heap = []"
  by (cases heap) (auto split: option.splits)

lemma heap_top_least: "heap_top heap = Some tip \<Longrightarrow> item \<in> set heap \<Longrightarrow> fst tip \<le> fst item"
proof (induction heap arbitrary: tip)
  case (Cons x heap)
  show ?case
  proof (cases "heap_top heap")
    case None
    then show ?thesis using Cons by (simp add: heap_top_none)
  next
    case (Some m)
    have "item \<in> set heap \<Longrightarrow> fst m \<le> fst item" using Cons.IH [OF Some] by simp
    then show ?thesis
      using Cons.prems Some by (auto simp: heap_less_def split: if_splits)
  qed
qed simp

definition stale :: "(nat \<times> 'e::linordered_idom Entry) list \<Rightarrow> 'e HeapItem list \<Rightarrow> nat" where
  "stale live heap = length (filter (\<lambda>item. fst item \<noteq> en_energy (the (map_of live (snd item)))) heap)"

lemma remove1_split:
  assumes "x \<in> set xs"
  obtains a b where "xs = a @ x # b" and "remove1 x xs = a @ b"
proof -
  from split_list_first [OF assms] obtain a b where "xs = a @ x # b" "x \<notin> set a" by blast
  then show ?thesis using that [of a b] by (simp add: remove1_append)
qed

lemma PopMinRow_spec:
  assumes "heap_ok live heap" and "covers live heap" and "heap \<noteq> []"
  shows "\<exists>v row heap'. PopMinRow live heap = Some (v, heap') \<and> map_of live v = Some row \<and>
    (\<forall>j r. map_of live j = Some r \<longrightarrow> en_energy row \<le> en_energy r) \<and>
    heap_ok live heap' \<and> snd ` set heap' = dom (map_of live) - {v}"
  using assms
proof (induction "stale live heap" arbitrary: heap rule: less_induct)
  case less
  obtain tip where tip: "heap_top heap = Some tip" using less.prems(3) heap_top_none [of heap] by (cases "heap_top heap") auto
  have mem: "tip \<in> set heap" by (rule heap_top_mem [OF tip])
  obtain a b where heap: "heap = a @ tip # b" and rest: "remove1 tip heap = a @ b" using remove1_split [OF mem] by blast
  obtain row where row: "map_of live (snd tip) = Some row" "fst tip \<le> en_energy row"
    using less.prems(1) mem unfolding heap_ok_def by blast
  have ids: "distinct (map snd (a @ b))" "snd tip \<notin> snd ` set (a @ b)"
    using less.prems(1) unfolding heap_ok_def heap by auto
  have sub: "heap_ok live (a @ b)" using less.prems(1) unfolding heap_ok_def heap by auto
  have dom: "snd ` set (a @ b) = dom (map_of live) - {snd tip}"
  proof -
    have "insert (snd tip) (snd ` set (a @ b)) = dom (map_of live)"
      using less.prems(2) unfolding covers_def heap by simp
    then show ?thesis using ids(2) by blast
  qed
  show ?case
  proof (cases "en_energy row = fst tip")
    case True
    have "PopMinRow live heap = Some (snd tip, a @ b)"
      by (subst PopMinRow.simps) (simp add: tip row True rest Let_def)
    moreover have "en_energy row \<le> en_energy r" if r: "map_of live j = Some r" for j r
    proof -
      have "j \<in> snd ` set heap" using less.prems(2) r unfolding covers_def by auto
      then obtain item where item: "item \<in> set heap" "snd item = j" by blast
      then have "fst item \<le> en_energy r" using less.prems(1) r unfolding heap_ok_def by fastforce
      with heap_top_least [OF tip item(1)] show ?thesis using True by simp
    qed
    ultimately show ?thesis using row sub dom by blast
  next
    case False
    let ?heap = "(en_energy row, snd tip) # a @ b"
    have "PopMinRow live heap = PopMinRow live ?heap"
      by (subst PopMinRow.simps) (simp add: tip row False rest Let_def)
    moreover have "stale live ?heap < stale live heap"
      using row False by (simp add: stale_def heap)
    moreover have "heap_ok live ?heap" using sub ids row by (auto simp: heap_ok_def)
    moreover have "covers live ?heap" using less.prems(2) unfolding covers_def heap by auto
    ultimately show ?thesis using less.hyps [of ?heap] by auto
  qed
qed

definition hist_ok :: "'e::linordered_idom RaypathHistogramConsumer \<Rightarrow> bool" where
  "hist_ok s \<longleftrightarrow> heap_ok (rh_live s) (rh_min_heap s) \<and> covers (rh_live s) (rh_min_heap s) \<and>
     distinct (map fst (rh_live s)) \<and> length (rh_live s) \<le> rh_capacity s \<and> 0 < rh_capacity s"

definition rows_of :: "'e::linordered_idom RaypathHistogramConsumer \<Rightarrow> nat \<rightharpoonup> 'e \<times> 'e" where
  "rows_of s i = map_option (\<lambda>e. (en_energy e, en_error_bound e)) (live_row s i)"

lemma dom_rows_of: "dom (rows_of s) = dom (live_row s)"
  by (auto simp: rows_of_def dom_def)

lemma card_rows: "distinct (map fst (rh_live s)) \<Longrightarrow> card (dom (rows_of s)) = length (rh_live s)"
  using distinct_card [of "map fst (rh_live s)"] by (simp add: dom_rows_of dom_map_of_conv_image_fst)

lemma new_hist_ok: "hist_ok (RaypathHistogramConsumer_new mode rings capacity)"
  by (simp add: hist_ok_def RaypathHistogramConsumer_new_def heap_ok_def covers_def)

lemma map_of_snoc: "i \<notin> fst ` set xs \<Longrightarrow> map_of (xs @ [(i, x)]) = (map_of xs)(i \<mapsto> x)"
  by (induction xs) (auto simp: fun_upd_twist)

lemma heap_ok_push:
  assumes "heap_ok live heap" and "i \<notin> snd ` set heap" and "map_of live' i = Some r" and "e \<le> en_energy r"
    and "\<And>j. j \<in> snd ` set heap \<Longrightarrow> map_of live' j = map_of live j"
  shows "heap_ok live' ((e, i) # heap)"
  using assms unfolding heap_ok_def by simp

text \<open>The three ways a row is found.\<close>

lemma RowFor_found: "live_row s i = Some e \<Longrightarrow> RowFor i s = Some s"
  by (simp add: RowFor_def)

lemma RowFor_fresh:
  assumes "hist_ok s" and "live_row s i = None" and "length (rh_live s) < rh_capacity s"
  shows "\<exists>s'. RowFor i s = Some s' \<and> hist_ok s' \<and> live_row s' = (live_row s)(i \<mapsto> Entry_new) \<and>
    rh_capacity s' = rh_capacity s"
proof -
  have i: "i \<notin> fst ` set (rh_live s)" using assms(2) by (simp add: map_of_eq_None_iff)
  have row: "map_of (rh_live s @ [(i, Entry_new)]) = (live_row s)(i \<mapsto> Entry_new)"
    by (rule map_of_snoc [OF i])
  define s' where "s' = s\<lparr> rh_live := rh_live s @ [(i, Entry_new)], rh_min_heap := (0, i) # rh_min_heap s \<rparr>"
  have s: "heap_ok (rh_live s) (rh_min_heap s)" "snd ` set (rh_min_heap s) = dom (live_row s)"
    "distinct (map fst (rh_live s))" using assms(1) by (simp_all add: hist_ok_def covers_def)
  have "heap_ok (rh_live s @ [(i, Entry_new)]) ((0, i) # rh_min_heap s)"
  proof (rule heap_ok_push [OF s(1), where r = Entry_new])
    show "i \<notin> snd ` set (rh_min_heap s)" unfolding s(2) using assms(2) by auto
    show "map_of (rh_live s @ [(i, Entry_new)]) j = live_row s j" if "j \<in> snd ` set (rh_min_heap s)" for j
      using that assms(2) unfolding s(2) row by auto
  qed (unfold row, simp_all)
  moreover have "covers (rh_live s @ [(i, Entry_new)]) ((0, i) # rh_min_heap s)"
    unfolding covers_def row using s(2) by simp
  ultimately have "hist_ok s'" using s(3) i assms(3) by (simp add: hist_ok_def s'_def)
  moreover have "RowFor i s = Some s'" using assms(2,3) by (simp add: RowFor_def s'_def)
  moreover have "live_row s' = (live_row s)(i \<mapsto> Entry_new)" using row by (simp add: s'_def)
  ultimately show ?thesis by (simp add: s'_def)
qed

lemma RowFor_evict:
  assumes ok: "hist_ok s" and none: "live_row s i = None" and full: "length (rh_live s) = rh_capacity s"
  shows "\<exists>s' v row. RowFor i s = Some s' \<and> hist_ok s' \<and> live_row s v = Some row \<and>
    (\<forall>j r. live_row s j = Some r \<longrightarrow> en_energy row \<le> en_energy r) \<and>
    live_row s' = ((live_row s)(v := None))(i \<mapsto> row\<lparr> en_error_bound := en_energy row \<rparr>) \<and> rh_capacity s' = rh_capacity s"
proof -
  have "rh_live s \<noteq> []" using ok full by (auto simp: hist_ok_def)
  then have "dom (live_row s) \<noteq> {}" by (cases "rh_live s") auto
  moreover have "dom (live_row s) = snd ` set (rh_min_heap s)" using ok by (simp add: hist_ok_def covers_def)
  ultimately have ne: "rh_min_heap s \<noteq> []" by (cases "rh_min_heap s") simp_all
  have hc: "heap_ok (rh_live s) (rh_min_heap s)" "covers (rh_live s) (rh_min_heap s)" using ok by (simp_all add: hist_ok_def)
  obtain v row heap where pop: "PopMinRow (rh_live s) (rh_min_heap s) = Some (v, heap)"
    and v: "live_row s v = Some row" and least: "\<forall>j r. live_row s j = Some r \<longrightarrow> en_energy row \<le> en_energy r"
    and heap: "heap_ok (rh_live s) heap" "snd ` set heap = dom (live_row s) - {v}"
    using PopMinRow_spec [OF hc ne] by (elim exE conjE)
  define taken where "taken = row\<lparr> en_error_bound := en_energy row \<rparr>"
  define live where "live = AList.delete v (rh_live s) @ [(i, taken)]"
  have deleted: "map_of (AList.delete v (rh_live s)) = (live_row s)(v := None)" by (rule AList.delete_conv')
  have i: "i \<notin> fst ` set (AList.delete v (rh_live s))"
  proof -
    have "map_of (AList.delete v (rh_live s)) i = None" unfolding deleted using none by simp
    then show ?thesis by (simp only: map_of_eq_None_iff not_False_eq_True)
  qed
  have row: "map_of live = ((live_row s)(v := None))(i \<mapsto> taken)"
    unfolding live_def map_of_snoc [OF i] deleted ..
  have iv: "i \<noteq> v" using none v by auto
  have "heap_ok live ((en_energy taken, i) # heap)"
  proof (rule heap_ok_push [OF heap(1), where r = taken])
    show "i \<notin> snd ` set heap" unfolding heap(2) using none by auto
    show "map_of live j = live_row s j" if "j \<in> snd ` set heap" for j
      using that none unfolding heap(2) row by auto
  qed (unfold row, simp_all)
  moreover have "covers live ((en_energy taken, i) # heap)"
    unfolding covers_def row using heap(2) by (auto simp: dom_def)
  moreover have "distinct (map fst live)"
    using ok i by (simp add: live_def hist_ok_def distinct_delete)
  moreover have "length live \<le> rh_capacity s"
  proof -
    have "length (AList.delete v (rh_live s)) < length (rh_live s)"
      unfolding AList.delete_eq by (rule length_filter_less [OF map_of_SomeD [OF v]]) simp
    then show ?thesis using full by (simp add: live_def)
  qed
  moreover have "RowFor i s = Some (s\<lparr> rh_live := live, rh_min_heap := (en_energy taken, i) # heap \<rparr>)"
    using none full pop v by (simp add: RowFor_def live_def taken_def Let_def)
  ultimately show ?thesis
    using ok v least row unfolding hist_ok_def taken_def by (intro exI [of _ "s\<lparr> rh_live := live, rh_min_heap := (en_energy taken, i) # heap \<rparr>"] exI [of _ v] exI [of _ row])
      (simp add: taken_def)
qed

section \<open>Counting is Space-Saving\<close>

lemma live_update: "map_of (AList.update i e al) = (map_of al)(i \<mapsto> e)"
  by (rule AList.update_conv')

lemma AddToEntry_sel [simp]:
  "en_energy (AddToEntry n y cone ring e) = en_energy e + y"
  "en_error_bound (AddToEntry n y cone ring e) = en_error_bound e"
  "en_count (AddToEntry n y cone ring e) = en_count e + 1"
  by (simp_all add: AddToEntry_def Let_def)

text \<open>Raising the energy of a row that is there keeps the invariant.\<close>

lemma update_hist_ok:
  assumes ok: "hist_ok s" and row: "live_row s i = Some e" and up: "en_energy e \<le> en_energy e'"
  shows "hist_ok (s\<lparr> rh_live := AList.update i e' (rh_live s) \<rparr>)"
proof -
  have i: "i \<in> fst ` set (rh_live s)" using map_of_SomeD [OF row] by force
  have "heap_ok (AList.update i e' (rh_live s)) (rh_min_heap s)"
    unfolding heap_ok_def live_update
  proof (intro conjI ballI)
    show "distinct (map snd (rh_min_heap s))" using ok by (simp add: hist_ok_def heap_ok_def)
    fix item assume "item \<in> set (rh_min_heap s)"
    then obtain r where "live_row s (snd item) = Some r" "fst item \<le> en_energy r"
      using ok unfolding hist_ok_def heap_ok_def by blast
    then show "\<exists>r. ((live_row s)(i \<mapsto> e')) (snd item) = Some r \<and> fst item \<le> en_energy r"
      using row up by (cases "snd item = i") auto
  qed
  moreover have "covers (AList.update i e' (rh_live s)) (rh_min_heap s)"
    using ok row unfolding hist_ok_def covers_def live_update by auto
  moreover have "map fst (AList.update i e' (rh_live s)) = map fst (rh_live s)"
    using i by (simp add: update_keys)
  then have "distinct (map fst (AList.update i e' (rh_live s)))" "length (AList.update i e' (rh_live s)) = length (rh_live s)"
    using ok by (simp_all add: hist_ok_def) (metis length_map)
  ultimately show ?thesis using ok by (simp add: hist_ok_def)
qed

lemma RowFor_total:
  assumes "hist_ok s"
  shows "\<exists>s' e. RowFor i s = Some s' \<and> hist_ok s' \<and> live_row s' i = Some e \<and> rh_capacity s' = rh_capacity s"
proof (cases "live_row s i")
  case None
  show ?thesis
  proof (cases "length (rh_live s) < rh_capacity s")
    case True
    from RowFor_fresh [OF assms None True] show ?thesis by force
  next
    case False
    then have "length (rh_live s) = rh_capacity s" using assms by (simp add: hist_ok_def)
    from RowFor_evict [OF assms None this] show ?thesis by force
  qed
qed (use assms RowFor_found in blast)

lemma count_ray_total:
  assumes "hist_ok s" and "0 \<le> y"
  shows "\<exists>s'. count_ray i y cone ring s = Some s' \<and> hist_ok s' \<and> rh_capacity s' = rh_capacity s"
proof (cases "i = kOverflowChainId")
  case False
  from RowFor_total [OF assms(1), of i] obtain s1 e where s1: "RowFor i s = Some s1" "hist_ok s1" "live_row s1 i = Some e"
    "rh_capacity s1 = rh_capacity s" by blast
  have "hist_ok (s1\<lparr> rh_live := AList.update i (AddToEntry (rh_ring_count s1) y cone ring e) (rh_live s1) \<rparr>)"
    by (rule update_hist_ok [OF s1(2,3)]) (simp add: assms(2))
  then show ?thesis using False s1 by (simp add: count_ray_def)
qed (use assms in \<open>simp add: count_ray_def hist_ok_def\<close>)

definition counts_ray :: "nat \<Rightarrow> 'e::linordered_idom \<Rightarrow> 'e RaypathHistogramConsumer \<Rightarrow> 'e RaypathHistogramConsumer \<Rightarrow> bool" where
  "counts_ray i y s s' \<longleftrightarrow> i \<noteq> kOverflowChainId \<and> (\<exists>cone ring. count_ray i y cone ring s = Some s')"

lemma counts_rows:
  assumes "counts_ray i y s s'" and "RowFor i s = Some s1" and "live_row s1 i = Some e"
  shows "rows_of s' = (rows_of s1)(i \<mapsto> (en_energy e + y, en_error_bound e))"
  using assms by (auto simp: counts_ray_def count_ray_def rows_of_def live_update fun_eq_iff)

interpretation rows: space_saving k "\<lambda>s. hist_ok s \<and> rh_capacity s = k" rows_of counts_ray for k
proof unfold_locales
  fix s s' :: "'a RaypathHistogramConsumer" and i y e b
  assume ok: "hist_ok s \<and> rh_capacity s = k" and step: "counts_ray i y s s'"
  note card = card_rows [of s]
  show "hist_ok s' \<and> rh_capacity s' = k" if "0 \<le> y"
  proof -
    from step obtain cone ring where "count_ray i y cone ring s = Some s'" unfolding counts_ray_def by blast
    with count_ray_total [of s y i cone ring] ok that show ?thesis by auto
  qed
  show "rows_of s' = (rows_of s)(i \<mapsto> (e + y, b))" if found: "rows_of s i = Some (e, b)"
  proof -
    obtain r where "live_row s i = Some r" "e = en_energy r" "b = en_error_bound r"
      using found that by (cases "live_row s i") (simp_all add: rows_of_def)
    with counts_rows [OF step RowFor_found] show ?thesis by simp
  qed
  show "rows_of s' = (rows_of s)(i \<mapsto> (y, 0))" if none: "rows_of s i = None" and "card (dom (rows_of s)) < k"
  proof -
    have n: "live_row s i = None" "length (rh_live s) < rh_capacity s"
      using that card ok by (simp_all add: rows_of_def hist_ok_def)
    from RowFor_fresh [OF _ n] ok obtain s1 where s1: "RowFor i s = Some s1" "live_row s1 = (live_row s)(i \<mapsto> Entry_new)" by blast
    then have "rows_of s1 = (rows_of s)(i \<mapsto> (0, 0))" by (simp add: rows_of_def fun_eq_iff)
    then show ?thesis using counts_rows [OF step s1(1)] s1(2) by simp
  qed
  show "\<exists>v e b. rows_of s v = Some (e, b) \<and> (\<forall>j\<in>dom (rows_of s). e \<le> weight (rows_of s) j) \<and>
      rows_of s' = (rows_of s)(v := None, i \<mapsto> (e + y, e))"
    if none: "rows_of s i = None" and full: "card (dom (rows_of s)) = k"
  proof -
    have n: "live_row s i = None" "length (rh_live s) = rh_capacity s"
      using that card ok by (simp_all add: rows_of_def hist_ok_def)
    from RowFor_evict [OF _ n] ok obtain s1 v row where s1: "RowFor i s = Some s1" "live_row s v = Some row"
      "\<forall>j r. live_row s j = Some r \<longrightarrow> en_energy row \<le> en_energy r"
      "live_row s1 = ((live_row s)(v := None))(i \<mapsto> row\<lparr> en_error_bound := en_energy row \<rparr>)" by blast
    have "rows_of s1 = ((rows_of s)(v := None))(i \<mapsto> (en_energy row, en_energy row))"
      using s1(4) by (simp add: rows_of_def fun_eq_iff)
    then have "rows_of s' = (rows_of s)(v := None, i \<mapsto> (en_energy row + y, en_energy row))"
      using counts_rows [OF step s1(1)] s1(4) by simp
    moreover have "rows_of s v = Some (en_energy row, en_error_bound row)" using s1(2) by (simp add: rows_of_def)
    moreover have "en_energy row \<le> weight (rows_of s) j" if "j \<in> dom (rows_of s)" for j
      using that s1(3) by (auto simp: rows_of_def)
    ultimately show ?thesis by blast
  qed
qed

section \<open>Sessions\<close>

definition ray_add ::
  "('f, 'e::linordered_idom) roi_functions \<Rightarrow> 'f OutgoingRays \<Rightarrow> RaypathRoiMode \<Rightarrow> ChainIdMerger \<Rightarrow> nat \<Rightarrow> (nat \<times> 'e) list"
where
  "ray_add fn data mode merger i =
     (if roi_ring fn mode data i = None then []
      else
        let merged_id = Resolve (sb_producer_effective_seed data) (sb_outgoing_chain_id data ! i) merger
        in if merged_id = kUnresolved then []
           else [(merged_id, SpectrumToYSingle fn
             (if sb_outgoing_wl data \<noteq> [] then sb_outgoing_wl data ! i else sb_curr_wl data) (sb_outgoing_w data ! i))])"

definition batch_adds ::
  "('f, 'e::linordered_idom) roi_functions \<Rightarrow> 'f OutgoingRays \<Rightarrow> 'e RaypathHistogramConsumer \<Rightarrow> (nat \<times> 'e) list"
where
  "batch_adds fn data s =
     (if sb_outgoing_chain_id data = [] \<and> sb_chain_id_table_delta data = [] \<or>
         length (sb_outgoing_chain_id data) \<noteq> length (sb_outgoing_w data) then []
      else concat (map (ray_add fn data (rh_roi_mode s)
        (snd (Absorb (sb_producer_effective_seed data) (sb_chain_id_table_delta data) (rh_merger s))))
        [0..<length (sb_outgoing_w data)]))"

text \<open>The states a run reaches, with the additions and the number of table entries delivered since the start or
  the last reset.\<close>

inductive session ::
  "('f, 'e::linordered_idom) roi_functions \<Rightarrow> 'e RaypathHistogramConsumer \<Rightarrow> (nat \<times> 'e) list \<Rightarrow> nat \<Rightarrow> bool"
  for fn
where
  start: "session fn (RaypathHistogramConsumer_new mode rings capacity) [] 0"
| batch: "session fn s adds n \<Longrightarrow> Consume fn data s = Some s' \<Longrightarrow>
    session fn s' (adds @ batch_adds fn data s) (n + length (sb_chain_id_table_delta data))"
| reset: "session fn s adds n \<Longrightarrow> session fn (Reset_histogram s) [] 0"

definition chain_adds :: "(nat \<times> 'e) list \<Rightarrow> (nat \<times> 'e) list" where
  "chain_adds adds = filter (\<lambda>a. fst a \<noteq> kOverflowChainId) adds"

definition other_adds :: "(nat \<times> 'e) list \<Rightarrow> (nat \<times> 'e) list" where
  "other_adds adds = filter (\<lambda>a. fst a = kOverflowChainId) adds"

lemma adds_append [simp]:
  "chain_adds (a @ b) = chain_adds a @ chain_adds b" "other_adds (a @ b) = other_adds a @ other_adds b"
  "chain_adds [] = []" "other_adds [] = []"
  by (simp_all add: chain_adds_def other_adds_def)

lemma total_append: "total_weight (a @ b) = total_weight a + total_weight b"
  by (simp add: total_weight_def)

lemma total_split: "total_weight (chain_adds adds) + total_weight (other_adds adds) = total_weight adds"
  by (induction adds) (auto simp: total_weight_def chain_adds_def other_adds_def)

definition recorded :: "'e::linordered_idom RaypathHistogramConsumer \<Rightarrow> (nat \<times> 'e) list \<Rightarrow> bool" where
  "recorded s adds \<longleftrightarrow> hist_ok s \<and> faithful (rh_capacity s) (rows_of s) (chain_adds adds) \<and>
     en_energy (rh_other s) = total_weight (other_adds adds)"

lemma count_ray_recorded:
  assumes "recorded s adds" and "0 \<le> y"
  shows "\<exists>s'. count_ray i y cone ring s = Some s' \<and> recorded s' (adds @ [(i, y)]) \<and>
    rh_roi_mode s' = rh_roi_mode s \<and> rh_merger s' = rh_merger s"
proof -
  have ok: "hist_ok s" and f: "faithful (rh_capacity s) (rows_of s) (chain_adds adds)"
    and other: "en_energy (rh_other s) = total_weight (other_adds adds)"
    using assms(1) by (simp_all add: recorded_def)
  obtain s' where s': "count_ray i y cone ring s = Some s'" "hist_ok s'" "rh_capacity s' = rh_capacity s"
    using count_ray_total [OF ok assms(2), of i cone ring] by (elim exE conjE)
  have frame: "rh_roi_mode s' = rh_roi_mode s \<and> rh_merger s' = rh_merger s \<and> (i \<noteq> kOverflowChainId \<longrightarrow> rh_other s' = rh_other s)"
    using s'(1) by (auto simp: count_ray_def RowFor_def Let_def split: if_splits option.splits)
  have "recorded s' (adds @ [(i, y)])"
  proof (cases "i = kOverflowChainId")
    case True
    then have "s' = s\<lparr> rh_other := AddToEntry (rh_ring_count s) y cone ring (rh_other s) \<rparr>"
      using s'(1) by (simp add: count_ray_def)
    then show ?thesis
      using True s' f other by (simp add: recorded_def chain_adds_def other_adds_def rows_of_def [abs_def])
  next
    case False
    then have "counts_ray i y s s'" using s'(1) by (auto simp: counts_ray_def)
    from rows.step_faithful [OF _ this f assms(2)] ok
    have "faithful (rh_capacity s) (rows_of s') (chain_adds adds @ [(i, y)])" by simp
    then show ?thesis using False s' frame other by (simp add: recorded_def chain_adds_def other_adds_def)
  qed
  with s'(1) frame show ?thesis by blast
qed

abbreviation nonneg_light :: "('f, 'e::linordered_idom) roi_functions \<Rightarrow> bool" where
  "nonneg_light fn \<equiv> \<forall>wl w. 0 \<le> SpectrumToYSingle fn wl w"

lemma recorded_frame [simp]:
  "recorded (s\<lparr> rh_merger := m \<rparr>) adds = recorded s adds"
  "recorded (s\<lparr> rh_truncated_chain_count := n \<rparr>) adds = recorded s adds"
  "recorded (s\<lparr> rh_logged_unresolved := b \<rparr>) adds = recorded s adds"
  "recorded (s\<lparr> rh_logged_delta_contract := b \<rparr>) adds = recorded s adds"
  by (simp_all add: recorded_def hist_ok_def rows_of_def [abs_def])

lemma consume_ray_recorded:
  assumes "recorded s adds" and "nonneg_light fn"
  shows "\<exists>s'. consume_ray fn data i s = Some s' \<and> recorded s' (adds @ ray_add fn data (rh_roi_mode s) (rh_merger s) i) \<and>
    rh_roi_mode s' = rh_roi_mode s \<and> rh_merger s' = rh_merger s"
proof (cases "roi_ring fn (rh_roi_mode s) data i")
  case (Some ring)
  show ?thesis
  proof (cases "Resolve (sb_producer_effective_seed data) (sb_outgoing_chain_id data ! i) (rh_merger s) = kUnresolved")
    case True
    then show ?thesis using assms(1) Some by (simp add: consume_ray_def ray_add_def Let_def)
  next
    case False
    then show ?thesis
      using Some count_ray_recorded [OF assms(1) spec [OF spec [OF assms(2)]]]
      by (simp add: consume_ray_def ray_add_def Let_def)
  qed
qed (use assms in \<open>simp add: consume_ray_def ray_add_def\<close>)

lemma consume_rays_recorded:
  assumes "nonneg_light fn"
  shows "recorded s adds \<Longrightarrow> \<exists>s'. consume_rays fn data is s = Some s' \<and>
    recorded s' (adds @ concat (map (ray_add fn data (rh_roi_mode s) (rh_merger s)) is))"
proof (induction "is" arbitrary: s adds)
  case (Cons i "is")
  from consume_ray_recorded [OF Cons.prems assms, of data i] obtain s1 where s1: "consume_ray fn data i s = Some s1"
    "recorded s1 (adds @ ray_add fn data (rh_roi_mode s) (rh_merger s) i)" "rh_roi_mode s1 = rh_roi_mode s" "rh_merger s1 = rh_merger s"
    by (elim exE conjE)
  from Cons.IH [OF s1(2)] show ?case using s1 by simp
qed simp

lemma Consume_recorded:
  assumes "recorded s adds" and "nonneg_light fn"
  shows "\<exists>s'. Consume fn data s = Some s' \<and> recorded s' (adds @ batch_adds fn data s)"
proof (cases "sb_outgoing_chain_id data = [] \<and> sb_chain_id_table_delta data = []")
  case True
  then show ?thesis using assms by (simp add: Consume_def batch_adds_def)
next
  case False
  obtain report m where m: "Absorb (sb_producer_effective_seed data) (sb_chain_id_table_delta data) (rh_merger s) = (report, m)"
    by force
  define s1 where "s1 = (let s = s\<lparr> rh_merger := m \<rparr>;
      s = (if 0 < orphaned report \<or> 0 < non_monotonic report then s\<lparr> rh_logged_delta_contract := True \<rparr> else s)
    in s\<lparr> rh_truncated_chain_count := rh_truncated_chain_count s + sb_chain_id_overflow_count data \<rparr>)"
  have rec1: "recorded s1 adds" using assms(1) by (simp add: s1_def Let_def)
  have frame: "rh_roi_mode s1 = rh_roi_mode s" "rh_merger s1 = m" by (simp_all add: s1_def Let_def)
  have step: "Consume fn data s =
      (if length (sb_outgoing_chain_id data) \<noteq> length (sb_outgoing_w data) then Some (s1\<lparr> rh_logged_delta_contract := True \<rparr>)
       else consume_rays fn data [0..<length (sb_outgoing_w data)] s1)"
    unfolding Consume_def if_not_P [OF False] m s1_def by (simp add: Let_def)
  show ?thesis
  proof (cases "length (sb_outgoing_chain_id data) = length (sb_outgoing_w data)")
    case True
    then have "batch_adds fn data s = concat (map (ray_add fn data (rh_roi_mode s) m) [0..<length (sb_outgoing_w data)])"
      using False by (auto simp: batch_adds_def m)
    with True show ?thesis
      using consume_rays_recorded [OF assms(2) rec1, of data "[0..<length (sb_outgoing_w data)]"] by (simp add: step frame)
  next
    case mismatch: False
    then show ?thesis using rec1 by (simp add: step batch_adds_def)
  qed
qed

lemma new_empty:
  "rows_of (RaypathHistogramConsumer_new mode rings capacity) = (\<lambda>_. None)"
  "rh_other (RaypathHistogramConsumer_new mode rings capacity) = Entry_new"
  by (simp_all add: rows_of_def [abs_def] RaypathHistogramConsumer_new_def)

theorem session_recorded:
  assumes "session fn s adds n" and "nonneg_light fn"
  shows "recorded s adds"
  using assms(1)
proof (induction rule: session.induct)
  case (start mode rings capacity)
  show ?case by (simp add: recorded_def faithful_empty new_hist_ok new_empty total_weight_def)
next
  case (batch s adds n data s')
  then show ?case using Consume_recorded [OF batch.IH assms(2), of data] by auto
next
  case (reset s adds n)
  have "rows_of (Reset_histogram s) = (\<lambda>_. None)" by (simp add: rows_of_def [abs_def] Reset_histogram_def)
  then show ?case
    using reset.IH by (simp add: recorded_def faithful_empty Reset_histogram_def hist_ok_def heap_ok_def covers_def)
qed

text \<open>A batch never gets stuck.\<close>

lemma session_batch:
  assumes "session fn s adds n" and "nonneg_light fn"
  shows "session fn (the (Consume fn data s)) (adds @ batch_adds fn data s) (n + length (sb_chain_id_table_delta data))"
  using Consume_recorded [OF session_recorded [OF assms] assms(2), of data] batch [OF assms(1)] by auto

section \<open>Every row names a chain of the merged table\<close>

definition state_sane :: "ChainIdInterningTable \<Rightarrow> ProducerState \<Rightarrow> bool" where
  "state_sane t s \<longleftrightarrow> (\<forall>i j. ps_remap s i = Some j \<longrightarrow> j \<le> Size t)"

definition merger_sane :: "nat \<Rightarrow> ChainIdMerger \<Rightarrow> bool" where
  "merger_sane n m \<longleftrightarrow> table_ok (cm_table m) \<and> kOverflowChainId \<le> cit_capacity (cm_table m) \<and> Size (cm_table m) \<le> n \<and>
     (\<forall>k s. cm_producers m k = Some s \<longrightarrow> state_sane (cm_table m) s)"

lemma state_sane_mono: "state_sane t s \<Longrightarrow> Size t \<le> Size t' \<Longrightarrow> state_sane t' s"
  by (fastforce simp: state_sane_def)

text \<open>Whatever the delta holds, an absorbed entry leaves the remap inside the table.\<close>

lemma absorb_entry_sane:
  assumes t: "table_ok t" "kOverflowChainId \<le> cit_capacity t" "Size t < kOverflowChainId - 1" and s: "state_sane t s"
    and r: "absorb_entry e (s, t, rep) = (s', t', rep')"
  shows "table_ok t' \<and> cit_capacity t' = cit_capacity t \<and> Size t \<le> Size t' \<and> Size t' \<le> Suc (Size t) \<and> state_sane t' s'"
proof (cases "if parent_id e \<noteq> kRootChainId then ps_remap s (parent_id e) else Some kRootChainId")
  case None
  then show ?thesis using r t s by (simp add: absorb_entry_def Let_def)
next
  case (Some p)
  have p: "p \<le> Size t" using Some s by (auto simp: state_sane_def kRootChainId_def split: if_splits)
  have room: "has_room t" using t table_okD(2) [OF t(1)] by (simp add: has_room_def chain_consts)
  obtain j t1 where j: "Intern p (ent_crystal_id e) (segment e) t = (j, t1)" by fastforce
  note spec = Intern_spec [OF t(1) p room j]
  have "t' = t1" and "ps_remap s' = (ps_remap s)(ent_id e \<mapsto> j)"
    using r Some j by (auto simp: absorb_entry_def Let_def split: if_splits)
  moreover have "state_sane t1 s" using state_sane_mono [OF s] spec by blast
  ultimately show ?thesis using spec by (simp add: state_sane_def)
qed

lemma absorb_fold_sane:
  assumes "table_ok t" and "kOverflowChainId \<le> cit_capacity t" and "Size t + length delta < kOverflowChainId"
    and "state_sane t s" and "fold absorb_entry delta (s, t, rep) = (s', t', rep')"
  shows "table_ok t' \<and> cit_capacity t' = cit_capacity t \<and> Size t \<le> Size t' \<and> Size t' \<le> Size t + length delta \<and>
    state_sane t' s'"
  using assms
proof (induction delta arbitrary: s t rep)
  case (Cons e delta)
  obtain s1 t1 rep1 where one: "absorb_entry e (s, t, rep) = (s1, t1, rep1)"
    by (cases "absorb_entry e (s, t, rep)") blast
  have "Size t < kOverflowChainId - 1" using Cons.prems(3) by simp
  note spec = absorb_entry_sane [OF Cons.prems(1,2) this Cons.prems(4) one]
  have rest: "fold absorb_entry delta (s1, t1, rep1) = (s', t', rep')" using Cons.prems(5) one by simp
  have "Size t1 + length delta < kOverflowChainId" using spec Cons.prems(3) by simp
  from Cons.IH [OF _ _ this _ rest] spec Cons.prems(2) show ?case by auto
qed simp

lemma Absorb_sane:
  assumes m: "merger_sane n m" and n: "n + length delta < kOverflowChainId" and r: "Absorb k delta m = (rep, m')"
  shows "merger_sane (n + length delta) m' \<and> Size (cm_table m) \<le> Size (cm_table m')"
proof -
  let ?s = "case cm_producers m k of Some s \<Rightarrow> s | None \<Rightarrow> \<lparr> ps_remap = (\<lambda>_. None), ps_max_local_id = kRootChainId \<rparr>"
  have s: "state_sane (cm_table m) ?s"
    using m by (cases "cm_producers m k") (simp_all add: merger_sane_def state_sane_def)
  obtain s' t' rep' where f: "fold absorb_entry delta (?s, cm_table m, \<lparr> orphaned = 0, non_monotonic = 0 \<rparr>) = (s', t', rep')"
    by (metis prod.exhaust)
  have "table_ok (cm_table m)" "kOverflowChainId \<le> cit_capacity (cm_table m)" "Size (cm_table m) + length delta < kOverflowChainId"
    using m n by (simp_all add: merger_sane_def)
  note spec = absorb_fold_sane [OF this s f]
  have m': "m' = m\<lparr> cm_table := t', cm_producers := (cm_producers m)(k \<mapsto> s') \<rparr>"
    using r f by (simp add: Absorb_def)
  have "state_sane t' q" if "cm_producers m' k' = Some q" for k' q
    using that spec m state_sane_mono [of "cm_table m" q t'] by (auto simp: m' merger_sane_def split: if_splits)
  then show ?thesis using spec m by (simp add: merger_sane_def m')
qed

lemma merger_new_sane: "merger_sane 0 ChainIdMerger_new"
  by (simp add: merger_sane_def ChainIdMerger_new_def new_ok)
    (simp add: ChainIdInterningTable_new_def kUnboundedCapacity_def chain_consts Size_def)

lemma Clear_sane: "merger_sane n m \<Longrightarrow> merger_sane 0 (Clear_merger m)"
  by (simp add: merger_sane_def Clear_merger_def Clear_ok) (simp add: Clear_table_def Size_def)

lemma Resolve_sane:
  assumes "merger_sane n m" and "Resolve k i m \<noteq> kUnresolved" and "Resolve k i m \<noteq> kOverflowChainId"
  shows "Resolve k i m \<le> Size (cm_table m)"
  using assms by (auto simp: Resolve_def merger_sane_def state_sane_def kRootChainId_def split: if_splits option.splits)

definition rows_valid :: "nat \<Rightarrow> 'e::linordered_idom RaypathHistogramConsumer \<Rightarrow> bool" where
  "rows_valid n s \<longleftrightarrow> merger_sane n (rh_merger s) \<and> (\<forall>i\<in>dom (live_row s). i \<le> Size (cm_table (rh_merger s)))"

lemma RowFor_dom: "RowFor i s = Some s' \<Longrightarrow> dom (live_row s') \<subseteq> insert i (dom (live_row s)) \<and> rh_merger s' = rh_merger s"
  unfolding dom_map_of_conv_image_fst
  by (auto simp: RowFor_def Let_def AList.delete_eq split: option.splits if_splits)

lemma count_ray_valid:
  assumes s: "rows_valid n s" and i: "i \<noteq> kOverflowChainId \<longrightarrow> i \<le> Size (cm_table (rh_merger s))"
    and c: "count_ray i y cone ring s = Some s'"
  shows "rows_valid n s' \<and> rh_merger s' = rh_merger s"
proof (cases "i = kOverflowChainId")
  case True
  then show ?thesis using c s by (auto simp: count_ray_def rows_valid_def)
next
  case False
  then obtain s1 where s1: "RowFor i s = Some s1" using c by (auto simp: count_ray_def)
  then have s': "s' = s1\<lparr> rh_live := AList.update i (AddToEntry (rh_ring_count s1) y cone ring (the (live_row s1 i))) (rh_live s1) \<rparr>"
    using c False by (simp add: count_ray_def)
  have "dom (live_row s') = insert i (dom (live_row s1))" by (simp add: s' live_update)
  then show ?thesis
    using RowFor_dom [OF s1] s i False by (auto simp: rows_valid_def s')
qed

lemma consume_ray_valid:
  assumes s: "rows_valid n s" and c: "consume_ray fn data i s = Some s'"
  shows "rows_valid n s' \<and> rh_merger s' = rh_merger s"
proof (cases "roi_ring fn (rh_roi_mode s) data i")
  case None
  then show ?thesis using c s by (simp add: consume_ray_def)
next
  case (Some ring)
  let ?id = "Resolve (sb_producer_effective_seed data) (sb_outgoing_chain_id data ! i) (rh_merger s)"
  show ?thesis
  proof (cases "?id = kUnresolved")
    case True
    then show ?thesis using c s Some by (auto simp: consume_ray_def Let_def rows_valid_def)
  next
    case False
    have "merger_sane n (rh_merger s)" using s by (simp add: rows_valid_def)
    from Resolve_sane [OF this False] have "?id \<noteq> kOverflowChainId \<longrightarrow> ?id \<le> Size (cm_table (rh_merger s))" by blast
    with count_ray_valid [OF s this] c False Some show ?thesis by (simp add: consume_ray_def Let_def)
  qed
qed

lemma consume_rays_valid:
  "rows_valid n s \<Longrightarrow> consume_rays fn data is s = Some s' \<Longrightarrow> rows_valid n s'"
proof (induction "is" arbitrary: s)
  case (Cons i "is")
  then obtain s1 where "consume_ray fn data i s = Some s1" "consume_rays fn data is s1 = Some s'"
    by (auto split: bind_splits)
  with consume_ray_valid [OF Cons.prems(1)] Cons.IH show ?case by blast
qed simp

lemma rows_valid_frame [simp]:
  "rows_valid n (s\<lparr> rh_truncated_chain_count := c \<rparr>) = rows_valid n s"
  "rows_valid n (s\<lparr> rh_logged_delta_contract := b \<rparr>) = rows_valid n s"
  by (simp_all add: rows_valid_def)

lemma rows_valid_mono: "rows_valid n s \<Longrightarrow> n \<le> n' \<Longrightarrow> rows_valid n' s"
  by (auto simp: rows_valid_def merger_sane_def)

lemma Consume_valid:
  assumes s: "rows_valid n s" and n: "n + length (sb_chain_id_table_delta data) < kOverflowChainId"
    and c: "Consume fn data s = Some s'"
  shows "rows_valid (n + length (sb_chain_id_table_delta data)) s'"
proof (cases "sb_outgoing_chain_id data = [] \<and> sb_chain_id_table_delta data = []")
  case True
  then show ?thesis using c s by (simp add: Consume_def)
next
  case False
  obtain report m where m: "Absorb (sb_producer_effective_seed data) (sb_chain_id_table_delta data) (rh_merger s) = (report, m)"
    by force
  have sane: "merger_sane n (rh_merger s)" using s by (simp add: rows_valid_def)
  have "i \<le> Size (cm_table m)" if "i \<in> dom (live_row s)" for i
    using that s Absorb_sane [OF sane n m] order_trans unfolding rows_valid_def by blast
  then have "rows_valid (n + length (sb_chain_id_table_delta data)) (s\<lparr> rh_merger := m \<rparr>)"
    using Absorb_sane [OF sane n m] by (simp add: rows_valid_def)
  moreover have "Consume fn data s = Some s'" by (rule c)
  ultimately show ?thesis
    unfolding Consume_def if_not_P [OF False] m
    by (auto simp: Let_def split: if_splits intro: consume_rays_valid [rotated])
qed

text \<open>The merger's table keeps its bound, whatever it is fed, so a reset makes the rows valid again.\<close>

abbreviation merger_capacity :: "'e RaypathHistogramConsumer \<Rightarrow> nat" where
  "merger_capacity s \<equiv> cit_capacity (cm_table (rh_merger s))"

lemma Intern_capacity: "cit_capacity (snd (Intern p c sg t)) = cit_capacity t"
  by (auto simp: Intern_def Let_def split: option.splits)

lemma absorb_entry_capacity: "cit_capacity (fst (snd (absorb_entry e st))) = cit_capacity (fst (snd st))"
  using Intern_capacity [of _ "ent_crystal_id e" "segment e" "fst (snd st)"]
  by (auto simp: absorb_entry_def Let_def split: option.splits prod.splits if_splits) (metis snd_conv)+

lemma absorb_fold_capacity: "cit_capacity (fst (snd (fold absorb_entry delta st))) = cit_capacity (fst (snd st))"
  by (induction delta arbitrary: st) (simp_all add: absorb_entry_capacity)

lemma Absorb_capacity: "cit_capacity (cm_table (snd (Absorb k delta m))) = cit_capacity (cm_table m)"
  unfolding Absorb_def Let_def
  using absorb_fold_capacity [of delta] by (auto split: prod.splits) (metis fst_conv snd_conv)

lemma consume_ray_merger: "consume_ray fn data i s = Some s' \<Longrightarrow> rh_merger s' = rh_merger s"
  by (auto simp: consume_ray_def count_ray_def Let_def dest: RowFor_dom split: option.splits if_splits)

lemma consume_rays_merger: "consume_rays fn data is s = Some s' \<Longrightarrow> rh_merger s' = rh_merger s"
  by (induction "is" arbitrary: s) (auto split: bind_splits dest: consume_ray_merger)

lemma Consume_capacity: "Consume fn data s = Some s' \<Longrightarrow> merger_capacity s' = merger_capacity s"
  using Absorb_capacity [of "sb_producer_effective_seed data" "sb_chain_id_table_delta data" "rh_merger s"]
  by (auto simp: Consume_def Let_def split: if_splits prod.splits dest!: consume_rays_merger)

lemma session_capacity: "session fn s adds n \<Longrightarrow> merger_capacity s = kUnboundedCapacity"
  by (induction rule: session.induct)
    (simp_all add: RaypathHistogramConsumer_new_def ChainIdMerger_new_def ChainIdInterningTable_new_def
      Consume_capacity Reset_histogram_def Clear_merger_def Clear_table_def)

theorem session_valid:
  assumes "session fn s adds n" and "n < kOverflowChainId"
  shows "rows_valid n s"
  using assms
proof (induction rule: session.induct)
  case (start mode rings capacity)
  show ?case using merger_new_sane by (simp add: rows_valid_def RaypathHistogramConsumer_new_def)
next
  case (batch s adds n data s')
  then show ?case using Consume_valid [of n s data fn s'] by simp
next
  case (reset s adds n)
  have "rh_live (Reset_histogram s) = []" "rh_merger (Reset_histogram s) = Clear_merger (rh_merger s)"
    by (simp_all add: Reset_histogram_def)
  moreover have "merger_sane 0 (Clear_merger (rh_merger s))"
    using session_capacity [OF reset.hyps]
    by (simp add: merger_sane_def Clear_merger_def Clear_ok)
      (simp add: Clear_table_def Size_def kUnboundedCapacity_def chain_consts)
  ultimately show ?case by (simp add: rows_valid_def)
qed

end
