(* ===== verification/Sync_Groups.thy ===== *)
theory Sync_Groups
  imports Axis_Distribution Face_Labels
begin

text \<open>
  Sync groups of the crystal shape scalars (\<open>src/core/crystal_param.hpp\<close>, \<open>src/core/crystal_param.cpp\<close>):
  the slot maps of the two crystal types, the canonical form of a group vector, the leader normalization
  of the members' distributions, and their composition.

  A slot map is the list of the ten slots, \<open>None\<close> for a null pointer; a pass that writes through the
  pointers returns the updated list, from which the parameters are rebuilt.  A group vector is an
  \<open>int list\<close> of length ten.  The two id arrays of the renumbering are one association list.
\<close>

section \<open>The code\<close>

definition kShapeScalarUpperH :: nat where "kShapeScalarUpperH = 1"
definition kShapeScalarLowerH :: nat where "kShapeScalarLowerH = 3"
definition kShapeScalarFace0 :: nat where "kShapeScalarFace0 = 4"
definition kShapeScalarCount :: nat where "kShapeScalarCount = 10"

record 'f PrismCrystalParam =
  pr_h :: "'f Distribution"
  pr_d :: "'f Distribution list"
  pr_sync_group :: "int list"

record 'f PyramidCrystalParam =
  py_h_prs :: "'f Distribution"
  py_h_pyr_u :: "'f Distribution"
  py_h_pyr_l :: "'f Distribution"
  py_d :: "'f Distribution list"
  py_sync_group :: "int list"
  py_wedge_angle_u :: 'f
  py_wedge_angle_l :: 'f

type_synonym 'f slots = "'f Distribution option list"

definition GetShapeScalarSlots_prism :: "'f PrismCrystalParam \<Rightarrow> 'f slots" where
  "GetShapeScalarSlots_prism p = [Some (pr_h p), None, None, None, Some (pr_d p ! 0), Some (pr_d p ! 1),
     Some (pr_d p ! 2), Some (pr_d p ! 3), Some (pr_d p ! 4), Some (pr_d p ! 5)]"

definition GetShapeScalarSlots_pyramid :: "'f PyramidCrystalParam \<Rightarrow> 'f slots" where
  "GetShapeScalarSlots_pyramid p = [None, Some (py_h_pyr_u p), Some (py_h_prs p), Some (py_h_pyr_l p),
     Some (py_d p ! 0), Some (py_d p ! 1), Some (py_d p ! 2), Some (py_d p ! 3), Some (py_d p ! 4), Some (py_d p ! 5)]"

text \<open>Rule 1: no group on a slot the type does not have.\<close>

definition zero_inapplicable :: "int list \<Rightarrow> 'f slots \<Rightarrow> int list" where
  "zero_inapplicable sync_group slots = map2 (\<lambda>g s. if s = None then 0 else g) sync_group slots"

text \<open>Rule 2: one step of the loop, in place.\<close>

definition zero_singleton :: "nat \<Rightarrow> int list \<Rightarrow> int list" where
  "zero_singleton i sync_group =
     (if sync_group ! i = 0 then sync_group
      else let members = count_list sync_group (sync_group ! i)
           in if members < 2 then sync_group[i := 0] else sync_group)"

text \<open>Rule 3: \<open>ids\<close> are the assigned pairs of an old and a new id; iteration \<open>i\<close> reads and writes entry \<open>i\<close> only.\<close>

fun find_id :: "(int \<times> int) list \<Rightarrow> int \<Rightarrow> int" where
  "find_id [] g = 0"
| "find_id ((old_id, new_id) # ids) g = (if old_id = g then new_id else find_id ids g)"

fun renumber :: "(int \<times> int) list \<Rightarrow> int list \<Rightarrow> int list" where
  "renumber ids [] = []"
| "renumber ids (g # gs) =
     (if g = 0 then 0 # renumber ids gs
      else
        let mapped = find_id ids g
        in if mapped = 0
           then let mapped = int (length ids) + 1 in mapped # renumber (ids @ [(g, mapped)]) gs
           else mapped # renumber ids gs)"

definition CanonicalizeSyncGroupsImpl :: "int list \<Rightarrow> 'f slots \<Rightarrow> int list" where
  "CanonicalizeSyncGroupsImpl sync_group slots =
     renumber [] (fold zero_singleton [0..<kShapeScalarCount] (zero_inapplicable sync_group slots))"

text \<open>The first occupied slot before \<open>i\<close> with the group of \<open>i\<close>.\<close>

fun find_leader :: "int list \<Rightarrow> 'f slots \<Rightarrow> nat \<Rightarrow> nat list \<Rightarrow> nat option" where
  "find_leader sync_group slots i [] = None"
| "find_leader sync_group slots i (k # ks) =
     (if sync_group ! k = sync_group ! i \<and> slots ! k \<noteq> None then Some k else find_leader sync_group slots i ks)"

definition normalize_slot :: "int list \<Rightarrow> nat \<Rightarrow> 'f slots \<Rightarrow> 'f slots" where
  "normalize_slot sync_group i slots =
     (if sync_group ! i = 0 \<or> slots ! i = None then slots
      else case find_leader sync_group slots i [0..<i] of
             None \<Rightarrow> slots
           | Some leader \<Rightarrow> slots[i := slots ! leader])"

definition NormalizeSyncGroupsImpl :: "int list \<Rightarrow> 'f slots \<Rightarrow> 'f slots" where
  "NormalizeSyncGroupsImpl sync_group slots = fold (normalize_slot sync_group) [0..<kShapeScalarCount] slots"

definition CanonicalizeSyncGroups_prism :: "'f PrismCrystalParam \<Rightarrow> 'f PrismCrystalParam" where
  "CanonicalizeSyncGroups_prism p =
     p\<lparr> pr_sync_group := CanonicalizeSyncGroupsImpl (pr_sync_group p) (GetShapeScalarSlots_prism p) \<rparr>"

definition CanonicalizeSyncGroups_pyramid :: "'f PyramidCrystalParam \<Rightarrow> 'f PyramidCrystalParam" where
  "CanonicalizeSyncGroups_pyramid p =
     p\<lparr> py_sync_group := CanonicalizeSyncGroupsImpl (py_sync_group p) (GetShapeScalarSlots_pyramid p) \<rparr>"

text \<open>Writing through the slot pointers: the slots that exist are never made null.\<close>

definition store_slots_prism :: "'f slots \<Rightarrow> 'f PrismCrystalParam \<Rightarrow> 'f PrismCrystalParam" where
  "store_slots_prism s p = p\<lparr> pr_h := the (s ! 0), pr_d := map (\<lambda>i. the (s ! i)) [4..<10] \<rparr>"

definition store_slots_pyramid :: "'f slots \<Rightarrow> 'f PyramidCrystalParam \<Rightarrow> 'f PyramidCrystalParam" where
  "store_slots_pyramid s p =
     p\<lparr> py_h_pyr_u := the (s ! 1), py_h_prs := the (s ! 2), py_h_pyr_l := the (s ! 3),
        py_d := map (\<lambda>i. the (s ! i)) [4..<10] \<rparr>"

definition NormalizeSyncGroups_prism :: "'f PrismCrystalParam \<Rightarrow> 'f PrismCrystalParam" where
  "NormalizeSyncGroups_prism p =
     store_slots_prism (NormalizeSyncGroupsImpl (pr_sync_group p) (GetShapeScalarSlots_prism p)) p"

definition NormalizeSyncGroups_pyramid :: "'f PyramidCrystalParam \<Rightarrow> 'f PyramidCrystalParam" where
  "NormalizeSyncGroups_pyramid p =
     store_slots_pyramid (NormalizeSyncGroupsImpl (py_sync_group p) (GetShapeScalarSlots_pyramid p)) p"

definition PrepareSyncGroups_prism :: "'f PrismCrystalParam \<Rightarrow> 'f PrismCrystalParam" where
  "PrepareSyncGroups_prism p = NormalizeSyncGroups_prism (CanonicalizeSyncGroups_prism p)"

definition PrepareSyncGroups_pyramid :: "'f PyramidCrystalParam \<Rightarrow> 'f PyramidCrystalParam" where
  "PrepareSyncGroups_pyramid p = NormalizeSyncGroups_pyramid (CanonicalizeSyncGroups_pyramid p)"

text \<open>The probes only lend the slot maps their null pattern, so any parameter does.\<close>

definition IsShapeScalarApplicable :: "'f PrismCrystalParam \<Rightarrow> 'f PyramidCrystalParam \<Rightarrow> CrystalKind \<Rightarrow> int \<Rightarrow> bool" where
  "IsShapeScalarApplicable prism_probe pyramid_probe kind slot =
     (if slot < 0 \<or> slot \<ge> int kShapeScalarCount then False
      else case kind of
        kPrism \<Rightarrow> GetShapeScalarSlots_prism prism_probe ! nat slot \<noteq> None
      | kPyramid \<Rightarrow> GetShapeScalarSlots_pyramid pyramid_probe ! nat slot \<noteq> None)"

section \<open>Partitions\<close>

text \<open>What a group vector means: which applicable slots share one draw.\<close>

definition linked :: "'f slots \<Rightarrow> int list \<Rightarrow> nat \<Rightarrow> nat \<Rightarrow> bool" where
  "linked slots g i j \<longleftrightarrow> slots ! i \<noteq> None \<and> slots ! j \<noteq> None \<and> g ! i \<noteq> 0 \<and> g ! i = g ! j"

text \<open>Rules 1 and 2 together keep a group exactly where another applicable slot has it.\<close>

definition drop_singletons :: "int list \<Rightarrow> int list" where
  "drop_singletons g = map (\<lambda>x. if x \<noteq> 0 \<and> count_list g x < 2 then 0 else x) g"

lemma count_list_ge2: "2 \<le> count_list g x \<longleftrightarrow> (\<exists>i j. i < j \<and> j < length g \<and> g ! i = x \<and> g ! j = x)"
proof (induction g)
  case (Cons y g)
  have one: "1 \<le> count_list g x \<longleftrightarrow> (\<exists>j<length g. g ! j = x)"
    by (metis One_nat_def count_list_0_iff in_set_conv_nth not_less_eq_eq not_one_le_zero le_0_eq bot_nat_0.not_eq_extremum Suc_leI)
  show ?case
  proof
    assume l: "2 \<le> count_list (y # g) x"
    show "\<exists>i j. i < j \<and> j < length (y # g) \<and> (y # g) ! i = x \<and> (y # g) ! j = x"
    proof (cases "2 \<le> count_list g x")
      case True
      with Cons.IH obtain i j where "i < j" "j < length g" "g ! i = x" "g ! j = x" by blast
      then show ?thesis by (intro exI [of _ "Suc i"] exI [of _ "Suc j"]) simp
    next
      case False
      with l have "y = x" "1 \<le> count_list g x" by (auto split: if_splits)
      with one obtain j where "j < length g" "g ! j = x" by blast
      with \<open>y = x\<close> show ?thesis by (intro exI [of _ 0] exI [of _ "Suc j"]) simp
    qed
  next
    assume "\<exists>i j. i < j \<and> j < length (y # g) \<and> (y # g) ! i = x \<and> (y # g) ! j = x"
    then obtain i j where ij: "i < j" "j < length (y # g)" "(y # g) ! i = x" "(y # g) ! j = x" by blast
    show "2 \<le> count_list (y # g) x"
    proof (cases i)
      case 0
      with ij one show ?thesis by (cases j) (auto simp: Suc_le_eq)
    next
      case (Suc i')
      with ij Cons.IH show ?thesis by (cases j) auto
    qed
  qed
qed simp

lemma drop_singletons_nth: "i < length g \<Longrightarrow> drop_singletons g ! i = (if g ! i \<noteq> 0 \<and> count_list g (g ! i) < 2 then 0 else g ! i)"
  by (simp add: drop_singletons_def)

lemma zero_singleton_loop:
  "n \<le> length g \<Longrightarrow> length (fold zero_singleton [0..<n] g) = length g \<and>
     (\<forall>k<length g. fold zero_singleton [0..<n] g ! k = (if k < n then drop_singletons g ! k else g ! k))"
proof (induction n)
  case (Suc n)
  define h where "h = fold zero_singleton [0..<n] g"
  have h: "length h = length g" "\<And>k. k < length g \<Longrightarrow> h ! k = (if k < n then drop_singletons g ! k else g ! k)"
    using Suc by (simp_all add: h_def)
  have n: "n < length g" using Suc.prems by simp
  have hn: "h ! n = g ! n" using h(2) [OF n] by simp
  have same: "count_list h (g ! n) < 2 \<longleftrightarrow> count_list g (g ! n) < 2" if nz: "g ! n \<noteq> 0"
  proof -
    have "h ! k = g ! n \<longleftrightarrow> g ! k = g ! n" if k: "k < length g" for k
    proof (cases "k < n \<and> g ! k = g ! n")
      case True
      then have "2 \<le> count_list g (g ! n)" using n by (auto simp: count_list_ge2)
      with True k h(2) [OF k] show ?thesis by (simp add: drop_singletons_nth)
    next
      case False
      with h(2) [OF k] k nz show ?thesis by (auto simp: drop_singletons_nth split: if_splits)
    qed
    then have "2 \<le> count_list h (g ! n) \<longleftrightarrow> 2 \<le> count_list g (g ! n)"
      unfolding count_list_ge2 h(1) by (meson order.strict_trans)
    then show ?thesis by (metis not_less)
  qed
  have "fold zero_singleton [0..<Suc n] g = zero_singleton n h" by (simp add: h_def)
  moreover have "length (zero_singleton n h) = length g" using h(1) by (simp add: zero_singleton_def Let_def)
  moreover have "zero_singleton n h ! k = (if k < Suc n then drop_singletons g ! k else g ! k)" if k: "k < length g" for k
    using h k n hn same
    by (cases "k = n") (auto simp: zero_singleton_def Let_def drop_singletons_nth nth_list_update)
  ultimately show ?case by simp
qed simp

lemma zero_singletons: "length g = kShapeScalarCount \<Longrightarrow> fold zero_singleton [0..<kShapeScalarCount] g = drop_singletons g"
  using zero_singleton_loop [of kShapeScalarCount g] by (intro nth_equalityI) (simp_all add: drop_singletons_def)

section \<open>Renumbering\<close>

definition ids_ok :: "(int \<times> int) list \<Rightarrow> bool" where
  "ids_ok ids \<longleftrightarrow> map snd ids = map (\<lambda>k. int k + 1) [0..<length ids] \<and> distinct (map fst ids) \<and> 0 \<notin> set (map fst ids)"

lemma ids_ok_snoc:
  "ids_ok ids \<Longrightarrow> g \<noteq> 0 \<Longrightarrow> g \<notin> set (map fst ids) \<Longrightarrow> ids_ok (ids @ [(g, int (length ids) + 1)])"
  by (auto simp: ids_ok_def)

lemma find_id_append: "find_id (xs @ ys) g = (if g \<in> set (map fst xs) then find_id xs g else find_id ys g)"
  by (induction xs g rule: find_id.induct) auto

lemma find_id_mem: "g \<in> set (map fst ids) \<Longrightarrow> (g, find_id ids g) \<in> set ids"
  by (induction ids g rule: find_id.induct) auto

lemma find_id_none: "g \<notin> set (map fst ids) \<Longrightarrow> find_id ids g = 0"
  by (induction ids g rule: find_id.induct) auto

lemma find_id_pos: "ids_ok ids \<Longrightarrow> g \<in> set (map fst ids) \<Longrightarrow> 0 < find_id ids g"
proof -
  assume ok: "ids_ok ids" and "g \<in> set (map fst ids)"
  then have "find_id ids g \<in> set (map snd ids)" using find_id_mem [of g ids] by force
  with ok show "0 < find_id ids g" by (auto simp: ids_ok_def)
qed

lemma find_id_inj:
  assumes ok: "ids_ok ids" and g: "g \<in> set (map fst ids)" and h: "h \<in> set (map fst ids)"
    and eq: "find_id ids g = find_id ids h"
  shows "g = h"
proof -
  have "distinct (map snd ids)" using ok by (simp add: ids_ok_def distinct_map inj_on_def)
  then have "inj_on snd (set ids)" by (simp add: distinct_map)
  with find_id_mem [OF g] find_id_mem [OF h] eq show ?thesis
    by (metis inj_onD prod.inject snd_conv)
qed

text \<open>The renumbering is a map by an injective numbering of the non-zero ids.\<close>

lemma renumber_map:
  "ids_ok ids \<Longrightarrow> \<exists>ext. ids_ok (ids @ ext) \<and> set gs - {0} \<subseteq> set (map fst (ids @ ext)) \<and>
     renumber ids gs = map (\<lambda>g. if g = 0 then 0 else find_id (ids @ ext) g) gs"
proof (induction gs arbitrary: ids)
  case (Cons g gs)
  show ?case
  proof (cases "g = 0 \<or> g \<in> set (map fst ids)")
    case True
    from Cons.IH [OF Cons.prems] obtain ext where ext: "ids_ok (ids @ ext)" "set gs - {0} \<subseteq> set (map fst (ids @ ext))"
        "renumber ids gs = map (\<lambda>g. if g = 0 then 0 else find_id (ids @ ext) g) gs" by blast
    have "renumber ids (g # gs) = (if g = 0 then 0 else find_id (ids @ ext) g) # renumber ids gs"
    proof (cases "g = 0")
      case False
      with True have g: "g \<in> set (map fst ids)" by simp
      show ?thesis using False find_id_pos [OF Cons.prems g] unfolding find_id_append if_P [OF g]
        by (simp add: Let_def)
    qed simp
    with ext True show ?thesis by (intro exI [of _ ext]) auto
  next
    case False
    define ids1 where "ids1 = ids @ [(g, int (length ids) + 1)]"
    have ok1: "ids_ok ids1" unfolding ids1_def by (rule ids_ok_snoc [OF Cons.prems]) (use False in auto)
    from Cons.IH [OF ok1] obtain ext where ext: "ids_ok (ids1 @ ext)" "set gs - {0} \<subseteq> set (map fst (ids1 @ ext))"
        "renumber ids1 gs = map (\<lambda>g. if g = 0 then 0 else find_id (ids1 @ ext) g) gs" by blast
    have "renumber ids (g # gs) = (int (length ids) + 1) # renumber ids1 gs"
      using False find_id_none [of g ids] by (simp add: Let_def ids1_def)
    moreover have "find_id (ids1 @ ext) g = int (length ids) + 1"
      using False by (simp add: ids1_def find_id_append)
    moreover have "ids1 @ ext = ids @ (g, int (length ids) + 1) # ext" by (simp add: ids1_def)
    ultimately show ?thesis
      using ext False by (intro exI [of _ "(g, int (length ids) + 1) # ext"]) auto
  qed
qed (auto intro: exI [of _ "[]"])

lemma renumber_length: "length (renumber ids gs) = length gs"
  by (induction ids gs rule: renumber.induct) (simp_all add: Let_def)

lemma renumber_pattern:
  assumes "i < length gs" and "j < length gs"
  shows "(renumber [] gs ! i = 0 \<longleftrightarrow> gs ! i = 0) \<and>
    (gs ! i \<noteq> 0 \<longrightarrow> (renumber [] gs ! i = renumber [] gs ! j \<longleftrightarrow> gs ! i = gs ! j))"
proof -
  have "ids_ok []" by (simp add: ids_ok_def)
  from renumber_map [OF this, of gs] obtain ids where ids: "ids_ok ids" "set gs - {0} \<subseteq> set (map fst ids)"
      "renumber [] gs = map (\<lambda>g. if g = 0 then 0 else find_id ids g) gs" by auto
  have mem: "gs ! k \<in> set (map fst ids)" if "k < length gs" "gs ! k \<noteq> 0" for k
    using ids(2) that nth_mem by blast
  show ?thesis
    using assms find_id_pos [OF ids(1) mem [of i]] find_id_pos [OF ids(1) mem [of j]]
      find_id_inj [OF ids(1) mem [of i] mem [of j]]
    by (auto simp: ids(3))
qed

text \<open>It only sees which entries are equal and which are zero.\<close>

lemma renumber_rename:
  assumes "inj_on f (set gs \<union> set (map fst ids))" and "\<And>x. x \<in> set gs \<Longrightarrow> f x = 0 \<longleftrightarrow> x = 0"
  shows "renumber (map (\<lambda>(a, b). (f a, b)) ids) (map f gs) = renumber ids gs"
  using assms
proof (induction gs arbitrary: ids)
  case (Cons g gs)
  have find: "find_id (map (\<lambda>(a, b). (f a, b)) ids) (f g) = find_id ids g"
    if "inj_on f (insert g (set (map fst ids)))" for g ids
    using that by (induction ids) (auto simp: inj_on_def)
  have "inj_on f (insert g (set (map fst ids)))" by (rule inj_on_subset [OF Cons.prems(1)]) auto
  note find = find [OF this]
  have IH: "renumber (map (\<lambda>(a, b). (f a, b)) ids') (map f gs) = renumber ids' gs"
    if "set (map fst ids') \<subseteq> insert g (set (map fst ids))" for ids'
    by (rule Cons.IH [OF inj_on_subset [OF Cons.prems(1)]]) (use that Cons.prems(2) in auto)
  have "renumber (map (\<lambda>(a, b). (f a, b)) ids @ [(f g, n)]) (map f gs) = renumber (ids @ [(g, n)]) gs" for n
    using IH [of "ids @ [(g, n)]"] by simp
  moreover have "renumber (map (\<lambda>(a, b). (f a, b)) ids) (map f gs) = renumber ids gs" by (rule IH) blast
  ultimately show ?case using find Cons.prems(2) [of g] by (simp add: Let_def)
qed simp

lemma renumber_same_pattern:
  assumes len: "length gs = length hs"
    and zero: "\<And>i. i < length gs \<Longrightarrow> gs ! i = 0 \<longleftrightarrow> hs ! i = 0"
    and eq: "\<And>i j. i < length gs \<Longrightarrow> j < length gs \<Longrightarrow> gs ! i = gs ! j \<longleftrightarrow> hs ! i = hs ! j"
  shows "renumber [] gs = renumber [] hs"
proof -
  define f where "f x = the (map_of (zip gs hs) x)" for x
  have f: "f (gs ! i) = hs ! i" if "i < length gs" for i
  proof -
    have "(gs ! i, hs ! i) \<in> set (zip gs hs)" using that len by (metis in_set_zip fst_conv snd_conv)
    then obtain y where y: "map_of (zip gs hs) (gs ! i) = Some y" by (metis not_None_eq map_of_eq_None_iff image_eqI fst_conv)
    then obtain k where "k < length gs" "gs ! k = gs ! i" "hs ! k = y"
      using map_of_SomeD [OF y] len by (auto simp: in_set_zip)
    with eq that y show ?thesis by (auto simp: f_def)
  qed
  have map: "map f gs = hs" using f len by (intro nth_equalityI) simp_all
  have "inj_on f (set gs)" using f eq by (auto simp: inj_on_def in_set_conv_nth)
  moreover have "f x = 0 \<longleftrightarrow> x = 0" if "x \<in> set gs" for x
    using that f zero by (auto simp: in_set_conv_nth)
  ultimately have "renumber (map (\<lambda>(a, b). (f a, b)) []) (map f gs) = renumber [] gs"
    by (intro renumber_rename) simp_all
  then show ?thesis by (simp add: map)
qed

section \<open>The canonical form\<close>

definition shared :: "'f slots \<Rightarrow> int list \<Rightarrow> nat \<Rightarrow> bool" where
  "shared slots g i \<longleftrightarrow> (\<exists>j<length g. j \<noteq> i \<and> linked slots g i j)"

lemma count_other: "i < length g \<Longrightarrow> 2 \<le> count_list g (g ! i) \<longleftrightarrow> (\<exists>j<length g. j \<noteq> i \<and> g ! j = g ! i)"
proof
  assume "i < length g" "2 \<le> count_list g (g ! i)"
  then obtain a b where ab: "a < b" "b < length g" "g ! a = g ! i" "g ! b = g ! i" by (auto simp: count_list_ge2)
  then show "\<exists>j<length g. j \<noteq> i \<and> g ! j = g ! i" by (cases "a = i") (auto intro: exI [of _ b] exI [of _ a])
next
  assume i: "i < length g" and "\<exists>j<length g. j \<noteq> i \<and> g ! j = g ! i"
  then obtain j where j: "j < length g" "j \<noteq> i" "g ! j = g ! i" by blast
  show "2 \<le> count_list g (g ! i)" unfolding count_list_ge2
  proof (cases "i < j")
    case True
    with i j show "\<exists>a b. a < b \<and> b < length g \<and> g ! a = g ! i \<and> g ! b = g ! i" by blast
  next
    case False
    with j(2) have "j < i" by simp
    with i j show "\<exists>a b. a < b \<and> b < length g \<and> g ! a = g ! i \<and> g ! b = g ! i" by blast
  qed
qed

lemma shared_linked: "i < length g \<Longrightarrow> j < length g \<Longrightarrow> i \<noteq> j \<Longrightarrow> linked slots g i j \<Longrightarrow> shared slots g i \<and> shared slots g j"
  by (auto simp: shared_def linked_def)

lemma linked_shared: "shared slots g i \<Longrightarrow> shared slots g j \<Longrightarrow> linked slots g i j \<longleftrightarrow> g ! i = g ! j"
  by (auto simp: shared_def linked_def)

lemma shared_nonzero: "shared slots g i \<Longrightarrow> g ! i \<noteq> 0"
  by (auto simp: shared_def linked_def)

lemma zero_inapplicable_nth:
  "i < length g \<Longrightarrow> length slots = length g \<Longrightarrow> zero_inapplicable g slots ! i = (if slots ! i = None then 0 else g ! i)"
  by (simp add: zero_inapplicable_def)

lemma zero_inapplicable_length: "length slots = length g \<Longrightarrow> length (zero_inapplicable g slots) = length g"
  by (simp add: zero_inapplicable_def)

text \<open>After the first two rules a slot keeps its group exactly where another slot shares it.\<close>

lemma kept:
  assumes "length slots = length g" and "i < length g"
  shows "drop_singletons (zero_inapplicable g slots) ! i = (if shared slots g i then g ! i else 0)"
proof -
  let ?z = "zero_inapplicable g slots"
  have len: "length ?z = length g" using assms(1) by (rule zero_inapplicable_length)
  have z: "?z ! k = (if slots ! k = None then 0 else g ! k)" if "k < length g" for k
    using that assms(1) by (rule zero_inapplicable_nth)
  have count: "2 \<le> count_list ?z (?z ! i) \<longleftrightarrow> (\<exists>j<length g. j \<noteq> i \<and> ?z ! j = ?z ! i)"
    using count_other [of i ?z] len assms(2) by simp
  have "?z ! i \<noteq> 0 \<and> 2 \<le> count_list ?z (?z ! i) \<longleftrightarrow> shared slots g i"
  proof (cases "slots ! i = None \<or> g ! i = 0")
    case True
    then show ?thesis using z [OF assms(2)] by (auto simp: shared_def linked_def)
  next
    case False
    then have "?z ! i = g ! i" using z [OF assms(2)] by simp
    then show ?thesis unfolding count shared_def linked_def
      using False z by (metis (no_types, lifting))
  qed
  moreover have "shared slots g i \<Longrightarrow> ?z ! i = g ! i" using z [OF assms(2)] by (auto simp: shared_def linked_def)
  ultimately show ?thesis using len assms(2) by (auto simp: drop_singletons_nth)
qed

lemma Canonicalize_eq:
  assumes "length g = kShapeScalarCount" and "length slots = kShapeScalarCount"
  shows "CanonicalizeSyncGroupsImpl g slots = renumber [] (drop_singletons (zero_inapplicable g slots))"
  using assms by (simp add: CanonicalizeSyncGroupsImpl_def zero_singletons zero_inapplicable_length)

lemma Canonicalize_length:
  assumes "length g = kShapeScalarCount" and "length slots = kShapeScalarCount"
  shows "length (CanonicalizeSyncGroupsImpl g slots) = kShapeScalarCount"
  using assms by (simp add: Canonicalize_eq renumber_length drop_singletons_def zero_inapplicable_length)

lemma Canonicalize_linked:
  assumes g: "length g = kShapeScalarCount" "length slots = kShapeScalarCount"
    and ij: "i < kShapeScalarCount" "j < kShapeScalarCount" "i \<noteq> j"
  shows "linked slots (CanonicalizeSyncGroupsImpl g slots) i j \<longleftrightarrow> linked slots g i j"
proof -
  let ?h = "drop_singletons (zero_inapplicable g slots)"
  have len: "length ?h = kShapeScalarCount" using g by (simp add: drop_singletons_def zero_inapplicable_length)
  have h: "?h ! k = (if shared slots g k then g ! k else 0)" if "k < kShapeScalarCount" for k
    using kept [of slots g k] g that by simp
  have "linked slots g i j \<Longrightarrow> shared slots g i \<and> shared slots g j"
    using ij g by (auto simp: shared_def linked_def)
  moreover have "shared slots g k \<Longrightarrow> g ! k \<noteq> 0" for k by (auto simp: shared_def linked_def)
  ultimately show ?thesis
    unfolding Canonicalize_eq [OF g] linked_def
    using renumber_pattern [of i ?h j] ij len h [OF ij(1)] h [OF ij(2)] by (auto simp: linked_def split: if_splits)
qed

lemma Canonicalize_eq_iff:
  fixes slots :: "'f slots"
  assumes g: "length g = kShapeScalarCount" "length g' = kShapeScalarCount" "length slots = kShapeScalarCount"
  shows "CanonicalizeSyncGroupsImpl g slots = CanonicalizeSyncGroupsImpl g' slots \<longleftrightarrow>
    (\<forall>i<kShapeScalarCount. \<forall>j<kShapeScalarCount. i \<noteq> j \<longrightarrow> linked slots g i j = linked slots g' i j)"
proof
  assume "CanonicalizeSyncGroupsImpl g slots = CanonicalizeSyncGroupsImpl g' slots"
  then show "\<forall>i<kShapeScalarCount. \<forall>j<kShapeScalarCount. i \<noteq> j \<longrightarrow> linked slots g i j = linked slots g' i j"
    using Canonicalize_linked [OF g(1,3)] Canonicalize_linked [OF g(2,3)] by metis
next
  assume same: "\<forall>i<kShapeScalarCount. \<forall>j<kShapeScalarCount. i \<noteq> j \<longrightarrow> linked slots g i j = linked slots g' i j"
  have pattern: "drop_singletons (zero_inapplicable g slots) ! i = drop_singletons (zero_inapplicable g slots) ! j
      \<longleftrightarrow> i = j \<or> \<not> shared slots g i \<and> \<not> shared slots g j \<or> linked slots g i j"
    if "length g = kShapeScalarCount" "i < kShapeScalarCount" "j < kShapeScalarCount" for g :: "int list" and i j
  proof -
    have k: "drop_singletons (zero_inapplicable g slots) ! k = (if shared slots g k then g ! k else 0)"
      if "k < kShapeScalarCount" for k using kept [of slots g k] that \<open>length g = kShapeScalarCount\<close> g(3) by simp
    have "i \<noteq> j \<Longrightarrow> linked slots g i j \<Longrightarrow> shared slots g i \<and> shared slots g j"
      by (rule shared_linked) (use that in simp_all)
    then show ?thesis
      unfolding k [OF that(2)] k [OF that(3)]
      using linked_shared [of slots g i j] shared_nonzero [of slots g i] shared_nonzero [of slots g j]
      by metis
  qed
  have sh: "shared slots g i \<longleftrightarrow> shared slots g' i" if "i < kShapeScalarCount" for i
    using same that g unfolding shared_def by metis
  have "renumber [] (drop_singletons (zero_inapplicable g slots)) = renumber [] (drop_singletons (zero_inapplicable g' slots))"
  proof (rule renumber_same_pattern)
    show "length (drop_singletons (zero_inapplicable g slots)) = length (drop_singletons (zero_inapplicable g' slots))"
      using g by (simp add: drop_singletons_def zero_inapplicable_length)
    fix i assume "i < length (drop_singletons (zero_inapplicable g slots))"
    then have i: "i < kShapeScalarCount" using g by (simp add: drop_singletons_def zero_inapplicable_length)
    show "drop_singletons (zero_inapplicable g slots) ! i = 0 \<longleftrightarrow> drop_singletons (zero_inapplicable g' slots) ! i = 0"
      using kept [of slots g i] kept [of slots g' i] g i sh [OF i] shared_nonzero [of slots _ i] by simp
    fix j assume "j < length (drop_singletons (zero_inapplicable g slots))"
    then have j: "j < kShapeScalarCount" using g by (simp add: drop_singletons_def zero_inapplicable_length)
    show "drop_singletons (zero_inapplicable g slots) ! i = drop_singletons (zero_inapplicable g slots) ! j \<longleftrightarrow>
        drop_singletons (zero_inapplicable g' slots) ! i = drop_singletons (zero_inapplicable g' slots) ! j"
      unfolding pattern [OF g(1) i j] pattern [OF g(2) i j] sh [OF i] sh [OF j] using same i j by blast
  qed
  then show "CanonicalizeSyncGroupsImpl g slots = CanonicalizeSyncGroupsImpl g' slots"
    by (simp only: Canonicalize_eq [OF g(1,3)] Canonicalize_eq [OF g(2,3)])
qed

lemma Canonicalize_idem:
  assumes "length g = kShapeScalarCount" and "length slots = kShapeScalarCount"
  shows "CanonicalizeSyncGroupsImpl (CanonicalizeSyncGroupsImpl g slots) slots = CanonicalizeSyncGroupsImpl g slots"
  using assms by (subst Canonicalize_eq_iff) (simp_all add: Canonicalize_length Canonicalize_linked)

section \<open>Leaders\<close>

definition leader_of :: "'f slots \<Rightarrow> int list \<Rightarrow> nat \<Rightarrow> nat" where
  "leader_of slots g i = (LEAST k. k = i \<or> k \<noteq> i \<and> linked slots g k i)"

lemma find_leader_filter: "find_leader g slots i ks = (case filter (\<lambda>k. g ! k = g ! i \<and> slots ! k \<noteq> None) ks of [] \<Rightarrow> None | k # _ \<Rightarrow> Some k)"
  by (induction ks) auto

lemma first_upt:
  "filter P [0..<i] = k # ks \<Longrightarrow> k < i \<and> P k \<and> (\<forall>j<k. \<not> P j)"
proof (induction i arbitrary: ks)
  case (Suc i)
  show ?case
  proof (cases "filter P [0..<i]")
    case Nil
    with Suc.prems show ?thesis by (auto simp: filter_empty_conv split: if_splits)
  next
    case (Cons k' ks')
    with Suc.prems Suc.IH [of ks'] show ?thesis by auto
  qed
qed simp

lemma leader_find:
  "leader_of slots g i = (if g ! i = 0 \<or> slots ! i = None then i
     else case find_leader g slots i [0..<i] of None \<Rightarrow> i | Some k \<Rightarrow> k)"
proof (cases "g ! i = 0 \<or> slots ! i = None")
  case True
  then show ?thesis by (auto simp: leader_of_def linked_def intro!: Least_equality)
next
  case False
  let ?P = "\<lambda>k. g ! k = g ! i \<and> slots ! k \<noteq> None"
  have linked: "linked slots g k i \<longleftrightarrow> ?P k" for k using False by (auto simp: linked_def)
  show ?thesis
  proof (cases "filter ?P [0..<i]")
    case Nil
    then have "\<And>k. k < i \<Longrightarrow> \<not> ?P k" by (simp add: filter_empty_conv)
    then have "leader_of slots g i = i"
      unfolding leader_of_def linked by (intro Least_equality) (auto simp: not_less [symmetric])
    with Nil False show ?thesis by (simp add: find_leader_filter)
  next
    case (Cons k ks)
    from first_upt [OF Cons] have k: "k < i" "?P k" "\<forall>j<k. \<not> ?P j" by simp_all
    then have "leader_of slots g i = k"
      unfolding leader_of_def linked by (intro Least_equality) (auto simp: not_less [symmetric])
    then show ?thesis unfolding if_not_P [OF False] find_leader_filter Cons by simp
  qed
qed

lemma find_leader_less: "find_leader g slots i [0..<i] = Some k \<Longrightarrow> k < i"
  by (auto simp: find_leader_filter split: list.splits dest: first_upt)

lemma leader_le: "leader_of slots g i \<le> i"
  unfolding leader_of_def by (rule Least_le) simp

lemma leader_linked: "leader_of slots g i = i \<or> linked slots g (leader_of slots g i) i"
  unfolding leader_of_def by (rule LeastI2 [of _ i]) auto

lemma linked_leader:
  assumes "linked slots g i j"
  shows "leader_of slots g i = leader_of slots g j"
proof -
  have "(\<lambda>k. k = i \<or> k \<noteq> i \<and> linked slots g k i) = (\<lambda>k. k = j \<or> k \<noteq> j \<and> linked slots g k j)"
    using assms by (auto simp: fun_eq_iff linked_def)
  then show ?thesis by (simp only: leader_of_def)
qed

lemma leader_idem: "leader_of slots g (leader_of slots g i) = leader_of slots g i"
  using leader_linked [of slots g i] linked_leader by metis

text \<open>The loop gives every slot the distribution its leader had before.\<close>

lemma normalize_loop:
  assumes "n \<le> length slots"
  shows "length (fold (normalize_slot g) [0..<n] slots) = length slots \<and>
    (\<forall>k<length slots. fold (normalize_slot g) [0..<n] slots ! k = (if k < n then slots ! leader_of slots g k else slots ! k))"
  using assms
proof (induction n)
  case (Suc n)
  define s where "s = fold (normalize_slot g) [0..<n] slots"
  have s: "length s = length slots"
      "\<And>k. k < length slots \<Longrightarrow> s ! k = (if k < n then slots ! leader_of slots g k else slots ! k)"
    using Suc by (simp_all add: s_def)
  have n: "n < length slots" using Suc.prems by simp
  have none: "s ! k = None \<longleftrightarrow> slots ! k = None" if "k < length slots" for k
    using s(2) [OF that] leader_linked [of slots g k] by (auto simp: linked_def)
  have find: "find_leader g s n ks = find_leader g slots n ks" if "set ks \<subseteq> {..<n}" for ks
    using that n none by (induction ks) auto
  from this [of "[0..<n]"] have find: "find_leader g s n [0..<n] = find_leader g slots n [0..<n]"
    by (simp add: lessThan_atLeast0)
  have step: "normalize_slot g n s = s[n := slots ! leader_of slots g n]"
  proof (cases "g ! n = 0 \<or> slots ! n = None")
    case True
    then have "normalize_slot g n s = s" "leader_of slots g n = n"
      using none [OF n] by (auto simp: normalize_slot_def leader_find)
    then show ?thesis using s(2) [OF n] by (metis less_irrefl list_update_id)
  next
    case False
    show ?thesis
    proof (cases "find_leader g slots n [0..<n]")
      case None
      then have "normalize_slot g n s = s" "leader_of slots g n = n"
        using False none [OF n] find by (auto simp: normalize_slot_def leader_find)
      then show ?thesis using s(2) [OF n] by (metis less_irrefl list_update_id)
    next
      case (Some k)
      then have k: "leader_of slots g n = k" unfolding leader_find if_not_P [OF False] by simp
      have "k < n" by (rule find_leader_less [OF Some])
      moreover have "leader_of slots g k = k" using leader_idem [of slots g n] k by simp
      ultimately have "s ! k = slots ! k" using s(2) [of k] n by simp
      then show ?thesis using False Some none [OF n] find k by (auto simp: normalize_slot_def)
    qed
  qed
  then show ?case using s n by (simp add: s_def [symmetric] nth_list_update less_Suc_eq)
qed simp

lemma Normalize_nth:
  assumes "length slots = kShapeScalarCount" and "i < kShapeScalarCount"
  shows "NormalizeSyncGroupsImpl g slots ! i = slots ! leader_of slots g i"
  using normalize_loop [of kShapeScalarCount slots g] assms by (simp add: NormalizeSyncGroupsImpl_def)

lemma Normalize_length: "length slots = kShapeScalarCount \<Longrightarrow> length (NormalizeSyncGroupsImpl g slots) = kShapeScalarCount"
  using normalize_loop [of kShapeScalarCount slots g] by (simp add: NormalizeSyncGroupsImpl_def)

lemma Normalize_Canonicalize:
  assumes g: "length g = kShapeScalarCount" "length slots = kShapeScalarCount"
  shows "NormalizeSyncGroupsImpl (CanonicalizeSyncGroupsImpl g slots) slots = NormalizeSyncGroupsImpl g slots"
proof (rule nth_equalityI)
  fix i assume "i < length (NormalizeSyncGroupsImpl (CanonicalizeSyncGroupsImpl g slots) slots)"
  then have i: "i < kShapeScalarCount" using g by (simp add: Normalize_length)
  have "leader_of slots (CanonicalizeSyncGroupsImpl g slots) i = leader_of slots g i"
  proof (rule antisym)
    have le: "leader_of slots a i \<le> leader_of slots b i"
      if "\<And>k. k < i \<Longrightarrow> linked slots b k i \<Longrightarrow> linked slots a k i" for a b :: "int list"
      unfolding leader_of_def [of slots a]
      using leader_linked [of slots b i] leader_le [of slots b i] that [of "leader_of slots b i"]
      by (intro Least_le) auto
    show "leader_of slots (CanonicalizeSyncGroupsImpl g slots) i \<le> leader_of slots g i"
      by (rule le) (use Canonicalize_linked [OF g _ i] i in auto)
    show "leader_of slots g i \<le> leader_of slots (CanonicalizeSyncGroupsImpl g slots) i"
      by (rule le) (use Canonicalize_linked [OF g _ i] i in auto)
  qed
  then show "NormalizeSyncGroupsImpl (CanonicalizeSyncGroupsImpl g slots) slots ! i = NormalizeSyncGroupsImpl g slots ! i"
    using Normalize_nth [OF g(2) i] by simp
qed (use g in \<open>simp add: Normalize_length\<close>)

text \<open>Two group vectors say the same: they link the same slots.\<close>

definition same_partition :: "'f slots \<Rightarrow> int list \<Rightarrow> int list \<Rightarrow> bool" where
  "same_partition slots g g' \<longleftrightarrow>
     (\<forall>i<kShapeScalarCount. \<forall>j<kShapeScalarCount. i \<noteq> j \<longrightarrow> linked slots g i j = linked slots g' i j)"

end
