(* ===== verification/Shape_Symmetry.thy ===== *)
theory Shape_Symmetry
  imports Sync_Groups Symmetry_Gating
begin

text \<open>
  The symmetry of a crystal ensemble (\<open>DeriveGeometricSymmetry\<close> and its helpers in
  \<open>src/core/crystal.cpp\<close>): which rotations and mirrors of the six faces leave the joint distribution of
  the shape scalars unchanged, and whether the basal mirror does.

  The doubles of the tolerance test are a second type parameter with their operations in a record.  A slot
  permutation is the list of its ten images.  The result is characterised through an abstract notion of
  invariance of a slot map, which is closed under composition.
\<close>

section \<open>The code\<close>

record ('f, 'd) double_ops =
  db_of_float :: "'f \<Rightarrow> 'd"
  db_abs :: "'d \<Rightarrow> 'd"
  db_sub :: "'d \<Rightarrow> 'd \<Rightarrow> 'd"
  db_mul :: "'d \<Rightarrow> 'd \<Rightarrow> 'd"
  db_max :: "'d \<Rightarrow> 'd \<Rightarrow> 'd"
  db_le :: "'d \<Rightarrow> 'd \<Rightarrow> bool"
  db_gap_coefficient :: 'd
  db_fle :: "'f \<Rightarrow> 'f \<Rightarrow> bool"

definition SameShapeScalar :: "('f, 'z) float_ops_scheme \<Rightarrow> ('f, 'd) double_ops \<Rightarrow> 'f \<Rightarrow> 'f \<Rightarrow> bool" where
  "SameShapeScalar fl db a b =
     (let da = db_of_float db a; dbl = db_of_float db b;
          scale = db_max db (db_abs db da) (db_abs db dbl)
      in db_le db (db_abs db (db_sub db da dbl))
           (db_mul db (db_mul db (db_gap_coefficient db) (db_of_float db (fl_eps fl))) scale))"

definition SameDraw :: "('f, 'z) float_ops_scheme \<Rightarrow> ('f, 'd) double_ops \<Rightarrow> 'f Distribution \<Rightarrow> 'f Distribution \<Rightarrow> bool" where
  "SameDraw fl db a b =
     (if dist_type a \<noteq> dist_type b then False
      else if dist_type a = kNoRandom then SameShapeScalar fl db (dist_center a) (dist_center b)
      else SameShapeScalar fl db (dist_center a) (dist_center b) \<and> SameShapeScalar fl db (dist_spread a) (dist_spread b))"

record 'f ShapeScalarDraw =
  sd_present :: bool
  sd_dist :: "'f Distribution"
  sd_token :: int

record 'f ShapeScalarDraws =
  ds_slot :: "'f ShapeScalarDraw list"
  ds_cls :: "nat list"
  ds_any_shared :: bool

definition IsRandomDraw :: "'f ShapeScalarDraw \<Rightarrow> bool" where
  "IsRandomDraw d \<longleftrightarrow> sd_present d \<and> dist_type (sd_dist d) \<noteq> kNoRandom"

text \<open>The draw of slot \<open>i\<close>: the first loop writes entry \<open>i\<close> only and reads the arguments only.\<close>

definition resolve_slot :: "('f, 'z) float_ops_scheme \<Rightarrow> 'f slots \<Rightarrow> int list \<Rightarrow> nat \<Rightarrow> 'f ShapeScalarDraw" where
  "resolve_slot fl slots sync_group i =
     (case slots ! i of
        None \<Rightarrow> \<lparr> sd_present = False,
            sd_dist = \<lparr> dist_type = kNoRandom, dist_center = fl_of_int fl 0, dist_spread = fl_of_int fl 0 \<rparr>, sd_token = - 1 \<rparr>
      | Some d \<Rightarrow>
          (if sync_group ! i = 0 then \<lparr> sd_present = True, sd_dist = d, sd_token = int i \<rparr>
           else case find_leader sync_group slots i [0..<i] of
                  None \<Rightarrow> \<lparr> sd_present = True, sd_dist = d, sd_token = int i \<rparr>
                | Some k \<Rightarrow> \<lparr> sd_present = True, sd_dist = the (slots ! k), sd_token = int k \<rparr>))"

text \<open>The class loops: \<open>first_same\<close> is the inner loop up to its break.\<close>

fun first_same ::
  "('f, 'z) float_ops_scheme \<Rightarrow> ('f, 'd) double_ops \<Rightarrow> 'f ShapeScalarDraw list \<Rightarrow> nat \<Rightarrow> nat list \<Rightarrow> nat list \<Rightarrow> nat list"
where
  "first_same fl db slot i [] cls = cls"
| "first_same fl db slot i (k # ks) cls =
     (if sd_present (slot ! k) \<and> sd_present (slot ! i) \<and> SameDraw fl db (sd_dist (slot ! k)) (sd_dist (slot ! i))
      then cls[i := cls ! k] else first_same fl db slot i ks cls)"

definition ResolveShapeScalarDraws ::
  "('f, 'z) float_ops_scheme \<Rightarrow> ('f, 'd) double_ops \<Rightarrow> 'f slots \<Rightarrow> int list \<Rightarrow> 'f ShapeScalarDraws"
where
  "ResolveShapeScalarDraws fl db slots sync_group =
     (let slot = map (resolve_slot fl slots sync_group) [0..<kShapeScalarCount];
          any_shared = list_ex (\<lambda>i. IsRandomDraw (slot ! i) \<and> sd_token (slot ! i) \<noteq> int i) [0..<kShapeScalarCount];
          cls = fold (\<lambda>i. first_same fl db slot i [kShapeScalarFace0..<i]) [kShapeScalarFace0 + 1..<kShapeScalarCount]
            [0..<kShapeScalarCount];
          up = slot ! kShapeScalarUpperH;
          lo = slot ! kShapeScalarLowerH;
          cls = (if sd_present up \<and> sd_present lo \<and> SameDraw fl db (sd_dist up) (sd_dist lo)
            then cls[kShapeScalarLowerH := cls ! kShapeScalarUpperH] else cls)
      in \<lparr> ds_slot = slot, ds_cls = cls, ds_any_shared = any_shared \<rparr>)"

definition InvariantUnder :: "'f ShapeScalarDraws \<Rightarrow> nat list \<Rightarrow> bool" where
  "InvariantUnder draws perm =
     (if \<not> list_all (\<lambda>s. let t = perm ! s in t = s \<or>
            \<not> (sd_present (ds_slot draws ! s) \<noteq> sd_present (ds_slot draws ! t) \<or>
               sd_present (ds_slot draws ! s) \<and> ds_cls draws ! s \<noteq> ds_cls draws ! t)) [0..<kShapeScalarCount] then False
      else if \<not> ds_any_shared draws then True
      else list_all (\<lambda>s. \<not> IsRandomDraw (ds_slot draws ! s) \<or>
             list_all (\<lambda>t. \<not> IsRandomDraw (ds_slot draws ! t) \<or>
               (let shared = (sd_token (ds_slot draws ! s) = sd_token (ds_slot draws ! t));
                    shared_image = (sd_token (ds_slot draws ! (perm ! s)) = sd_token (ds_slot draws ! (perm ! t)))
                in shared = shared_image)) [s + 1..<kShapeScalarCount]) [0..<kShapeScalarCount])"

definition FacePerm :: "(int \<Rightarrow> int) \<Rightarrow> nat list" where
  "FacePerm face_map =
     fold (\<lambda>i perm. perm[kShapeScalarFace0 + i := kShapeScalarFace0 + nat (face_map (int i))]) [0..<6]
       [0..<kShapeScalarCount]"

definition DeriveFaceSymmetry :: "'f ShapeScalarDraws \<Rightarrow> GeometricSymmetry \<Rightarrow> GeometricSymmetry" where
  "DeriveFaceSymmetry draws out =
     (let one_face_class =
            list_all (\<lambda>c. c = ds_cls draws ! kShapeScalarFace0) (drop kShapeScalarFace0 (ds_cls draws)) \<and>
            list_all sd_present (drop kShapeScalarFace0 (ds_slot draws))
      in if one_face_class \<and> \<not> ds_any_shared draws
         then out\<lparr> gs_p_step := gs_p_step kFullHexagonalSymmetry,
                   gs_d_valid_sigma_mask := gs_d_valid_sigma_mask kFullHexagonalSymmetry \<rparr>
         else
           let p_step = (case find (\<lambda>k. InvariantUnder draws (FacePerm (\<lambda>i. crem (i + k) kHexagonalFnPeriod))) [1, 2, 3] of
                  None \<Rightarrow> kHexagonalFnPeriod | Some k \<Rightarrow> k);
               mask = fold (\<lambda>a mask. if InvariantUnder draws (FacePerm (\<lambda>i. MirrorFaceIndex i (int a) kHexagonalFnPeriod))
                  then mask OR push_bit a 1 else mask) [0..<6] 0
           in out\<lparr> gs_p_step := p_step, gs_d_valid_sigma_mask := mask \<rparr>)"

definition default_symmetry :: GeometricSymmetry where
  "default_symmetry = \<lparr> gs_p_step = kHexagonalFnPeriod, gs_d_valid_sigma_mask = 0, gs_b_applicable = False \<rparr>"

definition DeriveGeometricSymmetry_prism ::
  "('f, 'z) float_ops_scheme \<Rightarrow> ('f, 'd) double_ops \<Rightarrow> 'f PrismCrystalParam \<Rightarrow> GeometricSymmetry" where
  "DeriveGeometricSymmetry_prism fl db param =
     (let draws = ResolveShapeScalarDraws fl db (GetShapeScalarSlots_prism param) (pr_sync_group param);
          g = DeriveFaceSymmetry draws default_symmetry
      in g\<lparr> gs_b_applicable := True \<rparr>)"

definition certainly_flat :: "('f, 'z) float_ops_scheme \<Rightarrow> ('f, 'd) double_ops \<Rightarrow> 'f Distribution \<Rightarrow> bool" where
  "certainly_flat fl db d \<longleftrightarrow> dist_type d = kNoRandom \<and> db_fle db (fl_abs fl (dist_center d)) (fl_eps fl)"

definition DeriveGeometricSymmetry_pyramid ::
  "('f, 'z) float_ops_scheme \<Rightarrow> ('f, 'd) double_ops \<Rightarrow> 'f PyramidCrystalParam \<Rightarrow> GeometricSymmetry" where
  "DeriveGeometricSymmetry_pyramid fl db param =
     (let draws = ResolveShapeScalarDraws fl db (GetShapeScalarSlots_pyramid param) (py_sync_group param);
          g = DeriveFaceSymmetry draws default_symmetry;
          swap = [0..<kShapeScalarCount][kShapeScalarUpperH := kShapeScalarLowerH, kShapeScalarLowerH := kShapeScalarUpperH];
          no_cones = certainly_flat fl db (sd_dist (ds_slot draws ! kShapeScalarUpperH)) \<and>
            certainly_flat fl db (sd_dist (ds_slot draws ! kShapeScalarLowerH))
      in g\<lparr> gs_b_applicable := InvariantUnder draws swap \<and>
             (no_cones \<or> SameShapeScalar fl db (py_wedge_angle_u param) (py_wedge_angle_l param)) \<rparr>)"

section \<open>Invariance of a slot map\<close>

text \<open>The joint distribution is unchanged: each slot goes to one with the same distribution, and random slots share
  a draw exactly when their images do.\<close>

definition matched :: "'f ShapeScalarDraws \<Rightarrow> nat \<Rightarrow> nat \<Rightarrow> bool" where
  "matched d s t \<longleftrightarrow> sd_present (ds_slot d ! s) = sd_present (ds_slot d ! t) \<and>
     (s = t \<or> \<not> sd_present (ds_slot d ! s) \<or> ds_cls d ! s = ds_cls d ! t)"

definition random_slot :: "'f ShapeScalarDraws \<Rightarrow> nat \<Rightarrow> bool" where
  "random_slot d s \<longleftrightarrow> IsRandomDraw (ds_slot d ! s)"

definition same_token :: "'f ShapeScalarDraws \<Rightarrow> nat \<Rightarrow> nat \<Rightarrow> bool" where
  "same_token d s t \<longleftrightarrow> sd_token (ds_slot d ! s) = sd_token (ds_slot d ! t)"

definition invariant :: "'f ShapeScalarDraws \<Rightarrow> (nat \<Rightarrow> nat) \<Rightarrow> bool" where
  "invariant d f \<longleftrightarrow> (\<forall>s<kShapeScalarCount. matched d s (f s)) \<and>
     (ds_any_shared d \<longrightarrow> (\<forall>s<kShapeScalarCount. \<forall>t<kShapeScalarCount.
        random_slot d s \<longrightarrow> random_slot d t \<longrightarrow> same_token d s t = same_token d (f s) (f t)))"

definition classes_ok :: "'f ShapeScalarDraws \<Rightarrow> bool" where
  "classes_ok d \<longleftrightarrow> length (ds_slot d) = kShapeScalarCount \<and> length (ds_cls d) = kShapeScalarCount \<and>
     (\<forall>s<kShapeScalarCount. \<forall>t<kShapeScalarCount. ds_cls d ! s = ds_cls d ! t \<longrightarrow>
        dist_type (sd_dist (ds_slot d ! s)) = dist_type (sd_dist (ds_slot d ! t)))"

lemma matched_refl: "matched d s s"
  by (simp add: matched_def)

lemma matched_trans: "matched d s t \<Longrightarrow> matched d t u \<Longrightarrow> matched d s u"
  by (auto simp: matched_def)

lemma matched_random:
  "classes_ok d \<Longrightarrow> s < kShapeScalarCount \<Longrightarrow> t < kShapeScalarCount \<Longrightarrow> matched d s t \<Longrightarrow> random_slot d s = random_slot d t"
  unfolding matched_def random_slot_def IsRandomDraw_def classes_ok_def by metis

lemma invariant_comp:
  assumes ok: "classes_ok d" and f: "invariant d f" and g: "invariant d g"
    and range: "\<And>s. s < kShapeScalarCount \<Longrightarrow> f s < kShapeScalarCount"
  shows "invariant d (\<lambda>s. g (f s))"
  unfolding invariant_def
proof (intro conjI impI allI)
  fix s assume s: "s < kShapeScalarCount"
  show "matched d s (g (f s))"
    using f g s range [OF s] by (auto simp: invariant_def intro: matched_trans)
next
  fix s t
  assume sh: "ds_any_shared d" and s: "s < kShapeScalarCount" "random_slot d s" and t: "t < kShapeScalarCount" "random_slot d t"
  have "random_slot d (f s)" "random_slot d (f t)"
    using f s t matched_random [OF ok s(1) range [OF s(1)]] matched_random [OF ok t(1) range [OF t(1)]]
    by (auto simp: invariant_def)
  then have "same_token d (f s) (f t) = same_token d (g (f s)) (g (f t))"
    using g sh range [OF s(1)] range [OF t(1)] unfolding invariant_def by blast
  moreover have "same_token d s t = same_token d (f s) (f t)" using f sh s t unfolding invariant_def by blast
  ultimately show "same_token d s t = same_token d (g (f s)) (g (f t))" by simp
qed

lemma invariant_cong: "(\<And>s. s < kShapeScalarCount \<Longrightarrow> f s = g s) \<Longrightarrow> invariant d f = invariant d g"
  by (simp add: invariant_def)

lemma invariant_id: "invariant d (\<lambda>s. s)"
  by (simp add: invariant_def matched_refl)

lemma InvariantUnder_iff:
  "InvariantUnder d perm \<longleftrightarrow> invariant d (\<lambda>s. perm ! s)"
proof -
  have one: "(let t = perm ! s in t = s \<or>
            \<not> (sd_present (ds_slot d ! s) \<noteq> sd_present (ds_slot d ! t) \<or>
               sd_present (ds_slot d ! s) \<and> ds_cls d ! s \<noteq> ds_cls d ! t)) \<longleftrightarrow> matched d s (perm ! s)" for s
    by (cases "perm ! s = s") (auto simp: matched_def Let_def)
  have match: "list_all (\<lambda>s. let t = perm ! s in t = s \<or>
            \<not> (sd_present (ds_slot d ! s) \<noteq> sd_present (ds_slot d ! t) \<or>
               sd_present (ds_slot d ! s) \<and> ds_cls d ! s \<noteq> ds_cls d ! t)) [0..<kShapeScalarCount]
      \<longleftrightarrow> (\<forall>s<kShapeScalarCount. matched d s (perm ! s))"
    unfolding one by (auto simp: list_all_iff)
  define P where "P s t \<longleftrightarrow> (random_slot d s \<longrightarrow> random_slot d t \<longrightarrow> same_token d s t = same_token d (perm ! s) (perm ! t))" for s t
  have sym: "P s t = P t s" and refl: "P s s" for s t by (auto simp: P_def same_token_def)
  have "list_all (\<lambda>s. \<not> IsRandomDraw (ds_slot d ! s) \<or>
             list_all (\<lambda>t. \<not> IsRandomDraw (ds_slot d ! t) \<or>
               (let shared = (sd_token (ds_slot d ! s) = sd_token (ds_slot d ! t));
                    shared_image = (sd_token (ds_slot d ! (perm ! s)) = sd_token (ds_slot d ! (perm ! t)))
                in shared = shared_image)) [s + 1..<kShapeScalarCount]) [0..<kShapeScalarCount]
      \<longleftrightarrow> (\<forall>s<kShapeScalarCount. \<forall>t<kShapeScalarCount. s < t \<longrightarrow> P s t)"
    by (auto simp: list_all_iff P_def random_slot_def same_token_def Let_def)
  also have "\<dots> \<longleftrightarrow> (\<forall>s<kShapeScalarCount. \<forall>t<kShapeScalarCount. P s t)"
  proof (intro iffI allI impI)
    fix s t assume all: "\<forall>s<kShapeScalarCount. \<forall>t<kShapeScalarCount. s < t \<longrightarrow> P s t"
      and st: "s < kShapeScalarCount" "t < kShapeScalarCount"
    consider "s < t" | "s = t" | "t < s" by linarith
    then show "P s t" by cases (use all st refl sym [of s t] in auto)
  qed blast
  finally show ?thesis unfolding InvariantUnder_def match invariant_def P_def by auto
qed

section \<open>Rotations and mirrors of the faces\<close>

definition rot_slot :: "nat \<Rightarrow> nat \<Rightarrow> nat" where
  "rot_slot k s = (if s < 4 then s else 4 + (s - 4 + k) mod 6)"

definition mir_slot :: "nat \<Rightarrow> nat \<Rightarrow> nat" where
  "mir_slot a s = (if s < 4 then s else 4 + (a + 10 - s) mod 6)"

lemma face_slot_less: "4 + m mod 6 < kShapeScalarCount" for m :: nat
  unfolding kShapeScalarCount_def by presburger

lemma rot_slot_less: "s < kShapeScalarCount \<Longrightarrow> rot_slot k s < kShapeScalarCount"
  unfolding rot_slot_def using face_slot_less by presburger

lemma mir_slot_less: "s < kShapeScalarCount \<Longrightarrow> mir_slot a s < kShapeScalarCount"
  unfolding mir_slot_def using face_slot_less by presburger

lemma rot_rot: "rot_slot l (rot_slot k s) = rot_slot ((k + l) mod 6) s"
proof (cases "s < 4")
  case False
  have "((s - 4 + k) mod 6 + l) mod 6 = (s - 4 + (k + l) mod 6) mod 6" by presburger
  then show ?thesis using False unfolding rot_slot_def by (simp only: if_False not_add_less1 diff_add_inverse)
qed (simp add: rot_slot_def)

lemma slot_perms:
  "list_all (\<lambda>k. FacePerm (\<lambda>i. crem (i + int k) kHexagonalFnPeriod) = map (rot_slot k) [0..<10]) [0, 1, 2, 3, 4, 5]"
  "list_all (\<lambda>a. FacePerm (\<lambda>i. MirrorFaceIndex i (int a) kHexagonalFnPeriod) = map (mir_slot a) [0..<10]) [0, 1, 2, 3, 4, 5]"
  by code_simp+

lemma slot_compositions:
  "list_all (\<lambda>a. list_all (\<lambda>k. list_all (\<lambda>s. rot_slot k (mir_slot a s) = mir_slot ((a + k) mod 6) s)
     [0..<10]) [0..<6]) [0..<6]"
  "list_all (\<lambda>a. list_all (\<lambda>b. list_all (\<lambda>s. mir_slot b (mir_slot a s) = rot_slot ((b + 6 - a) mod 6) s)
     [0..<10]) [0..<6]) [0..<6]"
  by code_simp+

lemma list_all3_less:
  "list_all (\<lambda>a. list_all (\<lambda>b. list_all (P a b) [0..<n]) [0..<m]) [0..<l] \<Longrightarrow> a < l \<Longrightarrow> b < m \<Longrightarrow> c < n \<Longrightarrow> P a b c"
  by (simp add: list_all_iff)

lemma rot_mir: "a < 6 \<Longrightarrow> k < 6 \<Longrightarrow> s < 10 \<Longrightarrow> rot_slot k (mir_slot a s) = mir_slot ((a + k) mod 6) s"
  by (rule list_all3_less [where P = "\<lambda>a k s. rot_slot k (mir_slot a s) = mir_slot ((a + k) mod 6) s",
        OF slot_compositions(1)])

lemma mir_mir: "a < 6 \<Longrightarrow> b < 6 \<Longrightarrow> s < 10 \<Longrightarrow> mir_slot b (mir_slot a s) = rot_slot ((b + 6 - a) mod 6) s"
  by (rule list_all3_less [where P = "\<lambda>a b s. mir_slot b (mir_slot a s) = rot_slot ((b + 6 - a) mod 6) s",
        OF slot_compositions(2)])

lemma less6: "k < 6 \<longleftrightarrow> k \<in> set [0, 1, 2, 3, 4, 5 :: nat]"
  by auto

abbreviation rot_ok :: "'f ShapeScalarDraws \<Rightarrow> nat \<Rightarrow> bool" where
  "rot_ok d k \<equiv> invariant d (rot_slot k)"

abbreviation mir_ok :: "'f ShapeScalarDraws \<Rightarrow> nat \<Rightarrow> bool" where
  "mir_ok d a \<equiv> invariant d (mir_slot a)"

lemma InvariantUnder_rot: "k < 6 \<Longrightarrow> InvariantUnder d (FacePerm (\<lambda>i. crem (i + int k) kHexagonalFnPeriod)) = rot_ok d k"
proof -
  assume "k < 6"
  then have "FacePerm (\<lambda>i. crem (i + int k) kHexagonalFnPeriod) = map (rot_slot k) [0..<10]"
    using slot_perms(1) unfolding list_all_iff less6 by blast
  then show ?thesis unfolding InvariantUnder_iff by (auto intro!: invariant_cong simp: kShapeScalarCount_def)
qed

lemma InvariantUnder_mir: "a < 6 \<Longrightarrow> InvariantUnder d (FacePerm (\<lambda>i. MirrorFaceIndex i (int a) kHexagonalFnPeriod)) = mir_ok d a"
proof -
  assume "a < 6"
  then have "FacePerm (\<lambda>i. MirrorFaceIndex i (int a) kHexagonalFnPeriod) = map (mir_slot a) [0..<10]"
    using slot_perms(2) unfolding list_all_iff less6 by blast
  then show ?thesis unfolding InvariantUnder_iff by (auto intro!: invariant_cong simp: kShapeScalarCount_def)
qed

lemma rot_ok_add: "classes_ok d \<Longrightarrow> rot_ok d k \<Longrightarrow> rot_ok d l \<Longrightarrow> rot_ok d ((k + l) mod 6)"
  using invariant_comp [of d "rot_slot k" "rot_slot l"] rot_slot_less by (simp add: rot_rot)

lemma mir_ok_add:
  assumes "classes_ok d" and "mir_ok d a" and "rot_ok d k" and "a < 6" and "k < 6"
  shows "mir_ok d ((a + k) mod 6)"
proof -
  have "invariant d (\<lambda>s. rot_slot k (mir_slot a s))"
    by (rule invariant_comp [OF assms(1,2,3)]) (rule mir_slot_less)
  then show ?thesis
  proof (rule iffD1 [OF invariant_cong, rotated])
    show "rot_slot k (mir_slot a s) = mir_slot ((a + k) mod 6) s" if "s < kShapeScalarCount" for s
      by (rule rot_mir [OF assms(4,5) that [unfolded kShapeScalarCount_def]])
  qed
qed

lemma mir_ok_diff:
  assumes "classes_ok d" and "mir_ok d a" and "mir_ok d b" and "a < 6" and "b < 6"
  shows "rot_ok d ((b + 6 - a) mod 6)"
proof -
  have "invariant d (\<lambda>s. mir_slot b (mir_slot a s))"
    by (rule invariant_comp [OF assms(1,2,3)]) (rule mir_slot_less)
  then show ?thesis
  proof (rule iffD1 [OF invariant_cong, rotated])
    show "mir_slot b (mir_slot a s) = rot_slot ((b + 6 - a) mod 6) s" if "s < kShapeScalarCount" for s
      by (rule mir_mir [OF assms(4,5) that [unfolded kShapeScalarCount_def]])
  qed
qed

text \<open>The retained rotations are the multiples of the first step that works.\<close>

definition first_step :: "'f ShapeScalarDraws \<Rightarrow> nat" where
  "first_step d = (if rot_ok d 1 then 1 else if rot_ok d 2 then 2 else if rot_ok d 3 then 3 else 6)"

lemma z6_subgroup:
  fixes R :: "nat \<Rightarrow> bool"
  assumes R0: "R 0" and add: "\<And>i j m. R i \<Longrightarrow> R j \<Longrightarrow> m = (i + j) mod 6 \<Longrightarrow> R m" and k: "k < 6"
  shows "R k \<longleftrightarrow> (if R 1 then 1 else if R 2 then 2 else if R 3 then 3 else 6) dvd k"
proof -
  have r2: "R 4" if "R 2" by (rule add [OF that that]) simp
  have r4: "R 2" if "R 4" by (rule add [OF that that]) simp
  have r43: "R 1" if "R 4" and "R 3" by (rule add [OF that]) simp
  have one: "R 2" if "R 1" by (rule add [OF that that]) simp
  have three: "R 3" if "R 1" by (rule add [OF that one [OF that]]) simp
  have five: "R 5" if "R 1" by (rule add [OF one [OF that] three [OF that]]) simp
  have r5: "R 1" if "R 5"
  proof -
    have four: "R 4" by (rule add [OF that that]) simp
    have "R 3" by (rule add [OF that four]) simp
    with four show ?thesis by (rule r43)
  qed
  consider "k = 0" | "k = 1" | "k = 2" | "k = 3" | "k = 4" | "k = 5" using k by linarith
  then show ?thesis
    by cases (simp_all del: One_nat_def, insert R0 r2 r4 r43 one three five r5, blast+)
qed

lemma rot_ok_iff:
  assumes ok: "classes_ok d" and k: "k < 6"
  shows "rot_ok d k \<longleftrightarrow> first_step d dvd k"
  unfolding first_step_def
proof (rule z6_subgroup [OF _ _ k])
  show "rot_ok d 0"
    using invariant_id [of d] by (rule iffD1 [OF invariant_cong, rotated]) (auto simp: rot_slot_def kShapeScalarCount_def)
  show "rot_ok d m" if "rot_ok d i" and "rot_ok d j" and "m = (i + j) mod 6" for i j m
    using rot_ok_add [OF ok that(1,2)] that(3) by simp
qed

section \<open>The classes of the resolved draws\<close>

text \<open>Each class number is a slot with the same kind of distribution.\<close>

definition class_typed :: "'f ShapeScalarDraw list \<Rightarrow> nat list \<Rightarrow> bool" where
  "class_typed slot cls \<longleftrightarrow> length cls = kShapeScalarCount \<and>
     (\<forall>s<kShapeScalarCount. dist_type (sd_dist (slot ! (cls ! s))) = dist_type (sd_dist (slot ! s)))"

lemma class_typed_update:
  assumes "class_typed slot cls" and "k < kShapeScalarCount"
    and "dist_type (sd_dist (slot ! k)) = dist_type (sd_dist (slot ! i))"
  shows "class_typed slot (cls[i := cls ! k])"
  unfolding class_typed_def
proof (intro conjI allI impI)
  show "dist_type (sd_dist (slot ! (cls[i := cls ! k] ! s))) = dist_type (sd_dist (slot ! s))"
    if "s < kShapeScalarCount" for s
    using assms that by (cases "s = i") (simp_all add: class_typed_def)
qed (use assms(1) in \<open>simp add: class_typed_def\<close>)

lemma SameDraw_type: "SameDraw fl db a b \<Longrightarrow> dist_type a = dist_type b"
  by (auto simp: SameDraw_def split: if_splits)

lemma first_same_typed:
  "class_typed slot cls \<Longrightarrow> (\<And>k. k \<in> set ks \<Longrightarrow> k < kShapeScalarCount) \<Longrightarrow> class_typed slot (first_same fl db slot i ks cls)"
  by (induction ks) (auto intro!: class_typed_update dest: SameDraw_type)

lemma fold_first_same_typed:
  "class_typed slot cls \<Longrightarrow> (\<And>i. i \<in> set is \<Longrightarrow> i \<le> kShapeScalarCount) \<Longrightarrow>
    class_typed slot (fold (\<lambda>i. first_same fl db slot i [m..<i]) is cls)"
proof (induction "is" arbitrary: cls)
  case (Cons i "is")
  have "class_typed slot (first_same fl db slot i [m..<i] cls)"
    by (rule first_same_typed [OF Cons.prems(1)]) (use Cons.prems(2) [of i] in auto)
  then show ?case using Cons.IH Cons.prems(2) by simp
qed simp

lemma ResolveShapeScalarDraws_classes: "classes_ok (ResolveShapeScalarDraws fl db slots sync_group)"
proof -
  define slot where "slot = map (resolve_slot fl slots sync_group) [0..<kShapeScalarCount]"
  define cls where "cls = fold (\<lambda>i. first_same fl db slot i [kShapeScalarFace0..<i]) [kShapeScalarFace0 + 1..<kShapeScalarCount]
            [0..<kShapeScalarCount]"
  define cls' where "cls' = (if sd_present (slot ! kShapeScalarUpperH) \<and> sd_present (slot ! kShapeScalarLowerH) \<and>
        SameDraw fl db (sd_dist (slot ! kShapeScalarUpperH)) (sd_dist (slot ! kShapeScalarLowerH))
      then cls[kShapeScalarLowerH := cls ! kShapeScalarUpperH] else cls)"
  have draws: "ds_slot (ResolveShapeScalarDraws fl db slots sync_group) = slot"
    "ds_cls (ResolveShapeScalarDraws fl db slots sync_group) = cls'"
    by (simp_all add: ResolveShapeScalarDraws_def slot_def cls_def cls'_def Let_def)
  have "class_typed slot cls"
    unfolding cls_def by (rule fold_first_same_typed) (auto simp: class_typed_def)
  then have "class_typed slot cls'"
    unfolding cls'_def
    by (auto intro!: class_typed_update dest: SameDraw_type simp: kShapeScalarUpperH_def kShapeScalarCount_def)
  then show ?thesis
    unfolding classes_ok_def draws class_typed_def by (metis length_map slot_def length_upt diff_zero)
qed

section \<open>The derived symmetry is exact\<close>

lemma mask_bits:
  fixes mask :: u8
  assumes "n \<le> 8" and "a < 8"
  shows "bit (fold (\<lambda>a mask. if P a then mask OR push_bit a 1 else mask) [0..<n] mask) a \<longleftrightarrow> bit mask a \<or> a < n \<and> P a"
  using assms(1)
proof (induction n)
  case (Suc n)
  let ?m = "fold (\<lambda>a mask. if P a then mask OR push_bit a 1 else mask) [0..<n] mask"
  have "bit (?m OR push_bit n 1) a \<longleftrightarrow> bit ?m a \<or> a = n"
    using assms(2) by (auto simp: bit_or_iff bit_exp_iff)
  moreover have "bit ?m a \<longleftrightarrow> bit mask a \<or> a < n \<and> P a" using Suc by simp
  ultimately show ?case by (auto simp: less_Suc_eq)
qed simp

definition exact_symmetry :: "'f ShapeScalarDraws \<Rightarrow> GeometricSymmetry \<Rightarrow> bool" where
  "exact_symmetry d g \<longleftrightarrow> gs_p_step g \<in> set subgroup_steps \<and>
     (\<forall>k<6. rot_ok d k \<longleftrightarrow> gs_p_step g dvd int k) \<and> (\<forall>a<6. AllowsMirror g (int a) \<longleftrightarrow> mir_ok d a)"

lemma first_step_steps: "int (first_step d) \<in> set subgroup_steps"
  by (simp add: first_step_def subgroup_steps_def)

lemma int_first_step_dvd: "int (first_step d) dvd int k \<longleftrightarrow> first_step d dvd k"
  by simp

lemma AllowsMirror_bit: "a < 6 \<Longrightarrow> AllowsMirror g (int a) \<longleftrightarrow> bit (gs_d_valid_sigma_mask g) a"
  by (simp add: AllowsMirror_def kHexagonalFnPeriod_def and_one_eq bit_iff_odd_drop_bit odd_iff_mod_2_eq_one)

lemma list_all_drop: "list_all P (drop n xs) \<Longrightarrow> n \<le> u \<Longrightarrow> u < length xs \<Longrightarrow> P (xs ! u)"
  using nth_mem [of "u - n" "drop n xs"] by (simp add: list_all_iff)

lemma matched_one_class:
  assumes len: "length (ds_cls d) = kShapeScalarCount" "length (ds_slot d) = kShapeScalarCount"
    and cls: "list_all (\<lambda>c. c = ds_cls d ! kShapeScalarFace0) (drop kShapeScalarFace0 (ds_cls d))"
    and present: "list_all sd_present (drop kShapeScalarFace0 (ds_slot d))"
    and st: "kShapeScalarFace0 \<le> s" "s < kShapeScalarCount" "kShapeScalarFace0 \<le> t" "t < kShapeScalarCount"
  shows "matched d s t"
  using list_all_drop [OF cls st(1)] list_all_drop [OF cls st(3)] list_all_drop [OF present st(1)]
    list_all_drop [OF present st(3)] st len by (simp add: matched_def)

theorem DeriveFaceSymmetry_exact:
  assumes ok: "classes_ok d"
  shows "exact_symmetry d (DeriveFaceSymmetry d out)"
    and "gs_b_applicable (DeriveFaceSymmetry d out) = gs_b_applicable out"
proof -
  define fast where "fast \<longleftrightarrow> list_all (\<lambda>c. c = ds_cls d ! kShapeScalarFace0) (drop kShapeScalarFace0 (ds_cls d)) \<and>
            list_all sd_present (drop kShapeScalarFace0 (ds_slot d)) \<and> \<not> ds_any_shared d"
  define g where "g = DeriveFaceSymmetry d out"
  show "gs_b_applicable (DeriveFaceSymmetry d out) = gs_b_applicable out"
    by (simp add: DeriveFaceSymmetry_def Let_def)
  have "exact_symmetry d g"
  proof (cases fast)
    case True
    have g: "gs_p_step g = 1" "gs_d_valid_sigma_mask g = 0x3F"
      using True by (simp_all add: g_def fast_def DeriveFaceSymmetry_def Let_def kFullHexagonalSymmetry_def)
    have "matched d s t" if "kShapeScalarFace0 \<le> s" "s < kShapeScalarCount" "kShapeScalarFace0 \<le> t" "t < kShapeScalarCount" for s t
      by (rule matched_one_class [OF _ _ _ _ that]) (use ok True in \<open>simp_all add: classes_ok_def fast_def\<close>)
    then have all: "matched d s (rot_slot k s)" "matched d s (mir_slot k s)" if "s < kShapeScalarCount" for k s
      using that rot_slot_less [OF that, of k] mir_slot_less [OF that, of k]
      by (auto simp: rot_slot_def mir_slot_def matched_refl kShapeScalarFace0_def)
    have "rot_ok d k" "mir_ok d k" for k
      using True all by (simp_all add: fast_def invariant_def)
    moreover have "bit (0x3F :: u8) a" if "a < 6" for a
    proof -
      have "list_all (bit (0x3F :: u8)) [0..<6]" by code_simp
      with that show ?thesis by (simp add: list_all_iff)
    qed
    ultimately show ?thesis
      unfolding exact_symmetry_def by (simp add: AllowsMirror_bit g subgroup_steps_def)
  next
    case False
    have step: "gs_p_step g = (case find (\<lambda>k. InvariantUnder d (FacePerm (\<lambda>i. crem (i + k) kHexagonalFnPeriod))) [1, 2, 3] of
                  None \<Rightarrow> kHexagonalFnPeriod | Some k \<Rightarrow> k)"
      and mask: "gs_d_valid_sigma_mask g =
        fold (\<lambda>a mask. if InvariantUnder d (FacePerm (\<lambda>i. MirrorFaceIndex i (int a) kHexagonalFnPeriod))
                  then mask OR push_bit a 1 else mask) [0..<6] 0"
      using False by (auto simp: g_def fast_def DeriveFaceSymmetry_def Let_def)
    have "InvariantUnder d (FacePerm (\<lambda>i. crem (i + 1) kHexagonalFnPeriod)) = rot_ok d 1"
      "InvariantUnder d (FacePerm (\<lambda>i. crem (i + 2) kHexagonalFnPeriod)) = rot_ok d 2"
      "InvariantUnder d (FacePerm (\<lambda>i. crem (i + 3) kHexagonalFnPeriod)) = rot_ok d 3"
      using InvariantUnder_rot [of 1 d] InvariantUnder_rot [of 2 d] InvariantUnder_rot [of 3 d] by simp_all
    then have "gs_p_step g = int (first_step d)"
      unfolding step by (simp add: first_step_def kHexagonalFnPeriod_def)
    moreover have "bit (gs_d_valid_sigma_mask g) a \<longleftrightarrow> mir_ok d a" if "a < 6" for a
      unfolding mask using that by (subst mask_bits) (simp_all add: InvariantUnder_mir)
    ultimately show ?thesis
      unfolding exact_symmetry_def
      using rot_ok_iff [OF ok] first_step_steps [of d] by (auto simp: AllowsMirror_bit)
  qed
  then show "exact_symmetry d (DeriveFaceSymmetry d out)" by (simp add: g_def)
qed

text \<open>Both crystal types.\<close>

lemma exact_symmetry_b [simp]: "exact_symmetry d (g\<lparr> gs_b_applicable := b \<rparr>) = exact_symmetry d g"
  by (simp add: exact_symmetry_def AllowsMirror_def)

lemma DeriveGeometricSymmetry_exact:
  "exact_symmetry (ResolveShapeScalarDraws fl db (GetShapeScalarSlots_prism p) (pr_sync_group p)) (DeriveGeometricSymmetry_prism fl db p)"
  "exact_symmetry (ResolveShapeScalarDraws fl db (GetShapeScalarSlots_pyramid q) (py_sync_group q)) (DeriveGeometricSymmetry_pyramid fl db q)"
  by (simp_all add: DeriveGeometricSymmetry_prism_def DeriveGeometricSymmetry_pyramid_def Let_def
      DeriveFaceSymmetry_exact(1) [OF ResolveShapeScalarDraws_classes])

end
