(* ===== verification/Histogram_Reduce.thy ===== *)
theory Histogram_Reduce
  imports Raypath_Histogram Raypath_Reduce Shape_Symmetry "HOL-Library.Char_ord" "HOL-Library.Multiset"
begin

text \<open>
  Reading the raypath histogram (\<open>src/server/raypath_histogram_consumer.cpp\<close>, \<open>src/server/result_types.hpp\<close>):
  the snapshot of the consumer's rows, the display text of a chain, the reduction of a recorded result under a
  choice of symmetries, the context of that reduction, and the cache of the reductions of a frame.

  An unordered map is an association list in the order of insertion; the results are sorted before they leave.
  \<open>std::sort\<close> leaves the order of equal elements open; the model sorts by insertion.  The members of the consumer
  that the counting does not use (the cone's radius, the context) are arguments of \<open>GetResult\<close>.
\<close>

section \<open>The code\<close>

record RaypathChainSegment =
  rcs_crystal_id :: nat
  rcs_segment :: "nat list"

record RaypathCrystalReduceParams =
  rp_sigma_a :: int
  rp_d_applicable :: bool
  rp_p_retained :: PRotationSet
  rp_b_applicable :: bool
  rp_geom :: GeometricSymmetry

definition RaypathCrystalReduceParams_new :: RaypathCrystalReduceParams where
  "RaypathCrystalReduceParams_new = \<lparr> rp_sigma_a = 0, rp_d_applicable = False, rp_p_retained = PRotationSet_Identity,
     rp_b_applicable = False, rp_geom = default_symmetry \<rparr>"

record RaypathReduceContext =
  crystal_params :: "nat \<Rightarrow> RaypathCrystalReduceParams option"
  layer_multi_crystal :: "bool list"

record 'e RaypathHistogramEntry =
  he_chain :: "RaypathChainSegment list"
  he_display :: string
  he_energy :: 'e
  he_count :: nat
  he_ring_energy :: "'e list"
  he_error_bound :: 'e

record ('f, 'e) RaypathHistogramResult =
  hr_entries :: "'e RaypathHistogramEntry list"
  hr_other_energy :: 'e
  hr_other_count :: nat
  hr_truncated_chain_count :: nat
  hr_max_row_error :: 'e
  hr_roi_mode :: RaypathRoiMode
  hr_cone_ring_count :: int
  hr_cone_radius_rad :: 'f
  hr_reduce_ctx :: RaypathReduceContext

text \<open>The order of the rows of a result.\<close>

definition entry_before :: "'e::linordered_idom RaypathHistogramEntry \<Rightarrow> 'e RaypathHistogramEntry \<Rightarrow> bool" where
  "entry_before a b = (if he_energy a \<noteq> he_energy b then he_energy b < he_energy a else he_display a < he_display b)"

fun insert_entry ::
  "'e::linordered_idom RaypathHistogramEntry \<Rightarrow> 'e RaypathHistogramEntry list \<Rightarrow> 'e RaypathHistogramEntry list" where
  "insert_entry x [] = [x]"
| "insert_entry x (y # ys) = (if entry_before y x then y # insert_entry x ys else x # y # ys)"

definition SortByEnergyThenDisplay :: "'e::linordered_idom RaypathHistogramEntry list \<Rightarrow> 'e RaypathHistogramEntry list" where
  "SortByEnergyThenDisplay entries = foldr insert_entry entries []"

definition to_chain :: "ChainIdTableEntry list \<Rightarrow> RaypathChainSegment list" where
  "to_chain segs = map (\<lambda>seg. \<lparr> rcs_crystal_id = ent_crystal_id seg, rcs_segment = segment seg \<rparr>) segs"

text \<open>One row of the snapshot; \<open>None\<close> where the table has no such chain.\<close>

definition snapshot_row :: "ChainIdInterningTable \<Rightarrow> nat \<times> 'e Entry \<Rightarrow> 'e RaypathHistogramEntry option" where
  "snapshot_row table row =
     (let (id, e) = row
      in case (Segments id table, Format id table) of
           (Some segs, Some display) \<Rightarrow>
             Some \<lparr> he_chain = to_chain segs, he_display = display, he_energy = en_energy e, he_count = en_count e,
               he_ring_energy = en_ring_energy e, he_error_bound = en_error_bound e \<rparr>
         | _ \<Rightarrow> None)"

fun snapshot_rows ::
  "ChainIdInterningTable \<Rightarrow> (nat \<times> 'e::linordered_idom Entry) list \<Rightarrow> 'e RaypathHistogramEntry list \<times> 'e \<Rightarrow>
     ('e RaypathHistogramEntry list \<times> 'e) option"
where
  "snapshot_rows table [] acc = Some acc"
| "snapshot_rows table (row # rows) acc =
     (case snapshot_row table row of
        None \<Rightarrow> None
      | Some out \<Rightarrow> snapshot_rows table rows (fst acc @ [out], max (snd acc) (en_error_bound (snd row))))"

definition PrepareSnapshot ::
  "'e::linordered_idom RaypathHistogramConsumer \<Rightarrow> ('e RaypathHistogramEntry list \<times> 'e) option"
where
  "PrepareSnapshot s =
     map_option (\<lambda>(entries, max_row_error). (SortByEnergyThenDisplay entries, max_row_error))
       (snapshot_rows (cm_table (rh_merger s)) (rh_live s) ([], 0))"

definition GetResult ::
  "'f::zero \<Rightarrow> RaypathReduceContext \<Rightarrow> 'e RaypathHistogramEntry list \<times> 'e \<Rightarrow> 'e::linordered_idom RaypathHistogramConsumer \<Rightarrow>
     ('f, 'e) RaypathHistogramResult"
where
  "GetResult cone_radius ctx snapshot s =
     \<lparr> hr_entries = fst snapshot, hr_other_energy = en_energy (rh_other s), hr_other_count = en_count (rh_other s),
       hr_truncated_chain_count = rh_truncated_chain_count s, hr_max_row_error = snd snapshot,
       hr_roi_mode = rh_roi_mode s,
       hr_cone_ring_count = (if rh_roi_mode s = kCone then int (rh_ring_count s) else 0),
       hr_cone_radius_rad = (if rh_roi_mode s = kCone then cone_radius else 0),
       hr_reduce_ctx = ctx \<rparr>"

text \<open>The context, from the layers of a scene.\<close>

datatype 'f CrystalParam = PrismParam "'f PrismCrystalParam" | PyramidParam "'f PyramidCrystalParam"

record 'f CrystalSetting =
  cs_id :: nat
  cs_axis :: "'f AxisDistribution"
  cs_param :: "'f CrystalParam"

definition DeriveGeometricSymmetry ::
  "('f, 'z) float_ops_scheme \<Rightarrow> ('f, 'd) double_ops \<Rightarrow> 'f CrystalParam \<Rightarrow> GeometricSymmetry" where
  "DeriveGeometricSymmetry fl db param =
     (case param of PrismParam p \<Rightarrow> DeriveGeometricSymmetry_prism fl db p
      | PyramidParam p \<Rightarrow> DeriveGeometricSymmetry_pyramid fl db p)"

definition reduce_params ::
  "('f, 'z) float_ops_scheme \<Rightarrow> ('f, 'd) double_ops \<Rightarrow> 'f CrystalSetting \<Rightarrow> RaypathCrystalReduceParams" where
  "reduce_params fl db setting =
     (let d_applicable = IsDApplicable fl (cs_axis setting);
          sigma_a = (if d_applicable then ComputeSigmaA fl (dist_center (roll_dist (cs_axis setting))) else 0);
          shape = DeriveGeometricSymmetry fl db (cs_param setting);
          gating = DeriveSymmetryGating fl kPhysical shape (cs_axis setting)
      in \<lparr> rp_sigma_a = sigma_a, rp_d_applicable = d_applicable, rp_p_retained = sg_p_retained gating,
           rp_b_applicable = sg_b_applicable gating, rp_geom = sg_geom gating \<rparr>)"

definition add_layer ::
  "('f, 'z) float_ops_scheme \<Rightarrow> ('f, 'd) double_ops \<Rightarrow> 'f CrystalSetting list \<Rightarrow> RaypathReduceContext \<Rightarrow> RaypathReduceContext"
where
  "add_layer fl db layer ctx =
     fold (\<lambda>setting ctx. ctx\<lparr> crystal_params := (crystal_params ctx)(cs_id setting \<mapsto> reduce_params fl db setting) \<rparr>)
       layer (ctx\<lparr> layer_multi_crystal := layer_multi_crystal ctx @ [1 < length layer] \<rparr>)"

definition BuildRaypathReduceContext ::
  "('f, 'z) float_ops_scheme \<Rightarrow> ('f, 'd) double_ops \<Rightarrow> 'f CrystalSetting list list \<Rightarrow> RaypathReduceContext" where
  "BuildRaypathReduceContext fl db ms =
     fold (add_layer fl db) ms \<lparr> crystal_params = (\<lambda>_. None), layer_multi_crystal = [] \<rparr>"

fun format_layers :: "bool \<Rightarrow> bool list \<Rightarrow> nat \<Rightarrow> RaypathChainSegment list \<Rightarrow> string" where
  "format_layers multi_layer layers i [] = ''''"
| "format_layers multi_layer layers i (seg # segs) =
     (let multi_crystal = (if i < length layers then layers ! i else False)
      in (if 0 < i then '' -> '' else '''') @
         (if multi_crystal then ''C'' @ to_string (rcs_crystal_id seg) else '''') @
         (if multi_crystal \<or> multi_layer then ''('' else '''') @
         format_faces (rcs_segment seg) @
         (if multi_crystal \<or> multi_layer then '')'' else '''') @
         format_layers multi_layer layers (i + 1) segs)"

definition FormatRaypathChainDisplay :: "RaypathChainSegment list \<Rightarrow> bool list \<Rightarrow> string" where
  "FormatRaypathChainDisplay chain layers = format_layers (1 < length chain) layers 0 chain"

text \<open>The reduction.\<close>

definition params_of :: "RaypathReduceContext \<Rightarrow> nat \<Rightarrow> RaypathCrystalReduceParams" where
  "params_of ctx crystal_id =
     (case crystal_params ctx crystal_id of Some p \<Rightarrow> p | None \<Rightarrow> RaypathCrystalReduceParams_new)"

definition reduce_segment :: "RaypathReduceContext \<Rightarrow> u8 \<Rightarrow> RaypathChainSegment \<Rightarrow> nat list" where
  "reduce_segment ctx symmetry seg =
     (let p = params_of ctx (rcs_crystal_id seg)
      in ReduceRaypathByPeriod (rcs_segment seg) symmetry (rp_sigma_a p) (rp_d_applicable p) (rp_p_retained p)
           (rp_b_applicable p) kHexagonalFnPeriod (rp_geom p))"

fun intern_chain ::
  "RaypathReduceContext \<Rightarrow> u8 \<Rightarrow> RaypathChainSegment list \<Rightarrow> nat \<times> ChainIdInterningTable \<Rightarrow> nat \<times> ChainIdInterningTable"
where
  "intern_chain ctx symmetry [] st = st"
| "intern_chain ctx symmetry (seg # segs) st =
     intern_chain ctx symmetry segs (Intern (fst st) (rcs_crystal_id seg) (reduce_segment ctx symmetry seg) (snd st))"

definition RaypathHistogramEntry_new :: "'e::linordered_idom RaypathHistogramEntry" where
  "RaypathHistogramEntry_new = \<lparr> he_chain = [], he_display = '''', he_energy = 0, he_count = 0, he_ring_energy = [],
     he_error_bound = 0 \<rparr>"

definition add_rings :: "'e::linordered_idom list \<Rightarrow> 'e list \<Rightarrow> 'e list" where
  "add_rings dst src =
     (let dst = (if length dst < length src then dst @ replicate (length src - length dst) 0 else dst)
      in fold (\<lambda>r dst. dst[r := dst ! r + src ! r]) [0..<length src] dst)"

definition merge_entry ::
  "'e::linordered_idom RaypathHistogramEntry \<Rightarrow> 'e RaypathHistogramEntry \<Rightarrow> 'e RaypathHistogramEntry" where
  "merge_entry src dst = dst\<lparr> he_energy := he_energy dst + he_energy src, he_count := he_count dst + he_count src,
     he_error_bound := he_error_bound dst + he_error_bound src,
     he_ring_energy := add_rings (he_ring_energy dst) (he_ring_energy src) \<rparr>"

definition reduce_entry ::
  "RaypathReduceContext \<Rightarrow> u8 \<Rightarrow> 'e::linordered_idom RaypathHistogramEntry \<Rightarrow>
     ChainIdInterningTable \<times> (nat \<times> 'e RaypathHistogramEntry) list \<Rightarrow>
     (ChainIdInterningTable \<times> (nat \<times> 'e RaypathHistogramEntry) list) option"
where
  "reduce_entry ctx symmetry src st =
     (let (id, table) = intern_chain ctx symmetry (he_chain src) (kRootChainId, fst st);
          dst = (case map_of (snd st) id of Some d \<Rightarrow> d | None \<Rightarrow> RaypathHistogramEntry_new)
      in case (if he_chain dst = [] then
                 map_option (\<lambda>segs. dst\<lparr> he_chain := to_chain segs,
                   he_display := FormatRaypathChainDisplay (to_chain segs) (layer_multi_crystal ctx) \<rparr>) (Segments id table)
               else Some dst) of
           None \<Rightarrow> None
         | Some dst \<Rightarrow> Some (table, AList.update id (merge_entry src dst) (snd st)))"

fun reduce_entries ::
  "RaypathReduceContext \<Rightarrow> u8 \<Rightarrow> 'e::linordered_idom RaypathHistogramEntry list \<Rightarrow>
     ChainIdInterningTable \<times> (nat \<times> 'e RaypathHistogramEntry) list \<Rightarrow>
     (ChainIdInterningTable \<times> (nat \<times> 'e RaypathHistogramEntry) list) option"
where
  "reduce_entries ctx symmetry [] st = Some st"
| "reduce_entries ctx symmetry (src # srcs) st =
     Option.bind (reduce_entry ctx symmetry src st) (reduce_entries ctx symmetry srcs)"

definition ReduceRaypathHistogram ::
  "('f, 'e::linordered_idom) RaypathHistogramResult \<Rightarrow> u8 \<Rightarrow> ('f, 'e) RaypathHistogramResult option"
where
  "ReduceRaypathHistogram finest symmetry =
     (case reduce_entries (hr_reduce_ctx finest) symmetry (hr_entries finest)
             (ChainIdInterningTable_new kUnboundedCapacity, []) of
        None \<Rightarrow> None
      | Some (_, merged) \<Rightarrow>
          Some (finest\<lparr> hr_entries := SortByEnergyThenDisplay (map snd merged),
            hr_max_row_error := fold (\<lambda>e m. max m (he_error_bound (snd e))) merged 0 \<rparr>))"

text \<open>The cache of a frame: the first critical section, and the publication after the computation.\<close>

type_synonym ('f, 'e) reduce_slots = "('f, 'e) RaypathHistogramResult option list"

definition slot_of :: "u8 \<Rightarrow> nat" where
  "slot_of symmetry = unat (symmetry AND 7)"

definition cache_lookup :: "u8 \<Rightarrow> ('f, 'e) reduce_slots \<Rightarrow> ('f, 'e) RaypathHistogramResult option" where
  "cache_lookup symmetry slots = slots ! slot_of symmetry"

definition cache_publish ::
  "u8 \<Rightarrow> ('f, 'e) RaypathHistogramResult \<Rightarrow> ('f, 'e) reduce_slots \<Rightarrow> ('f, 'e) RaypathHistogramResult option \<times> ('f, 'e) reduce_slots"
where
  "cache_publish symmetry computed slots =
     (let slots = (if slots ! slot_of symmetry = None then slots[slot_of symmetry := Some computed] else slots)
      in (slots ! slot_of symmetry, slots))"

text \<open>A call by itself: the result pointer and the cache, \<open>None\<close> where the reduction throws.\<close>

definition ReducedRaypathHistogramOf ::
  "('f, 'e::linordered_idom) RaypathHistogramResult option \<Rightarrow> u8 \<Rightarrow> ('f, 'e) reduce_slots option \<Rightarrow>
     (('f, 'e) RaypathHistogramResult option \<times> ('f, 'e) reduce_slots option) option"
where
  "ReducedRaypathHistogramOf frame_result symmetry cache =
     (case frame_result of
        None \<Rightarrow> Some (None, cache)
      | Some finest \<Rightarrow>
          (case cache of
             None \<Rightarrow> map_option (\<lambda>r. (Some r, None)) (ReduceRaypathHistogram finest symmetry)
           | Some slots \<Rightarrow>
               (case cache_lookup symmetry slots of
                  Some r \<Rightarrow> Some (Some r, cache)
                | None \<Rightarrow>
                    map_option (\<lambda>computed. let (r, slots) = cache_publish symmetry computed slots in (r, Some slots))
                      (ReduceRaypathHistogram finest symmetry))))"

section \<open>Sorting\<close>

lemma insert_entry_mset: "mset (insert_entry x xs) = add_mset x (mset xs)"
  by (induction xs) simp_all

lemma Sort_mset: "mset (SortByEnergyThenDisplay xs) = mset xs"
  by (induction xs) (simp_all add: SortByEnergyThenDisplay_def insert_entry_mset)

lemma Sort_set: "set (SortByEnergyThenDisplay xs) = set xs"
  by (rule mset_eq_setD [OF Sort_mset])

lemma Sort_length: "length (SortByEnergyThenDisplay xs) = length xs"
  by (metis Sort_mset size_mset)

lemma Sort_sum: "sum_list (map f (SortByEnergyThenDisplay xs)) = sum_list (map f xs)"
  for f :: "_ \<Rightarrow> 'b::comm_monoid_add"
proof -
  have "mset (map f (SortByEnergyThenDisplay xs)) = mset (map f xs)" by (simp add: Sort_mset)
  then show ?thesis by (simp only: sum_mset_sum_list [symmetric])
qed

lemma Sort_distinct: "distinct (map f (SortByEnergyThenDisplay xs)) = distinct (map f xs)"
  by (rule mset_eq_imp_distinct_iff) (simp add: Sort_mset)

abbreviation rows_sorted :: "'e::linordered_idom RaypathHistogramEntry list \<Rightarrow> bool" where
  "rows_sorted xs \<equiv> sorted_wrt (\<lambda>a b. \<not> entry_before b a) xs"

lemma not_before_iff:
  "\<not> entry_before b a \<longleftrightarrow> he_energy b < he_energy a \<or> he_energy a = he_energy b \<and> he_display a \<le> he_display b"
  by (cases "he_energy a" "he_energy b" rule: linorder_cases) (simp_all add: entry_before_def not_less)

lemma entry_before_asym: "entry_before a b \<Longrightarrow> \<not> entry_before b a"
  unfolding not_before_iff by (simp add: entry_before_def order.strict_implies_order split: if_splits)

lemma not_before_trans: "\<not> entry_before b a \<Longrightarrow> \<not> entry_before c b \<Longrightarrow> \<not> entry_before c a"
  unfolding not_before_iff by (elim disjE conjE) (simp_all add: order.trans)

lemma insert_entry_sorted: "rows_sorted xs \<Longrightarrow> rows_sorted (insert_entry x xs)"
proof (induction xs)
  case (Cons y ys)
  have set: "set (insert_entry x ys) = insert x (set ys)"
    using mset_eq_setD [OF insert_entry_mset [of x ys, folded mset.simps]] by simp
  show ?case
  proof (cases "entry_before y x")
    case True
    then show ?thesis using Cons entry_before_asym [OF True] by (simp add: set)
  next
    case False
    then show ?thesis using Cons.prems not_before_trans [OF False] by auto
  qed
qed simp

lemma Sort_sorted: "rows_sorted (SortByEnergyThenDisplay xs)"
  by (induction xs) (simp_all add: SortByEnergyThenDisplay_def insert_entry_sorted)

section \<open>Interning a reduced chain\<close>

definition links_of :: "RaypathChainSegment list \<Rightarrow> (nat \<times> nat list) list" where
  "links_of chain = map (\<lambda>seg. (rcs_crystal_id seg, rcs_segment seg)) chain"

text \<open>The chain with every layer reduced: what a row stands for.\<close>

definition reduce_chain :: "RaypathReduceContext \<Rightarrow> u8 \<Rightarrow> RaypathChainSegment list \<Rightarrow> RaypathChainSegment list" where
  "reduce_chain ctx symmetry chain = map (\<lambda>seg. seg\<lparr> rcs_segment := reduce_segment ctx symmetry seg \<rparr>) chain"

lemma links_of_inj: "links_of a = links_of b \<longleftrightarrow> a = b"
proof -
  have "inj (\<lambda>seg :: RaypathChainSegment. (rcs_crystal_id seg, rcs_segment seg))" by (rule injI, rule RaypathChainSegment.equality) simp_all
  then show ?thesis by (simp add: links_of_def inj_map_eq_map)
qed

lemma links_of_to_chain: "links_of (to_chain segs) = map link_of segs"
  by (simp add: links_of_def to_chain_def link_of_def)

lemma links_of_Nil: "links_of chain = [] \<longleftrightarrow> chain = []"
  by (simp add: links_of_def)

lemma Segments_chain:
  assumes "table_ok t" and "i \<le> Size t"
  shows "\<exists>segs. Segments i t = Some segs \<and> links_of (to_chain segs) = chain_of t i"
  using Segments_total [OF assms] by (auto simp: chain_of_def links_of_to_chain)

text \<open>With room for its layers a chain gets the id that stands for it, and no other chain changes.\<close>

lemma intern_chain_spec:
  assumes "table_ok t" and "p \<le> Size t" and "kOverflowChainId \<le> cit_capacity t"
    and "Size t + length chain < kOverflowChainId" and "intern_chain ctx sy chain (p, t) = (i, t')"
  shows "table_ok t' \<and> i \<le> Size t' \<and> cit_capacity t' = cit_capacity t \<and>
    chain_of t' i = chain_of t p @ links_of (reduce_chain ctx sy chain) \<and>
    Size t \<le> Size t' \<and> Size t' \<le> Size t + length chain \<and> (\<forall>j \<le> Size t. chain_of t' j = chain_of t j)"
  using assms
proof (induction chain arbitrary: p t)
  case (Cons seg segs)
  obtain j t1 where j: "Intern p (rcs_crystal_id seg) (reduce_segment ctx sy seg) t = (j, t1)" by fastforce
  have "has_room t" using Cons.prems(3,4) table_okD(2) [OF Cons.prems(1)] by (simp add: has_room_def)
  note one = Intern_spec [OF Cons.prems(1,2) this j]
  have rest: "intern_chain ctx sy segs (j, t1) = (i, t')" using Cons.prems(5) j by simp
  have "table_ok t1" "j \<le> Size t1" "kOverflowChainId \<le> cit_capacity t1" "Size t1 + length segs < kOverflowChainId"
    using one Cons.prems(3,4) by simp_all
  from Cons.IH [OF this rest] one show ?case by (auto simp: links_of_def reduce_chain_def)
qed (simp add: links_of_def reduce_chain_def)

section \<open>Adding up\<close>

definition group_sum :: "('x \<Rightarrow> 'c) \<Rightarrow> 'c \<Rightarrow> ('x \<Rightarrow> 'n) \<Rightarrow> 'x list \<Rightarrow> 'n::comm_monoid_add" where
  "group_sum g c f xs = sum_list (map f (filter (\<lambda>x. g x = c) xs))"

lemma group_sum_snoc:
  "group_sum g c f (xs @ [x]) = (if g x = c then group_sum g c f xs + f x else group_sum g c f xs)"
  by (simp add: group_sum_def)

lemma group_sum_none: "c \<notin> g ` set xs \<Longrightarrow> group_sum g c f xs = 0"
proof -
  assume "c \<notin> g ` set xs"
  then have "filter (\<lambda>x. g x = c) xs = []" by (auto simp: filter_empty_conv)
  then show ?thesis by (simp add: group_sum_def)
qed

lemma group_sum_total: "(\<Sum>c\<in>g ` set xs. group_sum g c f xs) = sum_list (map f xs)"
proof -
  have "finite C \<Longrightarrow> g ` set xs \<subseteq> C \<Longrightarrow> (\<Sum>c\<in>C. group_sum g c f xs) = sum_list (map f xs)" for C
  proof (induction xs)
    case (Cons x xs)
    have "(\<Sum>c\<in>C. group_sum g c f (x # xs)) = (\<Sum>c\<in>C. (if c = g x then f x else 0) + group_sum g c f xs)"
      by (rule sum.cong) (simp_all add: group_sum_def)
    also have "\<dots> = f x + sum_list (map f xs)"
      using Cons by (simp add: sum.distrib)
    finally show ?case by simp
  qed (simp add: group_sum_def)
  then show ?thesis by simp
qed

text \<open>A ring past the end of a split holds nothing.\<close>

definition ring_at :: "'e::linordered_idom list \<Rightarrow> nat \<Rightarrow> 'e" where
  "ring_at rings r = (if r < length rings then rings ! r else 0)"

lemma add_rings_loop:
  assumes "n \<le> length dst"
  shows "length (fold (\<lambda>r dst. dst[r := dst ! r + src ! r]) [0..<n] dst) = length dst \<and>
    (\<forall>j<length dst. fold (\<lambda>r dst. dst[r := dst ! r + src ! r]) [0..<n] dst ! j =
      (if j < n then dst ! j + src ! j else dst ! j))"
  using assms by (induction n) (auto simp: nth_list_update less_Suc_eq)

lemma ring_at_add: "ring_at (add_rings dst src) r = ring_at dst r + ring_at src r"
proof -
  define d where "d = (if length dst < length src then dst @ replicate (length src - length dst) 0 else dst)"
  have len: "length src \<le> length d" "length dst \<le> length d" by (simp_all add: d_def)
  have d: "ring_at d r = ring_at dst r" by (simp add: d_def ring_at_def nth_append)
  note loop = add_rings_loop [OF len(1), of src]
  have "add_rings dst src = fold (\<lambda>r dst. dst[r := dst ! r + src ! r]) [0..<length src] d"
    by (simp add: add_rings_def d_def Let_def)
  with loop len(1) have "ring_at (add_rings dst src) r = ring_at d r + ring_at src r"
    unfolding ring_at_def by auto
  with d show ?thesis by simp
qed

section \<open>The reduction, row by row\<close>

abbreviation reduced_of :: "RaypathReduceContext \<Rightarrow> u8 \<Rightarrow> 'e RaypathHistogramEntry \<Rightarrow> RaypathChainSegment list" where
  "reduced_of ctx sy src \<equiv> reduce_chain ctx sy (he_chain src)"

text \<open>What a merged row says: the sums over the recorded rows whose reduced chain it is.\<close>

definition row_ok ::
  "RaypathReduceContext \<Rightarrow> u8 \<Rightarrow> 'e::linordered_idom RaypathHistogramEntry list \<Rightarrow> 'e RaypathHistogramEntry \<Rightarrow> bool" where
  "row_ok ctx sy srcs row \<longleftrightarrow>
     he_chain row \<in> reduced_of ctx sy ` set srcs \<and>
     he_display row = FormatRaypathChainDisplay (he_chain row) (layer_multi_crystal ctx) \<and>
     he_energy row = group_sum (reduced_of ctx sy) (he_chain row) he_energy srcs \<and>
     he_count row = group_sum (reduced_of ctx sy) (he_chain row) he_count srcs \<and>
     he_error_bound row = group_sum (reduced_of ctx sy) (he_chain row) he_error_bound srcs \<and>
     (\<forall>r. ring_at (he_ring_energy row) r =
        group_sum (reduced_of ctx sy) (he_chain row) (\<lambda>src. ring_at (he_ring_energy src) r) srcs)"

definition layer_count :: "'e RaypathHistogramEntry list \<Rightarrow> nat" where
  "layer_count srcs = sum_list (map (\<lambda>src. length (he_chain src)) srcs)"

definition merged_ok ::
  "RaypathReduceContext \<Rightarrow> u8 \<Rightarrow> 'e::linordered_idom RaypathHistogramEntry list \<Rightarrow>
     ChainIdInterningTable \<times> (nat \<times> 'e RaypathHistogramEntry) list \<Rightarrow> bool"
where
  "merged_ok ctx sy srcs st \<longleftrightarrow>
     table_ok (fst st) \<and> kOverflowChainId \<le> cit_capacity (fst st) \<and> Size (fst st) \<le> layer_count srcs \<and>
     distinct (map fst (snd st)) \<and> length (snd st) \<le> length srcs \<and>
     (\<forall>i row. map_of (snd st) i = Some row \<longrightarrow>
        i \<le> Size (fst st) \<and> links_of (he_chain row) = chain_of (fst st) i \<and> row_ok ctx sy srcs row) \<and>
     (\<forall>src\<in>set srcs. \<exists>i row. map_of (snd st) i = Some row \<and> he_chain row = reduced_of ctx sy src)"

lemma row_ok_other:
  assumes "row_ok ctx sy srcs row" and "he_chain row \<noteq> reduced_of ctx sy src"
  shows "row_ok ctx sy (srcs @ [src]) row"
  using assms by (auto simp: row_ok_def group_sum_snoc)

lemma row_ok_merge:
  assumes "row_ok ctx sy srcs row" and "he_chain row = reduced_of ctx sy src"
  shows "row_ok ctx sy (srcs @ [src]) (merge_entry src row)"
  using assms by (simp add: row_ok_def merge_entry_def group_sum_snoc ring_at_add)

lemma row_ok_fresh:
  assumes "reduced_of ctx sy src \<notin> reduced_of ctx sy ` set srcs"
  shows "row_ok ctx sy (srcs @ [src]) (merge_entry src (RaypathHistogramEntry_new
    \<lparr> he_chain := reduced_of ctx sy src,
      he_display := FormatRaypathChainDisplay (reduced_of ctx sy src) (layer_multi_crystal ctx) \<rparr>))"
  by (simp add: row_ok_def merge_entry_def group_sum_snoc ring_at_add group_sum_none [OF assms] RaypathHistogramEntry_new_def)
    (simp add: ring_at_def)

lemma merge_entry_chain [simp]: "he_chain (merge_entry src dst) = he_chain dst"
  by (simp add: merge_entry_def)

lemma merged_ok_start: "merged_ok ctx sy [] (ChainIdInterningTable_new kUnboundedCapacity, [])"
  by (simp add: merged_ok_def new_ok layer_count_def)
    (simp add: ChainIdInterningTable_new_def Size_def kUnboundedCapacity_def chain_consts)

lemma reduce_entry_ok:
  assumes inv: "merged_ok ctx sy srcs (t, merged)" and room: "layer_count (srcs @ [src]) < kOverflowChainId"
  shows "\<exists>st. reduce_entry ctx sy src (t, merged) = Some st \<and> merged_ok ctx sy (srcs @ [src]) st"
proof -
  let ?rc = "reduced_of ctx sy src"
  obtain i t' where i: "intern_chain ctx sy (he_chain src) (kRootChainId, t) = (i, t')" by fastforce
  have t: "table_ok t" "kOverflowChainId \<le> cit_capacity t" "Size t \<le> layer_count srcs"
    and rows: "\<And>j row. map_of merged j = Some row \<Longrightarrow>
      j \<le> Size t \<and> links_of (he_chain row) = chain_of t j \<and> row_ok ctx sy srcs row"
    and cover: "\<And>s. s \<in> set srcs \<Longrightarrow> \<exists>j row. map_of merged j = Some row \<and> he_chain row = reduced_of ctx sy s"
    and shape: "distinct (map fst merged)" "length merged \<le> length srcs"
    using inv by (auto simp: merged_ok_def)
  have layers: "layer_count (srcs @ [src]) = layer_count srcs + length (he_chain src)" by (simp add: layer_count_def)
  have fits: "Size t + length (he_chain src) < kOverflowChainId" using t(3) room layers by linarith
  have root: "kRootChainId \<le> Size t" by (simp add: kRootChainId_def)
  note spec = intern_chain_spec [OF t(1) root t(2) fits i]
  have at_i: "chain_of t' i = links_of ?rc" using spec by (simp add: kRootChainId_def chain_of_root)
  have keep: "chain_of t' j = chain_of t j" if "j \<le> Size t" for j using spec that by blast
  have same: "j = i" if "map_of merged j = Some row" "he_chain row = ?rc" for j row
  proof (rule chain_of_inj)
    show "table_ok t'" "i \<le> Size t'" using spec by blast+
    show "j \<le> Size t'" using rows [OF that(1)] spec by auto
    show "chain_of t' j = chain_of t' i" using rows [OF that(1)] keep [of j] at_i that(2) by simp
  qed
  have other: "row_ok ctx sy (srcs @ [src]) row" if "map_of merged j = Some row" "j \<noteq> i" for j row
    by (rule row_ok_other) (use rows [OF that(1)] same [OF that(1)] that(2) in blast)+
  have finish: "merged_ok ctx sy (srcs @ [src]) (t', AList.update i (merge_entry src row) merged)"
    if row: "he_chain row = ?rc" "row_ok ctx sy (srcs @ [src]) (merge_entry src row)" for row
  proof -
    have upd: "map_of (AList.update i (merge_entry src row) merged) = (map_of merged)(i \<mapsto> merge_entry src row)"
      by (rule AList.update_conv')
    have len: "length (AList.update i (merge_entry src row) merged) \<le> Suc (length merged)"
      by (induction merged) auto
    have "j \<le> Size t' \<and> links_of (he_chain d) = chain_of t' j \<and> row_ok ctx sy (srcs @ [src]) d"
      if "((map_of merged)(i \<mapsto> merge_entry src row)) j = Some d" for j d
    proof (cases "j = i")
      case True
      then show ?thesis using that row at_i spec by auto
    next
      case False
      then have m: "map_of merged j = Some d" using that by simp
      then show ?thesis using rows [OF m] keep [of j] other [OF m False] spec by auto
    qed
    moreover have "\<exists>j d. ((map_of merged)(i \<mapsto> merge_entry src row)) j = Some d \<and> he_chain d = reduced_of ctx sy s"
      if "s \<in> set (srcs @ [src])" for s
    proof (cases "reduced_of ctx sy s = ?rc")
      case True
      then show ?thesis using row by (intro exI [of _ i] exI [of _ "merge_entry src row"]) simp
    next
      case False
      then have "s \<in> set srcs" using that by auto
      from cover [OF this] obtain j d where j: "map_of merged j = Some d" "he_chain d = reduced_of ctx sy s" by blast
      have "j \<noteq> i"
      proof
        assume "j = i"
        then have "links_of (he_chain d) = links_of ?rc" using rows [OF j(1)] keep [of j] at_i by simp
        with False j(2) show False by (simp add: links_of_inj)
      qed
      with j show ?thesis by (intro exI [of _ j] exI [of _ d]) simp
    qed
    ultimately show ?thesis
      using spec t shape len layers unfolding merged_ok_def fst_conv snd_conv upd
      by (simp add: distinct_update)
  qed
  show ?thesis
  proof (cases "map_of merged i")
    case None
    obtain segs where segs: "Segments i t' = Some segs" "links_of (to_chain segs) = chain_of t' i"
      using Segments_chain [of t' i] spec by blast
    then have chain: "to_chain segs = ?rc" using at_i by (simp add: links_of_inj)
    have "?rc \<notin> reduced_of ctx sy ` set srcs" using cover same None by fastforce
    from finish [OF _ row_ok_fresh [OF this]] show ?thesis
      using None segs(1) by (simp add: reduce_entry_def i chain RaypathHistogramEntry_new_def)
  next
    case (Some row)
    have "links_of (he_chain row) = links_of ?rc" using rows [OF Some] keep [of i] at_i by simp
    then have chain: "he_chain row = ?rc" by (simp only: links_of_inj)
    have ok: "row_ok ctx sy (srcs @ [src]) (merge_entry src row)" by (rule row_ok_merge) (use rows [OF Some] chain in blast)+
    show ?thesis
    proof (cases "?rc = []")
      case False
      then show ?thesis using finish [OF chain ok] Some by (simp add: reduce_entry_def i chain)
    next
      case True
      then have segs: "Segments i t' = Some []"
        using Segments_chain [of t' i] spec at_i by (auto simp: links_of_def to_chain_def)
      have "row\<lparr> he_chain := [], he_display := FormatRaypathChainDisplay [] (layer_multi_crystal ctx) \<rparr> = row"
        using rows [OF Some] chain True by (simp add: row_ok_def)
      then show ?thesis using finish [OF chain ok] Some segs True by (simp add: reduce_entry_def i chain to_chain_def)
    qed
  qed
qed

lemma layer_count_append: "layer_count (xs @ ys) = layer_count xs + layer_count ys"
  by (simp add: layer_count_def)

lemma reduce_entries_ok:
  assumes "merged_ok ctx sy done st" and "layer_count (done @ srcs) < kOverflowChainId"
  shows "\<exists>st'. reduce_entries ctx sy srcs st = Some st' \<and> merged_ok ctx sy (done @ srcs) st'"
  using assms
proof (induction srcs arbitrary: "done" st)
  case (Cons src srcs)
  have "layer_count (done @ [src]) < kOverflowChainId" using Cons.prems(2) by (simp add: layer_count_append layer_count_def)
  with reduce_entry_ok [of ctx sy "done" "fst st" "snd st" src] Cons.prems(1)
  obtain st1 where "reduce_entry ctx sy src st = Some st1" "merged_ok ctx sy (done @ [src]) st1" by auto
  with Cons.IH [of "done @ [src]" st1] Cons.prems(2) show ?case by simp
qed simp

lemma merged_ok_chains: "merged_ok ctx sy srcs (t, merged) \<Longrightarrow> distinct (map he_chain (map snd merged))"
proof -
  assume inv: "merged_ok ctx sy srcs (t, merged)"
  then have keys: "distinct (map fst merged)" and t: "table_ok t" by (simp_all add: merged_ok_def)
  have row: "i \<le> Size t \<and> links_of (he_chain d) = chain_of t i" if "(i, d) \<in> set merged" for i d
    using inv map_of_is_SomeI [OF keys that] by (auto simp: merged_ok_def)
  have "p = q" if "p \<in> set merged" "q \<in> set merged" "he_chain (snd p) = he_chain (snd q)" for p q
  proof -
    obtain i d j e where pq: "p = (i, d)" "q = (j, e)" by (cases p, cases q) blast
    have "i \<le> Size t" "j \<le> Size t" "chain_of t i = chain_of t j"
      using row [of i d] row [of j e] that pq by simp_all
    then have "i = j" by (rule chain_of_inj [OF t])
    then show ?thesis using that keys pq by (auto dest: eq_key_imp_eq_value)
  qed
  then show ?thesis using keys by (auto simp: distinct_map inj_on_def comp_def)
qed

lemma Reduce_spec:
  fixes finest :: "('f, 'e::linordered_idom) RaypathHistogramResult"
  assumes "layer_count (hr_entries finest) < kOverflowChainId"
  shows "\<exists>r. ReduceRaypathHistogram finest sy = Some r \<and>
    list_all (row_ok (hr_reduce_ctx finest) sy (hr_entries finest)) (hr_entries r) \<and>
    distinct (map he_chain (hr_entries r)) \<and>
    he_chain ` set (hr_entries r) = reduced_of (hr_reduce_ctx finest) sy ` set (hr_entries finest) \<and>
    rows_sorted (hr_entries r) \<and> length (hr_entries r) \<le> length (hr_entries finest) \<and>
    r\<lparr> hr_entries := hr_entries finest, hr_max_row_error := hr_max_row_error finest \<rparr> = finest"
proof -
  let ?ctx = "hr_reduce_ctx finest" and ?srcs = "hr_entries finest"
  from reduce_entries_ok [OF merged_ok_start, of ?srcs ?ctx sy] assms
  obtain t and merged :: "(nat \<times> 'e RaypathHistogramEntry) list"
    where run: "reduce_entries ?ctx sy ?srcs (ChainIdInterningTable_new kUnboundedCapacity, []) = Some (t, merged)"
      and inv: "merged_ok ?ctx sy ?srcs (t, merged)" by auto
  define rows where "rows = map snd merged"
  define r where "r = finest\<lparr> hr_entries := SortByEnergyThenDisplay rows,
    hr_max_row_error := fold (\<lambda>e m. max m (he_error_bound (snd e))) merged 0 \<rparr>"
  have keys: "distinct (map fst merged)" using inv by (simp add: merged_ok_def)
  have ok: "row_ok ?ctx sy ?srcs row" if "row \<in> set rows" for row
  proof -
    obtain i where "(i, row) \<in> set merged" using \<open>row \<in> set rows\<close> by (auto simp: rows_def)
    from map_of_is_SomeI [OF keys this] inv show ?thesis unfolding merged_ok_def by auto
  qed
  have "reduced_of ?ctx sy src \<in> he_chain ` set rows" if "src \<in> set ?srcs" for src
  proof -
    obtain i row where "map_of merged i = Some row" "he_chain row = reduced_of ?ctx sy src"
      using inv \<open>src \<in> set ?srcs\<close> unfolding merged_ok_def by auto
    then show ?thesis by (force simp: rows_def dest: map_of_SomeD)
  qed
  then have chains: "he_chain ` set rows = reduced_of ?ctx sy ` set ?srcs" using ok by (auto simp: row_ok_def)
  have "ReduceRaypathHistogram finest sy = Some r" by (simp add: ReduceRaypathHistogram_def run r_def rows_def)
  moreover have "distinct (map he_chain rows)" unfolding rows_def by (rule merged_ok_chains [OF inv])
  moreover have "length rows \<le> length ?srcs" using inv by (simp add: merged_ok_def rows_def)
  ultimately show ?thesis
    using ok chains by (intro exI [of _ r]) (simp add: r_def Sort_set Sort_distinct Sort_length Sort_sorted list_all_iff)
qed

lemma rows_group_sum:
  assumes "distinct (map c rows)" and "c ` set rows = g ` set srcs" and "\<And>row. row \<in> set rows \<Longrightarrow> f row = group_sum g (c row) h srcs"
  shows "sum_list (map f rows) = sum_list (map h srcs)"
proof -
  have "sum_list (map f rows) = sum_list (map (\<lambda>c. group_sum g c h srcs) (map c rows))"
    using assms(3) by (simp add: comp_def cong: map_cong)
  also have "\<dots> = (\<Sum>c\<in>g ` set srcs. group_sum g c h srcs)"
    unfolding assms(2) [symmetric] using sum_list_distinct_conv_sum_set [OF assms(1)] by simp
  finally show ?thesis by (simp only: group_sum_total)
qed

lemma Reduce_conserves:
  assumes "layer_count (hr_entries finest) < kOverflowChainId" and "ReduceRaypathHistogram finest sy = Some r"
  shows "sum_list (map he_energy (hr_entries r)) = sum_list (map he_energy (hr_entries finest))"
    and "sum_list (map he_count (hr_entries r)) = sum_list (map he_count (hr_entries finest))"
    and "sum_list (map he_error_bound (hr_entries r)) = sum_list (map he_error_bound (hr_entries finest))"
  using Reduce_spec [OF assms(1), of sy] assms(2)
  by (auto simp: list_all_iff row_ok_def
      intro!: rows_group_sum [where c = he_chain and g = "reduced_of (hr_reduce_ctx finest) sy"])

section \<open>The snapshot of a session\<close>

lemma snapshot_row_total:
  assumes "table_ok t" and "i \<le> Size t"
  shows "\<exists>out. snapshot_row t (i, e) = Some out \<and> links_of (he_chain out) = chain_of t i \<and> he_energy out = en_energy e \<and>
    he_count out = en_count e \<and> he_error_bound out = en_error_bound e"
proof -
  from Segments_chain [OF assms] obtain segs where segs: "Segments i t = Some segs" "links_of (to_chain segs) = chain_of t i"
    by blast
  then obtain path where "PathToRoot i t = Some path" by (auto simp: Segments_def)
  then have "Format i t \<noteq> None" by (simp add: Format_def)
  then show ?thesis using segs by (auto simp: snapshot_row_def)
qed

lemma snapshot_rows_total:
  assumes t: "table_ok t"
  shows "(\<forall>row\<in>set rows. fst row \<le> Size t) \<Longrightarrow>
    \<exists>outs. snapshot_rows t rows (acc, m) = Some (acc @ outs, fold (\<lambda>row m. max m (en_error_bound (snd row))) rows m) \<and>
      list_all2 (\<lambda>row out. links_of (he_chain out) = chain_of t (fst row) \<and> he_energy out = en_energy (snd row) \<and>
        he_count out = en_count (snd row) \<and> he_error_bound out = en_error_bound (snd row)) rows outs"
proof (induction rows arbitrary: acc m)
  case (Cons row rows)
  obtain i e where row: "row = (i, e)" by (cases row) blast
  obtain out where out: "snapshot_row t (i, e) = Some out" "links_of (he_chain out) = chain_of t i"
    "he_energy out = en_energy e" "he_count out = en_count e" "he_error_bound out = en_error_bound e"
    using snapshot_row_total [OF t, of i e] Cons.prems row by auto
  from Cons.IH [of "acc @ [out]" "max m (en_error_bound e)"] Cons.prems
  obtain outs where "snapshot_rows t rows (acc @ [out], max m (en_error_bound e)) =
      Some ((acc @ [out]) @ outs, fold (\<lambda>row m. max m (en_error_bound (snd row))) rows (max m (en_error_bound e)))"
    "list_all2 (\<lambda>row out. links_of (he_chain out) = chain_of t (fst row) \<and> he_energy out = en_energy (snd row) \<and>
        he_count out = en_count (snd row) \<and> he_error_bound out = en_error_bound (snd row)) rows outs" by auto
  then show ?case using out row by (intro exI [of _ "out # outs"]) simp
qed simp

lemma fold_max_ge:
  fixes f :: "'a \<Rightarrow> 'e::linordered_idom"
  shows "x \<in> f ` set xs \<or> x \<le> m \<Longrightarrow> x \<le> fold (\<lambda>y m. max m (f y)) xs m"
proof (induction xs arbitrary: m)
  case (Cons y ys)
  have "x \<le> fold (\<lambda>y m. max m (f y)) ys (max m (f y))"
    by (rule Cons.IH) (use Cons.prems in \<open>auto simp: le_max_iff_disj\<close>)
  then show ?case by simp
qed simp

lemma fold_max_prop: "P m \<Longrightarrow> (\<And>x. x \<in> set xs \<Longrightarrow> P (f x)) \<Longrightarrow> P (fold (\<lambda>x m. max m (f x)) xs m)"
  by (induction xs arbitrary: m) (simp_all add: max_def)

lemma sum_rows:
  assumes "distinct (map fst rows)"
  shows "sum (\<lambda>i. fst (the (map_option g (map_of rows i)))) (dom (map_of rows)) = sum_list (map (\<lambda>row. fst (g (snd row))) rows)"
  using assms
proof (induction rows)
  case (Cons row rows)
  obtain i e where row: "row = (i, e)" by (cases row) blast
  have out: "i \<notin> dom (map_of rows)" using Cons.prems row by (simp add: dom_map_of_conv_image_fst)
  define F where "F = (\<lambda>j. fst (the (map_option g (map_of (row # rows) j))))"
  have "F j = fst (the (map_option g (map_of rows j)))" if "j \<in> dom (map_of rows)" for j
    using that out by (auto simp: F_def row)
  then have "sum F (dom (map_of rows)) = sum_list (map (\<lambda>row. fst (g (snd row))) rows)"
    using Cons by (simp cong: sum.cong)
  moreover have "sum F (insert i (dom (map_of rows))) = F i + sum F (dom (map_of rows))"
    by (rule sum.insert [OF finite_dom_map_of out])
  moreover have "F i = fst (g e)" "dom (map_of (row # rows)) = insert i (dom (map_of rows))"
    by (simp_all add: F_def row)
  ultimately have "sum F (dom (map_of (row # rows))) = sum_list (map (\<lambda>row. fst (g (snd row))) (row # rows))"
    by (simp only: row list.map sum_list.Cons snd_conv)
  then show ?case by (simp only: F_def)
qed simp

text \<open>In every reachable state a snapshot is there, one row per chain, and nothing that was counted is missing.\<close>

lemma session_snapshot:
  assumes session: "session fn s adds n" and light: "nonneg_light fn" and n: "n < kOverflowChainId"
  shows "\<exists>entries m. PrepareSnapshot s = Some (entries, m) \<and> rows_sorted entries \<and> distinct (map he_chain entries) \<and>
    length entries \<le> rh_capacity s \<and> sum_list (map he_energy entries) + en_energy (rh_other s) = total_weight adds \<and>
    of_nat (rh_capacity s) * m \<le> total_weight (chain_adds adds) \<and>
    (\<forall>e\<in>set entries. he_error_bound e \<le> m)"
proof -
  let ?t = "cm_table (rh_merger s)" and ?max = "\<lambda>row m. max m (en_error_bound (snd row))"
  have rec: "hist_ok s" "faithful (rh_capacity s) (rows_of s) (chain_adds adds)"
    "en_energy (rh_other s) = total_weight (other_adds adds)"
    using session_recorded [OF session light] by (simp_all add: recorded_def)
  have keys: "distinct (map fst (rh_live s))" and len: "length (rh_live s) \<le> rh_capacity s" using rec(1) by (simp_all add: hist_ok_def)
  have t: "table_ok ?t" and valid: "\<And>row. row \<in> set (rh_live s) \<Longrightarrow> fst row \<le> Size ?t"
    using session_valid [OF session n] by (auto simp: rows_valid_def merger_sane_def dom_map_of_conv_image_fst)
  obtain outs where snap: "snapshot_rows ?t (rh_live s) ([], 0) = Some (outs, fold ?max (rh_live s) 0)"
    and outs: "list_all2 (\<lambda>row out. links_of (he_chain out) = chain_of ?t (fst row) \<and> he_energy out = en_energy (snd row) \<and>
        he_count out = en_count (snd row) \<and> he_error_bound out = en_error_bound (snd row)) (rh_live s) outs"
    using snapshot_rows_total [OF t, of "rh_live s" "[]" 0] valid by auto
  define m where "m = fold ?max (rh_live s) 0"
  have energies: "map he_energy outs = map (\<lambda>row. en_energy (snd row)) (rh_live s)"
    and chains: "map (\<lambda>out. links_of (he_chain out)) outs = map (\<lambda>row. chain_of ?t (fst row)) (rh_live s)"
    and errors: "map he_error_bound outs = map (\<lambda>row. en_error_bound (snd row)) (rh_live s)"
    using outs by (induction rule: list_all2_induct) simp_all
  have "\<forall>i\<in>set (map fst (rh_live s)). i \<le> Size ?t" using valid by auto
  then have "inj_on (chain_of ?t) (set (map fst (rh_live s)))"
    by (meson inj_onI chain_of_inj [OF t])
  then have "distinct (map (chain_of ?t) (map fst (rh_live s)))" using keys by (simp only: distinct_map simp_thms)
  then have "distinct (map links_of (map he_chain outs))" using chains by (simp add: comp_def)
  then have distinct: "distinct (map he_chain outs)" by (simp only: distinct_map)
  have "sum (weight (rows_of s)) (dom (rows_of s)) = sum_list (map (\<lambda>row. en_energy (snd row)) (rh_live s))"
    using sum_rows [OF keys, of "\<lambda>e. (en_energy e, en_error_bound e)"] unfolding dom_rows_of by (simp add: rows_of_def)
  then have "sum_list (map he_energy outs) + en_energy (rh_other s) = total_weight adds"
    using faithfulD(3) [OF rec(2)] rec(3) total_split [of adds] energies by simp
  moreover have "of_nat (rh_capacity s) * m \<le> total_weight (chain_adds adds)"
    unfolding m_def
  proof (rule fold_max_prop)
    show "of_nat (rh_capacity s) * 0 \<le> total_weight (chain_adds adds)" using faithfulD(11) [OF rec(2)] by simp
    fix row assume "row \<in> set (rh_live s)"
    then have row: "live_row s (fst row) = Some (snd row)" by (simp add: keys)
    then have "fst row \<in> dom (rows_of s)" by (simp add: dom_rows_of domI)
    from faithful_error [OF rec(2) this] row
    show "of_nat (rh_capacity s) * en_error_bound (snd row) \<le> total_weight (chain_adds adds)" by (simp add: rows_of_def)
  qed
  moreover have "he_error_bound e \<le> m" if "e \<in> set outs" for e
  proof -
    have "he_error_bound e \<in> set (map (\<lambda>row. en_error_bound (snd row)) (rh_live s))" using that errors [symmetric] by simp
    then show ?thesis unfolding m_def by (intro fold_max_ge) auto
  qed
  moreover have "length outs \<le> rh_capacity s" using len outs by (simp add: list_all2_lengthD)
  ultimately show ?thesis
    using distinct
    by (intro exI [of _ "SortByEnergyThenDisplay outs"] exI [of _ m])
      (simp add: PrepareSnapshot_def snap m_def Sort_sorted Sort_distinct Sort_length Sort_sum Sort_set)
qed

section \<open>Which chains meet on one row\<close>

definition context_ok :: "RaypathReduceContext \<Rightarrow> bool" where
  "context_ok ctx \<longleftrightarrow> (\<forall>c p. crystal_params ctx c = Some p \<longrightarrow> is_subgroup (rp_p_retained p))"

lemma DeriveGeometricSymmetry_step: "gs_p_step (DeriveGeometricSymmetry fl db param) \<in> set subgroup_steps"
proof -
  have "gs_p_step (DeriveFaceSymmetry (ResolveShapeScalarDraws fl db slots groups) out) \<in> set subgroup_steps" for slots groups out
    using DeriveFaceSymmetry_exact(1) [OF ResolveShapeScalarDraws_classes] unfolding exact_symmetry_def by blast
  then show ?thesis
    by (cases param) (simp_all add: DeriveGeometricSymmetry_def DeriveGeometricSymmetry_prism_def
        DeriveGeometricSymmetry_pyramid_def Let_def)
qed

lemma add_layer_ok:
  assumes "context_ok ctx"
  shows "context_ok (add_layer fl db layer ctx)"
proof -
  have "context_ok (fold (\<lambda>s ctx. ctx\<lparr> crystal_params := (crystal_params ctx)(cs_id s \<mapsto> reduce_params fl db s) \<rparr>) layer ctx)"
    if "context_ok ctx" for ctx
    using that
  proof (induction layer arbitrary: ctx)
    case (Cons s layer)
    have "is_subgroup (rp_p_retained (reduce_params fl db s))"
      by (simp add: reduce_params_def Let_def is_subgroup_gating [OF DeriveGeometricSymmetry_step])
    then have "context_ok (ctx\<lparr> crystal_params := (crystal_params ctx)(cs_id s \<mapsto> reduce_params fl db s) \<rparr>)"
      using Cons.prems by (simp add: context_ok_def)
    from Cons.IH [OF this] show ?case by (simp only: fold_simps)
  qed simp
  moreover have "context_ok (ctx\<lparr> layer_multi_crystal := layers \<rparr>)" for layers
    using assms by (simp add: context_ok_def)
  ultimately show ?thesis unfolding add_layer_def by blast
qed

lemma Build_context_ok: "context_ok (BuildRaypathReduceContext fl db ms)"
proof -
  have "context_ok ctx \<Longrightarrow> context_ok (fold (add_layer fl db) ms ctx)" for ctx
    by (induction ms arbitrary: ctx) (simp_all add: add_layer_ok)
  moreover have "context_ok \<lparr> crystal_params = (\<lambda>_. None), layer_multi_crystal = [] \<rparr>" by (simp add: context_ok_def)
  ultimately show ?thesis unfolding BuildRaypathReduceContext_def by blast
qed

lemma params_of_subgroup: "context_ok ctx \<Longrightarrow> is_subgroup (rp_p_retained (params_of ctx c))"
  by (auto simp: context_ok_def params_of_def RaypathCrystalReduceParams_new_def split: option.splits)

text \<open>One layer of a chain is symmetric to one of another: the same crystal, and paths of one class.\<close>

definition layer_equiv :: "RaypathReduceContext \<Rightarrow> u8 \<Rightarrow> RaypathChainSegment \<Rightarrow> RaypathChainSegment \<Rightarrow> bool" where
  "layer_equiv ctx sy a b \<longleftrightarrow> rcs_crystal_id a = rcs_crystal_id b \<and>
     (let p = params_of ctx (rcs_crystal_id a)
      in rcs_segment b \<in> set (ExpandRaypathByPeriod (rcs_segment a) sy (rp_sigma_a p) (rp_d_applicable p) (rp_p_retained p)
           (rp_b_applicable p) kHexagonalFnPeriod (rp_geom p)))"

abbreviation legal_chain :: "RaypathChainSegment list \<Rightarrow> bool" where
  "legal_chain chain \<equiv> list_all (\<lambda>seg. legal_path (rcs_segment seg)) chain"

lemma reduce_layer_eq_iff:
  assumes "context_ok ctx" and "legal_path (rcs_segment a)" and "legal_path (rcs_segment b)"
  shows "a\<lparr> rcs_segment := reduce_segment ctx sy a \<rparr> = b\<lparr> rcs_segment := reduce_segment ctx sy b \<rparr> \<longleftrightarrow> layer_equiv ctx sy a b"
proof (cases "rcs_crystal_id a = rcs_crystal_id b")
  case True
  let ?p = "params_of ctx (rcs_crystal_id a)"
  have "a\<lparr> rcs_segment := reduce_segment ctx sy a \<rparr> = b\<lparr> rcs_segment := reduce_segment ctx sy b \<rparr> \<longleftrightarrow>
      reduce_segment ctx sy b = reduce_segment ctx sy a"
    using True by (cases a, cases b) auto
  also have "\<dots> \<longleftrightarrow> rcs_segment b \<in> set (ExpandRaypathByPeriod (rcs_segment a) sy (rp_sigma_a ?p) (rp_d_applicable ?p)
      (rp_p_retained ?p) (rp_b_applicable ?p) kHexagonalFnPeriod (rp_geom ?p))"
    unfolding reduce_segment_def Let_def True [symmetric] kHexagonalFnPeriod_def
    by (rule raypath.reduce_eq_iff) (simp_all add: raypath_dom_def assms params_of_subgroup)
  finally show ?thesis using True by (simp add: layer_equiv_def Let_def)
next
  case False
  then show ?thesis by (cases a, cases b) (simp add: layer_equiv_def)
qed

lemma reduce_chain_eq_iff:
  assumes "context_ok ctx" and "legal_chain a" and "legal_chain b"
  shows "reduce_chain ctx sy a = reduce_chain ctx sy b \<longleftrightarrow> list_all2 (layer_equiv ctx sy) a b"
  using assms(2,3)
proof (induction a arbitrary: b)
  case (Cons x a)
  then show ?case using reduce_layer_eq_iff [OF assms(1)] by (cases b) (auto simp: reduce_chain_def)
qed (auto simp: reduce_chain_def)

end
