(* ===== verification/Reduce_Cache.thy ===== *)
theory Reduce_Cache
  imports Histogram_Reduce
begin

text \<open>
  Concurrent reads of one frame's reduction cache (\<open>ReducedRaypathHistogramOf\<close> in
  \<open>src/server/raypath_histogram_consumer.cpp\<close>).  The two critical sections of a call are single steps, the
  reduction between them is outside the lock, and any number of readers interleave.
\<close>

section \<open>The steps of the readers\<close>

datatype ('f, 'e) reader = Waiting u8 | Missed u8 | Returned u8 "('f, 'e) RaypathHistogramResult"

type_synonym ('f, 'e) readers = "nat \<Rightarrow> ('f, 'e) reader"

inductive read_step ::
  "('f, 'e::linordered_idom) RaypathHistogramResult \<Rightarrow> ('f, 'e) reduce_slots \<times> ('f, 'e) readers \<Rightarrow>
     ('f, 'e) reduce_slots \<times> ('f, 'e) readers \<Rightarrow> bool"
  for finest
where
  hit: "rd i = Waiting sy \<Longrightarrow> cache_lookup sy slots = Some r \<Longrightarrow>
    read_step finest (slots, rd) (slots, rd(i := Returned sy r))"
| miss: "rd i = Waiting sy \<Longrightarrow> cache_lookup sy slots = None \<Longrightarrow>
    read_step finest (slots, rd) (slots, rd(i := Missed sy))"
| publish: "rd i = Missed sy \<Longrightarrow> ReduceRaypathHistogram finest sy = Some computed \<Longrightarrow>
    cache_publish sy computed slots = (Some r, slots') \<Longrightarrow>
    read_step finest (slots, rd) (slots', rd(i := Returned sy r))"

inductive_cases read_step_cases: "read_step finest (slots, rd) (slots', rd')"

inductive read_reachable ::
  "('f, 'e::linordered_idom) RaypathHistogramResult \<Rightarrow> ('f, 'e) reduce_slots \<times> ('f, 'e) readers \<Rightarrow> bool"
  for finest
where
  start: "(\<forall>i. \<exists>sy. rd i = Waiting sy \<and> sy < 8) \<Longrightarrow> read_reachable finest (replicate 8 None, rd)"
| step: "read_reachable finest st \<Longrightarrow> read_step finest st st' \<Longrightarrow> read_reachable finest st'"

section \<open>Every reader gets the reduction it asked for\<close>

lemma slot_of_mod: "slot_of sy = unat sy mod 8"
proof -
  have "sy AND 7 = take_bit 3 sy" by (simp add: take_bit_eq_mask mask_eq_exp_minus_1)
  then show ?thesis by (simp add: slot_of_def take_bit_eq_mod unat_mod_distrib)
qed

lemma slot_of_less: "slot_of sy < 8"
  by (simp add: slot_of_mod)

lemma slot_of_inj: "a < 8 \<Longrightarrow> b < 8 \<Longrightarrow> slot_of a = slot_of b \<longleftrightarrow> a = b"
  by (simp add: slot_of_mod word_less_nat_alt word_unat_eq_iff)

definition cache_ok :: "('f, 'e::linordered_idom) RaypathHistogramResult \<Rightarrow> ('f, 'e) reduce_slots \<Rightarrow> bool" where
  "cache_ok finest slots \<longleftrightarrow> length slots = 8 \<and>
     (\<forall>sy r. sy < 8 \<longrightarrow> slots ! slot_of sy = Some r \<longrightarrow> ReduceRaypathHistogram finest sy = Some r)"

definition reader_ok :: "('f, 'e::linordered_idom) RaypathHistogramResult \<Rightarrow> ('f, 'e) reader \<Rightarrow> bool" where
  "reader_ok finest rd \<longleftrightarrow>
     (case rd of Waiting sy \<Rightarrow> sy < 8 | Missed sy \<Rightarrow> sy < 8
      | Returned sy r \<Rightarrow> sy < 8 \<and> ReduceRaypathHistogram finest sy = Some r)"

lemma cache_lookup_ok: "cache_ok finest slots \<Longrightarrow> sy < 8 \<Longrightarrow> cache_lookup sy slots = Some r \<Longrightarrow>
    ReduceRaypathHistogram finest sy = Some r"
  by (simp add: cache_ok_def cache_lookup_def)

lemma cache_publish_ok:
  assumes "cache_ok finest slots" and "sy < 8" and "ReduceRaypathHistogram finest sy = Some computed"
    and "cache_publish sy computed slots = (r, slots')"
  shows "cache_ok finest slots' \<and> r = Some computed \<and> (\<forall>k r. slots ! k = Some r \<longrightarrow> slots' ! k = Some r)"
proof -
  have len: "slot_of sy < length slots" using assms(1) slot_of_less by (simp add: cache_ok_def)
  show ?thesis
  proof (cases "slots ! slot_of sy")
    case None
    then have s': "slots' = slots[slot_of sy := Some computed]" and r: "r = Some computed"
      using assms(4) len by (auto simp: cache_publish_def)
    have "ReduceRaypathHistogram finest t = Some q" if "t < 8" "slots' ! slot_of t = Some q" for t q
      using that assms(1-3) slot_of_inj [OF assms(2), of t] len
      by (cases "t = sy") (auto simp: s' cache_ok_def nth_list_update)
    moreover have "slots' ! k = Some q" if "slots ! k = Some q" for k q
      using that None by (cases "k = slot_of sy") (simp_all add: s')
    ultimately show ?thesis using r assms(1) by (simp add: cache_ok_def s')
  next
    case (Some q)
    then have "slots' = slots" "r = Some q" using assms(4) by (simp_all add: cache_publish_def)
    moreover have "q = computed" using assms(1-3) Some unfolding cache_ok_def by fastforce
    ultimately show ?thesis using assms(1) by simp
  qed
qed

lemma read_step_ok:
  assumes "read_step finest (slots, rd) (slots', rd')" and "cache_ok finest slots" and "\<And>i. reader_ok finest (rd i)"
  shows "cache_ok finest slots' \<and> (\<forall>i. reader_ok finest (rd' i)) \<and> (\<forall>k r. slots ! k = Some r \<longrightarrow> slots' ! k = Some r)"
  using assms(1)
proof (cases rule: read_step_cases [consumes 1, case_names hit miss publish])
  case (hit i sy r)
  then show ?thesis using assms(2,3) assms(3) [of i] cache_lookup_ok [of finest slots sy r] by (simp add: reader_ok_def)
next
  case (miss i sy)
  then show ?thesis using assms(2,3) assms(3) [of i] by (simp add: reader_ok_def)
next
  case (publish i sy computed r)
  have "sy < 8" using assms(3) [of i] publish by (simp add: reader_ok_def)
  from cache_publish_ok [OF assms(2) this publish(3,4)] publish assms(3) \<open>sy < 8\<close> show ?thesis
    by (simp add: reader_ok_def)
qed

lemma read_reachable_ok:
  "read_reachable finest st \<Longrightarrow> cache_ok finest (fst st) \<and> (\<forall>i. reader_ok finest (snd st i))"
proof (induction rule: read_reachable.induct)
  case (start rd)
  have "reader_ok finest (rd i)" for i using spec [OF start, of i] by (auto simp: reader_ok_def)
  then show ?case by (simp add: cache_ok_def slot_of_less)
next
  case (step st st')
  then show ?case using read_step_ok [of finest "fst st" "snd st" "fst st'" "snd st'"] by simp
qed

text \<open>No reader waits for another: as long as the reduction returns, every reader that has not returned can move.\<close>

fun remaining :: "('f, 'e) reader \<Rightarrow> nat" where
  "remaining (Waiting sy) = 2"
| "remaining (Missed sy) = 1"
| "remaining (Returned sy r) = 0"

lemma read_step_enabled:
  assumes "read_reachable finest (slots, rd)" and "\<And>sy. ReduceRaypathHistogram finest sy \<noteq> None"
    and "remaining (rd i) \<noteq> 0"
  shows "\<exists>slots' x. read_step finest (slots, rd) (slots', rd(i := x)) \<and> remaining x < remaining (rd i)"
proof (cases "rd i")
  case (Waiting sy)
  show ?thesis
  proof (cases "cache_lookup sy slots")
    case None
    from miss [of rd i sy, OF Waiting None] Waiting show ?thesis
      by (intro exI [of _ slots] exI [of _ "Missed sy"]) simp
  next
    case (Some r)
    from hit [of rd i sy, OF Waiting Some] Waiting show ?thesis
      by (intro exI [of _ slots] exI [of _ "Returned sy r"]) simp
  qed
next
  case (Missed sy)
  obtain c where c: "ReduceRaypathHistogram finest sy = Some c" using assms(2) [of sy] by blast
  obtain r slots' where p: "cache_publish sy c slots = (r, slots')" by fastforce
  have "sy < 8" "cache_ok finest slots"
    using read_reachable_ok [OF assms(1)] Missed by (auto simp: reader_ok_def dest: spec [of _ i] split: reader.splits)
  from cache_publish_ok [OF this(2,1) c p] p have "cache_publish sy c slots = (Some c, slots')" by simp
  from publish [of rd i sy, OF Missed c this] Missed show ?thesis
    by (intro exI [of _ slots'] exI [of _ "Returned sy c"]) simp
qed (use assms(3) in simp)

text \<open>A call alone is one reader's two steps.\<close>

lemma read_alone:
  assumes "cache_ok finest slots" and "sy < 8" and "ReduceRaypathHistogram finest sy = Some c"
  shows "\<exists>slots'. ReducedRaypathHistogramOf (Some finest) sy (Some slots) = Some (Some c, Some slots') \<and> cache_ok finest slots' \<and>
    cache_lookup sy slots' = Some c"
proof (cases "cache_lookup sy slots")
  case None
  obtain r slots' where p: "cache_publish sy c slots = (r, slots')" by fastforce
  have "slot_of sy < length slots" using assms(1) slot_of_less by (simp add: cache_ok_def)
  then have "cache_lookup sy slots' = Some c"
    using None p by (auto simp: cache_publish_def cache_lookup_def)
  then show ?thesis
    using None p cache_publish_ok [OF assms p] assms(3) by (simp add: ReducedRaypathHistogramOf_def)
next
  case (Some q)
  then have "q = c" using cache_lookup_ok [OF assms(1,2) Some] assms(3) by simp
  then show ?thesis using Some assms(1) by (simp add: ReducedRaypathHistogramOf_def)
qed

end
