(* ===== verification/Work_Queue.thy ===== *)
theory Work_Queue
  imports Lumice_Prelude
begin

text \<open>
  The blocking queue between the threads of the server (\<open>src/util/queue.hpp\<close>).  Every method holds the
  queue's mutex from its first to its last statement, so each is one function on the queue's two
  members; a \<open>Get\<close> that finds nothing is the outcome \<open>Blocked\<close>, and the default constructed value a
  \<open>Get\<close> on a shut down queue returns is the outcome \<open>Interrupted\<close>.
\<close>

section \<open>The queue\<close>

record 'a Queue =
  queued :: "'a list"
  shut :: bool

datatype 'a taken = Blocked | Interrupted | Taken 'a

definition new_queue :: "'a Queue" where
  "new_queue = \<lparr>queued = [], shut = False\<rparr>"

definition Get :: "'a Queue \<Rightarrow> 'a taken \<times> 'a Queue" where
  "Get q = (if shut q then (Interrupted, q)
            else case queued q of [] \<Rightarrow> (Blocked, q) | e # rest \<Rightarrow> (Taken e, q\<lparr>queued := rest\<rparr>))"

definition Queue_Empty :: "'a Queue \<Rightarrow> bool" where
  "Queue_Empty q = (queued q = [])"

definition DrainAll :: "'a Queue \<Rightarrow> 'a list \<times> 'a Queue" where
  "DrainAll q = (queued q, q\<lparr>queued := []\<rparr>)"

definition Emplace :: "'a \<Rightarrow> 'a Queue \<Rightarrow> 'a Queue" where
  "Emplace e q = (if shut q then q else q\<lparr>queued := queued q @ [e]\<rparr>)"

definition EmplaceMany :: "'a list \<Rightarrow> 'a Queue \<Rightarrow> 'a Queue" where
  "EmplaceMany items q =
     (if items = [] then q else if \<not> shut q then q\<lparr>queued := queued q @ items\<rparr> else q)"

definition Shutdown :: "'a Queue \<Rightarrow> 'a Queue" where
  "Shutdown q = (if shut q then q else q\<lparr>queued := [], shut := True\<rparr>)"

definition Start_queue :: "'a Queue \<Rightarrow> 'a Queue" where
  "Start_queue q = q\<lparr>shut := False\<rparr>"

lemmas queue_defs = Get_def Queue_Empty_def DrainAll_def Emplace_def EmplaceMany_def Shutdown_def Start_queue_def

text \<open>Every method takes the lock once; a history is a list of calls with what each handed out.\<close>

datatype 'a queue_call = Put 'a | PutMany "'a list" | Take | Drain

fun call_queue :: "'a queue_call \<Rightarrow> 'a Queue \<Rightarrow> 'a list \<times> 'a Queue" where
  "call_queue (Put e) q = ([], Emplace e q)"
| "call_queue (PutMany es) q = ([], EmplaceMany es q)"
| "call_queue Take q = (case Get q of (Taken e, q') \<Rightarrow> ([e], q') | (_, q') \<Rightarrow> ([], q'))"
| "call_queue Drain q = DrainAll q"

fun call_queues :: "'a queue_call list \<Rightarrow> 'a Queue \<Rightarrow> 'a list \<times> 'a Queue" where
  "call_queues [] q = ([], q)"
| "call_queues (c # cs) q =
     (let (out, q') = call_queue c q; (outs, q'') = call_queues cs q' in (out @ outs, q''))"

fun put_of :: "'a queue_call \<Rightarrow> 'a list" where
  "put_of (Put e) = [e]"
| "put_of (PutMany es) = es"
| "put_of _ = []"

section \<open>What the clients rely on\<close>

text \<open>
  The contract of a work queue: its contents in order, whether it accepts, and the four calls.
  \<open>weight\<close> is any additive measure of an element; the pipeline uses its credit and its rays.
\<close>

locale work_queue =
  fixes contents :: "'q \<Rightarrow> 'a list" and accepting :: "'q \<Rightarrow> bool"
    and put :: "'a \<Rightarrow> 'q \<Rightarrow> 'q" and put_all :: "'a list \<Rightarrow> 'q \<Rightarrow> 'q"
    and take_one :: "'q \<Rightarrow> 'a taken \<times> 'q" and take_all :: "'q \<Rightarrow> 'a list \<times> 'q"
    and close_queue :: "'q \<Rightarrow> 'q" and open_queue :: "'q \<Rightarrow> 'q"
  assumes put_contents: "contents (put x q) = contents q @ (if accepting q then [x] else [])"
    and put_all_contents: "contents (put_all xs q) = contents q @ (if accepting q then xs else [])"
    and put_accepting: "accepting (put x q) = accepting q" "accepting (put_all xs q) = accepting q"
    and take_result: "fst (take_one q) = (if \<not> accepting q then Interrupted
        else if contents q = [] then Blocked else Taken (hd (contents q)))"
    and take_idle: "\<not> accepting q \<or> contents q = [] \<Longrightarrow> snd (take_one q) = q"
    and take_contents: "contents (snd (take_one q)) = (if accepting q then tl (contents q) else contents q)"
    and take_all_result: "fst (take_all q) = contents q" "contents (snd (take_all q)) = []"
    and take_accepting: "accepting (snd (take_one q)) = accepting q"
        "accepting (snd (take_all q)) = accepting q"
    and close_result: "\<not> accepting (close_queue q)"
        "accepting q \<Longrightarrow> contents (close_queue q) = []"
        "\<not> accepting q \<Longrightarrow> contents (close_queue q) = contents q"
    and open_result: "accepting (open_queue q)" "contents (open_queue q) = contents q"
begin

lemma taken_head:
  assumes "take_one q = (Taken e, q')"
  shows "accepting q \<and> contents q = e # contents q' \<and> accepting q'"
  using assms take_result [of q] take_contents [of q] take_accepting(1) [of q]
  by (cases "contents q") (auto split: if_splits)

lemma not_taken_same: "take_one q = (r, q') \<Longrightarrow> \<forall>e. r \<noteq> Taken e \<Longrightarrow> q' = q"
  using take_result [of q] take_idle [of q] by (auto split: if_splits)

lemma interrupted_iff: "fst (take_one q) = Interrupted \<longleftrightarrow> \<not> accepting q"
  by (simp add: take_result)

lemma blocked_iff: "fst (take_one q) = Blocked \<longleftrightarrow> accepting q \<and> contents q = []"
  by (simp add: take_result)

lemma put_all_is_puts: "contents (put_all xs q) = contents (fold put xs q)"
proof (induction xs arbitrary: q)
  case Nil
  show ?case by (simp add: put_all_contents)
next
  case (Cons x xs)
  then show ?case by (simp add: put_all_contents put_contents put_accepting flip: Cons.IH)
qed

lemma reopened_empty: "accepting q \<Longrightarrow> contents (open_queue (close_queue q)) = []"
  by (simp add: open_result close_result)

end

interpretation wq: work_queue queued "\<lambda>q. \<not> shut q" Emplace EmplaceMany Get DrainAll Shutdown Start_queue
  by unfold_locales (auto simp: queue_defs split: list.splits)

section \<open>First in, first out\<close>

lemma call_queue_fifo:
  "\<not> shut q \<Longrightarrow> call_queue c q = (out, q') \<Longrightarrow> out @ queued q' = queued q @ put_of c \<and> \<not> shut q'"
  by (cases c) (auto simp: queue_defs split: list.splits if_splits prod.splits taken.splits)

lemma call_queues_fifo:
  "\<not> shut q \<Longrightarrow> call_queues cs q = (out, q') \<Longrightarrow>
     out @ queued q' = queued q @ concat (map put_of cs) \<and> \<not> shut q'"
proof (induction cs arbitrary: q out q')
  case (Cons c cs)
  obtain o1 q1 where c: "call_queue c q = (o1, q1)" by fastforce
  obtain o2 q2 where cs: "call_queues cs q1 = (o2, q2)" by fastforce
  from call_queue_fifo [OF Cons.prems(1) c] have 1: "o1 @ queued q1 = queued q @ put_of c" "\<not> shut q1" by auto
  from Cons.IH [OF 1(2) cs] have 2: "o2 @ queued q2 = queued q1 @ concat (map put_of cs)" "\<not> shut q2" by auto
  have "out = o1 @ o2" "q' = q2" using Cons.prems(2) c cs by auto
  moreover have "o1 @ o2 @ queued q2 = queued q @ put_of c @ concat (map put_of cs)"
    by (metis 1(1) 2(1) append.assoc)
  ultimately show ?case using 2(2) by simp
qed simp

end
