(* ===== verification/Dispatch_Grain.thy ===== *)
theory Dispatch_Grain
  imports Work_Queue
begin

text \<open>
  How many rays cross the server's queues at a time and how they are accounted: the batches of
  \<open>src/core/simulator.hpp\<close>, the budget conversion of \<open>src/server/ray_num_semantics.hpp\<close>, the publication and
  refund pair of \<open>src/server/scene_batch_publish.hpp\<close>, and the sizes \<open>GenerateScene\<close> and
  \<open>EffectiveDispatchCap\<close> of \<open>src/server/server.cpp\<close> choose.  The budget conversion is on 64-bit words;
  ray and batch counts of the accounting are natural numbers (all of them stay far below \<open>2 ^ 63\<close>).
\<close>

section \<open>Batches\<close>

text \<open>
  A \<open>SimBatch\<close> holds pointers to its scene and its renderers; the accounting reads the number of
  wavelengths of the scene's spectrum (one for a standard illuminant), and \<open>degenerate\<close> is the test
  of \<open>SimulateOneWavelengthWithBackend\<close> for a scene without scattering layers or a renderer without
  pixels.
\<close>

record SimBatch =
  ray_num :: nat
  physics_ray_num :: nat
  wavelengths :: nat
  degenerate :: bool
  batch_generation :: nat

definition PhysicsRayNum :: "SimBatch \<Rightarrow> nat" where
  "PhysicsRayNum b =
     (if physics_ray_num b = 0 \<or> ray_num b \<le> physics_ray_num b then ray_num b else physics_ray_num b)"

definition PhysicsBatchCount :: "SimBatch \<Rightarrow> nat" where
  "PhysicsBatchCount b =
     (let per = PhysicsRayNum b in if per = 0 then 1 else (ray_num b + per - 1) div per)"

text \<open>The credit \<open>GenerateScene\<close> charges a batch with.\<close>

definition batch_credit :: "SimBatch \<Rightarrow> nat" where
  "batch_credit b = PhysicsBatchCount b * wavelengths b"

text \<open>The loop of \<open>Simulator::Run\<close> over one batch: the sizes of its physics batches.\<close>

fun sub_ray_nums :: "nat \<Rightarrow> nat \<Rightarrow> nat list" where
  "sub_ray_nums per left =
     (if left = 0 \<or> per = 0 then [] else min per left # sub_ray_nums per (left - per))"

declare sub_ray_nums.simps [simp del]

text \<open>The wavelength calls of each physics batch, as the ray count each call traces.\<close>

definition batch_calls :: "SimBatch \<Rightarrow> nat list list" where
  "batch_calls b = map (replicate (wavelengths b)) (sub_ray_nums (PhysicsRayNum b) (ray_num b))"

section \<open>Budgets and grains\<close>

definition kInfSize :: u64 where
  "kInfSize = 0xFFFFFFFFFFFFFFFF"

definition PerWavelengthRayNum :: "u64 \<Rightarrow> u64 \<Rightarrow> u64" where
  "PerWavelengthRayNum total_num n_wl = (if n_wl \<le> 1 then total_num else (total_num + n_wl - 1) div n_wl)"

definition EffectiveDispatchCap :: "bool \<Rightarrow> bool \<Rightarrow> nat \<Rightarrow> nat \<Rightarrow> nat" where
  "EffectiveDispatchCap gpu_route backend_active nominal_cap fallback_cap =
     (if gpu_route \<and> \<not> backend_active then min nominal_cap fallback_cap else nominal_cap)"

definition kMaxSceneCnt :: int where "kMaxSceneCnt = 128"
definition kDefaultRayNum :: nat where "kDefaultRayNum = 128"

text \<open>
  The physics batches per handoff.  On the CPU route the code divides by the number of wavelengths:
  \<open>None\<close> is the division by zero an empty wavelength list leads to.
\<close>

definition handoff_batches :: "bool \<Rightarrow> nat \<Rightarrow> nat \<Rightarrow> nat option" where
  "handoff_batches gpu_route handoff_sim_data nsimdata =
     (if gpu_route then Some 1
      else if nsimdata = 0 then None
      else Some (max 1 ((handoff_sim_data + nsimdata - 1) div nsimdata)))"

definition queued_handoffs :: "bool \<Rightarrow> nat \<Rightarrow> nat" where
  "queued_handoffs windows workers = max (if windows then workers div 4 else workers) 2"

text \<open>The in-flight ceiling and the level below which the consumer wakes the producer.\<close>

definition scene_cnt_limits :: "bool \<Rightarrow> bool \<Rightarrow> nat \<Rightarrow> nat \<Rightarrow> nat \<Rightarrow> int \<times> int" where
  "scene_cnt_limits gpu_route windows active_workers handoff nsimdata =
     (if gpu_route then (kMaxSceneCnt, kMaxSceneCnt div 2)
      else let workers = max active_workers 1;
               queued = queued_handoffs windows workers;
               per_handoff = handoff * nsimdata
           in (max (int ((workers + queued) * per_handoff)) kMaxSceneCnt,
               max (int ((workers + queued div 2) * per_handoff)) (kMaxSceneCnt div 2)))"

section \<open>Publication and refund\<close>

definition AccountThenPublishBatch ::
    "int \<Rightarrow> int \<Rightarrow> SimBatch Queue \<Rightarrow> SimBatch \<Rightarrow> int \<times> SimBatch Queue" where
  "AccountThenPublishBatch sim_scene_cnt credit q b = (sim_scene_cnt + credit, Emplace b q)"

definition DiscardQueuedBatchesThenRefund ::
    "int \<Rightarrow> nat \<Rightarrow> SimBatch Queue \<Rightarrow> (int \<times> SimBatch Queue) \<times> nat \<times> nat" where
  "DiscardQueuedBatchesThenRefund sim_scene_cnt credit_per_physics_batch q =
     (let (dropped, q') = DrainAll q;
          rays = sum_list (map ray_num dropped);
          refund = sum_list (map (\<lambda>b. PhysicsBatchCount b * credit_per_physics_batch) dropped)
      in ((sim_scene_cnt - int refund, q'), rays, length dropped))"

section \<open>A batch is charged what it produces\<close>

lemma sub_ray_nums_sum: "0 < per \<or> left = 0 \<Longrightarrow> sum_list (sub_ray_nums per left) = left"
  by (induction per left rule: sub_ray_nums.induct)
    (subst sub_ray_nums.simps, auto simp: sub_ray_nums.simps)

lemma sub_ray_nums_bounds: "r \<in> set (sub_ray_nums per left) \<Longrightarrow> 0 < r \<and> r \<le> per"
  by (induction per left rule: sub_ray_nums.induct) (subst (asm) (2) sub_ray_nums.simps, auto split: if_splits)

lemma sub_ray_nums_length: "0 < per \<Longrightarrow> length (sub_ray_nums per left) = (left + per - 1) div per"
proof (induction per left rule: sub_ray_nums.induct)
  case (1 per left)
  show ?case
  proof (cases "left = 0")
    case True
    then show ?thesis using 1(2) by (simp add: sub_ray_nums.simps)
  next
    case False
    have "length (sub_ray_nums per left) = Suc ((left - per + per - 1) div per)"
      using 1 False by (subst sub_ray_nums.simps) simp
    also have "\<dots> = (left + per - 1) div per"
      using 1(2) False by (cases "left \<le> per") (auto simp: div_if le_div_geq)
    finally show ?thesis .
  qed
qed

lemma PhysicsRayNum_pos: "0 < PhysicsRayNum b \<longleftrightarrow> 0 < ray_num b"
  by (auto simp: PhysicsRayNum_def)

lemma PhysicsRayNum_le: "PhysicsRayNum b \<le> ray_num b"
  by (simp add: PhysicsRayNum_def)

lemma batch_calls_length: "0 < ray_num b \<Longrightarrow> length (batch_calls b) = PhysicsBatchCount b"
  by (simp add: batch_calls_def PhysicsBatchCount_def Let_def sub_ray_nums_length PhysicsRayNum_pos)

lemma batch_calls_credit:
  assumes "0 < ray_num b"
  shows "length (concat (batch_calls b)) = batch_credit b"
proof -
  have "length (concat (map (replicate n) xs)) = length xs * n" for n and xs :: "nat list"
    by (induction xs) auto
  then show ?thesis
    using batch_calls_length [OF assms] by (simp add: batch_credit_def batch_calls_def)
qed

lemma batch_calls_rays: "sum_list (concat (batch_calls b)) = ray_num b * wavelengths b"
proof -
  have "sum_list (concat (map (replicate n) xs)) = sum_list xs * n" for n and xs :: "nat list"
    by (induction xs) (auto simp: sum_list_replicate algebra_simps)
  then show ?thesis
    using sub_ray_nums_sum [of "PhysicsRayNum b" "ray_num b"] PhysicsRayNum_pos [of b]
    by (cases "ray_num b = 0") (auto simp: batch_calls_def)
qed

lemma batch_calls_positive: "call \<in> set (batch_calls b) \<Longrightarrow> r \<in> set call \<Longrightarrow> 0 < r"
  using sub_ray_nums_bounds by (fastforce simp: batch_calls_def)

lemma PhysicsBatchCount_pos: "0 < PhysicsBatchCount b"
  using PhysicsRayNum_le [of b]
  by (auto simp: PhysicsBatchCount_def Let_def div_greater_zero_iff)

lemma credit_zero_no_rays: "batch_credit b = 0 \<Longrightarrow> ray_num b * wavelengths b = 0"
  using PhysicsBatchCount_pos [of b] by (simp add: batch_credit_def)

section \<open>The budget covers the request\<close>

lemma PerWavelengthRayNum_unat:
  assumes "1 < n" and "unat total_num + unat n < 2 ^ 64"
  shows "unat (PerWavelengthRayNum total_num n) = (unat total_num + unat n - 1) div unat n"
proof -
  have n: "1 < unat n" using assms(1) by (simp add: word_less_nat_alt)
  have sum: "unat (total_num + n) = unat total_num + unat n" using assms(2) by (simp add: unat_word_ariths)
  then have "1 \<le> total_num + n" using n by (simp add: word_le_nat_alt)
  then have "unat (total_num + n - 1) = unat total_num + unat n - 1" using sum by (simp add: unat_sub)
  moreover have "\<not> n \<le> 1" using assms(1) by (simp add: not_le)
  ultimately show ?thesis by (simp add: PerWavelengthRayNum_def unat_div)
qed

lemma ceil_div_covers:
  fixes t n :: nat
  assumes "0 < n"
  shows "t \<le> (t + n - 1) div n * n" and "(t + n - 1) div n * n < t + n"
proof -
  have "(t + n - 1) div n * n + (t + n - 1) mod n = t + n - 1" by (rule div_mult_mod_eq)
  moreover have "(t + n - 1) mod n < n" using assms by simp
  ultimately show "t \<le> (t + n - 1) div n * n" and "(t + n - 1) div n * n < t + n" using assms by linarith+
qed

section \<open>Discarding gives back what publishing charged\<close>

text \<open>A producer's burst: every batch accounted and published in turn.\<close>

fun publish_batches :: "int \<Rightarrow> SimBatch Queue \<Rightarrow> SimBatch list \<Rightarrow> int \<times> SimBatch Queue" where
  "publish_batches cnt q [] = (cnt, q)"
| "publish_batches cnt q (b # bs) =
     (let (cnt', q') = AccountThenPublishBatch cnt (int (batch_credit b)) q b in publish_batches cnt' q' bs)"

lemma publish_batches_result:
  "\<not> shut q \<Longrightarrow> publish_batches cnt q bs =
     (cnt + int (sum_list (map batch_credit bs)), q\<lparr>queued := queued q @ bs\<rparr>)"
  by (induction bs arbitrary: cnt q) (auto simp: AccountThenPublishBatch_def Emplace_def)

lemma refund_is_credit:
  "\<forall>b\<in>set bs. wavelengths b = n \<Longrightarrow>
     sum_list (map (\<lambda>b. PhysicsBatchCount b * n) bs) = sum_list (map batch_credit bs)"
  by (induction bs) (auto simp: batch_credit_def)

end
