(* ===== verification/Ledger_Amounts.thy ===== *)
theory Ledger_Amounts
  imports Dispatch_Grain
begin

text \<open>
  What is in flight is counted twice over by the server: in credits of \<open>sim_scene_cnt_\<close> (one per call
  that will yield a \<open>SimData\<close>) and in rays.  An \<open>amount\<close> carries both; amounts form a commutative
  cancellative monoid, so the library's sums and their rules apply to them.
\<close>

section \<open>Amounts\<close>

datatype amount = Amount (credit_of: nat) (rays_of: nat)

instantiation amount :: cancel_comm_monoid_add
begin

definition "0 = Amount 0 0"
definition "a + b = Amount (credit_of a + credit_of b) (rays_of a + rays_of b)"
definition "a - b = Amount (credit_of a - credit_of b) (rays_of a - rays_of b)"

instance
  by standard (auto simp: zero_amount_def plus_amount_def minus_amount_def amount.expand)

end

lemma amount_sel [simp]:
  "credit_of 0 = 0" "rays_of 0 = 0"
  "credit_of (a + b) = credit_of a + credit_of b" "rays_of (a + b) = rays_of a + rays_of b"
  "credit_of (a - b) = credit_of a - credit_of b" "rays_of (a - b) = rays_of a - rays_of b"
  by (simp_all add: zero_amount_def plus_amount_def minus_amount_def)

lemma amount_eq_iff: "a = b \<longleftrightarrow> credit_of a = credit_of b \<and> rays_of a = rays_of b"
  by (auto simp: amount.expand)

lemma amount_add_zero [simp]: "a + b = 0 \<longleftrightarrow> a = 0 \<and> b = (0::amount)"
  by (auto simp: amount_eq_iff)

lemma Amount_zero [simp]: "Amount 0 0 = 0"
  by (simp add: zero_amount_def)

lemma sum_list_amount_sel:
  "credit_of (sum_list as) = sum_list (map credit_of as)" "rays_of (sum_list as) = sum_list (map rays_of as)"
  by (induction as) auto

lemma sum_list_amount_zero: "sum_list (as::amount list) = 0 \<longleftrightarrow> (\<forall>a\<in>set as. a = 0)"
  by (induction as) auto

text \<open>Replacing one element of a list of threads moves only that element's share.\<close>

lemma sum_list_update_amount:
  fixes f :: "'a \<Rightarrow> amount"
  shows "i < length xs \<Longrightarrow> sum_list (map f (xs[i := x])) + f (xs ! i) = sum_list (map f xs) + f x"
proof (induction xs arbitrary: i)
  case (Cons y ys)
  then show ?case by (cases i) (auto simp: ac_simps)
qed simp

lemma sum_list_update_nat:
  fixes f :: "'a \<Rightarrow> nat"
  shows "i < length xs \<Longrightarrow> sum_list (map f (xs[i := x])) + f (xs ! i) = sum_list (map f xs) + f x"
proof (induction xs arbitrary: i)
  case (Cons y ys)
  then show ?case by (cases i) auto
qed simp

text \<open>An amount without credit carries no rays: nothing escapes the count.\<close>

definition covered :: "amount \<Rightarrow> bool" where
  "covered a \<longleftrightarrow> (credit_of a = 0 \<longrightarrow> rays_of a = 0)"

lemma covered_add [simp, intro]: "covered a \<Longrightarrow> covered b \<Longrightarrow> covered (a + b)"
  by (auto simp: covered_def)

lemma covered_zero [simp]: "covered 0"
  by (simp add: covered_def)

lemma covered_sum_list: "\<forall>a\<in>set as. covered a \<Longrightarrow> covered (sum_list as)"
  by (induction as) auto

lemma covered_no_credit: "covered a \<Longrightarrow> credit_of a = 0 \<Longrightarrow> a = 0"
  by (simp add: covered_def amount_eq_iff)

section \<open>Batches, calls and data\<close>

text \<open>
  Of a \<open>SimData\<close> (\<open>src/config/sim_data.hpp\<close>) the accounting reads the generation, the number of ray
  segments and of root rays, and the credit it settles.
\<close>

record SimData =
  data_generation :: nat
  ray_seg_count :: nat
  root_ray_count :: nat
  sim_scene_credit :: nat

definition batch_amount :: "SimBatch \<Rightarrow> amount" where
  "batch_amount b = Amount (batch_credit b) (ray_num b * wavelengths b)"

definition data_amount :: "SimData \<Rightarrow> amount" where
  "data_amount d = Amount (sim_scene_credit d) (root_ray_count d)"

definition call_amount :: "nat \<Rightarrow> amount" where
  "call_amount r = Amount 1 r"

definition batches_amount :: "SimBatch list \<Rightarrow> amount" where
  "batches_amount bs = sum_list (map batch_amount bs)"

definition datas_amount :: "SimData list \<Rightarrow> amount" where
  "datas_amount ds = sum_list (map data_amount ds)"

definition calls_amount :: "nat list \<Rightarrow> amount" where
  "calls_amount rs = sum_list (map call_amount rs)"

lemma amounts_of_lists [simp]:
  "batches_amount [] = 0" "batches_amount (b # bs) = batch_amount b + batches_amount bs"
  "batches_amount (bs @ bs') = batches_amount bs + batches_amount bs'"
  "datas_amount [] = 0" "datas_amount (d # ds) = data_amount d + datas_amount ds"
  "datas_amount (ds @ ds') = datas_amount ds + datas_amount ds'"
  "calls_amount [] = 0" "calls_amount (r # rs) = call_amount r + calls_amount rs"
  "calls_amount (rs @ rs') = calls_amount rs + calls_amount rs'"
  by (simp_all add: batches_amount_def datas_amount_def calls_amount_def)

lemma calls_amount_sel: "credit_of (calls_amount rs) = length rs" "rays_of (calls_amount rs) = sum_list rs"
  by (induction rs) (auto simp: call_amount_def)

lemma batch_calls_amount: "0 < ray_num b \<Longrightarrow> calls_amount (concat (batch_calls b)) = batch_amount b"
  by (simp add: amount_eq_iff calls_amount_sel batch_calls_credit batch_calls_rays batch_amount_def)

lemma batch_covered [simp]: "covered (batch_amount b)"
  using credit_zero_no_rays by (simp add: covered_def batch_amount_def)

lemma batches_covered [simp]: "covered (batches_amount bs)"
  by (induction bs) auto

lemma call_covered [simp]: "covered (call_amount r)"
  by (simp add: covered_def call_amount_def)

lemma calls_covered [simp]: "covered (calls_amount rs)"
  by (induction rs) auto

lemma data_covered [simp]: "0 < sim_scene_credit d \<Longrightarrow> covered (data_amount d)"
  by (simp add: covered_def data_amount_def)

lemma datas_covered: "\<forall>d\<in>set ds. 0 < sim_scene_credit d \<Longrightarrow> covered (datas_amount ds)"
  by (induction ds) auto

lemma batches_credit: "credit_of (batches_amount bs) = sum_list (map batch_credit bs)"
  by (induction bs) (auto simp: batch_amount_def)

lemma batches_rays: "\<forall>b\<in>set bs. wavelengths b = n \<Longrightarrow>
    rays_of (batches_amount bs) = sum_list (map ray_num bs) * n"
  by (induction bs) (auto simp: batch_amount_def algebra_simps)

end
