(* ===== verification/Server_Pipeline.thy ===== *)
theory Server_Pipeline
  imports Ledger_Amounts
begin

text \<open>
  The threads of the server (\<open>src/server/server.cpp\<close>) and of its simulators (\<open>src/core/simulator.cpp\<close>)
  as one transition system: the producer \<open>GenerateScene\<close>, the consumer \<open>ConsumeData\<close>, the workers
  \<open>Simulator::Run\<close>, the control thread that commits, starts, stops and continues runs, and an observer
  that polls \<open>GetStatus\<close>.

  One step is one access to shared state: an atomic load or store, one call of a queue, or one
  section under a mutex.  The order of the steps of a thread is the order of the statements, and a
  schedule is any sequence of threads.  \<open>kTerminating\<close> and the destructor are not modelled, and one
  control thread issues the commands, as the API requires.  The fields \<open>issued\<close>, \<open>lost\<close>, \<open>delivered\<close> and
  \<open>stale\<close> are history: no step reads them.
\<close>

section \<open>The shared state\<close>

datatype ServerState = kStopped | kRunning
datatype SessionKind = kRender | kAnalysis
datatype ServerStatus = kIdle | kServerRunning

text \<open>Of a scene the threads read its ray budget, its wavelengths and whether it can be rendered.\<close>

record RunScene =
  scene_ray_num :: u64
  scene_wavelengths :: nat
  scene_degenerate :: bool

text \<open>What the construction of the server and the environment fix.\<close>

record server_config =
  gpu_server :: bool
  windows_build :: bool
  dispatch_ray_num :: "bool \<Rightarrow> nat"
  handoff_sim_data :: nat
  xyz_drain_batches :: nat

text \<open>The locals of \<open>GenerateScene\<close>.\<close>

record gen_locals =
  gl_gpu :: bool
  gl_generation :: nat
  gl_nsimdata :: nat
  gl_degenerate :: bool
  gl_batch_cap :: nat
  gl_physics :: nat
  gl_per_wl :: nat
  gl_committed :: nat
  gl_iter_cap :: nat

text \<open>The positions of a thread inside \<open>PublishDrainedEpochIfSettled\<close>, with the epoch it has read.\<close>

datatype pub =
    Pub_State | Pub_Epoch | Pub_Started nat | Pub_Active nat | Pub_Count nat | Pub_Empty nat | Pub_Store nat

datatype producer_pc =
    P_Parked | P_Entry | P_Started | P_Capture | P_Head gen_locals | P_Drain gen_locals
  | P_Refund gen_locals "SimBatch list" | P_Credit gen_locals | P_Publish gen_locals SimBatch
  | P_Stop1 gen_locals nat | P_Throttle gen_locals nat | P_Pred gen_locals nat | P_Block gen_locals nat
  | P_Asleep gen_locals nat | P_Stop2 gen_locals nat | P_Exit | P_Signal pub | P_Leave | P_Crashed

datatype consumer_pc =
    C_Parked | C_Loop | C_Get | C_Got SimData | C_Check SimData | C_Settle SimData | C_Wake
  | C_Signal pub | C_Leave

datatype worker_pc =
    W_Parked | W_Entry | W_Loop | W_Get | W_Got SimBatch | W_Trace SimBatch bool "nat list" "nat list list"
  | W_Drain worker_pc | W_Flush | W_Idle | W_Leave

record worker =
  required_mode :: "SessionKind option"
  worker_gen :: nat
  worker_at :: worker_pc
  stop :: bool
  idle :: bool
  backend_active :: bool
  prev_generation :: nat
  pending :: "SimData list"
  win_calls :: nat
  win_rays :: nat
  win_generation :: nat

datatype command = Op_Stop | Op_Commit RunScene | Op_Analyze RunScene "u64 option" | Op_Continue u64

datatype control_pc =
    K_Idle | K_Stop command | K_ShutScene command | K_ShutData command | K_Notify command
  | K_StopWorkers command nat | K_Wait command | K_Reset command | K_Bind command | K_Start

datatype observer_pc =
    O_Idle | O_Started | O_Workers nat | O_Count | O_Active | O_Said ServerStatus

record server =
  srv_state :: ServerState
  start_generation :: nat
  active_workers :: nat
  work_started :: bool
  scene_gen_active :: bool
  sim_scene_cnt :: int
  scene_cnt_cap :: int
  scene_cnt_wake :: int
  scene_queue :: "SimBatch Queue"
  data_queue :: "SimData Queue"
  session_mode :: SessionKind
  active_scene :: "RunScene option"
  ray_num_override :: "u64 option"
  scene_generation :: nat
  committed_epoch :: nat
  drained_epoch :: nat
  fallback_invalidated :: bool
  has_ever_consumed :: bool
  server_status :: ServerStatus
  producer_gen :: nat
  producer_at :: producer_pc
  consumer_gen :: nat
  consumer_at :: consumer_pc
  workers :: "worker list"
  control_at :: control_pc
  observer_at :: observer_pc
  issued :: amount
  lost :: amount
  delivered :: amount
  stale :: amount

section \<open>Access to the shared state\<close>

definition ReadBackendActive :: "server_config \<Rightarrow> server \<Rightarrow> bool" where
  "ReadBackendActive cfg s =
     (let simulators = (if gpu_server cfg then take 1 (workers s) else workers s)
      in if length simulators \<noteq> 1 then True else backend_active (simulators ! 0))"

text \<open>A \<open>SimData\<close> given to a shut down queue is gone; the history records it.\<close>

definition emplace_data :: "SimData list \<Rightarrow> server \<Rightarrow> server" where
  "emplace_data ds s = s\<lparr>data_queue := EmplaceMany ds (data_queue s),
     lost := (if shut (data_queue s) then lost s + datas_amount ds else lost s)\<rparr>"

definition wake_producer :: "server \<Rightarrow> server" where
  "wake_producer s = (case producer_at s of P_Asleep g n \<Rightarrow> s\<lparr>producer_at := P_Pred g n\<rparr> | _ \<Rightarrow> s)"

definition shut_scene_queue :: "server \<Rightarrow> server" where
  "shut_scene_queue s = s\<lparr>scene_queue := Shutdown (scene_queue s),
     lost := lost s + (if shut (scene_queue s) then 0 else batches_amount (queued (scene_queue s)))\<rparr>"

definition shut_data_queue :: "server \<Rightarrow> server" where
  "shut_data_queue s = s\<lparr>data_queue := Shutdown (data_queue s),
     lost := lost s + (if shut (data_queue s) then 0 else datas_amount (queued (data_queue s)))\<rparr>"

text \<open>Leaving the wait of \<open>RunPersistentLoop\<close>, and coming back to it.\<close>

definition may_enter :: "server \<Rightarrow> nat \<Rightarrow> bool" where
  "may_enter s my_gen \<longleftrightarrow> srv_state s = kRunning \<and> start_generation s \<noteq> my_gen"

definition enter :: "server \<Rightarrow> server" where
  "enter s = s\<lparr>active_workers := active_workers s + 1\<rparr>"

definition leave :: "server \<Rightarrow> server" where
  "leave s = s\<lparr>active_workers := active_workers s - 1\<rparr>"

section \<open>The drain signal\<close>

text \<open>
  One access of \<open>PublishDrainedEpochIfSettled\<close>: the position it continues at (\<open>None\<close> when the function
  returns) and the drained epoch.  The compare-exchange loop stores the maximum.
\<close>

fun publish_step :: "server \<Rightarrow> pub \<Rightarrow> pub option \<times> nat" where
  "publish_step s Pub_State = (if srv_state s \<noteq> kRunning then None else Some Pub_Epoch, drained_epoch s)"
| "publish_step s Pub_Epoch = (Some (Pub_Started (committed_epoch s)), drained_epoch s)"
| "publish_step s (Pub_Started e) = (if \<not> work_started s then None else Some (Pub_Active e), drained_epoch s)"
| "publish_step s (Pub_Active e) = (if scene_gen_active s then None else Some (Pub_Count e), drained_epoch s)"
| "publish_step s (Pub_Count e) = (if sim_scene_cnt s > 0 then None else Some (Pub_Empty e), drained_epoch s)"
| "publish_step s (Pub_Empty e) = (if \<not> Queue_Empty (data_queue s) then None else Some (Pub_Store e), drained_epoch s)"
| "publish_step s (Pub_Store e) = (None, max (drained_epoch s) e)"

section \<open>The producer\<close>

definition analysis_session :: "server \<Rightarrow> bool" where
  "analysis_session s \<longleftrightarrow> session_mode s = kAnalysis"

definition ActiveWorkers :: "server \<Rightarrow> worker list" where
  "ActiveWorkers s =
     filter (\<lambda>w. required_mode w = None \<or> required_mode w = Some (session_mode s)) (workers s)"

definition total_ray_num :: "server \<Rightarrow> RunScene \<Rightarrow> u64" where
  "total_ray_num s sc =
     (case ray_num_override s of Some n \<Rightarrow> if analysis_session s then n else scene_ray_num sc
      | None \<Rightarrow> scene_ray_num sc)"

definition per_wl_ray_num :: "server \<Rightarrow> RunScene \<Rightarrow> u64" where
  "per_wl_ray_num s sc =
     (let total_num = total_ray_num s sc
      in if total_num = kInfSize then total_num
         else PerWavelengthRayNum total_num (of_nat (scene_wavelengths sc)))"

text \<open>
  What \<open>GenerateScene\<close> derives before its loop, under the scene's lock and from the environment;
  \<open>None\<close> is the division by zero of the CPU route's handoff size.
\<close>

definition gen_setup :: "server_config \<Rightarrow> server \<Rightarrow> RunScene \<Rightarrow> (gen_locals \<times> int \<times> int) option" where
  "gen_setup cfg s sc =
     (let gpu = (gpu_server cfg \<and> \<not> analysis_session s);
          nsim = scene_wavelengths sc;
          dispatch = dispatch_ray_num cfg gpu
      in map_option (\<lambda>handoff.
           let (cap, wake) = scene_cnt_limits gpu (windows_build cfg) (length (ActiveWorkers s)) handoff nsim
           in (\<lparr>gl_gpu = gpu, gl_generation = scene_generation s, gl_nsimdata = nsim,
                gl_degenerate = scene_degenerate sc, gl_batch_cap = dispatch * handoff,
                gl_physics = (if gpu then 0 else dispatch),
                gl_per_wl = unat (per_wl_ray_num s sc), gl_committed = 0, gl_iter_cap = 0\<rparr>, cap, wake))
         (handoff_batches gpu (handoff_sim_data cfg) nsim))"

definition gen_more :: "gen_locals \<Rightarrow> bool" where
  "gen_more g \<longleftrightarrow> gl_per_wl g = unat kInfSize \<or> gl_committed g < gl_per_wl g"

definition gen_batch :: "gen_locals \<Rightarrow> SimBatch" where
  "gen_batch g = \<lparr>ray_num = min (gl_iter_cap g) (gl_per_wl g - gl_committed g),
     physics_ray_num = gl_physics g, wavelengths = gl_nsimdata g, degenerate = gl_degenerate g,
     batch_generation = gl_generation g\<rparr>"

text \<open>The predicate the throttled producer waits for.\<close>

definition throttle_over :: "server_config \<Rightarrow> gen_locals \<Rightarrow> server \<Rightarrow> bool" where
  "throttle_over cfg g s \<longleftrightarrow>
     srv_state s \<noteq> kRunning \<or> sim_scene_cnt s < scene_cnt_cap s \<or>
     (gl_gpu g \<and> \<not> fallback_invalidated s \<and> \<not> ReadBackendActive cfg s)"

fun producer_step :: "server_config \<Rightarrow> server \<Rightarrow> producer_pc \<Rightarrow> server option" where
  "producer_step cfg s P_Parked =
     (if may_enter s (producer_gen s)
      then Some ((enter s)\<lparr>producer_gen := start_generation s, producer_at := P_Entry\<rparr>) else None)"
| "producer_step cfg s P_Entry = Some (s\<lparr>scene_gen_active := True, producer_at := P_Started\<rparr>)"
| "producer_step cfg s P_Started = Some (s\<lparr>work_started := True, producer_at := P_Capture\<rparr>)"
| "producer_step cfg s P_Capture =
     (case active_scene s of None \<Rightarrow> None
      | Some sc \<Rightarrow>
        (case gen_setup cfg s sc of None \<Rightarrow> Some (s\<lparr>producer_at := P_Crashed\<rparr>)
         | Some (g, cap, wake) \<Rightarrow> Some (s\<lparr>scene_cnt_cap := cap, scene_cnt_wake := wake,
               fallback_invalidated := False, producer_at := P_Head g\<rparr>)))"
| "producer_step cfg s (P_Head g) =
     (if \<not> gen_more g then Some (s\<lparr>producer_at := P_Exit\<rparr>)
      else let active = ReadBackendActive cfg s;
               g' = g\<lparr>gl_iter_cap := EffectiveDispatchCap (gl_gpu g) active (gl_batch_cap g) kDefaultRayNum\<rparr>
           in if gl_gpu g \<and> \<not> active \<and> \<not> fallback_invalidated s
              then Some (s\<lparr>fallback_invalidated := True, producer_at := P_Drain g'\<rparr>)
              else Some (s\<lparr>producer_at := P_Credit g'\<rparr>))"
| "producer_step cfg s (P_Drain g) =
     (let (dropped, q) = DrainAll (scene_queue s)
      in Some (s\<lparr>scene_queue := q, producer_at := P_Refund g dropped\<rparr>))"
| "producer_step cfg s (P_Refund g dropped) =
     (let refund = sum_list (map (\<lambda>b. PhysicsBatchCount b * gl_nsimdata g) dropped);
          rays = sum_list (map ray_num dropped)
      in Some (s\<lparr>sim_scene_cnt := sim_scene_cnt s - int refund, issued := issued s - batches_amount dropped,
           producer_at := P_Credit (g\<lparr>gl_committed := gl_committed g - min (gl_committed g) rays\<rparr>)\<rparr>))"
| "producer_step cfg s (P_Credit g) =
     (let b = gen_batch g
      in Some (s\<lparr>sim_scene_cnt := sim_scene_cnt s + int (PhysicsBatchCount b * gl_nsimdata g),
           issued := issued s + batch_amount b, producer_at := P_Publish g b\<rparr>))"
| "producer_step cfg s (P_Publish g b) =
     Some (s\<lparr>scene_queue := Emplace b (scene_queue s),
       lost := (if shut (scene_queue s) then lost s + batch_amount b else lost s),
       producer_at := P_Stop1 g (ray_num b)\<rparr>)"
| "producer_step cfg s (P_Stop1 g n) =
     Some (s\<lparr>producer_at := (if srv_state s \<noteq> kRunning then P_Exit else P_Throttle g n)\<rparr>)"
| "producer_step cfg s (P_Throttle g n) =
     Some (s\<lparr>producer_at := (if scene_cnt_cap s \<le> sim_scene_cnt s then P_Pred g n else P_Stop2 g n)\<rparr>)"
| "producer_step cfg s (P_Pred g n) =
     Some (s\<lparr>producer_at := (if throttle_over cfg g s then P_Stop2 g n else P_Block g n)\<rparr>)"
| "producer_step cfg s (P_Block g n) = Some (s\<lparr>producer_at := P_Asleep g n\<rparr>)"
| "producer_step cfg s (P_Asleep g n) = None"
| "producer_step cfg s (P_Stop2 g n) =
     Some (s\<lparr>producer_at := (if srv_state s \<noteq> kRunning then P_Exit
         else P_Head (g\<lparr>gl_committed := gl_committed g + n\<rparr>))\<rparr>)"
| "producer_step cfg s P_Exit = Some (s\<lparr>scene_gen_active := False, producer_at := P_Signal Pub_State\<rparr>)"
| "producer_step cfg s (P_Signal p) =
     (case publish_step s p of (Some p', d) \<Rightarrow> Some (s\<lparr>drained_epoch := d, producer_at := P_Signal p'\<rparr>)
      | (None, d) \<Rightarrow> Some (s\<lparr>drained_epoch := d, producer_at := P_Leave\<rparr>))"
| "producer_step cfg s P_Leave = Some ((leave s)\<lparr>producer_at := P_Parked\<rparr>)"
| "producer_step cfg s P_Crashed = None"

section \<open>The consumer\<close>

text \<open>
  The hand-over to the consumers, under \<open>consumer_mutex_\<close>: both branches of the code (a batch with
  renderable output, and one whose rays were all filtered) hand the batch's counters on and set
  \<open>has_ever_consumed_\<close>; a batch of another generation is dropped.
\<close>

definition hand_over :: "server \<Rightarrow> SimData \<Rightarrow> server" where
  "hand_over s d =
     (if data_generation d \<noteq> scene_generation s then s\<lparr>stale := stale s + data_amount d\<rparr>
      else s\<lparr>delivered := delivered s + data_amount d, has_ever_consumed := True\<rparr>)"

definition consumer_wakes :: "server_config \<Rightarrow> server \<Rightarrow> bool" where
  "consumer_wakes cfg s \<longleftrightarrow>
     sim_scene_cnt s < scene_cnt_wake s \<or>
     (gpu_server cfg \<and> \<not> fallback_invalidated s \<and> \<not> ReadBackendActive cfg s)"

fun consumer_step :: "server_config \<Rightarrow> server \<Rightarrow> consumer_pc \<Rightarrow> server option" where
  "consumer_step cfg s C_Parked =
     (if may_enter s (consumer_gen s)
      then Some ((enter s)\<lparr>consumer_gen := start_generation s, consumer_at := C_Loop\<rparr>) else None)"
| "consumer_step cfg s C_Loop = Some (s\<lparr>consumer_at := (if srv_state s \<noteq> kRunning then C_Leave else C_Get)\<rparr>)"
| "consumer_step cfg s C_Get =
     (case Get (data_queue s) of (Blocked, _) \<Rightarrow> None
      | (Interrupted, _) \<Rightarrow> Some (s\<lparr>consumer_at := C_Leave\<rparr>)
      | (Taken d, q) \<Rightarrow> Some (s\<lparr>data_queue := q, consumer_at := C_Got d\<rparr>))"
| "consumer_step cfg s (C_Got d) =
     (if ray_seg_count d = 0 \<and> root_ray_count d = 0
      then Some (s\<lparr>lost := lost s + data_amount d, consumer_at := C_Leave\<rparr>)
      else if srv_state s \<noteq> kRunning
      then Some (s\<lparr>lost := lost s + data_amount d, consumer_at := C_Leave\<rparr>)
      else Some (s\<lparr>consumer_at := C_Check d\<rparr>))"
| "consumer_step cfg s (C_Check d) = Some ((hand_over s d)\<lparr>consumer_at := C_Settle d\<rparr>)"
| "consumer_step cfg s (C_Settle d) =
     Some (s\<lparr>sim_scene_cnt := sim_scene_cnt s - int (sim_scene_credit d), consumer_at := C_Wake\<rparr>)"
| "consumer_step cfg s C_Wake =
     Some ((if consumer_wakes cfg s then wake_producer s else s)\<lparr>consumer_at := C_Signal Pub_State\<rparr>)"
| "consumer_step cfg s (C_Signal p) =
     (case publish_step s p of (Some p', d) \<Rightarrow> Some (s\<lparr>drained_epoch := d, consumer_at := C_Signal p'\<rparr>)
      | (None, d) \<Rightarrow> Some (s\<lparr>drained_epoch := d, consumer_at := C_Loop\<rparr>))"
| "consumer_step cfg s C_Leave = Some ((leave s)\<lparr>consumer_at := C_Parked\<rparr>)"

section \<open>The workers\<close>

text \<open>
  What a worker does with the next wavelength call is decided by code and data outside this model
  (backend, rays, clock); the label of its step says which: the legacy path (with the number of ray
  segments it buffered), the exit-seam or per-batch path of a backend, the device window, the
  degenerate return of the backend path, the return on \<open>stop_\<close>, the loss of the backend, and the
  hand-over by age.
\<close>

datatype choice = Segs nat | Direct | Device | Vanish | Abort | Drop | Age | Go | Backend bool

definition call_data :: "SimBatch \<Rightarrow> nat \<Rightarrow> nat \<Rightarrow> SimData" where
  "call_data b segs r =
     \<lparr>data_generation = batch_generation b, ray_seg_count = segs, root_ray_count = r, sim_scene_credit = 1\<rparr>"

definition window_data :: "worker \<Rightarrow> SimData" where
  "window_data w =
     \<lparr>data_generation = win_generation w, ray_seg_count = 0, root_ray_count = win_rays w,
      sim_scene_credit = win_calls w\<rparr>"

definition close_window :: "worker \<Rightarrow> worker" where
  "close_window w = w\<lparr>win_calls := 0, win_rays := 0, win_generation := 0\<rparr>"

definition DrainDeviceXyz :: "worker \<Rightarrow> server \<Rightarrow> worker \<times> server" where
  "DrainDeviceXyz w s =
     (if win_calls w = 0 then (w, s) else (close_window w, emplace_data [window_data w] s))"

definition lose :: "amount \<Rightarrow> server \<Rightarrow> server" where
  "lose a s = s\<lparr>lost := lost s + a\<rparr>"

text \<open>One wavelength call of \<open>r\<close> rays; the worker is then at \<open>k\<close>.\<close>

fun wavelength_call :: "server_config \<Rightarrow> choice \<Rightarrow> SimBatch \<Rightarrow> nat \<Rightarrow> worker_pc \<Rightarrow> worker \<Rightarrow> server \<Rightarrow>
    (worker \<times> server) option" where
  "wavelength_call cfg (Segs n) b r k w s =
     Some (w\<lparr>pending := pending w @ [call_data b n r], worker_at := k\<rparr>, s)"
| "wavelength_call cfg Direct b r k w s =
     (if degenerate b then None else Some (w\<lparr>worker_at := k\<rparr>, emplace_data [call_data b 0 r] s))"
| "wavelength_call cfg Device b r k w s =
     (if degenerate b then None
      else Some (w\<lparr>win_calls := win_calls w + 1, win_rays := win_rays w + r, win_generation := batch_generation b,
          worker_at := (if xyz_drain_batches cfg \<le> win_calls w + 1 then W_Drain k else k)\<rparr>, s))"
| "wavelength_call cfg Vanish b r k w s =
     (if degenerate b then Some (w\<lparr>worker_at := k\<rparr>, lose (call_amount r) s) else None)"
| "wavelength_call cfg Abort b r k w s =
     (if stop w then Some (w\<lparr>worker_at := k\<rparr>, lose (call_amount r) s) else None)"
| "wavelength_call cfg _ b r k w s = None"

text \<open>
  Between the calls of a batch: \<open>calls\<close> are the wavelengths left of the current physics batch, \<open>rest\<close> the
  physics batches after it, \<open>first\<close> says that none was begun (\<open>traced == 0\<close>).
\<close>

definition next_physics_batch ::
    "SimBatch \<Rightarrow> bool \<Rightarrow> nat list \<Rightarrow> nat list list \<Rightarrow> worker \<Rightarrow> server \<Rightarrow> worker \<times> server" where
  "next_physics_batch b first call rest w s =
     (if \<not> first \<and> stop w
      then (w\<lparr>worker_at := W_Flush\<rparr>, lose (calls_amount (concat (call # rest))) s)
      else if batch_generation b \<noteq> prev_generation w
      then (w\<lparr>prev_generation := batch_generation b, worker_at := W_Drain (W_Trace b False call rest)\<rparr>, s)
      else (w\<lparr>worker_at := W_Trace b False call rest\<rparr>, s))"

definition flush_pending :: "worker \<Rightarrow> server \<Rightarrow> worker \<times> server" where
  "flush_pending w s = (w\<lparr>pending := []\<rparr>, emplace_data (pending w) s)"

fun trace_step :: "server_config \<Rightarrow> choice \<Rightarrow> SimBatch \<Rightarrow> bool \<Rightarrow> nat list \<Rightarrow> nat list list \<Rightarrow> worker \<Rightarrow> server \<Rightarrow>
    (worker \<times> server) option" where
  "trace_step cfg Drop b first calls rest w s = Some (w\<lparr>backend_active := False\<rparr>, s)"
| "trace_step cfg c b first (r # calls) rest w s = wavelength_call cfg c b r (W_Trace b first calls rest) w s"
| "trace_step cfg Age b first [] rest w s = Some (flush_pending w s)"
| "trace_step cfg Go b first [] (call # rest) w s = Some (next_physics_batch b first call rest w s)"
| "trace_step cfg Go b first [] [] w s = Some (w\<lparr>worker_at := W_Flush\<rparr>, s)"
| "trace_step cfg c b first [] rest w s = None"

fun worker_step :: "server_config \<Rightarrow> choice \<Rightarrow> worker_pc \<Rightarrow> worker \<Rightarrow> server \<Rightarrow> (worker \<times> server) option" where
  "worker_step cfg c W_Parked w s =
     (if may_enter s (worker_gen w) \<and> (required_mode w = None \<or> required_mode w = Some (session_mode s))
      then Some (w\<lparr>worker_gen := start_generation s, worker_at := W_Entry\<rparr>, enter s) else None)"
| "worker_step cfg c W_Entry w s =
     (case c of Backend active \<Rightarrow>
        Some ((close_window w)\<lparr>stop := False, backend_active := active, prev_generation := 0, worker_at := W_Loop\<rparr>, s)
      | _ \<Rightarrow> None)"
| "worker_step cfg c W_Loop w s =
     Some (w\<lparr>worker_at := (if win_calls w \<noteq> 0 \<and> Queue_Empty (scene_queue s) then W_Drain W_Get else W_Get)\<rparr>, s)"
| "worker_step cfg c W_Get w s =
     (case Get (scene_queue s) of (Blocked, _) \<Rightarrow> None
      | (Interrupted, _) \<Rightarrow> Some (w\<lparr>worker_at := W_Drain W_Leave\<rparr>, s)
      | (Taken b, q) \<Rightarrow> Some (w\<lparr>worker_at := W_Got b\<rparr>, s\<lparr>scene_queue := q\<rparr>))"
| "worker_step cfg c (W_Got b) w s =
     (if ray_num b = 0 \<or> stop w then Some (w\<lparr>worker_at := W_Drain W_Leave\<rparr>, lose (batch_amount b) s)
      else Some (w\<lparr>idle := False, worker_at := W_Trace b True [] (batch_calls b)\<rparr>, s))"
| "worker_step cfg c (W_Trace b first calls rest) w s = trace_step cfg c b first calls rest w s"
| "worker_step cfg c (W_Drain k) w s =
     (let (w', s') = DrainDeviceXyz w s in Some (w'\<lparr>worker_at := k\<rparr>, s'))"
| "worker_step cfg c W_Flush w s = (let (w', s') = flush_pending w s in Some (w'\<lparr>worker_at := W_Idle\<rparr>, s'))"
| "worker_step cfg c W_Idle w s = Some (w\<lparr>idle := True, worker_at := W_Loop\<rparr>, s)"
| "worker_step cfg c W_Leave w s = Some (w\<lparr>worker_at := W_Parked\<rparr>, leave s)"

section \<open>The control thread\<close>

text \<open>
  \<open>CommitConfig\<close>, \<open>StartRaypathAnalysis\<close> and \<open>ContinueRun\<close> are a \<open>Stop()\<close>, the binding of the new run under the
  scene's lock, and a \<open>Start()\<close>.  Their guards on the session kind and on a committed scene are kept;
  a command may be issued whatever the lifecycle, so every order of commands is covered.
\<close>

definition accepted :: "server \<Rightarrow> command \<Rightarrow> bool" where
  "accepted s op = (case op of
       Op_Continue n \<Rightarrow> n \<noteq> 0 \<and> session_mode s = kRender \<and> active_scene s \<noteq> None
     | _ \<Rightarrow> True)"

text \<open>The epoch advances with every run, the generation only when the scene changes; so does the history.\<close>

definition new_epoch :: "server \<Rightarrow> server" where
  "new_epoch s = s\<lparr>committed_epoch := committed_epoch s + 1, issued := 0, lost := 0, delivered := 0, stale := 0\<rparr>"

definition bind_commit :: "RunScene \<Rightarrow> server \<Rightarrow> server" where
  [simp]: "bind_commit sc s = (new_epoch s)\<lparr>session_mode := kRender, active_scene := Some sc,
     scene_generation := scene_generation s + 1\<rparr>"

definition bind_analysis :: "RunScene \<Rightarrow> u64 option \<Rightarrow> server \<Rightarrow> server" where
  [simp]: "bind_analysis sc n s = (new_epoch s)\<lparr>session_mode := kAnalysis, ray_num_override := n,
     active_scene := Some sc, scene_generation := scene_generation s + 1\<rparr>"

definition bind_continue :: "u64 \<Rightarrow> server \<Rightarrow> server" where
  [simp]: "bind_continue n s =
     (new_epoch s)\<lparr>active_scene := map_option (\<lambda>sc. sc\<lparr>scene_ray_num := n\<rparr>) (active_scene s)\<rparr>"

fun bind_run :: "command \<Rightarrow> server \<Rightarrow> server" where
  "bind_run Op_Stop s = s"
| "bind_run (Op_Commit sc) s = bind_commit sc s"
| "bind_run (Op_Analyze sc n) s = bind_analysis sc n s"
| "bind_run (Op_Continue n) s = bind_continue n s"

definition stop_worker :: "nat \<Rightarrow> server \<Rightarrow> server" where
  "stop_worker i s = s\<lparr>workers := (workers s)[i := (workers s ! i)\<lparr>stop := True\<rparr>]\<rparr>"

fun control_step :: "server \<Rightarrow> control_pc \<Rightarrow> server option" where
  "control_step s K_Idle = None"
| "control_step s (K_Stop op) =
     (if srv_state s \<noteq> kRunning
      then Some (s\<lparr>control_at := (if op = Op_Stop then K_Idle else K_Bind op)\<rparr>)
      else Some (s\<lparr>srv_state := kStopped, control_at := K_ShutScene op\<rparr>))"
| "control_step s (K_ShutScene op) = Some ((shut_scene_queue s)\<lparr>control_at := K_ShutData op\<rparr>)"
| "control_step s (K_ShutData op) = Some ((shut_data_queue s)\<lparr>control_at := K_Notify op\<rparr>)"
| "control_step s (K_Notify op) = Some ((wake_producer s)\<lparr>control_at := K_StopWorkers op 0\<rparr>)"
| "control_step s (K_StopWorkers op i) =
     (if i < length (workers s) then Some ((stop_worker i s)\<lparr>control_at := K_StopWorkers op (i + 1)\<rparr>)
      else Some (s\<lparr>control_at := K_Wait op\<rparr>))"
| "control_step s (K_Wait op) =
     (if active_workers s = 0 then Some (s\<lparr>control_at := K_Reset op\<rparr>) else None)"
| "control_step s (K_Reset op) =
     Some (s\<lparr>has_ever_consumed := False, server_status := kIdle,
         control_at := (if op = Op_Stop then K_Idle else K_Bind op)\<rparr>)"
| "control_step s (K_Bind op) = Some ((bind_run op s)\<lparr>control_at := K_Start\<rparr>)"
| "control_step s K_Start =
     (if srv_state s \<noteq> kStopped then Some (s\<lparr>control_at := K_Idle\<rparr>)
      else Some (s\<lparr>work_started := False, sim_scene_cnt := 0, server_status := kServerRunning,
           data_queue := Start_queue (data_queue s), scene_queue := Start_queue (scene_queue s),
           start_generation := start_generation s + 1, srv_state := kRunning, control_at := K_Idle\<rparr>))"

section \<open>The observer\<close>

text \<open>\<open>GetStatus\<close>: the status, then the four terms in the order of the code.\<close>

definition IsIdle :: "worker \<Rightarrow> bool" where
  "IsIdle w \<longleftrightarrow> \<not> stop w \<and> idle w"

fun observer_step :: "server \<Rightarrow> observer_pc \<Rightarrow> server option" where
  "observer_step s O_Idle =
     Some (s\<lparr>observer_at := (if server_status s \<noteq> kServerRunning then O_Said (server_status s) else O_Started)\<rparr>)"
| "observer_step s O_Started =
     Some (s\<lparr>observer_at := (if \<not> work_started s then O_Said kServerRunning else O_Workers 0)\<rparr>)"
| "observer_step s (O_Workers i) =
     Some (s\<lparr>observer_at :=
       (if i < length (ActiveWorkers s)
        then if IsIdle (ActiveWorkers s ! i) then O_Workers (i + 1) else O_Said kServerRunning
        else O_Count)\<rparr>)"
| "observer_step s O_Count =
     Some (s\<lparr>observer_at := (if sim_scene_cnt s > 0 then O_Said kServerRunning else O_Active)\<rparr>)"
| "observer_step s O_Active =
     Some (s\<lparr>observer_at := O_Said (if scene_gen_active s then kServerRunning else kIdle)\<rparr>)"
| "observer_step s (O_Said st) = Some (s\<lparr>observer_at := O_Idle\<rparr>)"

section \<open>Schedules\<close>

text \<open>Who takes the next step.  \<open>Spurious\<close> is the spurious wake-up C++ allows a condition variable.\<close>

datatype label = Producer | Consumer | Worker nat choice | Command command | Control | Observer | Spurious

fun step :: "server_config \<Rightarrow> label \<Rightarrow> server \<Rightarrow> server option" where
  "step cfg Producer s = producer_step cfg s (producer_at s)"
| "step cfg Consumer s = consumer_step cfg s (consumer_at s)"
| "step cfg (Worker i c) s =
     (if i < length (workers s)
      then map_option (\<lambda>(w, s'). s'\<lparr>workers := (workers s)[i := w]\<rparr>)
             (worker_step cfg c (worker_at (workers s ! i)) (workers s ! i) s)
      else None)"
| "step cfg (Command op) s =
     (if control_at s = K_Idle \<and> accepted s op then Some (s\<lparr>control_at := K_Stop op\<rparr>) else None)"
| "step cfg Control s = control_step s (control_at s)"
| "step cfg Observer s = observer_step s (observer_at s)"
| "step cfg Spurious s =
     (case producer_at s of P_Asleep g n \<Rightarrow> Some (s\<lparr>producer_at := P_Pred g n\<rparr>) | _ \<Rightarrow> None)"

fun run :: "server_config \<Rightarrow> label list \<Rightarrow> server \<Rightarrow> server option" where
  "run cfg [] s = Some s"
| "run cfg (l # ls) s = (case step cfg l s of None \<Rightarrow> None | Some s' \<Rightarrow> run cfg ls s')"

definition new_worker :: "SessionKind option \<Rightarrow> worker" where
  "new_worker mode = \<lparr>required_mode = mode, worker_gen = 0, worker_at = W_Parked, stop = False, idle = True,
     backend_active = True, prev_generation = 0, pending = [], win_calls = 0, win_rays = 0, win_generation = 0\<rparr>"

text \<open>
  The groups of the constructor: one engine for renders and a pool for analyses on the GPU route, one
  group for both on the CPU route.
\<close>

definition new_workers :: "bool \<Rightarrow> nat \<Rightarrow> worker list" where
  "new_workers gpu n =
     (if gpu then new_worker (Some kRender) # replicate n (new_worker (Some kAnalysis))
      else replicate n (new_worker None))"

definition new_server :: "server_config \<Rightarrow> nat \<Rightarrow> server" where
  "new_server cfg n = \<lparr>srv_state = kStopped, start_generation = 0, active_workers = 0, work_started = False,
     scene_gen_active = False, sim_scene_cnt = 0, scene_cnt_cap = kMaxSceneCnt,
     scene_cnt_wake = kMaxSceneCnt div 2, scene_queue = new_queue, data_queue = new_queue,
     session_mode = kRender, active_scene = None, ray_num_override = None, scene_generation = 0,
     committed_epoch = 0, drained_epoch = 0, fallback_invalidated = False, has_ever_consumed = False,
     server_status = kIdle, producer_gen = 0, producer_at = P_Parked, consumer_gen = 0, consumer_at = C_Parked,
     workers = new_workers (gpu_server cfg) n, control_at = K_Idle, observer_at = O_Idle,
     issued = 0, lost = 0, delivered = 0, stale = 0\<rparr>"

inductive reachable :: "server_config \<Rightarrow> server \<Rightarrow> bool" for cfg where
  boot: "reachable cfg (new_server cfg n)"
| act: "reachable cfg s \<Longrightarrow> step cfg l s = Some s' \<Longrightarrow> reachable cfg s'"

lemma run_reachable: "reachable cfg s \<Longrightarrow> run cfg ls s = Some s' \<Longrightarrow> reachable cfg s'"
  by (induction ls arbitrary: s) (auto split: option.splits intro: act)

end
