(* ===== verification/Pipeline_Ledger.thy ===== *)
theory Pipeline_Ledger
  imports Server_Pipeline
begin

text \<open>
  What is in flight between the threads of the server, and that no step creates or destroys any of
  it: every issued credit is in a queue, in the hands of a thread, delivered, or counted as lost.
\<close>

section \<open>What a thread holds\<close>

fun producer_amount :: "producer_pc \<Rightarrow> amount" where
  "producer_amount (P_Refund g dropped) = batches_amount dropped"
| "producer_amount (P_Publish g b) = batch_amount b"
| "producer_amount _ = 0"

fun consumer_amount :: "consumer_pc \<Rightarrow> amount" where
  "consumer_amount (C_Got d) = data_amount d"
| "consumer_amount (C_Check d) = data_amount d"
| "consumer_amount _ = 0"

fun pc_amount :: "worker_pc \<Rightarrow> amount" where
  "pc_amount (W_Got b) = batch_amount b"
| "pc_amount (W_Trace b first calls rest) = calls_amount calls + calls_amount (concat rest)"
| "pc_amount (W_Drain k) = pc_amount k"
| "pc_amount _ = 0"

definition worker_amount :: "worker \<Rightarrow> amount" where
  "worker_amount w = pc_amount (worker_at w) + datas_amount (pending w) + Amount (win_calls w) (win_rays w)"

definition queues_amount :: "server \<Rightarrow> amount" where
  "queues_amount s = batches_amount (queued (scene_queue s)) + datas_amount (queued (data_queue s))"

definition in_flight :: "server \<Rightarrow> amount" where
  "in_flight s = producer_amount (producer_at s) + consumer_amount (consumer_at s) + queues_amount s +
     sum_list (map worker_amount (workers s))"

definition ledger :: "server \<Rightarrow> bool" where
  "ledger s \<longleftrightarrow> issued s = in_flight s + lost s + delivered s + stale s"

section \<open>Well-formed threads\<close>

text \<open>
  \<open>G\<close> is the scene generation and \<open>n\<close> the number of wavelengths of the run: everything in flight carries
  the generation, and every batch is charged with that many wavelengths.
\<close>

definition batch_ok :: "nat \<Rightarrow> nat \<Rightarrow> SimBatch \<Rightarrow> bool" where
  "batch_ok G n b \<longleftrightarrow> batch_generation b = G \<and> wavelengths b = n"

definition data_ok :: "nat \<Rightarrow> SimData \<Rightarrow> bool" where
  "data_ok G d \<longleftrightarrow> data_generation d = G \<and> 0 < sim_scene_credit d \<and> 0 < root_ray_count d"

fun pc_ok :: "nat \<Rightarrow> nat \<Rightarrow> worker_pc \<Rightarrow> bool" where
  "pc_ok G n (W_Got b) = batch_ok G n b"
| "pc_ok G n (W_Trace b first calls rest) = (batch_ok G n b \<and> (\<forall>r\<in>set calls \<union> \<Union> (set ` set rest). 0 < r))"
| "pc_ok G n (W_Drain k) = (case k of W_Get \<Rightarrow> True | W_Leave \<Rightarrow> True | W_Trace _ _ _ _ \<Rightarrow> pc_ok G n k | _ \<Rightarrow> False)"
| "pc_ok G n _ = True"

fun holds_data :: "worker_pc \<Rightarrow> bool" where
  "holds_data (W_Trace _ _ _ _) = True"
| "holds_data (W_Drain k) = holds_data k"
| "holds_data W_Flush = True"
| "holds_data _ = False"

fun window_closed :: "worker_pc \<Rightarrow> bool" where
  "window_closed W_Parked = True"
| "window_closed W_Entry = True"
| "window_closed W_Leave = True"
| "window_closed _ = False"

definition worker_ok :: "nat \<Rightarrow> nat \<Rightarrow> worker \<Rightarrow> bool" where
  "worker_ok G n w \<longleftrightarrow>
     pc_ok G n (worker_at w) \<and> (\<forall>d\<in>set (pending w). data_ok G d) \<and>
     (holds_data (worker_at w) \<or> pending w = []) \<and>
     (win_calls w = 0 \<longleftrightarrow> win_rays w = 0) \<and> (win_calls w \<noteq> 0 \<longrightarrow> win_generation w = G) \<and>
     (window_closed (worker_at w) \<longrightarrow> win_calls w = 0)"

definition queues_ok :: "nat \<Rightarrow> nat \<Rightarrow> server \<Rightarrow> bool" where
  "queues_ok G n s \<longleftrightarrow>
     (shut (scene_queue s) \<longrightarrow> queued (scene_queue s) = []) \<and> (shut (data_queue s) \<longrightarrow> queued (data_queue s) = []) \<and>
     (\<forall>b\<in>set (queued (scene_queue s)). batch_ok G n b) \<and> (\<forall>d\<in>set (queued (data_queue s)). data_ok G d)"

text \<open>All a worker's step changes of the shared state.\<close>

definition worker_frame :: "server \<Rightarrow> server \<Rightarrow> bool" where
  "worker_frame s s' \<longleftrightarrow> (\<exists>q d l a. s' = s\<lparr>scene_queue := q, data_queue := d, lost := l, active_workers := a\<rparr> \<and>
     shut q = shut (scene_queue s) \<and> shut d = shut (data_queue s))"

definition held :: "server \<Rightarrow> amount" where
  "held s = queues_amount s + lost s"

definition moves :: "worker \<Rightarrow> server \<Rightarrow> worker \<Rightarrow> server \<Rightarrow> bool" where
  "moves w s w' s' \<longleftrightarrow>
     worker_amount w + held s = worker_amount w' + held s'"

text \<open>What one worker's step keeps; the position is fixed by the caller.\<close>

definition worker_sound :: "nat \<Rightarrow> nat \<Rightarrow> worker \<Rightarrow> server \<Rightarrow> worker \<times> server \<Rightarrow> bool" where
  "worker_sound G n w s r \<longleftrightarrow>
     moves w s (fst r) (snd r) \<and> worker_frame s (snd r) \<and> worker_ok G n (fst r) \<and> queues_ok G n (snd r)"

lemmas worker_sound_defs = worker_sound_def moves_def worker_frame_def worker_ok_def queues_ok_def
  worker_amount_def queues_amount_def

section \<open>The pieces of a worker's step\<close>

lemma frame_refl [simp]: "worker_frame s s"
  unfolding worker_frame_def by (rule exI [of _ "scene_queue s"], rule exI [of _ "data_queue s"],
      rule exI [of _ "lost s"], rule exI [of _ "active_workers s"]) simp

lemma frame_emplace [simp]: "worker_frame s (emplace_data ds s)"
  unfolding worker_frame_def emplace_data_def
  by (rule exI [of _ "scene_queue s"], rule exI [of _ "EmplaceMany ds (data_queue s)"],
      rule exI [of _ "if shut (data_queue s) then lost s + datas_amount ds else lost s"],
      rule exI [of _ "active_workers s"]) (simp add: EmplaceMany_def)

lemma frame_lose [simp]: "worker_frame s (lose a s)"
  unfolding worker_frame_def lose_def
  by (rule exI [of _ "scene_queue s"], rule exI [of _ "data_queue s"],
      rule exI [of _ "lost s + a"], rule exI [of _ "active_workers s"]) simp

lemma frame_enter_leave [simp]: "worker_frame s (enter s)" "worker_frame s (leave s)"
  unfolding worker_frame_def enter_def leave_def
  by (rule exI [of _ "scene_queue s"], rule exI [of _ "data_queue s"], rule exI [of _ "lost s"],
      rule exI [of _ "active_workers s + 1"], simp)
    (rule exI [of _ "scene_queue s"], rule exI [of _ "data_queue s"], rule exI [of _ "lost s"],
      rule exI [of _ "active_workers s - 1"], simp)

lemma frame_take [simp]: "shut q = shut (scene_queue s) \<Longrightarrow> worker_frame s (s\<lparr>scene_queue := q\<rparr>)"
  unfolding worker_frame_def
  by (rule exI [of _ q], rule exI [of _ "data_queue s"],
      rule exI [of _ "lost s"], rule exI [of _ "active_workers s"]) simp

lemma held_pieces [simp]:
  "held (emplace_data ds s) = held s + datas_amount ds" "held (lose a s) = held s + a"
  "held (enter s) = held s" "held (leave s) = held s"
  by (auto simp: held_def queues_amount_def emplace_data_def EmplaceMany_def lose_def enter_def leave_def ac_simps)

lemma held_take: "queued (scene_queue s) = b # queued q \<Longrightarrow>
    batch_amount b + held (s\<lparr>scene_queue := q\<rparr>) = held s"
  by (simp add: held_def queues_amount_def ac_simps)

lemma queues_ok_pieces [simp]:
  "queues_ok G n (lose a s) = queues_ok G n s" "queues_ok G n (enter s) = queues_ok G n s"
  "queues_ok G n (leave s) = queues_ok G n s"
  by (simp_all add: queues_ok_def lose_def enter_def leave_def)

lemma queues_ok_emplace [simp]:
  "queues_ok G n s \<Longrightarrow> \<forall>d\<in>set ds. data_ok G d \<Longrightarrow> queues_ok G n (emplace_data ds s)"
  by (auto simp: queues_ok_def emplace_data_def EmplaceMany_def)

lemma window_amount: "data_amount (window_data w) = Amount (win_calls w) (win_rays w)"
  by (simp add: data_amount_def window_data_def)

lemma close_window_amount: "worker_amount w = worker_amount (close_window w) + data_amount (window_data w)"
  by (simp add: worker_amount_def close_window_def window_amount)

lemma DrainDeviceXyz_moves: "DrainDeviceXyz w s = (w', s') \<Longrightarrow> moves w s w' s'"
  using close_window_amount [of w] by (auto simp: DrainDeviceXyz_def moves_def ac_simps split: if_splits)

lemma DrainDeviceXyz_sound:
  assumes "worker_ok G n w" and "queues_ok G n s" and "DrainDeviceXyz w s = (w', s')"
  shows "worker_ok G n w'" and "queues_ok G n s'" and "worker_frame s s'" and "win_calls w' = 0"
    and "worker_at w' = worker_at w" and "pending w' = pending w"
  using assms
  by (auto simp: DrainDeviceXyz_def worker_ok_def close_window_def window_data_def data_ok_def split: if_splits)

lemma worker_soundI:
  "moves w s w' s' \<Longrightarrow> worker_frame s s' \<Longrightarrow> worker_ok G n w' \<Longrightarrow> queues_ok G n s' \<Longrightarrow>
     worker_sound G n w s (w', s')"
  by (simp add: worker_sound_def)

lemma call_data_amount [simp]: "data_amount (call_data b segs r) = call_amount r"
  by (simp add: call_data_def data_amount_def call_amount_def)

lemma call_data_ok: "batch_ok G n b \<Longrightarrow> 0 < r \<Longrightarrow> data_ok G (call_data b segs r)"
  by (simp add: call_data_def data_ok_def batch_ok_def)

lemma pc_amount_cons: "pc_amount (W_Trace b first (r # calls) rest) = call_amount r + pc_amount (W_Trace b first calls rest)"
  by (simp add: ac_simps)

lemma wavelength_call_sound:
  assumes step: "wavelength_call cfg c b r k w s = Some res"
    and at: "worker_at w = W_Trace b first (r # calls) rest" and k: "k = W_Trace b first calls rest"
    and ok: "worker_ok G n w" "queues_ok G n s"
  shows "worker_sound G n w s res"
proof -
  from ok(1) at have b: "batch_ok G n b" and r: "0 < r" and rest: "pc_ok G n k"
    by (auto simp: worker_ok_def k)
  have amount: "pc_amount (worker_at w) = call_amount r + pc_amount k" by (simp only: at k pc_amount_cons)
  note data = call_data_ok [OF b r]
  from step show ?thesis
  proof (cases c)
    case (Segs m)
    with step ok at amount data rest show ?thesis
      by (auto intro!: worker_soundI simp: moves_def worker_amount_def worker_ok_def k ac_simps)
  next
    case Direct
    with step ok at amount data rest show ?thesis
      by (auto intro!: worker_soundI simp: moves_def worker_amount_def worker_ok_def k ac_simps split: if_splits)
  next
    case Device
    have win: "Amount (Suc (win_calls w)) (win_rays w + r) = Amount (win_calls w) (win_rays w) + call_amount r"
      by (simp add: amount_eq_iff call_amount_def)
    from Device step ok at amount data rest b r win show ?thesis
      by (auto intro!: worker_soundI simp: moves_def worker_amount_def worker_ok_def batch_ok_def k ac_simps
          split: if_splits)
  next
    case Vanish
    with step ok at amount rest show ?thesis
      by (auto intro!: worker_soundI simp: moves_def worker_amount_def worker_ok_def k ac_simps split: if_splits)
  next
    case Abort
    with step ok at amount rest show ?thesis
      by (auto intro!: worker_soundI simp: moves_def worker_amount_def worker_ok_def k ac_simps split: if_splits)
  qed auto
qed

lemma flush_pending_sound:
  assumes "worker_ok G n w" and "queues_ok G n s" and "flush_pending w s = (w', s')"
  shows "worker_ok G n w'" and "queues_ok G n s'" and "worker_frame s s'" and "moves w s w' s'"
    and "worker_at w' = worker_at w" and "pending w' = []" and "win_calls w' = win_calls w"
  using assms
  by (auto simp: flush_pending_def worker_ok_def moves_def worker_amount_def ac_simps)

lemma trace_step_sound:
  assumes step: "trace_step cfg c b first calls rest w s = Some res"
    and at: "worker_at w = W_Trace b first calls rest"
    and ok: "worker_ok G n w" "queues_ok G n s"
  shows "worker_sound G n w s res"
proof (cases "c = Drop")
  case True
  with step ok show ?thesis
    by (auto intro!: worker_soundI simp: moves_def worker_amount_def worker_ok_def)
next
  case False
  show ?thesis
  proof (cases calls)
    case (Cons r calls')
    with False step have "wavelength_call cfg c b r (W_Trace b first calls' rest) w s = Some res" by (cases c) auto
    from wavelength_call_sound [OF this _ refl ok] at Cons show ?thesis by simp
  next
    case Nil
    consider "c = Age" | call rest' where "c = Go" "rest = call # rest'" | "c = Go" "rest = []"
      using step Nil False by (cases c; cases rest) auto
    then show ?thesis
    proof cases
      case 1
      with step Nil have "res = flush_pending w s" by simp
      with flush_pending_sound [OF ok, of "fst res" "snd res"] show ?thesis
        by (metis prod.collapse worker_soundI)
    next
      case 2
      with step Nil ok at show ?thesis
        by (auto intro!: worker_soundI simp: next_physics_batch_def moves_def worker_amount_def worker_ok_def ac_simps)
    next
      case 3
      with step Nil ok at show ?thesis
        by (auto intro!: worker_soundI simp: moves_def worker_amount_def worker_ok_def)
    qed
  qed
qed

lemma batch_calls_ok: "r \<in> \<Union> (set ` set (batch_calls b)) \<Longrightarrow> 0 < r"
  using batch_calls_positive by fastforce

lemma worker_step_sound:
  assumes step: "worker_step cfg c (worker_at w) w s = Some res"
    and ok: "worker_ok G n w" "queues_ok G n s"
  shows "worker_sound G n w s res"
proof (cases "worker_at w")
  case W_Get
  show ?thesis
  proof (cases "Get (scene_queue s)")
    case (Pair t q)
    show ?thesis
    proof (cases t)
      case (Taken b)
      then have "Get (scene_queue s) = (Taken b, q)" using Pair by simp
      from wq.taken_head [OF this]
      have q: "queued (scene_queue s) = b # queued q" "\<not> shut (scene_queue s)" "\<not> shut q" by auto
      with Taken Pair step W_Get ok show ?thesis
        using held_take [OF q(1), symmetric]
        by (auto intro!: worker_soundI simp: moves_def worker_amount_def worker_ok_def queues_ok_def ac_simps)
    qed (use Pair step W_Get ok in \<open>auto intro!: worker_soundI simp: moves_def worker_amount_def worker_ok_def\<close>)
  qed
next
  case (W_Got b)
  with step ok batch_calls_amount [of b] show ?thesis
    by (auto intro!: worker_soundI simp: moves_def worker_amount_def worker_ok_def ac_simps batch_calls_ok
        split: if_splits)
next
  case (W_Trace b first calls rest)
  with step ok trace_step_sound [OF _ W_Trace ok] show ?thesis by simp
next
  case (W_Drain k)
  obtain w1 s1 where d: "DrainDeviceXyz w s = (w1, s1)" by fastforce
  note sound = DrainDeviceXyz_sound [OF ok d] and moved = DrainDeviceXyz_moves [OF d]
  from step W_Drain d have res: "res = (w1\<lparr>worker_at := k\<rparr>, s1)" by simp
  have "moves w s (w1\<lparr>worker_at := k\<rparr>) s1"
    using moved sound(5) W_Drain by (simp add: moves_def worker_amount_def)
  moreover have "worker_ok G n (w1\<lparr>worker_at := k\<rparr>)"
    using sound(1,4,5) W_Drain ok(1) by (auto simp: worker_ok_def split: worker_pc.splits)
  ultimately show ?thesis using res sound by (simp add: worker_soundI)
next
  case W_Flush
  obtain w1 s1 where d: "flush_pending w s = (w1, s1)" by fastforce
  note sound = flush_pending_sound [OF ok d]
  from step W_Flush d have res: "res = (w1\<lparr>worker_at := W_Idle\<rparr>, s1)" by simp
  have "moves w s (w1\<lparr>worker_at := W_Idle\<rparr>) s1"
    using sound(4,5) W_Flush by (simp add: moves_def worker_amount_def)
  moreover have "worker_ok G n (w1\<lparr>worker_at := W_Idle\<rparr>)"
    using sound(1,6) by (auto simp: worker_ok_def)
  ultimately show ?thesis using res sound by (simp add: worker_soundI)
qed (use step ok in \<open>auto intro!: worker_soundI simp: moves_def worker_amount_def worker_ok_def close_window_def
       split: if_splits choice.splits\<close>)

end
