(* ===== verification/Pipeline_Session.thy ===== *)
theory Pipeline_Session
  imports Pipeline_Ledger
begin

text \<open>
  The session protocol of the server: who is awake, what the queues hold while \<open>Stop()\<close> and \<open>Start()\<close> run,
  and the ledger of everything issued, over every schedule.
\<close>

section \<open>Who is awake\<close>

fun producer_gen_locals :: "producer_pc \<Rightarrow> gen_locals option" where
  "producer_gen_locals (P_Head g) = Some g"
| "producer_gen_locals (P_Drain g) = Some g"
| "producer_gen_locals (P_Refund g ds) = Some g"
| "producer_gen_locals (P_Credit g) = Some g"
| "producer_gen_locals (P_Publish g b) = Some g"
| "producer_gen_locals (P_Stop1 g m) = Some g"
| "producer_gen_locals (P_Throttle g m) = Some g"
| "producer_gen_locals (P_Pred g m) = Some g"
| "producer_gen_locals (P_Block g m) = Some g"
| "producer_gen_locals (P_Asleep g m) = Some g"
| "producer_gen_locals (P_Stop2 g m) = Some g"
| "producer_gen_locals _ = None"

definition awake :: "bool \<Rightarrow> nat" where
  "awake parked = (if parked then 0 else 1)"

definition worker_awake :: "worker \<Rightarrow> nat" where
  "worker_awake w = awake (worker_at w = W_Parked)"

lemma awake_simps [simp]: "awake True = 0" "awake False = 1"
  by (simp_all add: awake_def)

lemma awake_zero [simp]: "awake b = 0 \<longleftrightarrow> b"
  by (simp add: awake_def)

lemma worker_awake_zero [simp]: "worker_awake w = 0 \<longleftrightarrow> worker_at w = W_Parked"
  by (simp add: worker_awake_def)

definition threads_awake :: "server \<Rightarrow> nat" where
  "threads_awake s = awake (producer_at s = P_Parked) + awake (consumer_at s = C_Parked) +
     sum_list (map worker_awake (workers s))"

definition at_rest :: "server \<Rightarrow> bool" where
  "at_rest s \<longleftrightarrow> threads_awake s = 0 \<and> queued (scene_queue s) = [] \<and> queued (data_queue s) = []"

definition queues_open :: "server \<Rightarrow> bool" where
  "queues_open s \<longleftrightarrow> \<not> shut (scene_queue s) \<and> \<not> shut (data_queue s)"

definition queues_shut :: "server \<Rightarrow> bool" where
  "queues_shut s \<longleftrightarrow> shut (scene_queue s) \<and> shut (data_queue s)"

text \<open>Where the control thread is decides what holds of the queues and of the other threads.\<close>

fun phase_ok :: "server \<Rightarrow> control_pc \<Rightarrow> bool" where
  "phase_ok s K_Idle = (if srv_state s = kRunning then queues_open s else at_rest s)"
| "phase_ok s (K_Stop op) = (if srv_state s = kRunning then queues_open s else at_rest s)"
| "phase_ok s (K_ShutScene op) = (srv_state s = kStopped)"
| "phase_ok s (K_ShutData op) = (srv_state s = kStopped \<and> shut (scene_queue s))"
| "phase_ok s (K_Notify op) = (srv_state s = kStopped \<and> queues_shut s)"
| "phase_ok s (K_StopWorkers op i) = (srv_state s = kStopped \<and> queues_shut s)"
| "phase_ok s (K_Wait op) = (srv_state s = kStopped \<and> queues_shut s)"
| "phase_ok s (K_Reset op) = (srv_state s = kStopped \<and> at_rest s)"
| "phase_ok s (K_Bind op) = (srv_state s = kStopped \<and> at_rest s \<and> op \<noteq> Op_Stop)"
| "phase_ok s K_Start = (srv_state s = kStopped \<and> at_rest s)"

section \<open>What is in a thread's hands belongs to the run\<close>

definition run_wavelengths :: "server \<Rightarrow> nat" where
  "run_wavelengths s = (case active_scene s of None \<Rightarrow> 0 | Some sc \<Rightarrow> scene_wavelengths sc)"

definition run_budget :: "server \<Rightarrow> nat" where
  "run_budget s = (case active_scene s of None \<Rightarrow> 0 | Some sc \<Rightarrow> unat (per_wl_ray_num s sc))"

definition locals_ok :: "server \<Rightarrow> gen_locals \<Rightarrow> bool" where
  "locals_ok s g \<longleftrightarrow> gl_generation g = scene_generation s \<and> gl_nsimdata g = run_wavelengths s \<and>
     gl_per_wl g = run_budget s"

fun producer_hands :: "nat \<Rightarrow> nat \<Rightarrow> producer_pc \<Rightarrow> bool" where
  "producer_hands G n (P_Refund g ds) = (\<forall>b\<in>set ds. batch_ok G n b)"
| "producer_hands G n (P_Publish g b) = batch_ok G n b"
| "producer_hands G n _ = True"

fun consumer_hands :: "nat \<Rightarrow> consumer_pc \<Rightarrow> bool" where
  "consumer_hands G (C_Got d) = data_ok G d"
| "consumer_hands G (C_Check d) = data_ok G d"
| "consumer_hands G (C_Settle d) = data_ok G d"
| "consumer_hands G _ = True"

definition shape :: "server \<Rightarrow> bool" where
  "shape s \<longleftrightarrow>
     (\<forall>w\<in>set (workers s). worker_ok (scene_generation s) (run_wavelengths s) w) \<and>
     queues_ok (scene_generation s) (run_wavelengths s) s \<and>
     producer_hands (scene_generation s) (run_wavelengths s) (producer_at s) \<and>
     consumer_hands (scene_generation s) (consumer_at s) \<and>
     (\<forall>g. producer_gen_locals (producer_at s) = Some g \<longrightarrow> locals_ok s g)"

definition session_ok :: "server \<Rightarrow> bool" where
  "session_ok s \<longleftrightarrow> shape s \<and> active_workers s = threads_awake s \<and> phase_ok s (control_at s)"

lemma rest_parked: "at_rest s \<Longrightarrow>
    producer_at s = P_Parked \<and> consumer_at s = C_Parked \<and> (\<forall>w\<in>set (workers s). worker_at w = W_Parked)"
  by (simp add: at_rest_def threads_awake_def)

lemma worker_awake_member: "w \<in> set ws \<Longrightarrow> worker_awake w \<le> sum_list (map worker_awake ws)"
  by (simp add: member_le_sum_list)

lemma parked_worker_ok: "worker_ok G n w \<Longrightarrow> worker_at w = W_Parked \<Longrightarrow> worker_ok G' n' w"
  by (auto simp: worker_ok_def)

lemma parked_worker_amount: "worker_ok G n w \<Longrightarrow> worker_at w = W_Parked \<Longrightarrow> worker_amount w = 0"
  by (auto simp: worker_ok_def worker_amount_def)

lemma rest_in_flight: "at_rest s \<Longrightarrow> shape s \<Longrightarrow> in_flight s = 0"
  using rest_parked [of s] parked_worker_amount
  by (auto simp: in_flight_def queues_amount_def at_rest_def shape_def sum_list_amount_zero)

section \<open>A worker's step in the server\<close>

lemma worker_frame_fields:
  assumes "worker_frame s s'"
  shows "srv_state s' = srv_state s" "start_generation s' = start_generation s"
    "work_started s' = work_started s" "scene_gen_active s' = scene_gen_active s"
    "sim_scene_cnt s' = sim_scene_cnt s" "scene_cnt_cap s' = scene_cnt_cap s" "scene_cnt_wake s' = scene_cnt_wake s"
    "session_mode s' = session_mode s" "active_scene s' = active_scene s" "ray_num_override s' = ray_num_override s"
    "scene_generation s' = scene_generation s" "committed_epoch s' = committed_epoch s"
    "drained_epoch s' = drained_epoch s" "fallback_invalidated s' = fallback_invalidated s"
    "producer_gen s' = producer_gen s" "producer_at s' = producer_at s" "consumer_gen s' = consumer_gen s"
    "consumer_at s' = consumer_at s" "workers s' = workers s" "control_at s' = control_at s"
    "issued s' = issued s" "delivered s' = delivered s" "stale s' = stale s"
    "shut (scene_queue s') = shut (scene_queue s)" "shut (data_queue s') = shut (data_queue s)"
    "has_ever_consumed s' = has_ever_consumed s" "server_status s' = server_status s"
    "observer_at s' = observer_at s"
  using assms by (auto simp: worker_frame_def)

lemma run_facts_frame:
  "session_mode s' = session_mode s \<Longrightarrow> active_scene s' = active_scene s \<Longrightarrow>
     ray_num_override s' = ray_num_override s \<Longrightarrow> scene_generation s' = scene_generation s \<Longrightarrow>
     run_wavelengths s' = run_wavelengths s \<and> run_budget s' = run_budget s \<and> locals_ok s' = locals_ok s"
  by (auto simp: run_wavelengths_def run_budget_def locals_ok_def per_wl_ray_num_def total_ray_num_def
      analysis_session_def fun_eq_iff split: option.splits)

text \<open>Entering and leaving the wait are the only steps that change who is awake.\<close>

lemma wavelength_call_pc: "wavelength_call cfg c b r k w s = Some (w', s') \<Longrightarrow> k \<noteq> W_Parked \<Longrightarrow>
    worker_at w' \<noteq> W_Parked \<and> active_workers s' = active_workers s"
  by (cases c) (auto simp: emplace_data_def lose_def split: if_splits)

lemma trace_step_pc:
  assumes "trace_step cfg c b first calls rest w s = Some (w', s')" and "worker_at w = W_Trace b first calls rest"
  shows "worker_at w' \<noteq> W_Parked \<and> active_workers s' = active_workers s"
proof (cases "c = Drop")
  case True
  with assms show ?thesis by auto
next
  case False
  show ?thesis
  proof (cases calls)
    case Nil
    with False assms show ?thesis
      by (cases c; cases rest) (auto simp: next_physics_batch_def flush_pending_def emplace_data_def lose_def split: if_splits)
  next
    case (Cons r calls')
    with False assms(1) have "wavelength_call cfg c b r (W_Trace b first calls' rest) w s = Some (w', s')"
      by (cases c) auto
    then show ?thesis by (rule wavelength_call_pc) simp
  qed
qed

lemma worker_step_awake:
  assumes step: "worker_step cfg c (worker_at w) w s = Some (w', s')" and ok: "worker_ok G n w"
    and "worker_awake w \<le> active_workers s"
  shows "active_workers s' + worker_awake w = active_workers s + worker_awake w'"
proof (cases "worker_at w")
  case (W_Trace b first calls rest)
  with step trace_step_pc [OF _ W_Trace] show ?thesis by (auto simp: worker_awake_def)
next
  case (W_Drain k)
  with ok have "k \<noteq> W_Parked" by (auto simp: worker_ok_def)
  with W_Drain step show ?thesis
    by (auto simp: worker_awake_def DrainDeviceXyz_def emplace_data_def split: if_splits)
qed (use assms in \<open>auto simp: worker_awake_def enter_def leave_def lose_def flush_pending_def emplace_data_def
       split: if_splits taken.splits prod.splits choice.splits\<close>)

lemma worker_step_server:
  assumes "step cfg (Worker i c) s = Some s'" and "shape s"
  obtains w s1 where "i < length (workers s)" "s' = s1\<lparr>workers := (workers s)[i := w]\<rparr>" "worker_frame s s1"
    "worker_ok (scene_generation s) (run_wavelengths s) w" "queues_ok (scene_generation s) (run_wavelengths s) s1"
    "moves (workers s ! i) s w s1"
    "worker_step cfg c (worker_at (workers s ! i)) (workers s ! i) s = Some (w, s1)"
    "worker_ok (scene_generation s) (run_wavelengths s) (workers s ! i)"
proof -
  from assms(1) obtain w s1 where st: "i < length (workers s)" "s' = s1\<lparr>workers := (workers s)[i := w]\<rparr>"
    "worker_step cfg c (worker_at (workers s ! i)) (workers s ! i) s = Some (w, s1)"
    by (auto split: if_splits)
  have ok: "worker_ok (scene_generation s) (run_wavelengths s) (workers s ! i)"
    and q: "queues_ok (scene_generation s) (run_wavelengths s) s"
    using assms(2) st(1) by (auto simp: shape_def)
  from worker_step_sound [OF st(3) ok q] st ok that show thesis by (auto simp: worker_sound_def)
qed

section \<open>The protocol is kept\<close>

lemma phase_ok_step:
  assumes "phase_ok s k" and "srv_state s' = srv_state s" and "shut (scene_queue s') = shut (scene_queue s)"
    and "shut (data_queue s') = shut (data_queue s)" and "srv_state s = kStopped \<Longrightarrow> at_rest s \<Longrightarrow> at_rest s'"
  shows "phase_ok s' k"
  using assms by (cases k) (cases "srv_state s"; auto simp: queues_open_def queues_shut_def)+

lemma gen_setup_locals:
  "active_scene s = Some sc \<Longrightarrow> gen_setup cfg s sc = Some (g, cap, wake) \<Longrightarrow>
     locals_ok s g \<and> gl_committed g = 0 \<and> gl_degenerate g = scene_degenerate sc"
  by (auto simp: gen_setup_def Let_def locals_ok_def run_wavelengths_def run_budget_def split: prod.splits)

lemma gen_batch_ok: "locals_ok s g \<Longrightarrow> batch_ok (scene_generation s) (run_wavelengths s) (gen_batch g)"
  by (simp add: locals_ok_def batch_ok_def gen_batch_def)

text \<open>The producer changes neither the run nor the workers nor the consumer.\<close>

definition producer_frame :: "server \<Rightarrow> server \<Rightarrow> bool" where
  "producer_frame s s' \<longleftrightarrow>
     srv_state s' = srv_state s \<and> start_generation s' = start_generation s \<and>
     session_mode s' = session_mode s \<and> active_scene s' = active_scene s \<and>
     ray_num_override s' = ray_num_override s \<and> scene_generation s' = scene_generation s \<and>
     committed_epoch s' = committed_epoch s \<and> workers s' = workers s \<and> control_at s' = control_at s \<and>
     consumer_gen s' = consumer_gen s \<and>
     shut (scene_queue s') = shut (scene_queue s) \<and> shut (data_queue s') = shut (data_queue s)"

lemma producer_step_frame:
  "producer_step cfg s pc = Some s' \<Longrightarrow>
     producer_frame s s' \<and> consumer_at s' = consumer_at s \<and> data_queue s' = data_queue s \<and>
     delivered s' = delivered s \<and> stale s' = stale s"
  by (cases pc)
    (auto simp: producer_frame_def enter_def leave_def Emplace_def DrainAll_def Let_def
      split: if_splits option.splits prod.splits)

lemma producer_step_queue:
  "producer_step cfg s pc = Some s' \<Longrightarrow> scene_queue s' =
     (case pc of P_Drain g \<Rightarrow> (scene_queue s)\<lparr>queued := []\<rparr> | P_Publish g b \<Rightarrow> Emplace b (scene_queue s)
      | _ \<Rightarrow> scene_queue s)"
  by (cases pc) (auto simp: enter_def leave_def DrainAll_def Let_def split: if_splits option.splits prod.splits)

lemma producer_step_hands:
  assumes "producer_step cfg s pc = Some s'" and "queues_ok G n s"
    and "\<And>g. producer_gen_locals pc = Some g \<Longrightarrow> batch_ok G n (gen_batch g)"
  shows "producer_hands G n (producer_at s')"
  using assms
  by (cases pc) (auto simp: enter_def leave_def DrainAll_def Let_def queues_ok_def
      split: if_splits option.splits prod.splits)

lemma producer_step_locals:
  assumes "producer_step cfg s pc = Some s'" and "\<And>g. producer_gen_locals pc = Some g \<Longrightarrow> locals_ok s g"
    and "producer_gen_locals (producer_at s') = Some g'"
  shows "locals_ok s g'"
  using assms gen_setup_locals [of s]
  by (cases pc) (auto simp: locals_ok_def enter_def leave_def DrainAll_def Let_def
      split: if_splits option.splits prod.splits)

lemma producer_step_shape:
  assumes step: "producer_step cfg s (producer_at s) = Some s'" and ok: "shape s"
  shows "shape s'"
proof -
  let ?G = "scene_generation s" and ?n = "run_wavelengths s"
  note frame = producer_step_frame [OF step]
  from frame run_facts_frame [of s' s]
  have same: "run_wavelengths s' = ?n" "run_budget s' = run_budget s" "locals_ok s' = locals_ok s"
    "scene_generation s' = ?G" by (auto simp: producer_frame_def)
  have q0: "queues_ok ?G ?n s" and hands: "producer_hands ?G ?n (producer_at s)"
    and locals: "\<And>g. producer_gen_locals (producer_at s) = Some g \<Longrightarrow> locals_ok s g"
    using ok by (auto simp: shape_def)
  have q: "queues_ok ?G ?n s'"
    using q0 hands frame unfolding queues_ok_def producer_step_queue [OF step]
    by (auto simp: Emplace_def split: producer_pc.splits)
  have h: "producer_hands ?G ?n (producer_at s')"
    by (rule producer_step_hands [OF step q0]) (rule gen_batch_ok [OF locals])
  have "locals_ok s g'" if "producer_gen_locals (producer_at s') = Some g'" for g'
    using producer_step_locals [OF step locals that] .
  then show ?thesis using frame ok same q h by (auto simp: shape_def producer_frame_def)
qed

lemma producer_step_active:
  "producer_step cfg s pc = Some s' \<Longrightarrow>
     active_workers s' = (if pc = P_Parked then active_workers s + 1 else if pc = P_Leave then active_workers s - 1
       else active_workers s) \<and> (producer_at s' = P_Parked \<longleftrightarrow> pc = P_Leave)"
  by (cases pc) (auto simp: enter_def leave_def DrainAll_def Let_def split: if_splits option.splits prod.splits)

lemma producer_step_awake:
  assumes step: "producer_step cfg s (producer_at s) = Some s'" and count: "active_workers s = threads_awake s"
  shows "active_workers s' = threads_awake s'"
proof -
  have "threads_awake s' + awake (producer_at s = P_Parked) = threads_awake s + awake (producer_at s' = P_Parked)"
    using producer_step_frame [OF step] by (simp add: threads_awake_def producer_frame_def)
  then show ?thesis using producer_step_active [OF step] count
    by (cases "producer_at s = P_Parked"; cases "producer_at s = P_Leave") simp_all
qed

lemma producer_awake_not_rest:
  "producer_step cfg s (producer_at s) = Some s' \<Longrightarrow> srv_state s = kStopped \<Longrightarrow> \<not> at_rest s"
proof
  assume "producer_step cfg s (producer_at s) = Some s'" "srv_state s = kStopped" "at_rest s"
  moreover from \<open>at_rest s\<close> have "producer_at s = P_Parked" by (simp add: rest_parked)
  ultimately show False by (simp add: may_enter_def)
qed

lemma producer_session:
  assumes "producer_step cfg s (producer_at s) = Some s'" and "session_ok s"
  shows "session_ok s'"
proof -
  note frame = producer_step_frame [OF assms(1)]
  have "phase_ok s' (control_at s)"
  proof (rule phase_ok_step)
    show "phase_ok s (control_at s)" using assms(2) by (simp add: session_ok_def)
    show "at_rest s'" if "srv_state s = kStopped" "at_rest s"
      using producer_awake_not_rest [OF assms(1)] that by simp
  qed (use frame in \<open>simp_all add: producer_frame_def\<close>)
  then show ?thesis
    using assms(2) producer_step_shape [OF assms(1)] producer_step_awake [OF assms(1)] frame
    by (simp add: session_ok_def producer_frame_def)
qed

section \<open>The consumer keeps the protocol\<close>

definition consumer_frame :: "server \<Rightarrow> server \<Rightarrow> bool" where
  "consumer_frame s s' \<longleftrightarrow>
     srv_state s' = srv_state s \<and> start_generation s' = start_generation s \<and>
     work_started s' = work_started s \<and> scene_gen_active s' = scene_gen_active s \<and>
     session_mode s' = session_mode s \<and> active_scene s' = active_scene s \<and>
     ray_num_override s' = ray_num_override s \<and> scene_generation s' = scene_generation s \<and>
     committed_epoch s' = committed_epoch s \<and> workers s' = workers s \<and> control_at s' = control_at s \<and>
     scene_queue s' = scene_queue s \<and> shut (data_queue s') = shut (data_queue s) \<and>
     producer_gen s' = producer_gen s \<and> issued s' = issued s"

lemma wake_producer_simps [simp]:
  "srv_state (wake_producer s) = srv_state s" "start_generation (wake_producer s) = start_generation s"
  "work_started (wake_producer s) = work_started s" "scene_gen_active (wake_producer s) = scene_gen_active s"
  "session_mode (wake_producer s) = session_mode s" "active_scene (wake_producer s) = active_scene s"
  "ray_num_override (wake_producer s) = ray_num_override s" "scene_generation (wake_producer s) = scene_generation s"
  "committed_epoch (wake_producer s) = committed_epoch s" "workers (wake_producer s) = workers s"
  "control_at (wake_producer s) = control_at s" "scene_queue (wake_producer s) = scene_queue s"
  "data_queue (wake_producer s) = data_queue s" "producer_gen (wake_producer s) = producer_gen s"
  "issued (wake_producer s) = issued s" "lost (wake_producer s) = lost s" "stale (wake_producer s) = stale s"
  "delivered (wake_producer s) = delivered s" "consumer_at (wake_producer s) = consumer_at s"
  "consumer_gen (wake_producer s) = consumer_gen s" "active_workers (wake_producer s) = active_workers s"
  "drained_epoch (wake_producer s) = drained_epoch s" "sim_scene_cnt (wake_producer s) = sim_scene_cnt s"
  by (simp_all add: wake_producer_def split: producer_pc.splits)

lemma wake_producer_at:
  "producer_amount (producer_at (wake_producer s)) = producer_amount (producer_at s)"
  "producer_gen_locals (producer_at (wake_producer s)) = producer_gen_locals (producer_at s)"
  "producer_at (wake_producer s) = P_Parked \<longleftrightarrow> producer_at s = P_Parked"
  "producer_hands G n (producer_at (wake_producer s)) = producer_hands G n (producer_at s)"
  by (auto simp: wake_producer_def split: producer_pc.splits)

lemma consumer_step_frame:
  "consumer_step cfg s pc = Some s' \<Longrightarrow>
     consumer_frame s s' \<and> (producer_at s' = producer_at s \<or> producer_at s' = producer_at (wake_producer s))"
  by (cases pc)
    (auto simp: consumer_frame_def enter_def leave_def hand_over_def wq.take_accepting Get_def
      split: if_splits taken.splits prod.splits option.splits list.splits)

lemma consumer_step_queue:
  "consumer_step cfg s pc = Some s' \<Longrightarrow> queues_ok G n s \<Longrightarrow> consumer_hands G pc \<Longrightarrow>
     queues_ok G n s' \<and> consumer_hands G (consumer_at s')"
  by (cases pc)
    (auto simp: queues_ok_def enter_def leave_def hand_over_def Get_def
      split: if_splits taken.splits prod.splits option.splits list.splits)

lemma consumer_step_active:
  "consumer_step cfg s pc = Some s' \<Longrightarrow>
     active_workers s' = (if pc = C_Parked then active_workers s + 1 else if pc = C_Leave then active_workers s - 1
       else active_workers s) \<and> (consumer_at s' = C_Parked \<longleftrightarrow> pc = C_Leave)"
  by (cases pc) (auto simp: enter_def leave_def hand_over_def split: if_splits taken.splits option.splits prod.splits)

lemma consumer_step_awake:
  assumes step: "consumer_step cfg s (consumer_at s) = Some s'" and count: "active_workers s = threads_awake s"
  shows "active_workers s' = threads_awake s'"
proof -
  have "threads_awake s' + awake (consumer_at s = C_Parked) = threads_awake s + awake (consumer_at s' = C_Parked)"
    using consumer_step_frame [OF step] wake_producer_at(3) [of s] by (auto simp: threads_awake_def consumer_frame_def)
  then show ?thesis using consumer_step_active [OF step] count
    by (cases "consumer_at s = C_Parked"; cases "consumer_at s = C_Leave") simp_all
qed

lemma consumer_awake_not_rest:
  "consumer_step cfg s (consumer_at s) = Some s' \<Longrightarrow> srv_state s = kStopped \<Longrightarrow> \<not> at_rest s"
proof
  assume "consumer_step cfg s (consumer_at s) = Some s'" "srv_state s = kStopped" "at_rest s"
  moreover from \<open>at_rest s\<close> have "consumer_at s = C_Parked" by (simp add: rest_parked)
  ultimately show False by (simp add: may_enter_def)
qed

lemma consumer_session:
  assumes step: "consumer_step cfg s (consumer_at s) = Some s'" and ok: "session_ok s"
  shows "session_ok s'"
proof -
  note frame = consumer_step_frame [OF step]
  have "phase_ok s' (control_at s)"
  proof (rule phase_ok_step)
    show "phase_ok s (control_at s)" using ok by (simp add: session_ok_def)
    show "at_rest s'" if "srv_state s = kStopped" "at_rest s"
      using consumer_awake_not_rest [OF step] that by simp
  qed (use frame in \<open>auto simp: consumer_frame_def\<close>)
  moreover have "shape s'"
  proof -
    have "run_wavelengths s' = run_wavelengths s \<and> run_budget s' = run_budget s \<and> locals_ok s' = locals_ok s"
      using frame by (intro run_facts_frame) (auto simp: consumer_frame_def)
    then show ?thesis
      using frame ok consumer_step_queue [OF step, of "scene_generation s" "run_wavelengths s"]
        wake_producer_at(2) [of s] wake_producer_at(4) [of "scene_generation s" "run_wavelengths s" s]
      by (auto simp: session_ok_def shape_def consumer_frame_def)
  qed
  ultimately show ?thesis
    using ok consumer_step_awake [OF step] frame by (auto simp: session_ok_def consumer_frame_def)
qed

section \<open>The workers keep the protocol\<close>

lemma worker_session:
  assumes step: "step cfg (Worker i c) s = Some s'" and ok: "session_ok s"
  shows "session_ok s'"
proof -
  have shape: "shape s" and count: "active_workers s = threads_awake s" and phase: "phase_ok s (control_at s)"
    using ok by (auto simp: session_ok_def)
  from step shape obtain w s1 where i: "i < length (workers s)"
    and s': "s' = s1\<lparr>workers := (workers s)[i := w]\<rparr>" and fr: "worker_frame s s1"
    and w: "worker_ok (scene_generation s) (run_wavelengths s) w"
    and q: "queues_ok (scene_generation s) (run_wavelengths s) s1"
    and st: "worker_step cfg c (worker_at (workers s ! i)) (workers s ! i) s = Some (w, s1)"
    and w0: "worker_ok (scene_generation s) (run_wavelengths s) (workers s ! i)"
    by (rule worker_step_server)
  note same = worker_frame_fields [OF fr]
  have facts: "run_wavelengths s' = run_wavelengths s \<and> run_budget s' = run_budget s \<and> locals_ok s' = locals_ok s"
    using same by (intro run_facts_frame) (auto simp: s')
  have "shape s'"
  proof -
    have "\<forall>v\<in>set (workers s'). worker_ok (scene_generation s) (run_wavelengths s) v"
      using shape w set_update_subset_insert [of "workers s" i w] by (auto simp: s' shape_def)
    moreover have "queues_ok (scene_generation s) (run_wavelengths s) s'"
      using q by (simp add: s' queues_ok_def)
    ultimately show ?thesis using shape same facts by (simp add: shape_def s')
  qed
  moreover have "active_workers s' = threads_awake s'"
  proof -
    have in_s: "workers s ! i \<in> set (workers s)" using i by simp
    have le: "worker_awake (workers s ! i) \<le> active_workers s"
      using worker_awake_member [OF in_s] count by (simp add: threads_awake_def)
    show ?thesis
      using worker_step_awake [OF st w0 le] sum_list_update_nat [of i "workers s" worker_awake w] i count same
      by (simp add: s' threads_awake_def)
  qed
  moreover have "phase_ok s' (control_at s)"
  proof (rule phase_ok_step [OF phase])
    show "at_rest s'" if "srv_state s = kStopped" "at_rest s"
    proof -
      have "worker_at (workers s ! i) = W_Parked" using rest_parked [OF that(2)] i by simp
      with st that(1) have False by (simp add: may_enter_def)
      then show ?thesis ..
    qed
  qed (use same in \<open>simp_all add: s'\<close>)
  ultimately show ?thesis using same by (simp add: session_ok_def s')
qed

section \<open>The control thread keeps the protocol\<close>

text \<open>A new run is bound while everyone is parked and the queues are empty.\<close>

lemma rest_shape:
  assumes "at_rest s'" and "workers s' = workers s" and "shape s"
  shows "shape s'"
  using assms rest_parked [OF assms(1)] parked_worker_ok
  by (auto simp: shape_def queues_ok_def at_rest_def)

lemma bind_run_fields [simp]:
  "srv_state (bind_run op s) = srv_state s" "start_generation (bind_run op s) = start_generation s"
  "active_workers (bind_run op s) = active_workers s" "work_started (bind_run op s) = work_started s"
  "scene_gen_active (bind_run op s) = scene_gen_active s" "sim_scene_cnt (bind_run op s) = sim_scene_cnt s"
  "scene_queue (bind_run op s) = scene_queue s" "data_queue (bind_run op s) = data_queue s"
  "drained_epoch (bind_run op s) = drained_epoch s" "producer_gen (bind_run op s) = producer_gen s"
  "producer_at (bind_run op s) = producer_at s" "consumer_gen (bind_run op s) = consumer_gen s"
  "consumer_at (bind_run op s) = consumer_at s" "workers (bind_run op s) = workers s"
  "control_at (bind_run op s) = control_at s"
  by (cases op; simp add: new_epoch_def)+

lemma stop_worker_beyond: "\<not> i < length (workers s) \<Longrightarrow> stop_worker i s = s"
  by (simp add: stop_worker_def not_less list_update_beyond)

lemma stop_worker_awake: "threads_awake (stop_worker i s) = threads_awake s"
proof (cases "i < length (workers s)")
  case True
  let ?w = "(workers s ! i)\<lparr>stop := True\<rparr>"
  have "sum_list (map worker_awake ((workers s)[i := ?w])) = sum_list (map worker_awake (workers s))"
    using sum_list_update_nat [OF True, of worker_awake ?w] by (simp add: worker_awake_def)
  then show ?thesis by (simp add: threads_awake_def stop_worker_def)
qed (simp add: stop_worker_beyond)

lemma stop_worker_ok: "worker_ok G n (w\<lparr>stop := True\<rparr>) = worker_ok G n w"
  by (simp add: worker_ok_def)

lemma stop_worker_fields [simp]:
  "srv_state (stop_worker i s) = srv_state s" "active_workers (stop_worker i s) = active_workers s"
  "scene_queue (stop_worker i s) = scene_queue s" "data_queue (stop_worker i s) = data_queue s"
  "producer_at (stop_worker i s) = producer_at s" "consumer_at (stop_worker i s) = consumer_at s"
  "scene_generation (stop_worker i s) = scene_generation s" "session_mode (stop_worker i s) = session_mode s"
  "active_scene (stop_worker i s) = active_scene s" "ray_num_override (stop_worker i s) = ray_num_override s"
  by (simp_all add: stop_worker_def)

lemma stop_worker_shape:
  assumes "shape s"
  shows "shape (stop_worker i s)"
proof (cases "i < length (workers s)")
  case True
  then show ?thesis
    using assms run_facts_frame [of "stop_worker i s" s]
      set_update_subset_insert [of "workers s" i "(workers s ! i)\<lparr>stop := True\<rparr>"]
    by (auto simp: shape_def queues_ok_def stop_worker_ok stop_worker_def)
qed (simp add: stop_worker_beyond assms)

lemma shut_queue_fields [simp]:
  "srv_state (shut_scene_queue s) = srv_state s" "srv_state (shut_data_queue s) = srv_state s"
  "shut (scene_queue (shut_scene_queue s))" "shut (data_queue (shut_data_queue s))"
  "scene_queue (shut_data_queue s) = scene_queue s" "data_queue (shut_scene_queue s) = data_queue s"
  by (simp_all add: shut_scene_queue_def shut_data_queue_def Shutdown_def)

lemma shut_queue_shape: "shape s \<Longrightarrow> shape (shut_scene_queue s)" "shape s \<Longrightarrow> shape (shut_data_queue s)"
  using run_facts_frame [of "shut_scene_queue s" s] run_facts_frame [of "shut_data_queue s" s]
  by (auto simp: shape_def queues_ok_def shut_scene_queue_def shut_data_queue_def Shutdown_def)

lemma shut_queue_awake:
  "threads_awake (shut_scene_queue s) = threads_awake s" "threads_awake (shut_data_queue s) = threads_awake s"
  "active_workers (shut_scene_queue s) = active_workers s" "active_workers (shut_data_queue s) = active_workers s"
  by (simp_all add: threads_awake_def shut_scene_queue_def shut_data_queue_def)

lemma wake_producer_shape: "shape s \<Longrightarrow> shape (wake_producer s)"
  using run_facts_frame [of "wake_producer s" s] wake_producer_at(2) [of s]
    wake_producer_at(4) [of "scene_generation s" "run_wavelengths s" s]
  by (auto simp: shape_def queues_ok_def)

lemma wake_producer_awake: "threads_awake (wake_producer s) = threads_awake s"
  using wake_producer_at(3) [of s] by (simp add: threads_awake_def)

text \<open>Moving the control thread or the observer touches nothing else.\<close>

lemma shape_cong:
  assumes "session_mode s' = session_mode s" "active_scene s' = active_scene s"
    "ray_num_override s' = ray_num_override s" "scene_generation s' = scene_generation s"
    "scene_queue s' = scene_queue s" "data_queue s' = data_queue s" "workers s' = workers s"
    "producer_at s' = producer_at s" "consumer_at s' = consumer_at s"
  shows "shape s' = shape s"
  using run_facts_frame [OF assms(1-4)] assms by (simp add: shape_def queues_ok_def)

lemma shape_updates [simp]:
  "shape (s\<lparr>control_at := k\<rparr>) = shape s" "shape (s\<lparr>observer_at := pc\<rparr>) = shape s"
  "shape (s\<lparr>srv_state := st\<rparr>) = shape s" "shape (s\<lparr>has_ever_consumed := b\<rparr>) = shape s"
  "shape (s\<lparr>server_status := v\<rparr>) = shape s"
  by (rule shape_cong; simp)+

lemma awake_updates [simp]:
  "threads_awake (s\<lparr>control_at := k\<rparr>) = threads_awake s" "threads_awake (s\<lparr>observer_at := pc\<rparr>) = threads_awake s"
  "threads_awake (s\<lparr>srv_state := st\<rparr>) = threads_awake s" "threads_awake (s\<lparr>has_ever_consumed := b\<rparr>) = threads_awake s"
  "threads_awake (s\<lparr>server_status := v\<rparr>) = threads_awake s" "threads_awake (bind_run op s) = threads_awake s"
  by (simp_all add: threads_awake_def)

lemma rest_updates [simp]:
  "at_rest (s\<lparr>control_at := k\<rparr>) = at_rest s" "at_rest (s\<lparr>observer_at := pc\<rparr>) = at_rest s"
  "at_rest (s\<lparr>srv_state := st\<rparr>) = at_rest s" "at_rest (s\<lparr>has_ever_consumed := b\<rparr>) = at_rest s"
  "at_rest (s\<lparr>server_status := v\<rparr>) = at_rest s" "at_rest (bind_run op s) = at_rest s"
  by (simp_all add: at_rest_def)

lemma control_session:
  assumes step: "control_step s (control_at s) = Some s'" and ok: "session_ok s"
  shows "session_ok s'"
proof -
  have shape: "shape s" and count: "active_workers s = threads_awake s" and phase: "phase_ok s (control_at s)"
    using ok by (auto simp: session_ok_def)
  have shut_empty: "shut (scene_queue s) \<Longrightarrow> queued (scene_queue s) = []"
    "shut (data_queue s) \<Longrightarrow> queued (data_queue s) = []"
    using shape by (auto simp: shape_def queues_ok_def)
  have two: "srv_state s \<noteq> kRunning \<longleftrightarrow> srv_state s = kStopped" by (cases "srv_state s") auto
  show ?thesis
  proof (cases "control_at s")
    case (K_Stop op)
    with step phase shape count two show ?thesis
      by (auto simp: session_ok_def split: if_splits)
  next
    case (K_ShutScene op)
    with step phase shut_queue_shape(1) [OF shape] count show ?thesis
      by (auto simp: session_ok_def shut_queue_awake)
  next
    case (K_ShutData op)
    with step phase shut_queue_shape(2) [OF shape] count show ?thesis
      by (auto simp: session_ok_def shut_queue_awake queues_shut_def)
  next
    case (K_Notify op)
    with step phase wake_producer_shape [OF shape] count show ?thesis
      by (auto simp: session_ok_def wake_producer_awake queues_shut_def)
  next
    case (K_StopWorkers op i)
    show ?thesis
    proof (cases "i < length (workers s)")
      case True
      with K_StopWorkers step have s': "s' = (stop_worker i s)\<lparr>control_at := K_StopWorkers op (i + 1)\<rparr>" by simp
      show ?thesis
        using stop_worker_shape [OF shape] count phase K_StopWorkers
        by (simp add: session_ok_def s' stop_worker_awake queues_shut_def)
    next
      case False
      with K_StopWorkers step have s': "s' = s\<lparr>control_at := K_Wait op\<rparr>" by simp
      show ?thesis using shape count phase K_StopWorkers by (simp add: session_ok_def s' queues_shut_def)
    qed
  next
    case (K_Wait op)
    with step phase shape shut_empty count show ?thesis
      by (auto simp: session_ok_def queues_shut_def at_rest_def split: if_splits)
  next
    case (K_Reset op)
    with step phase shape count show ?thesis
      by (auto simp: session_ok_def)
  next
    case (K_Bind op)
    with step have s': "s' = (bind_run op s)\<lparr>control_at := K_Start\<rparr>" by simp
    have r: "at_rest s'" using phase K_Bind by (simp add: s')
    then have "shape s'" by (rule rest_shape [where s = s]) (simp_all add: s' shape)
    with r phase K_Bind count show ?thesis
      by (simp add: session_ok_def s')
  next
    case K_Start
    with step phase have s': "s' = s\<lparr>work_started := False, sim_scene_cnt := 0, server_status := kServerRunning,
           data_queue := Start_queue (data_queue s), scene_queue := Start_queue (scene_queue s),
           start_generation := start_generation s + 1, srv_state := kRunning, control_at := K_Idle\<rparr>" by simp
    have r: "at_rest s'" using phase K_Start by (simp add: s' at_rest_def threads_awake_def Start_queue_def)
    then have "shape s'" by (rule rest_shape [where s = s]) (simp_all add: s' shape)
    with count show ?thesis
      by (simp add: session_ok_def s' threads_awake_def queues_open_def Start_queue_def)
  qed (use step in simp)
qed

lemma session_ok_cong:
  assumes "shape s' = shape s" "threads_awake s' = threads_awake s" "active_workers s' = active_workers s"
    "srv_state s' = srv_state s" "scene_queue s' = scene_queue s" "data_queue s' = data_queue s"
    "phase_ok s (control_at s) \<Longrightarrow> phase_ok s' (control_at s')" "session_ok s"
  shows "session_ok s'"
  using assms by (simp add: session_ok_def)

lemma spurious_is_wake: "step cfg Spurious s = Some s' \<Longrightarrow> s' = wake_producer s"
  by (auto simp: wake_producer_def split: producer_pc.splits)

lemma phase_ok_same:
  "phase_ok s k \<Longrightarrow> srv_state s' = srv_state s \<Longrightarrow> scene_queue s' = scene_queue s \<Longrightarrow> data_queue s' = data_queue s \<Longrightarrow>
     threads_awake s' = threads_awake s \<Longrightarrow> phase_ok s' k"
  by (rule phase_ok_step) (auto simp: at_rest_def)

lemma observer_frame: "observer_step s pc = Some s' \<Longrightarrow> \<exists>pc'. s' = s\<lparr>observer_at := pc'\<rparr>"
  by (cases pc) auto

lemma session_step:
  assumes step: "step cfg l s = Some s'" and ok: "session_ok s"
  shows "session_ok s'"
proof (cases l)
  case (Command op)
  with step have s': "s' = s\<lparr>control_at := K_Stop op\<rparr>" and "control_at s = K_Idle" by (auto split: if_splits)
  with ok show ?thesis
    by (auto simp: session_ok_def queues_open_def)
next
  case Observer
  with step observer_frame obtain pc' where s': "s' = s\<lparr>observer_at := pc'\<rparr>" by (metis step.simps(6))
  with ok show ?thesis
    by (auto simp: session_ok_def intro: phase_ok_same)
next
  case Spurious
  with step spurious_is_wake have s': "s' = wake_producer s" by metis
  with ok show ?thesis
    by (auto simp: session_ok_def wake_producer_shape wake_producer_awake intro: phase_ok_same)
qed (use assms producer_session consumer_session worker_session control_session in \<open>simp_all del: step.simps(3)\<close>)

lemma boot_session: "session_ok (new_server cfg n)"
proof -
  have parked: "worker_ok 0 0 w \<and> worker_at w = W_Parked" if "w \<in> set (new_workers gpu n)" for w gpu
    using that by (auto simp: new_workers_def new_worker_def worker_ok_def split: if_splits)
  let ?s = "new_server cfg n"
  have fields: "workers ?s = new_workers (gpu_server cfg) n" "producer_at ?s = P_Parked" "consumer_at ?s = C_Parked"
    "scene_queue ?s = new_queue" "data_queue ?s = new_queue" "active_workers ?s = 0" "control_at ?s = K_Idle"
    "srv_state ?s = kStopped" "scene_generation ?s = 0" "active_scene ?s = None"
    by (simp_all add: new_server_def)
  have "threads_awake ?s = 0" using parked by (simp add: threads_awake_def fields)
  then show ?thesis
    using parked fields
    by (auto simp: session_ok_def shape_def at_rest_def queues_ok_def run_wavelengths_def new_queue_def)
qed

lemma reachable_session: "reachable cfg s \<Longrightarrow> session_ok s"
  by (induction rule: reachable.induct) (auto intro: boot_session session_step)

end
