(* ===== verification/Pipeline_Books.thy ===== *)
theory Pipeline_Books
  imports Pipeline_Session
begin

text \<open>
  The books of the server's pipeline: under every schedule the counter \<open>sim_scene_cnt_\<close> is what was issued
  less what was delivered, nothing is discarded as stale, and a loss always shows in the counter.
\<close>

section \<open>The books\<close>

fun settling :: "consumer_pc \<Rightarrow> nat" where
  "settling (C_Settle d) = sim_scene_credit d"
| "settling _ = 0"

definition counted :: "server \<Rightarrow> bool" where
  "counted s \<longleftrightarrow>
     sim_scene_cnt s + int (credit_of (delivered s)) = int (credit_of (issued s)) + int (settling (consumer_at s))"

definition books_ok :: "server \<Rightarrow> bool" where
  "books_ok s \<longleftrightarrow> ledger s \<and> stale s = 0 \<and> covered (lost s) \<and>
     (if control_at s = K_Start then issued s = 0 \<and> delivered s = 0 \<and> lost s = 0 else counted s)"

lemma in_flight_covered:
  assumes "shape s"
  shows "covered (in_flight s)"
proof -
  have w: "covered (worker_amount w)" if "worker_ok G n w" for w G n
  proof -
    have "covered (pc_amount pc)" for pc by (induction pc) auto
    moreover have "covered (datas_amount (pending w))"
      using that by (intro datas_covered) (auto simp: worker_ok_def data_ok_def)
    moreover have "covered (Amount (win_calls w) (win_rays w))" using that by (auto simp: worker_ok_def covered_def)
    ultimately show ?thesis by (simp add: worker_amount_def)
  qed
  have "covered (producer_amount (producer_at s))" by (cases "producer_at s") auto
  moreover have "covered (consumer_amount (consumer_at s))"
    using assms by (cases "consumer_at s") (auto simp: shape_def data_ok_def)
  moreover have "covered (datas_amount (queued (data_queue s)))"
    using assms by (intro datas_covered) (auto simp: shape_def queues_ok_def data_ok_def)
  moreover have "covered (sum_list (map worker_amount (workers s)))"
    using assms w by (intro covered_sum_list) (auto simp: shape_def)
  ultimately show ?thesis by (simp add: in_flight_def queues_amount_def)
qed

text \<open>A count of zero means that everything issued was delivered.\<close>

lemma no_credit_all_delivered:
  assumes "shape s" and "books_ok s" and "control_at s \<noteq> K_Start" and "sim_scene_cnt s \<le> 0"
  shows "issued s = delivered s" and "\<And>d. consumer_at s \<noteq> C_Settle d"
proof -
  have led: "issued s = in_flight s + lost s + delivered s" using assms(2) by (simp add: books_ok_def ledger_def)
  have "int (credit_of (in_flight s)) + int (credit_of (lost s)) + int (settling (consumer_at s)) = sim_scene_cnt s"
    using assms(2,3) led by (simp add: books_ok_def counted_def)
  with assms(4) have z: "credit_of (in_flight s) = 0" "credit_of (lost s) = 0" "settling (consumer_at s) = 0"
    by linarith+
  then have "in_flight s = 0" "lost s = 0"
    using covered_no_credit in_flight_covered [OF assms(1)] assms(2) by (auto simp: books_ok_def)
  with led show "issued s = delivered s" by simp
  show "consumer_at s \<noteq> C_Settle d" for d
    using z(3) assms(1) by (auto simp: shape_def data_ok_def)
qed

text \<open>Conversely nothing is in a queue or in a hand once everything was delivered.\<close>

lemma all_delivered:
  assumes "books_ok s" and "issued s = delivered s"
  shows "in_flight s = 0" and "lost s = 0"
proof -
  have "delivered s = in_flight s + lost s + delivered s"
    using assms by (auto simp: books_ok_def ledger_def)
  then have "in_flight s + lost s = 0" by (simp add: amount_eq_iff)
  then show "in_flight s = 0" and "lost s = 0" by simp_all
qed

section \<open>The books of the producer and the consumer\<close>

lemma producer_step_ledger:
  assumes step: "producer_step cfg s (producer_at s) = Some s'" and "ledger s"
  shows "ledger s'"
proof -
  note frame = producer_step_frame [OF step]
  have led: "issued s = producer_amount (producer_at s) + consumer_amount (consumer_at s) + queues_amount s +
      sum_list (map worker_amount (workers s)) + lost s + delivered s + stale s"
    using assms(2) by (simp add: ledger_def in_flight_def)
  have "issued s' = producer_amount (producer_at s') + consumer_amount (consumer_at s) + queues_amount s' +
      sum_list (map worker_amount (workers s)) + lost s' + delivered s + stale s"
    using step led
    by (cases "producer_at s")
      (auto simp: queues_amount_def enter_def leave_def Emplace_def DrainAll_def Let_def ac_simps
        split: if_splits option.splits prod.splits)
  then show ?thesis using frame by (simp add: ledger_def in_flight_def producer_frame_def)
qed

lemma consumer_step_ledger:
  assumes step: "consumer_step cfg s (consumer_at s) = Some s'" and "ledger s"
  shows "ledger s'"
proof -
  note frame = consumer_step_frame [OF step]
  have pa: "producer_amount (producer_at s') = producer_amount (producer_at s)"
    using frame wake_producer_at(1) [of s] by auto
  have "consumer_amount (consumer_at s) + queues_amount s + lost s + delivered s + stale s =
      consumer_amount (consumer_at s') + queues_amount s' + lost s' + delivered s' + stale s'"
    using step
    by (cases "consumer_at s")
      (auto simp: queues_amount_def enter_def leave_def hand_over_def Get_def ac_simps
        split: if_splits taken.splits prod.splits option.splits list.splits)
  then show ?thesis
    using assms(2) frame pa by (simp add: ledger_def in_flight_def consumer_frame_def amount_eq_iff)
qed

lemma worker_step_ledger:
  assumes step: "step cfg (Worker i c) s = Some s'" and "ledger s" and "shape s"
  shows "ledger s'"
proof -
  from step assms(3) obtain w s1 where i: "i < length (workers s)"
    and s': "s' = s1\<lparr>workers := (workers s)[i := w]\<rparr>" and fr: "worker_frame s s1"
    and mv: "moves (workers s ! i) s w s1" by (rule worker_step_server)
  note same = worker_frame_fields [OF fr]
  have "sum_list (map worker_amount ((workers s)[i := w])) + queues_amount s1 + lost s1 + worker_amount (workers s ! i) =
      sum_list (map worker_amount (workers s)) + queues_amount s + lost s + worker_amount (workers s ! i)"
    using sum_list_update_amount [OF i, of worker_amount w] mv
    by (simp add: moves_def held_def amount_eq_iff)
  then have "sum_list (map worker_amount ((workers s)[i := w])) + queues_amount s1 + lost s1 =
      sum_list (map worker_amount (workers s)) + queues_amount s + lost s" by simp
  moreover have "queues_amount s' = queues_amount s1" by (simp add: s' queues_amount_def)
  ultimately show ?thesis
    using assms(2) same by (simp add: s' ledger_def in_flight_def amount_eq_iff)
qed

text \<open>The counter follows the books.\<close>

lemma producer_step_cnt:
  assumes step: "producer_step cfg s pc = Some s'" and ok: "producer_hands G n pc"
    and loc: "\<And>g. producer_gen_locals pc = Some g \<Longrightarrow> gl_nsimdata g = n"
    and le: "credit_of (producer_amount pc) \<le> credit_of (issued s)"
  shows "sim_scene_cnt s' + int (credit_of (issued s)) = sim_scene_cnt s + int (credit_of (issued s'))"
proof (cases pc)
  case (P_Refund g ds)
  have "sum_list (map (\<lambda>b. PhysicsBatchCount b * gl_nsimdata g) ds) = credit_of (batches_amount ds)"
    using ok loc P_Refund by (simp add: batches_credit refund_is_credit batch_ok_def)
  with step le P_Refund show ?thesis by (auto simp: Let_def of_nat_diff)
next
  case (P_Credit g)
  with step show ?thesis by (auto simp: Let_def batch_amount_def batch_credit_def gen_batch_def)
qed (use step in \<open>auto simp: enter_def leave_def DrainAll_def Let_def split: if_splits option.splits prod.splits\<close>)

lemma producer_step_lost:
  "producer_step cfg s pc = Some s' \<Longrightarrow> covered (lost s) \<Longrightarrow> covered (lost s')"
  by (cases pc) (auto simp: enter_def leave_def DrainAll_def Let_def split: if_splits option.splits prod.splits)

lemma consumer_step_lost:
  "consumer_step cfg s pc = Some s' \<Longrightarrow> consumer_hands G pc \<Longrightarrow> covered (lost s) \<Longrightarrow> covered (lost s')"
  by (cases pc) (auto simp: enter_def leave_def hand_over_def data_ok_def split: if_splits option.splits prod.splits taken.splits)

lemma consumer_step_cnt:
  assumes "consumer_step cfg s pc = Some s'" and "consumer_hands (scene_generation s) pc"
  shows "sim_scene_cnt s' + int (credit_of (delivered s')) + int (settling pc) =
      sim_scene_cnt s + int (credit_of (delivered s)) + int (settling (consumer_at s')) \<and> stale s' = stale s"
  using assms
  by (cases pc) (auto simp: enter_def leave_def hand_over_def data_ok_def data_amount_def
      split: if_splits option.splits prod.splits taken.splits)

lemma emplace_covered:
  "covered (lost s) \<Longrightarrow> \<forall>d\<in>set ds. 0 < sim_scene_credit d \<Longrightarrow> covered (lost (emplace_data ds s))"
  by (auto simp: emplace_data_def intro!: covered_add datas_covered)

lemma lose_covered: "covered (lost s) \<Longrightarrow> covered a \<Longrightarrow> covered (lost (lose a s))"
  by (simp add: lose_def)

lemma drain_covered:
  "covered (lost s) \<Longrightarrow> worker_ok G n w \<Longrightarrow> DrainDeviceXyz w s = (w', s') \<Longrightarrow> covered (lost s')"
  by (auto simp: DrainDeviceXyz_def window_data_def split: if_splits intro!: emplace_covered)

lemma wavelength_call_covered:
  "wavelength_call cfg c b r k w s = Some (w', s') \<Longrightarrow> covered (lost s) \<Longrightarrow> covered (lost s')"
  by (cases c) (auto simp: call_data_def intro!: emplace_covered lose_covered split: if_splits)

lemma trace_step_covered:
  assumes step: "trace_step cfg c b first calls left w s = Some (w', s')"
    and at: "worker_at w = W_Trace b first calls left" and ok: "worker_ok G n w" and cov: "covered (lost s)"
  shows "covered (lost s')"
proof (cases "c = Drop")
  case False
  have pend: "\<forall>d\<in>set (pending w). 0 < sim_scene_credit d" using ok by (auto simp: worker_ok_def data_ok_def)
  show ?thesis
  proof (cases calls)
    case Nil
    consider "c = Age" | call left' where "c = Go" "left = call # left'" | "c = Go" "left = []"
      using step Nil False by (cases c; cases left) auto
    then show ?thesis
    proof cases
      case 1
      with step Nil emplace_covered [OF cov pend] show ?thesis by (simp add: flush_pending_def)
    next
      case 2
      with step Nil cov lose_covered [OF cov] show ?thesis
        by (auto simp: next_physics_batch_def split: if_splits)
    next
      case 3
      with step Nil cov show ?thesis by simp
    qed
  next
    case (Cons r calls')
    with False step have "wavelength_call cfg c b r (W_Trace b first calls' left) w s = Some (w', s')"
      by (cases c) auto
    then show ?thesis using cov by (rule wavelength_call_covered)
  qed
qed (use step cov in auto)

lemma worker_step_covered:
  assumes step: "worker_step cfg c (worker_at w) w s = Some (w', s')" and ok: "worker_ok G n w" and cov: "covered (lost s)"
  shows "covered (lost s')"
proof (cases "worker_at w")
  case (W_Trace b first calls left)
  with step trace_step_covered [OF _ W_Trace ok cov] show ?thesis by simp
next
  case (W_Drain k)
  with step drain_covered [OF cov ok] show ?thesis by (auto split: prod.splits)
next
  case W_Flush
  with step ok cov show ?thesis by (auto simp: flush_pending_def worker_ok_def data_ok_def intro!: emplace_covered)
qed (use step cov in \<open>auto simp: enter_def leave_def intro!: lose_covered split: if_splits taken.splits prod.splits choice.splits\<close>)

section \<open>The books are kept\<close>

lemma awake_not_start:
  assumes "session_ok s" and "control_at s = K_Start"
  shows "producer_at s = P_Parked" and "consumer_at s = C_Parked" and "\<forall>w\<in>set (workers s). worker_at w = W_Parked"
    and "srv_state s = kStopped"
  using assms rest_parked [of s] by (auto simp: session_ok_def)

lemma producer_books:
  assumes step: "producer_step cfg s (producer_at s) = Some s'" and ok: "session_ok s" and books: "books_ok s"
  shows "books_ok s'"
proof -
  note frame = producer_step_frame [OF step]
  have k: "control_at s \<noteq> K_Start"
    using step awake_not_start [OF ok] by (auto simp: may_enter_def split: if_splits)
  have shape: "shape s" using ok by (simp add: session_ok_def)
  then have hands: "producer_hands (scene_generation s) (run_wavelengths s) (producer_at s)"
    and loc: "\<And>g. producer_gen_locals (producer_at s) = Some g \<Longrightarrow> gl_nsimdata g = run_wavelengths s"
    by (auto simp: shape_def locals_ok_def)
  have led: "ledger s" using books by (simp add: books_ok_def)
  then have le: "credit_of (producer_amount (producer_at s)) \<le> credit_of (issued s)"
    by (simp add: ledger_def in_flight_def)
  have "counted s" using books k by (simp add: books_ok_def)
  then have "counted s'"
    using producer_step_cnt [OF step hands loc le] frame by (simp add: counted_def)
  then show ?thesis
    using producer_step_ledger [OF step led] producer_step_lost [OF step] frame books k
    by (auto simp: books_ok_def producer_frame_def)
qed

lemma consumer_books:
  assumes step: "consumer_step cfg s (consumer_at s) = Some s'" and ok: "session_ok s" and books: "books_ok s"
  shows "books_ok s'"
proof -
  note frame = consumer_step_frame [OF step]
  have k: "control_at s \<noteq> K_Start"
    using step awake_not_start [OF ok] by (auto simp: may_enter_def split: if_splits)
  have hands: "consumer_hands (scene_generation s) (consumer_at s)" using ok by (simp add: session_ok_def shape_def)
  have "counted s" using books k by (simp add: books_ok_def)
  then have "counted s'"
    using consumer_step_cnt [OF step hands] frame by (simp add: counted_def consumer_frame_def)
  then show ?thesis
    using consumer_step_ledger [OF step] consumer_step_lost [OF step hands] consumer_step_cnt [OF step hands] frame books k
    by (auto simp: books_ok_def consumer_frame_def)
qed

lemma worker_books:
  assumes step: "step cfg (Worker i c) s = Some s'" and ok: "session_ok s" and books: "books_ok s"
  shows "books_ok s'"
proof -
  have shape: "shape s" using ok by (simp add: session_ok_def)
  from step shape obtain w s1 where i: "i < length (workers s)"
    and s': "s' = s1\<lparr>workers := (workers s)[i := w]\<rparr>" and fr: "worker_frame s s1"
    and st: "worker_step cfg c (worker_at (workers s ! i)) (workers s ! i) s = Some (w, s1)"
    and w0: "worker_ok (scene_generation s) (run_wavelengths s) (workers s ! i)"
    by (rule worker_step_server)
  have k: "control_at s \<noteq> K_Start"
    using st awake_not_start [OF ok] i by (auto simp: may_enter_def split: if_splits)
  have "covered (lost s')" using worker_step_covered [OF st w0] books by (simp add: s' books_ok_def)
  then show ?thesis
    using worker_step_ledger [OF step _ shape] books k worker_frame_fields [OF fr]
    by (simp add: books_ok_def counted_def s')
qed

lemma books_cong:
  assumes "producer_amount (producer_at s') = producer_amount (producer_at s)" "consumer_at s' = consumer_at s"
    "scene_queue s' = scene_queue s" "data_queue s' = data_queue s" "map worker_amount (workers s') = map worker_amount (workers s)"
    "issued s' = issued s" "lost s' = lost s" "delivered s' = delivered s" "stale s' = stale s"
    "sim_scene_cnt s' = sim_scene_cnt s" "control_at s' = K_Start \<longleftrightarrow> control_at s = K_Start"
  shows "books_ok s' = books_ok s"
  using assms by (simp add: books_ok_def ledger_def in_flight_def queues_amount_def counted_def)

lemma shut_scene_ledger: "ledger s \<Longrightarrow> queues_ok G n s \<Longrightarrow> ledger (shut_scene_queue s)"
  by (auto simp: ledger_def in_flight_def queues_amount_def shut_scene_queue_def Shutdown_def ac_simps)

lemma shut_data_ledger: "ledger s \<Longrightarrow> queues_ok G n s \<Longrightarrow> ledger (shut_data_queue s)"
  by (auto simp: ledger_def in_flight_def queues_amount_def shut_data_queue_def Shutdown_def ac_simps)

lemma stop_worker_amounts: "map worker_amount (workers (stop_worker i s)) = map worker_amount (workers s)"
proof (cases "i < length (workers s)")
  case True
  then show ?thesis
    by (simp add: stop_worker_def map_update worker_amount_def [of "(workers s ! i)\<lparr>stop := True\<rparr>"])
      (metis list_update_id map_update worker_amount_def)
qed (simp add: stop_worker_beyond)

lemma control_books:
  assumes step: "control_step s (control_at s) = Some s'" and ok: "session_ok s" and books: "books_ok s"
  shows "books_ok s'"
proof -
  have shape: "shape s" and phase: "phase_ok s (control_at s)" using ok by (auto simp: session_ok_def)
  have q: "queues_ok (scene_generation s) (run_wavelengths s) s" using shape by (simp add: shape_def)
  have dcov: "covered (datas_amount (queued (data_queue s)))"
    using q by (intro datas_covered) (auto simp: queues_ok_def data_ok_def)
  have same: "books_ok (t\<lparr>control_at := k\<rparr>) \<longleftrightarrow> books_ok t" if "k \<noteq> K_Start" "control_at t \<noteq> K_Start" for t k
    using that by (intro books_cong) auto
  show ?thesis
  proof (cases "control_at s")
    case (K_Stop op)
    with step books show ?thesis
      by (auto simp: books_ok_def ledger_def in_flight_def queues_amount_def counted_def split: if_splits)
  next
    case (K_ShutScene op)
    with step books q show ?thesis
      using shut_scene_ledger [OF _ q]
      by (auto simp: books_ok_def counted_def ledger_def in_flight_def queues_amount_def shut_scene_queue_def)
  next
    case (K_ShutData op)
    with step books q dcov show ?thesis
      using shut_data_ledger [OF _ q]
      by (auto simp: books_ok_def counted_def ledger_def in_flight_def queues_amount_def shut_data_queue_def)
  next
    case (K_Notify op)
    have "books_ok (wake_producer s)" using books wake_producer_at(1) [of s] by (subst books_cong) auto
    with K_Notify step same show ?thesis by auto
  next
    case (K_StopWorkers op i)
    have "books_ok (stop_worker i s)"
      using books stop_worker_amounts [of i s] by (subst books_cong) (auto simp: stop_worker_def)
    with K_StopWorkers step books same show ?thesis by (auto simp: stop_worker_def split: if_splits)
  next
    case (K_Bind op)
    with step phase have s': "s' = (bind_run op s)\<lparr>control_at := K_Start\<rparr>" and r: "at_rest s" "op \<noteq> Op_Stop" by auto
    have "in_flight s' = 0"
      using rest_in_flight [OF r(1) shape] by (simp add: s' in_flight_def queues_amount_def)
    with r(2) show ?thesis by (cases op) (auto simp: s' books_ok_def ledger_def new_epoch_def)
  next
    case K_Start
    with step phase have s': "s' = s\<lparr>work_started := False, sim_scene_cnt := 0, server_status := kServerRunning,
           data_queue := Start_queue (data_queue s), scene_queue := Start_queue (scene_queue s),
           start_generation := start_generation s + 1, srv_state := kRunning, control_at := K_Idle\<rparr>" and r: "at_rest s"
      by auto
    have "in_flight s' = in_flight s" by (simp add: s' in_flight_def queues_amount_def Start_queue_def)
    with books K_Start rest_in_flight [OF r shape] rest_parked [OF r] show ?thesis
      by (simp add: s' books_ok_def ledger_def counted_def)
  qed (use step books in \<open>auto simp: books_ok_def ledger_def in_flight_def queues_amount_def counted_def
         split: if_splits\<close>)
qed

lemma books_step:
  assumes step: "step cfg l s = Some s'" and ok: "session_ok s" and books: "books_ok s"
  shows "books_ok s'"
proof (cases l)
  case (Command op)
  with step have s': "s' = s\<lparr>control_at := K_Stop op\<rparr>" and "control_at s = K_Idle" by (auto split: if_splits)
  with books show ?thesis by (subst books_cong [of _ s]) auto
next
  case Observer
  with step observer_frame obtain pc' where s': "s' = s\<lparr>observer_at := pc'\<rparr>" by (metis step.simps(6))
  with books show ?thesis by (subst books_cong [of _ s]) auto
next
  case Spurious
  with step spurious_is_wake have s': "s' = wake_producer s" by metis
  with books wake_producer_at(1) [of s] show ?thesis by (subst books_cong [of _ s]) auto
qed (use assms producer_books consumer_books worker_books control_books in \<open>simp_all del: step.simps(3)\<close>)

end
