(* ===== verification/Drain_Epoch.thy ===== *)
theory Drain_Epoch
  imports Pipeline_Books
begin

text \<open>
  The drain signal (\<open>PublishDrainedEpochIfSettled\<close>): an epoch is published as drained only when every ray
  its run was asked to trace has reached the consumers.
\<close>

section \<open>Where the producer is, in the flags and in rays\<close>

fun generating :: "producer_pc \<Rightarrow> bool" where
  "generating P_Parked = False"
| "generating P_Entry = False"
| "generating (P_Signal p) = False"
| "generating P_Leave = False"
| "generating _ = True"

fun before_work :: "producer_pc \<Rightarrow> bool" where
  "before_work P_Entry = True"
| "before_work P_Started = True"
| "before_work _ = False"

definition flags_ok :: "server \<Rightarrow> bool" where
  "flags_ok s \<longleftrightarrow>
     producer_gen s \<le> start_generation s \<and>
     (producer_at s \<noteq> P_Parked \<longrightarrow> producer_gen s = start_generation s) \<and>
     (srv_state s = kRunning \<and> producer_at s = P_Parked \<longrightarrow> (producer_gen s = start_generation s \<longleftrightarrow> work_started s)) \<and>
     (scene_gen_active s \<longleftrightarrow> generating (producer_at s)) \<and>
     (producer_at s \<noteq> P_Parked \<longrightarrow> (work_started s \<longleftrightarrow> \<not> before_work (producer_at s)))"

text \<open>The budget of the run is traced: it is finite and every wavelength has had its rays issued.\<close>

definition complete :: "server \<Rightarrow> bool" where
  "complete s \<longleftrightarrow> run_budget s \<noteq> unat kInfSize \<and> rays_of (issued s) = run_wavelengths s * run_budget s"

definition progress :: "server \<Rightarrow> gen_locals \<Rightarrow> nat \<Rightarrow> bool" where
  "progress s g m \<longleftrightarrow> rays_of (issued s) = run_wavelengths s * (gl_committed g + m) \<and>
     (run_budget s \<noteq> unat kInfSize \<longrightarrow> gl_committed g + m \<le> run_budget s)"

fun rays_ok :: "server \<Rightarrow> producer_pc \<Rightarrow> bool" where
  "rays_ok s P_Parked = (srv_state s = kRunning \<longrightarrow> (if work_started s then complete s else issued s = 0))"
| "rays_ok s P_Entry = (issued s = 0)"
| "rays_ok s P_Started = (issued s = 0)"
| "rays_ok s P_Capture = (issued s = 0)"
| "rays_ok s (P_Head g) = progress s g 0"
| "rays_ok s (P_Drain g) = (progress s g 0 \<and> gen_more g)"
| "rays_ok s (P_Refund g ds) = (progress s g 0 \<and> gen_more g)"
| "rays_ok s (P_Credit g) = (progress s g 0 \<and> gen_more g)"
| "rays_ok s (P_Publish g b) = progress s g (ray_num b)"
| "rays_ok s (P_Stop1 g m) = progress s g m"
| "rays_ok s (P_Throttle g m) = progress s g m"
| "rays_ok s (P_Pred g m) = progress s g m"
| "rays_ok s (P_Block g m) = progress s g m"
| "rays_ok s (P_Asleep g m) = progress s g m"
| "rays_ok s (P_Stop2 g m) = progress s g m"
| "rays_ok s P_Exit = (srv_state s = kRunning \<longrightarrow> complete s)"
| "rays_ok s (P_Signal p) = (srv_state s = kRunning \<longrightarrow> complete s)"
| "rays_ok s P_Leave = (srv_state s = kRunning \<longrightarrow> complete s)"
| "rays_ok s P_Crashed = True"

definition run_ok :: "server \<Rightarrow> bool" where
  "run_ok s \<longleftrightarrow> flags_ok s \<and> rays_ok s (producer_at s) \<and>
     (control_at s = K_Start \<longrightarrow> issued s = 0)"

lemma producer_step_flags:
  assumes "producer_step cfg s (producer_at s) = Some s'" and "flags_ok s"
  shows "flags_ok s'"
proof (cases "producer_at s = P_Parked \<or> producer_at s = P_Leave")
  case True
  with assms show ?thesis by (auto simp: flags_ok_def enter_def leave_def may_enter_def split: if_splits)
next
  case False
  have fl: "producer_gen s' = producer_gen s \<and> start_generation s' = start_generation s \<and>
      producer_at s' \<noteq> P_Parked \<and> (scene_gen_active s' \<longleftrightarrow> generating (producer_at s')) \<and>
      (work_started s' \<longleftrightarrow> \<not> before_work (producer_at s'))"
    using assms False
    by (cases "producer_at s"; auto simp: flags_ok_def DrainAll_def Let_def split: if_splits option.splits prod.splits)
  then show ?thesis using assms(2) False by (auto simp: flags_ok_def)
qed

text \<open>The refund hands back to the ledger of the producer exactly what the discarded batches had taken.\<close>

lemma refund_progress:
  assumes p: "progress s g 0" and n: "\<forall>b\<in>set ds. wavelengths b = run_wavelengths s"
    and le: "rays_of (batches_amount ds) \<le> rays_of (issued s)"
    and s': "rays_of (issued s') = rays_of (issued s) - rays_of (batches_amount ds)"
    and same: "run_wavelengths s' = run_wavelengths s" "run_budget s' = run_budget s"
  shows "progress s' (g\<lparr>gl_committed := gl_committed g - min (gl_committed g) (sum_list (map ray_num ds))\<rparr>) 0"
proof -
  let ?n = "run_wavelengths s" and ?S = "sum_list (map ray_num ds)"
  have r: "rays_of (batches_amount ds) = ?S * ?n" using n by (rule batches_rays)
  have i: "rays_of (issued s) = ?n * gl_committed g" using p by (simp add: progress_def)
  have "?n * (gl_committed g - min (gl_committed g) ?S) = ?n * gl_committed g - ?S * ?n"
  proof (cases "?n = 0")
    case False
    with le r i have "?S \<le> gl_committed g" by (simp add: mult.commute)
    then show ?thesis by (simp add: min_def diff_mult_distrib2 mult.commute)
  qed simp
  with p r i s' same show ?thesis by (auto simp: progress_def)
qed

lemma gen_batch_fits:
  assumes "gen_more g" and "gl_per_wl g = run_budget s" and "progress s g 0"
    and "gl_nsimdata g = run_wavelengths s"
    and "issued s' = issued s + batch_amount (gen_batch g)"
    and "run_wavelengths s' = run_wavelengths s" "run_budget s' = run_budget s"
  shows "progress s' g (ray_num (gen_batch g))"
  using assms
  by (auto simp: progress_def gen_batch_def batch_amount_def gen_more_def algebra_simps)

lemma progress_iter_cap [simp]: "progress s (g\<lparr>gl_iter_cap := c\<rparr>) m = progress s g m"
  by (simp add: progress_def)

lemma progress_advance [simp]: "progress s (g\<lparr>gl_committed := gl_committed g + m\<rparr>) 0 = progress s g m"
  by (simp add: progress_def)

lemma gen_more_iter_cap [simp]: "gen_more (g\<lparr>gl_iter_cap := c\<rparr>) = gen_more g"
  by (simp add: gen_more_def)

lemma producer_step_rays:
  assumes step: "producer_step cfg s (producer_at s) = Some s'" and shape: "shape s" and led: "ledger s"
    and flags: "flags_ok s" and rays: "rays_ok s (producer_at s)"
  shows "rays_ok s' (producer_at s')"
proof -
  note frame = producer_step_frame [OF step]
  have same: "run_wavelengths s' = run_wavelengths s" "run_budget s' = run_budget s"
    using frame run_facts_frame [of s' s] by (auto simp: producer_frame_def)
  have loc: "locals_ok s g" if "producer_gen_locals (producer_at s) = Some g" for g
    using shape that by (simp add: shape_def)
  have prog: "progress s' g m = progress s g m" if "issued s' = issued s" for g m
    using that same by (simp add: progress_def)
  have comp: "complete s' = complete s" if "issued s' = issued s"
    using that same by (simp add: complete_def)
  show ?thesis
  proof (cases "producer_at s")
    case P_Parked
    with step rays flags show ?thesis by (auto simp: flags_ok_def may_enter_def enter_def split: if_splits)
  next
    case P_Capture
    with step rays gen_setup_locals [of s] show ?thesis
      by (auto simp: progress_def split: option.splits prod.splits)
  next
    case (P_Head g)
    show ?thesis
    proof (cases "gen_more g")
      case True
      with P_Head step obtain c where "issued s' = issued s"
        "producer_at s' = P_Drain (g\<lparr>gl_iter_cap := c\<rparr>) \<or> producer_at s' = P_Credit (g\<lparr>gl_iter_cap := c\<rparr>)"
        by (auto simp: Let_def split: if_splits)
      with True P_Head rays prog show ?thesis by auto
    next
      case False
      with P_Head step rays loc [of g] have "complete s"
        by (auto simp: progress_def gen_more_def complete_def locals_ok_def)
      with False P_Head step comp show ?thesis by auto
    qed
  next
    case (P_Drain g)
    with step rays prog show ?thesis by (auto simp: DrainAll_def)
  next
    case (P_Refund g ds)
    have n: "\<forall>b\<in>set ds. wavelengths b = run_wavelengths s"
      using shape P_Refund by (simp add: shape_def batch_ok_def)
    have le: "rays_of (batches_amount ds) \<le> rays_of (issued s)"
      using led P_Refund by (simp add: ledger_def in_flight_def)
    have "gen_more (g\<lparr>gl_committed := gl_committed g - m\<rparr>)" if "gen_more g" for m
      using that by (auto simp: gen_more_def)
    with refund_progress [OF _ n le _ same, of g] P_Refund step rays show ?thesis by (auto simp: Let_def)
  next
    case (P_Credit g)
    with loc [of g] gen_batch_fits [OF _ _ _ _ _ same, of g] step rays show ?thesis
      by (auto simp: Let_def locals_ok_def)
  next
    case (P_Stop2 g m)
    with step frame have i: "issued s' = issued s" and f: "srv_state s' = srv_state s"
      and pc: "producer_at s' = (if srv_state s \<noteq> kRunning then P_Exit
        else P_Head (g\<lparr>gl_committed := gl_committed g + m\<rparr>))" by (auto simp: producer_frame_def)
    show ?thesis using P_Stop2 rays prog [OF i] f by (simp add: pc)
  next
    case P_Leave
    with step rays comp flags show ?thesis by (auto simp: leave_def flags_ok_def)
  qed (use step rays prog comp in \<open>auto split: if_splits option.splits prod.splits\<close>)
qed

section \<open>The other threads leave the run alone\<close>

definition run_frame :: "server \<Rightarrow> server \<Rightarrow> bool" where
  "run_frame s s' \<longleftrightarrow>
     producer_gen s' = producer_gen s \<and> start_generation s' = start_generation s \<and>
     (producer_at s' = producer_at s \<or> producer_at s' = producer_at (wake_producer s)) \<and>
     srv_state s' = srv_state s \<and> work_started s' = work_started s \<and> scene_gen_active s' = scene_gen_active s \<and>
     issued s' = issued s \<and> run_wavelengths s' = run_wavelengths s \<and> run_budget s' = run_budget s"

lemma wake_producer_run:
  "generating (producer_at (wake_producer s)) = generating (producer_at s)"
  "before_work (producer_at (wake_producer s)) = before_work (producer_at s)"
  "rays_ok t (producer_at (wake_producer s)) = rays_ok t (producer_at s)"
  by (cases "producer_at s"; simp add: wake_producer_def)+

lemma flags_ok_cong:
  assumes "producer_gen s' = producer_gen s" "start_generation s' = start_generation s" "srv_state s' = srv_state s"
    "work_started s' = work_started s" "scene_gen_active s' = scene_gen_active s"
    "producer_at s' = P_Parked \<longleftrightarrow> producer_at s = P_Parked"
    "generating (producer_at s') = generating (producer_at s)" "before_work (producer_at s') = before_work (producer_at s)"
  shows "flags_ok s' = flags_ok s"
  using assms by (simp add: flags_ok_def)

lemma rays_ok_cong:
  "srv_state s' = srv_state s \<Longrightarrow> work_started s' = work_started s \<Longrightarrow> issued s' = issued s \<Longrightarrow>
     run_wavelengths s' = run_wavelengths s \<Longrightarrow> run_budget s' = run_budget s \<Longrightarrow> rays_ok s' pc = rays_ok s pc"
  by (cases pc) (auto simp: progress_def complete_def)

lemma run_frame_ok:
  assumes f: "run_frame s s'" and fl: "flags_ok s" and r: "rays_ok s (producer_at s)"
  shows "flags_ok s' \<and> rays_ok s' (producer_at s')"
proof -
  have same: "rays_ok s' pc = rays_ok s pc" for pc using f by (intro rays_ok_cong) (auto simp: run_frame_def)
  have "flags_ok s' = flags_ok s"
    using f wake_producer_at(3) [of s] wake_producer_run(1,2) [of s]
    by (intro flags_ok_cong) (auto simp: run_frame_def)
  moreover have "rays_ok s (producer_at s')" using f r wake_producer_run(3) [of s s] by (auto simp: run_frame_def)
  ultimately show ?thesis using fl same by simp
qed

lemma consumer_step_run_frame: "consumer_step cfg s pc = Some s' \<Longrightarrow> run_frame s s'"
  using consumer_step_frame [of cfg s pc s'] run_facts_frame [of s' s]
  by (auto simp: run_frame_def consumer_frame_def)

lemma worker_step_run_frame:
  assumes "step cfg (Worker i c) s = Some s'" and "shape s"
  shows "run_frame s s' \<and> consumer_at s' = consumer_at s \<and> producer_at s' = producer_at s \<and>
    delivered s' = delivered s \<and> committed_epoch s' = committed_epoch s \<and> drained_epoch s' = drained_epoch s \<and>
    control_at s' = control_at s \<and> scene_generation s' = scene_generation s"
proof -
  from assms obtain w s1 where s': "s' = s1\<lparr>workers := (workers s)[i := w]\<rparr>" and fr: "worker_frame s s1"
    by (rule worker_step_server)
  have "run_wavelengths s' = run_wavelengths s \<and> run_budget s' = run_budget s \<and> locals_ok s' = locals_ok s"
    using worker_frame_fields [OF fr] by (intro run_facts_frame) (simp_all add: s')
  then show ?thesis using worker_frame_fields [OF fr] by (simp add: run_frame_def s')
qed

section \<open>The signal itself\<close>

text \<open>The run is over and all of it was delivered.\<close>

definition calm :: "server \<Rightarrow> bool" where
  "calm s \<longleftrightarrow> work_started s \<and> \<not> scene_gen_active s \<and> issued s = delivered s \<and>
     (\<forall>d. consumer_at s \<noteq> C_Settle d)"

text \<open>What a thread inside the function knows at each position.\<close>

fun pub_ok :: "server \<Rightarrow> pub \<Rightarrow> bool" where
  "pub_ok s Pub_State = True"
| "pub_ok s Pub_Epoch = True"
| "pub_ok s (Pub_Started e) = (e = committed_epoch s)"
| "pub_ok s (Pub_Active e) = (e = committed_epoch s \<and> work_started s)"
| "pub_ok s (Pub_Count e) = (e = committed_epoch s \<and> work_started s \<and> \<not> scene_gen_active s)"
| "pub_ok s (Pub_Empty e) = (e = committed_epoch s \<and> calm s)"
| "pub_ok s (Pub_Store e) = (e = committed_epoch s \<and> calm s)"

definition pubs_ok :: "server \<Rightarrow> bool" where
  "pubs_ok s \<longleftrightarrow> (\<forall>p. producer_at s = P_Signal p \<longrightarrow> pub_ok s p) \<and> (\<forall>p. consumer_at s = C_Signal p \<longrightarrow> pub_ok s p)"

definition drained_ok :: "server \<Rightarrow> bool" where
  "drained_ok s \<longleftrightarrow> drained_epoch s \<le> committed_epoch s \<and>
     (0 < committed_epoch s \<and> drained_epoch s = committed_epoch s \<longrightarrow> calm s) \<and>
     (control_at s = K_Start \<longrightarrow> drained_epoch s < committed_epoch s)"

definition server_ok :: "server \<Rightarrow> bool" where
  "server_ok s \<longleftrightarrow> session_ok s \<and> books_ok s \<and> flags_ok s \<and> rays_ok s (producer_at s) \<and> pubs_ok s \<and> drained_ok s"

lemma publish_step_next:
  assumes "publish_step s p = (Some p', d)" and "pub_ok s p"
    and "shape s" and "books_ok s" and "control_at s \<noteq> K_Start"
  shows "pub_ok s p' \<and> d = drained_epoch s"
  using assms no_credit_all_delivered [OF assms(3-5)]
  by (cases p) (auto simp: calm_def split: if_splits)

lemma publish_step_done:
  assumes "publish_step s p = (None, d)" and "pub_ok s p"
  shows "d = drained_epoch s \<or> d = max (drained_epoch s) (committed_epoch s) \<and> calm s"
  using assms by (cases p) (auto split: if_splits)

text \<open>Once the run is over, no thread issues or delivers anything any more.\<close>

lemma calm_hands:
  assumes "calm s" and "books_ok s" and "shape s"
  shows "queued (data_queue s) = []" and "consumer_at s \<noteq> C_Got d" and "consumer_at s \<noteq> C_Check d"
proof -
  have z: "in_flight s = 0" using assms by (intro all_delivered) (auto simp: calm_def)
  have pos: "data_amount d \<noteq> 0" if "data_ok G d" for G d
    using that by (auto simp: data_ok_def data_amount_def amount_eq_iff)
  have "datas_amount (queued (data_queue s)) = 0" using z by (simp add: in_flight_def queues_amount_def)
  then show "queued (data_queue s) = []"
    using assms(3) pos by (cases "queued (data_queue s)") (auto simp: shape_def queues_ok_def)
  have "consumer_amount (consumer_at s) = 0" using z by (simp add: in_flight_def)
  then show "consumer_at s \<noteq> C_Got d" and "consumer_at s \<noteq> C_Check d"
    using assms(3) pos by (auto simp: shape_def)
qed

lemma calm_producer_at:
  assumes "work_started s" and "\<not> scene_gen_active s" and "flags_ok s"
    and step: "producer_step cfg s (producer_at s) = Some s'"
  shows "(\<exists>p. producer_at s = P_Signal p) \<or> producer_at s = P_Leave"
  using assms by (cases "producer_at s") (auto simp: flags_ok_def may_enter_def split: if_splits)

lemma producer_step_calm:
  assumes step: "producer_step cfg s (producer_at s) = Some s'" and fl: "flags_ok s"
  shows "work_started s \<and> \<not> scene_gen_active s \<Longrightarrow> work_started s' \<and> \<not> scene_gen_active s'"
    and "calm s \<Longrightarrow> calm s'"
  using calm_producer_at [OF _ _ fl step] step
  by (auto simp: calm_def leave_def split: option.splits prod.splits)

lemma consumer_step_calm:
  assumes step: "consumer_step cfg s (consumer_at s) = Some s'" and "calm s" and "books_ok s" and "shape s"
  shows "calm s'"
proof -
  note hands = calm_hands [OF assms(2-4)]
  have "consumer_at s \<noteq> C_Settle d" for d using assms(2) by (simp add: calm_def)
  then have "delivered s' = delivered s \<and> (\<forall>d. consumer_at s' \<noteq> C_Settle d)"
    using step hands
    by (cases "consumer_at s") (auto simp: enter_def leave_def Get_def split: if_splits option.splits prod.splits)
  then show ?thesis using assms(2) consumer_step_frame [OF step] by (auto simp: calm_def consumer_frame_def)
qed

lemma pub_ok_mono:
  assumes "pub_ok s p" and "committed_epoch s' = committed_epoch s" and "work_started s \<Longrightarrow> work_started s'"
    and "work_started s \<and> \<not> scene_gen_active s \<Longrightarrow> \<not> scene_gen_active s'" and "calm s \<Longrightarrow> calm s'"
  shows "pub_ok s' p"
  using assms by (cases p) auto

lemma drained_ok_mono:
  assumes "drained_ok s" and "committed_epoch s' = committed_epoch s" and "calm s \<Longrightarrow> calm s'"
    and "drained_epoch s' = drained_epoch s \<or> drained_epoch s' = max (drained_epoch s) (committed_epoch s) \<and> calm s'"
    and "control_at s' = K_Start \<Longrightarrow> drained_epoch s' < committed_epoch s'"
  shows "drained_ok s'"
  using assms by (auto simp: drained_ok_def)

lemma producer_step_started:
  "producer_step cfg s pc = Some s' \<Longrightarrow> work_started s \<Longrightarrow> work_started s'"
  by (cases pc) (auto simp: enter_def leave_def DrainAll_def Let_def split: if_splits option.splits prod.splits)

lemma producer_step_signal:
  assumes step: "producer_step cfg s pc = Some s'" and "producer_at s' = P_Signal p"
  shows "p = Pub_State \<or> (\<exists>p0. pc = P_Signal p0 \<and> fst (publish_step s p0) = Some p)"
  using assms
  by (cases pc) (auto simp: enter_def leave_def DrainAll_def Let_def split: if_splits option.splits prod.splits)

lemma producer_step_drained:
  assumes step: "producer_step cfg s pc = Some s'"
  shows "drained_epoch s' = (case pc of P_Signal p \<Rightarrow> snd (publish_step s p) | _ \<Rightarrow> drained_epoch s)"
  using assms
  by (cases pc) (auto simp: enter_def leave_def DrainAll_def Let_def split: if_splits option.splits prod.splits)

lemma consumer_step_signal:
  assumes step: "consumer_step cfg s pc = Some s'" and "consumer_at s' = C_Signal p"
  shows "p = Pub_State \<or> (\<exists>p0. pc = C_Signal p0 \<and> fst (publish_step s p0) = Some p)"
  using assms
  by (cases pc) (auto simp: enter_def leave_def hand_over_def split: if_splits option.splits prod.splits taken.splits)

lemma consumer_step_drained:
  assumes step: "consumer_step cfg s pc = Some s'"
  shows "drained_epoch s' = (case pc of C_Signal p \<Rightarrow> snd (publish_step s p) | _ \<Rightarrow> drained_epoch s)"
  using assms
  by (cases pc) (auto simp: enter_def leave_def hand_over_def split: if_splits option.splits prod.splits taken.splits)

section \<open>Every schedule keeps the server's invariant\<close>

lemma producer_server:
  assumes step: "producer_step cfg s (producer_at s) = Some s'" and ok: "server_ok s"
  shows "server_ok s'"
proof -
  have ses: "session_ok s" and books: "books_ok s" and fl: "flags_ok s" and pubs: "pubs_ok s" and dr: "drained_ok s"
    and shape: "shape s" using ok by (auto simp: server_ok_def session_ok_def)
  note frame = producer_step_frame [OF step]
  have k: "control_at s \<noteq> K_Start"
    using step awake_not_start [OF ses] by (auto simp: may_enter_def split: if_splits)
  have mono: "pub_ok s p \<Longrightarrow> pub_ok s' p" for p
    by (rule pub_ok_mono [of s])
      (use frame producer_step_started [OF step] producer_step_calm [OF step fl] in \<open>auto simp: producer_frame_def\<close>)
  have next_pub: "pub_ok s p \<Longrightarrow> fst (publish_step s p) = Some p' \<Longrightarrow> pub_ok s p'" for p p'
    using publish_step_next [OF _ _ shape books k] by (metis prod.collapse)
  have "pubs_ok s'"
    unfolding pubs_ok_def
    using pubs mono next_pub producer_step_signal [OF step] frame by (fastforce simp: pubs_ok_def)
  moreover have "drained_ok s'"
  proof (rule drained_ok_mono [OF dr])
    show "drained_epoch s' = drained_epoch s \<or> drained_epoch s' = max (drained_epoch s) (committed_epoch s) \<and> calm s'"
    proof (cases "\<exists>p. producer_at s = P_Signal p")
      case True
      then obtain p where p: "producer_at s = P_Signal p" by blast
      obtain r d where r: "publish_step s p = (r, d)" by fastforce
      have "pub_ok s p" using pubs p by (simp add: pubs_ok_def)
      with r have "d = drained_epoch s \<or> d = max (drained_epoch s) (committed_epoch s) \<and> calm s"
        using publish_step_done publish_step_next [OF _ _ shape books k] by (cases r) auto
      then show ?thesis
        using producer_step_drained [OF step] producer_step_calm(2) [OF step fl] p r by auto
    next
      case False
      then show ?thesis using producer_step_drained [OF step] by (auto split: producer_pc.splits)
    qed
  qed (use frame k producer_step_calm(2) [OF step fl] in \<open>auto simp: producer_frame_def\<close>)
  moreover have "rays_ok s' (producer_at s')"
    using producer_step_rays [OF step shape _ fl] books ok by (auto simp: books_ok_def server_ok_def)
  ultimately show ?thesis
    using producer_session [OF step ses] producer_books [OF step ses books] producer_step_flags [OF step fl]
    by (simp add: server_ok_def)
qed

lemma consumer_server:
  assumes step: "consumer_step cfg s (consumer_at s) = Some s'" and ok: "server_ok s"
  shows "server_ok s'"
proof -
  have ses: "session_ok s" and books: "books_ok s" and fl: "flags_ok s" and pubs: "pubs_ok s" and dr: "drained_ok s"
    and shape: "shape s" and rays: "rays_ok s (producer_at s)" using ok by (auto simp: server_ok_def session_ok_def)
  note frame = consumer_step_frame [OF step]
  have k: "control_at s \<noteq> K_Start"
    using step awake_not_start [OF ses] by (auto simp: may_enter_def split: if_splits)
  have calm: "calm s \<Longrightarrow> calm s'" by (rule consumer_step_calm [OF step _ books shape])
  have mono: "pub_ok s p \<Longrightarrow> pub_ok s' p" for p
    by (rule pub_ok_mono [of s]) (use frame calm in \<open>auto simp: consumer_frame_def\<close>)
  have next_pub: "pub_ok s p \<Longrightarrow> fst (publish_step s p) = Some p' \<Longrightarrow> pub_ok s p'" for p p'
    using publish_step_next [OF _ _ shape books k] by (metis prod.collapse)
  have woken: "producer_at s = P_Signal p" if "producer_at s' = P_Signal p" for p
    using frame that by (auto simp: wake_producer_def split: producer_pc.splits)
  have "pubs_ok s'"
    unfolding pubs_ok_def
    using pubs mono next_pub consumer_step_signal [OF step] woken by (fastforce simp: pubs_ok_def)
  moreover have "drained_ok s'"
  proof (rule drained_ok_mono [OF dr])
    show "drained_epoch s' = drained_epoch s \<or> drained_epoch s' = max (drained_epoch s) (committed_epoch s) \<and> calm s'"
    proof (cases "\<exists>p. consumer_at s = C_Signal p")
      case True
      then obtain p where p: "consumer_at s = C_Signal p" by blast
      obtain r d where r: "publish_step s p = (r, d)" by fastforce
      have "pub_ok s p" using pubs p by (simp add: pubs_ok_def)
      with r have "d = drained_epoch s \<or> d = max (drained_epoch s) (committed_epoch s) \<and> calm s"
        using publish_step_done publish_step_next [OF _ _ shape books k] by (cases r) auto
      then show ?thesis using consumer_step_drained [OF step] calm p r by auto
    next
      case False
      then show ?thesis using consumer_step_drained [OF step] by (auto split: consumer_pc.splits)
    qed
  qed (use frame k calm in \<open>auto simp: consumer_frame_def\<close>)
  ultimately show ?thesis
    using consumer_session [OF step ses] consumer_books [OF step ses books]
      run_frame_ok [OF consumer_step_run_frame [OF step] fl rays]
    by (simp add: server_ok_def)
qed

lemma quiet_pubs:
  assumes "pubs_ok s" and "producer_at s' = producer_at s \<or> producer_at s' = producer_at (wake_producer s)"
    and "consumer_at s' = consumer_at s" and "committed_epoch s' = committed_epoch s" and "work_started s' = work_started s"
    and "scene_gen_active s' = scene_gen_active s" and "issued s' = issued s" and "delivered s' = delivered s"
  shows "pubs_ok s'" and "calm s' = calm s"
proof -
  show calm: "calm s' = calm s" using assms by (simp add: calm_def)
  have mono: "pub_ok s p \<Longrightarrow> pub_ok s' p" for p by (rule pub_ok_mono [of s]) (use assms calm in auto)
  have "producer_at s = P_Signal p" if "producer_at s' = P_Signal p" for p
    using assms(2) that by (auto simp: wake_producer_def split: producer_pc.splits)
  with assms(1,3) mono show "pubs_ok s'" by (auto simp: pubs_ok_def)
qed

lemma quiet_server:
  assumes ok: "server_ok s" and ses: "session_ok s'" and books: "books_ok s'" and f: "run_frame s s'"
    and same: "consumer_at s' = consumer_at s" "committed_epoch s' = committed_epoch s"
      "drained_epoch s' = drained_epoch s" "delivered s' = delivered s" "control_at s' = K_Start \<longleftrightarrow> control_at s = K_Start"
  shows "server_ok s'"
proof -
  have "pubs_ok s'" and c: "calm s' = calm s"
    using quiet_pubs [of s s'] ok f same by (auto simp: server_ok_def run_frame_def)
  moreover have "drained_ok s'" using ok same c by (simp add: server_ok_def drained_ok_def)
  ultimately show ?thesis
    using ses books run_frame_ok [OF f] ok by (simp add: server_ok_def)
qed

lemma control_server:
  assumes step: "control_step s (control_at s) = Some s'" and ok: "server_ok s"
  shows "server_ok s'"
proof -
  have ses: "session_ok s" and books: "books_ok s" and fl: "flags_ok s" and pubs: "pubs_ok s" and dr: "drained_ok s"
    and rays: "rays_ok s (producer_at s)" and phase: "phase_ok s (control_at s)"
    using ok by (auto simp: server_ok_def session_ok_def)
  note ses' = control_session [OF step ses] and books' = control_books [OF step ses books]
  have facts: "run_wavelengths t = run_wavelengths s \<and> run_budget t = run_budget s"
    if "session_mode t = session_mode s" "active_scene t = active_scene s" "ray_num_override t = ray_num_override s"
      "scene_generation t = scene_generation s" for t
    using run_facts_frame [OF that] by simp
  show ?thesis
  proof (cases "control_at s")
    case (K_Stop op)
    show ?thesis
    proof (cases "srv_state s = kRunning")
      case True
      with K_Stop step have s': "s' = s\<lparr>srv_state := kStopped, control_at := K_ShutScene op\<rparr>" by simp
      have "rays_ok s' (producer_at s')" using rays facts [of s']
        by (cases "producer_at s") (auto simp: s' progress_def complete_def)
      moreover have "flags_ok s'" using fl by (auto simp: s' flags_ok_def)
      moreover have "pubs_ok s'" "calm s' = calm s" using quiet_pubs [OF pubs, of s'] by (simp_all add: s')
      moreover have "drained_ok s'" using dr \<open>calm s' = calm s\<close> by (simp add: s' drained_ok_def)
      ultimately show ?thesis using ses' books' by (simp add: server_ok_def)
    next
      case False
      with K_Stop step show ?thesis
        using facts [of s'] by (intro quiet_server [OF ok ses' books']) (auto simp: run_frame_def split: if_splits)
    qed
  next
    case (K_ShutScene op)
    with step show ?thesis
      using facts [of s'] by (intro quiet_server [OF ok ses' books']) (auto simp: run_frame_def shut_scene_queue_def)
  next
    case (K_ShutData op)
    with step show ?thesis
      using facts [of s'] by (intro quiet_server [OF ok ses' books']) (auto simp: run_frame_def shut_data_queue_def)
  next
    case (K_Notify op)
    with step show ?thesis
      using facts [of s'] by (intro quiet_server [OF ok ses' books']) (auto simp: run_frame_def)
  next
    case (K_StopWorkers op i)
    with step show ?thesis
      using facts [of s'] by (intro quiet_server [OF ok ses' books']) (auto simp: run_frame_def stop_worker_def split: if_splits)
  next
    case (K_Wait op)
    with step show ?thesis
      using facts [of s'] by (intro quiet_server [OF ok ses' books']) (auto simp: run_frame_def split: if_splits)
  next
    case (K_Reset op)
    with step show ?thesis
      using facts [of s'] by (intro quiet_server [OF ok ses' books']) (auto simp: run_frame_def split: if_splits)
  next
    case (K_Bind op)
    with step phase have s': "s' = (bind_run op s)\<lparr>control_at := K_Start\<rparr>" and r: "at_rest s" "srv_state s = kStopped"
      and op: "op \<noteq> Op_Stop" by auto
    note parked = rest_parked [OF r(1)]
    have e: "committed_epoch s' = committed_epoch s + 1" using op by (cases op) (auto simp: s' new_epoch_def)
    have "flags_ok s'" using fl r(2) parked by (simp add: s' flags_ok_def)
    moreover have "rays_ok s' (producer_at s')" using parked r(2) by (simp add: s')
    moreover have "pubs_ok s'" using parked by (simp add: s' pubs_ok_def)
    moreover have "drained_ok s'" using dr e by (simp add: drained_ok_def s')
    ultimately show ?thesis using ses' books' by (simp add: server_ok_def)
  next
    case K_Start
    with step phase have s': "s' = s\<lparr>work_started := False, sim_scene_cnt := 0, server_status := kServerRunning,
           data_queue := Start_queue (data_queue s), scene_queue := Start_queue (scene_queue s),
           start_generation := start_generation s + 1, srv_state := kRunning, control_at := K_Idle\<rparr>" and r: "at_rest s"
      by auto
    note parked = rest_parked [OF r]
    have "flags_ok s'" using fl parked by (auto simp: s' flags_ok_def)
    moreover have "rays_ok s' (producer_at s')" using parked books K_Start by (simp add: s' books_ok_def)
    moreover have "pubs_ok s'" using parked by (simp add: s' pubs_ok_def)
    moreover have "drained_ok s'" using dr K_Start by (simp add: drained_ok_def s')
    ultimately show ?thesis using ses' books' by (simp add: server_ok_def)
  qed (use step in simp)
qed

lemma server_step:
  assumes step: "step cfg l s = Some s'" and ok: "server_ok s"
  shows "server_ok s'"
proof -
  have ses: "session_ok s" and books: "books_ok s" and shape: "shape s"
    using ok by (auto simp: server_ok_def session_ok_def)
  note ses' = session_step [OF step ses] and books' = books_step [OF step ses books]
  show ?thesis
  proof (cases l)
    case Producer
    with step ok producer_server show ?thesis by simp
  next
    case Consumer
    with step ok consumer_server show ?thesis by simp
  next
    case (Worker i c)
    with step have "step cfg (Worker i c) s = Some s'" by simp
    from worker_step_run_frame [OF this shape] show ?thesis
      by (intro quiet_server [OF ok ses' books']) auto
  next
    case (Command op)
    with step show ?thesis
      using run_facts_frame [of s' s] by (intro quiet_server [OF ok ses' books']) (auto simp: run_frame_def split: if_splits)
  next
    case Control
    with step ok control_server show ?thesis by simp
  next
    case Observer
    with step observer_frame obtain pc' where "s' = s\<lparr>observer_at := pc'\<rparr>" by (metis step.simps(6))
    then show ?thesis
      using run_facts_frame [of s' s] by (intro quiet_server [OF ok ses' books']) (auto simp: run_frame_def)
  next
    case Spurious
    with step spurious_is_wake have "s' = wake_producer s" by metis
    then show ?thesis
      using run_facts_frame [of s' s] by (intro quiet_server [OF ok ses' books']) (auto simp: run_frame_def)
  qed
qed

lemma boot_server: "server_ok (new_server cfg n)"
proof -
  let ?s = "new_server cfg n"
  note ses = boot_session [of cfg n]
  have parked: "at_rest ?s" using ses by (simp add: session_ok_def new_server_def)
  have shape: "shape ?s" using ses by (simp add: session_ok_def)
  have "books_ok ?s"
    using rest_in_flight [OF parked shape] by (simp add: books_ok_def ledger_def counted_def) (simp add: new_server_def)
  then show ?thesis
    using ses by (simp add: server_ok_def) (simp add: new_server_def flags_ok_def pubs_ok_def drained_ok_def)
qed

lemma reachable_server_ok: "reachable cfg s \<Longrightarrow> server_ok s"
  by (induction rule: reachable.induct) (auto intro: boot_server server_step)

section \<open>What the signal means\<close>

lemma drained_calm:
  assumes "reachable cfg s" and "0 < committed_epoch s" and "drained_epoch s = committed_epoch s"
  shows "calm s" and "in_flight s = 0" and "lost s = 0" and "delivered s = issued s"
proof -
  have ok: "books_ok s" "drained_ok s" using reachable_server_ok [OF assms(1)] by (auto simp: server_ok_def)
  then show c: "calm s" using assms(2,3) by (simp add: drained_ok_def)
  then show "in_flight s = 0" and "lost s = 0" and "delivered s = issued s"
    using all_delivered [OF ok(1)] by (auto simp: calm_def)
qed

lemma calm_complete:
  assumes "reachable cfg s" and "calm s" and "srv_state s = kRunning"
  shows "complete s"
proof -
  have fl: "flags_ok s" and rays: "rays_ok s (producer_at s)"
    using reachable_server_ok [OF assms(1)] by (auto simp: server_ok_def)
  have "\<not> generating (producer_at s)" and "work_started s" using fl assms(2) by (auto simp: flags_ok_def calm_def)
  then show ?thesis using fl rays assms(3) by (cases "producer_at s") (auto simp: flags_ok_def)
qed

lemma reachable_books:
  "reachable cfg s \<Longrightarrow> books_ok s \<and> session_ok s \<and> flags_ok s \<and> rays_ok s (producer_at s)"
  using reachable_server_ok by (auto simp: server_ok_def)

end
