(* ===== verification/Server_Schedules.thy ===== *)
theory Server_Schedules
  imports Drain_Epoch
begin

text \<open>
  Particular schedules of the server: a complete run, the read order of \<open>GetStatus\<close> that reports a run
  idle too early, a run stopped between two of its batches that still reads as drained, and the wake-up
  \<open>Stop()\<close> can lose.
\<close>

section \<open>The lifecycle\<close>

datatype SimLifecycle = LifecycleIdle | LifecycleRunning | LifecycleCompleted

definition GetSimLifecycle :: "ServerStatus \<Rightarrow> bool \<Rightarrow> SimLifecycle" where
  "GetSimLifecycle status consumed =
     (if status = kServerRunning then LifecycleRunning
      else if consumed then LifecycleCompleted else LifecycleIdle)"

text \<open>Whether \<open>ContinueRun\<close> waits for the drain signal before it stops the server.\<close>

definition ContinueRun_waits :: "SimLifecycle \<Rightarrow> bool" where
  "ContinueRun_waits lifecycle \<longleftrightarrow> lifecycle = LifecycleCompleted"

section \<open>Two small servers\<close>

definition cpu_config :: server_config where
  "cpu_config = \<lparr>gpu_server = False, windows_build = False, dispatch_ray_num = (\<lambda>_. 128),
     handoff_sim_data = 1, xyz_drain_batches = 8\<rparr>"

definition gpu_config :: server_config where
  "gpu_config = \<lparr>gpu_server = True, windows_build = False, dispatch_ray_num = (\<lambda>_. 128),
     handoff_sim_data = 1, xyz_drain_batches = 8\<rparr>"

definition plain_scene :: "u64 \<Rightarrow> nat \<Rightarrow> RunScene" where
  "plain_scene rays n = \<lparr>scene_ray_num = rays, scene_wavelengths = n, scene_degenerate = False\<rparr>"

definition commit :: "RunScene \<Rightarrow> label list" where
  "commit sc = [Command (Op_Commit sc), Control, Control, Control]"

lemma sub_ray_nums_eval:
  "sub_ray_nums per 0 = []"
  "0 < n \<Longrightarrow> 0 < per \<Longrightarrow> sub_ray_nums per n = min per n # sub_ray_nums per (n - per)"
  by (subst sub_ray_nums.simps, simp)+

lemma amount_eval:
  "Amount a b + Amount c d = Amount (a + c) (b + d)" "Amount a b - Amount c d = Amount (a - c) (b - d)"
  by (simp_all add: plus_amount_def minus_amount_def)

lemmas pipeline_eval = commit_def new_server_def new_workers_def new_worker_def
  cpu_config_def gpu_config_def plain_scene_def enter_def leave_def may_enter_def gen_setup_def handoff_batches_def
  scene_cnt_limits_def queued_handoffs_def ActiveWorkers_def analysis_session_def per_wl_ray_num_def
  total_ray_num_def kInfSize_def PerWavelengthRayNum_def kMaxSceneCnt_def gen_more_def gen_batch_def
  EffectiveDispatchCap_def ReadBackendActive_def PhysicsBatchCount_def PhysicsRayNum_def batch_credit_def batch_calls_def
  sub_ray_nums_eval amount_eval kDefaultRayNum_def throttle_over_def new_epoch_def new_queue_def queue_defs
  consumer_wakes_def wake_producer_def hand_over_def accepted_def lose_def emplace_data_def flush_pending_def
  next_physics_batch_def DrainDeviceXyz_def close_window_def call_data_def window_data_def IsIdle_def
  batch_amount_def data_amount_def call_amount_def stop_worker_def shut_scene_queue_def shut_data_queue_def Let_def

section \<open>A complete run\<close>

definition full_schedule :: "label list" where
  "full_schedule = commit (plain_scene 100 1) @
     [Producer, Producer, Producer, Producer, Producer, Producer, Producer, Producer, Producer, Producer, Producer,
      Producer, Worker 0 Go, Worker 0 (Backend False), Worker 0 Go, Worker 0 Go, Worker 0 Go, Worker 0 Go, Worker 0 Go,
      Worker 0 (Segs 1), Worker 0 Go, Worker 0 Go, Worker 0 Go,
      Consumer, Consumer, Consumer, Consumer, Consumer, Consumer, Consumer,
      Consumer, Consumer, Consumer, Consumer, Consumer, Consumer, Consumer]"

definition server_after :: "server_config \<Rightarrow> label list \<Rightarrow> nat \<Rightarrow> server" where
  "server_after cfg ls n = the (run cfg ls (new_server cfg n))"

lemma full_schedule_run:
  "\<exists>s. run cpu_config full_schedule (new_server cpu_config 1) = Some s \<and> srv_state s = kRunning \<and>
     committed_epoch s = 1 \<and> drained_epoch s = 1 \<and> run_budget s = 100 \<and> run_wavelengths s = 1 \<and>
     delivered s = Amount 1 100"
  by (simp add: full_schedule_def pipeline_eval run_budget_def run_wavelengths_def)

section \<open>A run stopped between two batches\<close>

definition stopped_schedule :: "label list" where
  "stopped_schedule = commit (plain_scene 5000 1) @
     [Producer, Producer, Producer, Producer, Producer, Producer, Producer, Producer, Producer,
      Worker 0 Go, Worker 0 (Backend False), Worker 0 Go, Worker 0 Go, Worker 0 Go, Worker 0 Go, Worker 0 Go,
      Worker 0 (Segs 1), Worker 0 Go, Worker 0 Go, Worker 0 Go,
      Consumer, Consumer, Consumer, Consumer, Consumer, Consumer, Consumer, Consumer,
      Command Op_Stop, Control, Producer, Producer, Producer,
      Consumer, Consumer, Consumer, Consumer, Consumer, Consumer]"

lemma stopped_schedule_run:
  "\<exists>s. run cpu_config stopped_schedule (new_server cpu_config 1) = Some s \<and> srv_state s = kStopped \<and>
     committed_epoch s = 1 \<and> drained_epoch s = 1 \<and> run_budget s = 5000 \<and> delivered s = Amount 1 128"
  by (simp add: stopped_schedule_def pipeline_eval run_budget_def)

section \<open>The status read too early\<close>

definition early_idle_schedule :: "label list" where
  "early_idle_schedule = commit (plain_scene 100 1) @
     [Producer, Producer, Producer, Observer, Observer, Observer, Observer, Observer,
      Producer, Producer, Producer, Producer, Producer, Producer, Producer, Producer, Producer, Observer]"

definition continue_schedule :: "label list" where
  "continue_schedule = [Command (Op_Continue 50), Control, Control]"

lemma early_idle_run:
  "\<exists>s s'. run cpu_config early_idle_schedule (new_server cpu_config 1) = Some s \<and> srv_state s = kRunning \<and>
     observer_at s = O_Said kIdle \<and> \<not> has_ever_consumed s \<and> issued s = Amount 1 100 \<and> delivered s = 0 \<and>
     run cpu_config continue_schedule s = Some s' \<and> lost s' = issued s'"
  by (simp add: early_idle_schedule_def continue_schedule_def pipeline_eval)

section \<open>The wake-up Stop() can lose\<close>

definition hang_schedule :: "label list" where
  "hang_schedule = commit (plain_scene 5000 200) @
     [Producer, Producer, Producer, Producer, Producer, Producer, Producer, Producer, Producer, Producer,
      Command Op_Stop, Control, Control, Control, Control, Control, Control, Producer]"

text \<open>The producer asleep after the notification, everybody else parked, the control thread waiting.\<close>

definition hung :: "command \<Rightarrow> server \<Rightarrow> bool" where
  "hung op s \<longleftrightarrow> control_at s = K_Wait op \<and> srv_state s = kStopped \<and> active_workers s \<noteq> 0 \<and>
     (\<exists>g m. producer_at s = P_Asleep g m) \<and> consumer_at s = C_Parked \<and>
     (\<forall>w\<in>set (workers s). worker_at w = W_Parked)"

definition stop_never_returns :: "server_config \<Rightarrow> command \<Rightarrow> server \<Rightarrow> bool" where
  "stop_never_returns cfg op s \<longleftrightarrow>
     (\<forall>ls s'. Spurious \<notin> set ls \<longrightarrow> run cfg ls s = Some s' \<longrightarrow> control_at s' = K_Wait op)"

lemma hung_step: "step cfg l s = Some s' \<Longrightarrow> l \<noteq> Spurious \<Longrightarrow> hung op s \<Longrightarrow> hung op s'"
  by (cases l)
    (auto simp: hung_def may_enter_def dest!: observer_frame split: if_splits)

lemma hung_run: "run cfg ls s = Some s' \<Longrightarrow> Spurious \<notin> set ls \<Longrightarrow> hung op s \<Longrightarrow> hung op s'"
  by (induction ls arbitrary: s) (auto split: option.splits dest: hung_step)

lemma hung_never_returns: "hung op s \<Longrightarrow> stop_never_returns cfg op s"
  using hung_run by (fastforce simp: stop_never_returns_def hung_def)

lemma hang_schedule_run:
  "\<exists>s. run gpu_config hang_schedule (new_server gpu_config 0) = Some s \<and> Spurious \<notin> set hang_schedule \<and> hung Op_Stop s"
  by (simp add: hang_schedule_def pipeline_eval hung_def)

section \<open>A drained run loses nothing\<close>

lemma drained_mono:
  assumes step: "step cfg l s = Some s'" and ok: "session_ok s"
  shows "drained_epoch s \<le> drained_epoch s'"
proof (cases l)
  case Producer
  have "drained_epoch s \<le> snd (publish_step s p)" for p by (cases p) auto
  with Producer step producer_step_drained [of cfg s "producer_at s" s'] show ?thesis
    by (auto split: producer_pc.splits)
next
  case Consumer
  have "drained_epoch s \<le> snd (publish_step s p)" for p by (cases p) auto
  with Consumer step consumer_step_drained [of cfg s "consumer_at s" s'] show ?thesis
    by (auto split: consumer_pc.splits)
next
  case (Worker i c)
  with step have "step cfg (Worker i c) s = Some s'" by simp
  with worker_step_run_frame ok show ?thesis by (simp add: session_ok_def del: step.simps)
next
  case Control
  with step show ?thesis
    by (cases "control_at s")
      (auto simp: shut_scene_queue_def shut_data_queue_def stop_worker_def split: if_splits)
qed (use step in \<open>auto dest!: observer_frame split: if_splits producer_pc.splits\<close>)

lemma epoch_mono:
  assumes step: "step cfg l s = Some s'" and ok: "session_ok s"
  shows "committed_epoch s \<le> committed_epoch s'"
proof (cases l)
  case Producer
  with step producer_step_frame [of cfg s "producer_at s" s'] show ?thesis by (simp add: producer_frame_def)
next
  case Consumer
  with step consumer_step_frame [of cfg s "consumer_at s" s'] show ?thesis by (simp add: consumer_frame_def)
next
  case (Worker i c)
  with step have "step cfg (Worker i c) s = Some s'" by simp
  with worker_step_run_frame ok show ?thesis by (simp add: session_ok_def del: step.simps)
next
  case Control
  have "committed_epoch s \<le> committed_epoch (bind_run op s)" for op by (cases op) (auto simp: new_epoch_def)
  with Control step show ?thesis
    by (cases "control_at s")
      (auto simp: shut_scene_queue_def shut_data_queue_def stop_worker_def split: if_splits)
qed (use step in \<open>auto dest!: observer_frame split: if_splits producer_pc.splits\<close>)

lemma run_mono:
  "run cfg ls s = Some s' \<Longrightarrow> reachable cfg s \<Longrightarrow>
     drained_epoch s \<le> drained_epoch s' \<and> committed_epoch s \<le> committed_epoch s'"
proof (induction ls arbitrary: s)
  case (Cons l ls)
  then obtain t where t: "step cfg l s = Some t" "run cfg ls t = Some s'" by (auto split: option.splits)
  have ses: "session_ok s" using Cons.prems(2) by (rule reachable_session)
  have "reachable cfg t" using Cons.prems(2) t(1) by (rule reachable.act)
  from Cons.IH [OF t(2) this] drained_mono [OF t(1) ses] epoch_mono [OF t(1) ses] show ?case by linarith
qed simp

lemma drained_stays:
  assumes "reachable cfg s" and "0 < committed_epoch s" and "drained_epoch s = committed_epoch s"
    and "run cfg ls s = Some s'" and "committed_epoch s' = committed_epoch s"
  shows "drained_epoch s' = committed_epoch s'" and "reachable cfg s'"
proof -
  show r: "reachable cfg s'" using assms(1,4) by (rule run_reachable)
  have "drained_ok s'" using reachable_server_ok [OF r] by (simp add: server_ok_def)
  with run_mono [OF assms(4,1)] assms show "drained_epoch s' = committed_epoch s'"
    by (simp add: drained_ok_def)
qed

end
