(* ===== verification/Pipeline_Bounds.thy ===== *)
theory Pipeline_Bounds
  imports Drain_Epoch
begin

text \<open>
  The in-flight ceiling of the CPU route: the producer's throttle keeps \<open>sim_scene_cnt_\<close> below its ceiling
  and one handoff, so the counter stays in the range of its machine type.
\<close>

section \<open>What one handoff is charged\<close>

definition run_handoff :: "server_config \<Rightarrow> server \<Rightarrow> nat" where
  "run_handoff cfg s =
     (case handoff_batches False (handoff_sim_data cfg) (run_wavelengths s) of Some h \<Rightarrow> h | None \<Rightarrow> 0)"

definition handoff_credit :: "server_config \<Rightarrow> server \<Rightarrow> nat" where
  "handoff_credit cfg s = run_handoff cfg s * run_wavelengths s"

text \<open>A configuration of the CPU route; the knobs read from the environment are positive.\<close>

definition cpu_route :: "server_config \<Rightarrow> bool" where
  "cpu_route cfg \<longleftrightarrow> \<not> gpu_server cfg \<and> 0 < dispatch_ray_num cfg False"

definition cpu_locals :: "server_config \<Rightarrow> server \<Rightarrow> gen_locals \<Rightarrow> bool" where
  "cpu_locals cfg s g \<longleftrightarrow> \<not> gl_gpu g \<and> gl_nsimdata g = run_wavelengths s \<and> 0 < run_handoff cfg s \<and>
     gl_physics g = dispatch_ray_num cfg False \<and> gl_batch_cap g = dispatch_ray_num cfg False * run_handoff cfg s"

fun throttled :: "server_config \<Rightarrow> server \<Rightarrow> producer_pc \<Rightarrow> bool" where
  "throttled cfg s (P_Head g) = (sim_scene_cnt s < scene_cnt_cap s)"
| "throttled cfg s (P_Credit g) = (sim_scene_cnt s < scene_cnt_cap s \<and> gl_iter_cap g = gl_batch_cap g)"
| "throttled cfg s (P_Stop2 g m) = (sim_scene_cnt s < scene_cnt_cap s \<or> srv_state s \<noteq> kRunning)"
| "throttled cfg s (P_Drain g) = False"
| "throttled cfg s (P_Refund g ds) = False"
| "throttled cfg s _ = True"

definition ceiling_ok :: "server_config \<Rightarrow> server \<Rightarrow> bool" where
  "ceiling_ok cfg s \<longleftrightarrow>
     kMaxSceneCnt \<le> scene_cnt_cap s \<and> settling (consumer_at s) \<le> credit_of (delivered s) \<and>
     (\<forall>g. producer_gen_locals (producer_at s) = Some g \<longrightarrow> cpu_locals cfg s g) \<and>
     throttled cfg s (producer_at s) \<and>
     (control_at s \<noteq> K_Start \<longrightarrow> sim_scene_cnt s < scene_cnt_cap s + int (handoff_credit cfg s))"

lemma ceil_div_le:
  fixes r d h :: nat
  assumes "r \<le> d * h" and "0 < d"
  shows "(r + d - 1) div d \<le> h"
proof -
  have "r + d - 1 < Suc h * d" using assms by (simp add: mult.commute)
  then have "(r + d - 1) div d < Suc h" by (simp only: div_less_iff_less_mult [OF assms(2)])
  then show ?thesis by simp
qed

lemma PhysicsBatchCount_le:
  assumes "0 < physics_ray_num b" and "ray_num b \<le> physics_ray_num b * h" and "0 < h"
  shows "PhysicsBatchCount b \<le> h"
proof (cases "ray_num b \<le> physics_ray_num b")
  case True
  then have per: "PhysicsRayNum b = ray_num b" by (simp add: PhysicsRayNum_def)
  have "PhysicsBatchCount b \<le> 1"
  proof (cases "ray_num b = 0")
    case True
    with per show ?thesis by (simp add: PhysicsBatchCount_def)
  next
    case False
    have "(ray_num b + ray_num b - 1) div ray_num b \<le> 1" by (rule ceil_div_le) (use False in simp_all)
    with per False show ?thesis by (simp add: PhysicsBatchCount_def Let_def)
  qed
  with assms(3) show ?thesis by simp
next
  case False
  then have "PhysicsBatchCount b = (ray_num b + physics_ray_num b - 1) div physics_ray_num b"
    using assms(1) by (simp add: PhysicsBatchCount_def PhysicsRayNum_def Let_def)
  also have "\<dots> \<le> h" by (rule ceil_div_le [OF assms(2,1)])
  finally show ?thesis .
qed

lemma gen_batch_credit:
  assumes "cpu_route cfg" and "cpu_locals cfg s g" and "gl_iter_cap g = gl_batch_cap g"
  shows "PhysicsBatchCount (gen_batch g) * gl_nsimdata g \<le> handoff_credit cfg s"
proof -
  have "PhysicsBatchCount (gen_batch g) \<le> run_handoff cfg s"
    by (rule PhysicsBatchCount_le) (use assms in \<open>simp_all add: gen_batch_def cpu_locals_def cpu_route_def\<close>)
  then have "PhysicsBatchCount (gen_batch g) * gl_nsimdata g \<le> run_handoff cfg s * gl_nsimdata g"
    by (rule mult_le_mono1)
  with assms(2) show ?thesis by (simp add: handoff_credit_def cpu_locals_def)
qed

lemma gen_setup_cpu:
  assumes "cpu_route cfg" and "active_scene s = Some sc" and "gen_setup cfg s sc = Some (g, cap, wake)"
  shows "cpu_locals cfg s g" and "kMaxSceneCnt \<le> cap"
proof -
  have gpu: "\<not> gpu_server cfg" using assms(1) by (simp add: cpu_route_def)
  obtain h where h: "handoff_batches False (handoff_sim_data cfg) (scene_wavelengths sc) = Some h"
    using assms(3) gpu by (auto simp: gen_setup_def Let_def)
  then have pos: "0 < h" by (auto simp: handoff_batches_def split: if_splits)
  obtain c w where l: "scene_cnt_limits False (windows_build cfg) (length (ActiveWorkers s)) h (scene_wavelengths sc) = (c, w)"
    by fastforce
  have rw: "run_wavelengths s = scene_wavelengths sc" using assms(2) by (simp add: run_wavelengths_def)
  have g: "\<not> gl_gpu g" "gl_nsimdata g = scene_wavelengths sc" "gl_physics g = dispatch_ray_num cfg False"
    "gl_batch_cap g = dispatch_ray_num cfg False * h" "cap = c"
    using assms(3) gpu h l by (auto simp: gen_setup_def Let_def)
  have rh: "run_handoff cfg s = h" using h rw by (simp add: run_handoff_def)
  show "cpu_locals cfg s g" using g rw rh pos by (simp add: cpu_locals_def)
  show "kMaxSceneCnt \<le> cap" using l g(5) by (auto simp: scene_cnt_limits_def Let_def)
qed

lemma facts_same:
  "run_wavelengths s' = run_wavelengths s \<Longrightarrow>
     run_handoff cfg s' = run_handoff cfg s \<and> handoff_credit cfg s' = handoff_credit cfg s \<and>
     cpu_locals cfg s' = cpu_locals cfg s"
  by (auto simp: run_handoff_def handoff_credit_def cpu_locals_def fun_eq_iff)

section \<open>The throttle holds\<close>

lemma cpu_locals_updates [simp]:
  "cpu_locals cfg s (g\<lparr>gl_iter_cap := c\<rparr>) = cpu_locals cfg s g"
  "cpu_locals cfg s (g\<lparr>gl_committed := m\<rparr>) = cpu_locals cfg s g"
  by (simp_all add: cpu_locals_def)

lemma producer_step_cpu_locals:
  assumes "producer_step cfg s pc = Some s'" and "\<And>g. producer_gen_locals pc = Some g \<Longrightarrow> cpu_locals cfg s g"
    and "producer_gen_locals (producer_at s') = Some g'" and "cpu_route cfg"
  shows "cpu_locals cfg s g'"
  using assms gen_setup_cpu(1) [OF assms(4), of s]
  by (cases pc) (auto simp: enter_def leave_def DrainAll_def Let_def split: if_splits option.splits prod.splits)

lemma producer_step_idle_cnt:
  "producer_step cfg s pc = Some s' \<Longrightarrow> \<forall>g ds. pc \<noteq> P_Refund g ds \<Longrightarrow> \<forall>g. pc \<noteq> P_Credit g \<Longrightarrow> pc \<noteq> P_Capture \<Longrightarrow>
     sim_scene_cnt s' = sim_scene_cnt s \<and> scene_cnt_cap s' = scene_cnt_cap s"
  by (cases pc) (auto simp: enter_def leave_def DrainAll_def Let_def split: if_splits option.splits prod.splits)

lemma producer_step_throttled:
  assumes step: "producer_step cfg s pc = Some s'" and "throttled cfg s pc"
    and "\<And>g. producer_gen_locals pc = Some g \<Longrightarrow> \<not> gl_gpu g"
    and "pc = P_Capture \<Longrightarrow> throttled cfg s' (producer_at s')"
  shows "throttled cfg s' (producer_at s')"
  using assms
  by (cases pc)
    (auto simp: enter_def leave_def DrainAll_def Let_def throttle_over_def EffectiveDispatchCap_def
      split: if_splits option.splits prod.splits)

lemma nothing_issued_no_count:
  assumes "books_ok s" and "control_at s \<noteq> K_Start" and "issued s = 0" and "settling (consumer_at s) \<le> credit_of (delivered s)"
  shows "sim_scene_cnt s = 0"
proof -
  have "delivered s = 0" using assms(1,3) by (auto simp: books_ok_def ledger_def)
  with assms show ?thesis by (simp add: books_ok_def counted_def)
qed

lemma producer_ceiling:
  assumes step: "producer_step cfg s (producer_at s) = Some s'" and ok: "server_ok s"
    and cpu: "cpu_route cfg" and ceil: "ceiling_ok cfg s"
  shows "ceiling_ok cfg s'"
proof -
  have ses: "session_ok s" and books: "books_ok s" and rays: "rays_ok s (producer_at s)"
    using ok by (auto simp: server_ok_def)
  note frame = producer_step_frame [OF step]
  have k: "control_at s \<noteq> K_Start"
    using step awake_not_start [OF ses] by (auto simp: may_enter_def split: if_splits)
  have "run_wavelengths s' = run_wavelengths s" using frame run_facts_frame [of s' s] by (auto simp: producer_frame_def)
  note same = facts_same [OF this, of cfg]
  have loc: "\<And>g. producer_gen_locals (producer_at s) = Some g \<Longrightarrow> cpu_locals cfg s g"
    using ceil by (simp add: ceiling_ok_def)
  have loc': "\<forall>g. producer_gen_locals (producer_at s') = Some g \<longrightarrow> cpu_locals cfg s' g"
    using producer_step_cpu_locals [OF step loc _ cpu] same by auto
  have cap0: "0 < scene_cnt_cap s" using ceil by (simp add: ceiling_ok_def kMaxSceneCnt_def)
  have cap: "throttled cfg s' (producer_at s') \<and> kMaxSceneCnt \<le> scene_cnt_cap s' \<and>
      sim_scene_cnt s' < scene_cnt_cap s' + int (handoff_credit cfg s)"
  proof (cases "producer_at s = P_Capture")
    case True
    have z: "sim_scene_cnt s = 0"
      using nothing_issued_no_count [OF books k] rays True ceil by (simp add: ceiling_ok_def)
    show ?thesis
    proof (cases "active_scene s")
      case None
      with True step z ceil cap0 show ?thesis by (auto simp: ceiling_ok_def)
    next
      case (Some sc)
      show ?thesis
      proof (cases "gen_setup cfg s sc")
        case None
        with Some True step z ceil cap0 show ?thesis by (auto simp: ceiling_ok_def)
      next
        case out: (Some r)
        then obtain g cap wake where r: "gen_setup cfg s sc = Some (g, cap, wake)" by (cases r) auto
        have "kMaxSceneCnt \<le> cap" by (rule gen_setup_cpu(2) [OF cpu Some r])
        with Some r True step z show ?thesis by (auto simp: kMaxSceneCnt_def)
      qed
    qed
  next
    case False
    have t: "throttled cfg s' (producer_at s')"
      by (rule producer_step_throttled [OF step]) (use ceil loc False in \<open>auto simp: ceiling_ok_def cpu_locals_def\<close>)
    show ?thesis
    proof (cases "\<exists>g. producer_at s = P_Credit g")
      case True
      then obtain g where g: "producer_at s = P_Credit g" by blast
      have "PhysicsBatchCount (gen_batch g) * gl_nsimdata g \<le> handoff_credit cfg s"
        using ceil loc g by (intro gen_batch_credit [OF cpu]) (auto simp: ceiling_ok_def)
      then have "int (PhysicsBatchCount (gen_batch g) * gl_nsimdata g) \<le> int (handoff_credit cfg s)"
        by (simp only: of_nat_le_iff)
      with g step ceil t show ?thesis by (auto simp: ceiling_ok_def Let_def)
    next
      case nocredit: False
      have "\<forall>g ds. producer_at s \<noteq> P_Refund g ds" using ceil by (auto simp: ceiling_ok_def)
      with producer_step_idle_cnt [OF step] nocredit False ceil k t show ?thesis by (auto simp: ceiling_ok_def)
    qed
  qed
  show ?thesis
    using ceil cap loc' frame same by (auto simp: ceiling_ok_def)
qed

lemma consumer_step_counts:
  assumes "consumer_step cfg s pc = Some s'" and "settling pc \<le> credit_of (delivered s)"
    and "consumer_hands (scene_generation s) pc"
  shows "settling (consumer_at s') \<le> credit_of (delivered s') \<and> sim_scene_cnt s' \<le> sim_scene_cnt s \<and>
     scene_cnt_cap s' = scene_cnt_cap s"
  using assms
  by (cases pc)
    (auto simp: enter_def leave_def hand_over_def data_ok_def data_amount_def wake_producer_def
      split: if_splits option.splits prod.splits taken.splits producer_pc.splits)

lemma throttled_mono:
  assumes "throttled cfg s pc" and "sim_scene_cnt s' \<le> sim_scene_cnt s" and "scene_cnt_cap s' = scene_cnt_cap s"
    and "srv_state s' = kRunning \<Longrightarrow> srv_state s = kRunning"
  shows "throttled cfg s' pc"
  using assms by (cases pc) auto

lemma throttled_wake: "throttled cfg s (producer_at s) \<Longrightarrow> throttled cfg s (producer_at (wake_producer s))"
  by (cases "producer_at s") (auto simp: wake_producer_def)

lemma consumer_ceiling:
  assumes step: "consumer_step cfg s (consumer_at s) = Some s'" and ok: "server_ok s" and ceil: "ceiling_ok cfg s"
  shows "ceiling_ok cfg s'"
proof -
  note frame = consumer_step_frame [OF step]
  have hands: "consumer_hands (scene_generation s) (consumer_at s)"
    using ok by (simp add: server_ok_def session_ok_def shape_def)
  have settle: "settling (consumer_at s) \<le> credit_of (delivered s)" using ceil by (simp add: ceiling_ok_def)
  note counts = consumer_step_counts [OF step settle hands]
  have "run_wavelengths s' = run_wavelengths s" using frame run_facts_frame [of s' s] by (auto simp: consumer_frame_def)
  note same = facts_same [OF this, of cfg]
  have "throttled cfg s (producer_at s')" using ceil frame throttled_wake [of cfg s] by (auto simp: ceiling_ok_def)
  then have "throttled cfg s' (producer_at s')"
    by (rule throttled_mono) (use counts frame in \<open>auto simp: consumer_frame_def\<close>)
  moreover have "producer_gen_locals (producer_at s') = producer_gen_locals (producer_at s)"
    using frame wake_producer_at(2) [of s] by auto
  ultimately show ?thesis
    using ceil counts same frame by (auto simp: ceiling_ok_def consumer_frame_def)
qed

lemma quiet_ceiling:
  assumes ceil: "ceiling_ok cfg s" and f: "run_frame s s'"
    and same: "consumer_at s' = consumer_at s" "delivered s' = delivered s" "sim_scene_cnt s' = sim_scene_cnt s"
      "scene_cnt_cap s' = scene_cnt_cap s" "control_at s' = K_Start \<longleftrightarrow> control_at s = K_Start"
  shows "ceiling_ok cfg s'"
proof -
  note facts = facts_same [of s' s cfg]
  have "throttled cfg s (producer_at s')" using ceil f throttled_wake [of cfg s] by (auto simp: ceiling_ok_def run_frame_def)
  then have "throttled cfg s' (producer_at s')"
    by (rule throttled_mono) (use same f in \<open>auto simp: run_frame_def\<close>)
  moreover have "producer_gen_locals (producer_at s') = producer_gen_locals (producer_at s)"
    using f wake_producer_at(2) [of s] by (auto simp: run_frame_def)
  ultimately show ?thesis using ceil same f facts by (auto simp: ceiling_ok_def run_frame_def)
qed

lemma wake_producer_counts [simp]:
  "sim_scene_cnt (wake_producer s) = sim_scene_cnt s" "scene_cnt_cap (wake_producer s) = scene_cnt_cap s"
  by (simp_all add: wake_producer_def split: producer_pc.splits)

lemma worker_step_counts:
  assumes "step cfg (Worker i c) s = Some s'" and "shape s"
  shows "sim_scene_cnt s' = sim_scene_cnt s \<and> scene_cnt_cap s' = scene_cnt_cap s"
proof -
  from assms obtain w s1 where s': "s' = s1\<lparr>workers := (workers s)[i := w]\<rparr>" and fr: "worker_frame s s1"
    by (rule worker_step_server)
  show ?thesis using worker_frame_fields [OF fr] by (simp add: s')
qed

lemma control_ceiling:
  assumes step: "control_step s (control_at s) = Some s'" and ok: "server_ok s" and ceil: "ceiling_ok cfg s"
  shows "ceiling_ok cfg s'"
proof -
  have phase: "phase_ok s (control_at s)" using ok by (auto simp: server_ok_def session_ok_def)
  have facts: "run_wavelengths t = run_wavelengths s \<and> run_budget t = run_budget s"
    if "session_mode t = session_mode s" "active_scene t = active_scene s" "ray_num_override t = ray_num_override s"
      "scene_generation t = scene_generation s" for t
    using run_facts_frame [OF that] by simp
  have parked: "ceiling_ok cfg s'"
    if "producer_at s' = P_Parked" "consumer_at s' = C_Parked" "scene_cnt_cap s' = scene_cnt_cap s"
      "control_at s' \<noteq> K_Start \<Longrightarrow> sim_scene_cnt s' = 0"
    using that ceil by (auto simp: ceiling_ok_def kMaxSceneCnt_def)
  show ?thesis
  proof (cases "control_at s")
    case (K_Stop op)
    show ?thesis
    proof (cases "srv_state s = kRunning")
      case True
      with K_Stop step have s': "s' = s\<lparr>srv_state := kStopped, control_at := K_ShutScene op\<rparr>" by simp
      have "throttled cfg s' (producer_at s)"
        by (rule throttled_mono [of cfg s]) (use ceil in \<open>auto simp: s' ceiling_ok_def\<close>)
      with ceil K_Stop facts_same [of s' s cfg] facts [of s'] show ?thesis by (auto simp: s' ceiling_ok_def)
    next
      case False
      with K_Stop step show ?thesis
        using facts [of s'] by (intro quiet_ceiling [OF ceil]) (auto simp: run_frame_def split: if_splits)
    qed
  next
    case (K_ShutScene op)
    with step show ?thesis
      using facts [of s'] by (intro quiet_ceiling [OF ceil]) (auto simp: run_frame_def shut_scene_queue_def)
  next
    case (K_ShutData op)
    with step show ?thesis
      using facts [of s'] by (intro quiet_ceiling [OF ceil]) (auto simp: run_frame_def shut_data_queue_def)
  next
    case (K_Notify op)
    with step show ?thesis
      using facts [of s'] by (intro quiet_ceiling [OF ceil]) (auto simp: run_frame_def)
  next
    case (K_StopWorkers op i)
    with step show ?thesis
      using facts [of s'] by (intro quiet_ceiling [OF ceil]) (auto simp: run_frame_def stop_worker_def split: if_splits)
  next
    case (K_Wait op)
    with step show ?thesis
      using facts [of s'] by (intro quiet_ceiling [OF ceil]) (auto simp: run_frame_def split: if_splits)
  next
    case (K_Reset op)
    with step show ?thesis
      using facts [of s'] by (intro quiet_ceiling [OF ceil]) (auto simp: run_frame_def split: if_splits)
  next
    case (K_Bind op)
    with step phase have s': "s' = (bind_run op s)\<lparr>control_at := K_Start\<rparr>" and r: "at_rest s" by auto
    show ?thesis by (rule parked) (use rest_parked [OF r] in \<open>cases op; simp add: s' new_epoch_def\<close>)+
  next
    case K_Start
    with step phase have s': "s' = s\<lparr>work_started := False, sim_scene_cnt := 0, server_status := kServerRunning,
           data_queue := Start_queue (data_queue s), scene_queue := Start_queue (scene_queue s),
           start_generation := start_generation s + 1, srv_state := kRunning, control_at := K_Idle\<rparr>" and r: "at_rest s"
      by auto
    show ?thesis by (rule parked) (use rest_parked [OF r] in \<open>simp_all add: s'\<close>)
  qed (use step in simp)
qed

lemma ceiling_step:
  assumes step: "step cfg l s = Some s'" and cpu: "cpu_route cfg" and ok: "server_ok s" and ceil: "ceiling_ok cfg s"
  shows "ceiling_ok cfg s'"
proof (cases l)
  case Producer
  with step cpu ok ceil producer_ceiling show ?thesis by simp
next
  case Consumer
  with step ok ceil consumer_ceiling show ?thesis by simp
next
  case (Worker i c)
  have shape: "shape s" using ok by (auto simp: server_ok_def session_ok_def)
  from Worker step have "step cfg (Worker i c) s = Some s'" by simp
  from worker_step_run_frame [OF this shape] worker_step_counts [OF this shape] show ?thesis
    by (intro quiet_ceiling [OF ceil]) auto
next
  case (Command op)
  with step show ?thesis
    using run_facts_frame [of s' s] by (intro quiet_ceiling [OF ceil]) (auto simp: run_frame_def split: if_splits)
next
  case Control
  with step ok ceil control_ceiling show ?thesis by simp
next
  case Observer
  with step observer_frame obtain pc' where "s' = s\<lparr>observer_at := pc'\<rparr>" by (metis step.simps(6))
  then show ?thesis
    using run_facts_frame [of s' s] by (intro quiet_ceiling [OF ceil]) (auto simp: run_frame_def)
next
  case Spurious
  with step spurious_is_wake have "s' = wake_producer s" by metis
  then show ?thesis
    using run_facts_frame [of s' s] by (intro quiet_ceiling [OF ceil]) (auto simp: run_frame_def)
qed

lemma reachable_ceiling: "reachable cfg s \<Longrightarrow> cpu_route cfg \<Longrightarrow> ceiling_ok cfg s"
proof (induction rule: reachable.induct)
  case (boot n)
  show ?case by (simp add: ceiling_ok_def new_server_def kMaxSceneCnt_def)
next
  case (act s l s')
  then show ?case using ceiling_step reachable_server_ok by blast
qed

end
