(* ===== verification/Server_Properties.thy ===== *)
theory Server_Properties
  imports Server_Schedules Pipeline_Bounds
begin

text \<open>
  What the server's pipeline promises, over every schedule of its threads: the drain signal, the books of
  \<open>sim_scene_cnt_\<close>, the ceiling on what is in flight, and the two races that break a promise.
\<close>

section \<open>The state of the server is well formed\<close>

text \<open>C35: in every reachable state everything in a queue or in the hands of a thread belongs to the current
  run, \<open>active_workers_\<close> counts exactly the threads inside their work cycle, the position of the control
  thread decides the queues (open while running, shut and empty while stopping, everybody parked between
  the runs), and the drained epoch never passes the committed one.\<close>

theorem server_is_well_formed:
  assumes "reachable cfg s"
  shows "shape s \<and> active_workers s = threads_awake s \<and> phase_ok s (control_at s) \<and> drained_epoch s \<le> committed_epoch s"
  using reachable_server_ok [OF assms] by (simp add: server_ok_def session_ok_def drained_ok_def)

theorem server_is_well_formed_witness:
  "\<exists>s. run cpu_config full_schedule (new_server cpu_config 1) = Some s \<and>
     shape s \<and> active_workers s = threads_awake s \<and> phase_ok s (control_at s) \<and> drained_epoch s \<le> committed_epoch s"
proof -
  obtain s where s: "run cpu_config full_schedule (new_server cpu_config 1) = Some s" using full_schedule_run by blast
  from server_is_well_formed [OF run_reachable [OF boot s]] s show ?thesis by blast
qed

section \<open>The books\<close>

text \<open>C9: outside the instant between the binding of a run and its start, the counter \<open>sim_scene_cnt_\<close> is exactly
  the credit in flight, plus the credit of what a stop or a degenerate scene discarded, plus what the consumer has handed over and is
  about to settle; everything issued is in flight, lost or delivered; no data of another run is ever handed out.\<close>

theorem counter_matches_books:
  assumes "reachable cfg s" and "control_at s \<noteq> K_Start"
  shows "sim_scene_cnt s = int (credit_of (in_flight s) + credit_of (lost s) + settling (consumer_at s)) \<and>
    issued s = in_flight s + lost s + delivered s \<and> stale s = 0"
proof -
  have "ledger s" "stale s = 0" "counted s"
    using reachable_books [OF assms(1)] assms(2) by (auto simp: books_ok_def)
  then show ?thesis by (simp add: ledger_def counted_def)
qed

theorem counter_matches_books_witness:
  "\<exists>s. run cpu_config early_idle_schedule (new_server cpu_config 1) = Some s \<and> issued s = Amount 1 100 \<and>
     sim_scene_cnt s = int (credit_of (in_flight s) + credit_of (lost s) + settling (consumer_at s)) \<and>
     issued s = in_flight s + lost s + delivered s \<and> stale s = 0"
proof -
  obtain s where s: "run cpu_config early_idle_schedule (new_server cpu_config 1) = Some s" "issued s = Amount 1 100"
    "control_at s \<noteq> K_Start"
    by (simp add: early_idle_schedule_def pipeline_eval)
  from counter_matches_books [OF run_reachable [OF boot s(1)] s(3)] s show ?thesis by blast
qed

section \<open>The drain signal\<close>

text \<open>C7: once the epoch of a run has been published as drained, then however the threads are scheduled after it and
  whatever is commanded, until the next run is bound: everything the run issued has been delivered to the consumers,
  nothing is in a queue or in a hand, and nothing is lost, so continuing or stopping the run discards no ray.\<close>

theorem drained_run_is_delivered:
  assumes "reachable cfg s" and "0 < committed_epoch s" and "drained_epoch s = committed_epoch s"
    and "run cfg ls s = Some s'" and "committed_epoch s' = committed_epoch s"
  shows "delivered s' = issued s' \<and> in_flight s' = 0 \<and> lost s' = 0 \<and> \<not> scene_gen_active s'"
proof -
  note later = drained_stays [OF assms]
  from drained_calm [OF later(2)] later(1) assms(2,5) show ?thesis by (simp add: calm_def)
qed

theorem drained_run_is_delivered_witness:
  "\<exists>s s'. run cpu_config full_schedule (new_server cpu_config 1) = Some s \<and> drained_epoch s = 1 \<and>
     run cpu_config [Command (Op_Continue 50), Control, Control, Control] s = Some s' \<and> srv_state s' = kStopped \<and>
     delivered s' = issued s' \<and> in_flight s' = 0 \<and> lost s' = 0 \<and> \<not> scene_gen_active s'"
proof -
  obtain s s' where s: "run cpu_config full_schedule (new_server cpu_config 1) = Some s" "committed_epoch s = 1"
    "drained_epoch s = 1" and s': "run cpu_config [Command (Op_Continue 50), Control, Control, Control] s = Some s'"
    "committed_epoch s' = 1" "srv_state s' = kStopped"
    by (simp add: full_schedule_def pipeline_eval)
  from drained_run_is_delivered [OF run_reachable [OF boot s(1)] _ _ s'(1)] s s' show ?thesis by auto
qed

text \<open>The rays a run is asked for, summed over its wavelengths.\<close>

definition requested_rays :: "server \<Rightarrow> nat" where
  "requested_rays s = (case active_scene s of None \<Rightarrow> 0 | Some sc \<Rightarrow> unat (total_ray_num s sc))"

lemma budget_covers_request:
  assumes "run_budget s \<noteq> unat kInfSize" and "0 < run_wavelengths s" and "requested_rays s + run_wavelengths s < 2 ^ 64"
  shows "requested_rays s \<le> run_wavelengths s * run_budget s \<and>
    run_wavelengths s * run_budget s < requested_rays s + run_wavelengths s"
proof (cases "active_scene s")
  case None
  with assms(2) show ?thesis by (simp add: run_wavelengths_def)
next
  case (Some sc)
  let ?n = "scene_wavelengths sc" and ?t = "total_ray_num s sc"
  have n: "run_wavelengths s = ?n" "requested_rays s = unat ?t" using Some by (simp_all add: run_wavelengths_def requested_rays_def)
  have fin: "?t \<noteq> kInfSize" using assms(1) Some by (auto simp: run_budget_def per_wl_ray_num_def)
  then have b: "run_budget s = unat (PerWavelengthRayNum ?t (of_nat ?n))"
    using Some by (simp add: run_budget_def per_wl_ray_num_def Let_def)
  have small: "unat (of_nat ?n :: u64) = ?n" using assms(3) n by (simp add: unat_of_nat)
  show ?thesis
  proof (cases "?n = 1")
    case True
    then show ?thesis using b n by (simp add: PerWavelengthRayNum_def)
  next
    case False
    then have "(1::u64) < of_nat ?n" using assms(2) n(1) small by (simp add: word_less_nat_alt)
    from PerWavelengthRayNum_unat [OF this, of ?t] have "run_budget s = (unat ?t + ?n - 1) div ?n"
      using b small assms(3) n by simp
    with ceil_div_covers [of ?n "unat ?t"] assms(2) n show ?thesis by (simp add: mult.commute)
  qed
qed

text \<open>C8: a run that is drained while the server is still running has traced what it was asked for: the consumers
  hold at least the requested rays over all wavelengths, and fewer than one more ray per wavelength than that.\<close>

theorem drained_run_meets_request:
  assumes "reachable cfg s" and "0 < committed_epoch s" and "drained_epoch s = committed_epoch s"
    and "srv_state s = kRunning" and "0 < run_wavelengths s" and "requested_rays s + run_wavelengths s < 2 ^ 64"
  shows "requested_rays s \<le> rays_of (delivered s) \<and> rays_of (delivered s) < requested_rays s + run_wavelengths s"
proof -
  note c = drained_calm [OF assms(1-3)]
  have "complete s" by (rule calm_complete [OF assms(1) c(1) assms(4)])
  with budget_covers_request [OF _ assms(5,6)] c(4) show ?thesis by (simp add: complete_def)
qed

theorem drained_run_meets_request_witness:
  "\<exists>s. run cpu_config full_schedule (new_server cpu_config 1) = Some s \<and> requested_rays s = 100 \<and>
     100 \<le> rays_of (delivered s) \<and> rays_of (delivered s) < 101"
proof -
  obtain s where s: "run cpu_config full_schedule (new_server cpu_config 1) = Some s" "srv_state s = kRunning"
    "committed_epoch s = 1" "drained_epoch s = 1" "run_wavelengths s = 1" "requested_rays s = 100"
    by (simp add: full_schedule_def pipeline_eval run_wavelengths_def requested_rays_def)
  from drained_run_meets_request [OF run_reachable [OF boot s(1)]] s show ?thesis by auto
qed

section \<open>The ceiling on what is in flight\<close>

text \<open>C10: on the CPU route the throttle of \<open>GenerateScene\<close> keeps the counter below its ceiling and one handoff, in
  every reachable state, and it is never negative.\<close>

theorem in_flight_ceiling:
  assumes "reachable cfg s" and "cpu_route cfg" and "control_at s \<noteq> K_Start"
  shows "0 \<le> sim_scene_cnt s \<and> sim_scene_cnt s < scene_cnt_cap s + int (handoff_credit cfg s)"
proof -
  have "counted s" and "ledger s" using reachable_books [OF assms(1)] assms(3) by (auto simp: books_ok_def)
  then have "0 \<le> sim_scene_cnt s" by (simp add: counted_def ledger_def)
  with reachable_ceiling [OF assms(1,2)] assms(3) show ?thesis by (simp add: ceiling_ok_def)
qed

theorem in_flight_ceiling_witness:
  "\<exists>s. run cpu_config early_idle_schedule (new_server cpu_config 1) = Some s \<and> scene_cnt_cap s = 128 \<and>
     0 \<le> sim_scene_cnt s \<and> sim_scene_cnt s < scene_cnt_cap s + int (handoff_credit cpu_config s)"
proof -
  obtain s where s: "run cpu_config early_idle_schedule (new_server cpu_config 1) = Some s" "scene_cnt_cap s = 128"
    "control_at s \<noteq> K_Start"
    by (simp add: early_idle_schedule_def pipeline_eval)
  have "cpu_route cpu_config" by (simp add: cpu_route_def cpu_config_def)
  from in_flight_ceiling [OF run_reachable [OF boot s(1)] this s(3)] s show ?thesis by blast
qed

section \<open>The pieces\<close>

text \<open>C38: what \<open>GenerateScene\<close> charges a batch with is what \<open>Simulator::Run\<close> makes of it: the physics batches and
  wavelengths of a non-empty batch give exactly \<open>PhysicsBatchCount\<close> times the wavelengths calls, together they trace
  every ray of the batch once per wavelength, and no call is empty or larger than the physics batch.\<close>

theorem batch_charge_is_output:
  assumes "0 < ray_num b"
  shows "length (concat (batch_calls b)) = batch_credit b \<and>
    sum_list (concat (batch_calls b)) = ray_num b * wavelengths b \<and>
    list_all (\<lambda>r. 0 < r \<and> r \<le> PhysicsRayNum b) (concat (batch_calls b))"
  using batch_calls_credit [OF assms] batch_calls_rays [of b] sub_ray_nums_bounds
  by (fastforce simp: batch_calls_def list_all_iff)

theorem batch_charge_is_output_witness:
  "let b = \<lparr>ray_num = 300, physics_ray_num = 128, wavelengths = 2, degenerate = False, batch_generation = 1\<rparr>
   in length (concat (batch_calls b)) = batch_credit b \<and> sum_list (concat (batch_calls b)) = 600 \<and>
      list_all (\<lambda>r. 0 < r \<and> r \<le> 128) (concat (batch_calls b))"
  using batch_charge_is_output
    [of "\<lparr>ray_num = 300, physics_ray_num = 128, wavelengths = 2, degenerate = False, batch_generation = 1\<rparr>"]
  by (simp add: PhysicsRayNum_def)

text \<open>An open work queue is first in, first out: for any history of \<open>Emplace\<close>, \<open>EmplaceMany\<close>, \<open>Get\<close> and \<open>DrainAll\<close>
  calls, what was handed out followed by what is queued is what was queued at first followed by what was put in.\<close>

theorem queue_is_fifo:
  assumes "\<not> shut q" and "call_queues cs q = (out, q')"
  shows "out @ queued q' = queued q @ concat (map put_of cs)"
  using call_queues_fifo [OF assms] by simp

theorem queue_is_fifo_witness:
  "[1, 2, 3] @ [4] = queued \<lparr>queued = [1::nat], shut = False\<rparr> @ concat (map put_of [Put 2, Take, PutMany [3], Drain, Put 4])"
  using queue_is_fifo [of "\<lparr>queued = [1::nat], shut = False\<rparr>" "[Put 2, Take, PutMany [3], Drain, Put 4]" "[1, 2, 3]"
      "\<lparr>queued = [4], shut = False\<rparr>"]
  by (simp add: queue_defs)

section \<open>Two races\<close>

text \<open>C36: \<open>Stop()\<close> can wait for ever: it stores the state and notifies without holding \<open>scene_mutex_\<close>, so the
  notification can fall between the producer's test of its wait predicate and its sleep.  There is a schedule without
  spurious wake-ups after which no schedule without them brings the control thread past its wait.\<close>

theorem stop_can_wait_forever:
  "\<exists>ls s. Spurious \<notin> set ls \<and> run gpu_config ls (new_server gpu_config 0) = Some s \<and>
     control_at s = K_Wait Op_Stop \<and> stop_never_returns gpu_config Op_Stop s"
  using hang_schedule_run hung_never_returns unfolding hung_def by blast

text \<open>C37: \<open>GetStatus\<close> can report a run idle that has a batch outstanding, because it reads the counter before
  \<open>scene_gen_active_\<close>; the lifecycle is then idle, \<open>ContinueRun\<close> does not wait for the drain signal, and the
  batch is lost.\<close>

theorem idle_report_can_lose_a_batch:
  "\<exists>ls s s'. run cpu_config ls (new_server cpu_config 1) = Some s \<and> observer_at s = O_Said kIdle \<and>
     srv_state s = kRunning \<and> delivered s = 0 \<and> issued s \<noteq> 0 \<and>
     \<not> ContinueRun_waits (GetSimLifecycle kIdle (has_ever_consumed s)) \<and>
     run cpu_config continue_schedule s = Some s' \<and> lost s' = issued s'"
proof -
  obtain s s' where "run cpu_config early_idle_schedule (new_server cpu_config 1) = Some s" "srv_state s = kRunning"
    "observer_at s = O_Said kIdle" "\<not> has_ever_consumed s" "issued s = Amount 1 100" "delivered s = 0"
    "run cpu_config continue_schedule s = Some s'" "lost s' = issued s'"
    using early_idle_run by blast
  moreover have "Amount 1 100 \<noteq> 0" by (simp add: amount_eq_iff)
  ultimately show ?thesis
    by (intro exI [of _ early_idle_schedule] exI [of _ s] exI [of _ s'])
      (simp add: ContinueRun_waits_def GetSimLifecycle_def)
qed

end
