(* ===== verification/Optics.thy ===== *)
theory Optics
  imports Complex_Main Ray_Path
begin

text \<open>
  One hit of a ray on a crystal face and its flight to the next one (\<open>src/core/optics.cpp\<close>,
  \<open>src/core/shared/optics_shared.h\<close>, \<open>src/core/shared/traversal_shared.h\<close>): Fresnel reflection and
  refraction, the half-space walk over the polygon faces, and its batching in chunks of 128 rays.

  Floating point numbers are reals here: every theorem is about the formulas, none about rounding.
  The crystal is what these routines read of it: normals, plane constants and face numbers of its
  present polygon faces.
\<close>

section \<open>The code\<close>

type_synonym 'q seg = "(real, 'q) RaySeg"

record CrystalFaces =
  poly_n :: "real list list"
  poly_d :: "real list"
  poly_fn :: "nat list"

definition PolygonFaceCount :: "CrystalFaces \<Rightarrow> nat" where
  "PolygonFaceCount c = length (poly_n c)"

definition GetFn :: "CrystalFaces \<Rightarrow> nat \<Rightarrow> nat" where
  "GetFn c poly_idx =
     (if poly_idx = kInvalidId \<or> poly_idx \<ge> PolygonFaceCount c then kInvalidId else poly_fn c ! poly_idx)"

definition Dot3r :: "real list \<Rightarrow> real list \<Rightarrow> real" where
  "Dot3r a b = a ! 0 * b ! 0 + a ! 1 * b ! 1 + a ! 2 * b ! 2"

definition GetReflectRatio :: "real \<Rightarrow> real \<Rightarrow> real" where
  "GetReflectRatio delta rr =
     (let d_sqrt = sqrt delta;
          Rs = (rr - d_sqrt) / (rr + d_sqrt);
          Rs = Rs * Rs;
          Rp = (1 - rr * d_sqrt) / (1 + rr * d_sqrt);
          Rp = Rp * Rp
      in (Rs + Rp) * (1 / 2))"

text \<open>The body of the loop of \<open>HitSurface\<close>: the two output slots, of which it writes \<open>d_\<close> and \<open>w_\<close>.\<close>

definition hit_pair :: "CrystalFaces \<Rightarrow> real \<Rightarrow> 'q seg \<Rightarrow> 'q seg \<times> 'q seg \<Rightarrow> 'q seg \<times> 'q seg" where
  "hit_pair c n r out =
     (if to_face r = kInvalidId
      then ((fst out)\<lparr> seg_w := 0 \<rparr>, (snd out)\<lparr> seg_w := 0 \<rparr>)
      else
        let dir = seg_d r; norm = poly_n c ! to_face r;
            cos_theta = Dot3r dir norm;
            rr = (if cos_theta > 0 then n else 1 / n);
            d = (1 - rr * rr) / (cos_theta * cos_theta) + rr * rr;
            is_total_reflected = d \<le> 0;
            w0 = GetReflectRatio (max d 0) rr * seg_w r;
            w1 = (if is_total_reflected then - 1 else seg_w r - w0);
            reflection = map (\<lambda>j. dir ! j - 2 * cos_theta * norm ! j) [0..<3];
            refraction = map (\<lambda>j. if is_total_reflected then reflection ! j
              else rr * dir ! j - (rr - sqrt d) * cos_theta * norm ! j) [0..<3]
        in ((fst out)\<lparr> seg_d := reflection, seg_w := w0 \<rparr>, (snd out)\<lparr> seg_d := refraction, seg_w := w1 \<rparr>))"

definition HitSurface :: "CrystalFaces \<Rightarrow> real \<Rightarrow> nat \<Rightarrow> 'q seg list \<Rightarrow> 'q seg list \<Rightarrow> 'q seg list" where
  "HitSurface c n num ins outs =
     fold (\<lambda>i outs. let (a, b) = hit_pair c n (ins ! i) (outs ! (2 * i), outs ! (2 * i + 1))
                   in (outs[2 * i := a])[2 * i + 1 := b]) [0..<num] outs"

definition kSlabEps :: real where "kSlabEps = 1 / 100000"
definition kFloatEps :: real where "kFloatEps = 1 / 100000"
definition kMaxSlabRays :: nat where "kMaxSlabRays = 128"

definition SlabFaceT :: "real list \<Rightarrow> real list \<Rightarrow> real list \<Rightarrow> real \<Rightarrow> real" where
  "SlabFaceT d p n fd =
     (let denom = d ! 0 * n ! 0 + d ! 1 * n ! 1 + d ! 2 * n ! 2
      in if denom \<le> kSlabEps then 10 ^ 30
         else - (p ! 0 * n ! 0 + p ! 1 * n ! 1 + p ! 2 * n ! 2 + fd) / denom)"

text \<open>One lane of the scratch arrays of \<open>PropagateSlab\<close>.\<close>

record SlabLane =
  sl_d :: "real list"
  sl_p :: "real list"
  sl_t_far :: real
  sl_far_face :: int
  sl_src_poly :: int
  sl_outward :: bool

definition gather_lane :: "CrystalFaces \<Rightarrow> 'q seg \<Rightarrow> 'q seg \<Rightarrow> SlabLane" where
  "gather_lane c parent r =
     (let src_poly = (if to_face parent \<noteq> kInvalidId then int (to_face parent) else - 1)
      in \<lparr> sl_d = seg_d r, sl_p = seg_p parent, sl_t_far = 10 ^ 30, sl_far_face = - 1, sl_src_poly = src_poly,
           sl_outward = (src_poly \<ge> 0 \<and> Dot3r (seg_d r) (poly_n c ! nat src_poly) > 0) \<rparr>)"

definition lane_face :: "CrystalFaces \<Rightarrow> nat \<Rightarrow> SlabLane \<Rightarrow> SlabLane" where
  "lane_face c fi s =
     (let t = SlabFaceT (sl_d s) (sl_p s) (poly_n c ! fi) (poly_d c ! fi)
      in if t < sl_t_far s then s\<lparr> sl_t_far := t, sl_far_face := int fi \<rparr> else s)"

definition scatter_lane :: "SlabLane \<Rightarrow> 'q seg \<Rightarrow> 'q seg" where
  "scatter_lane s r =
     (if seg_w r < 0 then r
      else if sl_outward s then r\<lparr> seg_p := sl_p s, to_face := kInvalidId \<rparr>
      else
        let eps_thr = (if sl_src_poly s \<ge> 0 \<and> sl_far_face s \<noteq> sl_src_poly s then - kFloatEps else kFloatEps)
        in if sl_far_face s \<ge> 0 \<and> sl_t_far s > eps_thr
           then r\<lparr> seg_p := map (\<lambda>j. sl_p s ! j + sl_t_far s * sl_d s ! j) [0..<3],
                   to_face := nat (sl_far_face s) mod 65536 \<rparr>
           else r\<lparr> seg_p := sl_p s, to_face := kInvalidId \<rparr>)"

text \<open>The slab over one chunk, faces outside, lanes inside, and the loop over the chunks.\<close>

definition PropagateSlab :: "CrystalFaces \<Rightarrow> nat \<Rightarrow> nat \<Rightarrow> nat \<Rightarrow> 'q seg list \<Rightarrow> 'q seg list \<Rightarrow> 'q seg list" where
  "PropagateSlab c offset num step ins outs =
     (let lanes = map (\<lambda>i. gather_lane c (ins ! (offset div step + i div step)) (outs ! (offset + i))) [0..<num];
          lanes = fold (\<lambda>fi. map (lane_face c fi)) [0..<PolygonFaceCount c] lanes
      in fold (\<lambda>i outs. outs[offset + i := scatter_lane (lanes ! i) (outs ! (offset + i))]) [0..<num] outs)"

definition Propagate :: "CrystalFaces \<Rightarrow> nat \<Rightarrow> nat \<Rightarrow> 'q seg list \<Rightarrow> 'q seg list \<Rightarrow> 'q seg list" where
  "Propagate c num step ins outs =
     fold (\<lambda>k. let offset = k * kMaxSlabRays
              in PropagateSlab c offset (min (num - offset) kMaxSlabRays) step ins)
       [0..<(num + kMaxSlabRays - 1) div kMaxSlabRays] outs"

section \<open>One ray at a time\<close>

definition nearest :: "CrystalFaces \<Rightarrow> SlabLane \<Rightarrow> SlabLane" where
  "nearest c s = fold (lane_face c) [0..<PolygonFaceCount c] s"

definition fly :: "CrystalFaces \<Rightarrow> 'q seg \<Rightarrow> 'q seg \<Rightarrow> 'q seg" where
  "fly c parent r = scatter_lane (nearest c (gather_lane c parent r)) r"

lemma fold_map_lanes: "fold (\<lambda>fi. map (f fi)) fs xs = map (fold f fs) xs"
  by (induction fs arbitrary: xs) (simp_all add: comp_def)

text \<open>A loop that rewrites slot \<open>i\<close> from what slot \<open>i\<close> held.\<close>

lemma fold_update_slots:
  "offset + num \<le> length xs \<Longrightarrow>
     fold (\<lambda>i xs. xs[offset + i := f i (xs ! (offset + i))]) [0..<num] xs
       = take offset xs @ map (\<lambda>i. f i (xs ! (offset + i))) [0..<num] @ drop (offset + num) xs"
proof (induction num)
  case (Suc num)
  let ?ys = "take offset xs @ map (\<lambda>i. f i (xs ! (offset + i))) [0..<num] @ drop (offset + num) xs"
  have at: "?ys ! (offset + num) = xs ! (offset + num)" using Suc.prems by (simp add: nth_append)
  have drop: "drop (offset + num) xs = xs ! (offset + num) # drop (Suc (offset + num)) xs"
    using Suc.prems by (simp add: Cons_nth_drop_Suc)
  have "fold (\<lambda>i xs. xs[offset + i := f i (xs ! (offset + i))]) [0..<Suc num] xs
      = ?ys[offset + num := f num (?ys ! (offset + num))]"
    using Suc by simp
  also have "\<dots> = ?ys[offset + num := f num (xs ! (offset + num))]" by (simp only: at)
  finally show ?case using Suc.prems by (simp add: list_update_append drop)
qed simp

lemma PropagateSlab_eq:
  assumes "offset + num \<le> length outs" and "step dvd offset"
  shows "PropagateSlab c offset num step ins outs
    = take offset outs @ map (\<lambda>i. fly c (ins ! ((offset + i) div step)) (outs ! (offset + i))) [0..<num]
      @ drop (offset + num) outs"
proof -
  have idx: "offset div step + i div step = (offset + i) div step" for i
    using assms(2) by (auto elim!: dvdE)
  have lanes: "fold (\<lambda>fi. map (lane_face c fi)) [0..<PolygonFaceCount c]
        (map (\<lambda>i. gather_lane c (ins ! (offset div step + i div step)) (outs ! (offset + i))) [0..<num])
      = map (\<lambda>i. nearest c (gather_lane c (ins ! ((offset + i) div step)) (outs ! (offset + i)))) [0..<num]"
    by (simp add: fold_map_lanes nearest_def comp_def idx)
  have look: "fold (\<lambda>i xs. xs[offset + i := scatter_lane (map g [0..<num] ! i) (xs ! (offset + i))]) [0..<num] outs
      = fold (\<lambda>i xs. xs[offset + i := scatter_lane (g i) (xs ! (offset + i))]) [0..<num] outs" for g
    by (rule fold_cong) auto
  show ?thesis
    unfolding PropagateSlab_def Let_def lanes look fly_def by (rule fold_update_slots [OF assms(1)])
qed

text \<open>The chunks do not change what a ray gets.\<close>

definition fly_all :: "CrystalFaces \<Rightarrow> nat \<Rightarrow> nat \<Rightarrow> 'q seg list \<Rightarrow> 'q seg list \<Rightarrow> 'q seg list" where
  "fly_all c num step ins outs = map (\<lambda>i. fly c (ins ! (i div step)) (outs ! i)) [0..<num] @ drop num outs"

lemma fly_all_length: "num \<le> length outs \<Longrightarrow> length (fly_all c num step ins outs) = length outs"
  by (simp add: fly_all_def)

lemma fly_all_chunk:
  assumes "offset + num \<le> length outs" and "step dvd offset"
  shows "PropagateSlab c offset num step ins (fly_all c offset step ins outs) = fly_all c (offset + num) step ins outs"
proof -
  let ?ys = "fly_all c offset step ins outs"
  have len: "length ?ys = length outs" using assms(1) by (simp add: fly_all_length)
  have at: "?ys ! (offset + i) = outs ! (offset + i)" for i
    using assms(1) by (simp add: fly_all_def nth_append)
  have "map (\<lambda>i. fly c (ins ! ((offset + i) div step)) (outs ! (offset + i))) [0..<num]
      = map (\<lambda>i. fly c (ins ! (i div step)) (outs ! i)) [offset..<offset + num]"
    by (rule nth_equalityI) simp_all
  then show ?thesis
    unfolding PropagateSlab_eq [OF assms(1) [folded len] assms(2)] at
    using assms(1) upt_add_eq_append [of 0 offset num] by (simp add: fly_all_def add.commute [of num offset])
qed

lemma Propagate_eq:
  assumes "num \<le> length outs" and "step dvd kMaxSlabRays"
  shows "Propagate c num step ins outs = fly_all c num step ins outs"
proof -
  let ?body = "\<lambda>k. let offset = k * kMaxSlabRays
      in PropagateSlab c offset (min (num - offset) kMaxSlabRays) step ins"
  have pos: "0 < kMaxSlabRays" by (simp add: kMaxSlabRays_def)
  have "fold ?body [0..<k] outs = fly_all c (min num (k * kMaxSlabRays)) step ins outs"
    if "k \<le> (num + kMaxSlabRays - 1) div kMaxSlabRays" for k
    using that
  proof (induction k)
    case 0
    then show ?case by (simp add: fly_all_def)
  next
    case (Suc k)
    have "(k + 1) * kMaxSlabRays \<le> (num + kMaxSlabRays - 1) div kMaxSlabRays * kMaxSlabRays"
      using Suc.prems mult_le_mono1 by (metis Suc_eq_plus1)
    also have "\<dots> \<le> num + kMaxSlabRays - 1" by simp
    finally have k: "k * kMaxSlabRays < num" using pos by (simp add: algebra_simps)
    have "fold ?body [0..<Suc k] outs
        = PropagateSlab c (k * kMaxSlabRays) (min (num - k * kMaxSlabRays) kMaxSlabRays) step ins
            (fly_all c (k * kMaxSlabRays) step ins outs)"
      using Suc k by (simp add: Let_def min_def)
    also have "\<dots> = fly_all c (k * kMaxSlabRays + min (num - k * kMaxSlabRays) kMaxSlabRays) step ins outs"
      using k assms by (intro fly_all_chunk) auto
    also have "k * kMaxSlabRays + min (num - k * kMaxSlabRays) kMaxSlabRays = min num (Suc k * kMaxSlabRays)"
      using k by (auto simp: min_def)
    finally show ?case .
  qed
  from this [OF order_refl] have "Propagate c num step ins outs
      = fly_all c (min num ((num + kMaxSlabRays - 1) div kMaxSlabRays * kMaxSlabRays)) step ins outs"
    by (simp add: Propagate_def)
  moreover have "num \<le> (num + kMaxSlabRays - 1) div kMaxSlabRays * kMaxSlabRays"
    by (simp add: kMaxSlabRays_def)
  ultimately show ?thesis by (simp add: min_def)
qed

section \<open>The Fresnel ratio\<close>

lemma ratio_square_le_1:
  assumes "0 \<le> (b :: real)" and "0 \<le> a" shows "(a - b) / (a + b) * ((a - b) / (a + b)) \<le> 1"
proof -
  have "\<bar>(a - b) / (a + b)\<bar> \<le> 1"
    using assms by (cases "a + b = 0") (simp_all add: abs_divide divide_le_eq_1 abs_le_iff)
  then have "((a - b) / (a + b))\<^sup>2 \<le> 1" by (simp only: abs_square_le_1)
  then show ?thesis by (simp only: power2_eq_square)
qed

lemma GetReflectRatio_bounds:
  assumes "0 \<le> delta" and "0 \<le> rr"
  shows "0 \<le> GetReflectRatio delta rr" "GetReflectRatio delta rr \<le> 1"
proof -
  have s: "0 \<le> sqrt delta" "0 \<le> rr * sqrt delta" using assms by simp_all
  show "0 \<le> GetReflectRatio delta rr" by (simp add: GetReflectRatio_def Let_def)
  show "GetReflectRatio delta rr \<le> 1"
    using ratio_square_le_1 [OF s(1) assms(2)] ratio_square_le_1 [OF s(2), of 1]
    by (simp add: GetReflectRatio_def Let_def)
qed

lemma GetReflectRatio_total: "rr \<noteq> 0 \<Longrightarrow> GetReflectRatio 0 rr = 1"
  by (simp add: GetReflectRatio_def Let_def)

section \<open>Linear combinations of directions\<close>

definition lin :: "real \<Rightarrow> real list \<Rightarrow> real \<Rightarrow> real list \<Rightarrow> real list" where
  "lin a u b v = map (\<lambda>j. a * u ! j - b * v ! j) [0..<3]"

lemma upt_3: "[0..<3] = [0, 1, 2 :: nat]"
  by (simp add: upt_conv_Cons numeral_3_eq_3)

lemma lin_length [simp]: "length (lin a u b v) = 3"
  by (simp add: lin_def)

lemma Dot3r_lin: "Dot3r (lin a u b v) w = a * Dot3r u w - b * Dot3r v w"
  by (simp add: Dot3r_def lin_def upt_3 algebra_simps)

lemma Dot3r_commute: "Dot3r u v = Dot3r v u"
  by (simp add: Dot3r_def mult.commute)

lemma Dot3r_lin_lin:
  "Dot3r (lin a u b v) (lin a u b v) = a * a * Dot3r u u - 2 * (a * b) * Dot3r u v + b * b * Dot3r v v"
  by (simp add: Dot3r_def lin_def upt_3 algebra_simps)

definition unit_vec :: "real list \<Rightarrow> bool" where
  "unit_vec v \<longleftrightarrow> length v = 3 \<and> Dot3r v v = 1"

section \<open>A hit\<close>

text \<open>
  A crystal whose face indices fit \<open>IdType\<close> below the sentinel, with unit normals; and a ray that may
  be traced: on a face, of unit direction, not exactly in the plane of that face.
\<close>

definition crystal_ok :: "CrystalFaces \<Rightarrow> bool" where
  "crystal_ok c \<longleftrightarrow> PolygonFaceCount c \<le> kInvalidId \<and> length (poly_d c) = PolygonFaceCount c \<and>
     length (poly_fn c) = PolygonFaceCount c \<and> list_all unit_vec (poly_n c)"

definition cos_at :: "CrystalFaces \<Rightarrow> 'q seg \<Rightarrow> real" where
  "cos_at c r = Dot3r (seg_d r) (poly_n c ! to_face r)"

definition hit_ok :: "CrystalFaces \<Rightarrow> 'q seg \<Rightarrow> bool" where
  "hit_ok c r \<longleftrightarrow> to_face r < PolygonFaceCount c \<and> 0 \<le> seg_w r \<and> unit_vec (seg_d r) \<and> cos_at c r \<noteq> 0"

definition rel_index :: "CrystalFaces \<Rightarrow> real \<Rightarrow> 'q seg \<Rightarrow> real" where
  "rel_index c n r = (if cos_at c r > 0 then n else 1 / n)"

definition delta_at :: "CrystalFaces \<Rightarrow> real \<Rightarrow> 'q seg \<Rightarrow> real" where
  "delta_at c n r =
     (1 - rel_index c n r * rel_index c n r) / (cos_at c r * cos_at c r) + rel_index c n r * rel_index c n r"

lemma crystal_okD:
  assumes "crystal_ok c"
  shows "f < PolygonFaceCount c \<Longrightarrow> f \<noteq> kInvalidId" "f < PolygonFaceCount c \<Longrightarrow> f < 65535"
    "f < PolygonFaceCount c \<Longrightarrow> Dot3r (poly_n c ! f) (poly_n c ! f) = 1"
    "f < PolygonFaceCount c \<Longrightarrow> length (poly_n c ! f) = 3"
  using assms by (auto simp: crystal_ok_def kInvalidId_def unit_vec_def list_all_length PolygonFaceCount_def)

lemma hit_pair_eq:
  assumes "to_face r \<noteq> kInvalidId"
  shows "hit_pair c n r out =
    (let k = cos_at c r; rr = rel_index c n r; d = delta_at c n r;
         w0 = GetReflectRatio (max d 0) rr * seg_w r;
         refl = lin 1 (seg_d r) (2 * k) (poly_n c ! to_face r)
     in ((fst out)\<lparr> seg_d := refl, seg_w := w0 \<rparr>,
         (snd out)\<lparr> seg_d := (if d \<le> 0 then refl else lin rr (seg_d r) ((rr - sqrt d) * k) (poly_n c ! to_face r)),
                    seg_w := (if d \<le> 0 then - 1 else seg_w r - w0) \<rparr>))"
  using assms
  by (simp add: hit_pair_def Let_def cos_at_def [symmetric] rel_index_def [symmetric] delta_at_def [symmetric])
    (simp add: lin_def upt_3 mult.assoc)

lemma rel_index_pos: "0 < n \<Longrightarrow> 0 < rel_index c n r"
  by (simp add: rel_index_def)

text \<open>The weight is shared between the two children, or stays whole with the reflected one.\<close>

lemma hit_pair_weights:
  assumes "to_face r \<noteq> kInvalidId" and "0 < n" and "0 \<le> seg_w r" and "hit_pair c n r out = (a, b)"
  shows "0 \<le> seg_w a" "seg_w a \<le> seg_w r"
    "delta_at c n r \<le> 0 \<Longrightarrow> seg_w a = seg_w r \<and> seg_w b = - 1"
    "0 < delta_at c n r \<Longrightarrow> seg_w b = seg_w r - seg_w a \<and> 0 \<le> seg_w b"
proof -
  let ?R = "GetReflectRatio (max (delta_at c n r) 0) (rel_index c n r)"
  have R: "0 \<le> ?R" "?R \<le> 1"
    using GetReflectRatio_bounds [of "max (delta_at c n r) 0" "rel_index c n r"] rel_index_pos [OF assms(2), of c r]
    by simp_all
  have w: "seg_w a = ?R * seg_w r" "seg_w b = (if delta_at c n r \<le> 0 then - 1 else seg_w r - seg_w a)"
    using assms(4) by (auto simp: hit_pair_eq [OF assms(1)] Let_def)
  show "0 \<le> seg_w a" using R assms(3) by (simp add: w)
  show le: "seg_w a \<le> seg_w r" using mult_right_mono [OF R(2) assms(3)] by (simp add: w)
  show "delta_at c n r \<le> 0 \<Longrightarrow> seg_w a = seg_w r \<and> seg_w b = - 1"
    using GetReflectRatio_total [of "rel_index c n r"] rel_index_pos [OF assms(2), of c r]
    by (simp add: w(2)) (simp add: w(1) max_def)
  show "0 < delta_at c n r \<Longrightarrow> seg_w b = seg_w r - seg_w a \<and> 0 \<le> seg_w b"
    using le by (simp add: w(2))
qed

text \<open>Both directions are unit vectors; Snell's law is the component along the normal.\<close>

lemma hit_pair_directions:
  assumes c: "crystal_ok c" and r: "hit_ok c r" and "hit_pair c n r out = (a, b)"
  shows "unit_vec (seg_d a)" "unit_vec (seg_d b)"
    "Dot3r (seg_d a) (poly_n c ! to_face r) = - cos_at c r"
    "0 < delta_at c n r \<Longrightarrow> Dot3r (seg_d b) (poly_n c ! to_face r) = sqrt (delta_at c n r) * cos_at c r"
proof -
  let ?N = "poly_n c ! to_face r" and ?k = "cos_at c r" and ?rr = "rel_index c n r" and ?d = "delta_at c n r"
  have f: "to_face r \<noteq> kInvalidId" "Dot3r ?N ?N = 1" "Dot3r (seg_d r) (seg_d r) = 1" "Dot3r (seg_d r) ?N = ?k" "?k \<noteq> 0"
    using r crystal_okD [OF c, of "to_face r"] by (auto simp: hit_ok_def unit_vec_def cos_at_def)
  have ab: "seg_d a = lin 1 (seg_d r) (2 * ?k) ?N"
    "seg_d b = (if ?d \<le> 0 then seg_d a else lin ?rr (seg_d r) ((?rr - sqrt ?d) * ?k) ?N)"
    using assms(3) by (auto simp: hit_pair_eq [OF f(1)] Let_def)
  show a: "unit_vec (seg_d a)" using f by (simp add: ab(1) unit_vec_def Dot3r_lin_lin)
  have kd: "?d * (?k * ?k) = (1 - ?rr * ?rr) + ?rr * ?rr * (?k * ?k)"
    using f(5) by (simp add: delta_at_def distrib_right)
  have "Dot3r (lin ?rr (seg_d r) ((?rr - sqrt ?d) * ?k) ?N) (lin ?rr (seg_d r) ((?rr - sqrt ?d) * ?k) ?N) = 1"
    if "0 < ?d"
  proof -
    have s: "sqrt ?d * sqrt ?d = ?d" using that by simp
    have "Dot3r (lin ?rr (seg_d r) ((?rr - sqrt ?d) * ?k) ?N) (lin ?rr (seg_d r) ((?rr - sqrt ?d) * ?k) ?N)
        = ?rr * ?rr + (?k * ?k) * (sqrt ?d * sqrt ?d - ?rr * ?rr)"
      using f by (simp add: Dot3r_lin_lin algebra_simps)
    also have "\<dots> = 1" using kd unfolding s by (simp add: algebra_simps)
    finally show ?thesis .
  qed
  with a show "unit_vec (seg_d b)" by (simp add: ab(2) unit_vec_def)
  show "Dot3r (seg_d a) ?N = - ?k" using f by (simp add: ab(1) Dot3r_lin)
  show "0 < ?d \<Longrightarrow> Dot3r (seg_d b) ?N = sqrt ?d * ?k"
    using f by (simp add: ab(2) Dot3r_lin) (simp add: algebra_simps)
qed

section \<open>The walk over the faces\<close>

lemma SlabFaceT_eq: "SlabFaceT d p n fd = (if Dot3r d n \<le> kSlabEps then 10 ^ 30 else - (Dot3r p n + fd) / Dot3r d n)"
  by (simp add: SlabFaceT_def Let_def Dot3r_def)

definition face_t :: "CrystalFaces \<Rightarrow> SlabLane \<Rightarrow> nat \<Rightarrow> real" where
  "face_t c s f = SlabFaceT (sl_d s) (sl_p s) (poly_n c ! f) (poly_d c ! f)"

text \<open>The running minimum: what the lane holds after the faces of a list.\<close>

definition lane_best :: "CrystalFaces \<Rightarrow> nat set \<Rightarrow> SlabLane \<Rightarrow> SlabLane \<Rightarrow> bool" where
  "lane_best c F s0 s \<longleftrightarrow> sl_d s = sl_d s0 \<and> sl_p s = sl_p s0 \<and> sl_src_poly s = sl_src_poly s0 \<and>
     sl_outward s = sl_outward s0 \<and> (\<forall>f\<in>F. sl_t_far s \<le> face_t c s0 f) \<and> sl_t_far s \<le> sl_t_far s0 \<and>
     (sl_t_far s = sl_t_far s0 \<and> sl_far_face s = sl_far_face s0 \<or>
      (\<exists>f\<in>F. sl_far_face s = int f \<and> sl_t_far s = face_t c s0 f \<and> sl_t_far s < sl_t_far s0))"

lemma lane_face_best: "lane_best c F s0 s \<Longrightarrow> lane_best c (insert f F) s0 (lane_face c f s)"
  by (auto simp: lane_best_def lane_face_def face_t_def Let_def)

lemma lanes_best: "lane_best c (set fs) s (fold (lane_face c) fs s)"
proof (induction fs rule: rev_induct)
  case Nil
  then show ?case by (simp add: lane_best_def)
next
  case (snoc f fs)
  then show ?case using lane_face_best by simp
qed

lemma nearest_best: "lane_best c {..<PolygonFaceCount c} s (nearest c s)"
  using lanes_best [of c "[0..<PolygonFaceCount c]" s] by (simp add: nearest_def atLeast0LessThan)

text \<open>What a flight may change, and the two ways it ends.\<close>

lemma scatter_fields [simp]:
  "seg_d (scatter_lane s r) = seg_d r" "seg_w (scatter_lane s r) = seg_w r"
  "from_face (scatter_lane s r) = from_face r" "is_continue (scatter_lane s r) = is_continue r"
  "crystal_rot (scatter_lane s r) = crystal_rot r" "prev_ray_idx (scatter_lane s r) = prev_ray_idx r"
  "root_ray_idx (scatter_lane s r) = root_ray_idx r" "crystal_idx (scatter_lane s r) = crystal_idx r"
  "crystal_config_id (scatter_lane s r) = crystal_config_id r"
  by (simp_all add: scatter_lane_def Let_def)

lemma fly_fields [simp]:
  "seg_d (fly c q r) = seg_d r" "seg_w (fly c q r) = seg_w r"
  "from_face (fly c q r) = from_face r" "is_continue (fly c q r) = is_continue r"
  "crystal_rot (fly c q r) = crystal_rot r" "prev_ray_idx (fly c q r) = prev_ray_idx r"
  "root_ray_idx (fly c q r) = root_ray_idx r" "crystal_idx (fly c q r) = crystal_idx r"
  "crystal_config_id (fly c q r) = crystal_config_id r"
  by (simp_all add: fly_def)

definition height :: "CrystalFaces \<Rightarrow> nat \<Rightarrow> real list \<Rightarrow> real" where
  "height c f p = Dot3r p (poly_n c ! f) + poly_d c ! f"

definition flight :: "CrystalFaces \<Rightarrow> real list \<Rightarrow> real list \<Rightarrow> nat \<Rightarrow> real \<Rightarrow> bool" where
  "flight c d p f t \<longleftrightarrow> f < PolygonFaceCount c \<and> kSlabEps < Dot3r d (poly_n c ! f) \<and> t = - height c f p / Dot3r d (poly_n c ! f) \<and>
     (\<forall>g<PolygonFaceCount c. kSlabEps < Dot3r d (poly_n c ! g) \<longrightarrow> t \<le> - height c g p / Dot3r d (poly_n c ! g))"

definition leaves :: "CrystalFaces \<Rightarrow> 'q seg \<Rightarrow> 'q seg \<Rightarrow> bool" where
  "leaves c q r \<longleftrightarrow> to_face q \<noteq> kInvalidId \<and> 0 < Dot3r (seg_d r) (poly_n c ! to_face q)"

lemma fly_cases:
  assumes c: "crystal_ok c" and w: "0 \<le> seg_w r"
  obtains (exit) "to_face (fly c q r) = kInvalidId" "seg_p (fly c q r) = seg_p q"
  | (lands) t where "\<not> leaves c q r" "flight c (seg_d r) (seg_p q) (to_face (fly c q r)) t"
      "seg_p (fly c q r) = map (\<lambda>j. seg_p q ! j + t * seg_d r ! j) [0..<3]" "- kFloatEps < t"
proof -
  define s0 where "s0 = gather_lane c q r"
  define s where "s = nearest c s0"
  have s0: "sl_d s0 = seg_d r" "sl_p s0 = seg_p q" "sl_t_far s0 = 10 ^ 30" "sl_far_face s0 = - 1"
    "sl_outward s0 \<longleftrightarrow> leaves c q r"
    by (simp_all add: s0_def gather_lane_def Let_def leaves_def)
  have best: "lane_best c {..<PolygonFaceCount c} s0 s" by (simp add: s_def nearest_best)
  then have s: "sl_d s = seg_d r" "sl_p s = seg_p q" "sl_outward s \<longleftrightarrow> leaves c q r"
    by (simp_all add: lane_best_def s0)
  have fly: "fly c q r = scatter_lane s r" by (simp add: fly_def s_def s0_def)
  define eps where "eps = (if sl_src_poly s \<ge> 0 \<and> sl_far_face s \<noteq> sl_src_poly s then - kFloatEps else kFloatEps)"
  show thesis
  proof (cases "\<not> leaves c q r \<and> sl_far_face s \<ge> 0 \<and> sl_t_far s > eps")
    case False
    then have "fly c q r = r\<lparr> seg_p := seg_p q, to_face := kInvalidId \<rparr>"
      using w by (auto simp: fly scatter_lane_def s Let_def eps_def)
    then show thesis using exit by simp
  next
    case True
    from best s0 True obtain f where f: "f < PolygonFaceCount c" "sl_far_face s = int f"
        "sl_t_far s = face_t c s0 f" "sl_t_far s < 10 ^ 30"
      by (auto simp: lane_best_def)
    have min: "\<forall>g<PolygonFaceCount c. sl_t_far s \<le> face_t c s0 g" using best by (auto simp: lane_best_def)
    have small: "f < 65536" using crystal_okD(2) [OF c f(1)] by simp
    have eq: "fly c q r = r\<lparr> seg_p := map (\<lambda>j. seg_p q ! j + sl_t_far s * seg_d r ! j) [0..<3], to_face := f \<rparr>"
      using True w f(2) small by (simp add: fly scatter_lane_def s Let_def eps_def)
    have den: "kSlabEps < Dot3r (seg_d r) (poly_n c ! f)"
      using f(3,4) by (auto simp: face_t_def SlabFaceT_eq s0 split: if_splits)
    have "flight c (seg_d r) (seg_p q) f (sl_t_far s)"
      using f(1,3) den min by (auto simp: flight_def face_t_def SlabFaceT_eq s0 height_def)
    moreover have "- kFloatEps < sl_t_far s"
      using True by (auto simp: eps_def kFloatEps_def split: if_splits)
    ultimately show thesis using lands [of "sl_t_far s"] True eq by simp
  qed
qed

lemma fly_leaves: "crystal_ok c \<Longrightarrow> 0 \<le> seg_w r \<Longrightarrow> leaves c q r \<Longrightarrow> to_face (fly c q r) = kInvalidId"
  by (rule fly_cases [of c r q]) auto

text \<open>A flight that starts inside ends on its face and, but for faces it is nearly parallel to, inside.\<close>

definition inside :: "CrystalFaces \<Rightarrow> real list \<Rightarrow> bool" where
  "inside c p \<longleftrightarrow> (\<forall>f<PolygonFaceCount c. height c f p \<le> 0)"

lemma height_along:
  "height c g (map (\<lambda>j. p ! j + t * d ! j) [0..<3]) = height c g p + t * Dot3r d (poly_n c ! g)"
  by (simp add: height_def Dot3r_def upt_3 algebra_simps)

lemma kSlabEps_pos: "0 < kSlabEps"
  by (simp add: kSlabEps_def)

lemma flight_inside:
  assumes f: "flight c d p f t" and p: "inside c p"
  shows "0 \<le> t" "height c f (map (\<lambda>j. p ! j + t * d ! j) [0..<3]) = 0"
    "g < PolygonFaceCount c \<Longrightarrow> Dot3r d (poly_n c ! g) \<le> 0 \<or> kSlabEps < Dot3r d (poly_n c ! g) \<Longrightarrow>
      height c g (map (\<lambda>j. p ! j + t * d ! j) [0..<3]) \<le> 0"
proof -
  have den: "0 < Dot3r d (poly_n c ! f)" using f kSlabEps_pos by (auto simp: flight_def)
  have "height c f p \<le> 0" using f p by (auto simp: flight_def inside_def)
  then show t: "0 \<le> t" using f den by (simp add: flight_def divide_nonpos_pos)
  show "height c f (map (\<lambda>j. p ! j + t * d ! j) [0..<3]) = 0"
    unfolding height_along using f den by (simp add: flight_def)
  assume g: "g < PolygonFaceCount c" and *: "Dot3r d (poly_n c ! g) \<le> 0 \<or> kSlabEps < Dot3r d (poly_n c ! g)"
  have h: "height c g p \<le> 0" using g p by (auto simp: inside_def)
  from * show "height c g (map (\<lambda>j. p ! j + t * d ! j) [0..<3]) \<le> 0"
  proof
    assume "Dot3r d (poly_n c ! g) \<le> 0"
    then show ?thesis using h t by (simp add: height_along add_nonpos_nonpos mult_nonneg_nonpos)
  next
    assume e: "kSlabEps < Dot3r d (poly_n c ! g)"
    then have "t \<le> - height c g p / Dot3r d (poly_n c ! g)" using f g by (auto simp: flight_def)
    moreover have "0 < Dot3r d (poly_n c ! g)" using e kSlabEps_pos by simp
    ultimately have "t * Dot3r d (poly_n c ! g) \<le> - height c g p" by (simp only: pos_le_divide_eq)
    then show ?thesis by (simp add: height_along)
  qed
qed

section \<open>The two children of a hit\<close>

definition children :: "CrystalFaces \<Rightarrow> real \<Rightarrow> 'q seg \<Rightarrow> 'q seg \<times> 'q seg \<Rightarrow> 'q seg \<times> 'q seg" where
  "children c n r out = (let (a, b) = hit_pair c n r out in (fly c r a, fly c r b))"

definition real_seg :: "real seg_float" where
  "real_seg = \<lparr> f_lt0 = (\<lambda>w. w < 0), f_ge0 = (\<lambda>w. 0 \<le> w), f_is_m1 = (\<lambda>w. w = - 1), f_finite = (\<lambda>_. True) \<rparr>"

abbreviation stays :: "'q seg \<Rightarrow> bool" where
  "stays r \<equiv> IsNormal real_seg r"

lemma stays_iff: "stays r \<longleftrightarrow> to_face r \<noteq> kInvalidId \<and> 0 \<le> seg_w r"
  by (simp add: IsNormal_def real_seg_def)

text \<open>A child that stays is on another face, may be traced in its turn, and will hit that face from inside.\<close>

lemma landed_ok:
  assumes c: "crystal_ok c" and r: "unit_vec (seg_d r)" and q: "to_face q \<noteq> kInvalidId" and st: "stays (fly c q r)"
  shows "hit_ok c (fly c q r)" "kSlabEps < cos_at c (fly c q r)" "to_face (fly c q r) \<noteq> to_face q" "\<not> leaves c q r"
proof -
  from st have w: "0 \<le> seg_w r" and face: "to_face (fly c q r) \<noteq> kInvalidId" by (auto simp: stays_iff)
  have "hit_ok c (fly c q r) \<and> kSlabEps < cos_at c (fly c q r) \<and> to_face (fly c q r) \<noteq> to_face q \<and>
      \<not> leaves c q r"
  proof (rule fly_cases [OF c w, of q])
    assume "to_face (fly c q r) = kInvalidId"
    with face show ?thesis by simp
  next
    fix t assume lands: "\<not> leaves c q r" "flight c (seg_d r) (seg_p q) (to_face (fly c q r)) t"

    then have f: "to_face (fly c q r) < PolygonFaceCount c" "kSlabEps < cos_at c (fly c q r)"
      by (auto simp: flight_def cos_at_def)
    moreover have "Dot3r (seg_d r) (poly_n c ! to_face q) \<le> 0" using lands(1) q by (simp add: leaves_def)
    then have "to_face (fly c q r) \<noteq> to_face q" using f(2) kSlabEps_pos by (auto simp: cos_at_def)
    ultimately show ?thesis using lands(1) w r kSlabEps_pos by (simp add: hit_ok_def)
  qed
  then show "hit_ok c (fly c q r)" "kSlabEps < cos_at c (fly c q r)" "to_face (fly c q r) \<noteq> to_face q"
    "\<not> leaves c q r" by simp_all
qed

lemma children_spec:
  assumes c: "crystal_ok c" and n: "0 < n" and r: "hit_ok c r" and ch: "children c n r out = (a, b)"
  shows "stays a \<Longrightarrow> hit_ok c a \<and> kSlabEps < cos_at c a \<and> to_face a \<noteq> to_face r \<and> 0 < cos_at c r"
    "stays b \<Longrightarrow> hit_ok c b \<and> kSlabEps < cos_at c b \<and> to_face b \<noteq> to_face r \<and> cos_at c r < 0"
    "\<not> (stays a \<and> stays b)"
    "max (seg_w a) 0 + max (seg_w b) 0 = seg_w r" "0 \<le> seg_w a"
    "unit_vec (seg_d a)" "unit_vec (seg_d b)"
proof -
  obtain a0 b0 where h: "hit_pair c n r out = (a0, b0)" by (cases "hit_pair c n r out")
  then have ab: "a = fly c r a0" "b = fly c r b0" using ch by (auto simp: children_def)
  have f: "to_face r \<noteq> kInvalidId" "0 \<le> seg_w r" "cos_at c r \<noteq> 0"
    using r crystal_okD(1) [OF c, of "to_face r"] by (auto simp: hit_ok_def)
  note w = hit_pair_weights [OF f(1) n f(2) h]
  note d = hit_pair_directions [OF c r h]
  show ua: "unit_vec (seg_d a)" and ub: "unit_vec (seg_d b)" using d by (simp_all add: ab)
  have la: "leaves c r a0 \<longleftrightarrow> cos_at c r < 0" using f(1) d(3) by (simp add: leaves_def)
  show sa: "stays a \<Longrightarrow> hit_ok c a \<and> kSlabEps < cos_at c a \<and> to_face a \<noteq> to_face r \<and> 0 < cos_at c r"
    using landed_ok [OF c d(1) f(1)] la f(3) by (auto simp: ab)
  show sb: "stays b \<Longrightarrow> hit_ok c b \<and> kSlabEps < cos_at c b \<and> to_face b \<noteq> to_face r \<and> cos_at c r < 0"
  proof -
    assume st: "stays b"
    then have "0 < delta_at c n r" using w(3) by (fastforce simp: ab stays_iff)
    then have lb: "leaves c r b0 \<longleftrightarrow> 0 < cos_at c r" using f(1) d(4) by (simp add: leaves_def zero_less_mult_iff)
    show "hit_ok c b \<and> kSlabEps < cos_at c b \<and> to_face b \<noteq> to_face r \<and> cos_at c r < 0"
      using landed_ok [OF c d(2) f(1)] st lb f(3) by (auto simp: ab)
  qed
  show "\<not> (stays a \<and> stays b)" using sa sb by force
  show "max (seg_w a) 0 + max (seg_w b) 0 = seg_w r" "0 \<le> seg_w a"
    using w by (cases "delta_at c n r \<le> 0"; simp add: ab max_def)+
qed

end
