(* ===== verification/Hit_Loop.thy ===== *)
theory Hit_Loop
  imports Optics Color_Spec Chain_Id_Table
begin

text \<open>
  The hit loop of the CPU driver (\<open>src/core/simulator.cpp\<close>): the pair of ray buffers it plays between,
  the fan-out of every ray into a reflected and a refracted child, the recording of the faces, the gate that
  decides for each child at the surface whether it is filtered out, emitted or handed to the next layer, and
  the packing of the emitted rays.

  \<open>stop_\<close> is not modelled here: a run that is stopped publishes nothing of the wavelength it was tracing.
  The generator is a parameter \<open>uni\<close>, the next uniform number and the next state.
\<close>

section \<open>The code\<close>

type_synonym rseg = "real list seg"
type_synonym rbuf = "rseg RayBuffer"

text \<open>\<open>Rotation::Apply\<close> and \<open>ApplyInverse\<close> on one point, with the row-major matrix.\<close>

definition Rotation_Apply :: "real list \<Rightarrow> real list \<Rightarrow> real list" where
  "Rotation_Apply mat pt = map (\<lambda>k. Dot3r (drop (k * 3) mat) pt) [0..<3]"

definition Rotation_Inverse :: "real list \<Rightarrow> real list" where
  "Rotation_Inverse mat = map (\<lambda>i. mat ! (i mod 3 * 3 + i div 3)) [0..<9]"

definition Rotation_ApplyInverse :: "real list \<Rightarrow> real list \<Rightarrow> real list" where
  "Rotation_ApplyInverse mat pt = Rotation_Apply (Rotation_Inverse mat) pt"

definition ResetHitLoopBuffers :: "rseg \<Rightarrow> nat \<Rightarrow> bool \<Rightarrow> rbuf \<times> rbuf \<Rightarrow> rbuf \<times> rbuf" where
  "ResetHitLoopBuffers ray0 ray_num chain_id_enabled bufs =
     (let b0 = Reset ray0 (ray_num * 2) chain_id_enabled (fst bufs);
          b1 = Reset ray0 (rb_capacity b0 * 2) chain_id_enabled (snd bufs)
      in (b0, b1))"

text \<open>The loop at the end of \<open>TraceRayBasicInfo\<close>: what a child takes over from its parent.\<close>

definition inherit :: "rseg \<Rightarrow> rseg \<Rightarrow> rseg" where
  "inherit q r = r\<lparr> from_face := to_face q, crystal_idx := crystal_idx q, crystal_config_id := crystal_config_id q,
     crystal_rot := crystal_rot q, root_ray_idx := root_ray_idx q \<rparr>"

definition fan_out_one :: "rbuf \<Rightarrow> nat \<Rightarrow> rbuf \<Rightarrow> rbuf option" where
  "fan_out_one b0 i b1 =
     map_option (\<lambda>b1.
        let b1 = ComponentFanOut b0 i (i * 2) (i * 2 + 1) b1;
            b1 = ChainIdFanOut b0 i (i * 2) (i * 2 + 1) b1;
            q = rb_rays b0 ! i
        in put_ray (i * 2 + 1) (inherit q (rb_rays b1 ! (i * 2 + 1))) (put_ray (i * 2) (inherit q (rb_rays b1 ! (i * 2))) b1))
       (RecorderFanOut b0 i (i * 2) (i * 2 + 1) b1)"

fun fan_out_loop :: "rbuf \<Rightarrow> nat list \<Rightarrow> rbuf \<Rightarrow> rbuf option" where
  "fan_out_loop b0 [] b1 = Some b1"
| "fan_out_loop b0 (i # is) b1 = Option.bind (fan_out_one b0 i b1) (fan_out_loop b0 is)"

definition TraceRayBasicInfo :: "CrystalFaces \<Rightarrow> real \<Rightarrow> nat \<Rightarrow> rbuf \<times> rbuf \<Rightarrow> (rbuf \<times> rbuf) option" where
  "TraceRayBasicInfo c n curr_ray_num bufs =
     (let b0 = fst bufs; b1 = snd bufs in
      if curr_ray_num * 2 > rb_capacity b1 then None
      else
        let rays = HitSurface c n curr_ray_num (rb_rays b0) (rb_rays b1);
            rays = Propagate c (curr_ray_num * 2) 2 (rb_rays b0) rays
        in map_option (\<lambda>b1. (b0\<lparr> rb_size := 0 \<rparr>, b1\<lparr> rb_size := curr_ray_num * 2 \<rparr>))
             (fan_out_loop b0 [0..<curr_ray_num] (b1\<lparr> rb_rays := rays \<rparr>)))"

definition FillRayOtherInfo :: "CrystalFaces \<Rightarrow> rbuf \<Rightarrow> rbuf" where
  "FillRayOtherInfo c b1 =
     fold (\<lambda>j b1. let r = rb_rays b1 ! j
                 in if to_face r \<noteq> kInvalidId then RecorderAppend j (GetFn c (to_face r)) b1 else b1)
       [0..<rb_size b1] b1"

text \<open>What one (layer, crystal) entry passes to the loop body.\<close>

record ChainIdLayerContext =
  cc_crystal_id :: nat
  cc_symmetry :: u8
  cc_sigma_a :: int
  cc_d_applicable :: bool
  cc_p_retained :: PRotationSet
  cc_b_applicable :: bool
  cc_fn_period :: int
  cc_geom :: GeometricSymmetry

record HitCtx =
  hc_crystal :: CrystalFaces
  hc_index :: real
  hc_prob :: real
  hc_spec :: "real FilterSpec option"
  hc_groups :: "real ColorSpecGroup list"
  hc_chain :: "ChainIdLayerContext option"
  hc_tally_inv_c :: real

text \<open>\<open>CollectData\<close>: the gate on one ray of the second buffer.\<close>

definition gate_ray ::
  "(real, 'z) float_ops_scheme \<Rightarrow> ('g \<Rightarrow> real \<times> 'g) \<Rightarrow> HitCtx \<Rightarrow> nat \<Rightarrow> 'g \<times> rbuf \<Rightarrow> 'g \<times> rbuf"
where
  "gate_ray fl uni ctx idx st =
     (let (rng, b1) = st;
          r = (rb_rays b1 ! idx)\<lparr> is_continue := False \<rparr>;
          rec = RecorderAt b1 idx;
          world = (\<lambda>r. r\<lparr> seg_d := Rotation_Apply (crystal_rot r) (seg_d r),
                          seg_p := Rotation_Apply (crystal_rot r) (seg_p r) \<rparr>)
      in if seg_w r < 0 then (rng, put_ray idx (world r) b1)
         else if to_face r = kInvalidId then
           let r = world r;
               filter_pass = (case hc_spec ctx of None \<Rightarrow> True | Some spec \<Rightarrow> Check fl spec r rec (rb_overflow_arena b1))
           in if filter_pass then
                let produced = produced_components fl (hc_groups ctx) r rec (rb_overflow_arena b1);
                    b1 = (if produced \<noteq> 0 then SetComponent idx (ComponentAt b1 idx OR produced) b1 else b1);
                    (u, rng) = uni rng
                in (rng, put_ray idx (if u < hc_prob ctx then r\<lparr> is_continue := True \<rparr> else r) b1)
              else (rng, put_ray idx (r\<lparr> seg_w := - 1 \<rparr>) b1)
         else (rng, put_ray idx r b1))"

text \<open>The hand-over of one ray to another buffer, with its mask and, in analysis mode, its chain id.\<close>

definition hand_ray :: "rbuf \<Rightarrow> nat \<Rightarrow> rbuf \<Rightarrow> rbuf option" where
  "hand_ray b1 idx b =
     (let dst_idx = rb_size b
      in map_option (\<lambda>b. if rb_size b > dst_idx then
             let b = SetComponent dst_idx (ComponentAt b1 idx) b
             in if HasChainIds b1 then SetChainId dst_idx (ChainIdAt b1 idx) b else b
           else b)
         (EmplaceBack_arena (rb_rays b1 ! idx) (RecorderAt b1 idx) b1 b))"

definition collect_one ::
  "(real, 'z) float_ops_scheme \<Rightarrow> ('g \<Rightarrow> real \<times> 'g) \<Rightarrow> HitCtx \<Rightarrow> nat \<Rightarrow> 'g \<times> rbuf \<times> rbuf \<times> rbuf \<Rightarrow>
     ('g \<times> rbuf \<times> rbuf \<times> rbuf) option"
where
  "collect_one fl uni ctx idx st =
     (case st of (rng, b0, b1, nxt) \<Rightarrow>
      case gate_ray fl uni ctx idx (rng, b1) of (rng, b1) \<Rightarrow>
        let r = rb_rays b1 ! idx
        in Option.bind (if IsNormal real_seg r then hand_ray b1 idx b0 else Some b0) (\<lambda>b0.
           Option.bind (if IsContinue r then hand_ray b1 idx nxt else Some nxt) (\<lambda>nxt. Some (rng, b0, b1, nxt))))"

fun collect_loop ::
  "(real, 'z) float_ops_scheme \<Rightarrow> ('g \<Rightarrow> real \<times> 'g) \<Rightarrow> HitCtx \<Rightarrow> nat list \<Rightarrow> 'g \<times> rbuf \<times> rbuf \<times> rbuf \<Rightarrow>
     ('g \<times> rbuf \<times> rbuf \<times> rbuf) option"
where
  "collect_loop fl uni ctx [] st = Some st"
| "collect_loop fl uni ctx (idx # is) st = Option.bind (collect_one fl uni ctx idx st) (collect_loop fl uni ctx is)"

definition CollectData ::
  "(real, 'z) float_ops_scheme \<Rightarrow> ('g \<Rightarrow> real \<times> 'g) \<Rightarrow> HitCtx \<Rightarrow> 'g \<times> rbuf \<times> rbuf \<times> rbuf \<Rightarrow>
     ('g \<times> rbuf \<times> rbuf \<times> rbuf) option"
where
  "CollectData fl uni ctx st = (case st of (rng, b0, b1, nxt) \<Rightarrow> collect_loop fl uni ctx [0..<rb_size b1] st)"

definition MakeChainIdLayerContext ::
  "('f, 'z) float_ops_scheme \<Rightarrow> int \<Rightarrow> GeometricSymmetry \<Rightarrow> nat \<Rightarrow> 'f AxisDistribution \<Rightarrow> u8 \<Rightarrow> ChainIdLayerContext"
where
  "MakeChainIdLayerContext fl fn_period geom crystal_id axis symmetry =
     (let d_params = DeriveDSymmetryParams fl axis; gating = DeriveSymmetryGating fl kPhysical geom axis
      in \<lparr> cc_crystal_id = crystal_id, cc_symmetry = symmetry, cc_sigma_a = ds_sigma_a d_params,
           cc_d_applicable = ds_d_applicable d_params, cc_p_retained = sg_p_retained gating,
           cc_b_applicable = sg_b_applicable gating, cc_fn_period = fn_period, cc_geom = geom \<rparr>)"

definition InternRayChainId ::
  "ChainIdLayerContext \<Rightarrow> rbuf \<Rightarrow> nat \<Rightarrow> ChainIdInterningTable \<Rightarrow> nat \<times> ChainIdInterningTable" where
  "InternRayChainId cc buf idx table =
     (let seg = take (rec_size (RecorderAt buf idx)) (RecorderDataPtr buf idx);
          seg = ReduceRaypathByPeriod seg (cc_symmetry cc) (cc_sigma_a cc) (cc_d_applicable cc) (cc_p_retained cc)
            (cc_b_applicable cc) (cc_fn_period cc) (cc_geom cc)
      in Intern (unat (ChainIdAt buf idx)) (cc_crystal_id cc) seg table)"

text \<open>One pass of the hit loop, and the loop.\<close>

record 'g HitState =
  hs_rng :: 'g
  hs_in :: rbuf
  hs_out :: rbuf
  hs_next :: rbuf
  hs_all :: rbuf
  hs_table :: ChainIdInterningTable
  hs_outgoing_d :: "real list"
  hs_outgoing_w :: "real list"
  hs_outgoing_component :: "u64 list"
  hs_outgoing_chain_id :: "nat list"
  hs_tally :: "(real \<times> real) option"

definition intern_carried :: "ChainIdLayerContext \<Rightarrow> nat \<Rightarrow> rbuf \<times> ChainIdInterningTable \<Rightarrow> rbuf \<times> ChainIdInterningTable" where
  "intern_carried cc j st =
     (let (i, table) = InternRayChainId cc (fst st) j (snd st) in (SetChainId j (of_nat i) (fst st), table))"

text \<open>The tally is \<open>sum_w\<close> and \<open>sum_w2\<close> of the entry, or a null pointer.\<close>

definition add_tally :: "real \<Rightarrow> (real \<times> real) option \<Rightarrow> (real \<times> real) option" where
  "add_tally w tally = map_option (\<lambda>(sum_w, sum_w2). (sum_w + w, sum_w2 + w * w)) tally"

definition emit_one :: "HitCtx \<Rightarrow> nat \<Rightarrow> 'g HitState \<Rightarrow> 'g HitState" where
  "emit_one ctx j s =
     (let r = rb_rays (hs_out s) ! j
      in if IsOutgoing real_seg r then
           let s = s\<lparr> hs_outgoing_d := hs_outgoing_d s @ [seg_d r ! 0, seg_d r ! 1, seg_d r ! 2],
                      hs_outgoing_w := hs_outgoing_w s @ [seg_w r],
                      hs_tally := add_tally (seg_w r * hc_tally_inv_c ctx) (hs_tally s),
                      hs_outgoing_component := hs_outgoing_component s @ [ComponentAt (hs_out s) j] \<rparr>
           in case hc_chain ctx of None \<Rightarrow> s
              | Some cc \<Rightarrow> let (i, table) = InternRayChainId cc (hs_out s) j (hs_table s)
                  in s\<lparr> hs_table := table, hs_outgoing_chain_id := hs_outgoing_chain_id s @ [i] \<rparr>
         else s)"

definition hit_once ::
  "(real, 'z) float_ops_scheme \<Rightarrow> ('g \<Rightarrow> real \<times> 'g) \<Rightarrow> HitCtx \<Rightarrow> 'g HitState \<Rightarrow> 'g HitState option"
where
  "hit_once fl uni ctx s =
     Option.bind (TraceRayBasicInfo (hc_crystal ctx) (hc_index ctx) (rb_size (hs_in s)) (hs_in s, hs_out s)) (\<lambda>(b0, b1).
     let b1 = FillRayOtherInfo (hc_crystal ctx) b1; continue_begin = rb_size (hs_next s)
     in Option.bind (CollectData fl uni ctx (hs_rng s, b0, b1, hs_next s)) (\<lambda>(rng, b0, b1, nxt).
        let (nxt, table) = (case hc_chain ctx of None \<Rightarrow> (nxt, hs_table s)
              | Some cc \<Rightarrow> fold (intern_carried cc) [continue_begin..<rb_size nxt] (nxt, hs_table s))
        in map_option (\<lambda>all.
             fold (emit_one ctx) [0..<rb_size b1]
               (s\<lparr> hs_rng := rng, hs_in := b0, hs_out := b1, hs_next := nxt, hs_all := all, hs_table := table \<rparr>))
             (EmplaceBack_buffer b1 0 (2 ^ 64 - 1) (hs_all s))))"

fun hit_loop ::
  "(real, 'z) float_ops_scheme \<Rightarrow> ('g \<Rightarrow> real \<times> 'g) \<Rightarrow> HitCtx \<Rightarrow> nat \<Rightarrow> 'g HitState \<Rightarrow> 'g HitState option"
where
  "hit_loop fl uni ctx 0 s = Some s"
| "hit_loop fl uni ctx (Suc k) s = Option.bind (hit_once fl uni ctx s) (hit_loop fl uni ctx k)"

section \<open>The new rays of a hit\<close>

lemma HitSurface_nth:
  assumes "2 * num \<le> length outs"
  shows "length (HitSurface c n num ins outs) = length outs \<and>
    (\<forall>i<num. HitSurface c n num ins outs ! (2 * i) = fst (hit_pair c n (ins ! i) (outs ! (2 * i), outs ! (2 * i + 1))) \<and>
      HitSurface c n num ins outs ! (2 * i + 1) = snd (hit_pair c n (ins ! i) (outs ! (2 * i), outs ! (2 * i + 1)))) \<and>
    (\<forall>j\<ge>2 * num. HitSurface c n num ins outs ! j = outs ! j)"
  using assms
proof (induction num)
  case 0
  then show ?case by (simp add: HitSurface_def)
next
  case (Suc num)
  let ?H = "HitSurface c n num ins outs"
  obtain a b where ab: "hit_pair c n (ins ! num) (outs ! (2 * num), outs ! (2 * num + 1)) = (a, b)"
    by (cases "hit_pair c n (ins ! num) (outs ! (2 * num), outs ! (2 * num + 1))")
  have IH: "length ?H = length outs"
    "\<And>i. i < num \<Longrightarrow> ?H ! (2 * i) = fst (hit_pair c n (ins ! i) (outs ! (2 * i), outs ! (2 * i + 1)))"
    "\<And>i. i < num \<Longrightarrow> ?H ! (2 * i + 1) = snd (hit_pair c n (ins ! i) (outs ! (2 * i), outs ! (2 * i + 1)))"
    "\<And>j. 2 * num \<le> j \<Longrightarrow> ?H ! j = outs ! j"
    using Suc by auto
  have eq: "HitSurface c n (Suc num) ins outs = (?H[2 * num := a])[2 * num + 1 := b]"
    using ab IH(4) [of "2 * num"] IH(4) [of "2 * num + 1"] by (simp add: HitSurface_def)
  have odd: "2 * i \<noteq> 2 * k + 1" "2 * k + 1 \<noteq> 2 * i" for i k :: nat by presburger+
  show ?case
    using Suc.prems IH ab by (auto simp: eq nth_list_update less_Suc_eq odd simp del: One_nat_def)
qed

text \<open>Slot \<open>j\<close> of the second buffer after the kernels: a child of ray \<open>j div 2\<close>.\<close>

definition child :: "CrystalFaces \<Rightarrow> real \<Rightarrow> rseg \<Rightarrow> rseg \<times> rseg \<Rightarrow> nat \<Rightarrow> rseg" where
  "child c n q out k = (let (a, b) = children c n q out in if k = 0 then a else b)"

definition slot_pair :: "rseg list \<Rightarrow> nat \<Rightarrow> rseg \<times> rseg" where
  "slot_pair rays i = (rays ! (2 * i), rays ! (2 * i + 1))"

lemma traced_rays:
  assumes "2 * num \<le> length outs" and rays: "rays = Propagate c (num * 2) 2 ins (HitSurface c n num ins outs)"
  shows "length rays = length outs"
    "j < 2 * num \<Longrightarrow> rays ! j = child c n (ins ! (j div 2)) (slot_pair outs (j div 2)) (j mod 2)"
proof -
  note H = HitSurface_nth [OF assms(1), of c n ins]
  have "(2 :: nat) dvd kMaxSlabRays" by (simp add: kMaxSlabRays_def)
  then have eq: "rays = fly_all c (num * 2) 2 ins (HitSurface c n num ins outs)"
    unfolding rays using assms(1) H by (intro Propagate_eq) simp_all
  show "length rays = length outs" using assms(1) H by (simp add: eq fly_all_length mult.commute)
  assume j: "j < 2 * num"
  define i where "i = j div 2"
  have i: "i < num" using j by (simp add: i_def)
  have "rays ! j = fly c (ins ! i) (HitSurface c n num ins outs ! j)"
    using j by (simp add: eq fly_all_def nth_append i_def)
  moreover have "j = 2 * i \<and> j mod 2 = 0 \<or> j = 2 * i + 1 \<and> j mod 2 = 1" unfolding i_def by presburger
  ultimately show "rays ! j = child c n (ins ! (j div 2)) (slot_pair outs (j div 2)) (j mod 2)"
    using H i by (auto simp: child_def children_def slot_pair_def i_def [symmetric] split_def Let_def)
qed

section \<open>The fan-out\<close>

text \<open>What the buffer operations leave alone, whatever the arena holds.\<close>

definition frame :: "nat \<Rightarrow> 'r RayBuffer \<Rightarrow> 'r RayBuffer \<Rightarrow> bool" where
  "frame k b b' \<longleftrightarrow> same_columns b b' \<and> rb_capacity b' = rb_capacity b \<and> rb_size b' = rb_size b \<and>
     rb_overflow_used b' \<le> rb_overflow_used b + k"

lemma frame_trans: "frame k b b' \<Longrightarrow> frame m b' b'' \<Longrightarrow> frame (k + m) b b''"
  by (auto simp: frame_def same_columns_def)

lemma rb_frame_refl [simp]: "frame k b b"
  by (simp add: frame_def same_columns_def)

lemma frame_put_recorder [simp]: "frame 0 b (put_recorder i r b)"
  by (simp add: frame_def same_columns_def put_recorder_def)

lemma Alloc_frame: "AllocOverflowSlot b = (s, b') \<Longrightarrow> frame 1 b b'"
  by (auto simp: AllocOverflowSlot_def Let_def frame_def same_columns_def)

lemma frame_slot [simp]: "frame k b (put_slot s x b') = frame k b b'" "frame k b (put_recorder i r b') = frame k b b'"
  by (simp_all add: frame_def same_columns_def put_slot_def put_recorder_def)

lemma Dup_frame: "DupOverflowSlot src d b = Some b' \<Longrightarrow> frame 1 b b'"
  by (auto simp: DupOverflowSlot_def Let_def simp del: One_nat_def dest: Alloc_frame split: if_splits prod.splits)

lemma FanOut_frame: "RecorderFanOut src k d0 d1 b = Some b' \<Longrightarrow> frame 2 b b'"
proof -
  assume *: "RecorderFanOut src k d0 d1 b = Some b'"
  let ?b = "put_recorder d1 (rb_recorders src ! k) (put_recorder d0 (rb_recorders src ! k) b)"
  have b: "frame 0 b ?b" by simp
  from * have "b' = ?b \<or> (\<exists>b1. DupOverflowSlot src d0 ?b = Some b1 \<and> DupOverflowSlot src d1 b1 = Some b')"
    by (auto simp: RecorderFanOut_def Let_def bind_eq_Some_conv split: if_splits)
  then have "frame 2 ?b b'"
  proof (elim disjE exE conjE)
    fix b1 assume d: "DupOverflowSlot src d0 ?b = Some b1" "DupOverflowSlot src d1 b1 = Some b'"
    show ?thesis using frame_trans [OF Dup_frame [OF d(1)] Dup_frame [OF d(2)]] by (simp only: one_add_one)
  qed simp
  from frame_trans [OF b this] show ?thesis by (simp only: add_0)
qed

lemma Append_frame: "frame 1 b (RecorderAppend i f b)"
  by (auto simp: RecorderAppend_def Let_def simp del: One_nat_def dest: Alloc_frame split: prod.split)

text \<open>One ray: its two children carry its path, mask and chain id.\<close>

lemma fan_out_one_spec:
  assumes src: "live_ok b0" "i < rb_size b0" and b: "buffer_ok b live" "columns_ok b" "live \<subseteq> {..<i * 2}"
    and cap: "i * 2 + 1 < rb_capacity b" and room: "rb_overflow_used b + 1 < 0xFFFE"
    and chain: "HasChainIds b0 = HasChainIds b"
  shows "\<exists>b'. fan_out_one b0 i b = Some b' \<and> buffer_ok b' (insert (i * 2 + 1) (insert (i * 2) live)) \<and> columns_ok b' \<and>
      rb_capacity b' = rb_capacity b \<and> rb_size b' = rb_size b \<and> HasChainIds b' = HasChainIds b \<and>
      rb_overflow_used b' \<le> rb_overflow_used b + 2 \<and>
      (\<forall>j. j \<noteq> i * 2 \<and> j \<noteq> i * 2 + 1 \<longrightarrow> rb_rays b' ! j = rb_rays b ! j) \<and>
      (\<forall>j. j = i * 2 \<or> j = i * 2 + 1 \<longrightarrow> ray_view b' j
         = (inherit (rb_rays b0 ! i) (rb_rays b ! j), path_of b0 i, rb_components b0 ! i, chain_at b0 i)) \<and>
      (\<forall>j\<in>live. ray_view b' j = ray_view b j)"
proof -
  let ?d = "i * 2" and ?e = "i * 2 + 1" and ?q = "rb_rays b0 ! i"
  from src have b0: "buffer_ok b0 {..<rb_size b0}" "columns_ok b0" by (auto simp: live_ok_def)
  have "?d < rb_capacity b" "?d \<noteq> ?e" "i \<in> {..<rb_size b0}" using cap src(2) by auto
  from RecorderFanOut_spec [OF b0(1) this(3) b(1) this(1) cap this(2) room] obtain b1
    where b1: "RecorderFanOut b0 i ?d ?e b = Some b1" "buffer_ok b1 (insert ?e (insert ?d live))"
      "path_of b1 ?d = path_of b0 i" "path_of b1 ?e = path_of b0 i"
      "\<forall>j\<in>live. j \<noteq> ?d \<and> j \<noteq> ?e \<longrightarrow> path_of b1 j = path_of b j"
    by blast
  have fr: "frame 2 b b1" by (rule FanOut_frame [OF b1(1)])
  define b2 where "b2 = ChainIdFanOut b0 i ?d ?e (ComponentFanOut b0 i ?d ?e b1)"
  define b' where "b' = put_ray ?e (inherit ?q (rb_rays b2 ! ?e)) (put_ray ?d (inherit ?q (rb_rays b2 ! ?d)) b2)"
  have eq: "fan_out_one b0 i b = Some b'"
    by (simp only: fan_out_one_def b1(1) option.map Let_def b2_def b'_def)
  have st: "same_store b1 b'"
    by (auto simp: same_store_def b'_def b2_def put_ray_def ChainIdFanOut_def ComponentFanOut_def Let_def
        split: option.split)
  have rays: "rb_rays b' = ((rb_rays b)[?d := inherit ?q (rb_rays b ! ?d)])[?e := inherit ?q (rb_rays b ! ?e)]"
    using fr by (auto simp: b'_def b2_def put_ray_def ChainIdFanOut_def ComponentFanOut_def Let_def frame_def
        same_columns_def split: option.split)
  have comps: "rb_components b' = ((rb_components b)[?d := rb_components b0 ! i])[?e := rb_components b0 ! i]"
    using fr by (auto simp: b'_def b2_def put_ray_def ChainIdFanOut_def ComponentFanOut_def Let_def frame_def
        same_columns_def split: option.split)
  have chains: "rb_chain_ids b' = map_option (\<lambda>c. (c[?d := the (chain_at b0 i)])[?e := the (chain_at b0 i)]) (rb_chain_ids b)"
    using fr chain by (auto simp: b'_def b2_def put_ray_def ChainIdFanOut_def ComponentFanOut_def Let_def frame_def
        same_columns_def HasChainIds_def chain_at_def split: option.split)
  have size: "rb_capacity b' = rb_capacity b" "rb_size b' = rb_size b" "rb_overflow_used b' \<le> rb_overflow_used b + 2"
    using fr st by (auto simp: frame_def same_store_def b'_def b2_def put_ray_def ChainIdFanOut_def ComponentFanOut_def
        Let_def split: option.split)
  have path: "path_of b' j = path_of b1 j" for j by (rule same_store_path [OF st])
  have len: "length (rb_rays b) = rb_capacity b" "length (rb_components b) = rb_capacity b"
    "\<And>c. rb_chain_ids b = Some c \<Longrightarrow> length c = rb_capacity b" "rb_size b \<le> rb_capacity b"
    using b(2) by (auto simp: columns_ok_def)
  have "columns_ok b'" using len by (auto simp: columns_ok_def rays comps chains size split: option.split)
  moreover have hc: "HasChainIds b' = HasChainIds b" by (simp add: HasChainIds_def chains)
  moreover have "\<forall>j. j \<noteq> ?d \<and> j \<noteq> ?e \<longrightarrow> rb_rays b' ! j = rb_rays b ! j" by (simp add: rays)
  moreover have "chain_at b' j = chain_at b0 i" if "j = ?d \<or> j = ?e" for j
    using that chain cap len(3) by (auto simp: chain_at_def chains HasChainIds_def split: option.split)
  then have "\<forall>j. j = ?d \<or> j = ?e \<longrightarrow> ray_view b' j
      = (inherit ?q (rb_rays b ! j), path_of b0 i, rb_components b0 ! i, chain_at b0 i)"
    using b1(3,4) cap len by (auto simp: ray_view_def path rays comps)
  moreover have "ray_view b' j = ray_view b j" if "j \<in> live" for j
  proof -
    have "j < ?d" using that b(3) by auto
    then show ?thesis using that b1(5)
      by (auto simp: ray_view_def path rays comps chain_at_def chains option.map_comp comp_def cong: option.map_cong)
  qed
  ultimately show ?thesis using eq b1(2) size by (simp add: same_store_ok [OF st])
qed

lemma fan_out_loop_append:
  "fan_out_loop b0 (xs @ ys) b = Option.bind (fan_out_loop b0 xs b) (fan_out_loop b0 ys)"
  by (induction xs arbitrary: b) (simp_all split: Option.bind_split)

lemma fan_out_loop_spec:
  assumes src: "live_ok b0" and b: "buffer_ok b {}" "columns_ok b" and chain: "HasChainIds b0 = HasChainIds b"
  shows "n \<le> rb_size b0 \<Longrightarrow> n * 2 \<le> rb_capacity b \<Longrightarrow> rb_overflow_used b + n * 2 \<le> 0xFFFE \<Longrightarrow>
    \<exists>b'. fan_out_loop b0 [0..<n] b = Some b' \<and> buffer_ok b' {..<n * 2} \<and> columns_ok b' \<and>
      rb_capacity b' = rb_capacity b \<and> rb_size b' = rb_size b \<and> HasChainIds b' = HasChainIds b \<and>
      rb_overflow_used b' \<le> rb_overflow_used b + n * 2 \<and>
      (\<forall>j\<ge>n * 2. rb_rays b' ! j = rb_rays b ! j) \<and>
      (\<forall>j<n * 2. ray_view b' j = (inherit (rb_rays b0 ! (j div 2)) (rb_rays b ! j), path_of b0 (j div 2),
         rb_components b0 ! (j div 2), chain_at b0 (j div 2)))"
proof (induction n)
  case 0
  then show ?case using b by simp
next
  case (Suc n)
  then obtain b1 where b1: "fan_out_loop b0 [0..<n] b = Some b1" "buffer_ok b1 {..<n * 2}" "columns_ok b1"
      "rb_capacity b1 = rb_capacity b" "rb_size b1 = rb_size b" "HasChainIds b1 = HasChainIds b"
      "rb_overflow_used b1 \<le> rb_overflow_used b + n * 2"
      "\<forall>j\<ge>n * 2. rb_rays b1 ! j = rb_rays b ! j"
      "\<forall>j<n * 2. ray_view b1 j = (inherit (rb_rays b0 ! (j div 2)) (rb_rays b ! j), path_of b0 (j div 2),
         rb_components b0 ! (j div 2), chain_at b0 (j div 2))"
    by auto
  have pre: "n < rb_size b0" "n * 2 + 1 < rb_capacity b1" "rb_overflow_used b1 + 1 < 0xFFFE"
    "HasChainIds b0 = HasChainIds b1"
    using Suc.prems b1 chain by auto
  obtain b2 where b2: "fan_out_one b0 n b1 = Some b2" "buffer_ok b2 (insert (n * 2 + 1) (insert (n * 2) {..<n * 2}))"
      "columns_ok b2" "rb_capacity b2 = rb_capacity b1" "rb_size b2 = rb_size b1" "HasChainIds b2 = HasChainIds b1"
      "rb_overflow_used b2 \<le> rb_overflow_used b1 + 2"
      "\<forall>j. j \<noteq> n * 2 \<and> j \<noteq> n * 2 + 1 \<longrightarrow> rb_rays b2 ! j = rb_rays b1 ! j"
      "\<forall>j. j = n * 2 \<or> j = n * 2 + 1 \<longrightarrow> ray_view b2 j
         = (inherit (rb_rays b0 ! n) (rb_rays b1 ! j), path_of b0 n, rb_components b0 ! n, chain_at b0 n)"
      "\<forall>j\<in>{..<n * 2}. ray_view b2 j = ray_view b1 j"
    using fan_out_one_spec [OF src pre(1) b1(2,3) _ pre(2-4)] by blast
  have "{..<Suc n * 2} = insert (n * 2 + 1) (insert (n * 2) {..<n * 2})" by auto
  moreover have "ray_view b2 j = (inherit (rb_rays b0 ! (j div 2)) (rb_rays b ! j), path_of b0 (j div 2),
      rb_components b0 ! (j div 2), chain_at b0 (j div 2))" if "j < Suc n * 2" for j
  proof (cases "j < n * 2")
    case True
    then show ?thesis using b1(9) b2(10) by simp
  next
    case False
    then have "j = n * 2 \<or> j = n * 2 + 1" "j div 2 = n" using that by auto
    then show ?thesis using b2(9) b1(8) by auto
  qed
  ultimately show ?case using b1 b2 by (simp add: fan_out_loop_append)
qed

section \<open>Tracing and recording, on the list of rays\<close>

type_synonym entry = "rseg \<times> nat list \<times> u64 \<times> u32 option"

definition born :: "CrystalFaces \<Rightarrow> real \<Rightarrow> rseg \<times> rseg \<Rightarrow> nat \<Rightarrow> entry \<Rightarrow> entry" where
  "born c n out k e = (case e of (q, p, m, ch) \<Rightarrow> (inherit q (child c n q out k), p, m, ch))"

lemma TraceRayBasicInfo_spec:
  assumes b0: "live_ok b0" and b1: "live_ok b1" and cap: "2 * rb_size b0 \<le> rb_capacity b1"
    and room: "rb_overflow_used b1 + 2 * rb_size b0 \<le> 0xFFFE" and chain: "HasChainIds b0 = HasChainIds b1"
  shows "\<exists>b'. TraceRayBasicInfo c n (rb_size b0) (b0, b1) = Some (b0\<lparr> rb_size := 0 \<rparr>, b') \<and> live_ok b' \<and>
      view b' = map (\<lambda>j. born c n (slot_pair (rb_rays b1) (j div 2)) (j mod 2) (view b0 ! (j div 2))) [0..<2 * rb_size b0] \<and>
      rb_capacity b' = rb_capacity b1 \<and> HasChainIds b' = HasChainIds b1 \<and>
      rb_overflow_used b' \<le> rb_overflow_used b1 + 2 * rb_size b0"
proof -
  let ?n = "rb_size b0"
  define rays where "rays = Propagate c (?n * 2) 2 (rb_rays b0) (HitSurface c n ?n (rb_rays b0) (rb_rays b1))"
  define b where "b = b1\<lparr> rb_rays := rays \<rparr>"
  have len: "2 * ?n \<le> length (rb_rays b1)" using b1 cap by (simp add: live_ok_def columns_ok_def)
  note R = traced_rays [OF len rays_def]
  have st: "same_store b1 b" by (simp add: same_store_def b_def)
  have "buffer_ok b {}" using b1 buffer_ok_mono by (auto simp: live_ok_def same_store_ok [OF st])
  moreover have "columns_ok b" using b1 R(1) by (auto simp: live_ok_def columns_ok_def b_def split: option.splits)
  moreover have bb: "HasChainIds b = HasChainIds b1" "rb_capacity b = rb_capacity b1"
    "rb_overflow_used b = rb_overflow_used b1" "rb_rays b = rays"
    by (simp_all add: b_def HasChainIds_def)
  ultimately obtain b2 where b2: "fan_out_loop b0 [0..<?n] b = Some b2" "buffer_ok b2 {..<?n * 2}" "columns_ok b2"
      "rb_capacity b2 = rb_capacity b" "HasChainIds b2 = HasChainIds b"
      "rb_overflow_used b2 \<le> rb_overflow_used b + ?n * 2"
      "\<forall>j<?n * 2. ray_view b2 j = (inherit (rb_rays b0 ! (j div 2)) (rb_rays b ! j), path_of b0 (j div 2),
         rb_components b0 ! (j div 2), chain_at b0 (j div 2))"
    using fan_out_loop_spec [OF b0, of b ?n] cap room chain by auto
  define b' where "b' = b2\<lparr> rb_size := ?n * 2 \<rparr>"
  have st': "same_store b2 b'" by (simp add: same_store_def b'_def)
  have rv: "ray_view b' j = ray_view b2 j" for j
    by (simp add: ray_view_def same_store_path [OF st']) (simp add: b'_def chain_at_def)
  have "TraceRayBasicInfo c n ?n (b0, b1) = Some (b0\<lparr> rb_size := 0 \<rparr>, b')"
    using cap b2(1) by (simp add: TraceRayBasicInfo_def Let_def rays_def [symmetric] b_def [symmetric] b'_def)
  moreover have "live_ok b'"
    using b2(2,3,4) bb cap unfolding live_ok_def same_store_ok [OF st']
    by (auto simp: columns_ok_def b'_def split: option.splits)
  moreover have "ray_view b' j = born c n (slot_pair (rb_rays b1) (j div 2)) (j mod 2) (view b0 ! (j div 2))"
    if "j < 2 * ?n" for j
    using that b2(7) R(2) [OF that] bb unfolding rv
    by (simp add: born_def view_def ray_view_def less_mult_imp_div_less mult.commute)
  then have "view b' = map (\<lambda>j. born c n (slot_pair (rb_rays b1) (j div 2)) (j mod 2) (view b0 ! (j div 2))) [0..<2 * ?n]"
    by (simp add: view_def [of b']) (simp add: b'_def mult.commute)
  moreover have "rb_capacity b' = rb_capacity b1" "HasChainIds b' = HasChainIds b1"
    "rb_overflow_used b' \<le> rb_overflow_used b1 + 2 * ?n"
    using b2 bb by (auto simp: b'_def HasChainIds_def)
  ultimately show ?thesis by blast
qed

definition note_face :: "CrystalFaces \<Rightarrow> entry \<Rightarrow> entry" where
  "note_face c e = (case e of (r, p, m, ch) \<Rightarrow>
     (r, if to_face r \<noteq> kInvalidId then take kMaxHits (p @ [GetFn c (to_face r) mod 256]) else p, m, ch))"

lemma view_nth: "i < rb_size b \<Longrightarrow> view b ! i = ray_view b i"
  by (simp add: view_def)

lemma view_length [simp]: "length (view b) = rb_size b"
  by (simp add: view_def)

lemma append_live:
  assumes b: "live_ok b" and j: "j < rb_size b" and room: "rb_overflow_used b < 0xFFFE"
  shows "live_ok (RecorderAppend j f b)" "frame 1 b (RecorderAppend j f b)"
    "view (RecorderAppend j f b) = (view b)[j := (rb_rays b ! j, take kMaxHits (path_of b j @ [f mod 256]),
        rb_components b ! j, chain_at b j)]"
proof -
  let ?b = "RecorderAppend j f b"
  show fr: "frame 1 b ?b" by (rule Append_frame)
  from b have ok: "buffer_ok b {..<rb_size b}" by (simp add: live_ok_def)
  have jj: "j \<in> {..<rb_size b}" using j by simp
  note A = RecorderAppend_spec [OF ok jj room, where fn = f]
  show "live_ok ?b" using A(1) fr b
    by (auto simp: live_ok_def columns_ok_def frame_def same_columns_def split: option.splits)
  show "view ?b = (view b)[j := (rb_rays b ! j, take kMaxHits (path_of b j @ [f mod 256]), rb_components b ! j, chain_at b j)]"
  proof (rule nth_equalityI)
    show "length (view ?b) = length ((view b)[j := (rb_rays b ! j, take kMaxHits (path_of b j @ [f mod 256]),
        rb_components b ! j, chain_at b j)])"
      using fr by (simp add: frame_def)
    show "view ?b ! i = (view b)[j := (rb_rays b ! j, take kMaxHits (path_of b j @ [f mod 256]), rb_components b ! j, chain_at b j)] ! i"
      if "i < length (view ?b)" for i
      using that fr j A(2) A(3) [of i]
      by (auto simp: view_nth frame_def nth_list_update ray_view_def same_columns_def chain_at_def)
  qed
qed

lemma FillRayOtherInfo_spec:
  assumes b: "live_ok b" and room: "rb_overflow_used b + rb_size b \<le> 0xFFFE"
  shows "live_ok (FillRayOtherInfo c b)" "view (FillRayOtherInfo c b) = map (note_face c) (view b)"
    "frame (rb_size b) b (FillRayOtherInfo c b)"
proof -
  let ?step = "\<lambda>j b1. let r = rb_rays b1 ! j
      in if to_face r \<noteq> kInvalidId then RecorderAppend j (GetFn c (to_face r)) b1 else b1"
  have "live_ok (fold ?step [0..<k] b) \<and> frame k b (fold ?step [0..<k] b) \<and>
      view (fold ?step [0..<k] b) = map (note_face c) (take k (view b)) @ drop k (view b)" if "k \<le> rb_size b" for k
    using that
  proof (induction k)
    case 0
    then show ?case using b by simp
  next
    case (Suc k)
    let ?b = "fold ?step [0..<k] b"
    have IH: "live_ok ?b" "frame k b ?b" "view ?b = map (note_face c) (take k (view b)) @ drop k (view b)"
      using Suc by auto
    have k: "k < rb_size ?b" "rb_overflow_used ?b < 0xFFFE" "k < rb_size b"
      using IH(2) Suc.prems room by (auto simp: frame_def)
    have split: "take (Suc k) (view b) = take k (view b) @ [view b ! k]" "drop k (view b) = view b ! k # drop (Suc k) (view b)"
      using k(3) by (simp_all add: take_Suc_conv_app_nth Cons_nth_drop_Suc)
    have at: "view b ! k = ray_view ?b k"
      using view_nth [OF k(1)] k(3) unfolding IH(3) by (simp add: nth_append)
    have step: "fold ?step [0..<Suc k] b = ?step k ?b" by simp
    show ?case
    proof (cases "to_face (rb_rays ?b ! k) = kInvalidId")
      case True
      then have "note_face c (view b ! k) = view b ! k" unfolding at by (simp add: note_face_def ray_view_def)
      then show ?thesis
        unfolding step using True IH frame_trans [OF IH(2) rb_frame_refl [of 1]] by (simp add: split)
    next
      case False
      note A = append_live [OF IH(1) k(1,2), of "GetFn c (to_face (rb_rays ?b ! k))"]
      have new: "(rb_rays ?b ! k, take kMaxHits (path_of ?b k @ [GetFn c (to_face (rb_rays ?b ! k)) mod 256]),
          rb_components ?b ! k, chain_at ?b k) = note_face c (view b ! k)"
        unfolding at using False by (simp add: note_face_def ray_view_def)
      show ?thesis
        unfolding step using False A(1) frame_trans [OF IH(2) A(2)] A(3) [unfolded new] k(3)
        by (simp add: IH(3) split list_update_append min_def)
    qed
  qed
  from this [of "rb_size b"] show "live_ok (FillRayOtherInfo c b)"
    "view (FillRayOtherInfo c b) = map (note_face c) (view b)" "frame (rb_size b) b (FillRayOtherInfo c b)"
    by (simp_all add: FillRayOtherInfo_def)
qed

section \<open>Handing a ray over\<close>

lemma Alloc_SetComponent:
  "AllocOverflowSlot (SetComponent n v b) = (fst (AllocOverflowSlot b), SetComponent n v (snd (AllocOverflowSlot b)))"
  by (simp add: AllocOverflowSlot_def Let_def SetComponent_def)

lemma Alloc_SetChainId:
  "AllocOverflowSlot (SetChainId n v b) = (fst (AllocOverflowSlot b), SetChainId n v (snd (AllocOverflowSlot b)))"
  by (simp add: AllocOverflowSlot_def Let_def SetChainId_def)

lemma Dup_SetComponent: "DupOverflowSlot src d (SetComponent n v b) = map_option (SetComponent n v) (DupOverflowSlot src d b)"
  by (simp add: DupOverflowSlot_def Let_def Alloc_SetComponent split_def)
    (simp add: SetComponent_def put_recorder_def put_slot_def)

lemma Dup_SetChainId: "DupOverflowSlot src d (SetChainId n v b) = map_option (SetChainId n v) (DupOverflowSlot src d b)"
  by (simp add: DupOverflowSlot_def Let_def Alloc_SetChainId split_def)
    (simp add: SetChainId_def put_recorder_def put_slot_def)

lemma hand_ray_emplace:
  assumes "rb_size b + 1 < rb_capacity b" and "HasChainIds src = HasChainIds b"
  shows "hand_ray src i b = emplace_one src i b"
proof -
  let ?n = "rb_size b"
  let ?b = "put_recorder ?n (rb_recorders src ! i) (put_ray ?n (rb_rays src ! i) b)"
  have n: "rb_size b' = ?n" if "DupOverflowSlot src ?n ?b = Some b'" for b'
    using Dup_frame [OF that] by (simp add: frame_def put_ray_def)
  let ?ch = "case rb_chain_ids src of Some c \<Rightarrow> c ! i | None \<Rightarrow> 0"
  let ?f = "\<lambda>b'. if rb_chain_ids b \<noteq> None then SetChainId ?n ?ch (SetComponent ?n (rb_components src ! i) b')
      else SetComponent ?n (rb_components src ! i) b'"
  have ch: "rb_chain_ids (SetComponent ?n (rb_components src ! i) ?b) = rb_chain_ids b"
    by (simp add: put_recorder_def put_ray_def SetComponent_def)
  have E: "emplace_one src i b = map_option (\<lambda>b'. b'\<lparr> rb_size := rb_size b' + 1 \<rparr>)
      (map_option ?f (DupOverflowSlot src ?n ?b))"
    by (cases "rb_chain_ids b = None")
      (simp_all add: emplace_one_def Let_def ch Dup_SetComponent Dup_SetChainId option.map_comp comp_def)
  show ?thesis
  proof (cases "DupOverflowSlot src ?n ?b")
    case None
    then show ?thesis using assms(1) by (simp add: E hand_ray_def Let_def EmplaceBack_arena_def RecorderAt_def)
  next
    case (Some b')
    have "hand_ray src i b = Some (if HasChainIds src
        then SetChainId ?n (ChainIdAt src i) (SetComponent ?n (ComponentAt src i) (b'\<lparr> rb_size := ?n + 1 \<rparr>))
        else SetComponent ?n (ComponentAt src i) (b'\<lparr> rb_size := ?n + 1 \<rparr>))"
      using assms(1) Some n [OF Some] by (simp add: hand_ray_def Let_def EmplaceBack_arena_def RecorderAt_def)
    also have "\<dots> = Some ((?f b')\<lparr> rb_size := ?n + 1 \<rparr>)"
      using assms(2) by (auto simp: HasChainIds_def ChainIdAt_def ComponentAt_def SetChainId_def SetComponent_def)
    also have "\<dots> = emplace_one src i b" using Some n [OF Some] by (simp add: E SetChainId_def SetComponent_def)
    finally show ?thesis .
  qed
qed

lemma hand_ray_spec:
  assumes src: "live_ok src" "i < rb_size src" and b: "live_ok b" "rb_size b + 1 < rb_capacity b"
    and room: "rb_overflow_used b < 0xFFFE" and chain: "HasChainIds src = HasChainIds b"
  shows "\<exists>b'. hand_ray src i b = Some b' \<and> live_ok b' \<and> view b' = view b @ [view src ! i] \<and>
      rb_capacity b' = rb_capacity b \<and> HasChainIds b' = HasChainIds b \<and> rb_overflow_used b' \<le> rb_overflow_used b + 1"
proof -
  have "carried (HasChainIds b) (ray_view src i) = ray_view src i"
    using chain by (auto simp: carried_def ray_view_def HasChainIds_def chain_at_def)
  moreover have "buffer_ok src {..<rb_size src}" using src(1) by (simp add: live_ok_def)
  ultimately show ?thesis
    using emplace_one_spec [of src i b] src(2) b room hand_ray_emplace [OF b(2) chain] by (auto simp: view_nth)
qed

section \<open>The gate, on one ray\<close>

text \<open>A recorder that holds a given path: the filters read nothing else of a recorder.\<close>

definition packed :: "nat list \<Rightarrow> RaypathRecorder" where
  "packed p = \<lparr> rec_size = length p, rec_data = [], overflow_idx = 0 \<rparr>"

lemma packed_simps [simp]: "rec_size (packed p) = length p" "hit_bytes (Some [p]) (packed p) = p"
  by (simp_all add: packed_def hit_bytes_def HasOverflow_def kNoOverflow_def)

definition same_hits :: "RaypathRecorder \<Rightarrow> nat list list option \<Rightarrow> nat list \<Rightarrow> bool" where
  "same_hits rec ar p \<longleftrightarrow> rec_size rec = length p \<and> take (length p) (hit_bytes ar rec) = p"

lemma Contains_packed: "same_hits rec ar p \<Longrightarrow> Contains orbit rec ar = Contains orbit (packed p) (Some [p])"
  by (cases "length p = rec_size (ro_canonical orbit)") (auto simp: Contains_def same_hits_def Let_def)

lemma EntryExit_packed: "same_hits rec ar p \<Longrightarrow> EntryExit_Match s rec ar = EntryExit_Match s (packed p) (Some [p])"
proof (cases "p = []")
  case True
  then show "same_hits rec ar p \<Longrightarrow> ?thesis" by (simp add: EntryExit_Match_def same_hits_def)
next
  case False
  assume *: "same_hits rec ar p"
  have "hit_bytes ar rec ! i = p ! i" if "i < length p" for i
    using * that nth_take [of i "length p" "hit_bytes ar rec"] by (simp add: same_hits_def)
  then have "hit_bytes ar rec ! 0 = p ! 0" "hit_bytes ar rec ! (length p - Suc 0) = p ! (length p - Suc 0)"
    using False by simp_all
  with * show ?thesis by (simp add: EntryExit_Match_def same_hits_def Let_def)
qed

lemma SimpleSpec_packed: "same_hits rec ar p \<Longrightarrow> SimpleSpec_Match fl f r rec ar = SimpleSpec_Match fl f r (packed p) (Some [p])"
  by (cases f) (simp_all add: Contains_packed EntryExit_packed)

lemma and_clause_packed: "same_hits rec ar p \<Longrightarrow> and_clause fl c r rec ar = and_clause fl c r (packed p) (Some [p])"
  by (simp add: and_clause_iff SimpleSpec_packed [of rec ar p])

lemma Check_packed: "same_hits rec ar p \<Longrightarrow> Check fl s r rec ar = Check fl s r (packed p) (Some [p])"
  by (cases "fs_body s") (simp_all add: Check_def Match_def Let_def or_clauses_iff and_clause_packed SimpleSpec_packed)

lemma summand_loop_packed:
  "same_hits rec ar p \<Longrightarrow> summand_loop fl cs k r rec ar m = summand_loop fl cs k r (packed p) (Some [p]) m"
  by (induction cs arbitrary: k m) (simp_all add: and_clause_packed)

lemma produced_packed:
  "same_hits rec ar p \<Longrightarrow> produced_components fl gs r rec ar = produced_components fl gs r (packed p) (Some [p])"
  by (simp add: produced_components_def CheckSummandMask_def MatchSummandMask_def summand_loop_packed
      SimpleSpec_packed split: SpecBody.splits cong: SpecBody.case_cong)

lemma live_same_hits:
  assumes "live_ok b" and "i < rb_size b"
  shows "same_hits (rb_recorders b ! i) (rb_overflow_arena b) (path_of b i)"
proof -
  from assms have ok: "buffer_ok b {..<rb_size b}" "i \<in> {..<rb_size b}" by (auto simp: live_ok_def)
  note q = buffer_ok_elim [OF ok]
  have len: "length (path_of b i) = rec_size (rb_recorders b ! i)" by (rule path_of_length [OF ok])
  have "rb_overflow_arena b \<noteq> None" if "HasOverflow (rb_recorders b ! i)"
    using overflow_used [OF q(3) that] q(4) by (auto simp: arena_ok_def)
  with hits_of_buffer [OF q(2)] have "hits_of (rb_overflow_arena b) (rb_recorders b ! i) = path_of b i" by blast
  then show ?thesis using len by (simp add: same_hits_def hits_of_def)
qed

definition to_world :: "rseg \<Rightarrow> rseg" where
  "to_world r = r\<lparr> seg_d := Rotation_Apply (crystal_rot r) (seg_d r), seg_p := Rotation_Apply (crystal_rot r) (seg_p r) \<rparr>"

definition accepts :: "(real, 'z) float_ops_scheme \<Rightarrow> HitCtx \<Rightarrow> rseg \<Rightarrow> nat list \<Rightarrow> bool" where
  "accepts fl ctx r p = (case hc_spec ctx of None \<Rightarrow> True | Some spec \<Rightarrow> Check fl spec r (packed p) (Some [p]))"

definition gate_entry ::
  "(real, 'z) float_ops_scheme \<Rightarrow> ('g \<Rightarrow> real \<times> 'g) \<Rightarrow> HitCtx \<Rightarrow> 'g \<Rightarrow> entry \<Rightarrow> 'g \<times> entry"
where
  "gate_entry fl uni ctx rng e =
     (case e of (r, p, m, ch) \<Rightarrow>
      let r = r\<lparr> is_continue := False \<rparr>
      in if seg_w r < 0 then (rng, (to_world r, p, m, ch))
         else if to_face r = kInvalidId then
           let r = to_world r
           in if accepts fl ctx r p
              then let (u, rng) = uni rng
                in (rng, (r\<lparr> is_continue := u < hc_prob ctx \<rparr>, p,
                          m OR produced_components fl (hc_groups ctx) r (packed p) (Some [p]), ch))
              else (rng, (r\<lparr> seg_w := - 1 \<rparr>, p, m, ch))
         else (rng, (r, p, m, ch)))"

lemma view_put:
  assumes "live_ok b" and "i < rb_size b"
  shows "live_ok (put_ray i r b)" "frame 0 (put_ray i r b) (put_ray i r b)"
    "view (put_ray i r b) = (view b)[i := (r, path_of b i, rb_components b ! i, chain_at b i)]"
    "live_ok (SetComponent i m b)"
    "view (SetComponent i m b) = (view b)[i := (rb_rays b ! i, path_of b i, m, chain_at b i)]"
proof -
  have st: "same_store b (put_ray i r b)" "same_store b (SetComponent i m b)"
    by (simp_all add: same_store_def put_ray_def SetComponent_def)
  have cols: "columns_ok b" "buffer_ok b {..<rb_size b}" using assms(1) by (auto simp: live_ok_def)
  have len: "i < length (rb_rays b)" "i < length (rb_components b)" using cols(1) assms(2) by (auto simp: columns_ok_def)
  show "live_ok (put_ray i r b)" "live_ok (SetComponent i m b)"
    using cols same_store_ok [OF st(1), of "{..<rb_size b}"] same_store_ok [OF st(2), of "{..<rb_size b}"]
    by (auto simp: live_ok_def columns_ok_def put_ray_def SetComponent_def split: option.splits)
  show "view (put_ray i r b) = (view b)[i := (r, path_of b i, rb_components b ! i, chain_at b i)]"
    using len assms(2)
    by (intro nth_equalityI, auto simp: view_nth ray_view_def same_store_path [OF st(1)] nth_list_update,
       auto simp: put_ray_def chain_at_def view_nth ray_view_def)
  show "view (SetComponent i m b) = (view b)[i := (rb_rays b ! i, path_of b i, m, chain_at b i)]"
    using len assms(2)
    by (intro nth_equalityI, auto simp: view_nth ray_view_def same_store_path [OF st(2)] nth_list_update,
       auto simp: SetComponent_def chain_at_def view_nth ray_view_def)
qed simp

lemma gate_spec:
  assumes b: "live_ok b" and i: "i < rb_size b"
  shows "\<exists>b'. gate_ray fl uni ctx i (rng, b) = (fst (gate_entry fl uni ctx rng (view b ! i)), b') \<and> live_ok b' \<and>
      view b' = (view b)[i := snd (gate_entry fl uni ctx rng (view b ! i))] \<and> same_store b b' \<and>
      rb_size b' = rb_size b \<and> HasChainIds b' = HasChainIds b"
proof -
  let ?r = "(rb_rays b ! i)\<lparr> is_continue := False \<rparr>" and ?p = "path_of b i"
  let ?m = "rb_components b ! i" and ?ch = "chain_at b i"
  have same: "same_hits (rb_recorders b ! i) (rb_overflow_arena b) ?p" by (rule live_same_hits [OF b i])
  have put: "live_ok (put_ray i r b)" "view (put_ray i r b) = (view b)[i := (r, ?p, ?m, ?ch)]"
    "same_store b (put_ray i r b)" "rb_size (put_ray i r b) = rb_size b" "HasChainIds (put_ray i r b) = HasChainIds b" for r
    using view_put [OF b i] by (simp_all add: same_store_def put_ray_def HasChainIds_def)
  have at: "view b ! i = (rb_rays b ! i, ?p, ?m, ?ch)" by (simp add: view_nth [OF i] ray_view_def)
  show ?thesis
  proof (cases "\<not> seg_w ?r < 0 \<and> to_face ?r = kInvalidId \<and> accepts fl ctx (to_world ?r) ?p")
    case False
    then have "gate_ray fl uni ctx i (rng, b) = (rng, put_ray i (fst (snd (gate_entry fl uni ctx rng (view b ! i)))) b)"
      "gate_entry fl uni ctx rng (view b ! i) = (rng, fst (snd (gate_entry fl uni ctx rng (view b ! i))), ?p, ?m, ?ch)"
      using Check_packed [OF same, of fl _ "to_world ?r"]
      by (auto simp: gate_ray_def gate_entry_def at Let_def to_world_def [symmetric] accepts_def RecorderAt_def
          split: option.splits)
    then show ?thesis using put by (metis fst_conv snd_conv)
  next
    case True
    define pr where "pr = produced_components fl (hc_groups ctx) (to_world ?r) (packed ?p) (Some [?p])"
    define c where "c = (if pr \<noteq> 0 then SetComponent i (?m OR pr) b else b)"
    obtain u g where u: "uni rng = (u, g)" by (cases "uni rng")
    let ?q = "(to_world ?r)\<lparr> is_continue := u < hc_prob ctx \<rparr>"
    have "(if u < hc_prob ctx then (to_world ?r)\<lparr> is_continue := True \<rparr> else to_world ?r) = ?q"
      by (simp add: to_world_def)
    then have "gate_ray fl uni ctx i (rng, b) = (g, put_ray i ?q c)"
      using True Check_packed [OF same, of fl _ "to_world ?r"] produced_packed [OF same, of fl "hc_groups ctx" "to_world ?r"] u
      by (auto simp: gate_ray_def Let_def to_world_def [symmetric] accepts_def RecorderAt_def ComponentAt_def c_def pr_def
          split: option.splits)
    moreover have e: "gate_entry fl uni ctx rng (view b ! i) = (g, ?q, ?p, ?m OR pr, ?ch)"
      using True u by (simp add: gate_entry_def at Let_def pr_def)
    moreover have c: "live_ok c" "view c = (view b)[i := (rb_rays b ! i, ?p, ?m OR pr, ?ch)]" "same_store b c"
      "rb_size c = rb_size b" "HasChainIds c = HasChainIds b" "rb_recorders c = rb_recorders b"
      using view_put(4,5) [OF b i, of "?m OR pr"] b at list_update_id [of "view b" i]
      by (auto simp: c_def same_store_def SetComponent_def HasChainIds_def)
    moreover have "path_of c i = ?p" by (rule same_store_path [OF c(3)])
    moreover have "rb_components c ! i = ?m OR pr" "chain_at c i = ?ch"
      using b i by (auto simp: c_def SetComponent_def chain_at_def live_ok_def columns_ok_def)
    ultimately show ?thesis
      using view_put(1,3) [OF c(1), of i ?q] i
      by (auto simp: same_store_def put_ray_def HasChainIds_def)
  qed
qed

fun gate_all ::
  "(real, 'z) float_ops_scheme \<Rightarrow> ('g \<Rightarrow> real \<times> 'g) \<Rightarrow> HitCtx \<Rightarrow> 'g \<Rightarrow> entry list \<Rightarrow> 'g \<times> entry list"
where
  "gate_all fl uni ctx rng [] = (rng, [])"
| "gate_all fl uni ctx rng (e # es) =
     (let (rng, e) = gate_entry fl uni ctx rng e; (rng, es) = gate_all fl uni ctx rng es in (rng, e # es))"

lemma gate_all_length [simp]: "length (snd (gate_all fl uni ctx rng es)) = length es"
  by (induction es arbitrary: rng) (simp_all add: split_def Let_def)

abbreviation staying :: "entry list \<Rightarrow> entry list" where
  "staying \<equiv> filter (\<lambda>e. stays (fst e))"

abbreviation continuing :: "entry list \<Rightarrow> entry list" where
  "continuing \<equiv> filter (\<lambda>e. IsContinue (fst e))"

abbreviation emitted :: "entry list \<Rightarrow> entry list" where
  "emitted \<equiv> filter (\<lambda>e. IsOutgoing real_seg (fst e))"

text \<open>Handing a ray over or not, as a filtered list.\<close>

lemma hand_ray_if:
  assumes src: "live_ok src" "i < rb_size src" and b: "live_ok b" and chain: "HasChainIds src = HasChainIds b"
    and room: "rb_overflow_used b < 0xFFFE" and cap: "P \<Longrightarrow> rb_size b + 1 < rb_capacity b"
  shows "\<exists>b'. (if P then hand_ray src i b else Some b) = Some b' \<and> live_ok b' \<and>
      view b' = view b @ (if P then [view src ! i] else []) \<and>
      rb_capacity b' = rb_capacity b \<and> HasChainIds b' = HasChainIds b \<and> rb_overflow_used b' \<le> rb_overflow_used b + 1"
  using hand_ray_spec [OF src b cap room chain] b by (cases P) auto

text \<open>Every recorder, in use or not, has its fifteen bytes.\<close>

definition whole :: "'r RayBuffer \<Rightarrow> bool" where
  "whole b \<longleftrightarrow> (\<forall>r\<in>set (rb_recorders b). length (rec_data r) = kInlineCap)"

lemma whole_put_recorder:
  "whole b \<Longrightarrow> length (rec_data r) = kInlineCap \<Longrightarrow> whole (put_recorder i r b)"
  using set_update_subset_insert [of "rb_recorders b" i r] by (auto simp: whole_def put_recorder_def)

lemma whole_Dup:
  assumes "DupOverflowSlot src d b = Some b'" and "whole b" and d: "d < length (rb_recorders b)"
  shows "whole b'"
proof (cases "HasOverflow (rb_recorders b ! d)")
  case True
  obtain s b1 where al: "AllocOverflowSlot b = (s, b1)" by (cases "AllocOverflowSlot b")
  have "rb_recorders b1 = rb_recorders b" using al by (auto simp: AllocOverflowSlot_def Let_def)
  moreover have "b' = put_recorder d ((rb_recorders b ! d)\<lparr> overflow_idx := s \<rparr>) (put_slot s (arena src ! overflow_idx (rb_recorders b ! d)) b1)"
    using assms(1) True al by (auto simp: DupOverflowSlot_def Let_def split: if_splits)
  moreover have "length (rec_data (rb_recorders b ! d)) = kInlineCap" using assms(2) d by (auto simp: whole_def)
  moreover have "whole (put_slot s (arena src ! overflow_idx (rb_recorders b ! d)) b1)"
    using assms(2) \<open>rb_recorders b1 = rb_recorders b\<close> by (simp add: whole_def put_slot_def)
  ultimately show ?thesis by (simp add: whole_put_recorder)
qed (use assms in \<open>simp add: DupOverflowSlot_def\<close>)

lemma hand_ray_whole:
  assumes "hand_ray src i b = Some b'" and src: "live_ok src" "i < rb_size src" and b: "live_ok b" and w: "whole b"
  shows "whole b'"
proof (cases "rb_size b + 1 < rb_capacity b")
  case True
  let ?b = "put_recorder (rb_size b) (rb_recorders src ! i) (put_ray (rb_size b) (rb_rays src ! i) b)"
  have "length (rec_data (rb_recorders src ! i)) = kInlineCap"
    using src by (auto simp: live_ok_def buffer_ok_def rec_ok_def)
  then have "whole ?b" using w by (intro whole_put_recorder) (auto simp: whole_def put_ray_def)
  moreover have "rb_size b < length (rb_recorders ?b)" using b True by (auto simp: live_ok_def buffer_ok_def put_recorder_def put_ray_def)
  moreover obtain b1 where "DupOverflowSlot src (rb_size b) ?b = Some b1" "rb_recorders b' = rb_recorders b1"
    using assms(1) True
    by (auto simp: hand_ray_def EmplaceBack_arena_def RecorderAt_def Let_def SetChainId_def SetComponent_def split: if_splits)
  ultimately show ?thesis using whole_Dup [of src "rb_size b" ?b b1] by (simp add: whole_def)
qed (use assms in \<open>auto simp: hand_ray_def EmplaceBack_arena_def Let_def\<close>)

lemma same_store_trans: "same_store a b \<Longrightarrow> same_store b c \<Longrightarrow> same_store a c"
  by (simp add: same_store_def)

definition collects :: "'g \<times> rbuf \<times> rbuf \<times> rbuf \<Rightarrow> 'g \<times> rbuf \<times> rbuf \<times> rbuf \<Rightarrow> 'g \<Rightarrow> nat \<Rightarrow> entry list \<Rightarrow> entry list \<Rightarrow> bool"
where
  "collects st st' g k done es \<longleftrightarrow> (case st of (rng, b0, b1, nxt) \<Rightarrow> case st' of (rng', b0', b1', nxt') \<Rightarrow>
     rng' = g \<and> live_ok b0' \<and> live_ok b1' \<and> live_ok nxt' \<and> view b1' = done @ es \<and>
     view b0' = view b0 @ staying es \<and> view nxt' = view nxt @ continuing es \<and> same_store b1 b1' \<and>
     rb_capacity b0' = rb_capacity b0 \<and> rb_capacity nxt' = rb_capacity nxt \<and>
     HasChainIds b0' = HasChainIds b0 \<and> HasChainIds b1' = HasChainIds b1 \<and> HasChainIds nxt' = HasChainIds nxt \<and>
     rb_overflow_used b0' \<le> rb_overflow_used b0 + k \<and> rb_overflow_used nxt' \<le> rb_overflow_used nxt + k \<and>
     (whole b0 \<longrightarrow> whole b0'))"

lemma collect_loop_spec:
  assumes "live_ok b0" "live_ok b1" "live_ok nxt" "HasChainIds b0 = HasChainIds b1" "HasChainIds nxt = HasChainIds b1"
    and "view b1 = done @ todo" and "gate_all fl uni ctx rng todo = (g, es)"
    and "rb_overflow_used b0 + length todo \<le> 0xFFFE" "rb_overflow_used nxt + length todo \<le> 0xFFFE"
    and "rb_size b0 + length (staying es) < rb_capacity b0" "rb_size nxt + length (continuing es) < rb_capacity nxt"
  shows "\<exists>st'. collect_loop fl uni ctx [length done..<length done + length todo] (rng, b0, b1, nxt) = Some st' \<and>
    collects (rng, b0, b1, nxt) st' g (length todo) done es"
  using assms
proof (induction todo arbitrary: "done" rng b0 b1 nxt es)
  case Nil
  then show ?case by (simp add: collects_def same_store_def)
next
  case (Cons e todo)
  let ?i = "length done"
  have i: "?i < rb_size b1" and at: "view b1 ! ?i = e"
    using view_length [of b1] unfolding Cons.prems(6) by simp_all
  obtain rng1 e' where e': "gate_entry fl uni ctx rng e = (rng1, e')" by (cases "gate_entry fl uni ctx rng e")
  obtain es' where es': "gate_all fl uni ctx rng1 todo = (g, es')" "es = e' # es'"
    using Cons.prems(7) e' by (auto simp: Let_def split: prod.splits)
  obtain c1 where c1: "gate_ray fl uni ctx ?i (rng, b1) = (rng1, c1)" "live_ok c1" "view c1 = (done @ [e']) @ todo"
      "same_store b1 c1" "rb_size c1 = rb_size b1" "HasChainIds c1 = HasChainIds b1"
    using gate_spec [OF Cons.prems(2) i, of fl uni ctx rng] unfolding at e' by (auto simp: Cons.prems(6))
  have i1: "?i < rb_size c1" and at1: "view c1 ! ?i = e'" using i c1(5) by (simp_all add: c1(3))
  have ray: "rb_rays c1 ! ?i = fst e'" using at1 by (auto simp: view_nth [OF i1] ray_view_def)
  have P: "stays (fst e') \<Longrightarrow> rb_size b0 + 1 < rb_capacity b0" "IsContinue (fst e') \<Longrightarrow> rb_size nxt + 1 < rb_capacity nxt"
    using Cons.prems(10,11) by (auto simp: es')
  have room: "rb_overflow_used b0 < 0xFFFE" "rb_overflow_used nxt < 0xFFFE" using Cons.prems(8,9) by auto
  have ch: "HasChainIds c1 = HasChainIds b0" "HasChainIds c1 = HasChainIds nxt" using Cons.prems(4,5) c1(6) by auto
  obtain c0 where c0: "(if stays (fst e') then hand_ray c1 ?i b0 else Some b0) = Some c0" "live_ok c0"
      "view c0 = view b0 @ (if stays (fst e') then [e'] else [])" "rb_capacity c0 = rb_capacity b0"
      "HasChainIds c0 = HasChainIds b0" "rb_overflow_used c0 \<le> rb_overflow_used b0 + 1"
    using hand_ray_if [OF c1(2) i1 Cons.prems(1) ch(1) room(1) P(1)] unfolding at1 by blast
  obtain cn where cn: "(if IsContinue (fst e') then hand_ray c1 ?i nxt else Some nxt) = Some cn" "live_ok cn"
      "view cn = view nxt @ (if IsContinue (fst e') then [e'] else [])" "rb_capacity cn = rb_capacity nxt"
      "HasChainIds cn = HasChainIds nxt" "rb_overflow_used cn \<le> rb_overflow_used nxt + 1"
    using hand_ray_if [OF c1(2) i1 Cons.prems(3) ch(2) room(2) P(2)] unfolding at1 by blast
  have w0: "whole b0 \<Longrightarrow> whole c0"
    using c0(1) hand_ray_whole [OF _ c1(2) i1 Cons.prems(1)] by (auto split: if_split_asm)
  have sz: "rb_size c0 = rb_size b0 + length (staying [e'])" "rb_size cn = rb_size nxt + length (continuing [e'])"
    using arg_cong [OF c0(3), of length] arg_cong [OF cn(3), of length] by simp_all
  have one: "collect_one fl uni ctx ?i (rng, b0, b1, nxt) = Some (rng1, c0, c1, cn)"
    using c0(1) cn(1) by (simp add: collect_one_def c1(1) ray Let_def)
  have "\<exists>st'. collect_loop fl uni ctx [length (done @ [e'])..<length (done @ [e']) + length todo] (rng1, c0, c1, cn) = Some st' \<and>
      collects (rng1, c0, c1, cn) st' g (length todo) (done @ [e']) es'"
  proof (rule Cons.IH [OF c0(2) c1(2) cn(2) _ _ c1(3) es'(1)])
    show "HasChainIds c0 = HasChainIds c1" "HasChainIds cn = HasChainIds c1" using ch c0(5) cn(5) by simp_all
    show "rb_overflow_used c0 + length todo \<le> 0xFFFE" "rb_overflow_used cn + length todo \<le> 0xFFFE"
      using Cons.prems(8,9) c0(6) cn(6) by simp_all
    show "rb_size c0 + length (staying es') < rb_capacity c0"
      using Cons.prems(10) by (simp add: es' sz c0(4) split: if_split_asm)
    show "rb_size cn + length (continuing es') < rb_capacity cn"
      using Cons.prems(11) by (simp add: es' sz cn(4) split: if_split_asm)
  qed
  then obtain st' where st': "collect_loop fl uni ctx [Suc ?i..<Suc ?i + length todo] (rng1, c0, c1, cn) = Some st'"
      "collects (rng1, c0, c1, cn) st' g (length todo) (done @ [e']) es'"
    by auto
  have "[?i..<?i + length (e # todo)] = ?i # [Suc ?i..<Suc ?i + length todo]" by (simp add: upt_rec)
  then have "collect_loop fl uni ctx [?i..<?i + length (e # todo)] (rng, b0, b1, nxt) = Some st'"
    using st'(1) by (simp add: one)
  moreover have "collects (rng, b0, b1, nxt) st' g (length (e # todo)) done es"
    using st'(2) c0(6) cn(6) same_store_trans [OF c1(4)] w0
    by (auto simp: collects_def es' c0(3-5) cn(3-5) c1(6))
  ultimately show ?case by blast
qed

section \<open>What a child owes to its slot\<close>

text \<open>
  A slot keeps \<open>prev_ray_idx_\<close> of the ray that was in it, and \<open>is_continue_\<close> until the gate resets it; a child
  of weight \<open>-1\<close> keeps the old end point too.  Nothing after the hit depends on that.
\<close>

definition blank :: rseg where
  "blank = \<lparr> seg_d = [], seg_p = [], seg_w = 0, from_face = 0, to_face = 0, prev_ray_idx = 0, root_ray_idx = 0,
     crystal_idx = 0, crystal_config_id = 0, crystal_rot = [], is_continue = False \<rparr>"

abbreviation fresh_ray :: "rseg \<Rightarrow> rseg" where "fresh_ray r \<equiv> r\<lparr> prev_ray_idx := 0, is_continue := False \<rparr>"

definition still :: "entry \<Rightarrow> entry" where
  "still e = (case e of (r, p, m, ch) \<Rightarrow> (fresh_ray r, p, m, ch))"

definition obs :: "entry \<Rightarrow> entry" where
  "obs e = (case e of (r, p, m, ch) \<Rightarrow> (r\<lparr> prev_ray_idx := 0 \<rparr>, p, m, ch))"

definition visible :: "entry \<Rightarrow> bool" where
  "visible e \<longleftrightarrow> 0 \<le> seg_w (fst e)"

definition spec_children :: "CrystalFaces \<Rightarrow> real \<Rightarrow> entry \<Rightarrow> entry list" where
  "spec_children c n e = filter visible (map (\<lambda>k. note_face c (born c n (blank, blank) k e)) [0, 1])"

lemma fly_determined:
  assumes "seg_d r = seg_d r'" and "seg_w r = seg_w r'" and "0 \<le> seg_w r"
  shows "seg_p (fly c q r) = seg_p (fly c q r')" "to_face (fly c q r) = to_face (fly c q r')"
proof -
  have "gather_lane c q r = gather_lane c q r'" using assms(1) by (simp add: gather_lane_def)
  then show "seg_p (fly c q r) = seg_p (fly c q r')" "to_face (fly c q r) = to_face (fly c q r')"
    using assms(2,3) by (simp_all add: fly_def scatter_lane_def Let_def)
qed

lemma child_slot:
  assumes "to_face q \<noteq> kInvalidId"
  shows "seg_w (child c n q out k) = seg_w (child c n q out' k)"
    "0 \<le> seg_w (child c n q out k) \<Longrightarrow> fresh_ray (inherit q (child c n q out k)) = fresh_ray (inherit q (child c n q out' k))"
proof -
  obtain a b where ab: "hit_pair c n q out = (a, b)" by (cases "hit_pair c n q out")
  obtain a' b' where ab': "hit_pair c n q out' = (a', b')" by (cases "hit_pair c n q out'")
  have eq: "seg_d a = seg_d a'" "seg_w a = seg_w a'" "seg_d b = seg_d b'" "seg_w b = seg_w b'"
    using ab ab' by (auto simp: hit_pair_eq [OF assms] Let_def)
  show "seg_w (child c n q out k) = seg_w (child c n q out' k)"
    by (simp add: child_def children_def ab ab' eq)
  assume "0 \<le> seg_w (child c n q out k)"
  then show "fresh_ray (inherit q (child c n q out k)) = fresh_ray (inherit q (child c n q out' k))"
    using fly_determined [OF eq(1,2), of c q] fly_determined [OF eq(3,4), of c q]
    by (cases "k = 0") (simp_all add: child_def children_def ab ab' inherit_def eq)
qed

lemma born_slot:
  assumes "to_face (fst e) \<noteq> kInvalidId"
  shows "visible (note_face c (born c n out k e)) = visible (note_face c (born c n (blank, blank) k e))"
    "visible (note_face c (born c n out k e)) \<Longrightarrow>
      still (note_face c (born c n out k e)) = note_face c (born c n (blank, blank) k e)"
proof -
  obtain q p m ch where e: "e = (q, p, m, ch)" by (cases e)
  let ?x = "inherit q (child c n q out k)" and ?y = "inherit q (child c n q (blank, blank) k)"
  have q: "to_face q \<noteq> kInvalidId" using assms by (simp add: e)
  have y: "fresh_ray ?y = ?y"
    by (simp add: inherit_def child_def children_def hit_pair_eq [OF q] Let_def blank_def)
  note s = child_slot [OF q, of c n out k "(blank, blank)"]
  show "visible (note_face c (born c n out k e)) = visible (note_face c (born c n (blank, blank) k e))"
    using s(1) by (simp add: e born_def note_face_def visible_def inherit_def)
  assume "visible (note_face c (born c n out k e))"
  then have "0 \<le> seg_w (child c n q out k)" by (simp add: e born_def note_face_def visible_def inherit_def)
  from trans [OF s(2) [OF this] y] have xy: "fresh_ray ?x = ?y" .
  moreover have "to_face ?x = to_face ?y" using arg_cong [OF xy, of to_face] by simp
  ultimately show "still (note_face c (born c n out k e)) = note_face c (born c n (blank, blank) k e)"
    by (simp add: e born_def note_face_def still_def)
qed

text \<open>The slots of the second buffer, seen as the children of the rays of the first.\<close>

lemma map_pairs: "map f [0..<2 * n] = concat (map (\<lambda>i. [f (2 * i), f (2 * i + 1)]) [0..<n])"
  by (induction n) simp_all

lemma born_list:
  assumes "\<And>e. e \<in> set es \<Longrightarrow> to_face (fst e) \<noteq> kInvalidId"
  shows "map still (filter visible (map (\<lambda>j. note_face c (born c n (outs (j div 2)) (j mod 2) (es ! (j div 2)))) [0..<2 * length es]))
    = concat (map (spec_children c n) es)"
proof -
  have "map still (filter visible [note_face c (born c n out 0 e), note_face c (born c n out 1 e)]) = spec_children c n e"
    if "e \<in> set es" for out e
    using born_slot [OF assms [OF that], of c n out] by (simp add: spec_children_def)
  then have "map still (filter visible (concat (map (\<lambda>i. [note_face c (born c n (outs i) 0 (es ! i)),
      note_face c (born c n (outs i) 1 (es ! i))]) [0..<length es]))) = concat (map (\<lambda>i. spec_children c n (es ! i)) [0..<length es])"
    unfolding filter_concat map_concat map_map comp_def by (intro arg_cong [where f = concat] map_cong) simp_all
  moreover have "map (\<lambda>i. spec_children c n (es ! i)) [0..<length es] = map (spec_children c n) es"
    by (rule nth_equalityI) simp_all
  ultimately show ?thesis by (simp add: map_pairs)
qed

lemma obs_children: "spec_children c n (obs e) = spec_children c n e"
proof -
  obtain q p m ch where e: "e = (q, p, m, ch)" by (cases e)
  have pair: "hit_pair c n (q\<lparr> prev_ray_idx := 0 \<rparr>) out = hit_pair c n q out" for out
    by (simp add: hit_pair_def Let_def)
  have "fly c (q\<lparr> prev_ray_idx := 0 \<rparr>) r = fly c q r" for r by (simp add: fly_def gather_lane_def)
  then show ?thesis
    by (simp add: spec_children_def born_def obs_def e child_def children_def pair inherit_def split_def Let_def)
qed

section \<open>What the gate does not see\<close>

lemma SimpleSpec_prev: "SimpleSpec_Match fl f (r\<lparr> prev_ray_idx := x \<rparr>) rec ar = SimpleSpec_Match fl f r rec ar"
  by (cases f) simp_all

lemma and_clause_prev: "and_clause fl c (r\<lparr> prev_ray_idx := x \<rparr>) rec ar = and_clause fl c r rec ar"
  by (simp add: and_clause_iff SimpleSpec_prev)

lemma Check_prev: "Check fl s (r\<lparr> prev_ray_idx := x \<rparr>) rec ar = Check fl s r rec ar"
  by (cases "fs_body s") (simp_all add: Check_def Match_def Let_def or_clauses_iff and_clause_prev SimpleSpec_prev)

lemma summand_loop_prev: "summand_loop fl cs k (r\<lparr> prev_ray_idx := x \<rparr>) rec ar m = summand_loop fl cs k r rec ar m"
  by (induction cs arbitrary: k m) (simp_all add: and_clause_prev)

lemma produced_prev: "produced_components fl gs (r\<lparr> prev_ray_idx := x \<rparr>) rec ar = produced_components fl gs r rec ar"
  by (simp add: produced_components_def CheckSummandMask_def MatchSummandMask_def summand_loop_prev SimpleSpec_prev
      split: SpecBody.splits cong: SpecBody.case_cong)

lemma gate_still:
  "gate_entry fl uni ctx rng (still e) = (fst (gate_entry fl uni ctx rng e), obs (snd (gate_entry fl uni ctx rng e)))"
proof -
  obtain r p m ch where e: "e = (r, p, m, ch)" by (cases e)
  have w: "to_world (r\<lparr> prev_ray_idx := 0, is_continue := False \<rparr>)
      = (to_world (r\<lparr> is_continue := False \<rparr>))\<lparr> prev_ray_idx := 0 \<rparr>"
    by (simp add: to_world_def)
  have a: "accepts fl ctx (x\<lparr> prev_ray_idx := 0 \<rparr>) p = accepts fl ctx x p" for x
    by (simp add: accepts_def Check_prev split: option.split)
  show ?thesis
    by (auto simp: e gate_entry_def still_def obs_def Let_def w a produced_prev split_def)
qed

lemma gate_visible: "\<not> visible e \<Longrightarrow>
  fst (gate_entry fl uni ctx rng e) = rng \<and> \<not> stays (fst (snd (gate_entry fl uni ctx rng e))) \<and>
  \<not> IsContinue (fst (snd (gate_entry fl uni ctx rng e))) \<and> \<not> IsOutgoing real_seg (fst (snd (gate_entry fl uni ctx rng e)))"
  by (cases e)
    (simp add: gate_entry_def visible_def Let_def to_world_def stays_iff IsContinue_def,
     simp add: IsOutgoing_def real_seg_def)

lemma obs_kinds [simp]:
  "stays (fst (obs e)) = stays (fst e)" "IsContinue (fst (obs e)) = IsContinue (fst e)"
  "IsOutgoing real_seg (fst (obs e)) = IsOutgoing real_seg (fst e)"
  by (cases e; simp add: obs_def stays_iff IsContinue_def IsOutgoing_def)+

lemma gate_all_visible:
  assumes "gate_all fl uni ctx rng es = (g, es')" and "gate_all fl uni ctx rng (map still (filter visible es)) = (g2, es2)"
  shows "g2 = g \<and> staying es2 = map obs (staying es') \<and> continuing es2 = map obs (continuing es') \<and>
    emitted es2 = map obs (emitted es')"
  using assms
proof (induction es arbitrary: rng es' es2)
  case (Cons e es)
  obtain r1 e1 where e1: "gate_entry fl uni ctx rng e = (r1, e1)" by (cases "gate_entry fl uni ctx rng e")
  then obtain es1 where es1: "gate_all fl uni ctx r1 es = (g, es1)" "es' = e1 # es1"
    using Cons.prems(1) by (auto simp: Let_def split: prod.splits)
  show ?case
  proof (cases "visible e")
    case True
    then obtain es3 where "gate_all fl uni ctx r1 (map still (filter visible es)) = (g2, es3)" "es2 = obs e1 # es3"
      using Cons.prems(2) e1 by (auto simp: Let_def gate_still split: prod.splits)
    then show ?thesis using Cons.IH [OF es1(1)] es1(2) by auto
  next
    case False
    then show ?thesis
      using gate_visible [OF False, of fl uni ctx rng] e1 Cons.IH [OF es1(1)] Cons.prems(2) es1(2) by auto
  qed
qed simp

end
