(* ===== verification/Hit_Refinement.thy ===== *)
theory Hit_Refinement
  imports Hit_Loop
begin

text \<open>
  The hit loop of \<open>src/core/simulator.cpp\<close> against its specification on lists of rays: no slots, no arena,
  no capacity.  The specification threads the generator and the chain table through the children in order;
  the refinement shows that the buffers, sized by \<open>ResetHitLoopBuffers\<close>, implement it without an abort and
  without dropping a ray.
\<close>

section \<open>The specification\<close>

text \<open>An entry of the list is what \<open>view\<close> shows of a buffer, up to the unused \<open>prev_ray_idx_\<close>.\<close>

record 'g SpecState =
  ss_rng :: 'g
  ss_inside :: "entry list"
  ss_carried :: "entry list"
  ss_emitted :: "entry list"
  ss_chain_ids :: "nat list"
  ss_table :: ChainIdInterningTable
  ss_tally :: "(real \<times> real) option"

definition intern_entry :: "ChainIdLayerContext \<Rightarrow> entry \<Rightarrow> ChainIdInterningTable \<Rightarrow> nat \<times> ChainIdInterningTable" where
  "intern_entry cc e table = (case e of (r, p, m, ch) \<Rightarrow>
     Intern (unat (the ch)) (cc_crystal_id cc)
       (ReduceRaypathByPeriod p (cc_symmetry cc) (cc_sigma_a cc) (cc_d_applicable cc) (cc_p_retained cc)
         (cc_b_applicable cc) (cc_fn_period cc) (cc_geom cc)) table)"

fun intern_all :: "ChainIdLayerContext \<Rightarrow> entry list \<Rightarrow> ChainIdInterningTable \<Rightarrow> nat list \<times> ChainIdInterningTable" where
  "intern_all cc [] table = ([], table)"
| "intern_all cc (e # es) table =
     (let (i, table) = intern_entry cc e table; (is, table) = intern_all cc es table in (i # is, table))"

definition with_chain :: "entry \<Rightarrow> nat \<Rightarrow> entry" where
  "with_chain e i = (case e of (r, p, m, ch) \<Rightarrow> (r, p, m, map_option (\<lambda>_. of_nat i) ch))"

text \<open>Interned on the way to the next layer, and on the way out; neither happens outside analysis mode.\<close>

definition chain_carried :: "HitCtx \<Rightarrow> entry list \<Rightarrow> ChainIdInterningTable \<Rightarrow> entry list \<times> ChainIdInterningTable" where
  "chain_carried ctx es table = (case hc_chain ctx of None \<Rightarrow> (es, table)
     | Some cc \<Rightarrow> let (is, table) = intern_all cc es table in (map2 with_chain es is, table))"

definition chain_emitted :: "HitCtx \<Rightarrow> entry list \<Rightarrow> ChainIdInterningTable \<Rightarrow> nat list \<times> ChainIdInterningTable" where
  "chain_emitted ctx es table = (case hc_chain ctx of None \<Rightarrow> ([], table) | Some cc \<Rightarrow> intern_all cc es table)"

definition tally_of :: "HitCtx \<Rightarrow> entry list \<Rightarrow> (real \<times> real) option \<Rightarrow> (real \<times> real) option" where
  "tally_of ctx es = fold (\<lambda>e. add_tally (seg_w (fst e) * hc_tally_inv_c ctx)) es"

definition spec_hit ::
  "(real, 'z) float_ops_scheme \<Rightarrow> ('g \<Rightarrow> real \<times> 'g) \<Rightarrow> HitCtx \<Rightarrow> 'g SpecState \<Rightarrow> 'g SpecState"
where
  "spec_hit fl uni ctx s =
     (let (rng, es) = gate_all fl uni ctx (ss_rng s)
            (concat (map (spec_children (hc_crystal ctx) (hc_index ctx)) (ss_inside s)));
          (cy, table) = chain_carried ctx (continuing es) (ss_table s);
          (ids, table) = chain_emitted ctx (emitted es) table
      in s\<lparr> ss_rng := rng, ss_inside := staying es, ss_carried := ss_carried s @ cy,
             ss_emitted := ss_emitted s @ emitted es, ss_chain_ids := ss_chain_ids s @ ids, ss_table := table,
             ss_tally := tally_of ctx (emitted es) (ss_tally s) \<rparr>)"

text \<open>The packed outputs, as a function of the emitted rays.\<close>

definition packed_d :: "entry list \<Rightarrow> real list" where
  "packed_d es = concat (map (\<lambda>e. [seg_d (fst e) ! 0, seg_d (fst e) ! 1, seg_d (fst e) ! 2]) es)"

definition packed_w :: "entry list \<Rightarrow> real list" where
  "packed_w es = map (\<lambda>e. seg_w (fst e)) es"

definition packed_component :: "entry list \<Rightarrow> u64 list" where
  "packed_component es = map (\<lambda>e. fst (snd (snd e))) es"

definition implements :: "'g HitState \<Rightarrow> 'g SpecState \<Rightarrow> bool" where
  "implements s a \<longleftrightarrow> hs_rng s = ss_rng a \<and> map obs (view (hs_in s)) = ss_inside a \<and>
     map obs (view (hs_next s)) = ss_carried a \<and> hs_table s = ss_table a \<and>
     hs_outgoing_d s = packed_d (ss_emitted a) \<and> hs_outgoing_w s = packed_w (ss_emitted a) \<and>
     hs_outgoing_component s = packed_component (ss_emitted a) \<and> hs_outgoing_chain_id s = ss_chain_ids a \<and>
     hs_tally s = ss_tally a"

section \<open>Interning\<close>

lemma intern_view:
  assumes b: "live_ok b" and i: "i < rb_size b" and h: "HasChainIds b"
  shows "InternRayChainId cc b i table = intern_entry cc (view b ! i) table"
proof -
  have "ChainIdAt b i = the (chain_at b i)"
    using h by (auto simp: ChainIdAt_def chain_at_def HasChainIds_def)
  then show ?thesis
    by (simp add: InternRayChainId_def intern_entry_def view_nth [OF i] ray_view_def path_of_def Let_def)
qed

lemma set_chain_view:
  assumes b: "live_ok b" and i: "i < rb_size b"
  shows "live_ok (SetChainId i (of_nat v) b)" "view (SetChainId i (of_nat v) b) = (view b)[i := with_chain (view b ! i) v]"
    "same_store b (SetChainId i (of_nat v) b)" "rb_size (SetChainId i (of_nat v) b) = rb_size b"
    "HasChainIds (SetChainId i (of_nat v) b) = HasChainIds b"
proof -
  let ?b = "SetChainId i (of_nat v) b"
  show st: "same_store b ?b" by (simp add: same_store_def SetChainId_def)
  have cols: "columns_ok b" "buffer_ok b {..<rb_size b}" using b by (auto simp: live_ok_def)
  show "live_ok ?b"
    using cols same_store_ok [OF st, of "{..<rb_size b}"]
    by (auto simp: live_ok_def columns_ok_def SetChainId_def split: option.splits)
  show sz: "rb_size ?b = rb_size b" "HasChainIds ?b = HasChainIds b" by (simp_all add: SetChainId_def HasChainIds_def)
  have "i < length c" if "rb_chain_ids b = Some c" for c using cols i that by (auto simp: columns_ok_def)
  then have ch: "chain_at ?b j = (if j = i then map_option (\<lambda>_. of_nat v) (chain_at b j) else chain_at b j)" for j
    by (cases "rb_chain_ids b") (auto simp: chain_at_def SetChainId_def)
  have "ray_view ?b j = ((view b)[i := with_chain (view b ! i) v]) ! j" if "j < rb_size b" for j
    using that i by (auto simp: ray_view_def same_store_path [OF st] ch view_nth with_chain_def nth_list_update)
      (simp_all add: SetChainId_def)
  then show "view ?b = (view b)[i := with_chain (view b ! i) v]"
    by (intro nth_equalityI) (simp_all add: sz view_nth)
qed

lemma intern_carried_spec:
  assumes "live_ok b" and "HasChainIds b" and "view b = old @ es" and "intern_all cc es table = (is, table')"
  shows "\<exists>b'. fold (intern_carried cc) [length old..<length old + length es] (b, table) = (b', table') \<and> live_ok b' \<and>
    view b' = old @ map2 with_chain es is \<and> same_store b b' \<and> HasChainIds b'"
  using assms
proof (induction es arbitrary: old b table "is")
  case Nil
  then show ?case by (simp add: same_store_def)
next
  case (Cons e es)
  let ?i = "length old"
  have i: "?i < rb_size b" and at: "view b ! ?i = e"
    using view_length [of b] unfolding Cons.prems(3) by simp_all
  obtain v t1 where v: "intern_entry cc e table = (v, t1)" by (cases "intern_entry cc e table")
  then obtain vs where vs: "intern_all cc es t1 = (vs, table')" "is = v # vs"
    using Cons.prems(4) by (auto simp: Let_def split: prod.splits)
  define b1 where "b1 = SetChainId ?i (of_nat v) b"
  note S = set_chain_view [OF Cons.prems(1) i, of v, folded b1_def]
  have step: "intern_carried cc ?i (b, table) = (b1, t1)"
    using v by (simp add: intern_carried_def intern_view [OF Cons.prems(1) i Cons.prems(2)] at b1_def)
  have "view b1 = (old @ [with_chain e v]) @ es" using S(2) by (simp add: at Cons.prems(3) list_update_append)
  from Cons.IH [OF S(1) _ this vs(1)] S(5) Cons.prems(2) obtain b' where b':
    "fold (intern_carried cc) [Suc ?i..<Suc ?i + length es] (b1, t1) = (b', table')" "live_ok b'"
    "view b' = (old @ [with_chain e v]) @ map2 with_chain es vs" "same_store b1 b'" "HasChainIds b'"
    by auto
  have "[?i..<?i + length (e # es)] = ?i # [Suc ?i..<Suc ?i + length es]" by (simp add: upt_rec)
  then have "fold (intern_carried cc) [?i..<?i + length (e # es)] (b, table) = (b', table')"
    using b'(1) by (simp add: step)
  then show ?case using b'(2-5) same_store_trans [OF S(3)] vs(2) by auto
qed

lemma intern_obs: "intern_entry cc (obs e) table = intern_entry cc e table"
  by (cases e) (simp add: intern_entry_def obs_def)

lemma intern_all_obs: "intern_all cc (map obs es) table = intern_all cc es table"
  by (induction es arbitrary: table) (simp_all add: intern_obs)

lemma with_chain_obs: "with_chain (obs e) i = obs (with_chain e i)"
  by (cases e) (simp add: with_chain_def obs_def)

lemma map2_with_chain_obs: "map2 with_chain (map obs es) is = map obs (map2 with_chain es is)"
  by (induction es arbitrary: "is"; case_tac "is") (simp_all add: with_chain_obs)

lemma chain_carried_obs: "chain_carried ctx (map obs es) table = map_prod (map obs) id (chain_carried ctx es table)"
proof (cases "hc_chain ctx")
  case (Some cc)
  then show ?thesis
    by (cases "intern_all cc es table") (simp add: chain_carried_def intern_all_obs map2_with_chain_obs)
qed (simp add: chain_carried_def)

lemma chain_emitted_obs: "chain_emitted ctx (map obs es) table = chain_emitted ctx es table"
  by (simp add: chain_emitted_def intern_all_obs split: option.split)

section \<open>Packing the emitted rays\<close>

lemma packed_append:
  "packed_d (xs @ ys) = packed_d xs @ packed_d ys" "packed_w (xs @ ys) = packed_w xs @ packed_w ys"
  "packed_component (xs @ ys) = packed_component xs @ packed_component ys"
  by (simp_all add: packed_d_def packed_w_def packed_component_def)

lemma packed_obs:
  "packed_d (map obs es) = packed_d es" "packed_w (map obs es) = packed_w es"
  "packed_component (map obs es) = packed_component es"
  by (auto simp: packed_d_def packed_w_def packed_component_def obs_def split_def comp_def)

lemma tally_obs: "tally_of ctx (map obs es) t = tally_of ctx es t"
  by (auto simp: tally_of_def fold_map obs_def split_def comp_def)

definition emits :: "HitCtx \<Rightarrow> entry list \<Rightarrow> 'g HitState \<Rightarrow> 'g HitState" where
  "emits ctx es s = s\<lparr> hs_outgoing_d := hs_outgoing_d s @ packed_d es, hs_outgoing_w := hs_outgoing_w s @ packed_w es,
     hs_outgoing_component := hs_outgoing_component s @ packed_component es,
     hs_outgoing_chain_id := hs_outgoing_chain_id s @ fst (chain_emitted ctx es (hs_table s)),
     hs_table := snd (chain_emitted ctx es (hs_table s)), hs_tally := tally_of ctx es (hs_tally s) \<rparr>"

lemma emits_Nil [simp]: "emits ctx [] s = s"
  by (simp add: emits_def packed_d_def packed_w_def packed_component_def chain_emitted_def tally_of_def
      split: option.split)

lemma emits_Cons: "emits ctx es (emits ctx [e] s) = emits ctx (e # es) s"
  using packed_append [of "[e]" es]
  by (simp add: emits_def chain_emitted_def tally_of_def split_def Let_def split: option.split)

lemma emit_one_spec:
  assumes b: "live_ok (hs_out s)" and j: "j < rb_size (hs_out s)" and h: "hc_chain ctx \<noteq> None \<Longrightarrow> HasChainIds (hs_out s)"
  shows "emit_one ctx j s = emits ctx (emitted [view (hs_out s) ! j]) s"
proof -
  obtain p m ch where e: "view (hs_out s) ! j = (rb_rays (hs_out s) ! j, p, m, ch)" "m = ComponentAt (hs_out s) j"
    by (simp add: view_nth [OF j] ray_view_def ComponentAt_def)
  show ?thesis
    using intern_view [OF b j] h
    by (auto simp: emit_one_def emits_def tally_of_def e packed_d_def packed_w_def packed_component_def chain_emitted_def Let_def
        split_def split: option.splits)
qed

lemma emits_out [simp]: "hs_out (emits ctx es s) = hs_out s"
  by (simp add: emits_def)

lemma emit_loop_spec:
  assumes b: "live_ok (hs_out s)" and h: "hc_chain ctx \<noteq> None \<Longrightarrow> HasChainIds (hs_out s)"
    and "view (hs_out s) = done @ es"
  shows "fold (emit_one ctx) [length done..<length done + length es] s = emits ctx (emitted es) s"
  using assms
proof (induction es arbitrary: "done" s)
  case (Cons e es)
  let ?i = "length done"
  have i: "?i < rb_size (hs_out s)" and at: "view (hs_out s) ! ?i = e"
    using view_length [of "hs_out s"] unfolding Cons.prems(3) by simp_all
  let ?s = "emits ctx (emitted [e]) s"
  have one: "emit_one ctx ?i s = ?s" using emit_one_spec [OF Cons.prems(1) i Cons.prems(2)] by (simp only: at)
  have "fold (emit_one ctx) [length (done @ [e])..<length (done @ [e]) + length es] ?s = emits ctx (emitted es) ?s"
    using Cons.prems by (intro Cons.IH) simp_all
  moreover have "[?i..<?i + length (e # es)] = ?i # [Suc ?i..<Suc ?i + length es]" by (simp add: upt_rec)
  ultimately show ?case by (simp add: one emits_Cons)
qed simp

section \<open>One hit\<close>

text \<open>
  What the loop needs to take \<open>k\<close> more hits with at most \<open>N\<close> rays inside: room in the buffers, and arena
  slots for the paths beyond fifteen faces, for \<open>m\<close> hits; \<open>C\<close>
  bounds the rays handed on at the end.  A ray hands on at most one ray per hit, and two at its last.
\<close>

definition loop_ok :: "HitCtx \<Rightarrow> nat \<Rightarrow> nat \<Rightarrow> nat \<Rightarrow> nat \<Rightarrow> 'g HitState \<Rightarrow> bool" where
  "loop_ok ctx N C m k s \<longleftrightarrow>
     crystal_ok (hc_crystal ctx) \<and> 0 < hc_index ctx \<and>
     whole (hs_in s) \<and> live_ok (hs_in s) \<and> live_ok (hs_out s) \<and> live_ok (hs_next s) \<and> live_ok (hs_all s) \<and>
     HasChainIds (hs_in s) = HasChainIds (hs_out s) \<and> HasChainIds (hs_next s) = HasChainIds (hs_out s) \<and>
     (hc_chain ctx \<noteq> None \<longrightarrow> HasChainIds (hs_out s)) \<and>
     list_all (\<lambda>e. hit_ok (hc_crystal ctx) (fst e)) (view (hs_in s)) \<and>
     rb_size (hs_in s) \<le> N \<and> N < rb_capacity (hs_in s) \<and> 2 * N \<le> rb_capacity (hs_out s) \<and>
     rb_size (hs_next s) + rb_size (hs_in s) * (k + 1) \<le> C \<and> C < rb_capacity (hs_next s) \<and>
     rb_overflow_used (hs_in s) + 2 * N * m \<le> 0xFFFE \<and> rb_overflow_used (hs_out s) + 4 * N * m \<le> 0xFFFE \<and>
     rb_overflow_used (hs_next s) + 2 * N * m \<le> 0xFFFE \<and> rb_overflow_used (hs_all s) + 2 * N * m \<le> 0xFFFE"

lemma emplace_one_used: "emplace_one src i b = Some b' \<Longrightarrow> rb_overflow_used b' \<le> rb_overflow_used b + 1"
  by (auto simp: emplace_one_def Let_def frame_def SetComponent_def SetChainId_def put_ray_def put_recorder_def
      dest!: Dup_frame split: if_splits)

lemma emplace_loop_used: "emplace_loop src is b = Some b' \<Longrightarrow> rb_overflow_used b' \<le> rb_overflow_used b + length is"
proof (induction "is" arbitrary: b)
  case (Cons i "is")
  then show ?case using emplace_one_used by (fastforce simp: bind_eq_Some_conv split: if_splits)
qed simp

lemma EmplaceBack_all:
  assumes "live_ok src" and "live_ok b" and "rb_overflow_used b + rb_size src \<le> 0xFFFE"
  shows "\<exists>b'. EmplaceBack_buffer src 0 (2 ^ 64 - 1) b = Some b' \<and> live_ok b' \<and> rb_capacity b' = rb_capacity b \<and>
    rb_overflow_used b' \<le> rb_overflow_used b + rb_size src"
proof -
  from EmplaceBack_buffer_spec [OF assms, of 0 "2 ^ 64 - 1"] obtain b'
    where b': "EmplaceBack_buffer src 0 (2 ^ 64 - 1) b = Some b'" "live_ok b'" "rb_capacity b' = rb_capacity b" by auto
  have "rb_overflow_used b' \<le> rb_overflow_used b + length [0..<min ((0 + (2 ^ 64 - 1)) mod 2 ^ 64) (rb_size src)]"
    by (rule emplace_loop_used) (use b'(1) in \<open>simp add: EmplaceBack_buffer_def Let_def\<close>)
  with b' show ?thesis by auto
qed

text \<open>At most one child of a ray stays, and it may be traced in its turn.\<close>

lemma still_children_ok:
  assumes "crystal_ok c" and "0 < n" and "hit_ok c (fst e)"
  shows "length (filter (\<lambda>e. stays (fst e)) (spec_children c n e)) \<le> 1"
    "x \<in> set (spec_children c n e) \<Longrightarrow> stays (fst x) \<Longrightarrow> hit_ok c (fst x)"
proof -
  obtain q p m ch where e: "e = (q, p, m, ch)" by (cases e)
  obtain a b where ab: "children c n q (blank, blank) = (a, b)" by (cases "children c n q (blank, blank)")
  note S = children_spec [OF assms(1,2) assms(3) [unfolded e fst_conv] ab]
  have inh: "stays (inherit q r) = stays r" "hit_ok c (inherit q r) = hit_ok c r" for r
    by (simp_all add: inherit_def stays_iff hit_ok_def cos_at_def)
  define x0 where "x0 = note_face c (born c n (blank, blank) 0 e)"
  define x1 where "x1 = note_face c (born c n (blank, blank) 1 e)"
  have x: "fst x0 = inherit q a" "fst x1 = inherit q b"
    by (simp_all add: x0_def x1_def e born_def note_face_def child_def ab)
  have eq: "spec_children c n e = filter visible [x0, x1]" by (simp add: spec_children_def x0_def x1_def)
  show "length (filter (\<lambda>e. stays (fst e)) (spec_children c n e)) \<le> 1"
    using S(3) by (simp add: eq x inh)
  show "x \<in> set (spec_children c n e) \<Longrightarrow> stays (fst x) \<Longrightarrow> hit_ok c (fst x)"
    using S(1,2) by (auto simp: eq x inh split: if_split_asm)
qed

lemma gate_keeps_inside:
  "stays (fst (snd (gate_entry fl uni ctx rng e))) \<longleftrightarrow> stays (fst e)"
  "stays (fst e) \<Longrightarrow> snd (gate_entry fl uni ctx rng e)
     = ((fst e)\<lparr> is_continue := False \<rparr>, snd e)"
  by (cases e; auto simp: gate_entry_def Let_def stays_iff to_world_def split_def)+

lemma gate_all_inside:
  "staying (snd (gate_all fl uni ctx rng es))
     = map (\<lambda>e. ((fst e)\<lparr> is_continue := False \<rparr>, snd e)) (staying es)"
  by (induction es arbitrary: rng) (simp_all add: split_def Let_def gate_keeps_inside)

text \<open>A gated ray does not both stay and continue, so a hit gives at most as many of them as it has children.\<close>

lemma staying_or_continuing:
  assumes "gate_all fl uni ctx rng es = (g, es')"
  shows "length (staying es') + length (continuing es') \<le> length es"
  using assms
proof (induction es arbitrary: rng es')
  case (Cons e es)
  obtain r1 e1 where e1: "gate_entry fl uni ctx rng e = (r1, e1)" by (cases "gate_entry fl uni ctx rng e")
  then obtain es1 where es1: "gate_all fl uni ctx r1 es = (g, es1)" "es' = e1 # es1"
    using Cons.prems by (auto simp: Let_def split: prod.splits)
  have "\<not> (stays (fst e1) \<and> IsContinue (fst e1))"
    using gate_keeps_inside(1) [of fl uni ctx rng e] gate_keeps_inside(2) [of e fl uni ctx rng] e1 by (auto simp: IsContinue_def)
  then show ?case using Cons.IH [OF es1(1)] by (auto simp: es1(2))
qed simp

lemma hit_ok_cong: "hit_ok c (r\<lparr> is_continue := x \<rparr>) = hit_ok c r" "hit_ok c (r\<lparr> prev_ray_idx := y \<rparr>) = hit_ok c r"
  by (simp_all add: hit_ok_def cos_at_def)

lemma obs_hit_ok: "hit_ok c (fst (obs e)) = hit_ok c (fst e)"
  by (cases e) (simp add: obs_def hit_ok_cong)

lemma concat_staying:
  assumes "crystal_ok c" and "0 < n" and "list_all (\<lambda>e. hit_ok c (fst e)) es"
  shows "length (staying (concat (map (spec_children c n) es))) \<le> length es"
    "list_all (\<lambda>e. hit_ok c (fst e)) (staying (concat (map (spec_children c n) es)))"
proof -
  show "length (staying (concat (map (spec_children c n) es))) \<le> length es"
    using assms(3)
  proof (induction es)
    case (Cons e es)
    then show ?case using still_children_ok(1) [OF assms(1,2), of e] by simp
  qed simp
  show "list_all (\<lambda>e. hit_ok c (fst e)) (staying (concat (map (spec_children c n) es)))"
    using assms(3) still_children_ok(2) [OF assms(1,2)] by (auto simp: list_all_iff)
qed

lemma spec_inside:
  assumes "crystal_ok (hc_crystal ctx)" and "0 < hc_index ctx"
    and "list_all (\<lambda>e. hit_ok (hc_crystal ctx) (fst e)) (ss_inside a)"
  shows "length (ss_inside (spec_hit fl uni ctx a)) \<le> length (ss_inside a)"
    "list_all (\<lambda>e. hit_ok (hc_crystal ctx) (fst e)) (ss_inside (spec_hit fl uni ctx a))"
proof -
  let ?es = "concat (map (spec_children (hc_crystal ctx) (hc_index ctx)) (ss_inside a))"
  have "ss_inside (spec_hit fl uni ctx a) = staying (snd (gate_all fl uni ctx (ss_rng a) ?es))"
    by (simp add: spec_hit_def split_def Let_def)
  also have "\<dots> = map (\<lambda>e. ((fst e)\<lparr> is_continue := False \<rparr>, snd e)) (staying ?es)" by (rule gate_all_inside)
  finally have eq: "ss_inside (spec_hit fl uni ctx a) = map (\<lambda>e. ((fst e)\<lparr> is_continue := False \<rparr>, snd e)) (staying ?es)" .
  note C = concat_staying [OF assms]
  show "length (ss_inside (spec_hit fl uni ctx a)) \<le> length (ss_inside a)" using C(1) by (simp add: eq)
  show "list_all (\<lambda>e. hit_ok (hc_crystal ctx) (fst e)) (ss_inside (spec_hit fl uni ctx a))"
    using C(2) by (simp add: eq list_all_iff hit_ok_cong)
qed

lemma chain_step:
  assumes "live_ok b" and "hc_chain ctx \<noteq> None \<Longrightarrow> HasChainIds b" and "view b = old @ es"
    and "chain_carried ctx es table = (cy, table')" and "start = length old"
  shows "\<exists>b'. (case hc_chain ctx of None \<Rightarrow> (b, table)
      | Some cc \<Rightarrow> fold (intern_carried cc) [start..<rb_size b] (b, table)) = (b', table') \<and>
    live_ok b' \<and> view b' = old @ cy \<and> same_store b b' \<and> HasChainIds b' = HasChainIds b"
proof (cases "hc_chain ctx")
  case None
  then show ?thesis using assms by (simp add: chain_carried_def same_store_def)
next
  case (Some cc)
  then have h: "HasChainIds b" using assms(2) by simp
  obtain "is" where i: "intern_all cc es table = (is, table')" "cy = map2 with_chain es is"
    using assms(4) Some by (cases "intern_all cc es table") (auto simp: chain_carried_def)
  have "rb_size b = start + length es" using view_length [of b] unfolding assms(3) by (simp add: assms(5))
  then show ?thesis using intern_carried_spec [OF assms(1) h assms(3) i(1)] i(2) Some h assms(5) by auto
qed

text \<open>The first half of a hit: the children, in the second buffer, with their faces recorded.\<close>

lemma traced_children:
  assumes L: "loop_ok ctx N C (Suc m) (Suc k) s"
  shows "\<exists>b1. TraceRayBasicInfo (hc_crystal ctx) (hc_index ctx) (rb_size (hs_in s)) (hs_in s, hs_out s)
        = Some ((hs_in s)\<lparr> rb_size := 0 \<rparr>, b1) \<and>
      live_ok (FillRayOtherInfo (hc_crystal ctx) b1) \<and> rb_size (FillRayOtherInfo (hc_crystal ctx) b1) = 2 * rb_size (hs_in s) \<and>
      map still (filter visible (view (FillRayOtherInfo (hc_crystal ctx) b1)))
        = concat (map (spec_children (hc_crystal ctx) (hc_index ctx)) (map obs (view (hs_in s)))) \<and>
      rb_capacity (FillRayOtherInfo (hc_crystal ctx) b1) = rb_capacity (hs_out s) \<and>
      HasChainIds (FillRayOtherInfo (hc_crystal ctx) b1) = HasChainIds (hs_out s) \<and>
      rb_overflow_used (FillRayOtherInfo (hc_crystal ctx) b1) \<le> rb_overflow_used (hs_out s) + 4 * rb_size (hs_in s)"
proof -
  let ?n = "rb_size (hs_in s)" and ?c = "hc_crystal ctx" and ?fill = "FillRayOtherInfo (hc_crystal ctx)"
  have room: "rb_overflow_used (hs_out s) + 4 * N \<le> 0xFFFE" and n: "?n \<le> N" using L by (auto simp: loop_ok_def)
  obtain b1 where b1: "TraceRayBasicInfo ?c (hc_index ctx) ?n (hs_in s, hs_out s) = Some ((hs_in s)\<lparr> rb_size := 0 \<rparr>, b1)"
      "live_ok b1" "view b1 = map (\<lambda>j. born ?c (hc_index ctx) (slot_pair (rb_rays (hs_out s)) (j div 2)) (j mod 2)
        (view (hs_in s) ! (j div 2))) [0..<2 * ?n]"
      "rb_capacity b1 = rb_capacity (hs_out s)" "HasChainIds b1 = HasChainIds (hs_out s)"
      "rb_overflow_used b1 \<le> rb_overflow_used (hs_out s) + 2 * ?n"
    using TraceRayBasicInfo_spec [of "hs_in s" "hs_out s" ?c "hc_index ctx"] L n room by (auto simp: loop_ok_def)
  have size: "rb_size b1 = 2 * ?n" using view_length [of b1] unfolding b1(3) by simp
  have "rb_overflow_used b1 + rb_size b1 \<le> 0xFFFE" using b1(6) size n room by simp
  note F = FillRayOtherInfo_spec [OF b1(2) this, of ?c]
  have faces: "\<And>e. e \<in> set (view (hs_in s)) \<Longrightarrow> to_face (fst e) \<noteq> kInvalidId"
    using L crystal_okD(1) by (auto simp: loop_ok_def list_all_iff hit_ok_def)
  have "view (?fill b1) = map (\<lambda>j. note_face ?c (born ?c (hc_index ctx) (slot_pair (rb_rays (hs_out s)) (j div 2)) (j mod 2)
        (view (hs_in s) ! (j div 2)))) [0..<2 * length (view (hs_in s))]"
    unfolding F(2) b1(3) by (simp add: comp_def)
  then have "map still (filter visible (view (?fill b1))) = concat (map (spec_children ?c (hc_index ctx)) (view (hs_in s)))"
    using born_list [where es = "view (hs_in s)" and outs = "slot_pair (rb_rays (hs_out s))", OF faces] by simp
  also have "\<dots> = concat (map (spec_children ?c (hc_index ctx)) (map obs (view (hs_in s))))"
    by (simp add: obs_children comp_def)
  finally show ?thesis using b1 F size by (auto simp: frame_def same_columns_def HasChainIds_def)
qed

lemma hit_once_refines:
  assumes L: "loop_ok ctx N C (Suc m) (Suc k) s" and A: "implements s a"
  shows "\<exists>s'. hit_once fl uni ctx s = Some s' \<and> loop_ok ctx N C m k s' \<and> implements s' (spec_hit fl uni ctx a) \<and>
    rb_capacity (hs_next s') = rb_capacity (hs_next s) \<and> HasChainIds (hs_out s') = HasChainIds (hs_out s)"
proof -
  let ?n = "rb_size (hs_in s)" and ?c = "hc_crystal ctx"
  let ?kids = "concat (map (spec_children ?c (hc_index ctx)) (ss_inside a))"
  have inside: "ss_inside a = map obs (view (hs_in s))" and rng: "ss_rng a = hs_rng s" using A by (simp_all add: implements_def)
  obtain b1 where tr: "TraceRayBasicInfo ?c (hc_index ctx) ?n (hs_in s, hs_out s) = Some ((hs_in s)\<lparr> rb_size := 0 \<rparr>, b1)"
    and b2: "live_ok (FillRayOtherInfo ?c b1)" "rb_size (FillRayOtherInfo ?c b1) = 2 * ?n"
      "map still (filter visible (view (FillRayOtherInfo ?c b1))) = ?kids"
      "rb_capacity (FillRayOtherInfo ?c b1) = rb_capacity (hs_out s)"
      "HasChainIds (FillRayOtherInfo ?c b1) = HasChainIds (hs_out s)"
      "rb_overflow_used (FillRayOtherInfo ?c b1) \<le> rb_overflow_used (hs_out s) + 4 * ?n"
    using traced_children [OF L] unfolding inside by blast
  define c2 where "c2 = FillRayOtherInfo ?c b1"
  note b2 = b2 [folded c2_def]
  define b0 where "b0 = (hs_in s)\<lparr> rb_size := 0 \<rparr>"
  have live: "live_ok (hs_in s)" "live_ok (hs_next s)" "live_ok (hs_all s)" and n: "?n \<le> N"
    and cap: "N < rb_capacity (hs_in s)" "2 * N \<le> rb_capacity (hs_out s)" "rb_size (hs_next s) + ?n * (k + 2) \<le> C" "C < rb_capacity (hs_next s)"
    and used: "rb_overflow_used (hs_in s) + 2 * N + 2 * N * m \<le> 0xFFFE" "rb_overflow_used (hs_next s) + 2 * N + 2 * N * m \<le> 0xFFFE"
      "rb_overflow_used (hs_all s) + 2 * N + 2 * N * m \<le> 0xFFFE" "rb_overflow_used (hs_out s) + 4 * N + 4 * N * m \<le> 0xFFFE"
    and ch: "HasChainIds (hs_in s) = HasChainIds (hs_out s)" "HasChainIds (hs_next s) = HasChainIds (hs_out s)"
      "hc_chain ctx \<noteq> None \<Longrightarrow> HasChainIds (hs_out s)"
    and ok: "crystal_ok ?c" "0 < hc_index ctx" "list_all (\<lambda>e. hit_ok ?c (fst e)) (view (hs_in s))"
    using L by (auto simp: loop_ok_def algebra_simps)
  have b0: "live_ok b0" "view b0 = []" "rb_capacity b0 = rb_capacity (hs_in s)" "rb_size b0 = 0"
    "rb_overflow_used b0 = rb_overflow_used (hs_in s)" "HasChainIds b0 = HasChainIds (hs_in s)"
    using live(1) by (auto simp: b0_def live_ok_def columns_ok_def buffer_ok_def arena_ok_def view_def HasChainIds_def
        split: option.splits)
  obtain g es where es: "gate_all fl uni ctx (hs_rng s) (view c2) = (g, es)"
    by (cases "gate_all fl uni ctx (hs_rng s) (view c2)")
  obtain g2 es2 where es2: "gate_all fl uni ctx (hs_rng s) ?kids = (g2, es2)" by (cases "gate_all fl uni ctx (hs_rng s) ?kids")
  have sp: "g2 = g" "staying es2 = map obs (staying es)" "continuing es2 = map obs (continuing es)"
    "emitted es2 = map obs (emitted es)"
    using gate_all_visible [OF es] es2 by (auto simp: b2(3))
  have ok': "list_all (\<lambda>e. hit_ok ?c (fst e)) (ss_inside a)"
    using ok(3) by (simp add: inside list_all_iff obs_hit_ok)
  have si: "ss_inside (spec_hit fl uni ctx a) = staying es2" by (simp add: spec_hit_def rng es2 split_def Let_def)
  have pop: "length (staying es) \<le> ?n" "list_all (\<lambda>e. hit_ok ?c (fst e)) (staying es)"
    using spec_inside [OF ok(1,2) ok', where fl = fl and uni = uni]
    by (simp_all add: si sp(2) inside list_all_iff obs_hit_ok)
  have len: "length es = 2 * ?n" using gate_all_length [of fl uni ctx "hs_rng s" "view c2"] by (simp add: es b2(2))
  have "length (staying es) + length (continuing es) \<le> 2 * ?n"
    using staying_or_continuing [OF es] by (simp add: b2(2))
  then have fits: "length (continuing es) + length (staying es) * (k + 1) \<le> ?n * (k + 2)"
    using mult_le_mono [OF pop(1) order_refl [of k]] by (simp only: distrib_left mult_2_right)
  then have "\<exists>st'. collect_loop fl uni ctx [length ([] :: entry list)..<length ([] :: entry list) + length (view c2)]
        (hs_rng s, b0, c2, hs_next s) = Some st' \<and>
      collects (hs_rng s, b0, c2, hs_next s) st' g (length (view c2)) [] es"
    using b0 b2 live n cap used ch pop es by (intro collect_loop_spec) auto
  then obtain d0 d1 dn where col: "CollectData fl uni ctx (hs_rng s, b0, c2, hs_next s) = Some (g, d0, d1, dn)"
    and d: "live_ok d0" "live_ok d1" "live_ok dn" "view d1 = es" "view d0 = staying es" "view dn = view (hs_next s) @ continuing es"
      "same_store c2 d1" "rb_capacity d0 = rb_capacity b0" "rb_capacity dn = rb_capacity (hs_next s)"
      "HasChainIds d0 = HasChainIds b0" "HasChainIds d1 = HasChainIds c2" "HasChainIds dn = HasChainIds (hs_next s)"
      "whole b0 \<longrightarrow> whole d0" "rb_overflow_used d0 \<le> rb_overflow_used b0 + 2 * ?n" "rb_overflow_used dn \<le> rb_overflow_used (hs_next s) + 2 * ?n"
    by (auto simp: CollectData_def collects_def b0(2) b2(2))
  obtain cy t1 where t1: "chain_carried ctx (continuing es) (hs_table s) = (cy, t1)"
    by (cases "chain_carried ctx (continuing es) (hs_table s)")
  obtain e where e: "(case hc_chain ctx of None \<Rightarrow> (dn, hs_table s)
        | Some cc \<Rightarrow> fold (intern_carried cc) [rb_size (hs_next s)..<rb_size dn] (dn, hs_table s)) = (e, t1)"
      "live_ok e" "view e = view (hs_next s) @ cy" "same_store dn e" "HasChainIds e = HasChainIds dn"
    using chain_step [OF d(3) _ d(6) t1, of "rb_size (hs_next s)"] ch d(12) by auto
  have "rb_overflow_used (hs_all s) + rb_size d1 \<le> 0xFFFE"
    using view_length [of d1] used(3) n by (simp add: d(4) len)
  then obtain al where al: "EmplaceBack_buffer d1 0 (2 ^ 64 - 1) (hs_all s) = Some al" "live_ok al"
      "rb_overflow_used al \<le> rb_overflow_used (hs_all s) + rb_size d1"
    using EmplaceBack_all [OF d(2) live(3)] by blast
  define s1 where "s1 = s\<lparr> hs_rng := g, hs_in := d0, hs_out := d1, hs_next := e, hs_all := al, hs_table := t1 \<rparr>"
  have out: "hs_out s1 = d1" by (simp add: s1_def)
  have "fold (emit_one ctx) [length ([] :: entry list)..<length ([] :: entry list) + length es] s1 = emits ctx (emitted es) s1"
    using d(2,4,11) b2(5) ch(3) by (intro emit_loop_spec) (auto simp: out)
  then have em: "fold (emit_one ctx) [0..<rb_size d1] s1 = emits ctx (emitted es) s1"
    using view_length [of d1] by (simp add: d(4))
  define s' where "s' = emits ctx (emitted es) s1"
  have "hit_once fl uni ctx s = Some s'"
    using tr col e(1) al(1) em by (simp add: hit_once_def c2_def [symmetric] b0_def [symmetric] Let_def s1_def s'_def)
  moreover have "rb_capacity (hs_next s') = rb_capacity (hs_next s)" "HasChainIds (hs_out s') = HasChainIds (hs_out s)"
    using d(9,11) b2(5) e(4) by (simp_all add: s'_def emits_def s1_def same_store_def)
  moreover have "implements s' (spec_hit fl uni ctx a)"
  proof -
    have cc: "chain_carried ctx (continuing es2) (ss_table a) = (map obs cy, t1)"
      using A chain_carried_obs [of ctx "continuing es" "ss_table a"] t1 by (simp add: implements_def sp(3))
    have "chain_emitted ctx (emitted es2) t1 = chain_emitted ctx (emitted es) t1" by (simp add: sp(4) chain_emitted_obs)
    then show ?thesis
      using A d(5) e(3) cc by (simp add: implements_def spec_hit_def es2 rng Let_def split_def s'_def s1_def emits_def sp
          packed_append packed_obs tally_obs)
  qed
  moreover have "loop_ok ctx N C m k s'"
  proof -
    have sz: "rb_size d0 \<le> ?n" "rb_size d1 = 2 * ?n" using view_length [of d0] view_length [of d1] pop(1) by (simp_all add: d(4,5) len)
    have "length cy = length (continuing es)"
    proof (cases "hc_chain ctx")
      case (Some cc)
      have "length (fst (intern_all cc xs t)) = length xs" for xs t
        by (induction xs arbitrary: t) (simp_all add: split_def Let_def)
      from this [of "continuing es" "hs_table s"] show ?thesis
        using t1 Some by (auto simp: chain_carried_def split: prod.splits)
    qed (use t1 in \<open>simp add: chain_carried_def\<close>)
    then have "rb_size e = rb_size (hs_next s) + length (continuing es)"
      using view_length [of e] by (simp add: e(3))
    moreover have "rb_size d0 = length (staying es)" using view_length [of d0] by (simp add: d(5))
    ultimately have "rb_size e + rb_size d0 * (k + 1) \<le> C" using fits cap(3) by simp
    moreover have "whole d0" using L d(13) by (simp add: loop_ok_def b0_def whole_def)
    ultimately show ?thesis
      using ok(1,2) d b0 b2 e al sz pop(2) n cap used ch by (auto simp: loop_ok_def s'_def emits_def s1_def same_store_def)
  qed
  ultimately show ?thesis by blast
qed

section \<open>The loop\<close>

lemma hit_loop_refines:
  assumes "loop_ok ctx N C (m + k) k s" and "implements s a"
  shows "\<exists>s'. hit_loop fl uni ctx k s = Some s' \<and> loop_ok ctx N C m 0 s' \<and> implements s' ((spec_hit fl uni ctx ^^ k) a) \<and>
    rb_capacity (hs_next s') = rb_capacity (hs_next s) \<and> HasChainIds (hs_out s') = HasChainIds (hs_out s)"
  using assms
proof (induction k arbitrary: s a)
  case (Suc k)
  obtain s1 where s1: "hit_once fl uni ctx s = Some s1" "loop_ok ctx N C (m + k) k s1" "implements s1 (spec_hit fl uni ctx a)"
      "rb_capacity (hs_next s1) = rb_capacity (hs_next s)" "HasChainIds (hs_out s1) = HasChainIds (hs_out s)"
    using hit_once_refines [OF Suc.prems(1) [unfolded add_Suc_right] Suc.prems(2)] by metis
  from Suc.IH [OF s1(2,3)] show ?case by (simp add: s1(1,4,5) funpow_swap1)
qed auto

text \<open>An invariant of the specification carries over to what the loop emits and hands on.\<close>

lemma spec_invariant:
  assumes "\<And>a. I a \<Longrightarrow> I (spec_hit fl uni ctx a)" and "I a"
  shows "I ((spec_hit fl uni ctx ^^ k) a)"
  using assms by (induction k) simp_all

section \<open>Energy\<close>

definition energy :: "entry list \<Rightarrow> real" where
  "energy es = sum_list (map (\<lambda>e. seg_w (fst e)) es)"

lemma energy_simps [simp]:
  "energy [] = 0" "energy (e # es) = seg_w (fst e) + energy es"
  "energy (xs @ ys) = energy xs + energy ys"
  by (simp_all add: energy_def)

lemma children_weight:
  assumes "crystal_ok c" and "0 < n" and "hit_ok c (fst e)"
  shows "energy (spec_children c n e) = seg_w (fst e)" "list_all visible (spec_children c n e)"
proof -
  obtain q p m ch where e: "e = (q, p, m, ch)" by (cases e)
  obtain a b where ab: "children c n q (blank, blank) = (a, b)" by (cases "children c n q (blank, blank)")
  note S = children_spec [OF assms(1,2) assms(3) [unfolded e fst_conv] ab]
  define x0 where "x0 = note_face c (born c n (blank, blank) 0 e)"
  define x1 where "x1 = note_face c (born c n (blank, blank) 1 e)"
  have x: "seg_w (fst x0) = seg_w a" "seg_w (fst x1) = seg_w b"
    by (simp_all add: x0_def x1_def e born_def note_face_def child_def ab inherit_def)
  have eq: "spec_children c n e = filter visible [x0, x1]" by (simp add: spec_children_def x0_def x1_def)
  have "fst e = q" by (simp add: e)
  then show "energy (spec_children c n e) = seg_w (fst e)"
    using S(4,5) unfolding eq by (simp add: visible_def x max_def split: if_split_asm)
  show "list_all visible (spec_children c n e)" by (simp add: eq)
qed

text \<open>The gate moves the weight of a ray to one of the lists, or, filtered, to none.\<close>

lemma gate_kinds:
  assumes "visible e" and "gate_entry fl uni ctx rng e = (g, e')"
  obtains (lost) "seg_w (fst e') = - 1" "hc_spec ctx \<noteq> None" "\<not> IsContinue (fst e')"
  | (kept) "seg_w (fst e') = seg_w (fst e)" "IsContinue (fst e') \<Longrightarrow> to_face (fst e') = kInvalidId"
proof -
  obtain r p m ch where e: "e = (r, p, m, ch)" by (cases e)
  have w: "\<not> seg_w r < 0" using assms(1) by (simp add: visible_def e)
  show thesis
  proof (cases "to_face r = kInvalidId \<and> \<not> accepts fl ctx (to_world (r\<lparr> is_continue := False \<rparr>)) p")
    case True
    then have "e' = ((to_world (r\<lparr> is_continue := False \<rparr>))\<lparr> seg_w := - 1 \<rparr>, p, m, ch)"
      using assms(2) w by (simp add: gate_entry_def e Let_def)
    moreover have "hc_spec ctx \<noteq> None" using True by (cases "hc_spec ctx") (simp_all add: accepts_def)
    ultimately show thesis using lost by (simp add: to_world_def IsContinue_def)
  next
    case False
    then have "seg_w (fst e') = seg_w r \<and> (IsContinue (fst e') \<longrightarrow> to_face (fst e') = kInvalidId)"
      using assms(2) w by (auto simp: gate_entry_def e Let_def to_world_def IsContinue_def split_def split: if_split_asm)
    then show thesis using kept by (simp add: e)
  qed
qed

lemma gate_weight:
  assumes "visible e" and "gate_entry fl uni ctx rng e = (g, e')"
  shows "energy (staying [e']) + energy (continuing [e']) + energy (emitted [e']) \<le> seg_w (fst e)"
    "hc_spec ctx = None \<Longrightarrow>
      energy (staying [e']) + energy (continuing [e']) + energy (emitted [e']) = seg_w (fst e)"
proof -
  have w: "0 \<le> seg_w (fst e)" using assms(1) by (simp add: visible_def)
  have "energy (staying [e']) + energy (continuing [e']) + energy (emitted [e']) \<le> seg_w (fst e) \<and>
      (hc_spec ctx = None \<longrightarrow>
        energy (staying [e']) + energy (continuing [e']) + energy (emitted [e']) = seg_w (fst e))"
    using assms
  proof (cases rule: gate_kinds)
    case lost
    then show ?thesis using w by (auto simp: IsNormal_def IsOutgoing_def real_seg_def)
  next
    case kept
    then show ?thesis using w by (auto simp: stays_iff IsContinue_def) (auto simp: IsOutgoing_def real_seg_def)
  qed
  then show "energy (staying [e']) + energy (continuing [e']) + energy (emitted [e']) \<le> seg_w (fst e)"
    "hc_spec ctx = None \<Longrightarrow>
      energy (staying [e']) + energy (continuing [e']) + energy (emitted [e']) = seg_w (fst e)"
    by simp_all
qed

lemma gate_all_weight:
  assumes "list_all visible es" and "gate_all fl uni ctx rng es = (g, es')"
  shows "energy (staying es') + energy (continuing es') + energy (emitted es') \<le> energy es \<and>
    (hc_spec ctx = None \<longrightarrow>
      energy (staying es') + energy (continuing es') + energy (emitted es') = energy es)"
  using assms
proof (induction es arbitrary: rng es')
  case (Cons e es)
  obtain r1 e1 where e1: "gate_entry fl uni ctx rng e = (r1, e1)" by (cases "gate_entry fl uni ctx rng e")
  then obtain es1 where es1: "gate_all fl uni ctx r1 es = (g, es1)" "es' = e1 # es1"
    using Cons.prems(2) by (auto simp: Let_def split: prod.splits)
  have v: "visible e" "list_all visible es" using Cons.prems(1) by simp_all
  have split: "energy (filter P (e1 # es1)) = energy (filter P [e1]) + energy (filter P es1)" for P
    by simp
  show ?case
    unfolding es1(2) split [of "\<lambda>e. stays (fst e)"] split [of "\<lambda>e. IsContinue (fst e)"]
      split [of "\<lambda>e. IsOutgoing real_seg (fst e)"]
    using Cons.IH [OF v(2) es1(1)] gate_weight [OF v(1) e1] by auto
qed simp

definition balance :: "'g SpecState \<Rightarrow> real" where
  "balance a = energy (ss_inside a) + energy (ss_carried a) + energy (ss_emitted a)"

definition inside_ok :: "HitCtx \<Rightarrow> 'g SpecState \<Rightarrow> bool" where
  "inside_ok ctx a \<longleftrightarrow> crystal_ok (hc_crystal ctx) \<and> 0 < hc_index ctx \<and>
     list_all (\<lambda>e. hit_ok (hc_crystal ctx) (fst e)) (ss_inside a)"

lemma inside_ok_spec: "inside_ok ctx a \<Longrightarrow> inside_ok ctx (spec_hit fl uni ctx a)"
  using spec_inside by (auto simp: inside_ok_def)

lemma chain_carried_weight: "chain_carried ctx es t = (es', t') \<Longrightarrow> energy es' = energy es"
proof (cases "hc_chain ctx")
  case (Some cc)
  have "energy (map2 with_chain xs (fst (intern_all cc xs t))) = energy xs" for xs t
    by (induction xs arbitrary: t) (auto simp: split_def Let_def with_chain_def)
  then show "chain_carried ctx es t = (es', t') \<Longrightarrow> ?thesis"
    using Some by (auto simp: chain_carried_def split: prod.splits) (metis fst_conv)
qed (simp add: chain_carried_def)

lemma spec_hit_balance:
  assumes "inside_ok ctx a"
  shows "balance (spec_hit fl uni ctx a) \<le> balance a \<and>
    (hc_spec ctx = None \<longrightarrow> balance (spec_hit fl uni ctx a) = balance a)"
proof -
  let ?kids = "concat (map (spec_children (hc_crystal ctx) (hc_index ctx)) (ss_inside a))"
  obtain g es where es: "gate_all fl uni ctx (ss_rng a) ?kids = (g, es)" by (cases "gate_all fl uni ctx (ss_rng a) ?kids")
  obtain cy t1 where t1: "chain_carried ctx (continuing es) (ss_table a) = (cy, t1)"
    by (cases "chain_carried ctx (continuing es) (ss_table a)")
  have "energy (concat (map (spec_children (hc_crystal ctx) (hc_index ctx)) xs)) = energy xs \<and>
      list_all visible (concat (map (spec_children (hc_crystal ctx) (hc_index ctx)) xs))"
    if "list_all (\<lambda>e. hit_ok (hc_crystal ctx) (fst e)) xs" for xs
    using that assms children_weight [of "hc_crystal ctx" "hc_index ctx"]
    by (induction xs) (auto simp: inside_ok_def)
  then have k: "energy ?kids = energy (ss_inside a)" "list_all visible ?kids"
    using assms by (auto simp: inside_ok_def)
  have "balance (spec_hit fl uni ctx a) = energy (staying es) + energy (continuing es) + energy (emitted es)
      + energy (ss_carried a) + energy (ss_emitted a)"
    using chain_carried_weight [OF t1] by (simp add: balance_def spec_hit_def es t1 split_def Let_def)
  then show ?thesis using gate_all_weight [OF k(2) es] k(1) by (simp add: balance_def)
qed

lemma spec_loop_balance:
  assumes "inside_ok ctx a"
  shows "balance ((spec_hit fl uni ctx ^^ k) a) \<le> balance a \<and>
    (hc_spec ctx = None \<longrightarrow> balance ((spec_hit fl uni ctx ^^ k) a) = balance a)"
proof (induction k)
  case (Suc k)
  have "inside_ok ctx ((spec_hit fl uni ctx ^^ k) a)"
    by (rule spec_invariant) (use assms inside_ok_spec in auto)
  from spec_hit_balance [OF this, of fl uni] Suc show ?case by auto
qed simp

end
