(* ===== verification/Entry_Sampler.thy ===== *)
theory Entry_Sampler
  imports Optics "HOL-Library.Multiset"
begin

text \<open>
  Where a ray enters a crystal (\<open>src/core/simulator.cpp\<close>, \<open>src/core/geo3d.cpp\<close>, \<open>src/core/crystal.cpp\<close>,
  \<open>src/core/shared/pcg_shared.h\<close>): the table of sub-triangles of the faces, the projected-area weight, the
  draw of a triangle by inverse transform and of a point in it.  The uniform draws are arguments.

  The lemmas show that the projected area of a watertight crystal is at most half of its surface, so that
  the cap in \<open>entry_weight\<close> never binds; that the triangle drawn is lit; and that the point is in it.
\<close>

section \<open>The code\<close>

text \<open>The corners of a slot are a list of vertices; \<open>face_vtx_cnt\<close> is its length.\<close>

record CrystalGeom =
  plane_coef :: "real list list"
  face_normal :: "real list list"
  face_number :: "nat list"
  face_present :: "bool list"
  face_vtx :: "real list list list"

definition face_cnt :: "CrystalGeom \<Rightarrow> nat" where
  "face_cnt cf = length (face_present cf)"

definition Cross3 :: "real list \<Rightarrow> real list \<Rightarrow> real list" where
  "Cross3 u v = [u ! 1 * v ! 2 - u ! 2 * v ! 1, u ! 2 * v ! 0 - u ! 0 * v ! 2, u ! 0 * v ! 1 - u ! 1 * v ! 0]"

definition Norm3 :: "real list \<Rightarrow> real" where
  "Norm3 v = sqrt (Dot3r v v)"

definition PopulateFromCfGeom :: "CrystalGeom \<Rightarrow> CrystalFaces" where
  "PopulateFromCfGeom cf =
     fold (\<lambda>slot c.
        if \<not> face_present cf ! slot then c
        else
          let coef = plane_coef cf ! slot; norm = Norm3 coef
          in c\<lparr> poly_n := poly_n c @ [face_normal cf ! slot],
                poly_d := poly_d c @ [if norm > kFloatEps then coef ! 3 / norm else 0],
                poly_fn := poly_fn c @ [face_number cf ! slot mod 65536] \<rparr>)
       [0..<face_cnt cf] \<lparr> poly_n = [], poly_d = [], poly_fn = [] \<rparr>"

record EntrySubTri =
  st_v :: "real list list"
  st_n :: "real list"
  st_area :: real
  st_face_id :: nat

definition SubTriCountForFace :: "nat \<Rightarrow> nat" where
  "SubTriCountForFace vtx_cnt = (if vtx_cnt \<ge> 3 then vtx_cnt - 2 else 0)"

definition CountEntrySubTris :: "CrystalGeom \<Rightarrow> nat" where
  "CountEntrySubTris cf =
     fold (\<lambda>slot cnt. if face_present cf ! slot then cnt + SubTriCountForFace (length (face_vtx cf ! slot)) else cnt)
       [0..<face_cnt cf] 0"

definition fan_tri :: "real list list \<Rightarrow> nat \<Rightarrow> nat \<Rightarrow> EntrySubTri" where
  "fan_tri base face_id k =
     (let v0 = base ! 0; v1 = base ! k; v2 = base ! (k + 1);
          e1 = map (\<lambda>j. v1 ! j - v0 ! j) [0..<3];
          e2 = map (\<lambda>j. v2 ! j - v0 ! j) [0..<3];
          n = Cross3 e1 e2;
          raw_len = Norm3 n
      in \<lparr> st_v = [v0, v1, v2], st_n = (if raw_len > 0 then map (\<lambda>x. x / raw_len) n else [0, 0, 0]),
           st_area = raw_len / 2, st_face_id = face_id \<rparr>)"

definition build_slot :: "CrystalGeom \<Rightarrow> nat \<Rightarrow> nat \<times> EntrySubTri list \<Rightarrow> nat \<times> EntrySubTri list" where
  "build_slot cf slot st =
     (case st of (present_id, out) \<Rightarrow>
        if \<not> face_present cf ! slot then (present_id, out)
        else
          let face_id = present_id; present_id = (present_id + 1) mod 65536; base = face_vtx cf ! slot
          in if SubTriCountForFace (length base) = 0 then (present_id, out)
             else (present_id, out @ map (fan_tri base face_id) [1..<length base - 1]))"

definition BuildEntrySubTris :: "CrystalGeom \<Rightarrow> EntrySubTri list" where
  "BuildEntrySubTris cf = snd (fold (build_slot cf) [0..<face_cnt cf] (0, []))"

definition entry_weight :: "real \<Rightarrow> real \<Rightarrow> real" where
  "entry_weight proj_sum s_total = (let s_half = s_total * (1 / 2) in if s_half > 0 then min 1 (proj_sum / s_half) else 0)"

text \<open>\<open>p\<close> holds the cumulative weights; the first weight is not clipped.\<close>

fun cumulate :: "real \<Rightarrow> real list \<Rightarrow> real list" where
  "cumulate acc [] = []"
| "cumulate acc (w # ws) = (max w 0 + acc) # cumulate (max w 0 + acc) ws"

definition RandomSampleSelectBin :: "real \<Rightarrow> real list \<Rightarrow> nat \<Rightarrow> nat" where
  "RandomSampleSelectBin curr_p p pop_size =
     (case find (\<lambda>j. p ! j < curr_p \<and> curr_p \<le> p ! (j + 1)) [0..<pop_size] of Some j \<Rightarrow> j
      | None \<Rightarrow> (case find (\<lambda>j. p ! (j + 1) > p ! j) [0..<pop_size] of Some j \<Rightarrow> j | None \<Rightarrow> 0))"

definition sample_cdf :: "real list \<Rightarrow> real list" where
  "sample_cdf weight =
     (let p = 0 # hd weight # cumulate (hd weight) (tl weight); total = last p in 0 # map (\<lambda>x. x / total) (tl p))"

definition RandomSample :: "real list \<Rightarrow> real \<Rightarrow> nat \<Rightarrow> nat" where
  "RandomSample weight curr_p out =
     (if length weight = 0 then out else if length weight = 1 then 0
      else RandomSampleSelectBin curr_p (sample_cdf weight) (length weight))"

definition SampleTrianglePoint :: "real list list \<Rightarrow> real \<times> real \<Rightarrow> real list" where
  "SampleTrianglePoint vertices draws =
     (let e1 = map (\<lambda>j. vertices ! 1 ! j - vertices ! 0 ! j) [0..<3];
          e2 = map (\<lambda>j. vertices ! 2 ! j - vertices ! 0 ! j) [0..<3];
          (u, v) = draws;
          (u, v) = (if u + v > 1 then (1 - u, 1 - v) else (u, v))
      in map (\<lambda>j. u * e1 ! j + v * e2 ! j + vertices ! 0 ! j) [0..<3])"

definition proj_prob :: "EntrySubTri list \<Rightarrow> real list \<Rightarrow> real list" where
  "proj_prob subtri d = map (\<lambda>t. max (- Dot3r d (st_n t) * st_area t) 0) subtri"

text \<open>The body of the last loop of \<open>InitRay_p_fid\<close>, and the one of its early return.\<close>

definition enter_ray :: "EntrySubTri list \<Rightarrow> real \<Rightarrow> real \<Rightarrow> real \<times> real \<Rightarrow> 'q seg \<Rightarrow> 'q seg" where
  "enter_ray subtri s_total pick uv r =
     (let proj = proj_prob subtri (seg_d r);
          tri = subtri ! RandomSample proj pick 0
      in r\<lparr> seg_w := seg_w r * entry_weight (sum_list proj) s_total, seg_p := SampleTrianglePoint (st_v tri) uv,
            from_face := kInvalidId, to_face := st_face_id tri \<rparr>)"

definition enter_nowhere :: "'q seg \<Rightarrow> 'q seg" where
  "enter_nowhere r = r\<lparr> from_face := kInvalidId, to_face := kInvalidId, seg_w := 0 \<rparr>"

definition surface :: "EntrySubTri list \<Rightarrow> real" where
  "surface subtri = sum_list (map st_area subtri)"

section \<open>The table of sub-triangles\<close>

definition present_slots :: "CrystalGeom \<Rightarrow> nat \<Rightarrow> nat list" where
  "present_slots cf n = filter (\<lambda>s. face_present cf ! s) [0..<n]"

definition slot_tris :: "CrystalGeom \<Rightarrow> nat \<Rightarrow> EntrySubTri list" where
  "slot_tris cf slot = (if face_present cf ! slot
     then map (fan_tri (face_vtx cf ! slot) (length (present_slots cf slot))) [1..<length (face_vtx cf ! slot) - 1] else [])"

lemma present_slots_Suc: "present_slots cf (Suc n) = present_slots cf n @ (if face_present cf ! n then [n] else [])"
  by (simp add: present_slots_def)

lemma present_slots_le: "length (present_slots cf n) \<le> n"
  using length_filter_le [of "\<lambda>s. face_present cf ! s" "[0..<n]"] by (simp add: present_slots_def)

lemma build_slots:
  "n < 65536 \<Longrightarrow>
     fold (build_slot cf) [0..<n] (0, []) = (length (present_slots cf n), concat (map (slot_tris cf) [0..<n]))"
proof (induction n)
  case 0
  then show ?case by (simp add: present_slots_def)
next
  case (Suc n)
  have "length (present_slots cf n) + 1 < 65536" using present_slots_le [of cf n] Suc.prems by simp
  then show ?case
    using Suc by (auto simp: build_slot_def slot_tris_def present_slots_Suc SubTriCountForFace_def Let_def)
qed

lemma BuildEntrySubTris_eq:
  "face_cnt cf < 65536 \<Longrightarrow> BuildEntrySubTris cf = concat (map (slot_tris cf) [0..<face_cnt cf])"
  by (simp add: BuildEntrySubTris_def build_slots)

text \<open>The table is filled exactly as far as it was sized.\<close>

lemma CountEntrySubTris_length:
  assumes "face_cnt cf < 65536"
  shows "CountEntrySubTris cf = length (BuildEntrySubTris cf)"
proof -
  have "fold (\<lambda>slot cnt. if face_present cf ! slot then cnt + SubTriCountForFace (length (face_vtx cf ! slot)) else cnt) ss k
      = k + length (concat (map (slot_tris cf) ss))" for ss k
    by (induction ss arbitrary: k) (auto simp: slot_tris_def SubTriCountForFace_def numeral_2_eq_2)
  then show ?thesis using assms by (simp add: CountEntrySubTris_def BuildEntrySubTris_eq)
qed

text \<open>The faces of the crystal are the present slots, in order; a triangle names the face of its slot.\<close>

lemma PopulateFromCfGeom_eq:
  "poly_n (PopulateFromCfGeom cf) = map ((!) (face_normal cf)) (present_slots cf (face_cnt cf))"
  "poly_fn (PopulateFromCfGeom cf) = map (\<lambda>s. face_number cf ! s mod 65536) (present_slots cf (face_cnt cf))"
  "length (poly_d (PopulateFromCfGeom cf)) = length (present_slots cf (face_cnt cf))"
proof -
  let ?step = "\<lambda>slot c. if \<not> face_present cf ! slot then c
        else let coef = plane_coef cf ! slot; norm = Norm3 coef
          in c\<lparr> poly_n := poly_n c @ [face_normal cf ! slot],
                poly_d := poly_d c @ [if norm > kFloatEps then coef ! 3 / norm else 0],
                poly_fn := poly_fn c @ [face_number cf ! slot mod 65536] \<rparr>"
  let ?c = "\<lambda>n. fold ?step [0..<n] \<lparr> poly_n = [], poly_d = [], poly_fn = [] \<rparr>"
  have "poly_n (?c n) = map ((!) (face_normal cf)) (present_slots cf n) \<and>
      poly_fn (?c n) = map (\<lambda>s. face_number cf ! s mod 65536) (present_slots cf n) \<and>
      length (poly_d (?c n)) = length (present_slots cf n)" for n
  proof (induction n)
    case 0
    then show ?case by (simp add: present_slots_def)
  next
    case (Suc n)
    then show ?case by (simp add: present_slots_Suc Let_def)
  qed
  from this [of "face_cnt cf"] show
    "poly_n (PopulateFromCfGeom cf) = map ((!) (face_normal cf)) (present_slots cf (face_cnt cf))"
    "poly_fn (PopulateFromCfGeom cf) = map (\<lambda>s. face_number cf ! s mod 65536) (present_slots cf (face_cnt cf))"
    "length (poly_d (PopulateFromCfGeom cf)) = length (present_slots cf (face_cnt cf))"
    by (simp_all add: PopulateFromCfGeom_def)
qed

lemma present_slots_split:
  assumes "s < n" and "face_present cf ! s"
  shows "\<exists>zs. present_slots cf n = present_slots cf s @ s # zs"
proof -
  have "[0..<n] = [0..<s] @ s # [Suc s..<n]"
    using assms(1) by (metis less_imp_le_nat upt_add_eq_append upt_conv_Cons add_diff_inverse_nat le0 le_add_diff_inverse)
  then show ?thesis using assms(2) by (simp add: present_slots_def)
qed

lemma tri_in_table:
  assumes "face_cnt cf < 65536" and "t \<in> set (BuildEntrySubTris cf)"
  obtains s k where "s < face_cnt cf" "face_present cf ! s" "1 \<le> k" "k + 1 < length (face_vtx cf ! s)"
    "t = fan_tri (face_vtx cf ! s) (st_face_id t) k"
    "st_face_id t < PolygonFaceCount (PopulateFromCfGeom cf)" "present_slots cf (face_cnt cf) ! st_face_id t = s"
    "poly_n (PopulateFromCfGeom cf) ! st_face_id t = face_normal cf ! s"
proof -
  obtain s where s: "s < face_cnt cf" "t \<in> set (slot_tris cf s)"
    using assms(2) by (auto simp: BuildEntrySubTris_eq [OF assms(1)])
  then obtain k where k: "face_present cf ! s" "1 \<le> k" "k + 1 < length (face_vtx cf ! s)"
      "t = fan_tri (face_vtx cf ! s) (length (present_slots cf s)) k"
    by (auto simp: slot_tris_def split: if_split_asm)
  obtain zs where zs: "present_slots cf (face_cnt cf) = present_slots cf s @ s # zs"
    using present_slots_split [OF s(1) k(1)] by blast
  have id: "st_face_id t = length (present_slots cf s)" by (simp add: k(4) fan_tri_def Let_def)
  show thesis
  proof (rule that [OF s(1) k(1,2,3)])
    show "t = fan_tri (face_vtx cf ! s) (st_face_id t) k" unfolding id by (rule k(4))
  qed (simp_all add: id zs PolygonFaceCount_def PopulateFromCfGeom_eq nth_append)
qed

section \<open>Watertight crystals\<close>

definition face_edges :: "real list list \<Rightarrow> (real list \<times> real list) list" where
  "face_edges vs = map (\<lambda>i. (vs ! i, vs ! (Suc i mod length vs))) [0..<length vs]"

definition geom_edges :: "CrystalGeom \<Rightarrow> (real list \<times> real list) list" where
  "geom_edges cf = concat (map (\<lambda>slot. if face_present cf ! slot \<and> 3 \<le> length (face_vtx cf ! slot)
     then face_edges (face_vtx cf ! slot) else []) [0..<face_cnt cf])"

text \<open>Every directed edge of a face is matched by the same edge of another face in the other direction.\<close>

definition watertight :: "CrystalGeom \<Rightarrow> bool" where
  "watertight cf \<longleftrightarrow> mset (map prod.swap (geom_edges cf)) = mset (geom_edges cf)"

definition cross_at :: "nat \<Rightarrow> real list \<times> real list \<Rightarrow> real" where
  "cross_at j e = Cross3 (fst e) (snd e) ! j"

lemma less_3_cases: "j < 3 \<Longrightarrow> j = 0 \<or> j = 1 \<or> j = (2 :: nat)"
  by auto

lemma cross_swap: "j < 3 \<Longrightarrow> cross_at j (prod.swap e) = - cross_at j e"
  by (auto dest!: less_3_cases simp: cross_at_def Cross3_def)

lemma watertight_cross:
  assumes "watertight cf" and "j < 3"
  shows "sum_list (map (cross_at j) (geom_edges cf)) = 0"
proof -
  have "sum_list (map (cross_at j) (geom_edges cf)) = sum_list (map (cross_at j) (map prod.swap (geom_edges cf)))"
    using assms(1) unfolding watertight_def by (metis mset_map sum_mset_sum_list)
  also have "\<dots> = sum_list (map (\<lambda>e. - cross_at j e) (geom_edges cf))"
    by (simp add: comp_def cross_swap [OF assms(2)])
  also have "\<dots> = - sum_list (map (cross_at j) (geom_edges cf))"
    by (induction "geom_edges cf") (simp_all add: uminus_sum_list_map comp_def)
  finally show ?thesis by simp
qed

lemma Cross3_fan:
  assumes "j < 3"
  shows "Cross3 (map (\<lambda>j. b ! j - a ! j) [0..<3]) (map (\<lambda>j. c ! j - a ! j) [0..<3]) ! j
    = cross_at j (b, c) + cross_at j (a, b) - cross_at j (a, c)"
  using less_3_cases [OF assms] by (auto simp: Cross3_def cross_at_def upt_3 algebra_simps)

lemma fan_cross:
  assumes j: "j < 3" and n: "3 \<le> length vs"
  shows "sum_list (map (\<lambda>k. Cross3 (map (\<lambda>j. vs ! k ! j - vs ! 0 ! j) [0..<3])
      (map (\<lambda>j. vs ! (k + 1) ! j - vs ! 0 ! j) [0..<3]) ! j) [1..<length vs - 1])
    = sum_list (map (cross_at j) (face_edges vs))"
proof -
  let ?f = "\<lambda>k. Cross3 (map (\<lambda>j. vs ! k ! j - vs ! 0 ! j) [0..<3]) (map (\<lambda>j. vs ! (k + 1) ! j - vs ! 0 ! j) [0..<3]) ! j"
  have tele: "sum_list (map ?f [1..<Suc m]) = sum_list (map (\<lambda>k. cross_at j (vs ! k, vs ! Suc k)) [0..<Suc m])
      - cross_at j (vs ! 0, vs ! Suc m)" for m
  proof (induction m)
    case (Suc m)
    have up: "[1..<Suc (Suc m)] = [1..<Suc m] @ [Suc m]" "[0..<Suc (Suc m)] = [0..<Suc m] @ [Suc m]" by simp_all
    show ?case
      unfolding up map_append sum_list_append Suc.IH by (simp only: list.map sum_list.Cons sum_list.Nil Cross3_fan [OF j]) simp
  qed simp
  define m where "m = length vs - 2"
  have m1: "length vs = Suc (Suc m)" using n by (simp add: m_def)
  have m2: "[0..<length vs] = [0..<Suc m] @ [Suc m]" unfolding m1 by simp
  note m = m1 m2
  have "sum_list (map (cross_at j) (face_edges vs))
      = sum_list (map (\<lambda>k. cross_at j (vs ! k, vs ! (Suc k mod length vs))) [0..<Suc m]) + cross_at j (vs ! Suc m, vs ! 0)"
    unfolding face_edges_def m(2) by (simp add: m(1) comp_def)
  also have "map (\<lambda>k. cross_at j (vs ! k, vs ! (Suc k mod length vs))) [0..<Suc m]
      = map (\<lambda>k. cross_at j (vs ! k, vs ! Suc k)) [0..<Suc m]"
    by (rule map_cong) (auto simp: m(1))
  also have "cross_at j (vs ! Suc m, vs ! 0) = - cross_at j (vs ! 0, vs ! Suc m)"
    using cross_swap [OF j, of "(vs ! 0, vs ! Suc m)"] by simp
  finally show ?thesis using tele [of m] by (simp add: m(1))
qed

section \<open>The projected area\<close>

lemma Dot3r_nonneg: "0 \<le> Dot3r v v"
  by (simp add: Dot3r_def)

lemma Dot3r_zero: "Dot3r v v = 0 \<Longrightarrow> j < 3 \<Longrightarrow> v ! j = 0"
  by (auto dest!: less_3_cases simp: Dot3r_def add_nonneg_eq_0_iff)

lemma Norm3_sq: "Norm3 v * Norm3 v = Dot3r v v"
  by (simp add: Norm3_def Dot3r_nonneg)

text \<open>The normal of a sub-triangle is a unit vector, or zero; with the area it is half the cross product.\<close>

lemma normalised:
  assumes len: "length n = 3" and u: "u = (if Norm3 n > 0 then map (\<lambda>x. x / Norm3 n) n else [0, 0, 0])"
  shows "Dot3r u u \<le> 1" "j < 3 \<Longrightarrow> u ! j * (Norm3 n / 2) = n ! j / 2"
proof -
  have "Dot3r (map (\<lambda>x. x / Norm3 n) n) (map (\<lambda>x. x / Norm3 n) n) = Dot3r n n / (Norm3 n * Norm3 n)"
    by (simp add: Dot3r_def len add_divide_distrib)
  then show "Dot3r u u \<le> 1" by (simp add: u Norm3_sq Dot3r_def [of "[0, 0, 0]"])
  assume j: "j < 3"
  have "n ! j = 0" if "Norm3 n = 0"
    using Dot3r_zero [OF _ j, of n] Norm3_sq [of n] that by simp
  moreover have "0 \<le> Norm3 n" by (simp add: Norm3_def Dot3r_nonneg)
  ultimately show "u ! j * (Norm3 n / 2) = n ! j / 2" using j len by (cases "Norm3 n = 0") (auto simp: u)
qed

lemma fan_tri_normal:
  "Dot3r (st_n (fan_tri vs f k)) (st_n (fan_tri vs f k)) \<le> 1" "0 \<le> st_area (fan_tri vs f k)"
  "j < 3 \<Longrightarrow> st_n (fan_tri vs f k) ! j * st_area (fan_tri vs f k)
    = Cross3 (map (\<lambda>j. vs ! k ! j - vs ! 0 ! j) [0..<3]) (map (\<lambda>j. vs ! (k + 1) ! j - vs ! 0 ! j) [0..<3]) ! j / 2"
proof -
  define n where "n = Cross3 (map (\<lambda>j. vs ! k ! j - vs ! 0 ! j) [0..<3]) (map (\<lambda>j. vs ! (k + 1) ! j - vs ! 0 ! j) [0..<3])"
  have len: "length n = 3" by (simp add: n_def Cross3_def)
  have t: "st_n (fan_tri vs f k) = (if Norm3 n > 0 then map (\<lambda>x. x / Norm3 n) n else [0, 0, 0])"
    "st_area (fan_tri vs f k) = Norm3 n / 2"
    by (simp_all only: fan_tri_def Let_def EntrySubTri.simps n_def)
  show "Dot3r (st_n (fan_tri vs f k)) (st_n (fan_tri vs f k)) \<le> 1" by (rule normalised(1) [OF len t(1)])
  show "0 \<le> st_area (fan_tri vs f k)" by (simp add: t(2) Norm3_def Dot3r_nonneg)
  show "j < 3 \<Longrightarrow> st_n (fan_tri vs f k) ! j * st_area (fan_tri vs f k)
    = Cross3 (map (\<lambda>j. vs ! k ! j - vs ! 0 ! j) [0..<3]) (map (\<lambda>j. vs ! (k + 1) ! j - vs ! 0 ! j) [0..<3]) ! j / 2"
    unfolding n_def [symmetric] t(2) by (rule normalised(2) [OF len t(1)])
qed

lemma tri_bounds:
  assumes "face_cnt cf < 65536" and "t \<in> set (BuildEntrySubTris cf)"
  shows "Dot3r (st_n t) (st_n t) \<le> 1" "0 \<le> st_area t"
proof -
  obtain s k where "t = fan_tri (face_vtx cf ! s) (st_face_id t) k" using tri_in_table [OF assms] by blast
  then show "Dot3r (st_n t) (st_n t) \<le> 1" "0 \<le> st_area t" using fan_tri_normal(1,2) by metis+
qed

text \<open>The vector area of a watertight crystal vanishes.\<close>

lemma vector_area_zero:
  assumes "face_cnt cf < 65536" and "watertight cf" and j: "j < 3"
  shows "sum_list (map (\<lambda>t. st_n t ! j * st_area t) (BuildEntrySubTris cf)) = 0"
proof -
  have slot: "sum_list (map (\<lambda>t. st_n t ! j * st_area t) (slot_tris cf s))
      = sum_list (map (cross_at j) (if face_present cf ! s \<and> 3 \<le> length (face_vtx cf ! s)
          then face_edges (face_vtx cf ! s) else [])) / 2" for s
  proof (cases "face_present cf ! s \<and> 3 \<le> length (face_vtx cf ! s)")
    case True
    have half: "sum_list (map (\<lambda>k. g k / 2) ks) = sum_list (map g ks) / 2" for g :: "nat \<Rightarrow> real" and ks
      by (induction ks) (simp_all add: add_divide_distrib)
    have "sum_list (map (\<lambda>t. st_n t ! j * st_area t) (slot_tris cf s))
        = sum_list (map (cross_at j) (face_edges (face_vtx cf ! s))) / 2"
      unfolding fan_cross [OF j conjunct2 [OF True], symmetric] half [symmetric]
      using True by (simp only: slot_tris_def if_True simp_thms map_map comp_def fan_tri_normal(3) [OF j])
    then show ?thesis using True by simp
  next
    case False
    then show ?thesis by (auto simp: slot_tris_def)
  qed
  have "sum_list (map (\<lambda>t. st_n t ! j * st_area t) (concat (map (slot_tris cf) ss)))
      = sum_list (map (cross_at j) (concat (map (\<lambda>s. if face_present cf ! s \<and> 3 \<le> length (face_vtx cf ! s)
          then face_edges (face_vtx cf ! s) else []) ss))) / 2" for ss
    by (induction ss) (simp_all add: slot add_divide_distrib)
  from this [of "[0..<face_cnt cf]"] show ?thesis
    using watertight_cross [OF assms(2) j] by (simp add: BuildEntrySubTris_eq [OF assms(1)] geom_edges_def)
qed

lemma Dot3r_bound:
  assumes "Dot3r u u \<le> 1" and "Dot3r v v \<le> 1"
  shows "\<bar>Dot3r u v\<bar> \<le> 1"
proof -
  have "0 \<le> Dot3r (lin 1 u 1 v) (lin 1 u 1 v)" "0 \<le> Dot3r (lin 1 u (- 1) v) (lin 1 u (- 1) v)" by (rule Dot3r_nonneg)+
  then show ?thesis using assms unfolding Dot3r_lin_lin by simp
qed

text \<open>Half of the surface bounds the area projected along any direction.\<close>

lemma projected_area:
  assumes "face_cnt cf < 65536" and "watertight cf" and d: "Dot3r d d \<le> 1"
  shows "0 \<le> sum_list (proj_prob (BuildEntrySubTris cf) d)"
    "sum_list (proj_prob (BuildEntrySubTris cf) d) \<le> surface (BuildEntrySubTris cf) / 2"
proof -
  let ?T = "BuildEntrySubTris cf"
  have "sum_list (map (\<lambda>t. Dot3r d (st_n t) * st_area t) ts)
      = d ! 0 * sum_list (map (\<lambda>t. st_n t ! 0 * st_area t) ts) + d ! 1 * sum_list (map (\<lambda>t. st_n t ! 1 * st_area t) ts)
        + d ! 2 * sum_list (map (\<lambda>t. st_n t ! 2 * st_area t) ts)" for ts
    by (induction ts) (simp_all add: Dot3r_def algebra_simps)
  from this [of ?T] have zero: "sum_list (map (\<lambda>t. Dot3r d (st_n t) * st_area t) ?T) = 0"
    using vector_area_zero [OF assms(1,2), of 0] vector_area_zero [OF assms(1,2), of 1]
      vector_area_zero [OF assms(1,2), of 2] by simp
  have "2 * sum_list (proj_prob ts d) + sum_list (map (\<lambda>t. Dot3r d (st_n t) * st_area t) ts) \<le> surface ts"
    if "\<forall>t\<in>set ts. Dot3r (st_n t) (st_n t) \<le> 1 \<and> 0 \<le> st_area t" for ts
    using that
  proof (induction ts)
    case (Cons t ts)
    then have "\<bar>Dot3r d (st_n t)\<bar> \<le> 1" "0 \<le> st_area t" using Dot3r_bound [OF d] by auto
    then have "\<bar>Dot3r d (st_n t) * st_area t\<bar> \<le> st_area t" by (simp add: abs_mult mult_left_le_one_le)
    then have "2 * max (- (Dot3r d (st_n t) * st_area t)) 0 + Dot3r d (st_n t) * st_area t \<le> st_area t" by linarith
    then show ?case using Cons by (simp add: proj_prob_def surface_def)
  qed (simp add: proj_prob_def surface_def)
  then show "sum_list (proj_prob ?T d) \<le> surface ?T / 2" using zero tri_bounds [OF assms(1)] by fastforce
  show "0 \<le> sum_list (proj_prob ?T d)" by (rule sum_list_nonneg) (auto simp: proj_prob_def)
qed

lemma entry_weight_exact:
  assumes "face_cnt cf < 65536" and "watertight cf" and "Dot3r d d \<le> 1"
  shows "entry_weight (sum_list (proj_prob (BuildEntrySubTris cf) d)) (surface (BuildEntrySubTris cf))
      = 2 * sum_list (proj_prob (BuildEntrySubTris cf) d) / surface (BuildEntrySubTris cf)"
proof -
  note P = projected_area [OF assms]
  show ?thesis
  proof (cases "0 < surface (BuildEntrySubTris cf)")
    case True
    with P show ?thesis by (simp add: entry_weight_def Let_def min_def field_simps)
  next
    case False
    with P have "sum_list (proj_prob (BuildEntrySubTris cf) d) = 0" by linarith
    with False show ?thesis by (simp add: entry_weight_def Let_def)
  qed
qed

section \<open>The draw of a triangle\<close>

definition cum :: "real list \<Rightarrow> nat \<Rightarrow> real" where
  "cum w j = sum_list (take j w)"

lemma cum_Suc: "j < length w \<Longrightarrow> cum w (Suc j) = cum w j + w ! j"
  by (simp add: cum_def take_Suc_conv_app_nth)

lemma cum_ends [simp]: "cum w 0 = 0" "cum w (length w) = sum_list w"
  by (simp_all add: cum_def)

lemma cum_mono:
  assumes "\<forall>x\<in>set w. 0 \<le> x" and "i \<le> j" and "j \<le> length w"
  shows "cum w i \<le> cum w j"
  using assms(2,3)
proof (induction j rule: dec_induct)
  case (step n)
  then have "0 \<le> w ! n" using assms(1) by simp
  with step show ?case by (simp add: cum_Suc)
qed simp

lemma cumulate_nth:
  assumes "\<forall>x\<in>set w. 0 \<le> x"
  shows "length (cumulate acc w) = length w"
    "j \<le> length w \<Longrightarrow> (acc # cumulate acc w) ! j = acc + cum w j"
  using assms
proof (induction w arbitrary: acc j)
  case (Cons x w)
  case 1
  then show ?case using Cons.IH(1) by simp
next
  case (Cons x w)
  case 2
  then show ?case using Cons.IH(2) [of "j - 1" "x + acc"] by (cases j) (auto simp: cum_def)
qed (simp_all add: cum_def)

lemma sample_cdf_nth:
  assumes "\<forall>x\<in>set w. 0 \<le> x" and "w \<noteq> []" and "j \<le> length w"
  shows "sample_cdf w ! j = cum w j / sum_list w"
proof -
  obtain x w' where w: "w = x # w'" using assms(2) by (cases w) auto
  have p: "0 # hd w # cumulate (hd w) (tl w) = 0 # cumulate 0 w" using assms(1) by (simp add: w)
  have at: "(0 # cumulate 0 w) ! i = cum w i" if "i \<le> length w" for i
    using cumulate_nth(2) [OF assms(1) that, of 0] by simp
  have len: "length (cumulate 0 w) = length w" by (rule cumulate_nth(1) [OF assms(1)])
  have "last (0 # cumulate 0 w) = (0 # cumulate 0 w) ! length w"
    using last_conv_nth [of "0 # cumulate 0 w"] len by (simp only: list.distinct list.size simp_thms) simp
  then have total: "last (0 # cumulate 0 w) = sum_list w" by (simp only: at cum_ends order_refl)
  have eq: "sample_cdf w = 0 # map (\<lambda>x. x / sum_list w) (cumulate 0 w)"
    unfolding sample_cdf_def p Let_def total by (simp only: list.sel)
  show ?thesis using at [OF assms(3)] assms(3) len by (cases j) (simp_all add: eq)
qed

lemma find_in_range: "find P xs = Some j \<Longrightarrow> j \<in> set xs \<and> P j"
  by (auto simp: find_Some_iff)

lemma find_total: "x \<in> set xs \<Longrightarrow> P x \<Longrightarrow> \<exists>j. find P xs = Some j"
  by (cases "find P xs") (auto simp: find_None_iff)

text \<open>Inverse transform: bin \<open>j\<close> is drawn on exactly the share of \<open>(0, 1]\<close> that its weight has in the total.\<close>

lemma RandomSample_share:
  assumes w: "\<forall>x\<in>set w. 0 \<le> x" "0 < sum_list w" and u: "0 < u" "u \<le> 1"
  shows "RandomSample w u z = j \<longleftrightarrow> j < length w \<and> cum w j < u * sum_list w \<and> u * sum_list w \<le> cum w (Suc j)"
proof -
  have ne: "w \<noteq> []" using w(2) by auto
  have between: "sample_cdf w ! i < u \<and> u \<le> sample_cdf w ! (i + 1) \<longleftrightarrow> cum w i < u * sum_list w \<and> u * sum_list w \<le> cum w (Suc i)"
    if "i < length w" for i
    using that sample_cdf_nth [OF w(1) ne, of i] sample_cdf_nth [OF w(1) ne, of "Suc i"] w(2)
    by (simp add: pos_divide_less_eq pos_le_divide_eq)
  let ?in = "\<lambda>i. cum w i < u * sum_list w \<and> u * sum_list w \<le> cum w (Suc i)"
  have uniq: "i = k" if "?in i" "?in k" "i < length w" "k < length w" for i k
  proof (rule ccontr)
    assume "i \<noteq> k"
    then consider "Suc i \<le> k" | "Suc k \<le> i" by linarith
    then show False
      using that cum_mono [OF w(1), of "Suc i" k] cum_mono [OF w(1), of "Suc k" i] by cases auto
  qed
  have top: "0 < u * sum_list w" "u * sum_list w \<le> cum w (length w)"
    using w(2) u by (simp_all add: mult_le_cancel_right1)
  define m where "m = (LEAST i. u * sum_list w \<le> cum w i)"
  have m: "u * sum_list w \<le> cum w m" "m \<le> length w"
    using LeastI [of "\<lambda>i. u * sum_list w \<le> cum w i", OF top(2)] Least_le [of "\<lambda>i. u * sum_list w \<le> cum w i", OF top(2)]
    by (simp_all add: m_def)
  then have "0 < m" using top(1) by (cases m) auto
  then have i: "m - 1 < length w" "?in (m - 1)"
    using m not_less_Least [of "m - 1" "\<lambda>i. u * sum_list w \<le> cum w i"] by (auto simp: m_def [symmetric])
  have "RandomSample w u z < length w \<and> ?in (RandomSample w u z)"
  proof (cases "length w = 1")
    case True
    then show ?thesis using i by (simp add: RandomSample_def)
  next
    case False
    obtain k where k: "find (\<lambda>j. sample_cdf w ! j < u \<and> u \<le> sample_cdf w ! (j + 1)) [0..<length w] = Some k"
      using find_total [of "m - 1" "[0..<length w]" "\<lambda>j. sample_cdf w ! j < u \<and> u \<le> sample_cdf w ! (j + 1)"]
        between [OF i(1)] i by auto
    have "RandomSample w u z = k" using False ne k by (simp add: RandomSample_def RandomSampleSelectBin_def)
    moreover have "k < length w" "sample_cdf w ! k < u \<and> u \<le> sample_cdf w ! (k + 1)"
      using find_in_range [OF k] by auto
    ultimately show ?thesis using between by simp
  qed
  then show ?thesis using uniq by blast
qed

lemma RandomSample_positive:
  assumes w: "\<forall>x\<in>set w. 0 \<le> x" "0 < sum_list w" and u: "0 \<le> u" "u \<le> 1"
  shows "RandomSample w u z < length w" "0 < w ! RandomSample w u z"
proof -
  have ne: "w \<noteq> []" using w(2) by auto
  have "RandomSample w u z < length w \<and> 0 < w ! RandomSample w u z"
  proof (cases "0 < u")
    case True
    then show ?thesis using RandomSample_share [OF w True u(2), of z "RandomSample w u z"] cum_Suc by force
  next
    case False
    then have u0: "u = 0" using u(1) by simp
    have pos: "\<exists>x\<in>set w. 0 < x"
    proof (rule ccontr)
      assume "\<not> (\<exists>x\<in>set w. 0 < x)"
      then have "\<forall>x\<in>set w. x = 0" using w(1) by force
      then have "sum_list w = 0" by (simp add: sum_list_nonneg_eq_0_iff w(1))
      then show False using w(2) by simp
    qed
    then obtain i where i: "i < length w" "0 < w ! i" by (auto simp: in_set_conv_nth)
    show ?thesis
    proof (cases "length w = 1")
      case True
      then show ?thesis using i by (simp add: RandomSample_def)
    next
      case False
      have none: "find (\<lambda>j. sample_cdf w ! j < u \<and> u \<le> sample_cdf w ! (j + 1)) [0..<length w] = None"
        using sample_cdf_nth [OF w(1) ne] cum_mono [OF w(1), of 0] w(2)
        by (auto simp: find_None_iff u0 not_less)
      have step: "sample_cdf w ! j < sample_cdf w ! (j + 1) \<longleftrightarrow> 0 < w ! j" if "j < length w" for j
        using that sample_cdf_nth [OF w(1) ne, of j] sample_cdf_nth [OF w(1) ne, of "Suc j"] w(2)
        by (simp add: cum_Suc divide_less_cancel)
      obtain k where k: "find (\<lambda>j. sample_cdf w ! (j + 1) > sample_cdf w ! j) [0..<length w] = Some k"
        using find_total [of i "[0..<length w]" "\<lambda>j. sample_cdf w ! (j + 1) > sample_cdf w ! j"] i step by auto
      have "RandomSample w u z = k" using False ne k none by (simp add: RandomSample_def RandomSampleSelectBin_def)
      moreover have "k < length w" "sample_cdf w ! k < sample_cdf w ! (k + 1)"
        using find_in_range [OF k] by auto
      ultimately show ?thesis using step by simp
    qed
  qed
  then show "RandomSample w u z < length w" "0 < w ! RandomSample w u z" by simp_all
qed

section \<open>The point in the triangle\<close>

lemma SampleTrianglePoint_convex:
  assumes "0 \<le> fst uv" "fst uv \<le> 1" "0 \<le> snd uv" "snd uv \<le> 1"
  obtains a b c where "0 \<le> a" "0 \<le> b" "0 \<le> c" "a + b + c = 1"
    "SampleTrianglePoint [v0, v1, v2] uv = map (\<lambda>j. a * v0 ! j + b * v1 ! j + c * v2 ! j) [0..<3]"
proof -
  obtain u v where uv: "uv = (u, v)" by (cases uv)
  define u' v' where "u' = (if u + v > 1 then 1 - u else u)" and "v' = (if u + v > 1 then 1 - v else v)"
  have "0 \<le> u'" "0 \<le> v'" "u' + v' \<le> 1" using assms by (auto simp: uv u'_def v'_def)
  moreover have "SampleTrianglePoint [v0, v1, v2] uv = map (\<lambda>j. (1 - u' - v') * v0 ! j + u' * v1 ! j + v' * v2 ! j) [0..<3]"
    by (simp add: SampleTrianglePoint_def uv u'_def v'_def upt_3 algebra_simps)
  ultimately show thesis by (intro that [of "1 - u' - v'" u' v']) auto
qed

lemma height_convex:
  assumes "a + b + c = 1"
  shows "height cr f (map (\<lambda>j. a * v0 ! j + b * v1 ! j + c * v2 ! j) [0..<3])
    = a * height cr f v0 + b * height cr f v1 + c * height cr f v2"
proof -
  have "height cr f (map (\<lambda>j. a * v0 ! j + b * v1 ! j + c * v2 ! j) [0..<3])
      = a * height cr f v0 + b * height cr f v1 + c * height cr f v2 + (1 - (a + b + c)) * poly_d cr ! f"
    by (simp add: height_def Dot3r_def upt_3 algebra_simps)
  then show ?thesis using assms by simp
qed

section \<open>Entering the crystal\<close>

text \<open>
  A closed form whose corners lie in all half-spaces of the planes the faces keep, each on the plane of its own face,
  and whose winding normals agree with the stored ones in direction.
\<close>

definition geom_ok :: "CrystalGeom \<Rightarrow> bool" where
  "geom_ok cf \<longleftrightarrow> face_cnt cf < 65536 \<and> crystal_ok (PopulateFromCfGeom cf) \<and>
     (\<forall>s<face_cnt cf. face_present cf ! s \<longrightarrow> (\<forall>v\<in>set (face_vtx cf ! s). inside (PopulateFromCfGeom cf) v)) \<and>
     (\<forall>f<PolygonFaceCount (PopulateFromCfGeom cf). \<forall>v\<in>set (face_vtx cf ! (present_slots cf (face_cnt cf) ! f)).
        height (PopulateFromCfGeom cf) f v = 0) \<and>
     (\<forall>t\<in>set (BuildEntrySubTris cf). st_area t \<noteq> 0 \<longrightarrow> st_n t = poly_n (PopulateFromCfGeom cf) ! st_face_id t)"

lemma enter_ray_spec:
  assumes g: "geom_ok cf" and d: "unit_vec (seg_d r)" and w: "0 \<le> seg_w r"
    and lit: "0 < sum_list (proj_prob (BuildEntrySubTris cf) (seg_d r))"
    and draws: "0 \<le> pick" "pick \<le> 1" "0 \<le> fst uv" "fst uv \<le> 1" "0 \<le> snd uv" "snd uv \<le> 1"
    and r': "r' = enter_ray (BuildEntrySubTris cf) (surface (BuildEntrySubTris cf)) pick uv r"
  shows "hit_ok (PopulateFromCfGeom cf) r'" "cos_at (PopulateFromCfGeom cf) r' < 0" "inside (PopulateFromCfGeom cf) (seg_p r')"
    "height (PopulateFromCfGeom cf) (to_face r') (seg_p r') = 0" "seg_d r' = seg_d r" "from_face r' = kInvalidId"
    "seg_w r' = seg_w r * entry_weight (sum_list (proj_prob (BuildEntrySubTris cf) (seg_d r))) (surface (BuildEntrySubTris cf))"
    "seg_w r' \<le> seg_w r"
proof -
  let ?T = "BuildEntrySubTris cf" and ?c = "PopulateFromCfGeom cf"
  let ?P = "proj_prob ?T (seg_d r)"
  have cnt: "face_cnt cf < 65536" using g by (simp add: geom_ok_def)
  define i where "i = RandomSample ?P pick 0"
  have P: "\<forall>x\<in>set ?P. 0 \<le> x" by (auto simp: proj_prob_def)
  have i: "i < length ?T" "0 < ?P ! i" using RandomSample_positive [OF P lit draws(1,2), of 0] by (simp_all add: i_def proj_prob_def)
  define t where "t = ?T ! i"
  have t: "t \<in> set ?T" using i(1) by (simp add: t_def)
  have face: "0 < - Dot3r (seg_d r) (st_n t) * st_area t" using i by (simp add: proj_prob_def t_def)
  obtain s k where s: "s < face_cnt cf" "face_present cf ! s" "1 \<le> k" "k + 1 < length (face_vtx cf ! s)"
      "t = fan_tri (face_vtx cf ! s) (st_face_id t) k" "st_face_id t < PolygonFaceCount ?c"
      "present_slots cf (face_cnt cf) ! st_face_id t = s"
    using tri_in_table [OF cnt t] by metis
  let ?vs = "face_vtx cf ! s"
  have v: "st_v t = [?vs ! 0, ?vs ! k, ?vs ! (k + 1)]"
    by (subst s(5)) (simp add: fan_tri_def Let_def)
  have "?vs ! 0 \<in> set ?vs" "?vs ! k \<in> set ?vs" "?vs ! (k + 1) \<in> set ?vs" using s(3,4) by (intro nth_mem; linarith)+
  then have corners: "set (st_v t) \<subseteq> set ?vs" by (simp add: v)
  obtain a b c where abc: "0 \<le> a" "0 \<le> b" "0 \<le> c" "a + b + c = 1"
      "SampleTrianglePoint (st_v t) uv = map (\<lambda>j. a * ?vs ! 0 ! j + b * ?vs ! k ! j + c * ?vs ! (k + 1) ! j) [0..<3]"
    unfolding v using SampleTrianglePoint_convex [OF draws(3-6)] by blast
  have fields: "seg_p r' = SampleTrianglePoint (st_v t) uv" "to_face r' = st_face_id t" "seg_d r' = seg_d r"
    "from_face r' = kInvalidId" "seg_w r' = seg_w r * entry_weight (sum_list ?P) (surface ?T)"
    by (simp_all add: r' enter_ray_def Let_def t_def i_def)
  then show "seg_d r' = seg_d r" "from_face r' = kInvalidId"
    "seg_w r' = seg_w r * entry_weight (sum_list ?P) (surface ?T)" by simp_all
  have ew: "0 \<le> entry_weight (sum_list ?P) (surface ?T)" "entry_weight (sum_list ?P) (surface ?T) \<le> 1"
    using lit by (auto simp: entry_weight_def Let_def)
  show "seg_w r' \<le> seg_w r" unfolding fields(5) using ew w by (simp add: mult_left_le)
  have hts: "\<forall>v\<in>set (st_v t). (\<forall>f<PolygonFaceCount ?c. height ?c f v \<le> 0) \<and> height ?c (st_face_id t) v = 0"
    using g s(1,2,6,7) corners by (auto simp: geom_ok_def inside_def)
  have "height ?c f (seg_p r') \<le> 0" if "f < PolygonFaceCount ?c" for f
    unfolding fields(1) abc(5) height_convex [OF abc(4)]
    using hts that abc(1-3) by (simp add: v add_nonpos_nonpos mult_nonneg_nonpos)
  then show "inside ?c (seg_p r')" by (simp add: inside_def)
  show "height ?c (to_face r') (seg_p r') = 0"
    unfolding fields(1,2) abc(5) height_convex [OF abc(4)] using hts by (simp add: v)
  have "0 \<le> st_area t" "st_area t \<noteq> 0" using face tri_bounds(2) [OF cnt t] by auto
  then have "Dot3r (seg_d r) (st_n t) < 0" "st_n t = poly_n ?c ! st_face_id t"
    using face g t by (auto simp: geom_ok_def mult_less_0_iff)
  then show cos: "cos_at ?c r' < 0" by (simp add: cos_at_def fields)
  show "hit_ok ?c r'" using cos w d s(6) ew by (simp add: hit_ok_def fields)
qed

text \<open>A crystal that shows nothing to the light: the ray is worth nothing.\<close>

lemma enter_unlit:
  assumes "sum_list (proj_prob subtri (seg_d r)) = 0"
  shows "seg_w (enter_ray subtri s_total pick uv r) = 0"
  using assms by (simp add: enter_ray_def entry_weight_def Let_def)

end
