(* ===== verification/Layer_Entry.thy ===== *)
theory Layer_Entry
  imports Hit_Refinement Entry_Sampler
begin

text \<open>
  How rays enter a scattering layer and move on to the next one (\<open>src/core/simulator.cpp\<close>): the
  initialisation of a batch on the first layer and on later ones, and the shuffle between two layers.

  What is drawn for a ray, its orientation, its direction and the uniform numbers that pick the point of entry,
  is an argument; everything the code does with the draws is modelled.
\<close>

section \<open>The code\<close>

record RayDraw =
  sd_rot :: "real list"
  sd_dir :: "real list"
  sd_pick :: real
  sd_uv :: "real \<times> real"

definition kInfSize_nat :: nat where "kInfSize_nat = 2 ^ 64 - 1"

definition for_rays :: "(nat \<Rightarrow> rseg \<Rightarrow> rseg) \<Rightarrow> rbuf \<Rightarrow> rbuf" where
  "for_rays f b = fold (\<lambda>i b. put_ray i (f i (rb_rays b ! i)) b) [0..<rb_size b] b"

definition InitRay_rot :: "RayDraw list \<Rightarrow> rbuf \<Rightarrow> rbuf" where
  "InitRay_rot draws = for_rays (\<lambda>i r. r\<lparr> crystal_rot := sd_rot (draws ! i) \<rparr>)"

definition InitRay_d_w_previdx :: "real \<Rightarrow> real \<Rightarrow> RayDraw list \<Rightarrow> rbuf \<Rightarrow> rbuf" where
  "InitRay_d_w_previdx wl_weight weight_correction draws b =
     (let init_weight = wl_weight * weight_correction;
          b = for_rays (\<lambda>i r. r\<lparr> seg_w := init_weight, prev_ray_idx := kInfSize_nat \<rparr>) b;
          b = for_rays (\<lambda>i r. r\<lparr> seg_d := sd_dir (draws ! i) \<rparr>) b
      in for_rays (\<lambda>i r. r\<lparr> seg_d := Rotation_ApplyInverse (crystal_rot r) (seg_d r) \<rparr>) b)"

definition InitRay_p_fid :: "CrystalGeom \<Rightarrow> RayDraw list \<Rightarrow> rbuf \<Rightarrow> rbuf" where
  "InitRay_p_fid cf draws b =
     (let subtri_cnt = CountEntrySubTris cf in
      if subtri_cnt = 0 then for_rays (\<lambda>i. enter_nowhere) b
      else let subtri = BuildEntrySubTris cf; s_total = surface subtri
        in for_rays (\<lambda>i. enter_ray subtri s_total (sd_pick (draws ! i)) (sd_uv (draws ! i))) b)"

definition label_ray :: "nat \<Rightarrow> nat \<Rightarrow> nat \<Rightarrow> rseg \<Rightarrow> rseg" where
  "label_ray config_id crystal_id root_idx r =
     r\<lparr> crystal_idx := crystal_id mod 65536, crystal_config_id := config_id, root_ray_idx := root_idx \<rparr>"

definition InitRay_other_info :: "CrystalFaces \<Rightarrow> nat \<Rightarrow> nat \<Rightarrow> nat \<Rightarrow> rbuf \<Rightarrow> rbuf" where
  "InitRay_other_info c config_id curr_crystal_id all_data_idx b =
     fold (\<lambda>i b.
        let b = put_ray i (label_ray config_id curr_crystal_id (all_data_idx + i) (rb_rays b ! i)) b;
            b = RecorderClear i b
        in RecorderAppend i (GetFn c (to_face (rb_rays b ! i))) b) [0..<rb_size b] b"

record EntryCtx =
  en_geom :: CrystalGeom
  en_config_id :: nat
  en_crystal_id :: nat
  en_correction :: real

definition en_crystal :: "EntryCtx \<Rightarrow> CrystalFaces" where
  "en_crystal en = PopulateFromCfGeom (en_geom en)"

definition InitRayFirstMs :: "real \<Rightarrow> nat \<Rightarrow> EntryCtx \<Rightarrow> RayDraw list \<Rightarrow> rbuf \<times> rbuf \<Rightarrow> (rbuf \<times> rbuf) option" where
  "InitRayFirstMs wl_weight curr_ray_num en draws st =
     (let (b0, all_data) = st;
          b0 = b0\<lparr> rb_size := curr_ray_num \<rparr>;
          b0 = InitRay_rot draws b0;
          b0 = InitRay_d_w_previdx wl_weight (en_correction en) draws b0;
          b0 = InitRay_p_fid (en_geom en) draws b0;
          b0 = InitRay_other_info (en_crystal en) (en_config_id en) (en_crystal_id en) (rb_size all_data) b0;
          b0 = fold (\<lambda>i. SetComponent i 0) [0..<rb_size b0] b0;
          b0 = (if HasChainIds b0 then fold (\<lambda>i. SetChainId i (of_nat kRootChainId)) [0..<rb_size b0] b0 else b0)
      in map_option (\<lambda>all_data. (b0, all_data)) (EmplaceBack_buffer b0 0 kInfSize_nat all_data))"

definition InitRayOtherMs ::
  "rbuf \<Rightarrow> nat \<Rightarrow> EntryCtx \<Rightarrow> RayDraw list \<Rightarrow> nat \<times> rbuf \<times> rbuf \<Rightarrow> (nat \<times> rbuf \<times> rbuf) option"
where
  "InitRayOtherMs init_data curr_ray_num en draws st =
     (case st of (init_ray_offset, b0, all_data) \<Rightarrow>
      Option.bind (EmplaceBack_buffer init_data init_ray_offset curr_ray_num (b0\<lparr> rb_size := 0 \<rparr>)) (\<lambda>b0.
        let b0 = (if en_correction en \<noteq> 1 then for_rays (\<lambda>i r. r\<lparr> seg_w := seg_w r * en_correction en \<rparr>) b0 else b0);
            b0 = InitRay_rot draws b0;
            b0 = for_rays (\<lambda>i r. r\<lparr> seg_d := Rotation_ApplyInverse (crystal_rot r) (seg_d r) \<rparr>) b0;
            b0 = InitRay_p_fid (en_geom en) draws b0;
            b0 = InitRay_other_info (en_crystal en) (en_config_id en) (en_crystal_id en) (rb_size all_data) b0;
            b0 = for_rays (\<lambda>i r. r\<lparr> is_continue := False \<rparr>) b0
        in map_option (\<lambda>all_data. (init_ray_offset + curr_ray_num, b0, all_data))
             (EmplaceBack_buffer b0 0 kInfSize_nat all_data)))"

text \<open>The shuffle at the end of a layer; \<open>uidx\<close> is the generator's \<open>GetUniformIndex\<close>.\<close>

definition shuffle_init_data :: "(nat \<Rightarrow> 'g \<Rightarrow> nat \<times> 'g) \<Rightarrow> 'g \<times> rbuf \<Rightarrow> 'g \<times> rbuf" where
  "shuffle_init_data uidx st =
     fold (\<lambda>i (rng, b). let (k, rng) = uidx (rb_size b - i) rng; j = k + i in (rng, SwapRay i j b))
       [0..<rb_size (snd st)] st"

section \<open>Loops over the rays\<close>

lemma for_rays_eq:
  assumes "rb_size b \<le> length (rb_rays b)"
  shows "for_rays f b = b\<lparr> rb_rays := map (\<lambda>i. f i (rb_rays b ! i)) [0..<rb_size b] @ drop (rb_size b) (rb_rays b) \<rparr>"
proof -
  have "fold (\<lambda>i b. put_ray i (f i (rb_rays b ! i)) b) is b
      = b\<lparr> rb_rays := fold (\<lambda>i xs. xs[i := f i (xs ! i)]) is (rb_rays b) \<rparr>" for "is" and b :: rbuf
    by (induction "is" arbitrary: b) (simp_all add: put_ray_def)
  then show ?thesis
    using fold_update_slots [where offset = 0 and xs = "rb_rays b" and num = "rb_size b" and f = f] assms
    by (simp add: for_rays_def)
qed

lemma for_rays_for_rays:
  assumes "rb_size b \<le> length (rb_rays b)"
  shows "for_rays g (for_rays f b) = for_rays (\<lambda>i r. g i (f i r)) b"
proof -
  have "rb_size (for_rays f b) \<le> length (rb_rays (for_rays f b))" using assms by (simp add: for_rays_eq)
  from for_rays_eq [OF this, of g] show ?thesis using assms by (simp add: for_rays_eq nth_append)
qed

text \<open>What entry needs of the buffer it fills: the columns and the arena; the recorders may be stale.\<close>

definition vacant :: "rbuf \<Rightarrow> bool" where
  "vacant b \<longleftrightarrow> columns_ok b \<and> buffer_ok b {} \<and>
     (\<forall>i<rb_size b. length (rec_data (rb_recorders b ! i)) = kInlineCap)"

lemma vacant_rays: "vacant b \<Longrightarrow> rb_size b \<le> length (rb_rays b)"
  by (simp add: vacant_def columns_ok_def)

lemma for_rays_vacant: "vacant b \<Longrightarrow> vacant (for_rays f b)"
  using vacant_rays [of b]
  by (auto simp: for_rays_eq vacant_def columns_ok_def buffer_ok_def arena_ok_def split: option.splits)

definition opened :: "CrystalFaces \<Rightarrow> rbuf \<Rightarrow> nat \<Rightarrow> rseg \<Rightarrow> entry" where
  "opened c b i r = (r, [GetFn c (to_face r) mod 256], rb_components b ! i, chain_at b i)"

text \<open>The path starts over with the face of entry; mask and chain id stay.\<close>

lemma InitRay_other_info_spec:
  assumes b: "vacant b"
  shows "live_ok (InitRay_other_info c cfg cid root_idx b)"
    "view (InitRay_other_info c cfg cid root_idx b)
      = map (\<lambda>i. opened c b i (label_ray cfg cid (root_idx + i) (rb_rays b ! i))) [0..<rb_size b]"
    "\<exists>rays recs. InitRay_other_info c cfg cid root_idx b = b\<lparr> rb_rays := rays, rb_recorders := recs \<rparr>"
    "vacant (InitRay_other_info c cfg cid root_idx b)"
    "whole b \<Longrightarrow> whole (InitRay_other_info c cfg cid root_idx b)"
proof -
  let ?lab = "\<lambda>i. label_ray cfg cid (root_idx + i) (rb_rays b ! i)"
  let ?rec = "\<lambda>i. (rb_recorders b ! i)\<lparr> rec_size := 1, overflow_idx := kNoOverflow,
      rec_data := (rec_data (rb_recorders b ! i))[0 := GetFn c (to_face (rb_rays b ! i)) mod 256] \<rparr>"
  let ?step = "\<lambda>i b. let b = put_ray i (label_ray cfg cid (root_idx + i) (rb_rays b ! i)) b; b = RecorderClear i b
        in RecorderAppend i (GetFn c (to_face (rb_rays b ! i))) b"
  let ?at = "\<lambda>k. b\<lparr> rb_rays := map ?lab [0..<k] @ drop k (rb_rays b),
      rb_recorders := map ?rec [0..<k] @ drop k (rb_recorders b) \<rparr>"
  have cols: "columns_ok b" "arena_ok b" "length (rb_recorders b) = rb_capacity b"
    "\<And>i. i < rb_size b \<Longrightarrow> length (rec_data (rb_recorders b ! i)) = kInlineCap"
    using b by (auto simp: vacant_def buffer_ok_def)
  have run: "fold ?step [0..<k] b = ?at k" if "k \<le> rb_size b" for k
    using that
  proof (induction k)
    case (Suc k)
    then have k: "k < length (rb_rays b)" "k < length (rb_recorders b)" using cols by (auto simp: columns_ok_def)
    have dr: "drop k (rb_rays b) = rb_rays b ! k # drop (Suc k) (rb_rays b)"
      "drop k (rb_recorders b) = rb_recorders b ! k # drop (Suc k) (rb_recorders b)"
      using k by (simp_all add: Cons_nth_drop_Suc)
    have "fold ?step [0..<Suc k] b = ?step k (?at k)" using Suc by simp
    also have "\<dots> = ?at (Suc k)"
      using k by (simp add: dr put_ray_def RecorderClear_def put_recorder_def RecorderAppend_def raypath_consts
          list_update_append nth_append label_ray_def)
    finally show ?case .
  qed simp
  define b' where "b' = InitRay_other_info c cfg cid root_idx b"
  have b': "b' = ?at (rb_size b)" using run [of "rb_size b"] by (simp add: b'_def InitRay_other_info_def)
  have le: "rb_size b \<le> length (rb_rays b)" "rb_size b \<le> length (rb_recorders b)" "rb_size b \<le> rb_capacity b"
    using cols by (auto simp: columns_ok_def)
  have flat: "\<not> HasOverflow (?rec i)" for i by (simp add: HasOverflow_def)
  have rec: "rb_recorders b' ! i = ?rec i" if "i < rb_size b" for i using that by (simp add: b' nth_append)
  have recs: "length (rec_data (rb_recorders b' ! i)) = kInlineCap" if "i < rb_size b" for i
    using that le cols(3,4) by (auto simp: b' nth_append)
  have v: "vacant b'" using cols le recs by (auto simp: vacant_def b' columns_ok_def buffer_ok_def arena_ok_def
        split: option.splits)
  have sz: "rb_size b' = rb_size b" "rb_capacity b' = rb_capacity b" by (simp_all add: b')
  have one: "rec_ok (rb_overflow_used b') (rb_recorders b' ! i)" "\<not> HasOverflow (rb_recorders b' ! i)"
    if "i < rb_size b" for i
    using that le recs [of i] flat [of i] by (auto simp: rec_ok_def rec raypath_consts)
  have l: "live_ok b'"
    using v le one by (auto simp: live_ok_def vacant_def buffer_ok_def unshared_def sz)
  have "path_of b' i = [GetFn c (to_face (rb_rays b ! i)) mod 256]" if "i < rb_size b" for i
  proof -
    have "0 < length (rec_data (rb_recorders b ! i))" using that le cols(3) cols(4) [of i] by (simp add: raypath_consts)
    then show ?thesis
      using one(2) [OF that] by (simp add: path_of_def RecorderAt_def RecorderDataPtr_def rec [OF that] take_Suc_conv_app_nth)
  qed
  then have "view b' = map (\<lambda>i. opened c b i (?lab i)) [0..<rb_size b]"
    using le by (intro nth_equalityI) (simp_all add: sz view_nth ray_view_def opened_def label_ray_def,
      simp_all add: b' nth_append chain_at_def label_ray_def)
  moreover have "\<exists>rays recs. b' = b\<lparr> rb_rays := rays, rb_recorders := recs \<rparr>" using b' by blast
  moreover have "whole b'" if "whole b"
    using that cols(4) by (auto simp: b' whole_def dest: in_set_dropD)
  ultimately show "live_ok (InitRay_other_info c cfg cid root_idx b)" "vacant (InitRay_other_info c cfg cid root_idx b)"
    "view (InitRay_other_info c cfg cid root_idx b) = map (\<lambda>i. opened c b i (?lab i)) [0..<rb_size b]"
    "\<exists>rays recs. InitRay_other_info c cfg cid root_idx b = b\<lparr> rb_rays := rays, rb_recorders := recs \<rparr>"
    "whole b \<Longrightarrow> whole (InitRay_other_info c cfg cid root_idx b)"
    using l v by (simp_all add: b'_def)
qed

lemma live_vacant: "live_ok b \<Longrightarrow> vacant b"
  by (auto simp: live_ok_def vacant_def buffer_ok_def rec_ok_def)

lemma for_rays_view:
  assumes "live_ok b"
  shows "live_ok (for_rays f b)"
    "view (for_rays f b) = map (\<lambda>i. case view b ! i of (r, rest) \<Rightarrow> (f i r, rest)) [0..<rb_size b]"
    "frame 0 (for_rays f b) (b\<lparr> rb_rays := rb_rays (for_rays f b) \<rparr>)"
proof -
  have le: "rb_size b \<le> length (rb_rays b)" using assms by (simp add: live_ok_def columns_ok_def)
  note eq = for_rays_eq [OF le, of f]
  have st: "same_store b (for_rays f b)" by (simp add: eq same_store_def)
  show "live_ok (for_rays f b)"
    using assms le unfolding live_ok_def same_store_ok [OF st] by (auto simp: eq columns_ok_def split: option.splits)
  show "view (for_rays f b) = map (\<lambda>i. case view b ! i of (r, rest) \<Rightarrow> (f i r, rest)) [0..<rb_size b]"
    using le by (intro nth_equalityI) (simp_all add: eq, simp_all add: view_nth ray_view_def same_store_path [OF st],
      simp_all add: eq view_nth ray_view_def chain_at_def nth_append same_store_path [OF st, unfolded eq])
  show "frame 0 (for_rays f b) (b\<lparr> rb_rays := rb_rays (for_rays f b) \<rparr>)" by (simp add: eq frame_def same_columns_def)
qed

text \<open>A loop over the rays of a buffer that rewrites one entry at a time.\<close>

lemma view_fold:
  assumes step: "\<And>i b. I b \<Longrightarrow> i < n \<Longrightarrow> I (step i b) \<and> view (step i b) = (view b)[i := f (view b ! i)]"
    and b: "I b" "rb_size b = n"
  shows "I (fold step [0..<n] b)" "view (fold step [0..<n] b) = map f (view b)"
proof -
  have "I (fold step [0..<k] b) \<and> view (fold step [0..<k] b) = map f (take k (view b)) @ drop k (view b)" if "k \<le> n" for k
    using that
  proof (induction k)
    case (Suc k)
    then have k: "k < length (view b)" using b(2) by simp
    then show ?case
      using Suc step [of "fold step [0..<k] b" k]
      by (simp add: take_Suc_conv_app_nth nth_append list_update_append min_def Cons_nth_drop_Suc [symmetric])
  qed (use b in simp)
  from this [of n] show "I (fold step [0..<n] b)" "view (fold step [0..<n] b) = map f (view b)"
    using b(2) view_length [of b] by simp_all
qed

definition same_frame :: "rbuf \<Rightarrow> rbuf \<Rightarrow> bool" where
  "same_frame b b' \<longleftrightarrow> rb_size b' = rb_size b \<and> rb_capacity b' = rb_capacity b \<and> HasChainIds b' = HasChainIds b \<and>
     rb_overflow_used b' = rb_overflow_used b \<and> (whole b \<longrightarrow> whole b')"

lemma same_frame_trans: "same_frame a b \<Longrightarrow> same_frame b c \<Longrightarrow> same_frame a c"
  by (simp add: same_frame_def)

lemma same_frame_loops:
  "vacant b \<Longrightarrow> same_frame b (for_rays f b)" "vacant b \<Longrightarrow> same_frame b (InitRay_other_info c cfg cid k b)"
  "same_frame b (SetComponent i m b)" "same_frame b (SetChainId i x b)"
  using InitRay_other_info_spec(3,5) [of b c cfg cid k] vacant_rays [of b]
  by (auto simp: same_frame_def for_rays_eq HasChainIds_def SetComponent_def SetChainId_def) (auto simp: whole_def)

lemma reset_components:
  assumes "live_ok b"
  shows "live_ok (fold (\<lambda>i. SetComponent i 0) [0..<rb_size b] b)" "same_frame b (fold (\<lambda>i. SetComponent i 0) [0..<rb_size b] b)"
    "view (fold (\<lambda>i. SetComponent i 0) [0..<rb_size b] b) = map (\<lambda>(r, p, m, ch). (r, p, 0, ch)) (view b)"
proof -
  let ?I = "\<lambda>b'. live_ok b' \<and> same_frame b b'"
  have "?I (SetComponent i 0 b') \<and> view (SetComponent i 0 b') = (view b')[i := (\<lambda>(r, p, m, ch). (r, p, 0, ch)) (view b' ! i)]"
    if "?I b'" "i < rb_size b" for i b'
    using that view_put(4,5) [of b' i 0] same_frame_trans [OF conjunct2 [OF that(1)] same_frame_loops(3) [of b' i 0]]
    by (simp add: view_nth ray_view_def same_frame_def)
  from view_fold [where I = ?I, OF this] show "live_ok (fold (\<lambda>i. SetComponent i 0) [0..<rb_size b] b)"
    "same_frame b (fold (\<lambda>i. SetComponent i 0) [0..<rb_size b] b)"
    "view (fold (\<lambda>i. SetComponent i 0) [0..<rb_size b] b) = map (\<lambda>(r, p, m, ch). (r, p, 0, ch)) (view b)"
    using assms by (auto simp: same_frame_def)
qed

lemma reset_chain_ids:
  assumes "live_ok b"
  shows "live_ok (fold (\<lambda>i. SetChainId i (of_nat v)) [0..<rb_size b] b)"
    "same_frame b (fold (\<lambda>i. SetChainId i (of_nat v)) [0..<rb_size b] b)"
    "view (fold (\<lambda>i. SetChainId i (of_nat v)) [0..<rb_size b] b) = map (\<lambda>e. with_chain e v) (view b)"
proof -
  let ?I = "\<lambda>b'. live_ok b' \<and> same_frame b b'"
  have "?I (SetChainId i (of_nat v) b') \<and> view (SetChainId i (of_nat v) b') = (view b')[i := with_chain (view b' ! i) v]"
    if "?I b'" "i < rb_size b" for i b'
    using that set_chain_view [of b' i v] same_frame_trans [OF conjunct2 [OF that(1)] same_frame_loops(4) [of b' i "of_nat v"]]
    by (simp add: same_frame_def)
  from view_fold [where I = ?I, OF this] show "live_ok (fold (\<lambda>i. SetChainId i (of_nat v)) [0..<rb_size b] b)"
    "same_frame b (fold (\<lambda>i. SetChainId i (of_nat v)) [0..<rb_size b] b)"
    "view (fold (\<lambda>i. SetChainId i (of_nat v)) [0..<rb_size b] b) = map (\<lambda>e. with_chain e v) (view b)"
    using assms by (auto simp: same_frame_def)
qed

section \<open>Entering the first layer, and a later one\<close>

definition pick_face :: "CrystalGeom \<Rightarrow> RayDraw \<Rightarrow> rseg \<Rightarrow> rseg" where
  "pick_face cf draw r = (if CountEntrySubTris cf = 0 then enter_nowhere r
     else enter_ray (BuildEntrySubTris cf) (surface (BuildEntrySubTris cf)) (sd_pick draw) (sd_uv draw) r)"

lemma InitRay_p_fid_eq: "InitRay_p_fid cf draws b = for_rays (\<lambda>i. pick_face cf (draws ! i)) b"
  by (simp add: InitRay_p_fid_def pick_face_def [abs_def] Let_def)

text \<open>What a ray is when it enters the crystal for the first time, and on a later layer.\<close>

definition newborn :: "real \<Rightarrow> EntryCtx \<Rightarrow> RayDraw \<Rightarrow> rseg \<Rightarrow> rseg" where
  "newborn wl_weight en draw r = pick_face (en_geom en) draw
     (r\<lparr> crystal_rot := sd_rot draw, seg_w := wl_weight * en_correction en, prev_ray_idx := kInfSize_nat,
         seg_d := Rotation_ApplyInverse (sd_rot draw) (sd_dir draw) \<rparr>)"

definition reborn :: "EntryCtx \<Rightarrow> RayDraw \<Rightarrow> rseg \<Rightarrow> rseg" where
  "reborn en draw r = pick_face (en_geom en) draw
     (r\<lparr> seg_w := seg_w r * en_correction en, crystal_rot := sd_rot draw,
         seg_d := Rotation_ApplyInverse (sd_rot draw) (seg_d r) \<rparr>)"

definition labelled :: "EntryCtx \<Rightarrow> nat \<Rightarrow> rseg \<Rightarrow> rseg" where
  "labelled en = label_ray (en_config_id en) (en_crystal_id en)"

definition entry_path :: "EntryCtx \<Rightarrow> rseg \<Rightarrow> nat list" where
  "entry_path en r = [GetFn (en_crystal en) (to_face r) mod 256]"

definition first_entry :: "real \<Rightarrow> EntryCtx \<Rightarrow> bool \<Rightarrow> nat \<Rightarrow> RayDraw \<Rightarrow> rseg \<Rightarrow> entry" where
  "first_entry wl_weight en chain_ids root_idx draw r =
     (let r = newborn wl_weight en draw r
      in (labelled en root_idx r, entry_path en r, 0, if chain_ids then Some (of_nat kRootChainId) else None))"

definition later_entry :: "EntryCtx \<Rightarrow> nat \<Rightarrow> RayDraw \<Rightarrow> entry \<Rightarrow> entry" where
  "later_entry en root_idx draw e = (case e of (r, p, m, ch) \<Rightarrow>
     let r = reborn en draw r in ((labelled en root_idx r)\<lparr> is_continue := False \<rparr>, entry_path en r, m, ch))"

lemma label_fields [simp]:
  "to_face (label_ray cfg cid k r) = to_face r" "seg_w (label_ray cfg cid k r) = seg_w r"
  "seg_d (label_ray cfg cid k r) = seg_d r" "seg_p (label_ray cfg cid k r) = seg_p r"
  "from_face (label_ray cfg cid k r) = from_face r" "is_continue (label_ray cfg cid k r) = is_continue r"
  by (simp_all add: label_ray_def)

lemma InitRayFirstMs_spec:
  assumes b0: "vacant (b0\<lparr> rb_size := n \<rparr>)" and al: "live_ok all" and room: "rb_overflow_used all + n \<le> 0xFFFE"
  shows "\<exists>b all'. InitRayFirstMs wl n en draws (b0, all) = Some (b, all') \<and> live_ok b \<and> live_ok all' \<and>
      view b = map (\<lambda>i. first_entry wl en (HasChainIds b0) (rb_size all + i) (draws ! i) (rb_rays b0 ! i)) [0..<n] \<and>
      rb_capacity b = rb_capacity b0 \<and> rb_overflow_used b = rb_overflow_used b0 \<and> HasChainIds b = HasChainIds b0 \<and>
      (whole b0 \<longrightarrow> whole b) \<and> rb_capacity all' = rb_capacity all \<and> rb_overflow_used all' \<le> rb_overflow_used all + n"
proof -
  let ?b = "b0\<lparr> rb_size := n \<rparr>"
  define b1 where "b1 = for_rays (\<lambda>i. newborn wl en (draws ! i)) ?b"
  have le: "rb_size ?b \<le> length (rb_rays ?b)" by (rule vacant_rays [OF b0])
  have b1: "InitRay_p_fid (en_geom en) draws (InitRay_d_w_previdx wl (en_correction en) draws (InitRay_rot draws ?b)) = b1"
    using le unfolding b1_def newborn_def InitRay_p_fid_eq InitRay_d_w_previdx_def InitRay_rot_def Let_def
    by (simp add: for_rays_for_rays)
  have v1: "vacant b1" "same_frame ?b b1" using b0 by (simp_all add: b1_def for_rays_vacant same_frame_loops)
  have at1: "rb_rays b1 ! i = newborn wl en (draws ! i) (rb_rays b0 ! i)" "rb_components b1 = rb_components b0"
      "rb_chain_ids b1 = rb_chain_ids b0" if "i < n" for i
    using that le by (simp_all add: b1_def for_rays_eq nth_append)
  define b2 where "b2 = InitRay_other_info (en_crystal en) (en_config_id en) (en_crystal_id en) (rb_size all) b1"
  note O = InitRay_other_info_spec [OF v1(1), of "en_crystal en" "en_config_id en" "en_crystal_id en" "rb_size all", folded b2_def]
  have f2: "same_frame b1 b2" using v1(1) by (simp add: b2_def same_frame_loops)
  define b3 where "b3 = fold (\<lambda>i. SetComponent i 0) [0..<rb_size b2] b2"
  note C = reset_components [OF O(1), folded b3_def]
  define b4 where "b4 = (if HasChainIds b3 then fold (\<lambda>i. SetChainId i (of_nat kRootChainId)) [0..<rb_size b3] b3 else b3)"
  have D: "live_ok b4" "same_frame b3 b4" "view b4 = (if HasChainIds b3 then map (\<lambda>e. with_chain e kRootChainId) (view b3) else view b3)"
    using reset_chain_ids [OF C(1), of kRootChainId] C(1) by (simp_all add: b4_def same_frame_def)
  have fr: "same_frame ?b b4" using v1(2) f2 C(2) D(2) same_frame_trans by blast
  then have sz: "rb_size b4 = n" "HasChainIds b3 = HasChainIds b0" "rb_size b1 = n"
    using D(2) v1(2) by (auto simp: same_frame_def HasChainIds_def)
  have "(\<lambda>e. if HasChainIds b0 then with_chain e kRootChainId else e) ((\<lambda>(r, p, m, ch). (r, p, 0, ch))
        (opened (en_crystal en) b1 i (label_ray (en_config_id en) (en_crystal_id en) (rb_size all + i) (rb_rays b1 ! i))))
      = first_entry wl en (HasChainIds b0) (rb_size all + i) (draws ! i) (rb_rays b0 ! i)" if "i < n" for i
    using at1 [OF that] by (auto simp: first_entry_def Let_def opened_def with_chain_def labelled_def entry_path_def chain_at_def
        HasChainIds_def)
  then have view: "view b4 = map (\<lambda>i. first_entry wl en (HasChainIds b0) (rb_size all + i) (draws ! i) (rb_rays b0 ! i)) [0..<n]"
    unfolding D(3) C(3) O(2) sz by (auto simp: comp_def intro: map_cong)
  obtain all' where all': "EmplaceBack_buffer b4 0 (2 ^ 64 - 1) all = Some all'" "live_ok all'" "rb_capacity all' = rb_capacity all"
      "rb_overflow_used all' \<le> rb_overflow_used all + rb_size b4"
    using EmplaceBack_all [OF D(1) al] room by (auto simp: sz)
  have "InitRayFirstMs wl n en draws (b0, all) = Some (b4, all')"
    using all'(1) unfolding InitRayFirstMs_def Let_def prod.case b1 b2_def [symmetric] b3_def [symmetric] b4_def [symmetric]
    by (simp add: kInfSize_nat_def)
  then show ?thesis using D(1) all' view fr by (auto simp: same_frame_def sz HasChainIds_def whole_def)
qed

lemma emplace_one_whole:
  assumes "emplace_one src i b = Some b'" and src: "live_ok src" "i < rb_size src" and "whole b" and "rb_size b < length (rb_recorders b)"
  shows "whole b'" "HasChainIds b' = HasChainIds b" "length (rb_recorders b') = length (rb_recorders b)"
    "rb_capacity b' = rb_capacity b"
proof -
  let ?n = "rb_size b"
  let ?b1 = "SetComponent ?n (rb_components src ! i) (put_recorder ?n (rb_recorders src ! i) (put_ray ?n (rb_rays src ! i) b))"
  let ?b = "if rb_chain_ids ?b1 \<noteq> None then SetChainId ?n (case rb_chain_ids src of Some c \<Rightarrow> c ! i | None \<Rightarrow> 0) ?b1 else ?b1"
  have recs: "rb_recorders ?b = (rb_recorders b)[?n := rb_recorders src ! i]"
    by (auto simp: SetChainId_def SetComponent_def put_recorder_def put_ray_def)
  have ch: "HasChainIds ?b = HasChainIds b" "rb_capacity ?b = rb_capacity b"
    by (auto simp: SetChainId_def SetComponent_def put_recorder_def put_ray_def HasChainIds_def)
  obtain b1 where b1: "DupOverflowSlot src ?n ?b = Some b1" "b' = b1\<lparr> rb_size := rb_size b1 + 1 \<rparr>"
    using assms(1) by (auto simp: emplace_one_def Let_def)
  have "length (rec_data (rb_recorders src ! i)) = kInlineCap"
    using src by (auto simp: live_ok_def buffer_ok_def rec_ok_def)
  then have "whole ?b"
    using assms(4) set_update_subset_insert [of "rb_recorders b" ?n "rb_recorders src ! i"] unfolding whole_def recs by auto
  moreover have "?n < length (rb_recorders ?b)" using assms(5) by (simp only: recs length_list_update)
  ultimately have "whole b1" by (rule whole_Dup [OF b1(1)])
  then show "whole b'" by (simp add: b1(2) whole_def)
  have "length (rb_recorders b1) = length (rb_recorders ?b)"
    using b1(1) by (auto simp: DupOverflowSlot_def AllocOverflowSlot_def put_recorder_def put_slot_def Let_def split: if_splits)
  then show "length (rb_recorders b') = length (rb_recorders b)" unfolding recs by (simp add: b1(2))
  show "HasChainIds b' = HasChainIds b" "rb_capacity b' = rb_capacity b"
    using Dup_frame [OF b1(1)] ch by (auto simp: b1(2) frame_def same_columns_def HasChainIds_def)
qed

lemma emplace_loop_whole:
  assumes "emplace_loop src is b = Some b'" and "live_ok src" and "set is \<subseteq> {..<rb_size src}" and "whole b"
    and "length (rb_recorders b) = rb_capacity b"
  shows "whole b'"
  using assms
proof (induction "is" arbitrary: b)
  case (Cons i "is")
  show ?case
  proof (cases "rb_size b < rb_capacity b")
    case True
    then obtain b1 where b1: "emplace_one src i b = Some b1" "emplace_loop src is b1 = Some b'"
      using Cons.prems(1) by (auto simp: bind_eq_Some_conv)
    have "i < rb_size src" "rb_size b < length (rb_recorders b)" using Cons.prems(3,5) True by auto
    note E = emplace_one_whole [OF b1(1) Cons.prems(2) this(1) Cons.prems(4) this(2)]
    show ?thesis using Cons.IH [OF b1(2) Cons.prems(2) _ E(1)] Cons.prems(3,5) E(3,4) by simp
  qed (use Cons.prems in auto)
qed simp

lemma emplace_loop_chain: "emplace_loop src is b = Some b' \<Longrightarrow> HasChainIds b' = HasChainIds b"
proof (induction "is" arbitrary: b)
  case (Cons i "is")
  have "HasChainIds b1 = HasChainIds b" if "emplace_one src i b = Some b1" for b1
    using that by (auto simp: emplace_one_def Let_def frame_def same_columns_def HasChainIds_def SetComponent_def SetChainId_def
        put_ray_def put_recorder_def dest!: Dup_frame split: if_splits)
  then show ?case using Cons by (auto simp: bind_eq_Some_conv split: if_splits)
qed simp

lemma InitRayOtherMs_spec:
  assumes i0: "live_ok init" and b0: "live_ok (b0\<lparr> rb_size := 0 \<rparr>)" and al: "live_ok all"
    and room: "rb_overflow_used b0 + n \<le> 0xFFFE" "rb_overflow_used all + n \<le> 0xFFFE"
    and size: "offset + n \<le> rb_size init" "n \<le> rb_capacity b0" "rb_size init < 2 ^ 64" and chain: "HasChainIds init = HasChainIds b0"
  shows "\<exists>b all'. InitRayOtherMs init n en draws (offset, b0, all) = Some (offset + n, b, all') \<and> live_ok b \<and> live_ok all' \<and>
      view b = map (\<lambda>i. later_entry en (rb_size all + i) (draws ! i) (view init ! (offset + i))) [0..<n] \<and>
      rb_capacity b = rb_capacity b0 \<and> rb_overflow_used b \<le> rb_overflow_used b0 + n \<and>
      HasChainIds b = HasChainIds b0 \<and> (whole b0 \<longrightarrow> whole b) \<and> rb_capacity all' = rb_capacity all \<and> rb_overflow_used all' \<le> rb_overflow_used all + n"
proof -
  let ?b = "b0\<lparr> rb_size := 0 \<rparr>"
  have ch: "HasChainIds ?b = HasChainIds init" using chain by (simp add: HasChainIds_def)
  have same: "carried (HasChainIds ?b) (view init ! i) = view init ! i" if "i < rb_size init" for i
    using that unfolding ch by (auto simp: carried_def view_nth ray_view_def HasChainIds_def chain_at_def)
  have "rb_overflow_used ?b + min n (rb_size init - offset) \<le> 0xFFFE" "offset + n < 2 ^ 64" using room(1) size by simp_all
  from EmplaceBack_buffer_part [OF i0 b0 this] obtain b1 where
    b1: "EmplaceBack_buffer init offset n ?b = Some b1" "live_ok b1" "rb_capacity b1 = rb_capacity b0"
      "view b1 = take (rb_capacity b0) (view ?b @ map (carried (HasChainIds ?b)) (take n (drop offset (view init))))"
    by auto
  have "view ?b = []" by (simp add: view_def)
  then have v1: "view b1 = map (\<lambda>i. view init ! (offset + i)) [0..<n]"
    unfolding b1(4) using size by (intro nth_equalityI) (simp_all add: same)
  then have n1: "rb_size b1 = n" using view_length [of b1] by simp
  have used: "rb_overflow_used b1 \<le> rb_overflow_used b0 + n"
    using emplace_loop_used [of init "[offset..<min ((offset + n) mod 2 ^ 64) (rb_size init)]" ?b b1] b1(1) size
    by (auto simp: EmplaceBack_buffer_def Let_def)
  define b2 where "b2 = for_rays (\<lambda>i. reborn en (draws ! i)) b1"
  have le: "rb_size b1 \<le> length (rb_rays b1)" using b1(2) by (simp add: live_ok_def columns_ok_def)
  have b2: "InitRay_p_fid (en_geom en) draws (for_rays (\<lambda>i r. r\<lparr> seg_d := Rotation_ApplyInverse (crystal_rot r) (seg_d r) \<rparr>)
      (InitRay_rot draws (if en_correction en \<noteq> 1 then for_rays (\<lambda>i r. r\<lparr> seg_w := seg_w r * en_correction en \<rparr>) b1 else b1))) = b2"
    using le by (simp add: b2_def reborn_def [abs_def] InitRay_p_fid_eq InitRay_rot_def for_rays_for_rays)
  note F = for_rays_view [OF b1(2), of "\<lambda>i. reborn en (draws ! i)", folded b2_def]
  have f2: "same_frame b1 b2" using live_vacant [OF b1(2)] by (simp add: b2_def same_frame_loops)
  have v2: "vacant b2" by (rule live_vacant [OF F(1)])
  define b3 where "b3 = InitRay_other_info (en_crystal en) (en_config_id en) (en_crystal_id en) (rb_size all) b2"
  note O = InitRay_other_info_spec [OF v2, of "en_crystal en" "en_config_id en" "en_crystal_id en" "rb_size all", folded b3_def]
  have f3: "same_frame b2 b3" using v2 by (simp add: b3_def same_frame_loops)
  define b4 where "b4 = for_rays (\<lambda>i r. r\<lparr> is_continue := False \<rparr>) b3"
  note G = for_rays_view [OF O(1), of "\<lambda>i r. r\<lparr> is_continue := False \<rparr>", folded b4_def]
  have f4: "same_frame b3 b4" using live_vacant [OF O(1)] by (simp add: b4_def same_frame_loops)
  have fr: "same_frame b1 b4" using f2 f3 f4 same_frame_trans by blast
  then have sz: "rb_size b4 = n" "rb_size b3 = n" "rb_size b2 = n" using f2 f3 by (auto simp: same_frame_def n1)
  have "(case view b3 ! i of (r, rest) \<Rightarrow> (r\<lparr> is_continue := False \<rparr>, rest))
      = later_entry en (rb_size all + i) (draws ! i) (view init ! (offset + i))" if "i < n" for i
  proof -
    obtain r p m c where e: "view init ! (offset + i) = (r, p, m, c)" by (cases "view init ! (offset + i)")
    then have "view b2 ! i = (reborn en (draws ! i) r, p, m, c)" using that by (simp add: F(2) v1 n1)
    then have "rb_rays b2 ! i = reborn en (draws ! i) r" "rb_components b2 ! i = m" "chain_at b2 i = c"
      using that by (simp_all add: view_nth sz ray_view_def)
    then show ?thesis using that by (simp add: O(2) sz opened_def later_entry_def e Let_def labelled_def entry_path_def)
  qed
  then have view: "view b4 = map (\<lambda>i. later_entry en (rb_size all + i) (draws ! i) (view init ! (offset + i))) [0..<n]"
    unfolding G(2) sz by (auto intro: map_cong)
  obtain all' where all': "EmplaceBack_buffer b4 0 (2 ^ 64 - 1) all = Some all'" "live_ok all'" "rb_capacity all' = rb_capacity all"
      "rb_overflow_used all' \<le> rb_overflow_used all + rb_size b4"
    using EmplaceBack_all [OF G(1) al] room(2) by (auto simp: sz)
  have "InitRayOtherMs init n en draws (offset, b0, all) = Some (offset + n, b4, all')"
    using all'(1) b1(1) b2 by (simp add: InitRayOtherMs_def Let_def b3_def [symmetric] b4_def [symmetric] kInfSize_nat_def)
  moreover have "whole b1" if "whole b0"
  proof (rule emplace_loop_whole)
    show "emplace_loop init [offset..<min ((offset + n) mod 2 ^ 64) (rb_size init)] ?b = Some b1"
      using b1(1) by (simp add: EmplaceBack_buffer_def Let_def)
    show "length (rb_recorders ?b) = rb_capacity ?b" using b0 by (simp add: live_ok_def buffer_ok_def)
  qed (use that i0 in \<open>auto simp: whole_def\<close>)
  moreover have "HasChainIds b1 = HasChainIds b0"
    using emplace_loop_chain [of init "[offset..<min ((offset + n) mod 2 ^ 64) (rb_size init)]" ?b b1] b1(1)
    by (auto simp: EmplaceBack_buffer_def Let_def HasChainIds_def)
  ultimately show ?thesis using G(1) all' view fr b1(3) used by (auto simp: same_frame_def sz)
qed

section \<open>What enters may be traced\<close>

text \<open>A rotation matrix has orthonormal rows; its transpose keeps lengths.\<close>

definition rotation_ok :: "real list \<Rightarrow> bool" where
  "rotation_ok m \<longleftrightarrow> length m = 9 \<and>
     Dot3r (drop 0 m) (drop 0 m) = 1 \<and> Dot3r (drop 3 m) (drop 3 m) = 1 \<and> Dot3r (drop 6 m) (drop 6 m) = 1 \<and>
     Dot3r (drop 0 m) (drop 3 m) = 0 \<and> Dot3r (drop 0 m) (drop 6 m) = 0 \<and> Dot3r (drop 3 m) (drop 6 m) = 0"

lemma ApplyInverse_coords:
  assumes "length m = 9"
  shows "Rotation_ApplyInverse m d = [m ! 0 * d ! 0 + m ! 3 * d ! 1 + m ! 6 * d ! 2,
     m ! 1 * d ! 0 + m ! 4 * d ! 1 + m ! 7 * d ! 2, m ! 2 * d ! 0 + m ! 5 * d ! 1 + m ! 8 * d ! 2]"
  by (simp add: Rotation_ApplyInverse_def Rotation_Apply_def Rotation_Inverse_def Dot3r_def upt_3) (simp add: numeral_2_eq_2)

lemma rotation_unit:
  assumes m: "rotation_ok m" and d: "unit_vec d"
  shows "unit_vec (Rotation_ApplyInverse m d)"
proof -
  have len: "length m = 9" using m by (simp add: rotation_ok_def)
  let ?R = "\<lambda>i j. Dot3r (drop i m) (drop j m)"
  have "Dot3r (Rotation_ApplyInverse m d) (Rotation_ApplyInverse m d)
      = d ! 0 * d ! 0 * ?R 0 0 + d ! 1 * d ! 1 * ?R 3 3 + d ! 2 * d ! 2 * ?R 6 6
        + 2 * (d ! 0 * d ! 1) * ?R 0 3 + 2 * (d ! 0 * d ! 2) * ?R 0 6 + 2 * (d ! 1 * d ! 2) * ?R 3 6"
    by (simp add: ApplyInverse_coords [OF len] Dot3r_def len algebra_simps)
  also have "\<dots> = Dot3r d d" using m by (simp add: rotation_ok_def Dot3r_def [of d])
  finally show ?thesis using d by (simp add: unit_vec_def ApplyInverse_coords [OF len])
qed

definition entry_dir :: "RayDraw \<Rightarrow> real list \<Rightarrow> real list" where
  "entry_dir draw d = Rotation_ApplyInverse (sd_rot draw) d"

definition light_ok :: "EntryCtx \<Rightarrow> RayDraw \<Rightarrow> real list \<Rightarrow> bool" where
  "light_ok en draw d \<longleftrightarrow> geom_ok (en_geom en) \<and> unit_vec d \<and> rotation_ok (sd_rot draw) \<and>
     0 \<le> sd_pick draw \<and> sd_pick draw \<le> 1 \<and> 0 \<le> fst (sd_uv draw) \<and> fst (sd_uv draw) \<le> 1 \<and>
     0 \<le> snd (sd_uv draw) \<and> snd (sd_uv draw) \<le> 1 \<and>
     0 < sum_list (proj_prob (BuildEntrySubTris (en_geom en)) (entry_dir draw d))"

definition entry_gain :: "EntryCtx \<Rightarrow> RayDraw \<Rightarrow> real list \<Rightarrow> real" where
  "entry_gain en draw d = entry_weight (sum_list (proj_prob (BuildEntrySubTris (en_geom en)) (entry_dir draw d)))
     (surface (BuildEntrySubTris (en_geom en)))"

lemma pick_face_spec:
  assumes l: "light_ok en draw d" and r: "seg_d r = entry_dir draw d" "0 \<le> seg_w r" and r': "r' = pick_face (en_geom en) draw r"
  shows "hit_ok (en_crystal en) r'" "cos_at (en_crystal en) r' < 0" "inside (en_crystal en) (seg_p r')"
    "height (en_crystal en) (to_face r') (seg_p r') = 0" "seg_w r' = seg_w r * entry_gain en draw d" "seg_w r' \<le> seg_w r"
proof -
  let ?cf = "en_geom en"
  have cf: "geom_ok ?cf" and lit: "0 < sum_list (proj_prob (BuildEntrySubTris ?cf) (seg_d r))" and u: "unit_vec (seg_d r)"
    using l rotation_unit by (auto simp: light_ok_def r entry_dir_def)
  have "BuildEntrySubTris ?cf \<noteq> []" using lit by (auto simp: proj_prob_def)
  then have "CountEntrySubTris ?cf \<noteq> 0" using CountEntrySubTris_length [of ?cf] cf by (simp add: geom_ok_def)
  then have eq: "r' = enter_ray (BuildEntrySubTris ?cf) (surface (BuildEntrySubTris ?cf)) (sd_pick draw) (sd_uv draw) r"
    by (simp add: r' pick_face_def)
  have draws: "0 \<le> sd_pick draw" "sd_pick draw \<le> 1" "0 \<le> fst (sd_uv draw)" "fst (sd_uv draw) \<le> 1"
     "0 \<le> snd (sd_uv draw)" "snd (sd_uv draw) \<le> 1"
    using l by (auto simp: light_ok_def)
  note E = enter_ray_spec [OF cf u r(2) lit draws eq]
  show "hit_ok (en_crystal en) r'" "cos_at (en_crystal en) r' < 0" "inside (en_crystal en) (seg_p r')"
    "height (en_crystal en) (to_face r') (seg_p r') = 0" "seg_w r' \<le> seg_w r"
    using E by (simp_all add: en_crystal_def)
  show "seg_w r' = seg_w r * entry_gain en draw d" using E(7) by (simp add: entry_gain_def r(1))
qed

lemma newborn_spec:
  assumes "light_ok en draw (sd_dir draw)" and "0 \<le> wl * en_correction en"
  shows "hit_ok (en_crystal en) (newborn wl en draw r)" "cos_at (en_crystal en) (newborn wl en draw r) < 0"
    "inside (en_crystal en) (seg_p (newborn wl en draw r))"
    "seg_w (newborn wl en draw r) = wl * en_correction en * entry_gain en draw (sd_dir draw)"
  using pick_face_spec [OF assms(1) _ _ newborn_def] assms(2) by (simp_all add: entry_dir_def)

lemma reborn_spec:
  assumes "light_ok en draw (seg_d r)" and "0 \<le> seg_w r * en_correction en"
  shows "hit_ok (en_crystal en) (reborn en draw r)" "cos_at (en_crystal en) (reborn en draw r) < 0"
    "inside (en_crystal en) (seg_p (reborn en draw r))"
    "seg_w (reborn en draw r) = seg_w r * en_correction en * entry_gain en draw (seg_d r)"
  using pick_face_spec [OF assms(1) _ _ reborn_def] assms(2) by (simp_all add: entry_dir_def)

lemma hit_ok_label: "hit_ok c (labelled en k r) = hit_ok c r" "hit_ok c ((labelled en k r)\<lparr> is_continue := x \<rparr>) = hit_ok c r"
  by (simp_all add: labelled_def hit_ok_def cos_at_def)

section \<open>The shuffle between two layers\<close>

text \<open>A ray with its component mask and its chain id: all that crosses a layer boundary.\<close>

definition load :: "rbuf \<Rightarrow> nat \<Rightarrow> rseg \<times> u64 \<times> u32 option" where
  "load b i = (rb_rays b ! i, rb_components b ! i, chain_at b i)"

definition loads :: "rbuf \<Rightarrow> (rseg \<times> u64 \<times> u32 option) list" where
  "loads b = map (load b) [0..<rb_size b]"

lemma SwapRay_size [simp]: "rb_size (SwapRay i j b) = rb_size b"
  by (simp add: SwapRay_def)

lemma SwapRay_loads:
  assumes "live_ok b" and "i < rb_size b" and "j < rb_size b"
  shows "loads (SwapRay i j b) = swap_at i j (loads b)"
  using SwapRay_spec(2) [OF assms] assms(2,3)
  by (intro nth_equalityI) (auto simp: loads_def load_def swap_at_nth Let_def)

text \<open>The shuffle on lists, as a function of the indices drawn; and what the generator draws.\<close>

fun fisher_yates :: "nat list \<Rightarrow> 'a list \<Rightarrow> 'a list" where
  "fisher_yates [] xs = xs"
| "fisher_yates (k # ks) xs = (let ys = swap_at 0 k xs in hd ys # fisher_yates ks (tl ys))"

fun draw_indices :: "(nat \<Rightarrow> 'g \<Rightarrow> nat \<times> 'g) \<Rightarrow> nat \<Rightarrow> 'g \<Rightarrow> nat list \<times> 'g" where
  "draw_indices uidx 0 rng = ([], rng)"
| "draw_indices uidx (Suc n) rng =
     (let (k, rng) = uidx (Suc n) rng; (ks, rng) = draw_indices uidx n rng in (k # ks, rng))"

definition in_range :: "(nat \<Rightarrow> 'g \<Rightarrow> nat \<times> 'g) \<Rightarrow> bool" where
  "in_range uidx \<longleftrightarrow> (\<forall>n rng. 0 < n \<longrightarrow> fst (uidx n rng) < n)"

lemma swap_at_drop:
  assumes "i < length xs" and "k + i < length xs"
  shows "swap_at i (k + i) xs = take i xs @ swap_at 0 k (drop i xs)"
  using assms by (intro nth_equalityI) (auto simp: swap_at_nth nth_append add.commute)

lemma shuffle_loop:
  assumes "live_ok b" and "in_range uidx" and "rb_size b = i + n" and "draw_indices uidx n rng = (ks, rng')"
  shows "\<exists>b'. fold (\<lambda>i (rng, b). let (k, rng) = uidx (rb_size b - i) rng; j = k + i in (rng, SwapRay i j b)) [i..<i + n] (rng, b)
      = (rng', b') \<and> live_ok b' \<and> rb_size b' = rb_size b \<and> loads b' = take i (loads b) @ fisher_yates ks (drop i (loads b))"
  using assms
proof (induction n arbitrary: i b rng ks)
  case 0
  then show ?case by simp
next
  case (Suc n)
  obtain k r1 where k: "uidx (Suc n) rng = (k, r1)" by (cases "uidx (Suc n) rng")
  obtain ks1 where ks: "draw_indices uidx n r1 = (ks1, rng')" "ks = k # ks1"
    using Suc.prems(4) k by (auto simp: Let_def split: prod.splits)
  have "fst (uidx (Suc n) rng) < Suc n" using Suc.prems(2) unfolding in_range_def by blast
  then have ij: "i < rb_size b" "k + i < rb_size b" using Suc.prems(3) k by auto
  define c where "c = SwapRay i (k + i) b"
  have c: "live_ok c" "rb_size c = Suc i + n" "loads c = swap_at i (k + i) (loads b)"
    using SwapRay_spec(1) [OF Suc.prems(1) ij] SwapRay_loads [OF Suc.prems(1) ij] Suc.prems(3) by (simp_all add: c_def)
  from Suc.IH [OF c(1) Suc.prems(2) c(2) ks(1)] obtain b' where b':
    "fold (\<lambda>i (rng, b). let (k, rng) = uidx (rb_size b - i) rng; j = k + i in (rng, SwapRay i j b)) [Suc i..<Suc i + n] (r1, c)
      = (rng', b')" "live_ok b'" "rb_size b' = rb_size c" "loads b' = take (Suc i) (loads c) @ fisher_yates ks1 (drop (Suc i) (loads c))"
    by blast
  have up: "[i..<i + Suc n] = i # [Suc i..<Suc i + n]" by (simp add: upt_rec)
  have at: "uidx (rb_size b - i) rng = (k, r1)" using k Suc.prems(3) by simp
  have len: "length (loads b) = rb_size b" by (simp add: loads_def)
  let ?zs = "swap_at 0 k (drop i (loads b))"
  have zs: "loads c = take i (loads b) @ ?zs" "length ?zs = Suc n"
    using swap_at_drop [of i "loads b" k] ij by (simp_all add: c(3) len Suc.prems(3))
  obtain z zs' where z: "?zs = z # zs'" using zs(2) by (cases ?zs) auto
  have "length (take i (loads b)) = i" using ij by (simp add: len)
  then have "take (Suc i) (loads c) = take i (loads b) @ [hd ?zs]" "drop (Suc i) (loads c) = tl ?zs"
    unfolding zs(1) z by simp_all
  then have "loads b' = take i (loads b) @ fisher_yates ks (drop i (loads b))"
    unfolding b'(4) ks(2) by (simp add: Let_def)
  moreover have "fold (\<lambda>i (rng, b). let (k, rng) = uidx (rb_size b - i) rng; j = k + i in (rng, SwapRay i j b)) [i..<i + Suc n] (rng, b)
      = (rng', b')"
    unfolding up using b'(1) by (simp add: at c_def)
  ultimately show ?case using b'(2,3) c(2) Suc.prems(3) by auto
qed

lemma shuffle_init_data_spec:
  assumes "live_ok b" and "in_range uidx" and "draw_indices uidx (rb_size b) rng = (ks, rng')"
  shows "\<exists>b'. shuffle_init_data uidx (rng, b) = (rng', b') \<and> live_ok b' \<and> rb_size b' = rb_size b \<and>
    loads b' = fisher_yates ks (loads b)"
  using shuffle_loop [OF assms(1,2) _ assms(3), of 0] by (simp add: shuffle_init_data_def)

text \<open>Every order of the rays is the outcome of exactly one sequence of draws.\<close>

definition draws_ok :: "nat list \<Rightarrow> bool" where
  "draws_ok ks \<longleftrightarrow> (\<forall>i<length ks. ks ! i < length ks - i)"

lemma draws_ok_Cons: "draws_ok (k # ks) \<longleftrightarrow> k \<le> length ks \<and> draws_ok ks"
  by (auto simp: draws_ok_def nth_Cons less_Suc_eq_le split: nat.splits)

lemma swap_at_mset:
  assumes "i < length xs" and "j < length xs"
  shows "mset (swap_at i j xs) = mset xs"
  using assms mset_swap [of j xs i] by (simp add: swap_at_def)

lemma swap_to_front:
  assumes "k < length xs"
  shows "hd (swap_at 0 k xs) = xs ! k" "mset (tl (swap_at 0 k xs)) = mset xs - {# xs ! k #}"
    "length (swap_at 0 k xs) = length xs"
proof -
  have pos: "0 < length xs" using assms by auto
  then have "swap_at 0 k xs \<noteq> []" by (metis length_greater_0_conv swap_at_length)
  then show hd: "hd (swap_at 0 k xs) = xs ! k" using assms pos by (simp add: hd_conv_nth swap_at_nth)
  show "mset (tl (swap_at 0 k xs)) = mset xs - {# xs ! k #}"
    using swap_at_mset [OF pos assms] \<open>swap_at 0 k xs \<noteq> []\<close> unfolding hd [symmetric]
    by (cases "swap_at 0 k xs") (simp_all, metis add_mset_remove_trivial)
qed simp

lemma fisher_yates_unique:
  assumes "distinct xs" and "mset ys = mset xs"
  shows "\<exists>!ks. length ks = length xs \<and> draws_ok ks \<and> fisher_yates ks xs = ys"
  using assms
proof (induction ys arbitrary: xs)
  case Nil
  then show ?case by (auto simp: draws_ok_def)
next
  case (Cons y ys)
  have "y \<in> set xs" using Cons.prems(2) by (metis list.set_intros(1) set_mset_mset)
  then obtain k where k: "k < length xs" "xs ! k = y" by (auto simp: in_set_conv_nth)
  note S = swap_to_front [OF k(1)]
  let ?t = "tl (swap_at 0 k xs)"
  have m: "mset ys = mset ?t" using Cons.prems(2) k(2) unfolding S(2) by (metis add_mset_remove_trivial mset.simps(2))
  have "mset (swap_at 0 k xs) = mset xs" using k(1) by (intro swap_at_mset) auto
  then have "distinct (swap_at 0 k xs)" using Cons.prems(1) by (metis mset_eq_imp_distinct_iff)
  then have d: "distinct ?t" by (rule distinct_tl)
  from Cons.IH [OF d m] obtain ks where ks: "length ks = length ?t" "draws_ok ks" "fisher_yates ks ?t = ys"
    and uniq: "\<And>ls. length ls = length ?t \<Longrightarrow> draws_ok ls \<Longrightarrow> fisher_yates ls ?t = ys \<Longrightarrow> ls = ks"
    by (elim ex1E conjE) blast
  show ?case
  proof (rule ex1I [of _ "k # ks"])
    show "length (k # ks) = length xs \<and> draws_ok (k # ks) \<and> fisher_yates (k # ks) xs = y # ys"
    proof (intro conjI)
      show "length (k # ks) = length xs" "draws_ok (k # ks)"
        using ks(1,2) k(1) by (auto simp: draws_ok_Cons)
      show "fisher_yates (k # ks) xs = y # ys" using ks(3) k(2) S(1) by (simp add: Let_def)
    qed
    fix ls assume ls: "length ls = length xs \<and> draws_ok ls \<and> fisher_yates ls xs = y # ys"
    then obtain l ls' where l: "ls = l # ls'" using k(1) by (cases ls) auto
    have lt: "l < length xs" using ls by (auto simp: l draws_ok_Cons)
    have "xs ! l = y" using ls swap_to_front(1) [OF lt] by (simp add: l Let_def)
    then have "l = k" using k lt Cons.prems(1) by (auto simp: nth_eq_iff_index_eq)
    have "length ls' = length ?t" "draws_ok ls'" using ls k(1) by (auto simp: l draws_ok_Cons)
    moreover have "fisher_yates ls' ?t = ys" using ls \<open>l = k\<close> by (simp add: l Let_def)
    ultimately show "ls = k # ks" using uniq \<open>l = k\<close> by (simp add: l)
  qed
qed

end
