(* ===== verification/Layer_Trace.thy ===== *)
theory Layer_Trace
  imports Layer_Entry
begin

text \<open>
  A scattering layer (\<open>Simulator::SimulateOneWavelength\<close> in \<open>src/core/simulator.cpp\<close>): the batches of rays
  of one crystal, each entering its crystal and played through the hit loop, and the hand-over to the next layer.

  The crystals the driver samples, and what depends on a sampled crystal, are part of the batch; the layer is
  the sequence of its batches.  The lemmas show that a layer runs without an abort, that no ray is dropped on the
  way to the next layer, and that no light is created.
\<close>

section \<open>The code\<close>

record LightBatch =
  bt_num :: nat
  bt_entry :: EntryCtx
  bt_ctx :: HitCtx
  bt_draws :: "RayDraw list"

text \<open>The sizes of the batches of one crystal: the loop over \<open>cn\<close>.\<close>

function cn_batches :: "nat \<Rightarrow> nat \<Rightarrow> nat \<Rightarrow> nat list" where
  "cn_batches geom_clock crystal_ray_num cn =
     (if cn < crystal_ray_num \<and> 0 < geom_clock
      then min geom_clock (crystal_ray_num - cn) # cn_batches geom_clock crystal_ray_num (cn + geom_clock) else [])"
  by auto
termination by (relation "measure (\<lambda>(g, n, cn). n - cn)") auto

declare cn_batches.simps [simp del]

definition enter_batch ::
  "real \<Rightarrow> bool \<Rightarrow> rbuf \<Rightarrow> LightBatch \<Rightarrow> nat \<times> rbuf \<times> rbuf \<Rightarrow> (nat \<times> rbuf \<times> rbuf) option"
where
  "enter_batch wl_weight first_ms init bt st =
     (if first_ms then map_option (\<lambda>(b0, all). (fst st, b0, all))
        (InitRayFirstMs wl_weight (bt_num bt) (bt_entry bt) (bt_draws bt) (snd st))
      else InitRayOtherMs init (bt_num bt) (bt_entry bt) (bt_draws bt) st)"

definition trace_batch ::
  "(real, 'z) float_ops_scheme \<Rightarrow> ('g \<Rightarrow> real \<times> 'g) \<Rightarrow> nat \<Rightarrow> real \<Rightarrow> bool \<Rightarrow> rbuf \<Rightarrow> LightBatch \<Rightarrow>
     nat \<times> 'g HitState \<Rightarrow> (nat \<times> 'g HitState) option"
where
  "trace_batch fl uni max_hits wl_weight first_ms init bt st =
     Option.bind (enter_batch wl_weight first_ms init bt (fst st, hs_in (snd st), hs_all (snd st))) (\<lambda>(offset, b0, all).
       map_option (Pair offset) (hit_loop fl uni (bt_ctx bt) max_hits ((snd st)\<lparr> hs_in := b0, hs_all := all \<rparr>)))"

fun trace_batches ::
  "(real, 'z) float_ops_scheme \<Rightarrow> ('g \<Rightarrow> real \<times> 'g) \<Rightarrow> nat \<Rightarrow> real \<Rightarrow> bool \<Rightarrow> rbuf \<Rightarrow> LightBatch list \<Rightarrow>
     nat \<times> 'g HitState \<Rightarrow> (nat \<times> 'g HitState) option"
where
  "trace_batches fl uni max_hits wl_weight first_ms init [] st = Some st"
| "trace_batches fl uni max_hits wl_weight first_ms init (bt # bts) st =
     Option.bind (trace_batch fl uni max_hits wl_weight first_ms init bt st)
       (trace_batches fl uni max_hits wl_weight first_ms init bts)"

text \<open>The end of a layer; the state is the number of rays, the generator and the two buffers of \<open>init_data\<close>.\<close>

definition next_layer ::
  "(nat \<Rightarrow> 'g \<Rightarrow> nat \<times> 'g) \<Rightarrow> rseg \<Rightarrow> nat \<Rightarrow> bool \<Rightarrow> 'g \<times> rbuf \<times> rbuf \<Rightarrow> nat \<times> 'g \<times> rbuf \<times> rbuf"
where
  "next_layer uidx ray0 max_hits chain_ids_on st =
     (case st of (rng, init0, init1) \<Rightarrow>
      let ray_num = rb_size init1;
          init0 = Reset ray0 (ray_num * (max_hits + 1)) chain_ids_on init0;
          (init0, init1) = (init1, init0);
          (rng, init0) = shuffle_init_data uidx (rng, init0)
      in (ray_num, rng, init0, init1))"

section \<open>The batches of a crystal\<close>

text \<open>No batch is empty or larger than the clock, and together they are the rays of the crystal.\<close>

lemma cn_batches_spec:
  assumes "0 < g"
  shows "sum_list (cn_batches g n cn) = n - cn" "list_all (\<lambda>c. 0 < c \<and> c \<le> g) (cn_batches g n cn)"
proof -
  have "sum_list (cn_batches g n cn) = n - cn \<and> list_all (\<lambda>c. 0 < c \<and> c \<le> g) (cn_batches g n cn)"
    using assms
  proof (induction g n cn rule: cn_batches.induct)
    case (1 g n cn)
    show ?case
    proof (cases "cn < n")
      case True
      with 1 have IH: "sum_list (cn_batches g n (cn + g)) = n - (cn + g)"
          "list_all (\<lambda>c. 0 < c \<and> c \<le> g) (cn_batches g n (cn + g))" by auto
      have "cn_batches g n cn = min g (n - cn) # cn_batches g n (cn + g)"
        using True 1(2) by (simp add: cn_batches.simps [of g n cn])
      then show ?thesis using IH True 1(2) by (simp add: min_def)
    next
      case False
      then have "cn_batches g n cn = []" by (simp add: cn_batches.simps [of g n cn])
      then show ?thesis using False by simp
    qed
  qed
  then show "sum_list (cn_batches g n cn) = n - cn" "list_all (\<lambda>c. 0 < c \<and> c \<le> g) (cn_batches g n cn)" by simp_all
qed

section \<open>One batch\<close>

text \<open>The buffers between two batches: \<open>N\<close> rays fit, and the arenas have room for \<open>m\<close> more hits or entries.\<close>

definition layer_ready :: "nat \<Rightarrow> nat \<Rightarrow> 'g HitState \<Rightarrow> bool" where
  "layer_ready N m s \<longleftrightarrow>
     whole (hs_in s) \<and> live_ok (hs_in s) \<and> live_ok (hs_out s) \<and> live_ok (hs_next s) \<and> live_ok (hs_all s) \<and>
     HasChainIds (hs_in s) = HasChainIds (hs_out s) \<and> HasChainIds (hs_next s) = HasChainIds (hs_out s) \<and>
     N < rb_capacity (hs_in s) \<and> 2 * N \<le> rb_capacity (hs_out s) \<and>
     rb_overflow_used (hs_in s) + 2 * N * m \<le> 0xFFFE \<and> rb_overflow_used (hs_out s) + 4 * N * m \<le> 0xFFFE \<and>
     rb_overflow_used (hs_next s) + 2 * N * m \<le> 0xFFFE \<and> rb_overflow_used (hs_all s) + 2 * N * m \<le> 0xFFFE"

text \<open>What enters, from the light source or from the rays handed on by the layer before; and its weight.\<close>

definition entered :: "real \<Rightarrow> bool \<Rightarrow> bool \<Rightarrow> rbuf \<Rightarrow> nat \<Rightarrow> LightBatch \<Rightarrow> entry list \<Rightarrow> bool" where
  "entered wl first_ms chain_ids init offset bt es \<longleftrightarrow> length es = bt_num bt \<and>
     (\<forall>i<bt_num bt. \<exists>k r. es ! i =
        (if first_ms then first_entry wl (bt_entry bt) chain_ids k (bt_draws bt ! i) r
         else later_entry (bt_entry bt) k (bt_draws bt ! i) (view init ! (offset + i))))"

definition weight_in :: "real \<Rightarrow> bool \<Rightarrow> rbuf \<Rightarrow> nat \<Rightarrow> LightBatch \<Rightarrow> nat \<Rightarrow> real" where
  "weight_in wl first_ms init offset bt i =
     (if first_ms then wl else seg_w (fst (view init ! (offset + i)))) * en_correction (bt_entry bt)"

definition dir_in :: "bool \<Rightarrow> rbuf \<Rightarrow> nat \<Rightarrow> LightBatch \<Rightarrow> nat \<Rightarrow> real list" where
  "dir_in first_ms init offset bt i =
     (if first_ms then sd_dir (bt_draws bt ! i) else seg_d (fst (view init ! (offset + i))))"

definition batch_light :: "real \<Rightarrow> bool \<Rightarrow> rbuf \<Rightarrow> nat \<Rightarrow> LightBatch \<Rightarrow> real" where
  "batch_light wl first_ms init offset bt = sum_list (map (\<lambda>i. weight_in wl first_ms init offset bt i *
     entry_gain (bt_entry bt) (bt_draws bt ! i) (dir_in first_ms init offset bt i)) [0..<bt_num bt])"

definition light_batch_ok :: "real \<Rightarrow> bool \<Rightarrow> rbuf \<Rightarrow> nat \<Rightarrow> nat \<Rightarrow> bool \<Rightarrow> LightBatch \<Rightarrow> bool" where
  "light_batch_ok wl first_ms init N offset chain_ids bt \<longleftrightarrow> bt_num bt \<le> N \<and> hc_crystal (bt_ctx bt) = en_crystal (bt_entry bt) \<and>
     crystal_ok (hc_crystal (bt_ctx bt)) \<and> 0 < hc_index (bt_ctx bt) \<and> (hc_chain (bt_ctx bt) \<noteq> None \<longrightarrow> chain_ids) \<and>
     (\<forall>i<bt_num bt. light_ok (bt_entry bt) (bt_draws bt ! i) (dir_in first_ms init offset bt i) \<and>
        0 \<le> weight_in wl first_ms init offset bt i) \<and>
     (first_ms \<or> live_ok init \<and> HasChainIds init = chain_ids \<and> offset + bt_num bt \<le> rb_size init \<and> rb_size init < 2 ^ 64)"

text \<open>Every ray that enters may be traced, and weighs what is lit of its crystal.\<close>

lemma entered_spec:
  assumes e: "entered wl first_ms chain_ids init offset bt es" and b: "light_batch_ok wl first_ms init N offset chain_ids bt"
  shows "list_all (\<lambda>e. hit_ok (hc_crystal (bt_ctx bt)) (fst e)) es" "energy es = batch_light wl first_ms init offset bt"
proof -
  let ?w = "\<lambda>i. weight_in wl first_ms init offset bt i *
     entry_gain (bt_entry bt) (bt_draws bt ! i) (dir_in first_ms init offset bt i)"
  have len: "length es = bt_num bt" using e by (simp add: entered_def)
  have one: "hit_ok (hc_crystal (bt_ctx bt)) (fst (es ! i)) \<and> seg_w (fst (es ! i)) = ?w i" if "i < bt_num bt" for i
  proof -
    obtain k r where *: "es ! i = (if first_ms then first_entry wl (bt_entry bt) chain_ids k (bt_draws bt ! i) r
         else later_entry (bt_entry bt) k (bt_draws bt ! i) (view init ! (offset + i)))"
      using e \<open>i < bt_num bt\<close> unfolding entered_def by blast
    have l: "light_ok (bt_entry bt) (bt_draws bt ! i) (dir_in first_ms init offset bt i)"
      "0 \<le> weight_in wl first_ms init offset bt i" "hc_crystal (bt_ctx bt) = en_crystal (bt_entry bt)"
      using b that by (auto simp: light_batch_ok_def)
    show ?thesis
    proof (cases first_ms)
      case True
      then show ?thesis
        using newborn_spec [of "bt_entry bt" "bt_draws bt ! i" wl r] l
        by (simp add: * first_entry_def Let_def dir_in_def weight_in_def hit_ok_label) (simp add: labelled_def)
    next
      case False
      obtain q p m c where q: "view init ! (offset + i) = (q, p, m, c)" by (cases "view init ! (offset + i)")
      with False show ?thesis
        using reborn_spec [of "bt_entry bt" "bt_draws bt ! i" q] l
        by (simp add: * later_entry_def Let_def dir_in_def weight_in_def hit_ok_label) (simp add: labelled_def)
    qed
  qed
  then show "list_all (\<lambda>e. hit_ok (hc_crystal (bt_ctx bt)) (fst e)) es" by (simp add: list_all_length len)
  have "map (\<lambda>e. seg_w (fst e)) es = map ?w [0..<bt_num bt]" using one by (intro nth_equalityI) (simp_all add: len)
  then show "energy es = batch_light wl first_ms init offset bt" by (simp add: energy_def batch_light_def)
qed

lemma resized_vacant:
  assumes "whole b" and "live_ok b" and "n \<le> rb_capacity b"
  shows "vacant (b\<lparr> rb_size := n \<rparr>)"
proof -
  have "length (rb_recorders b) = rb_capacity b" using assms(2) by (simp add: live_ok_def buffer_ok_def)
  then have "length (rec_data (rb_recorders b ! i)) = kInlineCap" if "i < n" for i
    using that assms(1,3) by (simp add: whole_def)
  then show ?thesis
    using assms(2,3) by (auto simp: vacant_def live_ok_def columns_ok_def buffer_ok_def arena_ok_def split: option.splits)
qed

lemma emptied_live: "live_ok b \<Longrightarrow> live_ok (b\<lparr> rb_size := 0 \<rparr>)"
  by (auto simp: live_ok_def columns_ok_def buffer_ok_def arena_ok_def split: option.splits)

lemma enter_batch_spec:
  assumes s: "layer_ready N (Suc m) s" and b: "light_batch_ok wl first_ms init N offset (HasChainIds (hs_out s)) bt"
  shows "\<exists>b0 all. enter_batch wl first_ms init bt (offset, hs_in s, hs_all s)
        = Some (if first_ms then offset else offset + bt_num bt, b0, all) \<and>
      entered wl first_ms (HasChainIds (hs_out s)) init offset bt (view b0) \<and> rb_size b0 = bt_num bt \<and>
      layer_ready N m (s\<lparr> hs_in := b0, hs_all := all \<rparr>)"
proof -
  let ?n = "bt_num bt"
  have n: "?n \<le> N" "N < rb_capacity (hs_in s)" using b s by (auto simp: light_batch_ok_def layer_ready_def)
  have al: "live_ok (hs_all s)" "rb_overflow_used (hs_all s) + ?n \<le> 0xFFFE" using s n by (auto simp: layer_ready_def)
  have li: "live_ok (hs_in s)" "whole (hs_in s)" using s by (auto simp: layer_ready_def)
  show ?thesis
  proof (cases first_ms)
    case True
    have "vacant ((hs_in s)\<lparr> rb_size := ?n \<rparr>)" using resized_vacant [OF li(2,1)] n by simp
    from InitRayFirstMs_spec [OF this al, of wl "bt_entry bt" "bt_draws bt"] obtain b0 all where
      *: "InitRayFirstMs wl ?n (bt_entry bt) (bt_draws bt) (hs_in s, hs_all s) = Some (b0, all)" "live_ok b0" "live_ok all"
        "view b0 = map (\<lambda>i. first_entry wl (bt_entry bt) (HasChainIds (hs_in s)) (rb_size (hs_all s) + i) (bt_draws bt ! i)
           (rb_rays (hs_in s) ! i)) [0..<?n]"
        "rb_capacity b0 = rb_capacity (hs_in s)" "rb_overflow_used b0 = rb_overflow_used (hs_in s)"
        "HasChainIds b0 = HasChainIds (hs_in s)" "whole (hs_in s) \<longrightarrow> whole b0"
        "rb_overflow_used all \<le> rb_overflow_used (hs_all s) + ?n" by blast
    have "rb_size b0 = ?n" using view_length [of b0] unfolding *(4) by simp
    moreover have "entered wl first_ms (HasChainIds (hs_out s)) init offset bt (view b0)"
      using s True by (auto simp: entered_def *(4) layer_ready_def)
    ultimately show ?thesis
      using True *(1-3,5-9) s n li(2) by (auto simp: enter_batch_def layer_ready_def)
  next
    case False
    then have i: "live_ok init" "HasChainIds init = HasChainIds (hs_in s)" "offset + ?n \<le> rb_size init" "rb_size init < 2 ^ 64"
      "?n \<le> rb_capacity (hs_in s)" "rb_overflow_used (hs_in s) + ?n \<le> 0xFFFE"
      using b s n by (auto simp: light_batch_ok_def layer_ready_def)
    from InitRayOtherMs_spec [OF i(1) emptied_live [OF li(1)] al(1) i(6) al(2) i(3,5,4,2), of "bt_entry bt" "bt_draws bt"]
    obtain b0 all where
      *: "InitRayOtherMs init ?n (bt_entry bt) (bt_draws bt) (offset, hs_in s, hs_all s) = Some (offset + ?n, b0, all)"
        "live_ok b0" "live_ok all"
        "view b0 = map (\<lambda>i. later_entry (bt_entry bt) (rb_size (hs_all s) + i) (bt_draws bt ! i) (view init ! (offset + i))) [0..<?n]"
        "rb_capacity b0 = rb_capacity (hs_in s)" "rb_overflow_used b0 \<le> rb_overflow_used (hs_in s) + ?n"
        "HasChainIds b0 = HasChainIds (hs_in s)" "whole (hs_in s) \<longrightarrow> whole b0"
        "rb_overflow_used all \<le> rb_overflow_used (hs_all s) + ?n" by blast
    have "rb_size b0 = ?n" using view_length [of b0] unfolding *(4) by simp
    moreover have "entered wl first_ms (HasChainIds (hs_out s)) init offset bt (view b0)"
      using False by (auto simp: entered_def *(4))
    ultimately show ?thesis
      using False *(1-3,5-9) s n li(2) by (auto simp: enter_batch_def layer_ready_def)
  qed
qed

text \<open>The specification of a batch: the rays that enter, hit by hit.\<close>

definition spec_batch ::
  "(real, 'z) float_ops_scheme \<Rightarrow> ('g \<Rightarrow> real \<times> 'g) \<Rightarrow> nat \<Rightarrow> HitCtx \<times> entry list \<Rightarrow> 'g SpecState \<Rightarrow> 'g SpecState"
where
  "spec_batch fl uni max_hits ce a = (spec_hit fl uni (fst ce) ^^ max_hits) (a\<lparr> ss_inside := map obs (snd ce) \<rparr>)"

lemma trace_batch_refines:
  assumes s: "layer_ready N (Suc (m + k)) s" and b: "light_batch_ok wl first_ms init N offset (HasChainIds (hs_out s)) bt"
    and cap: "rb_size (hs_next s) + bt_num bt * (k + 1) < rb_capacity (hs_next s)" and A: "implements s a"
  shows "\<exists>s' es. trace_batch fl uni k wl first_ms init bt (offset, s)
        = Some (if first_ms then offset else offset + bt_num bt, s') \<and>
      entered wl first_ms (HasChainIds (hs_out s)) init offset bt es \<and>
      implements s' (spec_batch fl uni k (bt_ctx bt, es) a) \<and> layer_ready N m s' \<and>
      HasChainIds (hs_out s') = HasChainIds (hs_out s) \<and> rb_capacity (hs_next s') = rb_capacity (hs_next s) \<and>
      rb_size (hs_next s') \<le> rb_size (hs_next s) + bt_num bt * (k + 1)"
proof -
  obtain b0 all where e: "enter_batch wl first_ms init bt (offset, hs_in s, hs_all s)
        = Some (if first_ms then offset else offset + bt_num bt, b0, all)"
      "entered wl first_ms (HasChainIds (hs_out s)) init offset bt (view b0)" "rb_size b0 = bt_num bt"
      "layer_ready N (m + k) (s\<lparr> hs_in := b0, hs_all := all \<rparr>)"
    using enter_batch_spec [OF s b] by blast
  define s1 where "s1 = s\<lparr> hs_in := b0, hs_all := all \<rparr>"
  note ready = e(4) [folded s1_def]
  have "loop_ok (bt_ctx bt) N (rb_size (hs_next s) + bt_num bt * (k + 1)) (m + k) k s1"
    using ready b cap entered_spec(1) [OF e(2) b]
    by (auto simp: loop_ok_def layer_ready_def light_batch_ok_def s1_def e(3))
  moreover have "implements s1 (a\<lparr> ss_inside := map obs (view b0) \<rparr>)"
    using A by (simp add: implements_def s1_def)
  ultimately obtain s' where s': "hit_loop fl uni (bt_ctx bt) k s1 = Some s'"
      "loop_ok (bt_ctx bt) N (rb_size (hs_next s) + bt_num bt * (k + 1)) m 0 s'"
      "implements s' ((spec_hit fl uni (bt_ctx bt) ^^ k) (a\<lparr> ss_inside := map obs (view b0) \<rparr>))"
      "rb_capacity (hs_next s') = rb_capacity (hs_next s1)" "HasChainIds (hs_out s') = HasChainIds (hs_out s1)"
    using hit_loop_refines [of "bt_ctx bt" N "rb_size (hs_next s) + bt_num bt * (k + 1)" m k s1
        "a\<lparr> ss_inside := map obs (view b0) \<rparr>" fl uni] by blast
  have "trace_batch fl uni k wl first_ms init bt (offset, s) = Some (if first_ms then offset else offset + bt_num bt, s')"
    using e(1) s'(1) by (simp add: trace_batch_def s1_def)
  moreover have "layer_ready N m s'" using s'(2) by (auto simp: loop_ok_def layer_ready_def)
  moreover have "rb_size (hs_next s') \<le> rb_size (hs_next s) + bt_num bt * (k + 1)" using s'(2) by (auto simp: loop_ok_def)
  ultimately show ?thesis
    using e(2) s'(3,4,5) by (intro exI [of _ s'] exI [of _ "view b0"]) (simp add: spec_batch_def s1_def)
qed

section \<open>The batches of a layer\<close>

definition next_offset :: "bool \<Rightarrow> LightBatch \<Rightarrow> nat \<Rightarrow> nat" where
  "next_offset first_ms bt offset = (if first_ms then offset else offset + bt_num bt)"

text \<open>What every batch of a layer must satisfy, what enters with it, and the light it brings.\<close>

fun light_batches_ok :: "real \<Rightarrow> bool \<Rightarrow> rbuf \<Rightarrow> nat \<Rightarrow> nat \<Rightarrow> bool \<Rightarrow> LightBatch list \<Rightarrow> bool" where
  "light_batches_ok wl first_ms init N offset chain_ids [] = True"
| "light_batches_ok wl first_ms init N offset chain_ids (bt # bts) \<longleftrightarrow> light_batch_ok wl first_ms init N offset chain_ids bt \<and>
     light_batches_ok wl first_ms init N (next_offset first_ms bt offset) chain_ids bts"

fun layer_entered :: "real \<Rightarrow> bool \<Rightarrow> bool \<Rightarrow> rbuf \<Rightarrow> nat \<Rightarrow> LightBatch list \<Rightarrow> entry list list \<Rightarrow> bool" where
  "layer_entered wl first_ms chain_ids init offset [] ess \<longleftrightarrow> ess = []"
| "layer_entered wl first_ms chain_ids init offset (bt # bts) ess \<longleftrightarrow> (\<exists>es fs. ess = es # fs \<and>
     entered wl first_ms chain_ids init offset bt es \<and>
     layer_entered wl first_ms chain_ids init (next_offset first_ms bt offset) bts fs)"

fun layer_light :: "real \<Rightarrow> bool \<Rightarrow> rbuf \<Rightarrow> nat \<Rightarrow> LightBatch list \<Rightarrow> real" where
  "layer_light wl first_ms init offset [] = 0"
| "layer_light wl first_ms init offset (bt # bts) =
     batch_light wl first_ms init offset bt + layer_light wl first_ms init (next_offset first_ms bt offset) bts"

definition spec_layer ::
  "(real, 'z) float_ops_scheme \<Rightarrow> ('g \<Rightarrow> real \<times> 'g) \<Rightarrow> nat \<Rightarrow> LightBatch list \<Rightarrow> entry list list \<Rightarrow> 'g SpecState \<Rightarrow> 'g SpecState"
where
  "spec_layer fl uni max_hits bts ess = fold (spec_batch fl uni max_hits) (zip (map bt_ctx bts) ess)"

definition batch_rays :: "LightBatch list \<Rightarrow> nat" where
  "batch_rays bts = sum_list (map bt_num bts)"

lemma trace_batches_refine:
  assumes "layer_ready N (m + length bts * Suc k) s" and "light_batches_ok wl first_ms init N offset (HasChainIds (hs_out s)) bts"
    and "rb_size (hs_next s) + batch_rays bts * (k + 1) < rb_capacity (hs_next s)" and "implements s a"
  shows "\<exists>offset' s' ess. trace_batches fl uni k wl first_ms init bts (offset, s) = Some (offset', s') \<and>
      layer_entered wl first_ms (HasChainIds (hs_out s)) init offset bts ess \<and>
      implements s' (spec_layer fl uni k bts ess a) \<and> layer_ready N m s' \<and>
      rb_size (hs_next s') \<le> rb_size (hs_next s) + batch_rays bts * (k + 1)"
  using assms
proof (induction bts arbitrary: offset s a)
  case Nil
  then show ?case by (simp add: spec_layer_def)
next
  case (Cons bt bts)
  let ?h = "HasChainIds (hs_out s)"
  have ready: "layer_ready N (Suc ((m + length bts * Suc k) + k)) s"
    using Cons.prems(1) by (simp add: add.commute add.left_commute)
  have b: "light_batch_ok wl first_ms init N offset ?h bt" using Cons.prems(2) by simp
  have room: "rb_size (hs_next s) + bt_num bt * (k + 1) + batch_rays bts * (k + 1) < rb_capacity (hs_next s)"
    using Cons.prems(3) by (simp add: batch_rays_def algebra_simps)
  then have "rb_size (hs_next s) + bt_num bt * (k + 1) < rb_capacity (hs_next s)" by simp
  from trace_batch_refines [OF ready b this Cons.prems(4), of fl uni] obtain s1 es where
    s1: "trace_batch fl uni k wl first_ms init bt (offset, s) = Some (next_offset first_ms bt offset, s1)"
      "entered wl first_ms ?h init offset bt es" "implements s1 (spec_batch fl uni k (bt_ctx bt, es) a)"
      "layer_ready N (m + length bts * Suc k) s1" "HasChainIds (hs_out s1) = ?h" "rb_capacity (hs_next s1) = rb_capacity (hs_next s)"
      "rb_size (hs_next s1) \<le> rb_size (hs_next s) + bt_num bt * (k + 1)"
    unfolding next_offset_def by metis
  have bs: "light_batches_ok wl first_ms init N (next_offset first_ms bt offset) (HasChainIds (hs_out s1)) bts"
    using Cons.prems(2) by (simp add: s1(5))
  have "rb_size (hs_next s1) + batch_rays bts * (k + 1) < rb_capacity (hs_next s1)" using room s1(6,7) by simp
  from Cons.IH [OF s1(4) bs this s1(3)] obtain offset' s' ess where
    s': "trace_batches fl uni k wl first_ms init bts (next_offset first_ms bt offset, s1) = Some (offset', s')"
      "layer_entered wl first_ms ?h init (next_offset first_ms bt offset) bts ess"
      "implements s' (spec_layer fl uni k bts ess (spec_batch fl uni k (bt_ctx bt, es) a))" "layer_ready N m s'"
      "rb_size (hs_next s') \<le> rb_size (hs_next s1) + batch_rays bts * (k + 1)"
    unfolding s1(5) by blast
  have "rb_size (hs_next s') \<le> rb_size (hs_next s) + batch_rays (bt # bts) * (k + 1)"
    using s'(5) s1(7) by (simp add: batch_rays_def algebra_simps)
  moreover have "trace_batches fl uni k wl first_ms init (bt # bts) (offset, s) = Some (offset', s')"
    using s1(1) s'(1) by simp
  moreover have "implements s' (spec_layer fl uni k (bt # bts) (es # ess) a)" using s'(3) by (simp add: spec_layer_def)
  moreover have "layer_entered wl first_ms ?h init offset (bt # bts) (es # ess)" using s1(2) s'(2) by simp
  ultimately show ?case using s'(4) by blast
qed

section \<open>The light of a layer\<close>

text \<open>What is still inside after the last hit is dropped; it weighs nothing less than nothing.\<close>

lemma energy_obs: "energy (map obs es) = energy es"
  by (induction es) (auto simp: obs_def split: prod.splits)

lemma inside_energy: "inside_ok ctx a \<Longrightarrow> 0 \<le> energy (ss_inside a)"
  by (auto simp: inside_ok_def energy_def list_all_iff hit_ok_def intro!: sum_list_nonneg)

definition given :: "'g SpecState \<Rightarrow> real" where
  "given a = energy (ss_carried a) + energy (ss_emitted a)"

lemma spec_batch_light:
  assumes b: "light_batch_ok wl first_ms init N offset chain_ids bt" and e: "entered wl first_ms chain_ids init offset bt es"
  shows "given (spec_batch fl uni k (bt_ctx bt, es) a) \<le> given a + batch_light wl first_ms init offset bt"
proof -
  note E = entered_spec [OF e b]
  let ?a = "a\<lparr> ss_inside := map obs es \<rparr>"
  have "crystal_ok (hc_crystal (bt_ctx bt))" "0 < hc_index (bt_ctx bt)" using b unfolding light_batch_ok_def by blast+
  then have ok: "inside_ok (bt_ctx bt) ?a" using E(1) by (simp add: inside_ok_def list_all_iff obs_hit_ok)
  have "inside_ok (bt_ctx bt) ((spec_hit fl uni (bt_ctx bt) ^^ k) ?a)" by (rule spec_invariant) (use ok inside_ok_spec in auto)
  from inside_energy [OF this] spec_loop_balance [OF ok, where fl = fl and uni = uni and k = k] show ?thesis
    using E(2) by (simp add: balance_def given_def spec_batch_def energy_obs)
qed

lemma spec_layer_light:
  "light_batches_ok wl first_ms init N offset chain_ids bts \<Longrightarrow> layer_entered wl first_ms chain_ids init offset bts ess \<Longrightarrow>
     given (spec_layer fl uni k bts ess a) \<le> given a + layer_light wl first_ms init offset bts"
proof (induction bts arbitrary: offset ess a)
  case Nil
  then show ?case by (simp add: spec_layer_def)
next
  case (Cons bt bts)
  then obtain es fs where ess: "ess = es # fs" "entered wl first_ms chain_ids init offset bt es"
      "layer_entered wl first_ms chain_ids init (next_offset first_ms bt offset) bts fs" by auto
  have "given (spec_layer fl uni k bts fs (spec_batch fl uni k (bt_ctx bt, es) a))
      \<le> given (spec_batch fl uni k (bt_ctx bt, es) a) + layer_light wl first_ms init (next_offset first_ms bt offset) bts"
    using Cons.IH [OF _ ess(3)] Cons.prems(1) by simp
  moreover have "given (spec_batch fl uni k (bt_ctx bt, es) a) \<le> given a + batch_light wl first_ms init offset bt"
    using spec_batch_light [OF _ ess(2)] Cons.prems(1) by auto
  ultimately show ?case by (simp add: ess(1) spec_layer_def)
qed

text \<open>The light of the program's own buffers and arrays.\<close>

lemma implements_light: "implements s a \<Longrightarrow> sum_list (hs_outgoing_w s) + energy (view (hs_next s)) = given a"
  using energy_obs [of "view (hs_next s)"] by (simp add: implements_def given_def packed_w_def energy_def)

end
