(* ===== verification/Trace_Properties.thy ===== *)
theory Trace_Properties
  imports Layer_Trace
begin

text \<open>
  What the tracing of rays promises (\<open>src/core/simulator.cpp\<close>, \<open>src/core/optics.cpp\<close>): the entry of a ray
  into a crystal, the split of its light at a face, its flight to the next face, the hit loop, the batches of a
  layer and the shuffle between two layers, each with a concrete instance.
\<close>

text \<open>Well-formedness of a buffer, as it is evaluated on a concrete one.\<close>

lemma live_ok_upto: "live_ok b \<longleftrightarrow> columns_ok b \<and> length (rb_recorders b) = rb_capacity b \<and> arena_ok b \<and>
    list_all (\<lambda>i. i < rb_capacity b \<and> rec_ok (rb_overflow_used b) (rb_recorders b ! i)) [0..<rb_size b] \<and>
    list_all (\<lambda>i. list_all (\<lambda>j. i \<noteq> j \<longrightarrow> unshared (rb_recorders b ! i) (rb_recorders b ! j)) [0..<rb_size b]) [0..<rb_size b]"
  by (simp add: live_ok_def buffer_ok_def list_all_iff atLeast0LessThan)

section \<open>The laws of reflection and refraction\<close>

text \<open>
  The reflected direction mirrors the incoming one at the face; the refracted one lies in their plane, on the
  other side of the face, and the sines of the angles to the normal are in the ratio of the indices.
\<close>

definition mirrored :: "real list \<Rightarrow> real list \<Rightarrow> real list \<Rightarrow> bool" where
  "mirrored normal d d' \<longleftrightarrow> d' = lin 1 d (2 * Dot3r d normal) normal"

definition snell :: "real \<Rightarrow> real list \<Rightarrow> real list \<Rightarrow> real list \<Rightarrow> bool" where
  "snell ratio normal d d' \<longleftrightarrow> (\<exists>s. d' = lin ratio d s normal) \<and> 0 < Dot3r d normal * Dot3r d' normal \<and>
     1 - (Dot3r d' normal)\<^sup>2 = ratio\<^sup>2 * (1 - (Dot3r d normal)\<^sup>2)"

lemma children_laws:
  assumes c: "crystal_ok c" and n: "0 < n" and r: "hit_ok c r" and ch: "children c n r out = (a, b)"
  shows "mirrored (poly_n c ! to_face r) (seg_d r) (seg_d a)"
    "0 \<le> seg_w b \<Longrightarrow> snell (rel_index c n r) (poly_n c ! to_face r) (seg_d r) (seg_d b)"
    "seg_w b < 0 \<longleftrightarrow> delta_at c n r \<le> 0"
proof -
  obtain a0 b0 where h: "hit_pair c n r out = (a0, b0)" by (cases "hit_pair c n r out")
  then have ab: "a = fly c r a0" "b = fly c r b0" using ch by (auto simp: children_def)
  have f: "to_face r \<noteq> kInvalidId" "0 \<le> seg_w r" "cos_at c r \<noteq> 0"
    using r crystal_okD(1) [OF c, of "to_face r"] by (auto simp: hit_ok_def)
  note w = hit_pair_weights [OF f(1) n f(2) h]
  note d = hit_pair_directions [OF c r h]
  have eq: "seg_d a0 = lin 1 (seg_d r) (2 * cos_at c r) (poly_n c ! to_face r)"
    "0 < delta_at c n r \<Longrightarrow> seg_d b0 = lin (rel_index c n r) (seg_d r) ((rel_index c n r - sqrt (delta_at c n r)) * cos_at c r)
      (poly_n c ! to_face r)"
    using h by (auto simp: hit_pair_eq [OF f(1)] Let_def)
  then show "mirrored (poly_n c ! to_face r) (seg_d r) (seg_d a)" by (simp add: mirrored_def ab cos_at_def)
  show iff: "seg_w b < 0 \<longleftrightarrow> delta_at c n r \<le> 0" using w(3,4) by (cases "delta_at c n r \<le> 0") (auto simp: ab)
  assume "0 \<le> seg_w b"
  then have pos: "0 < delta_at c n r" using iff by linarith
  let ?k = "cos_at c r" and ?rr = "rel_index c n r"
  have k: "Dot3r (seg_d r) (poly_n c ! to_face r) = ?k" by (simp add: cos_at_def)
  have "delta_at c n r * (?k * ?k) = (1 - ?rr * ?rr) + ?rr * ?rr * (?k * ?k)"
    using f(3) by (simp add: delta_at_def distrib_right)
  moreover have "sqrt (delta_at c n r) * sqrt (delta_at c n r) = delta_at c n r" using pos by simp
  ultimately have "1 - (sqrt (delta_at c n r) * ?k)\<^sup>2 = ?rr\<^sup>2 * (1 - ?k\<^sup>2)"
    by (simp add: power2_eq_square algebra_simps)
  moreover have "0 < ?k * (sqrt (delta_at c n r) * ?k)"
  proof -
    have "0 < ?k * ?k" unfolding zero_less_mult_iff using f(3) by linarith
    then have "0 < sqrt (delta_at c n r) * (?k * ?k)" using pos by simp
    then show ?thesis by (simp only: mult.left_commute)
  qed
  ultimately show "snell ?rr (poly_n c ! to_face r) (seg_d r) (seg_d b)"
    using eq(2) [OF pos] d(4) [OF pos] by (auto simp: snell_def ab k)
qed

text \<open>C23: at a face the light of a ray is divided without loss: the weights of the two new rays, a missing refracted
  ray counting nothing, add up to the ray's; both directions are unit vectors, the one mirrored at the face, the
  other refracted by Snell's law and missing only under total reflection; at most one of the two goes on inside the
  crystal, and it goes to another face.  It holds for every ray of a batch through \<open>HitSurface\<close> and \<open>Propagate\<close>, with
  unit face normals and a ray of unit direction not in the plane of its face, over the real numbers.\<close>

theorem hit_splits_light:
  assumes "crystal_ok c" and "0 < n" and "2 * num \<le> length outs" and "i < num" and "r = ins ! i" and "hit_ok c r"
    and "(rays :: rseg list) = Propagate c (num * 2) 2 ins (HitSurface c n num ins outs)"
    and "a = rays ! (2 * i)" and "b = rays ! (2 * i + 1)"
  shows "0 \<le> seg_w a \<and> max (seg_w a) 0 + max (seg_w b) 0 = seg_w r \<and> unit_vec (seg_d a) \<and> unit_vec (seg_d b) \<and>
    mirrored (poly_n c ! to_face r) (seg_d r) (seg_d a) \<and>
    (if delta_at c n r \<le> 0 then seg_w b < 0
     else 0 \<le> seg_w b \<and> snell (rel_index c n r) (poly_n c ! to_face r) (seg_d r) (seg_d b)) \<and>
    \<not> (stays a \<and> stays b) \<and> (stays a \<longrightarrow> to_face a \<noteq> to_face r) \<and> (stays b \<longrightarrow> to_face b \<noteq> to_face r)"
proof -
  have ch: "children c n r (slot_pair outs i) = (a, b)"
    using traced_rays(2) [OF assms(3,7), of "2 * i"] traced_rays(2) [OF assms(3,7), of "2 * i + 1"] assms(4,5,8,9)
    by (simp add: child_def split_def)
  note S = children_spec [OF assms(1,2,6) ch] and L = children_laws [OF assms(1,2,6) ch]
  show ?thesis
  proof (cases "delta_at c n r \<le> 0")
    case True
    with S L(1,3) show ?thesis by auto
  next
    case False
    then have "0 \<le> seg_w b" using L(3) by linarith
    with S L(1,2) False show ?thesis by auto
  qed
qed

text \<open>A slab between two planes; light of index one meets it, of index 4/3, at sine 4/5 and goes on at sine 3/5.\<close>

abbreviation slab :: CrystalFaces where
  "slab \<equiv> \<lparr> poly_n = [[1, 0, 0], [- 1, 0, 0]], poly_d = [- 1, - 1], poly_fn = [3, 6] \<rparr>"

abbreviation incoming :: rseg where
  "incoming \<equiv> blank\<lparr> seg_d := [- (3 / 5), 4 / 5, 0], seg_p := [1, 0, 0], seg_w := 1, to_face := 0 \<rparr>"

lemma slab_ok: "crystal_ok slab" "hit_ok slab incoming"
  by (simp_all add: crystal_ok_def PolygonFaceCount_def kInvalidId_def unit_vec_def Dot3r_def hit_ok_def cos_at_def blank_def)

theorem hit_splits_light_witness:
  "\<exists>a b. [a, b] = Propagate slab 2 2 [incoming] (HitSurface slab (4 / 3) 1 [incoming] [blank, blank]) \<and>
     max (seg_w a) 0 + max (seg_w b) 0 = 1 \<and> seg_d a = [3 / 5, 4 / 5, 0] \<and>
     (\<exists>s. seg_d b = lin (3 / 4) [- (3 / 5), 4 / 5, 0] s [1, 0, 0]) \<and> 1 - (Dot3r (seg_d b) [1, 0, 0])\<^sup>2 = (3 / 5)\<^sup>2 \<and>
     \<not> (stays a \<and> stays b)"
proof -
  define rays where "rays = Propagate slab (1 * 2) 2 [incoming] (HitSurface slab (4 / 3) 1 [incoming] [blank, blank])"
  have len: "length rays = 2" using traced_rays(1) [OF _ rays_def] by simp
  then have ab: "rays = [rays ! (2 * 0), rays ! (2 * 0 + 1)]" by (auto simp: numeral_2_eq_2 length_Suc_conv)
  have n: "0 < (4 / 3 :: real)" "2 * 1 \<le> length [blank, blank]" "(0 :: nat) < 1" "incoming = [incoming] ! 0" by simp_all
  have k: "cos_at slab incoming = - (3 / 5)" by (simp add: cos_at_def Dot3r_def blank_def)
  have opt: "(delta_at slab (4 / 3) incoming \<le> 0) = False" "rel_index slab (4 / 3) incoming = 3 / 4"
    by (simp_all add: delta_at_def rel_index_def k)
  have ray: "poly_n slab ! to_face incoming = [1, 0, 0]" "seg_d incoming = [- (3 / 5), 4 / 5, 0]" "seg_w incoming = 1"
    by (simp_all add: blank_def)
  note H = hit_splits_light [OF slab_ok(1) n slab_ok(2) rays_def refl refl, unfolded opt ray if_False]
  obtain s where s: "seg_d (rays ! (2 * 0 + 1)) = lin (3 / 4) [- (3 / 5), 4 / 5, 0] s [1, 0, 0]"
      "1 - (Dot3r (seg_d (rays ! (2 * 0 + 1))) [1, 0, 0])\<^sup>2 = (3 / 4)\<^sup>2 * (1 - (Dot3r [- (3 / 5), 4 / 5, 0] [1, 0, 0])\<^sup>2)"
    using H unfolding snell_def by blast
  have "(3 / 4)\<^sup>2 * (1 - (Dot3r [- (3 / 5), 4 / 5, 0] [1, 0, 0])\<^sup>2) = (3 / 5 :: real)\<^sup>2"
    by (simp add: Dot3r_def power2_eq_square)
  then have "1 - (Dot3r (seg_d (rays ! (2 * 0 + 1))) [1, 0, 0])\<^sup>2 = (3 / 5)\<^sup>2" using s(2) by (rule trans [rotated])
  moreover have "seg_d (rays ! (2 * 0)) = [3 / 5, 4 / 5, 0]"
    using H by (simp add: mirrored_def Dot3r_def lin_def upt_3)
  moreover have "[rays ! (2 * 0), rays ! (2 * 0 + 1)] = Propagate slab 2 2 [incoming] (HitSurface slab (4 / 3) 1 [incoming] [blank, blank])"
    using ab unfolding rays_def by simp
  ultimately show ?thesis using H s(1) by blast
qed

section \<open>The flight to the next face\<close>

lemma fly_exit:
  assumes c: "crystal_ok c" and w: "0 \<le> seg_w r" and exit: "to_face (fly c q r) = kInvalidId" and stay: "\<not> leaves c q r"
    and f: "flight c (seg_d r) (seg_p q) f t"
  shows "t \<le> kFloatEps \<or> 10 ^ 30 \<le> t"
proof (rule ccontr)
  assume "\<not> (t \<le> kFloatEps \<or> 10 ^ 30 \<le> t)"
  then have t: "kFloatEps < t" "t < 10 ^ 30" by auto
  define s0 where "s0 = gather_lane c q r"
  define s where "s = nearest c s0"
  have s0: "sl_d s0 = seg_d r" "sl_p s0 = seg_p q" "sl_t_far s0 = 10 ^ 30" "sl_outward s0 \<longleftrightarrow> leaves c q r"
    by (simp_all add: s0_def gather_lane_def Let_def leaves_def)
  have best: "lane_best c {..<PolygonFaceCount c} s0 s" by (simp add: s_def nearest_best)
  have at: "face_t c s0 g = - height c g (seg_p q) / Dot3r (seg_d r) (poly_n c ! g)" if "kSlabEps < Dot3r (seg_d r) (poly_n c ! g)" for g
    using that by (simp add: face_t_def SlabFaceT_eq s0 height_def)
  have "face_t c s0 f = t" "f < PolygonFaceCount c" using f at by (auto simp: flight_def)
  then have le: "sl_t_far s \<le> t" using best by (auto simp: lane_best_def)
  then obtain g where g: "g < PolygonFaceCount c" "sl_far_face s = int g" "sl_t_far s = face_t c s0 g" "face_t c s0 g < 10 ^ 30"
    using best t(2) s0(3) by (auto simp: lane_best_def)
  have "kSlabEps < Dot3r (seg_d r) (poly_n c ! g)"
    using g(4) by (auto simp: face_t_def SlabFaceT_eq s0 split: if_splits)
  then have "t \<le> sl_t_far s" using f g(1,3) at by (auto simp: flight_def)
  then have "kFloatEps < sl_t_far s" using t(1) by simp
  moreover have "0 < kFloatEps" by (simp add: kFloatEps_def)
  ultimately have "to_face (scatter_lane s r) = g"
    using best s0 stay w g crystal_okD(2) [OF c g(1)] by (auto simp: scatter_lane_def lane_best_def Let_def)
  then show False using exit g(1) crystal_okD(1) [OF c g(1)] by (simp add: fly_def s_def s0_def)
qed

text \<open>C25: a ray that has flown from its parent's end point has reached the nearest of the faces it flies towards, and
  none that is missed is crossed: it ends on that face, inside the crystal but for faces it is nearly parallel to.
  Otherwise it has left, staying where it is, either because it flies out through the face it starts on or
  because no face is ahead of it by more than the tolerance.  The chunks of the kernel do not matter.\<close>

theorem flight_ends_at_nearest_face:
  assumes "crystal_ok c" and "num \<le> length outs" and "step dvd kMaxSlabRays" and "i < num"
    and "q = ins ! (i div step)" and "r = outs ! i" and "0 \<le> seg_w r" and "r' = Propagate c num step ins outs ! i"
  shows "to_face r' = kInvalidId \<and> seg_p r' = seg_p q \<and>
      (leaves c q r \<or> (\<forall>f t. flight c (seg_d r) (seg_p q) f t \<longrightarrow> t \<le> kFloatEps \<or> 10 ^ 30 \<le> t)) \<or>
    \<not> leaves c q r \<and> (\<exists>t>- kFloatEps. flight c (seg_d r) (seg_p q) (to_face r') t \<and>
      seg_p r' = map (\<lambda>j. seg_p q ! j + t * seg_d r ! j) [0..<3] \<and>
      (inside c (seg_p q) \<longrightarrow> 0 \<le> t \<and> height c (to_face r') (seg_p r') = 0 \<and>
        (\<forall>g<PolygonFaceCount c. Dot3r (seg_d r) (poly_n c ! g) \<le> 0 \<or> kSlabEps < Dot3r (seg_d r) (poly_n c ! g) \<longrightarrow>
           height c g (seg_p r') \<le> 0)))"
proof -
  have eq: "r' = fly c q r"
    using assms(2-6,8) by (simp add: Propagate_eq fly_all_def nth_append)
  show ?thesis
  proof (rule fly_cases [OF assms(1,7), of q])
    assume "to_face (fly c q r) = kInvalidId" "seg_p (fly c q r) = seg_p q"
    then show ?thesis using fly_exit [OF assms(1,7), of q] unfolding eq by blast
  next
    fix t assume *: "\<not> leaves c q r" "flight c (seg_d r) (seg_p q) (to_face (fly c q r)) t"
      "seg_p (fly c q r) = map (\<lambda>j. seg_p q ! j + t * seg_d r ! j) [0..<3]" "- kFloatEps < t"
    note I = flight_inside [OF *(2), folded *(3)]
    have "inside c (seg_p q) \<longrightarrow> 0 \<le> t \<and> height c (to_face (fly c q r)) (seg_p (fly c q r)) = 0 \<and>
        (\<forall>g<PolygonFaceCount c. Dot3r (seg_d r) (poly_n c ! g) \<le> 0 \<or> kSlabEps < Dot3r (seg_d r) (poly_n c ! g) \<longrightarrow>
           height c g (seg_p (fly c q r)) \<le> 0)"
      using I by blast
    with * show ?thesis unfolding eq by blast
  qed
qed

text \<open>From the middle of the slab to its first face, at distance 5/4.\<close>

abbreviation from_middle :: rseg where
  "from_middle \<equiv> blank\<lparr> seg_d := [4 / 5, 3 / 5, 0], seg_w := 1 \<rparr>"

abbreviation at_middle :: rseg where
  "at_middle \<equiv> blank\<lparr> seg_p := [0, 0, 0], to_face := 1 \<rparr>"

theorem flight_ends_at_nearest_face_witness:
  "let r' = Propagate slab 1 1 [at_middle] [from_middle] ! 0
   in to_face r' = 0 \<and> seg_p r' = [1, 3 / 4, 0] \<and> flight slab [4 / 5, 3 / 5, 0] [0, 0, 0] 0 (5 / 4) \<and> height slab 0 (seg_p r') = 0"
proof -
  define r' where "r' = Propagate slab 1 1 [at_middle] [from_middle] ! 0"
  have "(1 :: nat) \<le> length [from_middle]" "(1 :: nat) dvd kMaxSlabRays" "(0 :: nat) < 1" "at_middle = [at_middle] ! (0 div 1)"
    "from_middle = [from_middle] ! 0" "0 \<le> seg_w from_middle" by simp_all
  note F = flight_ends_at_nearest_face [OF slab_ok(1) this r'_def]
  have two: "(\<forall>g<PolygonFaceCount slab. P g) \<longleftrightarrow> P 0 \<and> P 1" "f < PolygonFaceCount slab \<longleftrightarrow> f = 0 \<or> f = 1" for P f
    by (auto simp: PolygonFaceCount_def less_2_cases_iff numeral_2_eq_2 [symmetric])
  have go: "flight slab [4 / 5, 3 / 5, 0] [0, 0, 0] f t \<longleftrightarrow> f = 0 \<and> t = 5 / 4" for f t
    by (auto simp: flight_def two height_def Dot3r_def kSlabEps_def)
  have "inside slab [0, 0, 0]" "\<not> leaves slab at_middle from_middle"
    by (simp_all add: inside_def two height_def Dot3r_def leaves_def blank_def)
  moreover have ray: "seg_d from_middle = [4 / 5, 3 / 5, 0]" "seg_p at_middle = [0, 0, 0]" by simp_all
  moreover have "\<not> (\<forall>f t. flight slab [4 / 5, 3 / 5, 0] [0, 0, 0] f t \<longrightarrow> t \<le> kFloatEps \<or> 10 ^ 30 \<le> t)"
    unfolding go by (auto simp: kFloatEps_def intro: exI [of _ "5 / 4"])
  ultimately obtain t where t: "flight slab [4 / 5, 3 / 5, 0] [0, 0, 0] (to_face r') t"
      "seg_p r' = map (\<lambda>j. [0, 0, 0] ! j + t * [4 / 5, 3 / 5, 0] ! j) [0..<3]" "height slab (to_face r') (seg_p r') = 0"
    using F unfolding ray by blast
  from t(1) have "to_face r' = 0" "t = 5 / 4" unfolding go by simp_all
  with t(2,3) show ?thesis unfolding Let_def r'_def [symmetric] go by (simp add: upt_3)
qed

section \<open>The shuffle\<close>

lemma draw_indices_ok:
  "in_range uidx \<Longrightarrow> draw_indices uidx n rng = (ks, rng') \<Longrightarrow> length ks = n \<and> draws_ok ks"
proof (induction n arbitrary: rng ks)
  case 0
  then show ?case by (simp add: draws_ok_def)
next
  case (Suc n)
  obtain k r1 where k: "uidx (Suc n) rng = (k, r1)" by (cases "uidx (Suc n) rng")
  obtain ks1 where ks: "draw_indices uidx n r1 = (ks1, rng')" "ks = k # ks1"
    using Suc.prems(2) k by (auto simp: Let_def split: prod.splits)
  have "fst (uidx (Suc n) rng) < Suc n" using Suc.prems(1) unfolding in_range_def by blast
  then show ?case using Suc.IH [OF Suc.prems(1) ks(1)] by (simp add: ks(2) draws_ok_Cons k)
qed

lemma fisher_yates_map:
  "draws_ok ks \<Longrightarrow> length ks = length xs \<Longrightarrow> fisher_yates ks (map f xs) = map f (fisher_yates ks xs)"
proof (induction ks arbitrary: xs)
  case (Cons k ks)
  have k: "k < length xs" "xs \<noteq> []" "draws_ok ks" using Cons.prems by (auto simp: draws_ok_Cons)
  then have "swap_at 0 k (map f xs) = map f (swap_at 0 k xs)"
    by (intro nth_equalityI) (auto simp: swap_at_nth)
  moreover have "swap_at 0 k xs \<noteq> []" using k(2) by (metis length_0_conv swap_at_length)
  moreover have "length ks = length (tl (swap_at 0 k xs))" using Cons.prems(2) by simp
  ultimately show ?case using Cons.IH [OF k(3), of "tl (swap_at 0 k xs)"] by (simp add: Let_def hd_map map_tl)
qed simp

text \<open>C30: between two layers the rays, each with its component mask and its chain id, are permuted by the indices
  drawn, one below the number of rays left for each place; every order of the rays comes from exactly one
  sequence of such indices, so indices drawn uniformly give every order alike.\<close>

theorem shuffle_reaches_every_order_once:
  assumes "live_ok b" and "in_range uidx" and "draw_indices uidx (rb_size b) rng = (ks, rng')"
  shows "(\<exists>b'. shuffle_init_data uidx (rng, b) = (rng', b') \<and> live_ok b' \<and>
      loads b' = map ((!) (loads b)) (fisher_yates ks [0..<rb_size b])) \<and> length ks = rb_size b \<and> draws_ok ks \<and>
    (\<forall>order. mset order = mset [0..<rb_size b] \<longrightarrow>
      (\<exists>!ls. length ls = rb_size b \<and> draws_ok ls \<and> fisher_yates ls [0..<rb_size b] = order))"
proof -
  note D = draw_indices_ok [OF assms(2,3)]
  have "map ((!) (loads b)) [0..<rb_size b] = loads b" by (intro nth_equalityI) (simp_all add: loads_def)
  then have "fisher_yates ks (loads b) = map ((!) (loads b)) (fisher_yates ks [0..<rb_size b])"
    using fisher_yates_map [of ks "[0..<rb_size b]" "(!) (loads b)"] D by simp
  moreover have "\<exists>!ls. length ls = rb_size b \<and> draws_ok ls \<and> fisher_yates ls [0..<rb_size b] = order"
    if "mset order = mset [0..<rb_size b]" for order
    using fisher_yates_unique [OF distinct_upt that] by simp
  ultimately show ?thesis using shuffle_init_data_spec [OF assms] D by auto
qed

abbreviation three_rays :: rbuf where
  "three_rays \<equiv> RayBuffer_new blank 3\<lparr> rb_size := 3, rb_components := [1, 2, 4], rb_chain_ids := Some [7, 8, 9] \<rparr>"

theorem shuffle_reaches_every_order_once_witness:
  "\<exists>b'. shuffle_init_data (\<lambda>n g. (g mod n, g + 1)) (0, three_rays) = (3, b') \<and> live_ok b' \<and>
     map snd (loads b') = [(1, Some 7), (4, Some 9), (2, Some 8)]"
proof -
  have live: "live_ok three_rays"
    by (simp add: live_ok_upto columns_ok_def arena_ok_def RayBuffer_new_def rec_ok_def unshared_def empty_recorder_def
        HasOverflow_def upt_rec)
  have "rb_size three_rays = Suc (Suc (Suc 0))" by (simp add: RayBuffer_new_def)
  then have draws: "draw_indices (\<lambda>n g. (g mod n, g + 1)) (rb_size three_rays) 0 = ([0, 1, 0], 3)"
    by (simp only: draw_indices.simps Let_def prod.case) simp
  have "in_range (\<lambda>n g :: nat. (g mod n, g + 1))" by (simp add: in_range_def)
  from shuffle_reaches_every_order_once [OF live this draws] obtain b' where
    "shuffle_init_data (\<lambda>n g. (g mod n, g + 1)) (0, three_rays) = (3, b')" "live_ok b'"
    "loads b' = map ((!) (loads three_rays)) (fisher_yates [0, 1, 0] [0..<rb_size three_rays])" by blast
  moreover have "fisher_yates [0, 1, 0] [0..<rb_size three_rays] = [0, 2, 1]"
    by (simp add: RayBuffer_new_def upt_3 swap_at_def Let_def)
  ultimately show ?thesis
    by (intro exI [of _ b']) (simp add: loads_def RayBuffer_new_def upt_3 load_def chain_at_def)
qed

section \<open>Entering a crystal\<close>

text \<open>C31: a ray that enters a closed crystal keeps its direction and weighs twice the lit area projected along it over
  the surface of the crystal, the cap at one never binding; if anything is lit it starts on a lit face, inside the
  crystal, ready to be traced, and the triangle it starts on is the one in whose share of the projected area
  the drawn number falls.  The crystal has its corners in all its half-spaces, each on the plane of its own face, and
  outward unit normals; the drawn numbers are in the unit interval; numbers are real.\<close>

theorem entering_ray_is_lit_and_weighed:
  assumes "geom_ok cf" and "watertight cf" and "rb_size b \<le> length (rb_rays b)" and "i < rb_size b"
    and "r = rb_rays b ! i" and "unit_vec (seg_d r)" and "0 \<le> seg_w r"
    and "u = sd_pick (draws ! i)" and "0 \<le> u" and "u \<le> 1"
    and "uv = sd_uv (draws ! i)" and "0 \<le> fst uv" and "fst uv \<le> 1" and "0 \<le> snd uv" and "snd uv \<le> 1"
    and "r' = rb_rays (InitRay_p_fid cf draws b) ! i"
    and "tris = BuildEntrySubTris cf" and "lit = proj_prob tris (seg_d r)"
  shows "seg_d r' = seg_d r \<and> seg_w r' = seg_w r * (2 * sum_list lit / surface tris) \<and> 0 \<le> seg_w r' \<and> seg_w r' \<le> seg_w r \<and>
    (0 < sum_list lit \<longrightarrow> hit_ok (PopulateFromCfGeom cf) r' \<and> cos_at (PopulateFromCfGeom cf) r' < 0 \<and>
      inside (PopulateFromCfGeom cf) (seg_p r') \<and> height (PopulateFromCfGeom cf) (to_face r') (seg_p r') = 0 \<and>
      (\<exists>j<length tris. to_face r' = st_face_id (tris ! j) \<and> 0 < lit ! j \<and>
        (0 < u \<longrightarrow> cum lit j < u * sum_list lit \<and> u * sum_list lit \<le> cum lit (Suc j))))"
proof -
  have cnt: "face_cnt cf < 65536" using assms(1) by (simp add: geom_ok_def)
  have d1: "Dot3r (seg_d r) (seg_d r) \<le> 1" using assms(6) by (simp add: unit_vec_def)
  have r': "r' = pick_face cf (draws ! i) r"
    using assms(3-5) by (simp add: assms(16) InitRay_p_fid_eq for_rays_eq nth_append)
  have P: "\<forall>x\<in>set lit. 0 \<le> x" "length lit = length tris" by (auto simp: assms(18) proj_prob_def)
  have count: "CountEntrySubTris cf = length tris" by (simp add: assms(17) CountEntrySubTris_length [OF cnt])
  show ?thesis
  proof (cases "tris = []")
    case True
    then show ?thesis using assms(7) count by (simp add: r' pick_face_def enter_nowhere_def assms(18) proj_prob_def)
  next
    case False
    then have eq: "r' = enter_ray tris (surface tris) u uv r"
      using count by (simp add: r' pick_face_def assms(8,11,17))
    have w: "seg_w r' = seg_w r * (2 * sum_list lit / surface tris)" "seg_d r' = seg_d r"
      using entry_weight_exact [OF cnt assms(2) d1] by (simp_all add: eq enter_ray_def Let_def assms(17,18))
    show ?thesis
    proof (cases "0 < sum_list lit")
      case True
      note E = enter_ray_spec [OF assms(1,6,7) True [unfolded assms(17,18)] assms(9,10,12-15) eq [unfolded assms(17)]]
      let ?j = "RandomSample lit u 0"
      have j: "?j < length tris" "0 < lit ! ?j" using RandomSample_positive [OF P(1) True assms(9,10), of 0] P(2) by simp_all
      moreover have "to_face r' = st_face_id (tris ! ?j)" by (simp add: eq enter_ray_def Let_def assms(18))
      moreover have "0 < u \<longrightarrow> cum lit ?j < u * sum_list lit \<and> u * sum_list lit \<le> cum lit (Suc ?j)"
        using RandomSample_share [OF P(1) True _ assms(10), of 0 ?j] by blast
      moreover have "0 \<le> seg_w r'" using E(1) by (simp add: hit_ok_def)
      ultimately show ?thesis using E(1-4,8) w by blast
    next
      case False
      then have "sum_list lit = 0" using sum_list_nonneg [of lit] P(1) by fastforce
      then show ?thesis using w assms(7) by simp
    qed
  qed
qed

text \<open>A tetrahedron with three faces in the coordinate planes; light along the negative first axis lights its fourth.\<close>

abbreviation tetra :: CrystalGeom where
  "tetra \<equiv> \<lparr> plane_coef = [[- 1, 0, 0, 0], [0, - 1, 0, 0], [0, 0, - 1, 0], [1, 2, 2, - 2]],
     face_normal = [[- 1, 0, 0], [0, - 1, 0], [0, 0, - 1], [1 / 3, 2 / 3, 2 / 3]],
     face_number = [3, 4, 5, 6], face_present = [True, True, True, True],
     face_vtx = [[[0, 0, 0], [0, 0, 1], [0, 1, 0]], [[0, 0, 0], [2, 0, 0], [0, 0, 1]],
       [[0, 0, 0], [0, 1, 0], [2, 0, 0]], [[2, 0, 0], [0, 1, 0], [0, 0, 1]]] \<rparr>"

lemma upt_4: "[0..<4] = [0, 1, 2, 3 :: nat]"
  by (simp add: upt_rec)

lemma less_4: "(\<forall>i<4. P i) \<longleftrightarrow> P 0 \<and> P 1 \<and> P 2 \<and> P (3 :: nat)"
  by (auto simp: less_Suc_eq numeral_eq_Suc)

lemma sqrt_squares: "sqrt 4 = 2" "sqrt 9 = 3"
  by (rule real_sqrt_unique; simp)+

lemma tetra_faces: "PopulateFromCfGeom tetra = \<lparr> poly_n = face_normal tetra, poly_d = [0, 0, 0, - (2 / 3)], poly_fn = [3, 4, 5, 6] \<rparr>"
  by (simp add: PopulateFromCfGeom_def face_cnt_def upt_4 Norm3_def Dot3r_def sqrt_squares kFloatEps_def)

lemma tetra_table: "BuildEntrySubTris tetra =
   [\<lparr> st_v = [[0, 0, 0], [0, 0, 1], [0, 1, 0]], st_n = [- 1, 0, 0], st_area = 1 / 2, st_face_id = 0 \<rparr>,
    \<lparr> st_v = [[0, 0, 0], [2, 0, 0], [0, 0, 1]], st_n = [0, - 1, 0], st_area = 1, st_face_id = 1 \<rparr>,
    \<lparr> st_v = [[0, 0, 0], [0, 1, 0], [2, 0, 0]], st_n = [0, 0, - 1], st_area = 1, st_face_id = 2 \<rparr>,
    \<lparr> st_v = [[2, 0, 0], [0, 1, 0], [0, 0, 1]], st_n = [1 / 3, 2 / 3, 2 / 3], st_area = 3 / 2, st_face_id = 3 \<rparr>]"
  by (simp add: BuildEntrySubTris_def face_cnt_def upt_4 build_slot_def SubTriCountForFace_def fan_tri_def Let_def upt_3
      Cross3_def Norm3_def Dot3r_def sqrt_squares)

lemma tetra_ok: "geom_ok tetra" "watertight tetra"
proof -
  have cnt: "face_cnt tetra = 4" by (simp add: face_cnt_def)
  have slots: "present_slots tetra 4 = [0, 1, 2, 3]" by (simp add: present_slots_def upt_4)
  have faces: "PolygonFaceCount (PopulateFromCfGeom tetra) = 4" by (simp add: tetra_faces PolygonFaceCount_def)
  have "crystal_ok (PopulateFromCfGeom tetra)"
    by (simp add: tetra_faces crystal_ok_def PolygonFaceCount_def kInvalidId_def unit_vec_def Dot3r_def)
  then show "geom_ok tetra"
    by (simp add: geom_ok_def cnt slots faces less_4 inside_def) (simp add: tetra_faces height_def Dot3r_def tetra_table)
  show "watertight tetra"
    by (simp add: watertight_def geom_edges_def cnt upt_4 face_edges_def upt_3)
qed

abbreviation sunray :: rseg where
  "sunray \<equiv> blank\<lparr> seg_d := [- 1, 0, 0], seg_w := 1 \<rparr>"

abbreviation some_draw :: RayDraw where
  "some_draw \<equiv> \<lparr> sd_rot = [1, 0, 0, 0, 1, 0, 0, 0, 1], sd_dir = [- 1, 0, 0], sd_pick = 1 / 2, sd_uv = (1 / 4, 1 / 4) \<rparr>"

theorem entering_ray_is_lit_and_weighed_witness:
  "\<exists>r'. r' = rb_rays (InitRay_p_fid tetra [some_draw] (RayBuffer_new sunray 1\<lparr> rb_size := 1 \<rparr>)) ! 0 \<and>
     seg_w r' = 1 / 4 \<and> hit_ok (PopulateFromCfGeom tetra) r' \<and> to_face r' = 3 \<and> height (PopulateFromCfGeom tetra) 3 (seg_p r') = 0"
proof -
  define b where "b = RayBuffer_new sunray 1\<lparr> rb_size := 1 \<rparr>"
  define r' where "r' = rb_rays (InitRay_p_fid tetra [some_draw] b) ! 0"
  have b: "rb_size b \<le> length (rb_rays b)" "0 < rb_size b" "sunray = rb_rays b ! 0"
    by (simp_all add: b_def RayBuffer_new_def)
  have r: "unit_vec (seg_d sunray)" "0 \<le> seg_w sunray" by (simp_all add: unit_vec_def Dot3r_def)
  have u: "1 / 2 = sd_pick ([some_draw] ! 0)" "0 \<le> (1 / 2 :: real)" "(1 / 2 :: real) \<le> 1"
    "(1 / 4, 1 / 4) = sd_uv ([some_draw] ! 0)" "0 \<le> fst (1 / 4 :: real, 1 / 4 :: real)" "fst (1 / 4 :: real, 1 / 4 :: real) \<le> 1"
    "0 \<le> snd (1 / 4 :: real, 1 / 4 :: real)" "snd (1 / 4 :: real, 1 / 4 :: real) \<le> 1"
    by simp_all
  note H = entering_ray_is_lit_and_weighed [OF tetra_ok b r u r'_def refl refl]
  have lit: "proj_prob (BuildEntrySubTris tetra) (seg_d sunray) = [0, 0, 0, 1 / 2]" "surface (BuildEntrySubTris tetra) = 4"
    "length (BuildEntrySubTris tetra) = 4"
    by (simp_all add: tetra_table proj_prob_def Dot3r_def surface_def)
  from H [unfolded lit] obtain j where j: "j < 4" "to_face r' = st_face_id (BuildEntrySubTris tetra ! j)" "0 < [0, 0, 0, 1 / 2 :: real] ! j"
    and h: "seg_w r' = 1 / 4" "hit_ok (PopulateFromCfGeom tetra) r'" "height (PopulateFromCfGeom tetra) (to_face r') (seg_p r') = 0"
    by auto
  have "j = 3" using j(1,3) by (auto simp: less_Suc_eq numeral_eq_Suc)
  then have "to_face r' = 3" by (simp add: j(2) tetra_table)
  with h show ?thesis unfolding r'_def b_def by auto
qed

section \<open>The hit loop\<close>

text \<open>The light that is out, handed on and still inside.\<close>

definition light_of :: "'g HitState \<Rightarrow> real" where
  "light_of s = sum_list (hs_outgoing_w s) + energy (view (hs_next s)) + energy (view (hs_in s))"

lemma implements_balance: "implements s a \<Longrightarrow> balance a = light_of s"
  using energy_obs [of "view (hs_next s)"] energy_obs [of "view (hs_in s)"]
  by (simp add: implements_def balance_def light_of_def packed_w_def energy_def)

lemma loop_inside_ok:
  assumes "loop_ok ctx N C m k s" and "implements s a"
  shows "inside_ok ctx a"
proof -
  have "crystal_ok (hc_crystal ctx)" "0 < hc_index ctx" "list_all (\<lambda>e. hit_ok (hc_crystal ctx) (fst e)) (view (hs_in s))"
    using assms(1) unfolding loop_ok_def by blast+
  moreover have "ss_inside a = map obs (view (hs_in s))" using assms(2) by (simp add: implements_def)
  ultimately show ?thesis by (simp add: inside_ok_def list_all_iff obs_hit_ok)
qed

text \<open>C32: the hit loop with its two buffers, its recorders and their arena, its gate and its interning does what the
  specification on lists of rays does hit by hit: it never aborts, loses no ray, and leaves the generator, the chain
  table, the packed outputs and the tally the specification says.  The light out, handed on and inside never grows,
  and stays exactly the same without a filter.  The two buffers have the room \<open>ResetHitLoopBuffers\<close> gives them, the
  next layer's more than \<open>k + 1\<close> places for every ray inside, and the arenas slots for the paths of all hits; every ray
  inside may be traced; numbers are real.\<close>

theorem hit_loop_implements_spec:
  assumes "loop_ok ctx N C (m + k) k s" and "implements s a"
  shows "\<exists>s'. hit_loop fl uni ctx k s = Some s' \<and> implements s' ((spec_hit fl uni ctx ^^ k) a) \<and> loop_ok ctx N C m 0 s' \<and>
    light_of s' \<le> light_of s \<and> (hc_spec ctx = None \<longrightarrow> light_of s' = light_of s)"
proof -
  from hit_loop_refines [OF assms, of fl uni] obtain s' where s': "hit_loop fl uni ctx k s = Some s'" "loop_ok ctx N C m 0 s'"
      "implements s' ((spec_hit fl uni ctx ^^ k) a)" by blast
  with spec_loop_balance [OF loop_inside_ok [OF assms], where fl = fl and uni = uni and k = k] show ?thesis
    by (simp add: implements_balance [OF assms(2), symmetric] implements_balance [OF s'(3), symmetric])
qed

text \<open>One ray on the slab, two hits, no filter.\<close>

abbreviation real_ops :: "real float_ops" where
  "real_ops \<equiv> \<lparr> fl_of_int = of_int, fl_eps = 1 / 100000, fl_add = (+), fl_sub = (-), fl_mul = (*), fl_div = (/),
     fl_abs = abs, fl_lt = (<), fl_eq = (=),
     fl_fmod = (\<lambda>a b. a - b * (if 0 \<le> a / b then of_int \<lfloor>a / b\<rfloor> else of_int \<lceil>a / b\<rceil>)),
     fl_round = round, fl_cos = cos, fl_sin = sin, fl_deg_to_rad = pi / 180 \<rparr>"

abbreviation plain_ctx :: "CrystalFaces \<Rightarrow> HitCtx" where
  "plain_ctx c \<equiv> \<lparr> hc_crystal = c, hc_index = 4 / 3, hc_prob = 1 / 2, hc_spec = None, hc_groups = [], hc_chain = None,
     hc_tally_inv_c = 1 \<rparr>"

abbreviation start_state :: "rbuf \<Rightarrow> nat HitState" where
  "start_state b \<equiv> \<lparr> hs_rng = 0, hs_in = b, hs_out = RayBuffer_new blank 4, hs_next = RayBuffer_new blank 8,
     hs_all = RayBuffer_new blank 8, hs_table = ChainIdInterningTable_new 5, hs_outgoing_d = [], hs_outgoing_w = [],
     hs_outgoing_component = [], hs_outgoing_chain_id = [], hs_tally = None \<rparr>"

definition coin :: "nat \<Rightarrow> real \<times> nat" where
  "coin g = (if even g then 1 / 4 else 3 / 4, g + 1)"

abbreviation one_ray :: "rseg \<Rightarrow> rbuf" where
  "one_ray r \<equiv> RayBuffer_new r 2\<lparr> rb_size := 1 \<rparr>"

lemma new_buffer: "live_ok (RayBuffer_new r n)" "whole (RayBuffer_new r n)" "view (RayBuffer_new r n) = []"
  by (auto simp: live_ok_upto columns_ok_def arena_ok_def RayBuffer_new_def whole_def empty_recorder_def view_def)

lemma one_ray_ok: "live_ok (one_ray r)" "whole (one_ray r)" "view (one_ray r) = [(r, [], 0, None)]"
  by (simp add: live_ok_upto columns_ok_def arena_ok_def RayBuffer_new_def rec_ok_def unshared_def empty_recorder_def
      HasOverflow_def upt_rec)
    (simp_all add: whole_def RayBuffer_new_def empty_recorder_def view_def ray_view_def path_of_def RecorderAt_def
      RecorderDataPtr_def HasOverflow_def chain_at_def)

abbreviation start_spec :: "entry list \<Rightarrow> nat SpecState" where
  "start_spec es \<equiv> \<lparr> ss_rng = 0, ss_inside = es, ss_carried = [], ss_emitted = [], ss_chain_ids = [],
     ss_table = ChainIdInterningTable_new 5, ss_tally = None \<rparr>"

lemma start_implements: "implements (start_state b) (start_spec (map obs (view b)))"
  by (simp add: implements_def new_buffer packed_d_def packed_w_def packed_component_def)

theorem hit_loop_implements_spec_witness:
  "\<exists>s'. hit_loop real_ops coin (plain_ctx slab) 2 (start_state (one_ray incoming)) = Some s' \<and>
     implements s' ((spec_hit real_ops coin (plain_ctx slab) ^^ 2) (start_spec [obs (incoming, [], 0, None)])) \<and>
     sum_list (hs_outgoing_w s') + energy (view (hs_next s')) + energy (view (hs_in s')) = 1"
proof -
  have "loop_ok (plain_ctx slab) 1 3 (0 + 2) 2 (start_state (one_ray incoming))"
    using one_ray_ok [of incoming] new_buffer [of blank] slab_ok
    by (simp add: loop_ok_def) (simp add: RayBuffer_new_def HasChainIds_def)
  from hit_loop_implements_spec [OF this start_implements, of real_ops coin] obtain s' where
    "hit_loop real_ops coin (plain_ctx slab) 2 (start_state (one_ray incoming)) = Some s'"
    "implements s' ((spec_hit real_ops coin (plain_ctx slab) ^^ 2) (start_spec (map obs (view (one_ray incoming)))))"
    "light_of s' = light_of (start_state (one_ray incoming))" by auto
  moreover have "light_of (start_state (one_ray incoming)) = 1"
    unfolding light_of_def HitState.simps new_buffer(3) one_ray_ok(3) by simp
  ultimately show ?thesis unfolding one_ray_ok(3) light_of_def by (intro exI [of _ s']) simp
qed

section \<open>The batches of a layer\<close>

text \<open>C39: a layer of batches, each entering its crystal and traced hit by hit, runs to its end without an abort and with
  every ray handed on in the next layer's buffer, in order; what it leaves is what the specification makes of
  the rays that entered; and the light it emits and hands on is at most the light that entered, each ray counting its
  weight times the lit share of its crystal.  It holds on the first layer and on later ones, for batches of
  at most \<open>N\<close> rays, crystals and draws as for a single entry that lights something, a buffer for the next layer with
  more than \<open>max_hits + 1\<close> places for every ray (the program gives it \<open>max_hits\<close> on the first layer and \<open>max_hits + 1\<close>
  later, which is short only if nearly every ray leaves at every hit), and arenas with slots for the paths of all
  hits of the layer.\<close>

theorem layer_creates_no_light:
  assumes "layer_ready N (m + length bts * Suc k) s" and "light_batches_ok wl first_ms init N offset (HasChainIds (hs_out s)) bts"
    and "rb_size (hs_next s) + batch_rays bts * (k + 1) < rb_capacity (hs_next s)" and "implements s a"
  shows "\<exists>offset' s' ess. trace_batches fl uni k wl first_ms init bts (offset, s) = Some (offset', s') \<and>
      layer_entered wl first_ms (HasChainIds (hs_out s)) init offset bts ess \<and>
      implements s' (spec_layer fl uni k bts ess a) \<and> layer_ready N m s' \<and>
      sum_list (hs_outgoing_w s') + energy (view (hs_next s'))
        \<le> sum_list (hs_outgoing_w s) + energy (view (hs_next s)) + layer_light wl first_ms init offset bts"
proof -
  from trace_batches_refine [OF assms, of fl uni] obtain offset' s' ess where
    s': "trace_batches fl uni k wl first_ms init bts (offset, s) = Some (offset', s')"
      "layer_entered wl first_ms (HasChainIds (hs_out s)) init offset bts ess"
      "implements s' (spec_layer fl uni k bts ess a)" "layer_ready N m s'" by blast
  with spec_layer_light [OF assms(2) s'(2), of fl uni k a] show ?thesis
    by (auto simp: implements_light [OF s'(3)] implements_light [OF assms(4)])
qed

text \<open>Two batches of one ray each on the tetrahedron, one quarter of whose light it catches.\<close>

abbreviation tetra_entry :: EntryCtx where
  "tetra_entry \<equiv> \<lparr> en_geom = tetra, en_config_id = 7, en_crystal_id = 0, en_correction = 1 \<rparr>"

abbreviation one_ray_batch :: LightBatch where
  "one_ray_batch \<equiv> \<lparr> bt_num = 1, bt_entry = tetra_entry, bt_ctx = plain_ctx (en_crystal tetra_entry), bt_draws = [some_draw] \<rparr>"

lemma tetra_light:
  "light_ok tetra_entry some_draw [- 1, 0, 0]" "entry_gain tetra_entry some_draw [- 1, 0, 0] = 1 / 4"
proof -
  have dir: "entry_dir some_draw [- 1, 0, 0] = [- 1, 0, 0]"
    by (simp add: entry_dir_def ApplyInverse_coords)
  then show "light_ok tetra_entry some_draw [- 1, 0, 0]" "entry_gain tetra_entry some_draw [- 1, 0, 0] = 1 / 4"
    using tetra_ok
    by (simp_all add: light_ok_def entry_gain_def unit_vec_def rotation_ok_def tetra_table proj_prob_def surface_def
        entry_weight_def Dot3r_def)
qed

theorem layer_creates_no_light_witness:
  "\<exists>offset' s' ess. trace_batches real_ops coin 2 1 True (RayBuffer_new blank 0) [one_ray_batch, one_ray_batch]
        (0, start_state (RayBuffer_new blank 2)) = Some (offset', s') \<and>
      layer_entered 1 True False (RayBuffer_new blank 0) 0 [one_ray_batch, one_ray_batch] ess \<and>
      implements s' (spec_layer real_ops coin 2 [one_ray_batch, one_ray_batch] ess (start_spec [])) \<and>
      sum_list (hs_outgoing_w s') + energy (view (hs_next s')) \<le> 1 / 2"
proof -
  let ?s = "start_state (RayBuffer_new blank 2)" and ?bts = "[one_ray_batch, one_ray_batch]"
  have ready: "layer_ready 1 (0 + length ?bts * Suc 2) ?s"
    using new_buffer [of blank] by (simp add: layer_ready_def) (simp add: RayBuffer_new_def HasChainIds_def)
  have ch: "HasChainIds (hs_out ?s) = False" by (simp add: RayBuffer_new_def HasChainIds_def)
  have "crystal_ok (en_crystal tetra_entry)" using tetra_ok(1) by (simp add: geom_ok_def en_crystal_def)
  then have ok: "light_batches_ok 1 True (RayBuffer_new blank 0) 1 0 (HasChainIds (hs_out ?s)) ?bts"
    using tetra_light(1) by (simp add: light_batch_ok_def dir_in_def weight_in_def)
  have room: "rb_size (hs_next ?s) + batch_rays ?bts * (2 + 1) < rb_capacity (hs_next ?s)"
    by (simp add: batch_rays_def RayBuffer_new_def)
  have light: "layer_light 1 True (RayBuffer_new blank 0) 0 ?bts = 1 / 2"
    using tetra_light(2) by (simp add: batch_light_def weight_in_def dir_in_def)
  have "implements ?s (start_spec [])" using start_implements [of "RayBuffer_new blank 2"] by (simp add: new_buffer)
  note layer_creates_no_light [OF ready ok room this, of real_ops coin, unfolded ch light]
  moreover have "sum_list (hs_outgoing_w ?s) + energy (view (hs_next ?s)) + 1 / 2 = 1 / 2" by (simp add: new_buffer)
  ultimately show ?thesis by (elim exE conjE) (intro exI conjI; assumption?; linarith)
qed

end
