(* ===== verification/Shape_Law.thy ===== *)
theory Shape_Law
  imports Shape_Symmetry
begin

text \<open>
  What the symmetry of a crystal ensemble means for its configuration (\<open>DeriveGeometricSymmetry\<close> in
  \<open>src/core/crystal.cpp\<close>): which rotations, mirrors and cone swaps of the ten shape scalars leave their
  joint law unchanged.  The law is read off the configured distributions and sync groups alone, not off the
  classes, tokens and flags the code works with; the theorem says that the code decides it.
\<close>

section \<open>The joint law of the shape scalars\<close>

text \<open>Slots of one sync group share one draw, from the distribution of the first of them.\<close>

definition law_of :: "'f slots \<Rightarrow> int list \<Rightarrow> nat \<Rightarrow> 'f Distribution" where
  "law_of slots g s = the (slots ! leader_of slots g s)"

definition one_draw :: "'f slots \<Rightarrow> int list \<Rightarrow> nat \<Rightarrow> nat \<Rightarrow> bool" where
  "one_draw slots g s t \<longleftrightarrow> s = t \<or> linked slots g s t"

definition same_law :: "'f Distribution \<Rightarrow> 'f Distribution \<Rightarrow> bool" where
  "same_law a b \<longleftrightarrow> dist_type a = dist_type b \<and> dist_center a = dist_center b \<and>
     (dist_type a = kNoRandom \<or> dist_spread a = dist_spread b)"

definition varies :: "'f slots \<Rightarrow> int list \<Rightarrow> nat \<Rightarrow> bool" where
  "varies slots g s \<longleftrightarrow> slots ! s \<noteq> None \<and> dist_type (law_of slots g s) \<noteq> kNoRandom"

text \<open>
  Moving the value of every slot \<open>s\<close> to slot \<open>f s\<close> keeps the joint law: each value goes to a slot of the same
  law, and two random slots share their draw exactly when the slots they go to do.
\<close>

definition keeps_joint_law :: "'f slots \<Rightarrow> int list \<Rightarrow> (nat \<Rightarrow> nat) \<Rightarrow> bool" where
  "keeps_joint_law slots g f \<longleftrightarrow>
     (\<forall>s<kShapeScalarCount. (slots ! s = None \<longleftrightarrow> slots ! f s = None) \<and>
        (slots ! s \<noteq> None \<longrightarrow> same_law (law_of slots g s) (law_of slots g (f s)))) \<and>
     (\<forall>s<kShapeScalarCount. \<forall>t<kShapeScalarCount. varies slots g s \<longrightarrow> varies slots g t \<longrightarrow>
        one_draw slots g s t = one_draw slots g (f s) (f t))"

definition cone_swap :: "nat \<Rightarrow> nat" where
  "cone_swap s = (if s = kShapeScalarUpperH then kShapeScalarLowerH else if s = kShapeScalarLowerH then kShapeScalarUpperH else s)"

definition face_symmetry_of :: "'f slots \<Rightarrow> int list \<Rightarrow> GeometricSymmetry \<Rightarrow> bool" where
  "face_symmetry_of slots g symm \<longleftrightarrow> gs_p_step symm \<in> {1, 2, 3, 6} \<and>
     (\<forall>k<6. gs_p_step symm dvd int k \<longleftrightarrow> keeps_joint_law slots g (rot_slot k)) \<and>
     (\<forall>a<6. AllowsMirror symm (int a) \<longleftrightarrow> keeps_joint_law slots g (mir_slot a))"

text \<open>The configured scalars are equal or far enough apart for the tolerance to tell them apart.\<close>

definition shape_scalars :: "'f slots \<Rightarrow> 'f list" where
  "shape_scalars slots = concat (map (\<lambda>s. case s of None \<Rightarrow> []
     | Some d \<Rightarrow> if dist_type d = kNoRandom then [dist_center d] else [dist_center d, dist_spread d]) slots)"

definition told_apart :: "('f, 'z) float_ops_scheme \<Rightarrow> ('f, 'd) double_ops \<Rightarrow> 'f list \<Rightarrow> bool" where
  "told_apart fl db xs \<longleftrightarrow> list_all (\<lambda>a. list_all (\<lambda>b. SameShapeScalar fl db a b \<longleftrightarrow> a = b) xs) xs"

definition spread_apart :: "('f, 'z) float_ops_scheme \<Rightarrow> ('f, 'd) double_ops \<Rightarrow> 'f slots \<Rightarrow> bool" where
  "spread_apart fl db slots \<longleftrightarrow> length slots = kShapeScalarCount \<and>
     (\<forall>d\<in>set slots. \<forall>e\<in>set slots. d \<noteq> None \<longrightarrow> e \<noteq> None \<longrightarrow> SameDraw fl db (the d) (the e) = same_law (the d) (the e))"

lemma told_apart_spread:
  assumes "told_apart fl db (shape_scalars slots)" and "length slots = kShapeScalarCount"
  shows "spread_apart fl db slots"
proof -
  have same: "SameShapeScalar fl db a b \<longleftrightarrow> a = b" if "a \<in> set (shape_scalars slots)" "b \<in> set (shape_scalars slots)" for a b
    using assms(1) that by (simp add: told_apart_def list_all_iff)
  have "SameDraw fl db d e = same_law d e" if "Some d \<in> set slots" "Some e \<in> set slots" for d e
  proof -
    have "dist_center x \<in> set (shape_scalars slots)" "dist_type x \<noteq> kNoRandom \<Longrightarrow> dist_spread x \<in> set (shape_scalars slots)"
      if "Some x \<in> set slots" for x
      using that by (force simp: shape_scalars_def split: if_splits option.splits)+
    then show ?thesis using that same by (auto simp: SameDraw_def same_law_def)
  qed
  then show ?thesis using assms(2) by (auto simp: spread_apart_def)
qed

section \<open>The draws the code resolves\<close>

lemma leader_less: "s < kShapeScalarCount \<Longrightarrow> leader_of slots g s < kShapeScalarCount"
  using leader_le [of slots g s] by simp

lemma leader_present: "slots ! s \<noteq> None \<Longrightarrow> slots ! leader_of slots g s \<noteq> None"
  using leader_linked [of slots g s] by (auto simp: linked_def)

lemma resolved_slot:
  "sd_present (resolve_slot fl slots g s) \<longleftrightarrow> slots ! s \<noteq> None"
  "slots ! s \<noteq> None \<Longrightarrow> sd_dist (resolve_slot fl slots g s) = law_of slots g s"
  "slots ! s \<noteq> None \<Longrightarrow> sd_token (resolve_slot fl slots g s) = int (leader_of slots g s)"
  by (auto simp: resolve_slot_def law_of_def leader_find split: option.splits)

lemma one_draw_leader:
  assumes "slots ! s \<noteq> None" and "slots ! t \<noteq> None"
  shows "leader_of slots g s = leader_of slots g t \<longleftrightarrow> one_draw slots g s t"
proof
  assume eq: "leader_of slots g s = leader_of slots g t"
  show "one_draw slots g s t"
    using leader_linked [of slots g s] leader_linked [of slots g t] eq
    by (auto simp: one_draw_def linked_def)
next
  assume "one_draw slots g s t"
  then show "leader_of slots g s = leader_of slots g t" using linked_leader by (auto simp: one_draw_def)
qed

lemma same_law_refl: "same_law a a"
  by (simp add: same_law_def)

lemma same_law_sym: "same_law a b \<Longrightarrow> same_law b a"
  by (auto simp: same_law_def)

lemma same_law_trans: "same_law a b \<Longrightarrow> same_law b c \<Longrightarrow> same_law a c"
  by (auto simp: same_law_def)

text \<open>The class loops name each slot by the first slot of its law.\<close>

lemma first_same_find:
  "first_same fl db slot i ks cls = (case find (\<lambda>k. sd_present (slot ! k) \<and> sd_present (slot ! i) \<and>
      SameDraw fl db (sd_dist (slot ! k)) (sd_dist (slot ! i))) ks of None \<Rightarrow> cls | Some k \<Rightarrow> cls[i := cls ! k])"
  by (induction ks) auto

lemma find_upt:
  assumes "find P [m..<i] = Some k"
  shows "m \<le> k" "k < i" "P k" "\<And>j. m \<le> j \<Longrightarrow> j < k \<Longrightarrow> \<not> P j"
proof -
  obtain n where n: "n < i - m" "P (m + n)" "k = m + n" "\<forall>j<n. \<not> P (m + j)"
    using assms by (auto simp: find_Some_iff)
  then show "m \<le> k" "k < i" "P k" by auto
  show "\<not> P j" if "m \<le> j" "j < k" for j using n(3,4) that by (metis le_add_diff_inverse nat_add_left_cancel_less)
qed

definition first_of :: "(nat \<Rightarrow> nat \<Rightarrow> bool) \<Rightarrow> nat \<Rightarrow> nat \<Rightarrow> nat" where
  "first_of R m j = (LEAST k. m \<le> k \<and> (k = j \<or> R k j))"

lemma first_of_find:
  assumes "m \<le> j"
  shows "first_of R m j = (case find (\<lambda>k. R k j) [m..<j] of None \<Rightarrow> j | Some k \<Rightarrow> k)"
proof (cases "find (\<lambda>k. R k j) [m..<j]")
  case None
  then have "\<not> R k j" if "m \<le> k" "k < j" for k using that by (simp add: find_None_iff)
  then have "first_of R m j = j" using assms unfolding first_of_def by (intro Least_equality) (auto simp: not_less [symmetric])
  then show ?thesis by (simp add: None)
next
  case (Some k)
  note K = find_upt [OF Some]
  have "first_of R m j = k" using K unfolding first_of_def by (intro Least_equality) (auto simp: not_less [symmetric])
  then show ?thesis by (simp add: Some)
qed

lemma first_of_eq:
  assumes sym: "\<And>a b. R a b \<Longrightarrow> R b a" and trans: "\<And>a b c. R a b \<Longrightarrow> R b c \<Longrightarrow> R a c" and "m \<le> s" and "m \<le> t"
  shows "first_of R m s = first_of R m t \<longleftrightarrow> s = t \<or> R s t"
proof
  have at: "first_of R m j = j \<or> R (first_of R m j) j" if "m \<le> j" for j
    using LeastI [of "\<lambda>k. m \<le> k \<and> (k = j \<or> R k j)" j] that by (simp add: first_of_def)
  assume "first_of R m s = first_of R m t"
  then obtain k where k: "k = s \<or> R k s" "k = t \<or> R k t" using at [OF assms(3)] at [OF assms(4)] by auto
  then consider "s = t" | "R s t" | "R t s" | "R k s" "R k t" by blast
  then show "s = t \<or> R s t"
  proof cases
    case 4
    then show ?thesis using trans [OF sym] by blast
  qed (auto dest: sym)
next
  assume *: "s = t \<or> R s t"
  show "first_of R m s = first_of R m t"
  proof (cases "s = t")
    case False
    then have st: "R s t" "R t s" using * sym by auto
    have "k = s \<or> R k s \<longleftrightarrow> k = t \<or> R k t" for k
    proof
      show "k = s \<or> R k s \<Longrightarrow> k = t \<or> R k t" using st(1) trans [of k s t] by auto
      show "k = t \<or> R k t \<Longrightarrow> k = s \<or> R k s" using st(2) trans [of k t s] by auto
    qed
    then have "(\<lambda>k. m \<le> k \<and> (k = s \<or> R k s)) = (\<lambda>k. m \<le> k \<and> (k = t \<or> R k t))" by auto
    then show ?thesis by (simp only: first_of_def)
  qed simp
qed

lemma first_of_loop:
  assumes R: "\<And>a b. a < n \<Longrightarrow> b < n \<Longrightarrow> R a b \<longleftrightarrow> sd_present (slot ! a) \<and> sd_present (slot ! b) \<and> SameDraw fl db (sd_dist (slot ! a)) (sd_dist (slot ! b))"
    and trans: "\<And>a b c. a < n \<Longrightarrow> b < n \<Longrightarrow> c < n \<Longrightarrow> R a b \<Longrightarrow> R b c \<Longrightarrow> R a c" and i: "m + 1 \<le> i" "i \<le> n"
  shows "fold (\<lambda>i. first_same fl db slot i [m..<i]) [m + 1..<i] [0..<n]
    = map (\<lambda>j. if m \<le> j \<and> j < i then first_of R m j else j) [0..<n]"
  using i
proof (induction i rule: dec_induct)
  case base
  have "first_of R m m = m" by (simp add: first_of_find)
  then have "map (\<lambda>j. if m \<le> j \<and> j < m + 1 then first_of R m j else j) [0..<n] = map (\<lambda>j. j) [0..<n]"
    by (intro map_cong) (auto simp: le_less_Suc_eq)
  then show ?case by simp
next
  case (step i)
  let ?cls = "map (\<lambda>j. if m \<le> j \<and> j < i then first_of R m j else j) [0..<n]"
  have im: "m \<le> i" "i < n" using step by auto
  have IH: "fold (\<lambda>i. first_same fl db slot i [m..<i]) [m + 1..<i] [0..<n] = ?cls" using step by simp
  have look: "find (\<lambda>k. sd_present (slot ! k) \<and> sd_present (slot ! i) \<and> SameDraw fl db (sd_dist (slot ! k)) (sd_dist (slot ! i))) [m..<i]
      = find (\<lambda>k. R k i) [m..<i]"
    using im R by (intro find_cong) auto
  have "first_same fl db slot i [m..<i] ?cls = ?cls[i := first_of R m i]"
  proof (cases "find (\<lambda>k. R k i) [m..<i]")
    case None
    then have "first_of R m i = i" by (simp add: first_of_find [OF im(1)])
    moreover have "first_same fl db slot i [m..<i] ?cls = ?cls" using None by (simp add: first_same_find look)
    moreover have "?cls ! i = i" using im by simp
    ultimately show ?thesis by (metis list_update_id)
  next
    case (Some k)
    note K = find_upt [OF Some]
    have "\<not> R k' k" if "m \<le> k'" "k' < k" for k'
    proof
      assume "R k' k"
      from trans [OF _ _ _ this K(3)] have "R k' i" using that K(2) im by simp
      then show False using K(4) [OF that] by simp
    qed
    then have "find (\<lambda>j. R j k) [m..<k] = None" by (simp add: find_None_iff)
    then have "first_of R m k = k" using K(1) by (simp add: first_of_find)
    then have "?cls ! k = k" using K(1,2) im by simp
    moreover have "first_of R m i = k" by (simp add: first_of_find [OF im(1)] Some)
    moreover have "first_same fl db slot i [m..<i] ?cls = ?cls[i := ?cls ! k]" using Some by (simp add: first_same_find look)
    ultimately show ?thesis by simp
  qed
  also have "\<dots> = map (\<lambda>j. if m \<le> j \<and> j < Suc i then first_of R m j else j) [0..<n]"
    using im by (intro nth_equalityI) (auto simp: nth_list_update less_Suc_eq)
  finally show ?case using IH step(1) by (simp add: upt_Suc_append)
qed

section \<open>The code decides the joint law\<close>

definition draw_rel :: "'f slots \<Rightarrow> int list \<Rightarrow> nat \<Rightarrow> nat \<Rightarrow> bool" where
  "draw_rel slots g s t \<longleftrightarrow> s < kShapeScalarCount \<and> t < kShapeScalarCount \<and> slots ! s \<noteq> None \<and> slots ! t \<noteq> None \<and>
     same_law (law_of slots g s) (law_of slots g t)"

lemma draw_rel_sym: "draw_rel slots g s t \<Longrightarrow> draw_rel slots g t s"
  by (auto simp: draw_rel_def intro: same_law_sym)

lemma draw_rel_trans: "draw_rel slots g s t \<Longrightarrow> draw_rel slots g t u \<Longrightarrow> draw_rel slots g s u"
  by (auto simp: draw_rel_def intro: same_law_trans)

lemma resolved_draws:
  assumes ap: "spread_apart fl db slots" and d: "d = ResolveShapeScalarDraws fl db slots g"
  shows "s < kShapeScalarCount \<Longrightarrow> ds_slot d ! s = resolve_slot fl slots g s"
    "kShapeScalarFace0 \<le> s \<Longrightarrow> s < kShapeScalarCount \<Longrightarrow> kShapeScalarFace0 \<le> t \<Longrightarrow> t < kShapeScalarCount \<Longrightarrow>
      ds_cls d ! s = ds_cls d ! t \<longleftrightarrow> s = t \<or> draw_rel slots g s t"
    "ds_cls d ! kShapeScalarUpperH = ds_cls d ! kShapeScalarLowerH \<longleftrightarrow> draw_rel slots g kShapeScalarUpperH kShapeScalarLowerH"
    "ds_any_shared d \<longleftrightarrow> (\<exists>i<kShapeScalarCount. varies slots g i \<and> leader_of slots g i \<noteq> i)"
proof -
  define slot where "slot = map (resolve_slot fl slots g) [0..<kShapeScalarCount]"
  have at: "slot ! s = resolve_slot fl slots g s" if "s < kShapeScalarCount" for s using that by (simp add: slot_def)
  have same: "sd_present (slot ! a) \<and> sd_present (slot ! b) \<and> SameDraw fl db (sd_dist (slot ! a)) (sd_dist (slot ! b))
      \<longleftrightarrow> draw_rel slots g a b" if "a < kShapeScalarCount" "b < kShapeScalarCount" for a b
  proof (cases "slots ! a = None \<or> slots ! b = None")
    case False
    have mem: "slots ! leader_of slots g x \<in> set slots" "slots ! leader_of slots g x \<noteq> None"
      if "x < kShapeScalarCount" "slots ! x \<noteq> None" for x
      using that ap leader_less [of x slots g] leader_present [of slots x g] by (auto simp: spread_apart_def)
    have spread: "SameDraw fl db (the x) (the y) = same_law (the x) (the y)" if "x \<in> set slots" "y \<in> set slots" "x \<noteq> None" "y \<noteq> None" for x y
      using ap that by (simp add: spread_apart_def)
    have "slots ! a \<noteq> None" "slots ! b \<noteq> None" using False by auto
    then have "SameDraw fl db (law_of slots g a) (law_of slots g b) = same_law (law_of slots g a) (law_of slots g b)"
      unfolding law_of_def by (intro spread mem that)
    then show ?thesis using False that by (simp add: at resolved_slot draw_rel_def)
  qed (use that in \<open>auto simp: at resolved_slot draw_rel_def\<close>)
  define cls where "cls = fold (\<lambda>i. first_same fl db slot i [kShapeScalarFace0..<i]) [kShapeScalarFace0 + 1..<kShapeScalarCount]
            [0..<kShapeScalarCount]"
  have "cls = map (\<lambda>j. if kShapeScalarFace0 \<le> j \<and> j < kShapeScalarCount then first_of (draw_rel slots g) kShapeScalarFace0 j else j)
      [0..<kShapeScalarCount]"
    unfolding cls_def
  proof (rule first_of_loop)
    show "draw_rel slots g a b \<longleftrightarrow> sd_present (slot ! a) \<and> sd_present (slot ! b) \<and> SameDraw fl db (sd_dist (slot ! a)) (sd_dist (slot ! b))"
      if "a < kShapeScalarCount" "b < kShapeScalarCount" for a b
      by (rule same [OF that, symmetric])
    show "draw_rel slots g a c" if "draw_rel slots g a b" "draw_rel slots g b c" for a b c using that by (rule draw_rel_trans)
  qed (simp_all add: kShapeScalarFace0_def kShapeScalarCount_def)
  then have cls: "length cls = kShapeScalarCount" "cls ! s = (if kShapeScalarFace0 \<le> s then first_of (draw_rel slots g) kShapeScalarFace0 s else s)"
    if "s < kShapeScalarCount" for s
    using that by simp_all
  have draws: "ds_slot d = slot"
    "ds_cls d = (if draw_rel slots g kShapeScalarUpperH kShapeScalarLowerH then cls[kShapeScalarLowerH := cls ! kShapeScalarUpperH] else cls)"
    "ds_any_shared d = list_ex (\<lambda>i. IsRandomDraw (slot ! i) \<and> sd_token (slot ! i) \<noteq> int i) [0..<kShapeScalarCount]"
  proof -
    have "kShapeScalarUpperH < kShapeScalarCount" "kShapeScalarLowerH < kShapeScalarCount"
      by (simp_all add: kShapeScalarUpperH_def kShapeScalarLowerH_def kShapeScalarCount_def)
    note heights = same [OF this]
    show "ds_slot d = slot"
      "ds_cls d = (if draw_rel slots g kShapeScalarUpperH kShapeScalarLowerH then cls[kShapeScalarLowerH := cls ! kShapeScalarUpperH] else cls)"
      "ds_any_shared d = list_ex (\<lambda>i. IsRandomDraw (slot ! i) \<and> sd_token (slot ! i) \<noteq> int i) [0..<kShapeScalarCount]"
      unfolding d ResolveShapeScalarDraws_def Let_def slot_def [symmetric] cls_def [symmetric] heights by simp_all
  qed
  show "s < kShapeScalarCount \<Longrightarrow> ds_slot d ! s = resolve_slot fl slots g s" by (simp add: draws at)
  have face: "ds_cls d ! s = first_of (draw_rel slots g) kShapeScalarFace0 s" if "kShapeScalarFace0 \<le> s" "s < kShapeScalarCount" for s
    using that cls(2) [OF that(2)] by (simp add: draws kShapeScalarLowerH_def kShapeScalarFace0_def)
  show "kShapeScalarFace0 \<le> s \<Longrightarrow> s < kShapeScalarCount \<Longrightarrow> kShapeScalarFace0 \<le> t \<Longrightarrow> t < kShapeScalarCount \<Longrightarrow>
      ds_cls d ! s = ds_cls d ! t \<longleftrightarrow> s = t \<or> draw_rel slots g s t"
    by (simp add: face first_of_eq [OF draw_rel_sym draw_rel_trans])
  have "length cls = kShapeScalarCount" using cls(1) [of 0] by (simp add: kShapeScalarCount_def)
  then show "ds_cls d ! kShapeScalarUpperH = ds_cls d ! kShapeScalarLowerH \<longleftrightarrow> draw_rel slots g kShapeScalarUpperH kShapeScalarLowerH"
    using cls(2) [of kShapeScalarUpperH] cls(2) [of kShapeScalarLowerH]
    by (simp add: draws kShapeScalarUpperH_def kShapeScalarLowerH_def kShapeScalarCount_def kShapeScalarFace0_def)
  have "IsRandomDraw (slot ! i) \<and> sd_token (slot ! i) \<noteq> int i \<longleftrightarrow> varies slots g i \<and> leader_of slots g i \<noteq> i"
    if "i < kShapeScalarCount" for i
    using that by (auto simp: at IsRandomDraw_def resolved_slot varies_def)
  then show "ds_any_shared d \<longleftrightarrow> (\<exists>i<kShapeScalarCount. varies slots g i \<and> leader_of slots g i \<noteq> i)"
    unfolding draws by (auto simp: list_ex_iff)
qed

text \<open>The maps a symmetry uses: one-to-one, moving faces among faces and cone heights among cone heights.\<close>

definition slot_map :: "(nat \<Rightarrow> nat) \<Rightarrow> bool" where
  "slot_map f \<longleftrightarrow> inj_on f {..<kShapeScalarCount} \<and>
     (\<forall>s<kShapeScalarCount. f s < kShapeScalarCount \<and> (f s = s \<or> kShapeScalarFace0 \<le> s \<and> kShapeScalarFace0 \<le> f s \<or>
        s = kShapeScalarUpperH \<and> f s = kShapeScalarLowerH \<or> s = kShapeScalarLowerH \<and> f s = kShapeScalarUpperH))"

lemma invariant_joint_law:
  assumes ap: "spread_apart fl db slots" and d: "d = ResolveShapeScalarDraws fl db slots g" and f: "slot_map f"
  shows "invariant d f \<longleftrightarrow> keeps_joint_law slots g f"
proof -
  note R = resolved_draws [OF ap d]
  have range: "f s < kShapeScalarCount" if "s < kShapeScalarCount" for s using f that by (simp add: slot_map_def)
  have present: "sd_present (ds_slot d ! s) \<longleftrightarrow> slots ! s \<noteq> None" if "s < kShapeScalarCount" for s
    using that by (simp add: R(1) resolved_slot)
  have law: "matched d s (f s) \<longleftrightarrow> (slots ! s = None \<longleftrightarrow> slots ! f s = None) \<and>
      (slots ! s \<noteq> None \<longrightarrow> same_law (law_of slots g s) (law_of slots g (f s)))" if s: "s < kShapeScalarCount" for s
  proof -
    have "f s = s \<or> (slots ! s \<noteq> None \<longrightarrow> slots ! f s \<noteq> None \<longrightarrow>
        (ds_cls d ! s = ds_cls d ! f s \<longleftrightarrow> same_law (law_of slots g s) (law_of slots g (f s))))"
    proof -
      from f s consider "f s = s" | "kShapeScalarFace0 \<le> s" "kShapeScalarFace0 \<le> f s"
        | "s = kShapeScalarUpperH" "f s = kShapeScalarLowerH" | "s = kShapeScalarLowerH" "f s = kShapeScalarUpperH"
        unfolding slot_map_def by blast
      then show ?thesis
      proof cases
        case 2
        then show ?thesis using R(2) [OF 2(1) s 2(2) range [OF s]] s range [OF s] by (auto simp: draw_rel_def same_law_refl)
      next
        case 3
        then show ?thesis using R(3) s range [OF s] by (auto simp: draw_rel_def)
      next
        case 4
        then show ?thesis using R(3) s range [OF s] by (auto simp: draw_rel_def intro: same_law_sym)
      qed simp
    qed
    then show ?thesis using present [OF s] present [OF range [OF s]] by (auto simp: matched_def same_law_refl)
  qed
  have random: "random_slot d s \<longleftrightarrow> varies slots g s" if "s < kShapeScalarCount" for s
    using that by (auto simp: random_slot_def IsRandomDraw_def R(1) resolved_slot varies_def)
  have token: "same_token d s t \<longleftrightarrow> one_draw slots g s t" if "s < kShapeScalarCount" "t < kShapeScalarCount" "slots ! s \<noteq> None" "slots ! t \<noteq> None" for s t
    using that one_draw_leader [OF that(3,4)] by (simp add: same_token_def R(1) resolved_slot)
  have alone: "one_draw slots g s t \<longleftrightarrow> s = t"
    if "\<not> ds_any_shared d" "s < kShapeScalarCount" "t < kShapeScalarCount" "varies slots g s" "varies slots g t" for s t
  proof -
    have "leader_of slots g s = s" "leader_of slots g t = t" using that R(4) by blast+
    then show ?thesis using one_draw_leader [of slots s t g] that(4,5) by (simp add: varies_def)
  qed
  have inj: "f s = f t \<longleftrightarrow> s = t" if "s < kShapeScalarCount" "t < kShapeScalarCount" for s t
    using f that by (auto simp: slot_map_def inj_on_def)
  show ?thesis
  proof (cases "\<forall>s<kShapeScalarCount. matched d s (f s)")
    case True
    have moved: "varies slots g (f s)" if "varies slots g s" "s < kShapeScalarCount" for s
      using that True law [OF that(2)] by (auto simp: varies_def same_law_def)
    have "(ds_any_shared d \<longrightarrow> same_token d s t = same_token d (f s) (f t)) \<longleftrightarrow>
        one_draw slots g s t = one_draw slots g (f s) (f t)"
      if st: "s < kShapeScalarCount" "t < kShapeScalarCount" "varies slots g s" "varies slots g t" for s t
    proof (cases "ds_any_shared d")
      case True
      then show ?thesis
        using token [of s t] token [of "f s" "f t"] st moved [OF st(3,1)] moved [OF st(4,2)] range by (auto simp: varies_def)
    next
      case False
      then show ?thesis
        using alone [OF False st] alone [OF False range [OF st(1)] range [OF st(2)] moved [OF st(3,1)] moved [OF st(4,2)]]
          inj [OF st(1,2)] by simp
    qed
    then have "(\<forall>s<kShapeScalarCount. \<forall>t<kShapeScalarCount. random_slot d s \<longrightarrow> random_slot d t \<longrightarrow>
          ds_any_shared d \<longrightarrow> same_token d s t = same_token d (f s) (f t)) \<longleftrightarrow>
        (\<forall>s<kShapeScalarCount. \<forall>t<kShapeScalarCount. varies slots g s \<longrightarrow> varies slots g t \<longrightarrow>
          one_draw slots g s t = one_draw slots g (f s) (f t))"
      using random by (metis (no_types, lifting))
    moreover have "\<forall>s<kShapeScalarCount. (slots ! s = None \<longleftrightarrow> slots ! f s = None) \<and>
        (slots ! s \<noteq> None \<longrightarrow> same_law (law_of slots g s) (law_of slots g (f s)))"
    proof (intro allI impI)
      fix s assume "s < kShapeScalarCount"
      then show "(slots ! s = None \<longleftrightarrow> slots ! f s = None) \<and>
        (slots ! s \<noteq> None \<longrightarrow> same_law (law_of slots g s) (law_of slots g (f s)))"
        using True law by blast
    qed
    ultimately show ?thesis using True unfolding invariant_def keeps_joint_law_def by auto
  next
    case False
    then show ?thesis using law unfolding invariant_def keeps_joint_law_def by blast
  qed
qed

lemma slot_maps: "k < 6 \<Longrightarrow> slot_map (rot_slot k)" "a < 6 \<Longrightarrow> slot_map (mir_slot a)" "slot_map cone_swap"
proof -
  have "list_all (\<lambda>k. distinct (map (rot_slot k) [0..<10])) [0..<6]" "list_all (\<lambda>a. distinct (map (mir_slot a) [0..<10])) [0..<6]"
    by code_simp+
  then have "inj_on (rot_slot k) {..<10}" "inj_on (mir_slot k) {..<10}" if "k < 6" for k
    using that by (auto simp: list_all_iff distinct_map atLeast0LessThan)
  moreover have "inj_on cone_swap {..<10}"
    by (auto simp: inj_on_def cone_swap_def kShapeScalarUpperH_def kShapeScalarLowerH_def split: if_splits)
  ultimately show "k < 6 \<Longrightarrow> slot_map (rot_slot k)" "a < 6 \<Longrightarrow> slot_map (mir_slot a)" "slot_map cone_swap"
    using rot_slot_less [of _ k] mir_slot_less [of _ a]
    by (auto simp: slot_map_def kShapeScalarCount_def kShapeScalarFace0_def rot_slot_def mir_slot_def cone_swap_def
        kShapeScalarUpperH_def kShapeScalarLowerH_def)
qed

lemma exact_face_symmetry:
  assumes ap: "spread_apart fl db slots" and d: "d = ResolveShapeScalarDraws fl db slots g" and "exact_symmetry d symm"
  shows "face_symmetry_of slots g symm"
  using assms(3) invariant_joint_law [OF ap d slot_maps(1)] invariant_joint_law [OF ap d slot_maps(2)]
  by (auto simp: exact_symmetry_def face_symmetry_of_def subgroup_steps_def)

lemma swap_invariant:
  assumes ap: "spread_apart fl db slots" and d: "d = ResolveShapeScalarDraws fl db slots g"
  shows "InvariantUnder d ([0..<kShapeScalarCount][kShapeScalarUpperH := kShapeScalarLowerH, kShapeScalarLowerH := kShapeScalarUpperH])
    \<longleftrightarrow> keeps_joint_law slots g cone_swap"
  unfolding InvariantUnder_iff invariant_joint_law [OF ap d slot_maps(3), symmetric]
  by (rule invariant_cong) (auto simp: cone_swap_def kShapeScalarUpperH_def kShapeScalarLowerH_def kShapeScalarCount_def nth_list_update)

text \<open>A cone that cannot exist: its height is a constant within the tolerance of zero.\<close>

definition no_cone :: "('f, 'z) float_ops_scheme \<Rightarrow> ('f, 'd) double_ops \<Rightarrow> 'f Distribution \<Rightarrow> bool" where
  "no_cone fl db d \<longleftrightarrow> dist_type d = kNoRandom \<and> db_fle db (fl_abs fl (dist_center d)) (fl_eps fl)"

lemma derived_symmetry_prism:
  assumes "told_apart fl db (shape_scalars (GetShapeScalarSlots_prism p))"
  shows "face_symmetry_of (GetShapeScalarSlots_prism p) (pr_sync_group p) (DeriveGeometricSymmetry_prism fl db p)"
    "gs_b_applicable (DeriveGeometricSymmetry_prism fl db p)"
proof -
  have "length (GetShapeScalarSlots_prism p) = kShapeScalarCount" by (simp add: GetShapeScalarSlots_prism_def kShapeScalarCount_def)
  from exact_face_symmetry [OF told_apart_spread [OF assms this] refl DeriveGeometricSymmetry_exact(1)]
  show "face_symmetry_of (GetShapeScalarSlots_prism p) (pr_sync_group p) (DeriveGeometricSymmetry_prism fl db p)" .
  show "gs_b_applicable (DeriveGeometricSymmetry_prism fl db p)" by (simp add: DeriveGeometricSymmetry_prism_def Let_def)
qed

lemma derived_symmetry_pyramid:
  assumes t: "told_apart fl db (py_wedge_angle_u q # py_wedge_angle_l q # shape_scalars (GetShapeScalarSlots_pyramid q))"
  shows "face_symmetry_of (GetShapeScalarSlots_pyramid q) (py_sync_group q) (DeriveGeometricSymmetry_pyramid fl db q)"
    "gs_b_applicable (DeriveGeometricSymmetry_pyramid fl db q) \<longleftrightarrow>
      keeps_joint_law (GetShapeScalarSlots_pyramid q) (py_sync_group q) cone_swap \<and>
      (py_wedge_angle_u q = py_wedge_angle_l q \<or>
       no_cone fl db (law_of (GetShapeScalarSlots_pyramid q) (py_sync_group q) kShapeScalarUpperH) \<and>
       no_cone fl db (law_of (GetShapeScalarSlots_pyramid q) (py_sync_group q) kShapeScalarLowerH))"
proof -
  let ?s = "GetShapeScalarSlots_pyramid q" and ?g = "py_sync_group q"
  let ?d = "ResolveShapeScalarDraws fl db ?s ?g"
  have len: "length ?s = kShapeScalarCount" by (simp add: GetShapeScalarSlots_pyramid_def kShapeScalarCount_def)
  have wedge: "SameShapeScalar fl db (py_wedge_angle_u q) (py_wedge_angle_l q) \<longleftrightarrow> py_wedge_angle_u q = py_wedge_angle_l q"
    and apart: "told_apart fl db (shape_scalars ?s)"
    using t by (auto simp: told_apart_def list_all_iff)
  note ap = told_apart_spread [OF apart len]
  from exact_face_symmetry [OF ap refl DeriveGeometricSymmetry_exact(2)]
  show "face_symmetry_of ?s ?g (DeriveGeometricSymmetry_pyramid fl db q)" .
  have "certainly_flat fl db (sd_dist (ds_slot ?d ! i)) \<longleftrightarrow> no_cone fl db (law_of ?s ?g i)" if "i \<in> {kShapeScalarUpperH, kShapeScalarLowerH}" for i
  proof -
    have "i < kShapeScalarCount" "?s ! i \<noteq> None"
      using that by (auto simp: kShapeScalarUpperH_def kShapeScalarLowerH_def kShapeScalarCount_def GetShapeScalarSlots_pyramid_def)
    then show ?thesis by (simp add: resolved_draws(1) [OF ap refl] resolved_slot certainly_flat_def no_cone_def)
  qed
  then show "gs_b_applicable (DeriveGeometricSymmetry_pyramid fl db q) \<longleftrightarrow> keeps_joint_law ?s ?g cone_swap \<and>
      (py_wedge_angle_u q = py_wedge_angle_l q \<or> no_cone fl db (law_of ?s ?g kShapeScalarUpperH) \<and>
       no_cone fl db (law_of ?s ?g kShapeScalarLowerH))"
    by (auto simp: DeriveGeometricSymmetry_pyramid_def Let_def swap_invariant [OF ap refl] wedge)
qed

end
