(* ===== verification/Spec2Isabelle.thy ===== *)
theory Spec2Isabelle
  imports Color_Spec Device_Filter Filter_Expansion Chain_Sessions Reduce_Cache Server_Properties Trace_Properties Shape_Law
begin

text \<open>
  Lumice traces light through ice crystals and accumulates halo images (\<open>src/src\<close>, C++17).  This development
  models the core of the program: which rays are the same up to the symmetry of a crystal, which rays a filter lets
  through, which color a ray gets, how rays enter crystals, are reflected and refracted and cross from layer to
  layer, how their paths are recorded and named, how a run is summarised, and how the threads of the server produce,
  trace and deliver the rays of a run.  Floating point enters through records of operations (\<open>float_ops\<close>,
  \<open>seg_float\<close>, \<open>double_ops\<close>, \<open>roi_functions\<close>) that the definitions take as arguments, and as real numbers in the
  tracing theories.

  \<^bold>\<open>How the parts interact.\<close>  A configuration names crystals, filters and color classes.  Filters and color
  classes are built into specifications that compare a ray's faces modulo a symmetry; the symmetry is a
  request (P, B, D) gated by what the axis distribution and the shape of the crystal retain.  The simulator
  appends the faces a ray hits to its recorder in the ray buffer, evaluates filters and color masks on the
  recorded path, and interns the path of every scattering layer into a chain id.  The analysis consumer merges the
  workers' chain ids, counts light per chain in a bounded record, and publishes a histogram that readers reduce
  under a symmetry of their choice.  The server drives all of it: a producer cuts the budget of a run into batches
  and throttles itself on a counter of what is in flight, simulators trace the batches and hand their data over in
  bursts, a consumer delivers the data and settles the counter, and the last of the two to finish publishes the
  run's epoch as drained.  The editor writes filters as rows of text, validates, parses, prints and
  migrates them, and expands them to the clauses of a filter.

  \<^bold>\<open>Theories\<close>, in the order of their use (the header of each says what is translated and how).
    \<^item> \<open>Lumice_Prelude\<close>, \<open>Text_Utils\<close>: machine integers, the C remainder, lexicographic comparison, characters,
      digits, splitting.
    \<^item> \<open>Face_Labels\<close> (\<open>core/crystal_kind.hpp\<close>, \<open>core/crystal.cpp\<close>), \<open>Axis_Distribution\<close>
      (\<open>core/distribution.hpp\<close>, \<open>core/random.cpp\<close>, \<open>core/crystal.cpp\<close>), \<open>Symmetry_Gating\<close>
      (\<open>core/crystal.hpp\<close>), \<open>Raypath_Symmetry\<close> (\<open>ReduceRaypathByPeriod\<close>, \<open>ExpandRaypathByPeriod\<close>) with
      \<open>Raypath_Canonical\<close> and \<open>Raypath_Reduce\<close>: the relabellings of the faces, their group, the reduction as the
      least member of the orbit (locales \<open>orbit_relation\<close>, \<open>orbit_extension\<close>, \<open>canonical_form\<close>).
    \<^item> \<open>Ray_Path\<close> (\<open>core/raypath.hpp\<close>), \<open>Ray_Buffer\<close> (\<open>config/sim_data.cpp\<close>): recorders with their inline and arena
      bytes, the buffer and its copies, appends, batches and resets.
    \<^item> \<open>Filter_Config\<close> (\<open>config/filter_config.cpp\<close>), \<open>Reduce_Buffer\<close>, \<open>Filter_Spec\<close> (\<open>core/filter_spec.cpp\<close>),
      \<open>Device_Filter\<close> (\<open>core/device_filter_desc.cpp\<close>, \<open>core/shared/filter_shared.h\<close>): the host filter, the device
      filter, and their common specification.
    \<^item> \<open>Color_Tables\<close> (\<open>config/component_table.cpp\<close>, \<open>config/color_gate_table.cpp\<close>,
      \<open>config/color_class_table.cpp\<close>; locale \<open>bit_budget\<close>), \<open>Color_Spec\<close> (\<open>BuildColorSpecGroups\<close> and the color pass
      of \<open>core/simulator.cpp\<close>).
    \<^item> \<open>Chain_Id_Table\<close>, \<open>Chain_Sessions\<close> (\<open>core/chain_id_table.cpp\<close>; locale \<open>interner\<close>): interning, deltas, merging,
      and the reachable states of both.
    \<^item> \<open>Sync_Groups\<close> (\<open>core/crystal_param.cpp\<close>), \<open>Shape_Symmetry\<close> (\<open>DeriveGeometricSymmetry\<close>): the symmetry of a
      crystal ensemble.  \<open>Shape_Law\<close>: the joint law of the shape scalars, read off the configuration alone, and that the
      code decides which symmetries it has.
    \<^item> \<open>Space_Saving\<close> (locale \<open>space_saving\<close>), \<open>Raypath_Histogram\<close>, \<open>Histogram_Reduce\<close>, \<open>Reduce_Cache\<close>
      (\<open>server/raypath_histogram_consumer.cpp\<close>, \<open>server/result_types.hpp\<close>): the bounded record, its sessions, the
      snapshot, the reduction, and concurrent readers of its cache.
    \<^item> \<open>Work_Queue\<close> (\<open>util/queue.hpp\<close>; locale \<open>work_queue\<close>), \<open>Dispatch_Grain\<close> (\<open>core/simulator.hpp\<close>,
      \<open>server/ray_num_semantics.hpp\<close>, \<open>server/scene_batch_publish.hpp\<close>), \<open>Ledger_Amounts\<close>, \<open>Server_Pipeline\<close>
      (\<open>server/server.cpp\<close>, \<open>core/simulator.cpp\<close>): the queues, the sizes of batches, and the threads of the server
      as a transition system; one step is one access to shared state.  \<open>Pipeline_Ledger\<close>, \<open>Pipeline_Session\<close>,
      \<open>Pipeline_Books\<close>, \<open>Drain_Epoch\<close>, \<open>Pipeline_Bounds\<close>: the invariants of its reachable states, one layer each
      (conservation, the stop and start protocol, the counter, the drain signal, the ceiling).
      \<open>Server_Schedules\<close>, \<open>Server_Properties\<close>: concrete schedules and the promises.
    \<^item> \<open>Optics\<close> (\<open>core/optics.cpp\<close> and its shared headers), \<open>Hit_Loop\<close>, \<open>Hit_Refinement\<close> (the hit loop of
      \<open>core/simulator.cpp\<close>): the kernels that reflect, refract and propagate rays, the loop that plays rays between two
      buffers, gates and interns them, and its specification on lists of rays.  \<open>Entry_Sampler\<close> (\<open>InitRay_p_fid\<close>,
      \<open>core/geo3d.cpp\<close>, \<open>Crystal::PopulateFromCfGeom\<close>), \<open>Layer_Entry\<close>, \<open>Layer_Trace\<close> (\<open>InitRayFirstMs\<close>,
      \<open>InitRayOtherMs\<close>, the batches of \<open>SimulateOneWavelength\<close>, the shuffle): how rays enter a crystal and a layer and
      cross to the next.  \<open>Trace_Properties\<close>: the promises.
    \<^item> \<open>Raypath_Text\<close> (\<open>config/raypath_validation.cpp\<close>), \<open>Summand_Text\<close>, \<open>Summand_Rows\<close>
      (\<open>gui/raypath_segments.hpp\<close>), \<open>Filter_Expansion\<close> (\<open>gui/file_io.cpp\<close>): the texts of the editor.

  \<^bold>\<open>What is shown.\<close>  The reduction is a canonical form of the orbit under exactly the active group, on the host, in
  place and on the device; host and device filters decide one specification and agree; the color mask
  is the set of matching gate entries; recorders keep every hit up to the bound under any interleaving; interning names
  chains once and merging decides equality of chains; the bounded histogram is a Space-Saving summary in every
  reachable state, snapshots and reductions conserve the light, concurrent readers get the reduction they asked for;
  a hit divides the light of a ray without loss, by the laws of reflection and refraction, a flight ends on the nearest
  face, a ray enters a closed crystal where it is lit and with the weight of its projected area, the hit loop
  with its buffers implements its specification, a layer creates no light and drops no ray, and the shuffle reaches
  every order of the rays in exactly one way;
  under every schedule of the server's threads the counter of what is in flight is exact and bounded, and a run
  whose epoch is published as drained has delivered everything it issued and, unless it was stopped, everything it
  was asked for; two races are exhibited, a wake-up \<open>Stop()\<close> can lose and an idle report that comes too early; texts that validate are kept by the parser, rows print and parse back, and an expansion means what its rows mean.

  \<^bold>\<open>Bounds.\<close>  Chain ids are 32 bit: the theorems on merging and on histogram sessions ask that fewer than
  \<open>kOverflowChainId\<close> entries were delivered, the ones on reduction that a result has fewer layers than that.
  Loops without an obvious bound are partial functions to \<open>option\<close> (the walk to the root, the refresh of the
  heap), so that \<open>None\<close> is not returning or failing; the theorems show that they return.  In the server's transition
  system \<open>None\<close> is a thread that is blocked.  Its counters are natural numbers and integers; the ray budget is a 64 bit
  word, and the theorem on the ceiling bounds the 32 bit counter.  Energies are elements of an
  ordered ring: sums are exact where the code rounds.  In the tracing theories the numbers are reals; the theorems on
  buffers ask that the 16 bit arena indices suffice for the paths of all hits, which paths of at most 15 faces never
  use, and that the next layer's buffer has more than \<open>max_hits + 1\<close> places per ray, which the first layer's need not have.

  \<^bold>\<open>Not modelled.\<close>  The samplers of orientations, sun directions and crystal shapes and the construction of the
  polyhedra: what they draw is an argument of the definitions that use it, with what the theorems need of it as a
  named hypothesis (\<open>light_ok\<close>, \<open>geom_ok\<close>, \<open>crystal_ok\<close>); rounding; the stop flag inside a wavelength, after which nothing
  of it is published; projection and analytic halo curves; the GPU backends beyond the filter code they share with
  the host: in the server's transition system what a worker's trace yields is chosen by the label of its step; the
  destructor of the server, commands from several control threads, and the server's result frames; the C interface
  around the modelled parts; JSON, files, logging and the user interface.  \<open>Some max_len = 0\<close> on the host has no
  counterpart on the device and is excluded by \<open>wf_device_param\<close>.
\<close>

section \<open>Raypath symmetry\<close>

text \<open>C1: the reduction of a raypath is the least path of its expansion, for every request of P, B and D,
  every mirror index and every retained set that is a subgroup, on legal face numbers.\<close>

theorem reduction_is_least_of_expansion:
  assumes "is_subgroup p" and "legal_path xs"
  shows "ReduceRaypathByPeriod xs sy a d p b 6 g = Min (set (ExpandRaypathByPeriod xs sy a d p b 6 g))"
  by (rule raypath.reduce_Min) (simp add: raypath_dom_def assms)

theorem reduction_is_least_of_expansion_witness:
  "ReduceRaypathByPeriod [5, 1, 14] 7 2 True PRotationSet_Full True 6 kFullHexagonalSymmetry
     = Min (set (ExpandRaypathByPeriod [5, 1, 14] 7 2 True PRotationSet_Full True 6 kFullHexagonalSymmetry))"
  by (rule reduction_is_least_of_expansion) (simp_all add: IsLegalFace_def)

text \<open>Two raypaths reduce to the same representative exactly when one is in the expansion of the
  other, so the reduction is a canonical form of the symmetry class.\<close>

theorem reduction_decides_equivalence:
  assumes "is_subgroup p" and "legal_path xs" and "legal_path ys"
  shows "ReduceRaypathByPeriod ys sy a d p b 6 g = ReduceRaypathByPeriod xs sy a d p b 6 g
    \<longleftrightarrow> ys \<in> set (ExpandRaypathByPeriod xs sy a d p b 6 g)"
  by (rule raypath.reduce_eq_iff) (simp_all add: raypath_dom_def assms)

theorem reduction_decides_equivalence_witness:
  "ReduceRaypathByPeriod [6, 2] 3 0 False PRotationSet_Full True 6 kFullHexagonalSymmetry
     = ReduceRaypathByPeriod [4, 1] 3 0 False PRotationSet_Full True 6 kFullHexagonalSymmetry
   \<longleftrightarrow> [6, 2] \<in> set (ExpandRaypathByPeriod [4, 1] 3 0 False PRotationSet_Full True 6 kFullHexagonalSymmetry)"
  by (rule reduction_decides_equivalence) (simp_all add: IsLegalFace_def)

text \<open>C24: the expansion lists exactly the images of the path under the group the request, the ensemble and
  the shape leave active: rotations by multiples of the retained stride, the mirror, the basal exchange.\<close>

theorem expansion_is_orbit:
  assumes "is_subgroup p" and "legal_path xs"
  shows "set (ExpandRaypathByPeriod xs sy a d p b 6 g) = active_orbit sy a d p b g xs"
  by (rule expand_set) (rule assms)+

theorem expansion_is_orbit_witness:
  "set (ExpandRaypathByPeriod [3, 13, 2] 5 4 True (FromStep 3) True 6 kFullHexagonalSymmetry)
     = active_orbit 5 4 True (FromStep 3) True kFullHexagonalSymmetry [3, 13, 2]"
  by (rule expansion_is_orbit) (simp_all add: IsLegalFace_def subgroup_steps_def)

text \<open>Whatever the axis distribution, the retained rotation set of a gating is a subgroup of Z6: it
  keeps exactly the multiples of its generating step, which divides six.\<close>

theorem gating_retains_subgroup:
  assumes "gs_p_step g \<in> {1, 2, 3, 6}" and "s = sg_p_retained (DeriveSymmetryGating fl semantics g axis_dist)"
  shows "GeneratorStep s \<in> {1, 2, 3, 6} \<and> list_all (\<lambda>k. Keeps s k \<longleftrightarrow> GeneratorStep s dvd k) [0, 1, 2, 3, 4, 5]"
proof -
  have s: "is_subgroup s" unfolding assms(2) by (rule is_subgroup_gating) (use assms(1) in \<open>simp add: subgroup_steps_def\<close>)
  with is_subgroup_step [OF s] show ?thesis by (simp only: Keeps_subgroup subgroup_steps_def list.set simp_thms)
qed

abbreviation some_axis :: "rat AxisDistribution" where
  "some_axis \<equiv> \<lparr> azimuth_dist = \<lparr> dist_type = kUniform, dist_center = 0, dist_spread = 360 \<rparr>,
     latitude_dist = \<lparr> dist_type = kGaussian, dist_center = 90, dist_spread = 1 \<rparr>,
     roll_dist = \<lparr> dist_type = kUniform, dist_center = 30, dist_spread = 360 \<rparr> \<rparr>"

theorem gating_retains_subgroup_witness:
  "GeneratorStep (sg_p_retained (DeriveSymmetryGating rat_ops kPhysical kFullHexagonalSymmetry some_axis)) \<in> {1, 2, 3, 6} \<and>
   list_all (\<lambda>k. Keeps (sg_p_retained (DeriveSymmetryGating rat_ops kPhysical kFullHexagonalSymmetry some_axis)) k
     \<longleftrightarrow> GeneratorStep (sg_p_retained (DeriveSymmetryGating rat_ops kPhysical kFullHexagonalSymmetry some_axis)) dvd k)
     [0, 1, 2, 3, 4, 5]"
  by (rule gating_retains_subgroup [OF _ refl]) (simp add: kFullHexagonalSymmetry_def)

text \<open>C26: the byte-buffer reduction of the per-ray path computes what the vector reduction computes, as long
  as the bytes stay below 250 (every legal face number does).\<close>

theorem byte_reduction_is_vector_reduction:
  assumes "list_all (\<lambda>x. x < 250) data"
  shows "ReduceBuffer data sy a d p b 6 g = ReduceRaypathByPeriod data sy a d p b 6 g"
  by (rule ReduceBuffer_eq) (rule assms)

theorem byte_reduction_is_vector_reduction_witness:
  "ReduceBuffer [5, 1, 14, 249] 7 2 True (FromStep 2) True 6 kFullHexagonalSymmetry
     = ReduceRaypathByPeriod [5, 1, 14, 249] 7 2 True (FromStep 2) True 6 kFullHexagonalSymmetry"
  by (rule byte_reduction_is_vector_reduction) simp

section \<open>Filters\<close>

abbreviation some_ray :: "(rat, unit) RaySeg" where
  "some_ray \<equiv> \<lparr> seg_d = [0, 0, 1], seg_p = [0, 0, 0], seg_w = 1, from_face = 3, to_face = kInvalidId,
     prev_ray_idx = 0, root_ray_idx = 0, crystal_idx = 0, crystal_config_id = 7, crystal_rot = (), is_continue = False \<rparr>"

abbreviation path_3_5 :: RaypathRecorder where
  "path_3_5 \<equiv> \<lparr> rec_size = 2, rec_data = 3 # 5 # replicate 13 0, overflow_idx = kNoOverflow \<rparr>"

abbreviation some_filter :: "rat FilterConfig" where
  "some_filter \<equiv> \<lparr> fc_id = 1, fc_symmetry = 7, fc_action = kFilterOut,
     fc_param = ComplexParam [[(0, RaypathFilterParam [4, 6]), (0, CrystalFilterParam 7)],
       [(0, EntryExitFilterParam \<lparr> ee_entry = Some 3, ee_exit = None, ee_min_len = 1, ee_max_len = Some 4 \<rparr>)]] \<rparr>"

text \<open>C3: for a configuration whose raypath predicates have at most 15 faces (what the inline recorder holds) and a
  readable recorder of legal faces, the host filter built from the configuration is the filter's specification: an OR
  over AND-clauses of predicates on the hit sequence modulo the requested symmetry, negated for a filter-out.  Longer
  raypath predicates, which a configuration may have, are the subject of \<open>long_raypath_filter_loses_its_paths\<close>.\<close>

theorem host_filter_refines_spec:
  assumes "wf_param (fc_param cfg)" and "legal_path (hits_of ar rec)" and "readable ar rec"
  shows "Check fl (Create fl cfg 6 geom ax) ray rec ar \<longleftrightarrow>
    (fc_action cfg = kFilterIn) = filter_holds fl (fc_symmetry cfg) ax (fc_param cfg) ray (hits_of ar rec)"
  using Match_refines [OF assms, of fl geom ax ray] by (simp add: Check_def Create_action Let_def)

theorem host_filter_refines_spec_witness:
  "Check rat_ops (Create rat_ops some_filter 6 kFullHexagonalSymmetry some_axis) some_ray path_3_5 None \<longleftrightarrow>
    (fc_action some_filter = kFilterIn) =
      filter_holds rat_ops (fc_symmetry some_filter) some_axis (fc_param some_filter) some_ray (hits_of None path_3_5)"
  by (rule host_filter_refines_spec)
    (simp_all add: IsLegalFace_def kInlineCap_def option_list_def hits_of_def readable_def hit_bytes_def HasOverflow_def)

abbreviation some_device_ray :: "rat DeviceRay" where
  "some_device_ray \<equiv> \<lparr> dr_path = [0, 1], dr_poly_fn = [3, 5, 1], dr_poly_off = 0, dr_dir = [0, 0, 1],
     dr_crystal_config_id = 7 \<rparr>"

text \<open>C4: the device filter, with its descriptor placed anywhere in the shared buffers, decides the same
  specification, for paths up to the device's 64 hits.\<close>

theorem device_filter_refines_spec:
  assumes "wf_device_param (fc_param cfg)" and "legal_path (device_hits r)" and "same_ray r ray"
    and "place_desc fl cfg 6 geom ax (subs0, counts0) = (f, subs, counts)"
  shows "DeviceFilterCheck fl f (subs @ subs1) (counts @ counts1) r \<longleftrightarrow>
    (fc_action cfg = kFilterIn) = filter_holds fl (fc_symmetry cfg) ax (fc_param cfg) ray (device_hits r)"
  by (rule device_refines) (rule assms)+

abbreviation some_placement ::
  "rat DeviceFilterDesc \<times> rat DeviceFilterDesc list \<times> nat list" where
  "some_placement \<equiv> place_desc rat_ops some_filter 6 kFullHexagonalSymmetry some_axis ([zero_desc rat_ops], [4])"

theorem device_filter_refines_spec_witness:
  "DeviceFilterCheck rat_ops (fst some_placement) (fst (snd some_placement) @ []) (snd (snd some_placement) @ [2])
      some_device_ray \<longleftrightarrow>
    (fc_action some_filter = kFilterIn) =
      filter_holds rat_ops (fc_symmetry some_filter) some_axis (fc_param some_filter) some_ray (device_hits some_device_ray)"
  by (rule device_filter_refines_spec)
    (simp_all add: IsLegalFace_def kMaxHits_def option_list_def device_hits_def ApplyGetFn_dev_def same_ray_def)

text \<open>C5: host and device agree on every ray whose hit sequence they see alike, for filters inside the host
  recorder's bound: the render does not depend on the backend that evaluates the filter.\<close>

theorem host_and_device_agree:
  assumes "wf_param (fc_param cfg)" and "wf_device_param (fc_param cfg)"
    and "legal_path (device_hits r)" and "same_ray r ray" and "readable ar rec" and "hits_of ar rec = device_hits r"
    and "place_desc fl cfg 6 geom ax (subs0, counts0) = (f, subs, counts)"
  shows "DeviceFilterCheck fl f (subs @ subs1) (counts @ counts1) r =
    Check fl (Create fl cfg 6 geom' ax) ray rec ar"
  using device_refines [OF assms(2-4,7)] Match_refines [of cfg ar rec fl geom' ax ray] assms
  by (simp add: Check_def Create_action Let_def)

theorem host_and_device_agree_witness:
  "DeviceFilterCheck rat_ops (fst some_placement) (fst (snd some_placement) @ []) (snd (snd some_placement) @ [2])
      some_device_ray =
    Check rat_ops (Create rat_ops some_filter 6 kFullHexagonalSymmetry some_axis) some_ray path_3_5 None"
  by (rule host_and_device_agree)
    (simp_all add: IsLegalFace_def kMaxHits_def kInlineCap_def option_list_def device_hits_def ApplyGetFn_dev_def
      same_ray_def hits_of_def readable_def hit_bytes_def HasOverflow_def)

text \<open>C34: a host raypath predicate longer than the 15 faces of an inline recorder never matches a path of its
  own length, nor any path but one of 15 hits: the canonical faces past the bound are dropped.\<close>

theorem long_raypath_filter_loses_its_paths:
  assumes "legal_path rp" and "legal_path (hits_of ar rec)" and "readable ar rec" and "kInlineCap < length rp"
    and "length (hits_of ar rec) \<noteq> kInlineCap"
  shows "\<not> SimpleSpec_Match fl (SimpleSpecCreator fl (label_args fl sy ax) (RaypathFilterParam rp)) ray rec ar"
  using Contains_long [of PRotationSet_Full rp ar rec] assms by (auto simp: label_args_def)

theorem long_raypath_filter_loses_its_paths_witness:
  "\<not> SimpleSpec_Match rat_ops (SimpleSpecCreator rat_ops (label_args rat_ops 0 some_axis)
      (RaypathFilterParam (replicate 16 3))) some_ray \<lparr> rec_size = 16, rec_data = replicate 15 3, overflow_idx = 0 \<rparr>
      (Some [replicate 64 3])"
  by (rule long_raypath_filter_loses_its_paths)
    (simp_all add: IsLegalFace_def raypath_consts hits_of_def readable_def hit_bytes_def HasOverflow_def
      take_replicate list_all_iff)

text \<open>C40: the single-pass gate decision equals \<open>Check\<close> as long as the filter has at most 64 summands.\<close>

theorem summand_mask_gate_is_check:
  assumes "summand_count (fs_body spec) \<le> 64"
  shows "fst (CheckSummandMask fl spec ray rec ar) = Check fl spec ray rec ar"
  by (rule CheckSummandMask_Check) (rule assms)

theorem summand_mask_gate_is_check_witness:
  "fst (CheckSummandMask rat_ops (Create rat_ops some_filter 6 kFullHexagonalSymmetry some_axis) some_ray path_3_5 None)
    = Check rat_ops (Create rat_ops some_filter 6 kFullHexagonalSymmetry some_axis) some_ray path_3_5 None"
  by (rule summand_mask_gate_is_check) (simp add: Create_body TopSpecCreator_def ComplexSpec_new_def)

text \<open>The symmetry of a filter survives its text form: of the byte exactly the three request bits are kept.\<close>

theorem symmetry_text_roundtrip:
  "FilterSymmetryFromString (FilterSymmetryToString s) = s AND (kSymP OR kSymB OR kSymD)"
proof -
  have "kSymP OR kSymB OR kSymD = 7" by (simp add: kSymP_def kSymB_def kSymD_def)
  then show ?thesis by (simp only: symmetry_string)
qed

text \<open>The face numbers of a filter are listed strictly ascending and are exactly those its predicates name.\<close>

theorem face_numbers_listed_once:
  "sorted_wrt (<) (FilterFaceNumbers f) \<and> set (FilterFaceNumbers f) = param_faces (fc_param f)"
  by (simp add: FilterFaceNumbers_set FilterFaceNumbers_strict)

text \<open>An entry-exit filter is accepted exactly when its bounds satisfy \<open>1 \<le> min \<le> max \<le> 64\<close>, and the
  accepted parameter holds the fields as given.\<close>

theorem entry_exit_accepted_iff:
  "entry_exit_from_fields entry exit min_len max_len = Inr p \<longleftrightarrow>
     (let lo = (case min_len of None \<Rightarrow> 1 | Some n \<Rightarrow> n)
      in 1 \<le> lo \<and> (case max_len of None \<Rightarrow> True | Some m \<Rightarrow> lo \<le> m \<and> m \<le> kMaxHits) \<and>
         p = EntryExitFilterParam \<lparr> ee_entry = entry, ee_exit = exit, ee_min_len = lo, ee_max_len = max_len \<rparr>)"
  by (cases min_len; cases max_len) (auto simp: entry_exit_from_fields_def Let_def)

section \<open>Paths and ray buffers\<close>

text \<open>C13: over any interleaved session of appends each recorder in use holds its own hits in order, cut at 64,
  whether they fit inline or spill to the arena, and the buffer stays well formed.\<close>

theorem interleaved_appends:
  assumes "buffer_ok b live" and "fst ` set ops \<subseteq> live" and "length ops \<le> arena_room b" and "i \<in> live"
  shows "buffer_ok (fold (\<lambda>(i, fn). RecorderAppend i fn) ops b) live \<and>
     path_of (fold (\<lambda>(i, fn). RecorderAppend i fn) ops b) i
       = take kMaxHits (path_of b i @ [fn mod 256. (k, fn) \<leftarrow> ops, k = i])"
  by (rule buffer_paths.session) (rule assms)+

abbreviation fresh_buffer :: "unit RayBuffer" where
  "fresh_buffer \<equiv> RayBuffer_new () 2"

lemma fresh_buffer_ok: "buffer_ok fresh_buffer {0, 1}"
  by (simp add: RayBuffer_new_def buffer_ok_def arena_ok_def rec_ok_def empty_recorder_def HasOverflow_def
      raypath_consts unshared_def numeral_2_eq_2)

abbreviation some_ops :: "(nat \<times> nat) list" where
  "some_ops \<equiv> concat (replicate 20 [(0, 3), (1, 261)])"

theorem interleaved_appends_witness:
  "buffer_ok (fold (\<lambda>(i, fn). RecorderAppend i fn) some_ops fresh_buffer) {0, 1} \<and>
   path_of (fold (\<lambda>(i, fn). RecorderAppend i fn) some_ops fresh_buffer) 1
     = take kMaxHits (path_of fresh_buffer 1 @ [fn mod 256. (k, fn) \<leftarrow> some_ops, k = 1])"
proof (rule interleaved_appends [OF fresh_buffer_ok, of some_ops 1])
  show "fst ` set some_ops \<subseteq> {0, 1}" by simp
  show "length some_ops \<le> arena_room fresh_buffer"
    by (simp add: length_concat sum_list_replicate arena_room_def RayBuffer_new_def)
qed simp

text \<open>A fan-out gives two independent copies of the source path and disturbs no other recorder.\<close>

theorem fan_out_copies_path:
  assumes "buffer_ok src slive" and "k \<in> slive" and "buffer_ok b live"
    and "d0 < rb_capacity b" and "d1 < rb_capacity b" and "d0 \<noteq> d1" and "rb_overflow_used b + 1 < 0xFFFE"
  shows "\<exists>b'. RecorderFanOut src k d0 d1 b = Some b' \<and> buffer_ok b' (insert d1 (insert d0 live)) \<and>
      path_of b' d0 = path_of src k \<and> path_of b' d1 = path_of src k \<and>
      (\<forall>j\<in>live. j \<noteq> d0 \<and> j \<noteq> d1 \<longrightarrow> path_of b' j = path_of b j)"
  by (rule RecorderFanOut_spec) (rule assms)+

theorem fan_out_copies_path_witness:
  "\<exists>b'. RecorderFanOut (RecorderAppend 0 3 fresh_buffer) 0 0 1 fresh_buffer = Some b' \<and>
      buffer_ok b' (insert 1 (insert 0 {})) \<and>
      path_of b' 0 = path_of (RecorderAppend 0 3 fresh_buffer) 0 \<and> path_of b' 1 = path_of (RecorderAppend 0 3 fresh_buffer) 0 \<and>
      (\<forall>j\<in>{}. j \<noteq> 0 \<and> j \<noteq> 1 \<longrightarrow> path_of b' j = path_of fresh_buffer j)"
proof (rule fan_out_copies_path)
  show "buffer_ok (RecorderAppend 0 3 fresh_buffer) {0, 1}"
    by (rule RecorderAppend_spec(1) [OF fresh_buffer_ok]) (simp_all add: RayBuffer_new_def)
  show "buffer_ok fresh_buffer {}" by (rule buffer_ok_mono [OF fresh_buffer_ok]) simp
qed (simp_all add: RayBuffer_new_def)

text \<open>C33: appending a batch adds exactly the requested rays, in order, each with its own path, component mask and
  chain id, until the destination is full; the rays already there keep theirs.\<close>

theorem batch_append:
  assumes "live_ok src" and "live_ok b" and "rb_overflow_used b + rb_size src \<le> 0xFFFE" and "start + len < 2 ^ 64"
  shows "\<exists>b'. EmplaceBack_buffer src start len b = Some b' \<and> live_ok b' \<and> rb_capacity b' = rb_capacity b \<and>
      view b' = take (rb_capacity b) (view b @ map (carried (HasChainIds b)) (take len (drop start (view src))))"
  by (rule EmplaceBack_buffer_spec) (rule assms)+

lemma fresh_live_ok: "live_ok fresh_buffer"
  by (simp add: RayBuffer_new_def live_ok_def columns_ok_def buffer_ok_def arena_ok_def)

text \<open>Three rays, the second one's path of 16 faces spilled; a buffer with room for one more.\<close>

abbreviation some_recorder :: "nat list \<Rightarrow> RaypathRecorder" where
  "some_recorder fs \<equiv> empty_recorder\<lparr> rec_data := fs @ replicate (kInlineCap - length fs) 0, rec_size := length fs \<rparr>"

abbreviation full_path :: "nat list" where "full_path \<equiv> [1, 3, 4, 5, 6, 7, 8, 1, 3, 4, 5, 6, 7, 8, 2]"

abbreviation stocked_buffer :: "nat RayBuffer" where
  "stocked_buffer \<equiv> \<lparr> rb_capacity = 3, rb_size = 3, rb_rays = [10, 20, 30],
     rb_recorders = [some_recorder [3], \<lparr> rec_size = 16, rec_data = full_path, overflow_idx = 0 \<rparr>, some_recorder [7, 8]],
     rb_components = [1, 2, 4], rb_chain_ids = Some [5, 6, 0],
     rb_overflow_arena = Some [full_path @ [6] @ replicate 48 0], rb_overflow_cap = 1, rb_overflow_used = 1 \<rparr>"

abbreviation begun_buffer :: "nat RayBuffer" where
  "begun_buffer \<equiv> RayBuffer_new 0 2\<lparr> rb_size := 1, rb_rays := [99, 0],
     rb_recorders := [some_recorder [4], empty_recorder], rb_components := [8, 0], rb_chain_ids := Some [9, 0] \<rparr>"

theorem batch_append_witness:
  "\<exists>b'. EmplaceBack_buffer stocked_buffer 1 5 begun_buffer = Some b' \<and> live_ok b' \<and> rb_capacity b' = 2 \<and>
      view b' = [(99, [4], 8, Some 9), (20, full_path @ [6], 2, Some 6)] \<and>
      view stocked_buffer = [(10, [3], 1, Some 5), (20, full_path @ [6], 2, Some 6), (30, [7, 8], 4, Some 0)]"
proof -
  have "live_ok stocked_buffer" "live_ok begun_buffer"
    by (simp_all add: live_ok_upto columns_ok_def arena_ok_def rec_ok_def unshared_def HasOverflow_def empty_recorder_def
        RayBuffer_new_def raypath_consts upt_rec)
  moreover have "rb_overflow_used begun_buffer + rb_size stocked_buffer \<le> 0xFFFE" "(1::nat) + 5 < 2 ^ 64"
    by (simp_all add: RayBuffer_new_def)
  ultimately have "\<exists>b'. EmplaceBack_buffer stocked_buffer 1 5 begun_buffer = Some b' \<and> live_ok b' \<and>
      rb_capacity b' = rb_capacity begun_buffer \<and> view b' = take (rb_capacity begun_buffer) (view begun_buffer @
        map (carried (HasChainIds begun_buffer)) (take 5 (drop 1 (view stocked_buffer))))"
    by (rule batch_append)
  moreover have "view stocked_buffer = [(10, [3], 1, Some 5), (20, full_path @ [6], 2, Some 6), (30, [7, 8], 4, Some 0)]"
    "view begun_buffer = [(99, [4], 8, Some 9)]" "rb_capacity begun_buffer = 2" "HasChainIds begun_buffer"
    by (simp_all add: view_def ray_view_def path_of_def RecorderAt_def RecorderDataPtr_def Let_def HasOverflow_def HasChainIds_def
        chain_at_def empty_recorder_def RayBuffer_new_def raypath_consts upt_rec)
  ultimately show ?thesis by (simp add: carried_def)
qed

text \<open>A copy of a buffer holds the same rays with the same paths, masks and chain ids, and is well formed.\<close>

theorem copy_keeps_view:
  assumes "live_ok b"
  shows "live_ok (RayBuffer_copy b) \<and> view (RayBuffer_copy b) = view b"
  using RayBuffer_copy_spec [OF assms] by simp

theorem copy_keeps_view_witness:
  "live_ok (RayBuffer_copy fresh_buffer) \<and> view (RayBuffer_copy fresh_buffer) = view fresh_buffer"
  by (rule copy_keeps_view) (rule fresh_live_ok)

text \<open>A reset buffer is empty, holds at least the requested capacity, has a chain column exactly if asked,
  and starts with an unused arena.\<close>

lemma reset_starts_over:
  assumes "live_ok b"
  shows "live_ok (Reset ray0 n c b) \<and> view (Reset ray0 n c b) = [] \<and> n \<le> rb_capacity (Reset ray0 n c b) \<and>
    HasChainIds (Reset ray0 n c b) = c \<and> rb_overflow_used (Reset ray0 n c b) = 0"
  using Reset_spec [OF assms] by simp

text \<open>A valid segment is of exactly one kind: normal, totally reflected, outgoing or continuing.\<close>

lemma segment_kind_unique:
  assumes "zero_tests fl" and "IsValidComplete fl r" and "IsContinue r \<longrightarrow> f_ge0 fl (seg_w r)"
  shows "count_list (segment_kinds fl r) True = 1"
  by (rule segment_one_kind) (use assms in auto)

text \<open>Equality of inline recorders is equality of their bytes, and the hash is that
  of the path as a vector, so equal recorders hash alike.\<close>

lemma recorder_equality_and_hash:
  assumes "inline_ok x" and "inline_ok y"
  shows "(recorder_eq x y \<longleftrightarrow> inline_bytes x = inline_bytes y) \<and>
    RaypathHash_recorder x = RaypathHash (inline_bytes x) \<and> RaypathHash_recorder y = RaypathHash (inline_bytes y)"
  using recorder_eq_iff [OF assms] by (simp add: hash_recorder)

section \<open>Raypath colors\<close>

abbreviation two_settings :: "rat Scene" where
  "two_settings \<equiv> [[\<lparr> ss_filter = \<lparr> fc_id = 0, fc_symmetry = 0, fc_action = kFilterIn, fc_param = SimpleParam NoneFilterParam \<rparr>,
      ss_crystal_id = 7 \<rparr>, \<lparr> ss_filter = some_filter, ss_crystal_id = 8 \<rparr>]]"

abbreviation color_ref :: "nat list \<Rightarrow> rat RaypathColorRef" where
  "color_ref p \<equiv> \<lparr> cr_layer = 0, cr_crystal = 8, cr_predicate = RaypathFilterParam p, cr_symmetry = 1 \<rparr>"

abbreviation color_class :: "rat RaypathColorRef list \<Rightarrow> rat ColorClassConfig" where
  "color_class refs \<equiv> \<lparr> cc_color = [1, 0, 0], cc_combine = ''any'', cc_visible = True, cc_solo = False, cc_match = refs \<rparr>"

abbreviation two_classes :: "rat ColorClassConfig list" where
  "two_classes \<equiv> [color_class [color_ref [3, 5], color_ref [1]], color_class [color_ref [3, 5]]]"

text \<open>Every summand of the scene's filters finds its own component bit at its place of the per-filter bit list: the
  summand's position while the 64 bits last, and the no-bit mark after.\<close>

theorem component_bits_are_positions:
  assumes "small_scene scene" and "k < length (scene_summands scene)" and "scene_summands scene ! k = (mi, ci, sk)"
  shows "sk < length (ComponentBitsFor (BuildComponentTable scene) mi ci) \<and>
    ComponentBitsFor (BuildComponentTable scene) mi ci ! sk = granted k"
  by (rule component_bit_of_summand) (rule assms)+

theorem component_bits_are_positions_witness:
  "1 < length (ComponentBitsFor (BuildComponentTable two_settings) 0 1) \<and>
    ComponentBitsFor (BuildComponentTable two_settings) 0 1 ! 1 = granted 2"
  by (rule component_bits_are_positions) (simp_all add: small_scene_def scene_summands_def CountSummands_def)

text \<open>Once the gate table is built, building the color classes fails only on a combine word it does not know; each
  class then holds exactly the bits its references resolve to, in configuration order.\<close>

theorem color_classes_follow_config:
  assumes "BuildColorGateTable fl classes scene = Inr gate"
    and "\<And>cc ref. cc \<in> set classes \<Longrightarrow> ref \<in> set (cc_match cc) \<Longrightarrow> self_equal fl ref"
    and "\<And>cc. cc \<in> set classes \<Longrightarrow> combine_known cc"
  shows "\<exists>table. BuildColorClassTable fl classes gate = Inr table \<and>
      list_all2 (class_matches fl gate) classes (ct_classes table) \<and>
      map cl_z_order (ct_classes table) = map int [0..<length classes] \<and>
      ct_referenced_mask table = foldl (\<lambda>m c. m OR cl_member_bits c) 0 (ct_classes table)"
  by (rule BuildColorClassTable_total [OF assms(1)]) (use assms in blast)+

abbreviation two_class_gate :: "rat ColorGateTable" where
  "two_class_gate \<equiv> projr (BuildColorGateTable rat_ops two_classes two_settings)"

lemma two_class_gate_built: "BuildColorGateTable rat_ops two_classes two_settings = Inr two_class_gate"
  by code_simp

theorem color_classes_follow_config_witness:
  "\<exists>table. BuildColorClassTable rat_ops two_classes two_class_gate = Inr table \<and>
      list_all2 (class_matches rat_ops two_class_gate) two_classes (ct_classes table) \<and>
      map cl_z_order (ct_classes table) = map int [0..<length two_classes] \<and>
      ct_referenced_mask table = foldl (\<lambda>m c. m OR cl_member_bits c) 0 (ct_classes table)"
  by (rule color_classes_follow_config [OF two_class_gate_built])
    (auto simp: self_equal_def combine_known_def)

text \<open>C12: from the color configuration to a ray's component mask: when the raypath predicates of the gate table have at
  most 15 faces (what the inline recorder holds), then on a readable recorder of legal faces bit \<open>b\<close> of the 64 is set
  exactly when a gate entry of that bit, placed on the ray's layer and crystal, has a predicate that holds on the
  ray's path.\<close>

theorem color_mask_is_matching_entries:
  assumes "BuildColorGateTable fl classes scene = Inr table"
    and "list_all (\<lambda>e. wf_predicate (cg_predicate e)) (gt_entries table)"
    and "legal_path (hits_of ar rec)" and "readable ar rec" and "b < 64"
  shows "bit (produced_components fl (BuildColorSpecGroups fl (ColorGatePlacementFor table layer c) 6 geom ax) ray rec ar) b
    \<longleftrightarrow> (\<exists>e\<in>set (gt_entries table). cg_layer e = layer \<and> cg_crystal_id e = c \<and> cg_bit e = b \<and>
          predicate_holds fl (cg_symmetry e) ax (cg_predicate e) ray (hits_of ar rec))"
  by (rule gate_components) (rule assms)+

theorem color_mask_is_matching_entries_witness:
  "bit (produced_components rat_ops (BuildColorSpecGroups rat_ops (ColorGatePlacementFor two_class_gate 0 8) 6
        kFullHexagonalSymmetry some_axis) some_ray path_3_5 None) 0
    \<longleftrightarrow> (\<exists>e\<in>set (gt_entries two_class_gate). cg_layer e = 0 \<and> cg_crystal_id e = 8 \<and> cg_bit e = 0 \<and>
          predicate_holds rat_ops (cg_symmetry e) some_axis (cg_predicate e) some_ray (hits_of None path_3_5))"
proof (rule color_mask_is_matching_entries [OF two_class_gate_built])
  show "list_all (\<lambda>e. wf_predicate (cg_predicate e)) (gt_entries two_class_gate)" by code_simp
qed (simp_all add: hits_of_def readable_def hit_bytes_def HasOverflow_def raypath_consts IsLegalFace_def)

section \<open>Raypath and row texts\<close>

text \<open>A raypath text is accepted exactly when it is empty or all its tokens between dashes are face numbers of the
  crystal; a face list exactly when it is empty or all its tokens between commas are, by the core and by the editor's
  own copy of the check alike.\<close>

theorem texts_accepted_iff:
  "(rv_state (ValidateRaypathText_kind str kind) = kValid \<longleftrightarrow>
      str = [] \<or> list_all (legal_token kind) (split_on (CHR ''-'') str)) \<and>
    (rv_state (ValidateFaceNumberListText str kind) = kValid \<longleftrightarrow>
      str = [] \<or> list_all (legal_token kind) (split_on (CHR '','') str)) \<and>
    rv_state (GuiValidateFaceNumberListText str kind) = rv_state (ValidateFaceNumberListText str kind)"
  by (intro conjI ValidateRaypathText_kind_valid_iff ValidateFaceNumberListText_valid_iff GuiValidateFaceNumberListText_state)

text \<open>The printed form of a raypath of legal faces is accepted and reads back as that raypath.\<close>

theorem printed_path_reads_back:
  assumes "fs \<noteq> []" and "list_all (\<lambda>f. IsLegalFace kind (int f)) fs"
  shows "rv_state (ValidateRaypathTextMultiSegment (join_with ''-'' (map to_string fs)) kind) = kValid \<and>
    ParseRaypathTextMultiSegment (join_with ''-'' (map to_string fs)) = [fs]"
  by (rule printed_segment) (rule assms)+

theorem printed_path_reads_back_witness:
  "rv_state (ValidateRaypathTextMultiSegment (join_with ''-'' (map to_string [3, 1, 15])) kPyramid) = kValid \<and>
    ParseRaypathTextMultiSegment (join_with ''-'' (map to_string [3, 1, 15])) = [[3, 1, 15]]"
  by (rule printed_path_reads_back) (simp_all add: IsLegalFace_def)

text \<open>C18: what the validator accepts of a non-empty text without NUL characters the parser keeps: every segment of the
  accepted text becomes the path it spells, and only faces of the crystal appear.\<close>

theorem accepted_path_is_kept:
  assumes "no_nul str" and "str \<noteq> []" and "rv_state (ValidateRaypathTextMultiSegment str kind) = kValid"
  shows "ParseRaypathTextMultiSegment str = map segment_faces (map TrimRaypathSegment (split_on (CHR '';'') str))
    \<and> list_all (list_all (\<lambda>f. IsLegalFace kind (int f))) (ParseRaypathTextMultiSegment str)"
  by (rule validated_path_is_kept) (rule assms)+

theorem accepted_path_is_kept_witness:
  "ParseRaypathTextMultiSegment ''3-5; 1'' = map segment_faces (map TrimRaypathSegment (split_on (CHR '';'') ''3-5; 1''))
    \<and> list_all (list_all (\<lambda>f. IsLegalFace kPrism (int f))) (ParseRaypathTextMultiSegment ''3-5; 1'')"
  by (rule accepted_path_is_kept) code_simp+

text \<open>C21: a printed row parses back to its factors, whenever each factor has a text of its own (trimmed, not empty,
  without an ampersand, with the length bounds in the form its mode stores) and no two entry/exit factors are adjacent,
  which the parser would merge.\<close>

theorem row_text_roundtrip:
  assumes "printable_row fs"
  shows "ParseSummandText (FormatSummandText fs) = fs"
  by (rule row_roundtrip) (rule assms)

abbreviation some_row :: "Factor list" where
  "some_row \<equiv> [RaypathFactor \<lparr> rp_raypath_text = ''3-5; 1'' \<rparr>,
     EntryExitFactor \<lparr> ep_entry_text = ''3,4'', ep_exit_text = ''1'', ep_length_mode = 3, ep_min_len = 2, ep_max_len = 6 \<rparr>]"

theorem row_text_roundtrip_witness: "ParseSummandText (FormatSummandText some_row) = some_row"
  by (rule row_text_roundtrip) code_simp

text \<open>Every factor of an accepted row is itself acceptable, and the face numbers it contributes are faces of the
  crystal.\<close>

theorem accepted_row_names_legal_faces:
  assumes "no_nul str" and "rv_state (ValidateSummandText str kind) = kValid"
  shows "list_all (\<lambda>f. factor_valid kind f \<and> list_all (IsLegalFace kind) (FactorFaceNumbers f)) (ParseSummandText str)"
  using validated_row_factors [OF assms(2)] validated_row_faces [OF assms] by (simp add: list_all_iff)

theorem accepted_row_names_legal_faces_witness:
  "list_all (\<lambda>f. factor_valid kPrism f \<and> list_all (IsLegalFace kPrism) (FactorFaceNumbers f))
    (ParseSummandText ''3-5 & entry:3,4 & exit:1 & len:<=6'')"
  by (rule accepted_row_names_legal_faces) code_simp+

text \<open>Migrating a row of the older text removes every comma used as a dash, and a second migration changes
  nothing.\<close>

theorem migration_is_final:
  "\<not> has_comma_path (MigrateLegacyRaypathCommaConnector row) \<and>
    MigrateLegacyRaypathCommaConnector (MigrateLegacyRaypathCommaConnector row) = MigrateLegacyRaypathCommaConnector row"
  by (intro conjI Migrate_clean Migrate_noop)

text \<open>C20: expanding the rows of a filter overflows exactly when a row has too many factors or the clauses would pass the
  ceiling; otherwise the clauses say what the rows say, under any meaning of the terms.\<close>

theorem expansion_decides_rows:
  "(ef_overflow (ExpandSopToClauses param) \<longleftrightarrow> \<not> (terms_fit param \<and> expansion_size param \<le> LUMICE_MAX_CONFIG_CLAUSES)) \<and>
    (ef_overflow (ExpandSopToClauses param) \<or>
      (\<forall>v. clauses_hold v (ef_clauses (ExpandSopToClauses param)) \<longleftrightarrow> rows_hold v param))"
  using ExpandSopToClauses_spec [of param] expansion_holds by metis

section \<open>Chains of raypaths\<close>

text \<open>C17: a table reached by any sequence of operations never holds more than its capacity, every id it gave out leads
  to the root, and different ids stand for different chains.\<close>

theorem tables_name_chains_once:
  assumes "reachable_table t"
  shows "Size t \<le> cit_capacity t \<and> names_chains_once t"
  by (rule reachable_chains) (rule assms)

definition small_table0 :: ChainIdInterningTable where
  "small_table0 = snd (Intern 0 7 [3, 5] (ChainIdInterningTable_new 2))"

definition small_table :: ChainIdInterningTable where
  "small_table = snd (Intern 1 8 [1] small_table0)"

lemma small_table_eq:
  "small_table0 = \<lparr> cit_entries = [placeholder, \<lparr> ent_id = 1, parent_id = 0, ent_crystal_id = 7, segment = [3, 5] \<rparr>],
     cit_index = (\<lambda>_. None)((0, 7, [3, 5]) \<mapsto> 1), cit_flush_cursor = 1, cit_capacity = 2, cit_overflow_since_flush = 0,
     cit_rebuild_count = 0 \<rparr>"
  "small_table = small_table0\<lparr> cit_entries := cit_entries small_table0 @
       [\<lparr> ent_id = 2, parent_id = 1, ent_crystal_id = 8, segment = [1] \<rparr>],
     cit_index := (cit_index small_table0)((1, 8, [1]) \<mapsto> 2) \<rparr>"
  by (simp_all add: small_table_def small_table0_def Intern_def ChainIdInterningTable_new_def Size_def chain_consts Let_def
      flip: numeral_2_eq_2)

lemma small_table_size: "Size small_table = 2" "Size small_table0 = 1"
  unfolding small_table_eq by (simp_all add: Size_def)

lemma small_table_reachable: "reachable_table small_table"
proof -
  have "reachable_table (ChainIdInterningTable_new 2)" by (rule reachable_table.new) (simp add: chain_consts)
  then have "reachable_table small_table0"
    unfolding small_table0_def by (rule reachable_table.intern [OF _ _ prod.collapse [symmetric]]) simp
  then show ?thesis
    unfolding small_table_def
    by (rule reachable_table.intern [OF _ _ prod.collapse [symmetric]]) (simp only: small_table_size, simp)
qed

theorem tables_name_chains_once_witness: "Size small_table \<le> cit_capacity small_table \<and> names_chains_once small_table"
  by (rule tables_name_chains_once) (rule small_table_reachable)

text \<open>C28: interning a segment under a chain gives the id of the extended chain and leaves every other chain alone, or,
  when the table is full and has no such chain, gives the sentinel, counts it and changes no entry.\<close>

theorem intern_extends_chain:
  assumes "reachable_table t" and "p \<le> Size t" and "Intern p c sg t = (i, t')"
  shows "i \<le> Size t' \<and> chain_of t' i = chain_of t p @ [(c, sg)] \<and> Size t' \<le> Suc (Size t) \<and>
      (\<forall>j\<in>{0..Size t}. chain_of t' j = chain_of t j) \<or>
    i = kOverflowChainId \<and> Size t = cit_capacity t \<and> cit_entries t' = cit_entries t \<and>
      cit_overflow_since_flush t' = cit_overflow_since_flush t + 1 \<and>
      (\<forall>j\<in>{0..Size t}. chain_of t j \<noteq> chain_of t p @ [(c, sg)])"
  by (rule reachable_intern) (rule assms)+

theorem intern_extends_chain_witness:
  "\<exists>i t'. Intern 1 9 [2] small_table = (i, t') \<and>
    (i \<le> Size t' \<and> chain_of t' i = chain_of small_table 1 @ [(9, [2])] \<and> Size t' \<le> Suc (Size small_table) \<and>
      (\<forall>j\<in>{0..Size small_table}. chain_of t' j = chain_of small_table j) \<or>
    i = kOverflowChainId \<and> Size small_table = cit_capacity small_table \<and> cit_entries t' = cit_entries small_table \<and>
      cit_overflow_since_flush t' = cit_overflow_since_flush small_table + 1 \<and>
      (\<forall>j\<in>{0..Size small_table}. chain_of small_table j \<noteq> chain_of small_table 1 @ [(9, [2])]))"
proof (intro exI conjI)
  have "1 \<le> Size small_table" unfolding small_table_size by simp
  from intern_extends_chain [OF small_table_reachable this prod.collapse [symmetric]]
  show "fst (Intern 1 9 [2] small_table) \<le> Size (snd (Intern 1 9 [2] small_table)) \<and>
      chain_of (snd (Intern 1 9 [2] small_table)) (fst (Intern 1 9 [2] small_table)) = chain_of small_table 1 @ [(9, [2])] \<and>
      Size (snd (Intern 1 9 [2] small_table)) \<le> Suc (Size small_table) \<and>
      (\<forall>j\<in>{0..Size small_table}. chain_of (snd (Intern 1 9 [2] small_table)) j = chain_of small_table j) \<or>
    fst (Intern 1 9 [2] small_table) = kOverflowChainId \<and> Size small_table = cit_capacity small_table \<and>
      cit_entries (snd (Intern 1 9 [2] small_table)) = cit_entries small_table \<and>
      cit_overflow_since_flush (snd (Intern 1 9 [2] small_table)) = cit_overflow_since_flush small_table + 1 \<and>
      (\<forall>j\<in>{0..Size small_table}. chain_of small_table j \<noteq> chain_of small_table 1 @ [(9, [2])])" .
qed simp

text \<open>C29: however a worker interleaves interning and flushing, its deltas one after the other and the next delta are
  its table's entries in order, each exactly once.\<close>

theorem deltas_deliver_every_entry:
  assumes "fold run_op ops ([], ChainIdInterningTable_new c) = (out, t)"
  shows "out @ fst (FlushDelta t) = tl (cit_entries t)"
  by (rule session_delivers) (rule assms)

abbreviation some_table_ops :: "table_op list" where
  "some_table_ops \<equiv> [Interns 0 7 [3, 5], Flush, Interns 1 8 [1], Interns 0 7 [3, 5], Flush, Flush, Interns 2 7 [4]]"

theorem deltas_deliver_every_entry_witness:
  "fst (fold run_op some_table_ops ([], ChainIdInterningTable_new 5)) @
      fst (FlushDelta (snd (fold run_op some_table_ops ([], ChainIdInterningTable_new 5)))) =
    tl (cit_entries (snd (fold run_op some_table_ops ([], ChainIdInterningTable_new 5))))"
  by (rule deltas_deliver_every_entry) (rule prod.collapse [symmetric])

text \<open>C11: after any interleaving of the workers' deltas two local ids resolve to one merged id exactly when they stand
  for the same chain.\<close>

theorem merged_ids_decide_chains:
  assumes "merging L N m" and "\<And>k. table_ok (L k)" and "i \<le> N k" and "j \<le> N q"
  shows "Resolve k i m = Resolve q j m \<longleftrightarrow> chain_of (L k) i = chain_of (L q) j"
  by (rule merging_Resolve_iff) (rule assms)+

abbreviation two_workers :: "nat \<Rightarrow> ChainIdInterningTable" where
  "two_workers \<equiv> (\<lambda>_. small_table)"

definition one_absorbed :: ChainIdMerger where
  "one_absorbed = snd (Absorb 3 (delta_of (two_workers 3) 0 2) ChainIdMerger_new)"

definition both_absorbed :: ChainIdMerger where
  "both_absorbed = snd (Absorb 4 (delta_of (two_workers 4) 0 1) one_absorbed)"

lemma absorbed_sizes: "Size (cm_table ChainIdMerger_new) = 0" "Size (cm_table one_absorbed) \<le> 2"
proof -
  have new: "merger_ok two_workers (\<lambda>_. 0) ChainIdMerger_new"
    by (rule merger_new_ok) (use reachable_table_ok [OF small_table_reachable] in simp)
  show size0: "Size (cm_table ChainIdMerger_new) = 0"
    by (simp add: ChainIdMerger_new_def ChainIdInterningTable_new_def Size_def)
  have "Absorb 3 (delta_of (two_workers 3) ((\<lambda>_. 0) 3) 2) ChainIdMerger_new =
      (fst (Absorb 3 (delta_of (two_workers 3) 0 2) ChainIdMerger_new), one_absorbed)"
    by (simp only: one_absorbed_def prod.collapse)
  from Absorb_spec [OF new _ _ _ this] show "Size (cm_table one_absorbed) \<le> 2"
    by (simp add: small_table_size size0 chain_consts)
qed

theorem merged_ids_decide_chains_witness:
  "Resolve 3 1 both_absorbed = Resolve 4 1 both_absorbed \<longleftrightarrow> chain_of (two_workers 3) 1 = chain_of (two_workers 4) 1"
proof (rule merged_ids_decide_chains)
  show "table_ok (two_workers k)" for k using reachable_table_ok [OF small_table_reachable] by simp
  have "Absorb 3 (delta_of (two_workers 3) ((\<lambda>_. 0) 3) 2) ChainIdMerger_new =
      (fst (Absorb 3 (delta_of (two_workers 3) 0 2) ChainIdMerger_new), one_absorbed)"
    by (simp only: one_absorbed_def prod.collapse)
  from merging.absorb [OF merging.start _ _ _ this]
  have one: "merging two_workers ((\<lambda>_. 0)(3 := 2)) one_absorbed"
    by (simp add: small_table_size absorbed_sizes chain_consts)
  have "Absorb 4 (delta_of (two_workers 4) (((\<lambda>_. 0)(3 := 2)) (4 :: nat)) 1) one_absorbed =
      (fst (Absorb 4 (delta_of (two_workers 4) 0 1) one_absorbed), both_absorbed)"
    by (simp add: both_absorbed_def)
  note absorb = merging.absorb [OF one _ _ _ this]
  show "merging two_workers ((\<lambda>_. 0)(3 := 2, 4 := 1)) both_absorbed"
    by (rule absorb) (use absorbed_sizes(2) in \<open>simp_all add: small_table_size chain_consts\<close>)
qed simp_all

section \<open>Crystal ensembles\<close>

text \<open>C27: canonicalizing a sync-group vector decides what it means: two vectors have the same canonical form exactly
  when they link the same slots, the canonical form is its own, and copying the leaders' distributions afterwards is
  what copying them before would have been.\<close>

theorem sync_groups_canonical:
  assumes "length g = kShapeScalarCount" and "length g' = kShapeScalarCount" and "length slots = kShapeScalarCount"
  shows "(CanonicalizeSyncGroupsImpl g slots = CanonicalizeSyncGroupsImpl g' slots \<longleftrightarrow> same_partition slots g g') \<and>
    CanonicalizeSyncGroupsImpl (CanonicalizeSyncGroupsImpl g slots) slots = CanonicalizeSyncGroupsImpl g slots \<and>
    NormalizeSyncGroupsImpl (CanonicalizeSyncGroupsImpl g slots) slots = NormalizeSyncGroupsImpl g slots"
  using Canonicalize_eq_iff [OF assms] Canonicalize_idem [OF assms(1,3)] Normalize_Canonicalize [OF assms(1,3)]
  by (simp add: same_partition_def)

abbreviation some_slots :: "rat slots" where
  "some_slots \<equiv> map (\<lambda>i. if i \<in> {1, 2, 3} then None
     else Some \<lparr> dist_type = kGaussian, dist_center = of_nat i, dist_spread = 1 \<rparr>) [0..<10]"

theorem sync_groups_canonical_witness:
  "(CanonicalizeSyncGroupsImpl [7, 7, 0, 0, 7, 3, 3, 0, 0, 9] some_slots =
      CanonicalizeSyncGroupsImpl [2, 0, 0, 0, 2, 5, 5, 4, 0, 0] some_slots \<longleftrightarrow>
      same_partition some_slots [7, 7, 0, 0, 7, 3, 3, 0, 0, 9] [2, 0, 0, 0, 2, 5, 5, 4, 0, 0]) \<and>
    CanonicalizeSyncGroupsImpl (CanonicalizeSyncGroupsImpl [7, 7, 0, 0, 7, 3, 3, 0, 0, 9] some_slots) some_slots =
      CanonicalizeSyncGroupsImpl [7, 7, 0, 0, 7, 3, 3, 0, 0, 9] some_slots \<and>
    NormalizeSyncGroupsImpl (CanonicalizeSyncGroupsImpl [7, 7, 0, 0, 7, 3, 3, 0, 0, 9] some_slots) some_slots =
      NormalizeSyncGroupsImpl [7, 7, 0, 0, 7, 3, 3, 0, 0, 9] some_slots"
  by (rule sync_groups_canonical) (simp_all add: kShapeScalarCount_def)

text \<open>C19: the symmetry derived for a crystal ensemble is the one its configuration has: a rotation is a multiple of
  the step, and a mirror is admitted, exactly when moving the values of the slots that way leaves the joint law of the
  shape scalars unchanged (each value goes to a slot of the same type, center and spread, and two random slots share
  a sync group exactly when the slots they go to do); the basal mirror of a pyramid applies exactly when swapping
  the cone heights leaves the law unchanged and the wedges are equal or both cones certainly flat.  It holds for
  configurations whose scalars are equal or further apart than the tolerance of the comparison.\<close>

theorem shape_symmetry_exact:
  assumes "told_apart fl db (shape_scalars (GetShapeScalarSlots_prism p))"
    and "told_apart fl db (py_wedge_angle_u q # py_wedge_angle_l q # shape_scalars (GetShapeScalarSlots_pyramid q))"
  shows "face_symmetry_of (GetShapeScalarSlots_prism p) (pr_sync_group p) (DeriveGeometricSymmetry_prism fl db p) \<and>
    gs_b_applicable (DeriveGeometricSymmetry_prism fl db p) \<and>
    face_symmetry_of (GetShapeScalarSlots_pyramid q) (py_sync_group q) (DeriveGeometricSymmetry_pyramid fl db q) \<and>
    (gs_b_applicable (DeriveGeometricSymmetry_pyramid fl db q) \<longleftrightarrow>
      keeps_joint_law (GetShapeScalarSlots_pyramid q) (py_sync_group q) cone_swap \<and>
      (py_wedge_angle_u q = py_wedge_angle_l q \<or>
       no_cone fl db (law_of (GetShapeScalarSlots_pyramid q) (py_sync_group q) kShapeScalarUpperH) \<and>
       no_cone fl db (law_of (GetShapeScalarSlots_pyramid q) (py_sync_group q) kShapeScalarLowerH)))"
  by (intro conjI derived_symmetry_prism derived_symmetry_pyramid assms)

abbreviation rat_double_ops :: "(rat, rat) double_ops" where
  "rat_double_ops \<equiv> \<lparr> db_of_float = (\<lambda>x. x), db_abs = abs, db_sub = (-), db_mul = (*), db_max = max, db_le = (\<le>),
     db_gap_coefficient = 1, db_fle = (\<le>) \<rparr>"

abbreviation normal_scalar :: "rat Distribution" where
  "normal_scalar \<equiv> \<lparr> dist_type = kGaussian, dist_center = 1, dist_spread = 1 / 10 \<rparr>"

text \<open>Faces 0 and 3 of the prism share one draw; the pyramid's cone heights do, and one of its faces has its own law.\<close>

abbreviation tied_prism :: "rat PrismCrystalParam" where
  "tied_prism \<equiv> \<lparr> pr_h = normal_scalar, pr_d = replicate 6 normal_scalar, pr_sync_group = [0, 0, 0, 0, 1, 0, 0, 1, 0, 0] \<rparr>"

abbreviation tied_pyramid :: "rat PyramidCrystalParam" where
  "tied_pyramid \<equiv> \<lparr> py_h_prs = normal_scalar, py_h_pyr_u = normal_scalar, py_h_pyr_l = normal_scalar,
     py_d = normal_scalar\<lparr>dist_spread := 1 / 5\<rparr> # replicate 5 normal_scalar, py_sync_group = [0, 1, 0, 1, 0, 0, 0, 0, 0, 0],
     py_wedge_angle_u = 28, py_wedge_angle_l = 28 \<rparr>"

theorem shape_symmetry_exact_witness:
  "face_symmetry_of (GetShapeScalarSlots_prism tied_prism) (pr_sync_group tied_prism)
      (DeriveGeometricSymmetry_prism rat_ops rat_double_ops tied_prism) \<and>
    gs_p_step (DeriveGeometricSymmetry_prism rat_ops rat_double_ops tied_prism) = 3 \<and>
    keeps_joint_law (GetShapeScalarSlots_prism tied_prism) (pr_sync_group tied_prism) (rot_slot 3) \<and>
    \<not> keeps_joint_law (GetShapeScalarSlots_prism tied_prism) (pr_sync_group tied_prism) (rot_slot 1) \<and>
    gs_b_applicable (DeriveGeometricSymmetry_pyramid rat_ops rat_double_ops tied_pyramid) \<and>
    keeps_joint_law (GetShapeScalarSlots_pyramid tied_pyramid) (py_sync_group tied_pyramid) cone_swap \<and>
    gs_p_step (DeriveGeometricSymmetry_pyramid rat_ops rat_double_ops tied_pyramid) = 6"
proof -
  have "told_apart rat_ops rat_double_ops (shape_scalars (GetShapeScalarSlots_prism tied_prism))"
    "told_apart rat_ops rat_double_ops (py_wedge_angle_u tied_pyramid # py_wedge_angle_l tied_pyramid #
      shape_scalars (GetShapeScalarSlots_pyramid tied_pyramid))"
    by code_simp+
  note exact = shape_symmetry_exact [OF this]
  have step: "gs_p_step (DeriveGeometricSymmetry_prism rat_ops rat_double_ops tied_prism) = 3"
    "gs_p_step (DeriveGeometricSymmetry_pyramid rat_ops rat_double_ops tied_pyramid) = 6"
    "gs_b_applicable (DeriveGeometricSymmetry_pyramid rat_ops rat_double_ops tied_pyramid)"
    by code_simp+
  have "keeps_joint_law (GetShapeScalarSlots_prism tied_prism) (pr_sync_group tied_prism) (rot_slot k) \<longleftrightarrow> 3 dvd int k"
    if "k < 6" for k
    using exact that unfolding face_symmetry_of_def step(1) by blast
  from this [of 3] this [of 1] show ?thesis using exact step by simp
qed

section \<open>The raypath histogram\<close>

text \<open>C2: in every session of batches and resets the record is a faithful Space-Saving summary: a chain's true light is
  between its row's energy less its error and that energy, no row is over by more than the k-th part of the whole,
  and a chain with more than that part has a row.\<close>

theorem histogram_guarantee:
  assumes "session fn s adds n" and "nonneg_light fn"
  shows "guaranteed (rh_capacity s) (rows_of s) (chain_adds adds)"
  using session_recorded [OF assms] by (simp add: recorded_def faithful_guaranteed)

abbreviation some_light :: "(rat, rat) roi_functions" where
  "some_light \<equiv> \<lparr> InFrame = (\<lambda>x y z. 0 \<le> z), ConeMembership = (\<lambda>x y z. None), SpectrumToYSingle = (\<lambda>wl w. \<bar>w\<bar>) \<rparr>"

abbreviation some_batch :: "rat OutgoingRays" where
  "some_batch \<equiv> \<lparr> sb_producer_effective_seed = 5,
     sb_chain_id_table_delta = [\<lparr> ent_id = 1, parent_id = 0, ent_crystal_id = 7, segment = [3, 5] \<rparr>,
       \<lparr> ent_id = 2, parent_id = 0, ent_crystal_id = 7, segment = [4] \<rparr>],
     sb_chain_id_overflow_count = 1, sb_outgoing_chain_id = [1, 2, kOverflowChainId, 2],
     sb_outgoing_d = replicate 12 0, sb_outgoing_w = [1, 2, 1, 3], sb_outgoing_wl = [], sb_curr_wl = 550 \<rparr>"

definition one_row :: "rat RaypathHistogramConsumer" where
  "one_row = the (Consume some_light some_batch (RaypathHistogramConsumer_new kFullSky 0 1))"

definition one_row_adds :: "(nat \<times> rat) list" where
  "one_row_adds = batch_adds some_light some_batch (RaypathHistogramConsumer_new kFullSky 0 1)"

lemma one_row_session: "session some_light one_row one_row_adds 2"
  using session_batch [OF session.start [of some_light kFullSky 0 1], of some_batch]
  unfolding one_row_def one_row_adds_def by (simp add: numeral_2_eq_2)

theorem histogram_guarantee_witness: "guaranteed (rh_capacity one_row) (rows_of one_row) (chain_adds one_row_adds)"
  by (rule histogram_guarantee [OF one_row_session]) simp

text \<open>C22: a batch always returns in a reachable state: the loop that refreshes stale heap items ends, and no lookup of a
  row fails.\<close>

theorem consume_returns:
  assumes "session fn s adds n" and "nonneg_light fn"
  shows "Consume fn data s \<noteq> None \<and> session fn (the (Consume fn data s)) (adds @ batch_adds fn data s)
    (n + length (sb_chain_id_table_delta data))"
  using Consume_recorded [OF session_recorded [OF assms] assms(2), of data] session_batch [OF assms, of data] by auto

theorem consume_returns_witness:
  "Consume some_light some_batch one_row \<noteq> None \<and>
    session some_light (the (Consume some_light some_batch one_row)) (one_row_adds @ batch_adds some_light some_batch one_row)
      (2 + length (sb_chain_id_table_delta some_batch))"
  by (rule consume_returns [OF one_row_session]) simp

text \<open>C14: in every reachable state a snapshot is there, sorted, with one row per chain; its rows and the other bucket
  hold all the light that was counted, and its error bound is within the k-th part of the chains' light.\<close>

theorem snapshot_conserves_light:
  assumes "session fn s adds n" and "nonneg_light fn" and "n < kOverflowChainId"
  shows "\<exists>entries m. PrepareSnapshot s = Some (entries, m) \<and> rows_sorted entries \<and> distinct (map he_chain entries) \<and>
    length entries \<le> rh_capacity s \<and> sum_list (map he_energy entries) + en_energy (rh_other s) = total_weight adds \<and>
    of_nat (rh_capacity s) * m \<le> total_weight (chain_adds adds) \<and> (\<forall>e\<in>set entries. he_error_bound e \<le> m)"
  by (rule session_snapshot) (rule assms)+

theorem snapshot_conserves_light_witness:
  "\<exists>entries m. PrepareSnapshot one_row = Some (entries, m) \<and> rows_sorted entries \<and> distinct (map he_chain entries) \<and>
    length entries \<le> rh_capacity one_row \<and>
    sum_list (map he_energy entries) + en_energy (rh_other one_row) = total_weight one_row_adds \<and>
    of_nat (rh_capacity one_row) * m \<le> total_weight (chain_adds one_row_adds) \<and> (\<forall>e\<in>set entries. he_error_bound e \<le> m)"
  by (rule snapshot_conserves_light [OF one_row_session]) (simp_all add: chain_consts)

text \<open>C15: reducing a recorded result under a choice of symmetries gives one row per reduced chain, with the sums of
  energy, count, error and rings of the recorded rows that reduce to it and its display text, sorted; nothing is lost
  and no row is added.\<close>

theorem reduced_rows_are_sums:
  assumes "layer_count (hr_entries finest) < kOverflowChainId"
  shows "\<exists>r. ReduceRaypathHistogram finest sy = Some r \<and>
    list_all (row_ok (hr_reduce_ctx finest) sy (hr_entries finest)) (hr_entries r) \<and>
    distinct (map he_chain (hr_entries r)) \<and>
    he_chain ` set (hr_entries r) = reduced_of (hr_reduce_ctx finest) sy ` set (hr_entries finest) \<and>
    rows_sorted (hr_entries r) \<and> length (hr_entries r) \<le> length (hr_entries finest) \<and>
    sum_list (map he_energy (hr_entries r)) = sum_list (map he_energy (hr_entries finest)) \<and>
    sum_list (map he_count (hr_entries r)) = sum_list (map he_count (hr_entries finest)) \<and>
    hr_other_energy r = hr_other_energy finest \<and> hr_truncated_chain_count r = hr_truncated_chain_count finest"
proof -
  obtain r where r: "ReduceRaypathHistogram finest sy = Some r"
    and spec: "list_all (row_ok (hr_reduce_ctx finest) sy (hr_entries finest)) (hr_entries r) \<and>
      distinct (map he_chain (hr_entries r)) \<and>
      he_chain ` set (hr_entries r) = reduced_of (hr_reduce_ctx finest) sy ` set (hr_entries finest) \<and>
      rows_sorted (hr_entries r) \<and> length (hr_entries r) \<le> length (hr_entries finest)"
    and rest: "r\<lparr> hr_entries := hr_entries finest, hr_max_row_error := hr_max_row_error finest \<rparr> = finest"
    using Reduce_spec [OF assms, of sy] by blast
  have "hr_other_energy r = hr_other_energy finest" "hr_truncated_chain_count r = hr_truncated_chain_count finest"
    using arg_cong [OF rest, of hr_other_energy] arg_cong [OF rest, of hr_truncated_chain_count] by simp_all
  with r spec Reduce_conserves [OF assms r] show ?thesis by blast
qed

abbreviation seg_of :: "nat \<Rightarrow> nat list \<Rightarrow> RaypathChainSegment" where
  "seg_of c fs \<equiv> \<lparr> rcs_crystal_id = c, rcs_segment = fs \<rparr>"

abbreviation some_entry :: "RaypathChainSegment list \<Rightarrow> rat \<Rightarrow> rat RaypathHistogramEntry" where
  "some_entry chain e \<equiv> \<lparr> he_chain = chain, he_display = '''', he_energy = e, he_count = 2, he_ring_energy = [e],
     he_error_bound = 0 \<rparr>"

abbreviation some_context :: RaypathReduceContext where
  "some_context \<equiv> \<lparr> crystal_params = [7 \<mapsto> \<lparr> rp_sigma_a = 2, rp_d_applicable = True, rp_p_retained = PRotationSet_Full,
     rp_b_applicable = True, rp_geom = kFullHexagonalSymmetry \<rparr>], layer_multi_crystal = [True] \<rparr>"

abbreviation some_result :: "(rat, rat) RaypathHistogramResult" where
  "some_result \<equiv> \<lparr> hr_entries = [some_entry [seg_of 7 [3, 5]] 4, some_entry [seg_of 7 [4, 6]] 2, some_entry [seg_of 8 [3, 5]] 1],
     hr_other_energy = 1, hr_other_count = 1, hr_truncated_chain_count = 0, hr_max_row_error = 0, hr_roi_mode = kFullSky,
     hr_cone_ring_count = 0, hr_cone_radius_rad = 0, hr_reduce_ctx = some_context \<rparr>"

lemma some_result_fits: "layer_count (hr_entries some_result) < kOverflowChainId"
  by (simp add: layer_count_def chain_consts)

theorem reduced_rows_are_sums_witness:
  "\<exists>r. ReduceRaypathHistogram some_result 7 = Some r \<and>
    list_all (row_ok (hr_reduce_ctx some_result) 7 (hr_entries some_result)) (hr_entries r) \<and>
    distinct (map he_chain (hr_entries r)) \<and>
    he_chain ` set (hr_entries r) = reduced_of (hr_reduce_ctx some_result) 7 ` set (hr_entries some_result) \<and>
    rows_sorted (hr_entries r) \<and> length (hr_entries r) \<le> length (hr_entries some_result) \<and>
    sum_list (map he_energy (hr_entries r)) = sum_list (map he_energy (hr_entries some_result)) \<and>
    sum_list (map he_count (hr_entries r)) = sum_list (map he_count (hr_entries some_result)) \<and>
    hr_other_energy r = hr_other_energy some_result \<and> hr_truncated_chain_count r = hr_truncated_chain_count some_result"
  by (rule reduced_rows_are_sums [OF some_result_fits])

text \<open>C6: two recorded chains of legal faces meet on one row exactly when they are symmetric layer by layer: the same
  crystal, and one path in the other's expansion under that crystal's derived symmetry.\<close>

theorem rows_merge_iff_symmetric:
  assumes "ctx = BuildRaypathReduceContext fl db ms" and "legal_chain a" and "legal_chain b"
  shows "reduce_chain ctx sy a = reduce_chain ctx sy b \<longleftrightarrow> list_all2 (layer_equiv ctx sy) a b"
  unfolding assms(1) by (rule reduce_chain_eq_iff [OF Build_context_ok]) (rule assms)+

abbreviation some_prism :: "rat CrystalSetting" where
  "some_prism \<equiv> \<lparr> cs_id = 7, cs_axis = some_axis, cs_param = PrismParam
     \<lparr> pr_h = \<lparr> dist_type = kNoRandom, dist_center = 1, dist_spread = 0 \<rparr>,
       pr_d = replicate 6 \<lparr> dist_type = kGaussian, dist_center = 1, dist_spread = 1 \<rparr>, pr_sync_group = replicate 10 0 \<rparr> \<rparr>"

theorem rows_merge_iff_symmetric_witness:
  "reduce_chain (BuildRaypathReduceContext rat_ops rat_double_ops [[some_prism]]) 1 [seg_of 7 [3, 5]] =
      reduce_chain (BuildRaypathReduceContext rat_ops rat_double_ops [[some_prism]]) 1 [seg_of 7 [4, 6]] \<longleftrightarrow>
    list_all2 (layer_equiv (BuildRaypathReduceContext rat_ops rat_double_ops [[some_prism]]) 1) [seg_of 7 [3, 5]] [seg_of 7 [4, 6]]"
  by (rule rows_merge_iff_symmetric [OF refl]) (simp_all add: IsLegalFace_def)

section \<open>Reading one frame from many threads\<close>

text \<open>C16: in every interleaving of readers of one frame each reader that has returned has the reduction for its own
  symmetry, and a filled slot of the cache holds the reduction of its symmetry.\<close>

theorem readers_get_their_reduction:
  assumes "read_reachable finest (slots, rd)" and "rd i = Returned sy r"
  shows "sy < 8 \<and> ReduceRaypathHistogram finest sy = Some r \<and> cache_ok finest slots"
  using read_reachable_ok [OF assms(1)] assms(2) by (auto simp: reader_ok_def dest: spec [of _ i])

definition some_reduction :: "(rat, rat) RaypathHistogramResult" where
  "some_reduction = the (ReduceRaypathHistogram some_result 5)"

lemma some_reduction: "ReduceRaypathHistogram some_result 5 = Some some_reduction"
  using Reduce_spec [OF some_result_fits, of 5] unfolding some_reduction_def by auto

definition published :: "(rat, rat) reduce_slots" where
  "published = snd (cache_publish 5 some_reduction (replicate 8 None))"

definition two_waiting :: "nat \<Rightarrow> (rat, rat) reader" where
  "two_waiting = (\<lambda>_. Waiting 5)"

lemma after_miss: "read_reachable some_result (replicate 8 None, two_waiting(2 := Missed 5))"
proof -
  have "read_reachable some_result (replicate 8 None, two_waiting)"
    by (rule read_reachable.start) (simp add: two_waiting_def)
  moreover have "read_step some_result (replicate 8 None, two_waiting) (replicate 8 None, two_waiting(2 := Missed 5))"
    by (rule read_step.miss) (simp_all add: two_waiting_def cache_lookup_def slot_of_less)
  ultimately show ?thesis by (rule read_reachable.step)
qed

lemma after_publish: "read_reachable some_result (published, two_waiting(2 := Returned 5 some_reduction))"
proof -
  have p: "cache_publish 5 some_reduction (replicate 8 None) = (Some some_reduction, published)"
    by (simp add: published_def cache_publish_def Let_def slot_of_less)
  have "read_step some_result (replicate 8 None, two_waiting(2 := Missed 5))
      (published, (two_waiting(2 := Missed 5))(2 := Returned 5 some_reduction))"
    by (rule read_step.publish [OF _ some_reduction p]) simp
  from read_reachable.step [OF after_miss this] show ?thesis by simp
qed

theorem readers_get_their_reduction_witness:
  "(5 :: u8) < 8 \<and> ReduceRaypathHistogram some_result 5 = Some some_reduction \<and> cache_ok some_result published"
  by (rule readers_get_their_reduction [OF after_publish, of 2]) simp

text \<open>No reader waits for another: in every reachable state each reader that has not returned has a step of its own
  that brings it nearer to its return.\<close>

theorem readers_make_progress:
  assumes "read_reachable finest (slots, rd)" and "layer_count (hr_entries finest) < kOverflowChainId"
    and "remaining (rd i) \<noteq> 0"
  shows "\<exists>slots' x. read_step finest (slots, rd) (slots', rd(i := x)) \<and> remaining x < remaining (rd i)"
  by (rule read_step_enabled [OF assms(1) _ assms(3)]) (use Reduce_spec [OF assms(2)] in fastforce)

theorem readers_make_progress_witness:
  "\<exists>slots' x. read_step some_result (replicate 8 None, two_waiting(2 := Missed 5))
      (slots', (two_waiting(2 := Missed 5))(2 := x)) \<and> remaining x < remaining ((two_waiting(2 := Missed 5)) 2)"
  by (rule readers_make_progress [OF after_miss some_result_fits]) simp

end
